(* ===== verification/Prelude.thy ===== *)
theory Prelude
  imports Main "HOL-Library.Word"
begin

text \<open>
  Shared vocabulary of the development: the machine types of the i386 kernel, C arithmetic on
  \<open>long\<close> and \<open>int\<close>, the outcome type that every kernel routine returns, loops over it, and the
  generic lemmas the component theories build on.

  A routine of the kernel either returns (\<open>Ret\<close>), stops the machine (\<open>Panic\<close>, since
  \<^verbatim>\<open>panic()\<close> of kernel/panic.c ends in an infinite loop), passes control to \<^verbatim>\<open>do_exit()\<close> for
  the current task (\<open>Exit\<close>, never to come back), sleeps forever or loops forever (\<open>Hang\<close>, also
  the value of a loop that has used up its fuel), or leaves the objects the source declares
  (\<open>Fault\<close>: an index outside its array, a null pointer followed). Console output
  (\<^verbatim>\<open>printk\<close>) has no effect on the modelled state.
\<close>

unbundle bit_operations_syntax

type_synonym u8 = "8 word"
type_synonym u16 = "16 word"
type_synonym u32 = "32 word"

named_theorems kmon \<open>unfolding of the outcome combinators\<close>
named_theorems karith \<open>C arithmetic on 32-bit integers\<close>

subsection \<open>C arithmetic\<close>

lemma word_neq_0_bit: "(w :: 'a :: len word) \<noteq> 0 \<longleftrightarrow> (\<exists>k < LENGTH('a). bit w k)"
  by (auto simp: bit_word_eqI intro: ccontr)

text \<open>A C \<open>long\<close> or \<open>int\<close> is an \<open>int\<close>; \<open>wrap32\<close> is the two's complement wrap-around that the
  i386 instructions perform.\<close>

definition wrap32 :: "int \<Rightarrow> int" where
  "wrap32 x = (x + 2147483648) mod 4294967296 - 2147483648"

definition is_s32 :: "int \<Rightarrow> bool" where
  "is_s32 x \<longleftrightarrow> -2147483648 \<le> x \<and> x < 2147483648"

text \<open>C division and remainder truncate towards zero.\<close>

definition c_div :: "int \<Rightarrow> int \<Rightarrow> int" where
  "c_div a b = sgn a * sgn b * (\<bar>a\<bar> div \<bar>b\<bar>)"

definition c_mod :: "int \<Rightarrow> int \<Rightarrow> int" where
  "c_mod a b = a - b * c_div a b"

lemma is_s32_wrap32 [simp]: "is_s32 (wrap32 x)"
proof -
  have "0 \<le> (x + 2147483648) mod 4294967296" and "(x + 2147483648) mod 4294967296 < 4294967296"
    by simp_all
  then show ?thesis by (simp add: is_s32_def wrap32_def)
qed

lemma wrap32_id [simp, karith]: "is_s32 x \<Longrightarrow> wrap32 x = x"
  by (simp add: wrap32_def is_s32_def)

lemma wrap32_idem [simp]: "wrap32 (wrap32 x) = wrap32 x"
  by simp

lemma wrap32_sint: "wrap32 x = sint (word_of_int x :: u32)"
  by (simp add: wrap32_def signed_of_int signed_take_bit_eq_take_bit_shift take_bit_eq_mod)

lemma c_div_nonneg [simp, karith]: "0 \<le> a \<Longrightarrow> 0 < b \<Longrightarrow> c_div a b = a div b"
  by (cases "a = 0") (simp_all add: c_div_def)

lemma c_mod_nonneg [simp, karith]: "0 \<le> a \<Longrightarrow> 0 < b \<Longrightarrow> c_mod a b = a mod b"
  by (simp add: c_mod_def minus_mult_div_eq_mod)

text \<open>32-bit words as natural numbers.\<close>

lemma unat_of_nat32: "n < 2 ^ 32 \<Longrightarrow> unat (of_nat n :: u32) = n"
  by (simp add: unat_of_nat)

lemma of_nat32_inj: "m < 2 ^ 32 \<Longrightarrow> n < 2 ^ 32 \<Longrightarrow> (of_nat m :: u32) = of_nat n \<longleftrightarrow> m = n"
  by (metis unat_of_nat32)

lemma unat_drop_bit32: "unat (drop_bit k (a :: u32)) = unat a div 2 ^ k"
  by (simp only: unat_drop_bit_eq) (simp only: drop_bit_eq_div)

subsection \<open>Outcomes of kernel routines\<close>

datatype ('s, 'a) outcome =
    Ret 'a 's
  | Panic string 's
  | Exit int 's
  | Hang
  | Fault

fun kbind :: "('s, 'a) outcome \<Rightarrow> ('a \<Rightarrow> 's \<Rightarrow> ('s, 'b) outcome) \<Rightarrow> ('s, 'b) outcome" where
  "kbind (Ret a s) f = f a s"
| "kbind (Panic m s) f = Panic m s"
| "kbind (Exit c s) f = Exit c s"
| "kbind Hang f = Hang"
| "kbind Fault f = Fault"

lemma kbind_eq_Ret_iff [kmon]:
  "kbind m f = Ret b t \<longleftrightarrow> (\<exists>a s. m = Ret a s \<and> f a s = Ret b t)"
  by (cases m) auto

lemma kbind_assoc: "kbind (kbind m f) g = kbind m (\<lambda>a s. kbind (f a s) g)"
  by (cases m) auto

lemma kbind_cong [fundef_cong]:
  "m = m' \<Longrightarrow> (\<And>a s. m' = Ret a s \<Longrightarrow> f a s = f' a s) \<Longrightarrow> kbind m f = kbind m' f'"
  by (cases m') auto

lemma kbind_Ret_right [simp]: "kbind m Ret = m"
  by (cases m) auto

text \<open>\<open>kpred I m\<close>: every state that \<open>m\<close> carries satisfies \<open>I\<close>. It is the vehicle of the invariant
  proofs: an invariant of every routine is an invariant of their composition.\<close>

fun kpred :: "('s \<Rightarrow> bool) \<Rightarrow> ('s, 'a) outcome \<Rightarrow> bool" where
  "kpred I (Ret a s) = I s"
| "kpred I (Panic m s) = I s"
| "kpred I (Exit c s) = I s"
| "kpred I Hang = True"
| "kpred I Fault = True"

named_theorems kpred_intro \<open>invariant preservation, one rule per routine\<close>

lemma kpred_bind [kpred_intro]:
  "kpred I m \<Longrightarrow> (\<And>a s. I s \<Longrightarrow> kpred I (f a s)) \<Longrightarrow> kpred I (kbind m f)"
  by (cases m) auto

lemma kpred_RetD: "kpred I m \<Longrightarrow> m = Ret a s \<Longrightarrow> I s"
  by simp

subsection \<open>Loops\<close>

text \<open>\<open>kfor\<close> is a counting loop: the index runs through a list, \<open>v\<close> holds the local variables that
  the body changes. \<open>kloop\<close> is a loop with no bound of its own (\<^verbatim>\<open>while (1)\<close>, \<^verbatim>\<open>goto repeat\<close>):
  the body returns \<open>None\<close> to go round again; the fuel bounds the rounds.\<close>

fun kfor :: "('i \<Rightarrow> 'v \<Rightarrow> 's \<Rightarrow> ('s, 'v) outcome) \<Rightarrow> 'i list \<Rightarrow> 'v \<Rightarrow> 's \<Rightarrow> ('s, 'v) outcome" where
  "kfor f [] v s = Ret v s"
| "kfor f (i # is) v s = kbind (f i v s) (\<lambda>v s. kfor f is v s)"

fun kloop :: "nat \<Rightarrow> ('s \<Rightarrow> ('s, 'a option) outcome) \<Rightarrow> 's \<Rightarrow> ('s, 'a) outcome" where
  "kloop 0 b s = Hang"
| "kloop (Suc n) b s =
     kbind (b s) (\<lambda>r s. case r of Some a \<Rightarrow> Ret a s | None \<Rightarrow> kloop n b s)"

text \<open>\<open>kwhile\<close> is such a loop with local variables \<open>v\<close>: the body returns \<open>Inl\<close> of their new values to
  go round again and \<open>Inr\<close> of the result to leave.\<close>

fun kwhile :: "nat \<Rightarrow> ('v \<Rightarrow> 's \<Rightarrow> ('s, 'v + 'a) outcome) \<Rightarrow> 'v \<Rightarrow> 's \<Rightarrow> ('s, 'a) outcome" where
  "kwhile 0 b v s = Hang"
| "kwhile (Suc n) b v s =
     kbind (b v s) (\<lambda>r s. case r of Inr a \<Rightarrow> Ret a s | Inl v \<Rightarrow> kwhile n b v s)"

lemma kwhile_unfold: "0 < n \<Longrightarrow> kwhile n b v s =
     kbind (b v s) (\<lambda>r s. case r of Inr a \<Rightarrow> Ret a s | Inl v \<Rightarrow> kwhile (n - 1) b v s)"
  by (cases n) (simp_all cong: option.case_cong sum.case_cong)

lemma kloop_unfold: "0 < n \<Longrightarrow> kloop n b s =
     kbind (b s) (\<lambda>r s. case r of Some a \<Rightarrow> Ret a s | None \<Rightarrow> kloop (n - 1) b s)"
  by (cases n) (simp_all cong: option.case_cong sum.case_cong)

lemma kpred_kwhile [kpred_intro]:
  assumes "I s" and "\<And>v s. I s \<Longrightarrow> kpred I (b v s)"
  shows "kpred I (kwhile n b v s)"
  using assms by (induction n arbitrary: v s) (auto intro!: kpred_bind split: sum.splits)

text \<open>A loop whose body keeps an invariant \<open>I\<close> and decreases a measure returns as soon as the fuel exceeds
  the measure, in a state that its last round reached from the invariant.\<close>

lemma kwhile_rule:
  assumes "\<And>v s. I v s \<Longrightarrow> \<exists>r t. b v s = Ret r t \<and>
      (case r of Inl w \<Rightarrow> I w t \<and> \<mu> w t < (\<mu> v s :: nat) | Inr a \<Rightarrow> Q a t)"
    and "I v s" and "\<mu> v s < n"
  shows "\<exists>a t. kwhile n b v s = Ret a t \<and> Q a t"
  using assms(2,3)
proof (induction n arbitrary: v s)
  case 0
  then show ?case by simp
next
  case (Suc n)
  from assms(1) [OF Suc.prems(1)] obtain r t where bs: "b v s = Ret r t"
    and r: "case r of Inl w \<Rightarrow> I w t \<and> \<mu> w t < \<mu> v s | Inr a \<Rightarrow> Q a t" by blast
  show ?case
  proof (cases r)
    case (Inl w)
    with r Suc.prems have "I w t" "\<mu> w t < n" by auto
    with Suc.IH [of w t] bs Inl show ?thesis by simp
  next
    case (Inr a)
    with bs r show ?thesis by simp
  qed
qed

lemma kfor_append: "kfor f (xs @ ys) v s = kbind (kfor f xs v s) (\<lambda>v s. kfor f ys v s)"
proof (induction xs arbitrary: v s)
  case Nil
  then show ?case by simp
next
  case (Cons x xs)
  then show ?case by (cases "f x v s") simp_all
qed

lemma kpred_kfor [kpred_intro]:
  assumes "I s" and "\<And>i v s. i \<in> set is \<Longrightarrow> I s \<Longrightarrow> kpred I (f i v s)"
  shows "kpred I (kfor f is v s)"
  using assms by (induction "is" arbitrary: v s) (auto intro!: kpred_bind)

lemma kpred_kloop [kpred_intro]:
  assumes "I s" and "\<And>s. I s \<Longrightarrow> kpred I (b s)"
  shows "kpred I (kloop n b s)"
  using assms by (induction n arbitrary: s) (auto intro!: kpred_bind split: option.splits)

text \<open>A loop whose body never fails and which decreases a measure returns as soon as the fuel
  exceeds the measure.\<close>

lemma kloop_terminates:
  assumes "\<And>s. I s \<Longrightarrow> \<exists>r t. b s = Ret r t \<and> (r = None \<longrightarrow> I t \<and> \<mu> t < (\<mu> s :: nat))"
    and "I s" and "\<mu> s < n"
  shows "\<exists>a t. kloop n b s = Ret a t"
  using assms(2,3)
proof (induction n arbitrary: s)
  case 0
  then show ?case by simp
next
  case (Suc n)
  from assms(1)[OF Suc.prems(1)] obtain r t where
    bs: "b s = Ret r t" and dec: "r = None \<longrightarrow> I t \<and> \<mu> t < \<mu> s" by blast
  show ?case
  proof (cases r)
    case None
    with dec Suc.prems have "I t" and "\<mu> t < n" by auto
    with Suc.IH[of t] bs None show ?thesis by simp
  next
    case (Some a)
    with bs show ?thesis by simp
  qed
qed

text \<open>More fuel never changes the result of a loop that has returned.\<close>

lemma kloop_mono: "kloop n b s = Ret a t \<Longrightarrow> n \<le> m \<Longrightarrow> kloop m b s = Ret a t"
proof (induction n arbitrary: s m)
  case 0
  then show ?case by simp
next
  case (Suc n)
  from Suc.prems(2) obtain m' where m: "m = Suc m'" and "n \<le> m'" by (cases m) auto
  from Suc.prems(1) obtain r u where bs: "b s = Ret r u"
    and k: "(case r of Some a \<Rightarrow> Ret a u | None \<Rightarrow> kloop n b u) = Ret a t"
    by (auto simp: kbind_eq_Ret_iff)
  with Suc.IH[of u m'] \<open>n \<le> m'\<close> m show ?case
    by (cases r) auto
qed

subsection \<open>Bounded search\<close>

text \<open>Scans over the kernel's static tables: \<open>find_up p a b\<close> is the first index in \<open>[a, b)\<close> with
  \<open>p\<close>, \<open>find_down p n\<close> the last index below \<open>n\<close> with \<open>p\<close>.\<close>

definition find_up :: "(nat \<Rightarrow> bool) \<Rightarrow> nat \<Rightarrow> nat \<Rightarrow> nat option" where
  "find_up p a b = find p [a..<b]"

fun find_down :: "(nat \<Rightarrow> bool) \<Rightarrow> nat \<Rightarrow> nat option" where
  "find_down p 0 = None"
| "find_down p (Suc n) = (if p n then Some n else find_down p n)"

lemma find_down_numeral:
  "find_down p (numeral k) =
     (if p (pred_numeral k) then Some (pred_numeral k) else find_down p (pred_numeral k))"
  by (simp add: numeral_eq_Suc)

lemma find_down_Some_iff:
  "find_down p n = Some i \<longleftrightarrow> i < n \<and> p i \<and> (\<forall>j. i < j \<and> j < n \<longrightarrow> \<not> p j)"
proof (induction n)
  case 0
  then show ?case by simp
next
  case (Suc n)
  show ?case
  proof (cases "p n")
    case True
    then show ?thesis by (auto simp: less_Suc_eq)
  next
    case False
    with Suc.IH show ?thesis by (auto simp: less_Suc_eq)
  qed
qed

lemma find_down_None_iff: "find_down p n = None \<longleftrightarrow> (\<forall>j < n. \<not> p j)"
  by (induction n) (auto simp: less_Suc_eq)

lemma find_up_Some_iff:
  "find_up p a b = Some i \<longleftrightarrow> a \<le> i \<and> i < b \<and> p i \<and> (\<forall>j. a \<le> j \<and> j < i \<longrightarrow> \<not> p j)"
proof
  assume "find_up p a b = Some i"
  then obtain k where k: "k < b - a" "p (a + k)" "i = a + k" "\<forall>j<k. \<not> p (a + j)"
    by (auto simp: find_up_def find_Some_iff)
  have "\<not> p j" if "a \<le> j" "j < i" for j
    using k(4) that k(3) by (metis add_diff_inverse_nat less_diff_conv2 not_le add.commute)
  with k show "a \<le> i \<and> i < b \<and> p i \<and> (\<forall>j. a \<le> j \<and> j < i \<longrightarrow> \<not> p j)" by auto
next
  assume "a \<le> i \<and> i < b \<and> p i \<and> (\<forall>j. a \<le> j \<and> j < i \<longrightarrow> \<not> p j)"
  then show "find_up p a b = Some i"
    by (auto simp: find_up_def find_Some_iff intro!: exI[of _ "i - a"])
qed

lemma find_up_None_iff: "find_up p a b = None \<longleftrightarrow> (\<forall>j. a \<le> j \<and> j < b \<longrightarrow> \<not> p j)"
  by (auto simp: find_up_def find_None_iff)

subsection \<open>Little-endian views of bytes\<close>

definition le16 :: "u8 \<Rightarrow> u8 \<Rightarrow> u16" where
  "le16 lo hi = ucast lo OR push_bit 8 (ucast hi)"

definition byte_of16 :: "nat \<Rightarrow> u16 \<Rightarrow> u8" where
  "byte_of16 k w = ucast (drop_bit (8 * k) w)"

definition byte_of32 :: "nat \<Rightarrow> u32 \<Rightarrow> u8" where
  "byte_of32 k w = ucast (drop_bit (8 * k) w)"

definition le32 :: "(nat \<Rightarrow> u8) \<Rightarrow> u32" where
  "le32 b = ucast (b 0) OR push_bit 8 (ucast (b 1)) OR push_bit 16 (ucast (b 2))
     OR push_bit 24 (ucast (b 3))"

lemma le16_bytes [simp]: "le16 (byte_of16 0 w) (byte_of16 1 w) = w"
  by (rule bit_word_eqI)
    (auto simp: le16_def byte_of16_def bit_simps)

lemma byte_of16_le16 [simp]:
  "byte_of16 0 (le16 lo hi) = lo" "byte_of16 (Suc 0) (le16 lo hi) = hi"
  by (rule bit_word_eqI, auto simp: le16_def byte_of16_def bit_simps dest: bit_imp_le_length)+

lemma le32_bytes [simp]: "le32 (\<lambda>k. byte_of32 k w) = w"
proof (rule bit_word_eqI)
  fix n :: nat assume "n < LENGTH(32)"
  then have n: "n < 32" by simp
  show "bit (le32 (\<lambda>k. byte_of32 k w)) n = bit w n"
  proof -
    consider "n < 8" | "8 \<le> n" "n < 16" | "16 \<le> n" "n < 24" | "24 \<le> n" using n by linarith
    then show ?thesis using n by cases (simp_all add: le32_def byte_of32_def bit_simps less_diff_conv2)
  qed
qed

subsection \<open>Queues\<close>

text \<open>The contract of a bounded first-in first-out queue: \<open>items\<close> are its elements, oldest first, and \<open>cap\<close> is
  how many it holds.\<close>

locale fifo =
  fixes items :: "'q \<Rightarrow> 'a list" and put :: "'a \<Rightarrow> 'q \<Rightarrow> 'q" and get :: "'q \<Rightarrow> 'a \<times> 'q"
    and ok :: "'q \<Rightarrow> bool" and cap :: nat
  assumes put_ok: "ok q \<Longrightarrow> length (items q) < cap \<Longrightarrow> ok (put a q)"
    and items_put: "ok q \<Longrightarrow> length (items q) < cap \<Longrightarrow> items (put a q) = items q @ [a]"
    and get_ok: "ok q \<Longrightarrow> items q \<noteq> [] \<Longrightarrow> ok (snd (get q))"
    and items_get: "ok q \<Longrightarrow> items q \<noteq> [] \<Longrightarrow> fst (get q) = hd (items q) \<and> items (snd (get q)) = tl (items q)"
begin

fun get_n :: "nat \<Rightarrow> 'q \<Rightarrow> 'a list \<times> 'q" where
  "get_n 0 q = ([], q)"
| "get_n (Suc n) q = (let (a, q') = get q; (as, q'') = get_n n q' in (a # as, q''))"

lemma put_all:
  "ok q \<Longrightarrow> length (items q) + length as \<le> cap \<Longrightarrow> ok (fold put as q) \<and> items (fold put as q) = items q @ as"
  by (induction as arbitrary: q) (auto simp: put_ok items_put)

lemma get_n_items:
  "ok q \<Longrightarrow> n \<le> length (items q) \<Longrightarrow> fst (get_n n q) = take n (items q) \<and>
     items (snd (get_n n q)) = drop n (items q) \<and> ok (snd (get_n n q))"
proof (induction n arbitrary: q)
  case 0
  then show ?case by simp
next
  case (Suc n)
  obtain a q' where g: "get q = (a, q')" by (cases "get q")
  have ne: "items q \<noteq> []" using Suc.prems(2) by auto
  have h: "a = hd (items q)" "items q' = tl (items q)" "ok q'"
    using items_get [OF Suc.prems(1) ne] get_ok [OF Suc.prems(1) ne] g by auto
  obtain as q'' where n: "get_n n q' = (as, q'')" by (cases "get_n n q'")
  have "as = take n (tl (items q))" "items q'' = drop n (tl (items q))" "ok q''"
    using Suc.IH [OF h(3)] Suc.prems(2) h(2) n by auto
  then show ?case using g n h ne by (cases "items q") auto
qed

lemma fifo_order:
  assumes "ok q" "length (items q) + length as \<le> cap"
  shows "fst (get_n (length (items q) + length as) (fold put as q)) = items q @ as"
  using put_all [OF assms] get_n_items [of "fold put as q" "length (items q) + length as"] by simp

end

end
