(* ===== verification/KState.thy ===== *)
theory KState
  imports Prelude
begin

text \<open>
  The data of the kernel, in the shape of its headers: the structures of include/linux/sched.h,
  include/linux/fs.h, include/linux/tty.h, include/signal.h and kernel/blk_drv/blk.h as records,
  and one record \<open>kernel\<close> of the global variables, built up component by component.

  A pointer into a static table (\<^verbatim>\<open>inode_table\<close>, \<^verbatim>\<open>file_table\<close>, \<^verbatim>\<open>super_block\<close>, the
  buffer heads, \<^verbatim>\<open>request\<close>, \<^verbatim>\<open>timer_list\<close>) is the index of its element, \<open>None\<close> for
  \<^verbatim>\<open>NULL\<close>. A pointer to a \<^verbatim>\<open>task_struct\<close> is the address of the page it lives on, 0 for
  \<^verbatim>\<open>NULL\<close>; \<open>tstruct\<close> is the store of these structures, so a stale pointer stays a pointer. A wait
  queue (a \<^verbatim>\<open>struct task_struct *\<close> variable whose address is passed to \<^verbatim>\<open>sleep_on\<close>) is
  named by a value of \<open>waitq\<close>. Flags that hold 0 or 1 are \<open>bool\<close>; counts keep their width.
\<close>

subsection \<open>Constants\<close>

abbreviation (input) "NR_TASKS \<equiv> (64::nat)"
abbreviation (input) "HZ \<equiv> (100::int)"
abbreviation (input) "NR_OPEN \<equiv> (20::nat)"
abbreviation (input) "NR_INODE \<equiv> (32::nat)"
abbreviation (input) "NR_FILE \<equiv> (64::nat)"
abbreviation (input) "NR_SUPER \<equiv> (8::nat)"
abbreviation (input) "NR_HASH \<equiv> (307::nat)"
abbreviation (input) "NR_REQUEST \<equiv> (32::nat)"
abbreviation (input) "BLOCK_SIZE \<equiv> (1024::nat)"
abbreviation (input) "PAGE_SIZE \<equiv> (4096::nat)"
abbreviation (input) "NAME_LEN \<equiv> (14::nat)"
abbreviation (input) "ROOT_INO \<equiv> (1::u16)"

abbreviation (input) "TASK_RUNNING \<equiv> (0::int)"
abbreviation (input) "TASK_INTERRUPTIBLE \<equiv> (1::int)"
abbreviation (input) "TASK_UNINTERRUPTIBLE \<equiv> (2::int)"
abbreviation (input) "TASK_ZOMBIE \<equiv> (3::int)"
abbreviation (input) "TASK_STOPPED \<equiv> (4::int)"

abbreviation (input) "SIGHUP \<equiv> (1::nat)"
abbreviation (input) "SIGKILL \<equiv> (9::nat)"
abbreviation (input) "SIGSEGV \<equiv> (11::nat)"
abbreviation (input) "SIGPIPE \<equiv> (13::nat)"
abbreviation (input) "SIGALRM \<equiv> (14::nat)"
abbreviation (input) "SIGCHLD \<equiv> (17::nat)"
abbreviation (input) "SIGSTOP \<equiv> (19::nat)"

abbreviation (input) "ERROR \<equiv> (99::int)"
abbreviation (input) "EPERM \<equiv> (1::int)"
abbreviation (input) "ENOENT \<equiv> (2::int)"
abbreviation (input) "ESRCH \<equiv> (3::int)"
abbreviation (input) "EINTR \<equiv> (4::int)"
abbreviation (input) "EIO \<equiv> (5::int)"
abbreviation (input) "EBADF \<equiv> (9::int)"
abbreviation (input) "ECHILD \<equiv> (10::int)"
abbreviation (input) "EAGAIN \<equiv> (11::int)"
abbreviation (input) "ENOMEM \<equiv> (12::int)"
abbreviation (input) "EACCES \<equiv> (13::int)"
abbreviation (input) "ENOTBLK \<equiv> (15::int)"
abbreviation (input) "EBUSY \<equiv> (16::int)"
abbreviation (input) "EEXIST \<equiv> (17::int)"
abbreviation (input) "EXDEV \<equiv> (18::int)"
abbreviation (input) "ENODEV \<equiv> (19::int)"
abbreviation (input) "ENOTDIR \<equiv> (20::int)"
abbreviation (input) "EISDIR \<equiv> (21::int)"
abbreviation (input) "EINVAL \<equiv> (22::int)"
abbreviation (input) "EMFILE \<equiv> (24::int)"
abbreviation (input) "ENOTTY \<equiv> (25::int)"
abbreviation (input) "ENOSPC \<equiv> (28::int)"
abbreviation (input) "ESPIPE \<equiv> (29::int)"
abbreviation (input) "ENOSYS \<equiv> (38::int)"
abbreviation (input) "ENOTEMPTY \<equiv> (39::int)"

text \<open>\<open>sigbit n\<close> is \<^verbatim>\<open>1<<(n-1)\<close>, the bit of signal \<open>n\<close> in a signal bitmap.\<close>

definition sigbit :: "nat \<Rightarrow> u32" where
  "sigbit n = push_bit (n - 1) 1"

lemma bit_sigbit: "bit (sigbit n) k \<longleftrightarrow> k = n - 1 \<and> n - 1 < 32"
  by (auto simp: sigbit_def bit_simps)

subsection \<open>Structures\<close>

record sigaction =
  sa_handler :: u32
  sa_mask :: u32
  sa_flags :: u32
  sa_restorer :: u32

record desc_struct =
  desc_a :: u32
  desc_b :: u32

type_synonym i387_struct = "nat \<Rightarrow> u32"

record tss_struct =
  tss_back_link :: u32
  tss_esp0 :: u32
  tss_ss0 :: u32
  tss_esp1 :: u32
  tss_ss1 :: u32
  tss_esp2 :: u32
  tss_ss2 :: u32
  tss_cr3 :: u32
  tss_eip :: u32
  tss_eflags :: u32
  tss_eax :: u32
  tss_ecx :: u32
  tss_edx :: u32
  tss_ebx :: u32
  tss_esp :: u32
  tss_ebp :: u32
  tss_esi :: u32
  tss_edi :: u32
  tss_es :: u32
  tss_cs :: u32
  tss_ss :: u32
  tss_ds :: u32
  tss_fs :: u32
  tss_gs :: u32
  tss_ldt :: u32
  tss_trace_bitmap :: u32
  tss_i387 :: i387_struct

record task_struct =
  t_state :: int
  t_counter :: int
  t_priority :: int
  t_signal :: u32
  t_sigaction :: "nat \<Rightarrow> sigaction"
  t_blocked :: u32
  t_exit_code :: int
  t_start_code :: u32
  t_end_code :: u32
  t_end_data :: u32
  t_brk :: u32
  t_start_stack :: u32
  t_pid :: int
  t_father :: int
  t_pgrp :: int
  t_session :: int
  t_leader :: int
  t_uid :: u16
  t_euid :: u16
  t_suid :: u16
  t_gid :: u16
  t_egid :: u16
  t_sgid :: u16
  t_alarm :: int
  t_utime :: int
  t_stime :: int
  t_cutime :: int
  t_cstime :: int
  t_start_time :: int
  t_used_math :: u16
  t_tty :: int
  t_umask :: u16
  t_pwd :: "nat option"
  t_root :: "nat option"
  t_executable :: "nat option"
  t_close_on_exec :: u32
  t_filp :: "nat \<Rightarrow> nat option"
  t_ldt :: "nat \<Rightarrow> desc_struct"
  t_tss :: tss_struct

record buffer_head =
  b_data :: "nat \<Rightarrow> u8"
  b_blocknr :: u32
  b_dev :: u16
  b_uptodate :: bool
  b_dirt :: bool
  b_count :: u8
  b_lock :: bool
  b_prev :: "nat option"
  b_next :: "nat option"
  b_prev_free :: "nat option"
  b_next_free :: "nat option"

record d_inode =
  i_mode :: u16
  i_uid :: u16
  i_size :: u32
  i_mtime :: u32
  i_gid :: u8
  i_nlinks :: u8
  i_zone :: "nat \<Rightarrow> u16"

record m_inode = d_inode +
  i_atime :: u32
  i_ctime :: u32
  i_dev :: u16
  i_num :: u16
  i_count :: u16
  i_lock :: bool
  i_dirt :: bool
  i_pipe :: bool
  i_mount :: bool
  i_seek :: bool
  i_update :: bool

record file_struct =
  f_mode :: u16
  f_flags :: u16
  f_count :: u16
  f_inode :: "nat option"
  f_pos :: int

record d_super_block =
  s_ninodes :: u16
  s_nzones :: u16
  s_imap_blocks :: u16
  s_zmap_blocks :: u16
  s_firstdatazone :: u16
  s_log_zone_size :: u16
  s_max_size :: u32
  s_magic :: u16

record super_block = d_super_block +
  s_imap :: "nat \<Rightarrow> nat option"
  s_zmap :: "nat \<Rightarrow> nat option"
  s_dev :: u16
  s_isup :: "nat option"
  s_imount :: "nat option"
  s_time :: u32
  s_lock :: bool
  s_rd_only :: bool
  s_dirt :: bool

datatype rwcmd = READ | WRITE | READA | WRITEA

record request =
  r_dev :: int
  r_cmd :: rwcmd
  r_errors :: int
  r_sector :: u32
  r_nr_sectors :: u32
  r_buffer :: nat
  r_bh :: "nat option"
  r_next :: "nat option"

datatype driver = Do_rd_request | Do_fd_request | Do_hd_request

record blk_dev_struct =
  request_fn :: "driver option"
  current_request :: "nat option"

record timer_node =
  tm_jiffies :: int
  tm_fn :: u32
  tm_next :: "nat option"

record tty_queue =
  q_data :: u32
  q_head :: u32
  q_tail :: u32
  q_buf :: "nat \<Rightarrow> u8"

record termios =
  c_iflag :: u32
  c_oflag :: u32
  c_cflag :: u32
  c_lflag :: u32
  c_line :: u8
  c_cc :: "nat \<Rightarrow> u8"

record tty_struct =
  tty_termios :: termios
  tty_pgrp :: int
  tty_stopped :: bool
  read_q :: tty_queue
  write_q :: tty_queue
  secondary :: tty_queue

text \<open>The wait queues of the kernel: \<^verbatim>\<open>b_wait\<close> of a buffer head, \<^verbatim>\<open>i_wait\<close> of an inode,
  \<^verbatim>\<open>s_wait\<close> of a super block, \<^verbatim>\<open>buffer_wait\<close>, \<^verbatim>\<open>wait_for_request\<close>, \<^verbatim>\<open>waiting\<close> of a
  request, \<^verbatim>\<open>wait_motor[i]\<close>, \<^verbatim>\<open>wait_on_floppy_select\<close>, and \<^verbatim>\<open>proc_list\<close> of the three queues of a tty.\<close>

datatype waitq =
    B_wait nat
  | I_wait nat
  | S_wait nat
  | Buffer_wait
  | Wait_for_request
  | Req_waiting nat
  | Wait_motor nat
  | Wait_on_floppy_select
  | Read_list nat
  | Write_list nat
  | Secondary_list nat

subsection \<open>The kernel's global variables\<close>

text \<open>Physical memory: \<open>phys a\<close> is the 32-bit word at the aligned address \<open>a\<close>; the page directory is at
  address 0 (\<^verbatim>\<open>_pg_dir = 0\<close>). \<open>umem\<close> is the user data segment of the current task (the
  \<^verbatim>\<open>fs\<close> segment) as a map from offsets to bytes.\<close>

record mm_state =
  mem_map :: "nat \<Rightarrow> u8"
  HIGH_MEMORY :: u32
  phys :: "u32 \<Rightarrow> u32"
  umem :: "u32 \<Rightarrow> u8"

record sched_state = mm_state +
  task :: "nat \<Rightarrow> u32"
  tstruct :: "u32 \<Rightarrow> task_struct"
  current :: u32
  init_task :: u32
  last_task_used_math :: u32
  fpu :: i387_struct
  fpu_init :: i387_struct
  jiffies :: int
  startup_time :: int
  last_pid :: int
  wq :: "waitq \<Rightarrow> u32"
  gdt :: "nat \<Rightarrow> desc_struct"

record timer_state = sched_state +
  timer_list :: "nat \<Rightarrow> timer_node"
  next_timer :: "nat option"
  mon_timer :: "nat \<Rightarrow> int"
  moff_timer :: "nat \<Rightarrow> int"
  current_DOR :: u8
  selected :: bool
  beepcount :: int

record buf_state = timer_state +
  start_buffer :: u32
  NR_BUFFERS :: nat
  bufs :: "nat \<Rightarrow> buffer_head"
  hash_table :: "nat \<Rightarrow> nat option"
  free_list :: "nat option"
  request :: "nat \<Rightarrow> request"
  blk_dev :: "nat \<Rightarrow> blk_dev_struct"
  rd_start :: u32
  rd_length :: int
  rd_data :: "nat \<Rightarrow> u8"

record kernel = buf_state +
  inode_table :: "nat \<Rightarrow> m_inode"
  last_inode :: nat
  super_block :: "nat \<Rightarrow> super_block"
  file_table :: "nat \<Rightarrow> file_struct"
  tty_table :: "nat \<Rightarrow> tty_struct"
  cr_flag :: bool
  ROOT_DEV :: u16

text \<open>What a kernel routine depends on beside the state: the fuel of its unbounded loops; \<open>others\<close>, the
  effect of the other tasks and of the interrupts from the moment the current task gives up the
  processor until it runs again; the request functions of the hard disk and floppy drivers; the
  floppy's disk-change line; the code behind a timer's function pointer; the \<^verbatim>\<open>write\<close> routine of a
  tty's driver; the values of the input ports; and the bytes an uninitialised local variable
  happens to hold.\<close>

record env =
  fuel :: nat
  others :: "kernel \<Rightarrow> kernel"
  do_fd_request :: "kernel \<Rightarrow> kernel"
  do_hd_request :: "kernel \<Rightarrow> kernel"
  floppy_change :: "u16 \<Rightarrow> bool"
  call_fn :: "u32 \<Rightarrow> kernel \<Rightarrow> kernel"
  tty_drv :: "nat \<Rightarrow> kernel \<Rightarrow> kernel"
  port_in :: "nat \<Rightarrow> u8"
  junk :: "nat \<Rightarrow> u8"

type_synonym 'a kres = "(kernel, 'a) outcome"

subsection \<open>Access to the structures\<close>

text \<open>\<open>cur s\<close> is \<^verbatim>\<open>*current\<close>; the \<open>upd_\<close> operations update one element of a table in place.\<close>

definition cur :: "kernel \<Rightarrow> task_struct" where
  "cur s = tstruct s (current s)"

definition upd_task :: "u32 \<Rightarrow> (task_struct \<Rightarrow> task_struct) \<Rightarrow> kernel \<Rightarrow> kernel" where
  "upd_task p f s = s\<lparr>tstruct := (tstruct s)(p := f (tstruct s p))\<rparr>"

definition upd_cur :: "(task_struct \<Rightarrow> task_struct) \<Rightarrow> kernel \<Rightarrow> kernel" where
  "upd_cur f s = upd_task (current s) f s"

definition upd_buf :: "nat \<Rightarrow> (buffer_head \<Rightarrow> buffer_head) \<Rightarrow> kernel \<Rightarrow> kernel" where
  "upd_buf i f s = s\<lparr>bufs := (bufs s)(i := f (bufs s i))\<rparr>"

definition upd_inode :: "nat \<Rightarrow> (m_inode \<Rightarrow> m_inode) \<Rightarrow> kernel \<Rightarrow> kernel" where
  "upd_inode i f s = s\<lparr>inode_table := (inode_table s)(i := f (inode_table s i))\<rparr>"

definition upd_super :: "nat \<Rightarrow> (super_block \<Rightarrow> super_block) \<Rightarrow> kernel \<Rightarrow> kernel" where
  "upd_super i f s = s\<lparr>super_block := (super_block s)(i := f (super_block s i))\<rparr>"

definition upd_file :: "nat \<Rightarrow> (file_struct \<Rightarrow> file_struct) \<Rightarrow> kernel \<Rightarrow> kernel" where
  "upd_file i f s = s\<lparr>file_table := (file_table s)(i := f (file_table s i))\<rparr>"

definition upd_req :: "nat \<Rightarrow> (request \<Rightarrow> request) \<Rightarrow> kernel \<Rightarrow> kernel" where
  "upd_req i f s = s\<lparr>request := (request s)(i := f (request s i))\<rparr>"

lemmas upd_defs = upd_task_def upd_cur_def upd_buf_def upd_inode_def upd_super_def upd_file_def
  upd_req_def

text \<open>User memory through the \<^verbatim>\<open>fs\<close> segment (include/asm/segment.h).\<close>

definition get_fs_byte :: "u32 \<Rightarrow> kernel \<Rightarrow> u8" where
  "get_fs_byte addr s = umem s addr"

definition get_fs_long :: "u32 \<Rightarrow> kernel \<Rightarrow> u32" where
  "get_fs_long addr s = le32 (\<lambda>k. umem s (addr + of_nat k))"

definition put_fs_byte :: "u8 \<Rightarrow> u32 \<Rightarrow> kernel \<Rightarrow> kernel" where
  "put_fs_byte v addr s = s\<lparr>umem := (umem s)(addr := v)\<rparr>"

definition put_fs_long :: "u32 \<Rightarrow> u32 \<Rightarrow> kernel \<Rightarrow> kernel" where
  "put_fs_long v addr s =
     s\<lparr>umem := (umem s)(addr := byte_of32 0 v, addr + 1 := byte_of32 1 v,
                        addr + 2 := byte_of32 2 v, addr + 3 := byte_of32 3 v)\<rparr>"

lemma get_put_fs_long: "get_fs_long a (put_fs_long v a s) = v"
proof -
  have "get_fs_long a (put_fs_long v a s) = le32 (\<lambda>k. byte_of32 k v)"
    unfolding get_fs_long_def put_fs_long_def le32_def by simp
  then show ?thesis by simp
qed

text \<open>The loops that copy bytes to user memory, and a single byte of physical memory.\<close>

definition put_fs_bytes :: "(nat \<Rightarrow> u8) \<Rightarrow> nat \<Rightarrow> u32 \<Rightarrow> kernel \<Rightarrow> kernel" where
  "put_fs_bytes d n addr s = fold (\<lambda>k s. put_fs_byte (d k) (addr + of_nat k) s) [0..<n] s"

definition phys_byte :: "u32 \<Rightarrow> kernel \<Rightarrow> u8" where
  "phys_byte a s = byte_of32 (unat (a AND 3)) (phys s (a AND NOT 3))"

definition set_phys_byte :: "u32 \<Rightarrow> u8 \<Rightarrow> kernel \<Rightarrow> kernel" where
  "set_phys_byte a v s =
     s\<lparr>phys := (phys s)(a AND NOT 3 :=
         le32 ((\<lambda>k. byte_of32 k (phys s (a AND NOT 3)))(unat (a AND 3) := v)))\<rparr>"

text \<open>\<^verbatim>\<open>suser()\<close> (include/linux/kernel.h) and \<^verbatim>\<open>CURRENT_TIME\<close> (include/linux/sched.h).\<close>

definition suser :: "kernel \<Rightarrow> bool" where
  "suser s \<longleftrightarrow> t_euid (cur s) = 0"

definition CURRENT_TIME :: "kernel \<Rightarrow> int" where
  "CURRENT_TIME s = wrap32 (startup_time s + c_div (jiffies s) HZ)"

subsection \<open>The zeroed image\<close>

text \<open>The kernel's data as the boot loader leaves it, every variable 0 and every pointer \<^verbatim>\<open>NULL\<close>; the
  concrete states that the theorems are tried on are updates of it.\<close>

definition zero_desc :: desc_struct where
  "zero_desc = \<lparr>desc_a = 0, desc_b = 0\<rparr>"

definition zero_tss :: tss_struct where
  "zero_tss = \<lparr>tss_back_link = 0, tss_esp0 = 0, tss_ss0 = 0, tss_esp1 = 0,
     tss_ss1 = 0, tss_esp2 = 0, tss_ss2 = 0, tss_cr3 = 0, tss_eip = 0,
     tss_eflags = 0, tss_eax = 0, tss_ecx = 0, tss_edx = 0, tss_ebx = 0, tss_esp = 0, tss_ebp = 0,
     tss_esi = 0, tss_edi = 0, tss_es = 0, tss_cs = 0, tss_ss = 0, tss_ds = 0, tss_fs = 0,
     tss_gs = 0, tss_ldt = 0, tss_trace_bitmap = 0, tss_i387 = (\<lambda>_. 0)\<rparr>"

definition zero_task :: task_struct where
  "zero_task = \<lparr>t_state = 0, t_counter = 0, t_priority = 0, t_signal = 0,
     t_sigaction = (\<lambda>_. \<lparr>sa_handler = 0, sa_mask = 0, sa_flags = 0, sa_restorer = 0\<rparr>),
     t_blocked = 0, t_exit_code = 0, t_start_code = 0, t_end_code = 0, t_end_data = 0, t_brk = 0,
     t_start_stack = 0, t_pid = 0, t_father = 0, t_pgrp = 0, t_session = 0, t_leader = 0,
     t_uid = 0, t_euid = 0, t_suid = 0, t_gid = 0, t_egid = 0, t_sgid = 0, t_alarm = 0,
     t_utime = 0, t_stime = 0, t_cutime = 0, t_cstime = 0, t_start_time = 0, t_used_math = 0,
     t_tty = 0, t_umask = 0, t_pwd = None, t_root = None, t_executable = None,
     t_close_on_exec = 0, t_filp = (\<lambda>_. None), t_ldt = (\<lambda>_. zero_desc), t_tss = zero_tss\<rparr>"

definition zero_buf :: buffer_head where
  "zero_buf = \<lparr>b_data = (\<lambda>_. 0), b_blocknr = 0, b_dev = 0, b_uptodate = False, b_dirt = False,
     b_count = 0, b_lock = False, b_prev = None, b_next = None, b_prev_free = None,
     b_next_free = None\<rparr>"

definition zero_inode :: m_inode where
  "zero_inode = \<lparr>i_mode = 0, i_uid = 0, i_size = 0, i_mtime = 0, i_gid = 0, i_nlinks = 0,
     i_zone = (\<lambda>_. 0), i_atime = 0, i_ctime = 0, i_dev = 0, i_num = 0, i_count = 0,
     i_lock = False, i_dirt = False, i_pipe = False, i_mount = False, i_seek = False,
     i_update = False\<rparr>"

definition zero_super :: super_block where
  "zero_super = \<lparr>s_ninodes = 0, s_nzones = 0, s_imap_blocks = 0, s_zmap_blocks = 0,
     s_firstdatazone = 0, s_log_zone_size = 0, s_max_size = 0, s_magic = 0, s_imap = (\<lambda>_. None),
     s_zmap = (\<lambda>_. None), s_dev = 0, s_isup = None, s_imount = None, s_time = 0, s_lock = False,
     s_rd_only = False, s_dirt = False\<rparr>"

definition zero_queue :: tty_queue where
  "zero_queue = \<lparr>q_data = 0, q_head = 0, q_tail = 0, q_buf = (\<lambda>_. 0)\<rparr>"

definition k0 :: kernel where
  "k0 = \<lparr>mem_map = (\<lambda>_. 0), HIGH_MEMORY = 0, phys = (\<lambda>_. 0), umem = (\<lambda>_. 0),
     task = (\<lambda>_. 0), tstruct = (\<lambda>_. zero_task), current = 0, init_task = 0,
     last_task_used_math = 0, fpu = (\<lambda>_. 0), fpu_init = (\<lambda>_. 0), jiffies = 0, startup_time = 0,
     last_pid = 0, wq = (\<lambda>_. 0), gdt = (\<lambda>_. zero_desc),
     timer_list = (\<lambda>_. \<lparr>tm_jiffies = 0, tm_fn = 0, tm_next = None\<rparr>), next_timer = None,
     mon_timer = (\<lambda>_. 0), moff_timer = (\<lambda>_. 0), current_DOR = 0x0C, selected = False,
     beepcount = 0, start_buffer = 0, NR_BUFFERS = 0, bufs = (\<lambda>_. zero_buf),
     hash_table = (\<lambda>_. None), free_list = None,
     request = (\<lambda>_. \<lparr>r_dev = 0, r_cmd = READ, r_errors = 0, r_sector = 0, r_nr_sectors = 0,
       r_buffer = 0, r_bh = None, r_next = None\<rparr>),
     blk_dev = (\<lambda>_. \<lparr>request_fn = None, current_request = None\<rparr>), rd_start = 0, rd_length = 0,
     rd_data = (\<lambda>_. 0), inode_table = (\<lambda>_. zero_inode), last_inode = 0,
     super_block = (\<lambda>_. zero_super),
     file_table = (\<lambda>_. \<lparr>f_mode = 0, f_flags = 0, f_count = 0, f_inode = None, f_pos = 0\<rparr>),
     tty_table = (\<lambda>_. \<lparr>tty_termios = \<lparr>c_iflag = 0, c_oflag = 0, c_cflag = 0, c_lflag = 0,
       c_line = 0, c_cc = (\<lambda>_. 0)\<rparr>, tty_pgrp = 0, tty_stopped = False, read_q = zero_queue,
       write_q = zero_queue, secondary = zero_queue\<rparr>),
     cr_flag = False, ROOT_DEV = 0\<rparr>"

text \<open>An environment in which nothing else runs.\<close>

definition quiet_env :: "nat \<Rightarrow> env" where
  "quiet_env n = \<lparr>fuel = n, others = (\<lambda>s. s), do_fd_request = (\<lambda>s. s), do_hd_request = (\<lambda>s. s),
     floppy_change = (\<lambda>_. False), call_fn = (\<lambda>_ s. s), tty_drv = (\<lambda>_ s. s),
     port_in = (\<lambda>_. 0), junk = (\<lambda>_. 0)\<rparr>"

end
