(* ===== verification/Mm.thy ===== *)
theory Mm
  imports KState
begin

text \<open>
  mm/memory.c: the physical page map \<^verbatim>\<open>mem_map\<close>, page tables, copy-on-write and page sharing.
  A page is named by its physical address. The part of \<^verbatim>\<open>do_no_page\<close> that reads the executable is
  in the theory of the page fault handlers, since it needs the file system.
\<close>

subsection \<open>Definitions\<close>

abbreviation (input) "LOW_MEM \<equiv> (0x100000 :: u32)"
abbreviation (input) "PAGING_PAGES \<equiv> (3840 :: nat)"
abbreviation (input) "USED \<equiv> (100 :: u8)"
abbreviation (input) "PAGE_MASK \<equiv> (0xfffff000 :: u32)"

definition MAP_NR :: "u32 \<Rightarrow> nat" where
  "MAP_NR addr = unat (drop_bit 12 (addr - LOW_MEM))"

definition page_of_nr :: "nat \<Rightarrow> u32" where
  "page_of_nr n = push_bit 12 (of_nat n) + LOW_MEM"

definition set_phys :: "u32 \<Rightarrow> u32 \<Rightarrow> kernel \<Rightarrow> kernel" where
  "set_phys a v s = s\<lparr>phys := (phys s)(a := v)\<rparr>"

definition set_map :: "nat \<Rightarrow> u8 \<Rightarrow> kernel \<Rightarrow> kernel" where
  "set_map n v s = s\<lparr>mem_map := (mem_map s)(n := v)\<rparr>"

definition clear_page :: "u32 \<Rightarrow> kernel \<Rightarrow> kernel" where
  "clear_page page s = s\<lparr>phys := (\<lambda>a. if a AND PAGE_MASK = page then 0 else phys s a)\<rparr>"

definition copy_page :: "u32 \<Rightarrow> u32 \<Rightarrow> kernel \<Rightarrow> kernel" where
  "copy_page from_p to_p s =
     s\<lparr>phys := (\<lambda>a. if a AND PAGE_MASK = to_p then phys s (from_p + (a AND 0xfff)) else phys s a)\<rparr>"

text \<open>The string scan runs downwards from the last byte of \<^verbatim>\<open>mem_map\<close>, so the free page with the
  highest address is taken; its 1024 words are cleared.\<close>

definition get_free_page :: "kernel \<Rightarrow> u32 \<times> kernel" where
  "get_free_page s =
     (case find_down (\<lambda>i. mem_map s i = 0) PAGING_PAGES of
        None \<Rightarrow> (0, s)
      | Some i \<Rightarrow> (page_of_nr i, clear_page (page_of_nr i) (set_map i 1 s)))"

definition free_page :: "u32 \<Rightarrow> kernel \<Rightarrow> unit kres" where
  "free_page addr s =
     (if addr < LOW_MEM then Ret () s
      else if addr \<ge> HIGH_MEMORY s then Panic ''trying to free nonexistent page'' s
      else let n = MAP_NR addr in
        if n \<ge> PAGING_PAGES then Fault
        else if mem_map s n \<noteq> 0 then Ret () (set_map n (mem_map s n - 1) s)
        else Panic ''trying to free free page'' (set_map n 0 s))"

definition free_pte :: "u32 \<Rightarrow> kernel \<Rightarrow> unit kres" where
  "free_pte pg_table s =
     kbind (if phys s pg_table AND 1 \<noteq> 0 then free_page (PAGE_MASK AND phys s pg_table) s
            else Ret () s)
       (\<lambda>_ s. Ret () (set_phys pg_table 0 s))"

definition free_dir_entry :: "u32 \<Rightarrow> kernel \<Rightarrow> unit kres" where
  "free_dir_entry dir s =
     (if phys s dir AND 1 = 0 then Ret () s
      else let pg_table = PAGE_MASK AND phys s dir in
        kbind (kfor (\<lambda>nr _ s. free_pte (pg_table + 4 * of_nat nr) s) [0..<1024] () s) (\<lambda>_ s.
        kbind (free_page (PAGE_MASK AND phys s dir) s) (\<lambda>_ s.
        Ret () (set_phys dir 0 s))))"

definition free_page_tables :: "u32 \<Rightarrow> u32 \<Rightarrow> kernel \<Rightarrow> int kres" where
  "free_page_tables from_a size_b s =
     (if from_a AND 0x3fffff \<noteq> 0 then Panic ''free_page_tables called with wrong alignment'' s
      else if from_a = 0 then Panic ''Trying to free up swapper memory space'' s
      else let n = unat (drop_bit 22 (size_b + 0x3fffff));
               dir = drop_bit 20 from_a AND 0xffc in
        kbind (kfor (\<lambda>i _ s. free_dir_entry (dir + 4 * of_nat i) s) [0..<n] () s)
          (\<lambda>_ s. Ret 0 s))"

definition copy_pte :: "u32 \<Rightarrow> u32 \<Rightarrow> kernel \<Rightarrow> unit kres" where
  "copy_pte from_page_table to_page_table s =
     (let this_page = phys s from_page_table in
      if this_page AND 1 = 0 then Ret () s
      else let this_page = this_page AND NOT 2;
               s = set_phys to_page_table this_page s in
        if this_page > LOW_MEM then
          let s = set_phys from_page_table this_page s;
              n = MAP_NR this_page in
          if n \<ge> PAGING_PAGES then Fault else Ret () (set_map n (mem_map s n + 1) s)
        else Ret () s)"

text \<open>The result of one round of the outer loop is \<open>True\<close> when the page for the new table could not be
  had, which ends the function with -1.\<close>

definition copy_dir_entry :: "u32 \<Rightarrow> u32 \<Rightarrow> u32 \<Rightarrow> kernel \<Rightarrow> bool kres" where
  "copy_dir_entry from_a from_dir to_dir s =
     (if phys s to_dir AND 1 \<noteq> 0 then Panic ''copy_page_tables: already exist'' s
      else if phys s from_dir AND 1 = 0 then Ret False s
      else let from_page_table = PAGE_MASK AND phys s from_dir;
               (to_page_table, s) = get_free_page s in
        if to_page_table = 0 then Ret True s
        else let s = set_phys to_dir (to_page_table OR 7) s;
                 nr = (if from_a = 0 then 0xA0 else 1024) in
          kbind (kfor (\<lambda>i _ s. copy_pte (from_page_table + 4 * of_nat i)
                                         (to_page_table + 4 * of_nat i) s) [0..<nr] () s)
            (\<lambda>_ s. Ret False s))"

definition copy_page_tables :: "u32 \<Rightarrow> u32 \<Rightarrow> u32 \<Rightarrow> kernel \<Rightarrow> int kres" where
  "copy_page_tables from_a to_a size_b s =
     (if from_a AND 0x3fffff \<noteq> 0 \<or> to_a AND 0x3fffff \<noteq> 0
      then Panic ''copy_page_tables called with wrong alignment'' s
      else let from_dir = drop_bit 20 from_a AND 0xffc;
               to_dir = drop_bit 20 to_a AND 0xffc;
               n = unat (drop_bit 22 (size_b + 0x3fffff)) in
        kbind (kfor (\<lambda>i oom s. if oom then Ret oom s
                     else copy_dir_entry from_a (from_dir + 4 * of_nat i) (to_dir + 4 * of_nat i) s)
                [0..<n] False s)
          (\<lambda>oom s. Ret (if oom then -1 else 0) s))"

text \<open>The two \<^verbatim>\<open>printk\<close> warnings of \<^verbatim>\<open>put_page\<close> have no effect on the state.\<close>

definition put_page :: "u32 \<Rightarrow> u32 \<Rightarrow> kernel \<Rightarrow> u32 \<times> kernel" where
  "put_page page address s =
     (let page_table = drop_bit 20 address AND 0xffc;
          slot = drop_bit 12 address AND 0x3ff in
      if phys s page_table AND 1 \<noteq> 0
      then (page, set_phys ((PAGE_MASK AND phys s page_table) + 4 * slot) (page OR 7) s)
      else let (tmp, s) = get_free_page s in
        if tmp = 0 then (0, s)
        else (page, set_phys (tmp + 4 * slot) (page OR 7) (set_phys page_table (tmp OR 7) s)))"

definition oom :: "kernel \<Rightarrow> 'a kres" where
  "oom s = Exit (int SIGSEGV) s"

definition un_wp_page :: "u32 \<Rightarrow> kernel \<Rightarrow> unit kres" where
  "un_wp_page table_entry s =
     (let old_page = PAGE_MASK AND phys s table_entry in
      if old_page \<ge> LOW_MEM \<and> MAP_NR old_page \<ge> PAGING_PAGES then Fault
      else if old_page \<ge> LOW_MEM \<and> mem_map s (MAP_NR old_page) = 1
      then Ret () (set_phys table_entry (phys s table_entry OR 2) s)
      else let (new_page, s) = get_free_page s in
        if new_page = 0 then oom s
        else let s = (if old_page \<ge> LOW_MEM
                      then set_map (MAP_NR old_page) (mem_map s (MAP_NR old_page) - 1) s else s);
                 s = set_phys table_entry (new_page OR 7) s in
          Ret () (copy_page old_page new_page s))"

definition do_wp_page :: "u32 \<Rightarrow> u32 \<Rightarrow> kernel \<Rightarrow> unit kres" where
  "do_wp_page error_code address s =
     un_wp_page ((drop_bit 10 address AND 0xffc) +
                 (PAGE_MASK AND phys s (drop_bit 20 address AND 0xffc))) s"

definition write_verify :: "u32 \<Rightarrow> kernel \<Rightarrow> unit kres" where
  "write_verify address s =
     (let page = phys s (drop_bit 20 address AND 0xffc) in
      if page AND 1 = 0 then Ret () s
      else let page = (page AND PAGE_MASK) + (drop_bit 10 address AND 0xffc) in
        if 3 AND phys s page = 1 then un_wp_page page s else Ret () s)"

definition get_empty_page :: "u32 \<Rightarrow> kernel \<Rightarrow> unit kres" where
  "get_empty_page address s =
     (let (tmp, s) = get_free_page s in
      let (r, s) = (if tmp = 0 then (0, s) else put_page tmp address s) in
      if r = 0 then kbind (free_page tmp s) (\<lambda>_ s. oom s) else Ret () s)"

definition try_to_share :: "u32 \<Rightarrow> u32 \<Rightarrow> kernel \<Rightarrow> int kres" where
  "try_to_share address p s =
     (let from_page = (drop_bit 20 address AND 0xffc)
                        + (drop_bit 20 (t_start_code (tstruct s p)) AND 0xffc);
          to_page = (drop_bit 20 address AND 0xffc)
                        + (drop_bit 20 (t_start_code (cur s)) AND 0xffc);
          frm = phys s from_page in
      if frm AND 1 = 0 then Ret 0 s
      else let from_page = (frm AND PAGE_MASK) + (drop_bit 10 address AND 0xffc);
               phys_addr = phys s from_page in
        if phys_addr AND 0x41 \<noteq> 0x01 then Ret 0 s
        else let phys_addr = phys_addr AND PAGE_MASK in
          if phys_addr \<ge> HIGH_MEMORY s \<or> phys_addr < LOW_MEM then Ret 0 s
          else kbind (let to = phys s to_page in
                      if to AND 1 = 0 then
                        (let (t, s) = get_free_page s in
                         if t \<noteq> 0 then Ret t (set_phys to_page (t OR 7) s) else oom s)
                      else Ret to s) (\<lambda>to s.
            let to = to AND PAGE_MASK;
                to_page = to + (drop_bit 10 address AND 0xffc) in
            if phys s to_page AND 1 \<noteq> 0 then Panic ''try_to_share: to_page already exists'' s
            else let s = set_phys from_page (phys s from_page AND NOT 2) s;
                     s = set_phys to_page (phys s from_page) s;
                     n = MAP_NR phys_addr in
              if n \<ge> PAGING_PAGES then Fault
              else Ret 1 (set_map n (mem_map s n + 1) s)))"

definition share_page :: "u32 \<Rightarrow> kernel \<Rightarrow> int kres" where
  "share_page address s =
     (case t_executable (cur s) of
        None \<Rightarrow> Ret 0 s
      | Some ex \<Rightarrow>
          if i_count (inode_table s ex) < 2 then Ret 0 s
          else kfor (\<lambda>i r s.
            if r \<noteq> 0 then Ret r s
            else if task s i = 0 then Ret 0 s
            else if current s = task s i then Ret 0 s
            else if t_executable (tstruct s (task s i)) \<noteq> t_executable (cur s) then Ret 0 s
            else try_to_share address (task s i) s) (rev [1..<NR_TASKS]) 0 s)"

definition mem_init :: "int \<Rightarrow> int \<Rightarrow> kernel \<Rightarrow> unit kres" where
  "mem_init start_mem end_mem s =
     (let s = s\<lparr>HIGH_MEMORY := of_int end_mem\<rparr>;
          s = s\<lparr>mem_map := (\<lambda>i. if i < PAGING_PAGES then USED else mem_map s i)\<rparr>;
          i = (start_mem - 0x100000) div 4096;
          n = nat ((end_mem - start_mem) div 4096) in
      if 0 < n \<and> (i < 0 \<or> i + int n > int PAGING_PAGES) then Fault
      else Ret () (s\<lparr>mem_map := (\<lambda>k. if nat i \<le> k \<and> k < nat i + n then 0 else mem_map s k)\<rparr>))"

text \<open>\<^verbatim>\<open>calc_mem\<close> only prints; the model returns the numbers it prints.\<close>

definition calc_mem :: "kernel \<Rightarrow> nat \<times> (nat \<times> nat) list" where
  "calc_mem s =
     (length (filter (\<lambda>i. mem_map s i = 0) [0..<PAGING_PAGES]),
      map (\<lambda>i. (i, length (filter (\<lambda>j.
             phys s ((PAGE_MASK AND phys s (4 * of_nat i)) + 4 * of_nat j) AND 1 \<noteq> 0) [0..<1024])))
        (filter (\<lambda>i. phys s (4 * of_nat i) AND 1 \<noteq> 0) [2..<1024]))"

subsection \<open>Page addresses\<close>


lemma unat_page_of_nr: "n < PAGING_PAGES \<Longrightarrow> unat (page_of_nr n) = 4096 * n + 0x100000"
proof -
  assume n: "n < PAGING_PAGES"
  have "page_of_nr n = of_nat (4096 * n + 0x100000)"
    by (simp add: page_of_nr_def push_bit_eq_mult)
  moreover have "4096 * n + 0x100000 < 2 ^ 32" using n by simp
  ultimately show ?thesis by (simp only: unat_of_nat32)
qed

lemma MAP_NR_page_of_nr [simp]: "n < PAGING_PAGES \<Longrightarrow> MAP_NR (page_of_nr n) = n"
proof -
  assume n: "n < PAGING_PAGES"
  have "page_of_nr n - LOW_MEM = of_nat (4096 * n)"
    by (simp add: page_of_nr_def push_bit_eq_mult)
  moreover have "unat (of_nat (4096 * n) :: u32) = 4096 * n"
    using n by (intro unat_of_nat32) simp
  ultimately show ?thesis
    by (simp only: MAP_NR_def unat_drop_bit32) simp
qed

lemma page_of_nr_ge: "n < PAGING_PAGES \<Longrightarrow> LOW_MEM \<le> page_of_nr n"
  by (simp add: word_le_nat_alt unat_page_of_nr)

lemma page_of_nr_neq_0 [simp]: "n < PAGING_PAGES \<Longrightarrow> page_of_nr n \<noteq> 0"
  using unat_page_of_nr [of n] by auto

lemma page_of_nr_inj: "m < PAGING_PAGES \<Longrightarrow> n < PAGING_PAGES \<Longrightarrow> page_of_nr m = page_of_nr n \<longleftrightarrow> m = n"
  by (metis MAP_NR_page_of_nr)

lemma PAGE_MASK_eq: "PAGE_MASK = NOT (mask 12)"
  by (simp add: mask_eq_exp_minus_1)

lemma mask_push_drop: "(a :: u32) AND PAGE_MASK = push_bit 12 (drop_bit 12 a)"
  unfolding PAGE_MASK_eq by (rule bit_word_eqI) (auto simp: bit_simps)

lemma unat_and_mask: "unat (a AND PAGE_MASK) = unat a div 4096 * 4096"
proof -
  have "unat a < 2 ^ 32" using unsigned_less [of a] by simp
  then have "unat a div 4096 * 4096 < 2 ^ 32" by linarith
  moreover have "a AND PAGE_MASK = of_nat (unat a div 4096 * 4096)"
  proof -
    have "a AND PAGE_MASK = of_nat (unat (drop_bit 12 a)) * 2 ^ 12"
      unfolding mask_push_drop push_bit_eq_mult by simp
    also have "\<dots> = of_nat (unat a div 4096 * 4096)"
      by (simp only: unat_drop_bit32 of_nat_mult) simp
    finally show ?thesis .
  qed
  ultimately show ?thesis by (simp only: unat_of_nat32)
qed


text \<open>A page frame that \<^verbatim>\<open>mem_map\<close> accounts for.\<close>

definition is_frame :: "u32 \<Rightarrow> bool" where
  "is_frame p \<longleftrightarrow> p AND PAGE_MASK = p \<and> LOW_MEM \<le> p \<and> MAP_NR p < PAGING_PAGES"

lemma is_frame_page_of_nr [simp]: "n < PAGING_PAGES \<Longrightarrow> is_frame (page_of_nr n)"
  by (simp add: is_frame_def page_of_nr_ge word_unat_eq_iff unat_and_mask unat_page_of_nr)

lemma page_of_nr_MAP_NR: "is_frame p \<Longrightarrow> page_of_nr (MAP_NR p) = p"
proof -
  assume "is_frame p"
  then have al: "unat p div 4096 * 4096 = unat p" and ge: "LOW_MEM \<le> p" and r: "MAP_NR p < PAGING_PAGES"
    by (simp_all add: is_frame_def flip: unat_and_mask)
  from ge have "unat (p - LOW_MEM) = unat p - 0x100000"
    by (simp add: unat_sub word_le_nat_alt)
  then have nr: "MAP_NR p = (unat p - 0x100000) div 4096"
    by (simp add: MAP_NR_def unat_drop_bit32)
  define k where "k = unat p div 4096"
  have pk: "unat p = 4096 * k" using al by (simp add: k_def)
  have k256: "256 \<le> k" using ge pk by (simp add: word_le_nat_alt)
  have "MAP_NR p = (4096 * (k - 256)) div 4096"
    unfolding nr pk by (simp add: diff_mult_distrib2)
  then have "MAP_NR p = k - 256" by simp
  then have "unat (page_of_nr (MAP_NR p)) = unat p"
    using r pk k256 by (simp add: unat_page_of_nr)
  then show ?thesis by (simp add: word_unat_eq_iff)
qed

lemma is_frame_iff: "is_frame p \<longleftrightarrow> (\<exists>n < PAGING_PAGES. p = page_of_nr n)"
  by (metis is_frame_page_of_nr is_frame_def page_of_nr_MAP_NR)

lemma MAP_NR_inj: "is_frame p \<Longrightarrow> is_frame q \<Longrightarrow> MAP_NR p = MAP_NR q \<longleftrightarrow> p = q"
  by (metis page_of_nr_MAP_NR)

lemma page_or_flags:
  assumes "p AND PAGE_MASK = p"
  shows "(p OR 7) AND PAGE_MASK = p" "PAGE_MASK AND (p OR 7) = p" "(p OR 7) AND 1 = 1" "(p OR 7) AND 2 = 2"
proof -
  have b: "\<not> bit p k" if "k < 12" for k
  proof -
    have "bit p k = bit (push_bit 12 (drop_bit 12 p)) k" using assms mask_push_drop [of p] by simp
    with that show ?thesis by (simp add: bit_simps)
  qed
  show 1: "(p OR 7) AND PAGE_MASK = p"
  proof (rule bit_word_eqI)
    fix k assume "k < LENGTH(32)"
    have seven: "(7::u32) = mask 3" by (simp add: mask_eq_exp_minus_1)
    show "bit ((p OR 7) AND PAGE_MASK) k = bit p k"
      unfolding PAGE_MASK_eq seven using b [of k] \<open>k < LENGTH(32)\<close> by (auto simp: bit_simps)
  qed
  then show "PAGE_MASK AND (p OR 7) = p" by (simp add: and.commute)
  have "(p OR 7) AND 1 = (p AND 1) OR (7 AND 1)" by (simp add: bit.conj_disj_distrib2)
  also have "p AND 1 = 0"
    by (rule bit_word_eqI) (use b [of 0] in \<open>auto simp: bit_simps intro: gr0I\<close>)
  finally show "(p OR 7) AND 1 = 1" by simp
  have "(p OR 7) AND 2 = (p AND 2) OR (7 AND 2)" by (simp add: bit.conj_disj_distrib2)
  also have "p AND 2 = 0"
  proof (rule bit_word_eqI)
    fix k assume "k < LENGTH(32)"
    have two: "(2::u32) = push_bit 1 1" by simp
    show "bit (p AND 2) k = bit (0::u32) k"
      unfolding two using b [of k] by (auto simp: bit_simps bit_1_iff)
  qed
  finally show "(p OR 7) AND 2 = 2" by simp
qed

subsection \<open>The page allocator and its interface\<close>

lemma get_free_page_None:
  "get_free_page s = (0, t) \<longleftrightarrow> t = s \<and> (\<forall>i < PAGING_PAGES. mem_map s i \<noteq> 0)"
  by (auto simp: get_free_page_def find_down_None_iff find_down_Some_iff split: option.splits)

lemma get_free_page_Some:
  assumes "get_free_page s = (p, t)" and "p \<noteq> 0"
  shows "\<exists>i < PAGING_PAGES. p = page_of_nr i \<and> mem_map s i = 0 \<and>
    (\<forall>j. i < j \<and> j < PAGING_PAGES \<longrightarrow> mem_map s j \<noteq> 0) \<and>
    t = clear_page p (set_map i 1 s)"
  using assms by (auto simp: get_free_page_def find_down_Some_iff split: option.splits)

lemma phys_clear_page [simp]:
  "phys (clear_page p s) a = (if a AND PAGE_MASK = p then 0 else phys s a)"
  and mem_map_clear_page [simp]: "mem_map (clear_page p s) = mem_map s"
  and HIGH_clear_page [simp]: "HIGH_MEMORY (clear_page p s) = HIGH_MEMORY s"
  by (simp_all add: clear_page_def)

lemma phys_set_map [simp]: "phys (set_map n v s) = phys s"
  and mem_map_set_map [simp]: "mem_map (set_map n v s) = (mem_map s)(n := v)"
  and HIGH_set_map [simp]: "HIGH_MEMORY (set_map n v s) = HIGH_MEMORY s"
  and phys_set_phys [simp]: "phys (set_phys a w s) = (phys s)(a := w)"
  and mem_map_set_phys [simp]: "mem_map (set_phys a w s) = mem_map s"
  and HIGH_set_phys [simp]: "HIGH_MEMORY (set_phys a w s) = HIGH_MEMORY s"
  by (simp_all add: set_map_def set_phys_def)

lemma phys_copy_page [simp]:
  "phys (copy_page p q s) a = (if a AND PAGE_MASK = q then phys s (p + (a AND 0xfff)) else phys s a)"
  and mem_map_copy_page [simp]: "mem_map (copy_page p q s) = mem_map s"
  by (simp_all add: copy_page_def)

text \<open>What a client of the allocator may rely on: \<open>alloc\<close> hands out a page nobody refers to, or 0 when
  there is none; \<open>free\<close> gives up one reference.\<close>

locale page_allocator =
  fixes alloc :: "'s \<Rightarrow> u32 \<times> 's"
    and free :: "u32 \<Rightarrow> 's \<Rightarrow> ('s, unit) outcome"
    and refs :: "'s \<Rightarrow> u32 \<Rightarrow> nat"
    and invar :: "'s \<Rightarrow> bool"
  assumes alloc_page: "invar s \<Longrightarrow> alloc s = (p, t) \<Longrightarrow> p \<noteq> 0 \<Longrightarrow>
      refs s p = 0 \<and> refs t = (refs s)(p := 1) \<and> invar t"
    and free_page: "invar s \<Longrightarrow> 0 < refs s p \<Longrightarrow>
      \<exists>t. free p s = Ret () t \<and> refs t = (refs s)(p := refs s p - 1) \<and> invar t"
begin

lemma alloc_distinct:
  assumes "invar s" "alloc s = (p, t)" "alloc t = (q, u)" "p \<noteq> 0" "q \<noteq> 0"
  shows "p \<noteq> q"
proof
  assume "p = q"
  from alloc_page [OF assms(1,2,4)] have "refs t p = 1" and t: "invar t" by simp_all
  moreover from alloc_page [OF t assms(3,5)] have "refs t q = 0" by simp
  ultimately show False using \<open>p = q\<close> by simp
qed

lemma free_alloc:
  assumes "invar s" "alloc s = (p, t)" "p \<noteq> 0"
  shows "\<exists>u. free p t = Ret () u \<and> refs u = refs s \<and> invar u"
proof -
  from alloc_page [OF assms] have r: "refs s p = 0" "refs t = (refs s)(p := 1)" and t: "invar t"
    by simp_all
  then have "0 < refs t p" by simp
  from free_page [OF t this] obtain u where "free p t = Ret () u" "refs u = (refs t)(p := refs t p - 1)" "invar u"
    by blast
  moreover from r have "(refs t)(p := refs t p - 1) = refs s" by auto
  ultimately show ?thesis by auto
qed

end

text \<open>On the kernel: the references of a frame are its \<^verbatim>\<open>mem_map\<close> byte, and the invariant is what
  \<^verbatim>\<open>mem_init\<close> sets up, that no byte at or above \<^verbatim>\<open>HIGH_MEMORY\<close> is 0.\<close>

definition page_refs :: "kernel \<Rightarrow> u32 \<Rightarrow> nat" where
  "page_refs s p = (if is_frame p \<and> p < HIGH_MEMORY s then unat (mem_map s (MAP_NR p)) else 0)"

definition high_used :: "kernel \<Rightarrow> bool" where
  "high_used s \<longleftrightarrow> (\<forall>n < PAGING_PAGES. HIGH_MEMORY s \<le> page_of_nr n \<longrightarrow> mem_map s n \<noteq> 0)"

interpretation pages: page_allocator get_free_page free_page page_refs high_used
proof
  fix s t :: kernel and p :: u32
  assume inv: "high_used s" and a: "get_free_page s = (p, t)" and nz: "p \<noteq> 0"
  from get_free_page_Some [OF a nz] obtain i where
    i: "i < PAGING_PAGES" "p = page_of_nr i" "mem_map s i = 0" "t = clear_page p (set_map i 1 s)"
    by blast
  with inv have "p < HIGH_MEMORY s" by (auto simp: high_used_def not_le)
  with i show "page_refs s p = 0 \<and> page_refs t = (page_refs s)(p := 1) \<and> high_used t"
    using inv by (auto simp: page_refs_def high_used_def fun_eq_iff is_frame_iff)
next
  fix s :: kernel and p :: u32
  assume inv: "high_used s" and pos: "0 < page_refs s p"
  then have p: "is_frame p" "p < HIGH_MEMORY s" "mem_map s (MAP_NR p) \<noteq> 0"
    by (auto simp: page_refs_def split: if_splits)
  define t where "t = set_map (MAP_NR p) (mem_map s (MAP_NR p) - 1) s"
  from p have "free_page p s = Ret () t"
    by (auto simp: free_page_def t_def is_frame_def not_le not_less Let_def)
  moreover have "page_refs t = (page_refs s)(p := page_refs s p - 1)"
    using p by (auto simp: page_refs_def t_def fun_eq_iff MAP_NR_inj unat_minus_one)
  moreover have "high_used t"
    using inv p by (auto simp: high_used_def t_def page_of_nr_MAP_NR)
  ultimately show "\<exists>t. free_page p s = Ret () t \<and>
      page_refs t = (page_refs s)(p := page_refs s p - 1) \<and> high_used t"
    by blast
qed

subsection \<open>Address translation\<close>

text \<open>What the processor makes of the page tables: \<open>translate s a\<close> is the frame that the linear address
  \<open>a\<close> is mapped to and whether it may be written.\<close>

definition pde_addr :: "u32 \<Rightarrow> u32" where
  "pde_addr a = drop_bit 20 a AND 0xffc"

definition pte_addr :: "kernel \<Rightarrow> u32 \<Rightarrow> u32" where
  "pte_addr s a = (PAGE_MASK AND phys s (pde_addr a)) + (drop_bit 10 a AND 0xffc)"

definition translate :: "kernel \<Rightarrow> u32 \<Rightarrow> (u32 \<times> bool) option" where
  "translate s a =
     (if phys s (pde_addr a) AND 1 = 0 \<or> phys s (pte_addr s a) AND 1 = 0 then None
      else Some (phys s (pte_addr s a) AND PAGE_MASK, phys s (pte_addr s a) AND 2 \<noteq> 0))"

definition read_lin :: "kernel \<Rightarrow> u32 \<Rightarrow> u32 option" where
  "read_lin s a = map_option (\<lambda>(f, _). phys s (f + (a AND 0xfff))) (translate s a)"

lemma slot_eq: "4 * (drop_bit 12 a AND 0x3ff) = (drop_bit 10 (a::u32) AND 0xffc)"
proof -
  have "4 * (drop_bit 12 a AND 0x3ff) = push_bit 2 (drop_bit 12 a AND mask 10)"
    by (simp add: push_bit_eq_mult mask_eq_exp_minus_1 mult.commute)
  also have "\<dots> = drop_bit 10 a AND push_bit 2 (mask 10)"
    by (rule bit_word_eqI) (auto simp: bit_simps)
  also have "push_bit 2 (mask 10) = (0xffc :: u32)"
    by (simp add: push_bit_eq_mult mask_eq_exp_minus_1)
  finally show ?thesis .
qed

lemma unat_and_le: "unat (a AND m) \<le> unat (m :: u32)"
  by (rule word_and_le1 [THEN word_le_nat_alt [THEN iffD1]])

lemma pde_addr_less: "pde_addr a < 0x1000"
  using unat_and_le [of "drop_bit 20 a" "0xffc"] by (simp add: pde_addr_def word_less_nat_alt)

lemma frame_offset:
  assumes "p AND PAGE_MASK = p" and "w < 0x1000"
  shows "(p + w) AND PAGE_MASK = p" "(p + w) AND 0xfff = w"
proof -
  define n where "n = unat p div 4096"
  from assms(1) have n: "unat p = 4096 * n" by (metis unat_and_mask n_def mult.commute)
  have w: "unat w < 4096" using assms(2) by (simp add: word_less_nat_alt)
  have "unat p < 2 ^ 32" using unsigned_less [of p] by simp
  with n have "n < 1048576" by simp
  with n w have pw: "unat (p + w) = 4096 * n + unat w"
    by (simp add: unat_word_ariths)
  then show "(p + w) AND PAGE_MASK = p"
    using n w by (simp add: word_unat_eq_iff unat_and_mask)
  have "(4096 * n + unat w) mod 4096 = unat w" using w by simp
  moreover have "unat ((p + w) AND 0xfff) = unat (p + w) mod 4096"
  proof -
    have "(p + w) AND 0xfff = take_bit 12 (p + w)"
      by (simp add: take_bit_eq_mask mask_eq_exp_minus_1)
    then have "unat ((p + w) AND 0xfff) = take_bit 12 (unat (p + w))"
      by (simp only: unsigned_take_bit_eq)
    then show ?thesis by (simp only: take_bit_eq_mod) simp
  qed
  ultimately show "(p + w) AND 0xfff = w" using pw by (simp only: word_unat_eq_iff)
qed


lemma ffc_eq: "(0xffc :: u32) = push_bit 2 (mask 10)"
  by (simp add: push_bit_eq_mult mask_eq_exp_minus_1)

lemma same_page:
  assumes "a AND PAGE_MASK = b AND PAGE_MASK"
  shows "pde_addr a = pde_addr b" "pte_addr s a = pte_addr s b" "translate s a = translate s b"
proof -
  have eq: "bit a k = bit b k" if "12 \<le> k" "k < 32" for k
  proof -
    have "bit (push_bit 12 (drop_bit 12 a)) k = bit (push_bit 12 (drop_bit 12 b)) k"
      using assms by (simp only: mask_push_drop)
    with that show ?thesis by (simp add: bit_simps)
  qed
  show 1: "pde_addr a = pde_addr b"
    unfolding pde_addr_def ffc_eq
    by (rule bit_word_eqI) (auto simp: bit_simps eq dest: bit_imp_le_length)
  have "drop_bit 10 a AND 0xffc = drop_bit 10 b AND 0xffc"
    unfolding ffc_eq
    by (rule bit_word_eqI) (auto simp: bit_simps eq dest: bit_imp_le_length)
  with 1 show 2: "pte_addr s a = pte_addr s b" by (simp add: pte_addr_def)
  show "translate s a = translate s b" by (simp add: translate_def 1 2)
qed

lemma pte_addr_page:
  assumes "PAGE_MASK AND phys s (pde_addr a) = pt"
  shows "pte_addr s a AND PAGE_MASK = pt"
proof -
  have "pt AND PAGE_MASK = pt" using assms by (simp add: ac_simps flip: assms)
  moreover have "drop_bit 10 a AND 0xffc < (0x1000 :: u32)"
    using unat_and_le [of "drop_bit 10 a" "0xffc"] by (simp add: word_less_nat_alt)
  ultimately show ?thesis unfolding pte_addr_def assms by (rule frame_offset)
qed

lemma pde_not_in_frame: "is_frame p \<Longrightarrow> pde_addr a AND PAGE_MASK \<noteq> p"
proof
  assume "is_frame p" and "pde_addr a AND PAGE_MASK = p"
  moreover have "pde_addr a AND PAGE_MASK = 0"
    using pde_addr_less [of a] by (simp add: word_unat_eq_iff unat_and_mask word_less_nat_alt)
  ultimately show False by (simp add: is_frame_def)
qed

text \<open>A page frame in use.\<close>

definition in_use :: "kernel \<Rightarrow> u32 \<Rightarrow> bool" where
  "in_use s p \<longleftrightarrow> is_frame p \<and> mem_map s (MAP_NR p) \<noteq> 0"

lemma un_wp_page_shared:
  assumes "PAGE_MASK AND phys s te = f" and "in_use s f" and "mem_map s (MAP_NR f) \<noteq> 1"
    and "get_free_page s = (new, u)" and "new \<noteq> 0"
  shows "un_wp_page te s = Ret () (copy_page f new (set_phys te (new OR 7)
           (set_map (MAP_NR f) (mem_map s (MAP_NR f) - 1) u)))"
    and "is_frame new \<and> new \<noteq> f \<and> mem_map s (MAP_NR new) = 0"
    and "mem_map u = (mem_map s)(MAP_NR new := 1)"
    and "\<And>a. phys u a = (if a AND PAGE_MASK = new then 0 else phys s a)"
proof -
  from get_free_page_Some [OF assms(4,5)] obtain i where
    i: "i < PAGING_PAGES" "new = page_of_nr i" "mem_map s i = 0" "u = clear_page new (set_map i 1 s)"
    by blast
  then show n: "is_frame new \<and> new \<noteq> f \<and> mem_map s (MAP_NR new) = 0"
    using assms(2) by (auto simp: in_use_def)
  show "mem_map u = (mem_map s)(MAP_NR new := 1)"
    and "\<And>a. phys u a = (if a AND PAGE_MASK = new then 0 else phys s a)"
    using i by simp_all
  have "mem_map u (MAP_NR f) = mem_map s (MAP_NR f)"
    using i n assms(2) by (auto simp: in_use_def)
  with assms show "un_wp_page te s = Ret () (copy_page f new (set_phys te (new OR 7)
           (set_map (MAP_NR f) (mem_map s (MAP_NR f) - 1) u)))"
    by (simp add: un_wp_page_def in_use_def is_frame_def Let_def)
qed

text \<open>C3: A write fault on a shared page gives the writer a private, writable copy: the faulting page
  is remapped to a frame that was free, every word of the page reads as before, the old frame loses
  one reference and none of its words change.\<close>

theorem do_wp_page_copies:
  assumes "translate s a = Some (f, w)" and "in_use s f" and "mem_map s (MAP_NR f) \<noteq> 1"
    and "in_use s (PAGE_MASK AND phys s (pde_addr a))" and "PAGE_MASK AND phys s (pde_addr a) \<noteq> f"
    and "n < PAGING_PAGES" and "mem_map s n = 0"
  shows "\<exists>t new. do_wp_page ec a s = Ret () t \<and> translate t a = Some (new, True) \<and>
    mem_map s (MAP_NR new) = 0 \<and>
    mem_map t = (mem_map s)(MAP_NR new := 1, MAP_NR f := mem_map s (MAP_NR f) - 1) \<and>
    (\<forall>b. b AND PAGE_MASK = a AND PAGE_MASK \<longrightarrow> read_lin t b = read_lin s b) \<and>
    (\<forall>c. c AND PAGE_MASK = f \<longrightarrow> phys t c = phys s c)"
proof -
  let ?pt = "PAGE_MASK AND phys s (pde_addr a)" and ?te = "pte_addr s a"
  from assms(1) have pres: "phys s (pde_addr a) AND 1 \<noteq> 0" "phys s ?te AND 1 \<noteq> 0"
    and f: "PAGE_MASK AND phys s ?te = f"
    by (auto simp: translate_def and.commute split: if_splits)
  obtain new u where g: "get_free_page s = (new, u)" by fastforce
  have "new \<noteq> 0" using g assms(6,7) get_free_page_None [of s u] by blast
  note w = un_wp_page_shared [OF f assms(2,3) g this]
  define t where "t = copy_page f new (set_phys ?te (new OR 7)
              (set_map (MAP_NR f) (mem_map s (MAP_NR f) - 1) u))"
  have run: "do_wp_page ec a s = Ret () t"
    using w(1) by (simp add: do_wp_page_def pte_addr_def pde_addr_def add.commute t_def)
  have fr: "is_frame new" "is_frame f" "is_frame ?pt" "new \<noteq> f" "new \<noteq> ?pt"
    using w(2) assms(2,4) by (auto simp: in_use_def)
  have te: "?te AND PAGE_MASK = ?pt" by (rule pte_addr_page) simp
  have pde: "phys t (pde_addr b) = phys s (pde_addr b)" for b
    using pde_not_in_frame [OF fr(1), of b] pde_not_in_frame [OF fr(3), of b] te
    by (auto simp: w(4) t_def)
  then have pte: "pte_addr t a = ?te" by (simp add: pte_addr_def)
  have new: "phys t ?te = new OR 7" using te fr by (simp add: t_def)
  have al: "new AND PAGE_MASK = new" "f AND PAGE_MASK = f" using fr by (simp_all add: is_frame_def)
  have tr: "translate t a = Some (new, True)"
    using pres pde [of a] page_or_flags [OF al(1)] by (simp add: translate_def pte new)
  have copied: "phys t (new + v) = phys s (f + v)" if "v < 0x1000" for v
    using frame_offset [OF al(1) that] frame_offset [OF al(2) that] fr te assms(5)
    by (auto simp: w(4) t_def)
  have rd: "read_lin t b = read_lin s b" if b: "b AND PAGE_MASK = a AND PAGE_MASK" for b
  proof -
    have "b AND 0xfff < (0x1000 :: u32)"
      using unat_and_le [of b "0xfff"] by (simp add: word_less_nat_alt)
    moreover have "translate t b = Some (new, True)" "translate s b = Some (f, w)"
      using tr assms(1) same_page(3) [OF b] by simp_all
    ultimately show ?thesis using copied by (simp add: read_lin_def)
  qed
  have "phys t c = phys s c" if "c AND PAGE_MASK = f" for c
    using that fr te assms(5) by (auto simp: w(4) t_def)
  moreover have "mem_map t = (mem_map s)(MAP_NR new := 1, MAP_NR f := mem_map s (MAP_NR f) - 1)"
    by (simp add: w(3) t_def)
  ultimately show ?thesis using run tr rd w(2) by blast
qed

text \<open>A machine state in which the page table at 0x101000 maps linear page 0x400000 to the frame
  0x102000, read-only and shared by two tables.\<close>

definition cow_state :: kernel where
  "cow_state = k0\<lparr>HIGH_MEMORY := 0x1000000,
     mem_map := (\<lambda>i. if i = 1 then 1 else if i = 2 then 2 else 0),
     phys := (\<lambda>a. if a = 4 then 0x101007 else if a = 0x101000 then 0x102005 else 0)\<rparr>"

theorem do_wp_page_copies_witness:
  "\<exists>t new. do_wp_page 3 0x400000 cow_state = Ret () t \<and> translate t 0x400000 = Some (new, True) \<and>
    mem_map t 2 = 1"
proof -
  let ?s = "cow_state"
  have p: "phys ?s 4 = 0x101007" "phys ?s 0x101000 = 0x102005"
    "mem_map ?s (Suc 0) = 1" "mem_map ?s 2 = 2" "mem_map ?s 3839 = 0"
    by (simp_all add: cow_state_def)
  have a: "pde_addr 0x400000 = 4" "pte_addr ?s 0x400000 = 0x101000"
    by (simp_all add: pde_addr_def pte_addr_def p)
  have m: "MAP_NR 0x101000 = 1" "MAP_NR 0x102000 = 2" by (simp_all add: MAP_NR_def)
  have h: "translate ?s 0x400000 = Some (0x102000, False)" "in_use ?s 0x102000"
    "mem_map ?s (MAP_NR 0x102000) \<noteq> 1" "in_use ?s (PAGE_MASK AND phys ?s (pde_addr 0x400000))"
    "PAGE_MASK AND phys ?s (pde_addr 0x400000) \<noteq> 0x102000"
    by (simp_all add: translate_def a p in_use_def is_frame_def m)
  have "(3839::nat) < PAGING_PAGES" by simp
  from do_wp_page_copies [OF h this p(5), of 3] show ?thesis
    by (auto simp: m p)
qed

subsection \<open>Copying page tables\<close>

lemma entry_offset:
  assumes "p AND PAGE_MASK = p" and "i < 1024"
  shows "(p + 4 * of_nat i) AND PAGE_MASK = p" "unat ((p + 4 * of_nat i) AND 0xfff) = 4 * i"
proof -
  have u: "unat (4 * of_nat i :: u32) = 4 * i"
    using assms(2) unat_of_nat32 [of "4 * i"] by simp
  then have "4 * of_nat i < (0x1000 :: u32)" using assms(2) by (simp add: word_less_nat_alt)
  from frame_offset [OF assms(1) this] u
  show "(p + 4 * of_nat i) AND PAGE_MASK = p" "unat ((p + 4 * of_nat i) AND 0xfff) = 4 * i"
    by simp_all
qed

lemma entry_eq_iff:
  assumes "p AND PAGE_MASK = p" "q AND PAGE_MASK = q" "i < 1024" "j < 1024"
  shows "p + 4 * of_nat i = q + 4 * of_nat j \<longleftrightarrow> p = q \<and> i = j"
proof
  assume eq: "p + 4 * of_nat i = q + 4 * of_nat j"
  have "p = q" using entry_offset(1) [OF assms(1,3)] entry_offset(1) [OF assms(2,4)] eq by simp
  moreover have "4 * i = 4 * j"
    using entry_offset(2) [OF assms(1,3)] entry_offset(2) [OF assms(2,4)] eq by simp
  ultimately show "p = q \<and> i = j" by simp
qed auto

text \<open>What \<^verbatim>\<open>fork\<close> puts into the child's table for a parent's entry, and which parent's entries are
  write-protected and counted.\<close>

definition cow_entry :: "u32 \<Rightarrow> u32" where
  "cow_entry e = (if e AND 1 = 0 then 0 else e AND NOT 2)"

definition counted :: "u32 \<Rightarrow> bool" where
  "counted e \<longleftrightarrow> e AND 1 \<noteq> 0 \<and> LOW_MEM < e AND NOT 2"

lemma copy_pte_Ret:
  assumes "counted (phys s f) \<Longrightarrow> MAP_NR (phys s f AND NOT 2) < PAGING_PAGES" and "f \<noteq> t"
    and "phys s t = 0"
  shows "\<exists>u. copy_pte f t s = Ret () u \<and> HIGH_MEMORY u = HIGH_MEMORY s \<and>
    phys u = (phys s)(t := cow_entry (phys s f),
                      f := (if counted (phys s f) then phys s f AND NOT 2 else phys s f)) \<and>
    mem_map u = (if counted (phys s f)
                 then (mem_map s)(MAP_NR (phys s f AND NOT 2) := mem_map s (MAP_NR (phys s f AND NOT 2)) + 1)
                 else mem_map s)"
  using assms
  by (auto simp: copy_pte_def counted_def cow_entry_def Let_def fun_eq_iff not_le)

lemma copy_table_Ret:
  assumes fr: "f AND PAGE_MASK = f" "t AND PAGE_MASK = t" "f \<noteq> t"
    and ok: "\<And>i. i < 1024 \<Longrightarrow> counted (phys s (f + 4 * of_nat i)) \<Longrightarrow>
               MAP_NR (phys s (f + 4 * of_nat i) AND NOT 2) < PAGING_PAGES"
    and zero: "\<And>i. i < 1024 \<Longrightarrow> phys s (t + 4 * of_nat i) = 0"
    and m: "m \<le> 1024"
  shows "\<exists>u. kfor (\<lambda>i _ s. copy_pte (f + 4 * of_nat i) (t + 4 * of_nat i) s) [0..<m] () s = Ret () u \<and>
    HIGH_MEMORY u = HIGH_MEMORY s \<and>
    (\<forall>i < 1024. phys u (t + 4 * of_nat i) = (if i < m then cow_entry (phys s (f + 4 * of_nat i)) else 0)) \<and>
    (\<forall>i < 1024. phys u (f + 4 * of_nat i) =
       (if i < m \<and> counted (phys s (f + 4 * of_nat i)) then phys s (f + 4 * of_nat i) AND NOT 2
        else phys s (f + 4 * of_nat i))) \<and>
    (\<forall>a. a AND PAGE_MASK \<noteq> f \<and> a AND PAGE_MASK \<noteq> t \<longrightarrow> phys u a = phys s a) \<and>
    (\<forall>n. mem_map u n = mem_map s n + of_nat (card {i. i < m \<and> counted (phys s (f + 4 * of_nat i)) \<and>
                                      MAP_NR (phys s (f + 4 * of_nat i) AND NOT 2) = n}))"
  using m
proof (induction m)
  case 0
  then show ?case using zero by simp
next
  case (Suc m)
  let ?F = "\<lambda>i. f + 4 * of_nat i" and ?T = "\<lambda>i. t + 4 * of_nat i"
  let ?C = "\<lambda>m n. {i. i < m \<and> counted (phys s (?F i)) \<and> MAP_NR (phys s (?F i) AND NOT 2) = n}"
  from Suc obtain u where
    run: "kfor (\<lambda>i _ s. copy_pte (?F i) (?T i) s) [0..<m] () s = Ret () u"
    and H: "HIGH_MEMORY u = HIGH_MEMORY s"
    and T: "\<And>i. i < 1024 \<Longrightarrow> phys u (?T i) = (if i < m then cow_entry (phys s (?F i)) else 0)"
    and F: "\<And>i. i < 1024 \<Longrightarrow> phys u (?F i) =
       (if i < m \<and> counted (phys s (?F i)) then phys s (?F i) AND NOT 2 else phys s (?F i))"
    and rest: "\<And>a. a AND PAGE_MASK \<noteq> f \<Longrightarrow> a AND PAGE_MASK \<noteq> t \<Longrightarrow> phys u a = phys s a"
    and M: "\<And>n. mem_map u n = mem_map s n + of_nat (card (?C m n))"
    by auto
  from Suc.prems have m: "m < 1024" by simp
  have Fm: "phys u (?F m) = phys s (?F m)" using F [OF m] by simp
  have ne: "?F m \<noteq> ?T m" using entry_eq_iff [OF fr(1,2) m m] fr(3) by simp
  have "phys u (?T m) = 0" using T [OF m] by simp
  from copy_pte_Ret [of u "?F m" "?T m", OF _ ne this] ok [OF m] Fm H obtain v where
    step: "copy_pte (?F m) (?T m) u = Ret () v" and Hv: "HIGH_MEMORY v = HIGH_MEMORY s"
    and pv: "phys v = (phys u)(?T m := cow_entry (phys s (?F m)),
               ?F m := (if counted (phys s (?F m)) then phys s (?F m) AND NOT 2 else phys s (?F m)))"
    and mv: "mem_map v = (if counted (phys s (?F m))
               then (mem_map u)(MAP_NR (phys s (?F m) AND NOT 2) := mem_map u (MAP_NR (phys s (?F m) AND NOT 2)) + 1)
               else mem_map u)"
    by auto
  have "kfor (\<lambda>i _ s. copy_pte (?F i) (?T i) s) [0..<Suc m] () s = Ret () v"
    using run step by (simp add: kfor_append)
  moreover have "phys v (?T i) = (if i < Suc m then cow_entry (phys s (?F i)) else 0)" if "i < 1024" for i
    using T [OF that] entry_eq_iff [OF fr(2,1) that m] entry_eq_iff [OF fr(2,2) that m] fr(3)
    by (auto simp: pv less_Suc_eq)
  moreover have "phys v (?F i) = (if i < Suc m \<and> counted (phys s (?F i)) then phys s (?F i) AND NOT 2
        else phys s (?F i))" if "i < 1024" for i
    using F [OF that] entry_eq_iff [OF fr(1,1) that m] entry_eq_iff [OF fr(1,2) that m] fr(3)
    by (auto simp: pv less_Suc_eq)
  moreover have "phys v a = phys s a" if "a AND PAGE_MASK \<noteq> f" "a AND PAGE_MASK \<noteq> t" for a
    using rest [OF that] entry_offset(1) [OF fr(1) m] entry_offset(1) [OF fr(2) m] that
    by (auto simp: pv)
  moreover have "mem_map v n = mem_map s n + of_nat (card (?C (Suc m) n))" for n
  proof -
    have "?C (Suc m) n = (if counted (phys s (?F m)) \<and> MAP_NR (phys s (?F m) AND NOT 2) = n
                          then insert m (?C m n) else ?C m n)"
      by (auto simp: less_Suc_eq)
    then show ?thesis by (simp add: mv M)
  qed
  ultimately show ?case using Hv by blast
qed

lemma MAP_NR_div: "LOW_MEM \<le> e \<Longrightarrow> MAP_NR e = unat e div 4096 - 256"
proof -
  assume "LOW_MEM \<le> e"
  then have le: "0x100000 \<le> unat e" and sub: "unat (e - LOW_MEM) = unat e - 0x100000"
    by (simp_all add: unat_sub word_le_nat_alt)
  define y where "y = unat e - 0x100000"
  have "unat e = 256 * 4096 + y" using le by (simp add: y_def)
  then have "unat e div 4096 = 256 + y div 4096" by simp
  with sub show ?thesis by (simp add: MAP_NR_def unat_drop_bit32 y_def)
qed

lemma PAGE_MASK_NOT2: "PAGE_MASK AND (e AND NOT 2) = PAGE_MASK AND e"
  by (subst and.left_commute) (simp add: and.commute)

lemma unat_mask_e: "unat (PAGE_MASK AND e) = unat e div 4096 * 4096"
  using unat_and_mask [of e] by (simp add: and.commute)

lemma mask_ge_LOW: "LOW_MEM \<le> PAGE_MASK AND e \<longleftrightarrow> LOW_MEM \<le> e"
proof -
  have "0x100000 \<le> x div 4096 * 4096 \<longleftrightarrow> 0x100000 \<le> x" for x :: nat
  proof
    assume "0x100000 \<le> x"
    then have "256 \<le> x div 4096" by simp
    then show "0x100000 \<le> x div 4096 * 4096" by simp
  next
    assume "0x100000 \<le> x div 4096 * 4096"
    also have "\<dots> \<le> x" by simp
    finally show "0x100000 \<le> x" .
  qed
  then show ?thesis by (simp add: word_le_nat_alt unat_mask_e)
qed

lemma MAP_NR_mask: "LOW_MEM \<le> e \<Longrightarrow> MAP_NR (PAGE_MASK AND e) = MAP_NR e"
  by (simp add: MAP_NR_div mask_ge_LOW unat_mask_e)

lemma counted_frame:
  assumes "e AND 1 \<noteq> 0"
  shows "counted e \<longleftrightarrow> LOW_MEM \<le> PAGE_MASK AND e"
proof -
  have "LOW_MEM \<le> e AND NOT 2 \<longleftrightarrow> LOW_MEM \<le> PAGE_MASK AND e"
    using mask_ge_LOW [of "e AND NOT 2"] by (simp only: PAGE_MASK_NOT2)
  moreover have "e AND NOT 2 \<noteq> LOW_MEM"
  proof
    assume eq: "e AND NOT 2 = LOW_MEM"
    have "e AND 1 = (e AND NOT 2) AND 1" by (simp add: and.assoc)
    with eq assms show False by simp
  qed
  ultimately show ?thesis using assms by (auto simp: counted_def less_le)
qed

text \<open>Freeing a table gives back one reference for every entry that is present and counted.\<close>

lemma free_pte_Ret:
  assumes "counted (phys s a) \<Longrightarrow> PAGE_MASK AND phys s a < HIGH_MEMORY s \<and>
      MAP_NR (PAGE_MASK AND phys s a) < PAGING_PAGES \<and> mem_map s (MAP_NR (PAGE_MASK AND phys s a)) \<noteq> 0"
  shows "\<exists>u. free_pte a s = Ret () u \<and> phys u = (phys s)(a := 0) \<and> HIGH_MEMORY u = HIGH_MEMORY s \<and>
    mem_map u = (if counted (phys s a)
      then (mem_map s)(MAP_NR (PAGE_MASK AND phys s a) := mem_map s (MAP_NR (PAGE_MASK AND phys s a)) - 1)
      else mem_map s)"
proof (cases "phys s a AND 1 = 0")
  case True
  then show ?thesis by (auto simp: free_pte_def counted_def)
next
  case False
  from counted_frame [OF False] assms False show ?thesis
    by (auto simp: free_pte_def free_page_def Let_def not_less not_le)
qed

lemma free_table_Ret:
  assumes t: "t AND PAGE_MASK = t"
    and ok: "\<And>i. i < 1024 \<Longrightarrow> counted (phys s (t + 4 * of_nat i)) \<Longrightarrow>
       PAGE_MASK AND phys s (t + 4 * of_nat i) < HIGH_MEMORY s \<and>
       MAP_NR (PAGE_MASK AND phys s (t + 4 * of_nat i)) < PAGING_PAGES"
    and enough: "\<And>n. card {i. i < 1024 \<and> counted (phys s (t + 4 * of_nat i)) \<and>
       MAP_NR (PAGE_MASK AND phys s (t + 4 * of_nat i)) = n} \<le> unat (mem_map s n)"
    and m: "m \<le> 1024"
  shows "\<exists>u. kfor (\<lambda>nr _ s. free_pte (t + 4 * of_nat nr) s) [0..<m] () s = Ret () u \<and>
    HIGH_MEMORY u = HIGH_MEMORY s \<and>
    (\<forall>i < 1024. phys u (t + 4 * of_nat i) = (if i < m then 0 else phys s (t + 4 * of_nat i))) \<and>
    (\<forall>a. a AND PAGE_MASK \<noteq> t \<longrightarrow> phys u a = phys s a) \<and>
    (\<forall>n. mem_map u n = mem_map s n - of_nat (card {i. i < m \<and> counted (phys s (t + 4 * of_nat i)) \<and>
       MAP_NR (PAGE_MASK AND phys s (t + 4 * of_nat i)) = n}))"
  using m
proof (induction m)
  case 0
  then show ?case by simp
next
  case (Suc m)
  let ?T = "\<lambda>i. t + 4 * of_nat i"
  let ?N = "\<lambda>i. MAP_NR (PAGE_MASK AND phys s (?T i))"
  let ?C = "\<lambda>m n. {i. i < m \<and> counted (phys s (?T i)) \<and> ?N i = n}"
  from Suc obtain u where
    run: "kfor (\<lambda>nr _ s. free_pte (?T nr) s) [0..<m] () s = Ret () u"
    and H: "HIGH_MEMORY u = HIGH_MEMORY s"
    and T: "\<And>i. i < 1024 \<Longrightarrow> phys u (?T i) = (if i < m then 0 else phys s (?T i))"
    and rest: "\<And>a. a AND PAGE_MASK \<noteq> t \<Longrightarrow> phys u a = phys s a"
    and M: "\<And>n. mem_map u n = mem_map s n - of_nat (card (?C m n))"
    by auto
  from Suc.prems have m: "m < 1024" by simp
  have Tm: "phys u (?T m) = phys s (?T m)" using T [OF m] by simp
  have CS: "?C (Suc m) n = (if counted (phys s (?T m)) \<and> ?N m = n then insert m (?C m n) else ?C m n)" for n
    by (auto simp: less_Suc_eq)
  have nz: "mem_map u (?N m) \<noteq> 0" if c: "counted (phys s (?T m))"
  proof -
    have "insert m (?C m (?N m)) \<subseteq> ?C 1024 (?N m)" using c m by auto
    then have "card (insert m (?C m (?N m))) \<le> card (?C 1024 (?N m))"
      by (intro card_mono) auto
    then have lt: "card (?C m (?N m)) < unat (mem_map s (?N m))"
      using enough [of "?N m"] by simp
    have "mem_map s (?N m) \<noteq> of_nat (card (?C m (?N m)))"
    proof
      assume eq: "mem_map s (?N m) = of_nat (card (?C m (?N m)))"
      have "unat (of_nat (card (?C m (?N m))) :: u8) \<le> card (?C m (?N m))"
        by (simp add: unat_of_nat)
      with lt eq show False by simp
    qed
    then show ?thesis by (simp add: M)
  qed
  from free_pte_Ret [of u "?T m"] ok [OF m] nz Tm H obtain v where
    step: "free_pte (?T m) u = Ret () v"
    and pv: "phys v = (phys u)(?T m := 0)" and Hv: "HIGH_MEMORY v = HIGH_MEMORY s"
    and mv: "mem_map v = (if counted (phys s (?T m)) then (mem_map u)(?N m := mem_map u (?N m) - 1) else mem_map u)"
    by auto
  have "kfor (\<lambda>nr _ s. free_pte (?T nr) s) [0..<Suc m] () s = Ret () v"
    using run step by (simp add: kfor_append)
  moreover have "phys v (?T i) = (if i < Suc m then 0 else phys s (?T i))" if "i < 1024" for i
    using T [OF that] entry_eq_iff [OF t t that m] by (auto simp: pv less_Suc_eq)
  moreover have "phys v a = phys s a" if "a AND PAGE_MASK \<noteq> t" for a
    using rest [OF that] entry_offset(1) [OF t m] that by (auto simp: pv)
  moreover have "mem_map v n = mem_map s n - of_nat (card (?C (Suc m) n))" for n
    by (simp add: mv M CS)
  ultimately show ?case using Hv by blast
qed

text \<open>A page table in use whose counted entries point at existing frames.\<close>

definition table_ok :: "kernel \<Rightarrow> u32 \<Rightarrow> bool" where
  "table_ok s f \<longleftrightarrow> in_use s f \<and> (\<forall>i < 1024. counted (phys s (f + 4 * of_nat i)) \<longrightarrow>
     PAGE_MASK AND phys s (f + 4 * of_nat i) < HIGH_MEMORY s \<and>
     MAP_NR (PAGE_MASK AND phys s (f + 4 * of_nat i)) < PAGING_PAGES)"

text \<open>How often the table at \<open>f\<close> refers to frame number \<open>n\<close>.\<close>

definition refs_from :: "kernel \<Rightarrow> u32 \<Rightarrow> nat \<Rightarrow> nat" where
  "refs_from s f n = card {i. i < 1024 \<and> counted (phys s (f + 4 * of_nat i)) \<and>
     MAP_NR (PAGE_MASK AND phys s (f + 4 * of_nat i)) = n}"

lemma counted_MAP_NR: "counted e \<Longrightarrow> MAP_NR (e AND NOT 2) = MAP_NR (PAGE_MASK AND e)"
  by (metis MAP_NR_mask PAGE_MASK_NOT2 counted_def less_imp_le)

lemma cow_entry_simps:
  "counted (cow_entry e) = counted e" "counted e \<Longrightarrow> PAGE_MASK AND cow_entry e = PAGE_MASK AND e"
proof -
  have "(e AND NOT 2) AND 1 = e AND 1" by (simp add: and.assoc)
  then show "counted (cow_entry e) = counted e"
    by (simp add: counted_def cow_entry_def and.assoc)
  show "counted e \<Longrightarrow> PAGE_MASK AND cow_entry e = PAGE_MASK AND e"
    using PAGE_MASK_NOT2 [of e] by (simp add: cow_entry_def counted_def)
qed

lemma dir_not_in_frame: "d < 0x1000 \<Longrightarrow> is_frame p \<Longrightarrow> d AND PAGE_MASK \<noteq> p"
proof
  assume "d < 0x1000" and "is_frame p" and "d AND PAGE_MASK = p"
  moreover from \<open>d < 0x1000\<close> have "d AND PAGE_MASK = 0"
    by (simp add: word_unat_eq_iff unat_and_mask word_less_nat_alt)
  ultimately show False by (simp add: is_frame_def)
qed

lemma copy_dir_entry_Ret:
  assumes d: "from_a \<noteq> 0" "from_dir < 0x1000" "to_dir < 0x1000" "from_dir \<noteq> to_dir"
    and p: "phys s from_dir AND 1 \<noteq> 0" "phys s to_dir AND 1 = 0"
    and f: "table_ok s f" "f = PAGE_MASK AND phys s from_dir"
    and free: "n < PAGING_PAGES" "mem_map s n = 0"
  shows "\<exists>u q. copy_dir_entry from_a from_dir to_dir s = Ret False u \<and>
    is_frame q \<and> q \<noteq> f \<and> mem_map s (MAP_NR q) = 0 \<and> 
    phys u to_dir = q OR 7 \<and> phys u from_dir = phys s from_dir \<and> HIGH_MEMORY u = HIGH_MEMORY s \<and>
    (\<forall>i < 1024. phys u (q + 4 * of_nat i) = cow_entry (phys s (f + 4 * of_nat i))) \<and>
    (\<forall>i < 1024. phys u (f + 4 * of_nat i) =
       (if counted (phys s (f + 4 * of_nat i)) then phys s (f + 4 * of_nat i) AND NOT 2
        else phys s (f + 4 * of_nat i))) \<and>
    (\<forall>k. mem_map u k = ((mem_map s)(MAP_NR q := 1)) k + of_nat (refs_from s f k))"
proof -
  obtain q s1 where g: "get_free_page s = (q, s1)" by fastforce
  have q0: "q \<noteq> 0" using g free get_free_page_None [of s s1] by blast
  from get_free_page_Some [OF g q0] obtain i where
    i: "i < PAGING_PAGES" "q = page_of_nr i" "mem_map s i = 0" "s1 = clear_page q (set_map i 1 s)" by blast
  have fr: "is_frame q" "is_frame f" "q \<noteq> f"
    using i f(1) by (auto simp: table_ok_def in_use_def)
  then have al: "q AND PAGE_MASK = q" "f AND PAGE_MASK = f" by (simp_all add: is_frame_def)
  define s2 where "s2 = set_phys to_dir (q OR 7) s1"
  have fe: "phys s2 (f + 4 * of_nat j) = phys s (f + 4 * of_nat j)" if "j < 1024" for j
    using entry_offset(1) [OF al(2) that] fr dir_not_in_frame [OF d(3) fr(2)] i(4) by (auto simp: s2_def)
  have qe: "phys s2 (q + 4 * of_nat j) = 0" if "j < 1024" for j
    using entry_offset(1) [OF al(1) that] dir_not_in_frame [OF d(3) fr(1)] i(4) by (auto simp: s2_def)
  have okt: "MAP_NR (phys s2 (f + 4 * of_nat j) AND NOT 2) < PAGING_PAGES"
    if "j < 1024" "counted (phys s2 (f + 4 * of_nat j))" for j
    using f(1) that fe [OF that(1)] counted_MAP_NR [of "phys s (f + 4 * of_nat j)"]
    by (simp add: table_ok_def)
  from copy_table_Ret [of f q s2 1024, OF al(2,1) _ okt qe] fr(3) obtain u where
    run: "kfor (\<lambda>i _ s. copy_pte (f + 4 * of_nat i) (q + 4 * of_nat i) s) [0..<1024] () s2 = Ret () u"
    and H: "HIGH_MEMORY u = HIGH_MEMORY s2" and U: "\<forall>i < 1024. phys u (q + 4 * of_nat i) = cow_entry (phys s2 (f + 4 * of_nat i))"
       "\<forall>i < 1024. phys u (f + 4 * of_nat i) = (if counted (phys s2 (f + 4 * of_nat i))
          then phys s2 (f + 4 * of_nat i) AND NOT 2 else phys s2 (f + 4 * of_nat i))"
       "\<forall>a. a AND PAGE_MASK \<noteq> f \<and> a AND PAGE_MASK \<noteq> q \<longrightarrow> phys u a = phys s2 a"
       "\<forall>n. mem_map u n = mem_map s2 n + of_nat (card {i. i < 1024 \<and> counted (phys s2 (f + 4 * of_nat i)) \<and>
          MAP_NR (phys s2 (f + 4 * of_nat i) AND NOT 2) = n})"
    by auto
  have "{i. i < 1024 \<and> counted (phys s2 (f + 4 * of_nat i)) \<and> MAP_NR (phys s2 (f + 4 * of_nat i) AND NOT 2) = k}
      = {i. i < 1024 \<and> counted (phys s (f + 4 * of_nat i)) \<and> MAP_NR (PAGE_MASK AND phys s (f + 4 * of_nat i)) = k}" for k
    using fe counted_MAP_NR by auto
  then have mm: "mem_map u k = ((mem_map s)(MAP_NR q := 1)) k + of_nat (refs_from s f k)" for k
    using U(4) i by (simp add: refs_from_def s2_def)
  have "copy_dir_entry from_a from_dir to_dir s = Ret False u"
    using run d(1) p g q0 by (simp add: copy_dir_entry_def f(2) [symmetric] s2_def Let_def)
  moreover have "phys u to_dir = q OR 7" "phys u from_dir = phys s from_dir"
    using U(3) d i(4) dir_not_in_frame [OF d(3)] dir_not_in_frame [OF d(2)] fr
    by (auto simp: s2_def)
  moreover have "HIGH_MEMORY u = HIGH_MEMORY s" using H i(4) by (simp add: s2_def)
  moreover have "\<forall>j < 1024. phys u (q + 4 * of_nat j) = cow_entry (phys s (f + 4 * of_nat j))"
    using U(1) fe by metis
  moreover have "\<forall>j < 1024. phys u (f + 4 * of_nat j) = (if counted (phys s (f + 4 * of_nat j))
      then phys s (f + 4 * of_nat j) AND NOT 2 else phys s (f + 4 * of_nat j))"
    using U(2) fe by metis
  moreover have "mem_map s (MAP_NR q) = 0" using i by simp
  ultimately show ?thesis using fr(1,3) mm by blast
qed

lemma refs_from_free:
  assumes "table_ok s f" "\<And>i. i < 1024 \<Longrightarrow> counted (phys s (f + 4 * of_nat i)) \<Longrightarrow>
      mem_map s (MAP_NR (PAGE_MASK AND phys s (f + 4 * of_nat i))) \<noteq> 0"
    and "mem_map s k = 0"
  shows "refs_from s f k = 0"
  using assms by (auto simp: refs_from_def card_eq_0_iff)

text \<open>C2: Forking and exiting is balanced. When \<^verbatim>\<open>copy_page_tables\<close> copies one page table of the
  parent for a child and \<^verbatim>\<open>free_page_tables\<close> later frees the child's, the reference count of every
  frame of memory is what it was before, the frame of the child's table is free again, the
  directory entry is empty, and the parent maps the same frames, write-protected.\<close>

theorem copy_free_balanced:
  assumes d: "from_a \<noteq> 0" "from_dir < 0x1000" "to_dir < 0x1000" "from_dir \<noteq> to_dir"
    and p: "phys s from_dir AND 1 \<noteq> 0" "phys s to_dir AND 1 = 0"
    and f: "table_ok s f" "f = PAGE_MASK AND phys s from_dir"
    and used: "\<And>i. i < 1024 \<Longrightarrow> counted (phys s (f + 4 * of_nat i)) \<Longrightarrow>
      mem_map s (MAP_NR (PAGE_MASK AND phys s (f + 4 * of_nat i))) \<noteq> 0"
    and room: "\<And>k. unat (mem_map s k) + refs_from s f k < 256"
    and free: "n < PAGING_PAGES" "mem_map s n = 0" "high_used s"
  shows "\<exists>u v. copy_dir_entry from_a from_dir to_dir s = Ret False u \<and>
    free_dir_entry to_dir u = Ret () v \<and> mem_map v = mem_map s \<and> phys v to_dir = 0 \<and>
    (\<forall>i < 1024. phys v (f + 4 * of_nat i) =
       (if counted (phys s (f + 4 * of_nat i)) then phys s (f + 4 * of_nat i) AND NOT 2
        else phys s (f + 4 * of_nat i)))"
proof -
  let ?N = "\<lambda>s t i. MAP_NR (PAGE_MASK AND phys s (t + 4 * of_nat i))"
  from copy_dir_entry_Ret [OF d p f free(1,2)] obtain u q where
    copy: "copy_dir_entry from_a from_dir to_dir s = Ret False u"
    and q: "is_frame q" "q \<noteq> f" "mem_map s (MAP_NR q) = 0" "phys u to_dir = q OR 7"
    and H: "HIGH_MEMORY u = HIGH_MEMORY s"
    and Q: "\<And>i. i < 1024 \<Longrightarrow> phys u (q + 4 * of_nat i) = cow_entry (phys s (f + 4 * of_nat i))"
    and F: "\<forall>i < 1024. phys u (f + 4 * of_nat i) =
       (if counted (phys s (f + 4 * of_nat i)) then phys s (f + 4 * of_nat i) AND NOT 2
        else phys s (f + 4 * of_nat i))"
    and M: "\<And>k. mem_map u k = ((mem_map s)(MAP_NR q := 1)) k + of_nat (refs_from s f k)"
    by blast
  from q(1) have al: "q AND PAGE_MASK = q" by (simp add: is_frame_def)
  have r0: "refs_from s f (MAP_NR q) = 0" using refs_from_free [OF f(1) used q(3)] .
  have ent: "counted (phys u (q + 4 * of_nat i)) = counted (phys s (f + 4 * of_nat i))"
    "counted (phys s (f + 4 * of_nat i)) \<Longrightarrow> ?N u q i = ?N s f i"
    "counted (phys s (f + 4 * of_nat i)) \<Longrightarrow> PAGE_MASK AND phys u (q + 4 * of_nat i) = PAGE_MASK AND phys s (f + 4 * of_nat i)"
    if "i < 1024" for i
    using that cow_entry_simps by (simp_all add: Q)
  have R: "card {i. i < 1024 \<and> counted (phys u (q + 4 * of_nat i)) \<and> ?N u q i = k} = refs_from s f k" for k
    unfolding refs_from_def using ent by (intro arg_cong [where f = card]) auto
  have enough: "refs_from s f k \<le> unat (mem_map u k)" for k
  proof (cases "k = MAP_NR q")
    case False
    with room [of k] show ?thesis by (simp add: M unat_word_ariths unat_of_nat)
  qed (simp add: r0)
  have ok: "PAGE_MASK AND phys u (q + 4 * of_nat i) < HIGH_MEMORY u \<and> ?N u q i < PAGING_PAGES"
    if "i < 1024" "counted (phys u (q + 4 * of_nat i))" for i
    using f(1) that ent [OF that(1)] H by (simp add: table_ok_def)
  from free_table_Ret [of q u 1024, OF al ok] R enough obtain w where
    run: "kfor (\<lambda>nr _ s. free_pte (q + 4 * of_nat nr) s) [0..<1024] () u = Ret () w"
    and Hw: "HIGH_MEMORY w = HIGH_MEMORY u"
    and rest: "\<And>a. a AND PAGE_MASK \<noteq> q \<Longrightarrow> phys w a = phys u a"
    and Mw: "\<And>k. mem_map w k = mem_map u k - of_nat (refs_from s f k)"
    by (auto simp: R)
  have Mw': "mem_map w = (mem_map s)(MAP_NR q := 1)" by (rule ext) (simp add: Mw M)
  have td: "phys w to_dir = q OR 7" using rest dir_not_in_frame [OF d(3) q(1)] q(4) by simp
  have "q < HIGH_MEMORY s"
    using free(3) q(1,3) by (auto simp: high_used_def is_frame_iff not_le)
  then have fp: "free_page q w = Ret () (set_map (MAP_NR q) 0 w)"
    using q(1) H Hw by (auto simp: free_page_def Mw' is_frame_def Let_def not_less not_le)
  define v where "v = set_phys to_dir 0 (set_map (MAP_NR q) 0 w)"
  have fr: "free_dir_entry to_dir u = Ret () v"
    using run td fp page_or_flags [OF al] q(4) by (simp add: free_dir_entry_def Let_def v_def)
  have "mem_map v = mem_map s" by (rule ext) (simp add: v_def Mw' q(3))
  moreover have "phys v (f + 4 * of_nat i) = phys u (f + 4 * of_nat i)" if "i < 1024" for i
  proof -
    have "f AND PAGE_MASK = f" "is_frame f" using f(1) by (simp_all add: table_ok_def in_use_def is_frame_def)
    then have "(f + 4 * of_nat i) AND PAGE_MASK = f" using entry_offset(1) that by blast
    with rest q(2) dir_not_in_frame [OF d(3) \<open>is_frame f\<close>] show ?thesis by (auto simp: v_def)
  qed
  ultimately show ?thesis using copy fr F by (auto simp: v_def)
qed

text \<open>A parent with one page table, at 0x101000, that maps a single writable page of its own.\<close>

definition fork_state :: kernel where
  "fork_state = k0\<lparr>HIGH_MEMORY := 0x1000000,
     mem_map := (\<lambda>i. if i = 1 \<or> i = 2 then 1 else 0),
     phys := (\<lambda>a. if a = 4 then 0x101007 else if a = 0x101000 then 0x102007 else 0)\<rparr>"

theorem copy_free_balanced_witness:
  "\<exists>u v. copy_dir_entry 0x400000 4 8 fork_state = Ret False u \<and> free_dir_entry 8 u = Ret () v \<and>
     mem_map v = mem_map fork_state"
proof -
  let ?s = "fork_state"
  have p: "phys ?s 4 = 0x101007" "phys ?s 8 = 0" "phys ?s 0x101000 = 0x102007" "mem_map ?s 3839 = 0"
    "mem_map ?s (Suc 0) = 1" "mem_map ?s 2 = 1" "HIGH_MEMORY ?s = 0x1000000"
    by (simp_all add: fork_state_def)
  have m: "MAP_NR 0x101000 = 1" "MAP_NR 0x102000 = 2" by (simp_all add: MAP_NR_def)
  have al: "(0x101000 :: u32) AND PAGE_MASK = 0x101000" by simp
  have e: "phys ?s (0x101000 + 4 * of_nat i) = (if i = 0 then 0x102007 else 0)" if "i < 1024" for i
  proof -
    have "0x101000 + 4 * of_nat i \<noteq> (4 :: u32)"
    proof
      assume eq: "0x101000 + 4 * of_nat i = (4 :: u32)"
      have "(4 :: u32) AND PAGE_MASK = 0x101000"
        using entry_offset(1) [OF al that] by (simp only: eq)
      then show False by simp
    qed
    with entry_eq_iff [OF al al that, of 0] show ?thesis by (simp add: fork_state_def)
  qed
  have c: "counted (phys ?s (0x101000 + 4 * of_nat i)) \<longleftrightarrow> i = 0" if "i < 1024" for i
    using e [OF that] by (simp add: counted_def)
  have ok: "table_ok ?s 0x101000"
    using c e by (auto simp: table_ok_def in_use_def is_frame_def m p)
  have used: "mem_map ?s (MAP_NR (PAGE_MASK AND phys ?s (0x101000 + 4 * of_nat i))) \<noteq> 0"
    if "i < 1024" "counted (phys ?s (0x101000 + 4 * of_nat i))" for i
    using c that by (simp add: p m)
  have room: "unat (mem_map ?s k) + refs_from ?s 0x101000 k < 256" for k
  proof -
    have "{i. i < 1024 \<and> counted (phys ?s (0x101000 + 4 * of_nat i)) \<and>
       MAP_NR (PAGE_MASK AND phys ?s (0x101000 + 4 * of_nat i)) = k} \<subseteq> {0}" using c by auto
    from card_mono [OF _ this] have "refs_from ?s 0x101000 k \<le> 1" by (simp add: refs_from_def)
    then show ?thesis by (simp add: fork_state_def)
  qed
  have hu: "high_used ?s"
    by (auto simp: high_used_def word_le_nat_alt unat_page_of_nr p)
  have "(3839::nat) < PAGING_PAGES" by simp
  from copy_free_balanced [OF _ _ _ _ _ _ ok _ used room this p(4) hu, of "0x400000" 4 8] show ?thesis
    by (auto simp: p)
qed

end
