(* ===== verification/Boot.thy ===== *)
theory Boot
  imports Mm
begin

text \<open>
  The start of the kernel, as far as it computes: \<^verbatim>\<open>kernel_mktime\<close> of kernel/mktime.c with
  the calendar as its reference, and from init/main.c \<^verbatim>\<open>time_init\<close>, which reads the clock chip
  until no second has passed meanwhile, and the division of memory by \<^verbatim>\<open>main\<close> into kernel,
  buffer cache and page frames.
\<close>

subsection \<open>kernel/mktime.c\<close>

text \<open>The fields of \<^verbatim>\<open>struct tm\<close> that the kernel sets or reads.\<close>

record tm =
  tm_sec :: int
  tm_min :: int
  tm_hour :: int
  tm_mday :: int
  tm_mon :: int
  tm_year :: int

abbreviation (input) "MINUTE \<equiv> (60 :: int)"
abbreviation (input) "HOUR \<equiv> (60 * MINUTE)"
abbreviation (input) "DAY \<equiv> (24 * HOUR)"
abbreviation (input) "YEAR \<equiv> (365 * DAY)"

text \<open>The seconds before each month of a leap year.\<close>

definition month :: "int list" where
  "month = [0, DAY * 31, DAY * (31+29), DAY * (31+29+31), DAY * (31+29+31+30), DAY * (31+29+31+30+31),
    DAY * (31+29+31+30+31+30), DAY * (31+29+31+30+31+30+31), DAY * (31+29+31+30+31+30+31+31),
    DAY * (31+29+31+30+31+30+31+31+30), DAY * (31+29+31+30+31+30+31+31+30+31),
    DAY * (31+29+31+30+31+30+31+31+30+31+30)]"

text \<open>\<open>None\<close> is a month outside the table.\<close>

definition kernel_mktime :: "tm \<Rightarrow> int option" where
  "kernel_mktime tm =
     (let year = wrap32 (tm_year tm - 70);
          res = wrap32 (YEAR * year + DAY * c_div (wrap32 (year + 1)) 4) in
      if \<not> (0 \<le> tm_mon tm \<and> tm_mon tm < 12) then None
      else
        let res = wrap32 (res + month ! nat (tm_mon tm));
            res = (if tm_mon tm > 1 \<and> c_mod (wrap32 (year + 2)) 4 \<noteq> 0 then wrap32 (res - DAY) else res);
            res = wrap32 (res + DAY * wrap32 (tm_mday tm - 1));
            res = wrap32 (res + HOUR * tm_hour tm);
            res = wrap32 (res + MINUTE * tm_min tm) in
        Some (wrap32 (res + tm_sec tm)))"

subsection \<open>init/main.c\<close>

text \<open>\<open>cmos k r\<close> is what the clock chip answers to the \<open>k\<close>-th \<^verbatim>\<open>CMOS_READ\<close> since the start, when it
  asks for register \<open>r\<close>. The bit \<open>0x80\<close> of the port access masks the non-maskable interrupt.\<close>

type_synonym cmos = "nat \<Rightarrow> u8 \<Rightarrow> u8"

definition CMOS_READ :: "cmos \<Rightarrow> nat \<Rightarrow> u8 \<Rightarrow> int" where
  "CMOS_READ cmos k addr = uint (cmos k (0x80 OR addr))"

definition BCD_TO_BIN :: "int \<Rightarrow> int" where
  "BCD_TO_BIN val = (val AND 15) + drop_bit 4 val * 10"

text \<open>One pass of the loop of \<^verbatim>\<open>time_init\<close>, beginning with the \<open>k\<close>-th reading.\<close>

definition read_clock :: "cmos \<Rightarrow> nat \<Rightarrow> tm" where
  "read_clock cmos k = \<lparr>tm_sec = CMOS_READ cmos k 0, tm_min = CMOS_READ cmos (k + 1) 2,
     tm_hour = CMOS_READ cmos (k + 2) 4, tm_mday = CMOS_READ cmos (k + 3) 7,
     tm_mon = CMOS_READ cmos (k + 4) 8, tm_year = CMOS_READ cmos (k + 5) 9\<rparr>"

definition bcd_tm :: "tm \<Rightarrow> tm" where
  "bcd_tm t = \<lparr>tm_sec = BCD_TO_BIN (tm_sec t), tm_min = BCD_TO_BIN (tm_min t),
     tm_hour = BCD_TO_BIN (tm_hour t), tm_mday = BCD_TO_BIN (tm_mday t),
     tm_mon = BCD_TO_BIN (tm_mon t) - 1, tm_year = BCD_TO_BIN (tm_year t)\<rparr>"

definition time_init :: "env \<Rightarrow> cmos \<Rightarrow> kernel \<Rightarrow> unit kres" where
  "time_init E cmos s =
     kbind (kwhile (fuel E) (\<lambda>k s.
         let time = read_clock cmos k in
         if tm_sec time \<noteq> CMOS_READ cmos (k + 6) 0 then Ret (Inl (k + 7)) s else Ret (Inr time) s) 0 s)
       (\<lambda>time s. case kernel_mktime (bcd_tm time) of
           None \<Rightarrow> Fault
         | Some res \<Rightarrow> Ret () (s\<lparr>startup_time := res\<rparr>))"

text \<open>The sizes \<^verbatim>\<open>main\<close> computes from \<^verbatim>\<open>EXT_MEM_K\<close>: \<^verbatim>\<open>memory_end\<close>,
  \<^verbatim>\<open>buffer_memory_end\<close> and \<^verbatim>\<open>main_memory_start\<close>, the latter two equal as the kernel is
  built without \<^verbatim>\<open>RAMDISK\<close>.\<close>

definition memory_limits :: "u16 \<Rightarrow> int \<times> int \<times> int" where
  "memory_limits EXT_MEM_K =
     (let memory_end = (push_bit 20 1 + push_bit 10 (uint EXT_MEM_K)) AND NOT 0xfff;
          memory_end = (if memory_end > 16*1024*1024 then 16*1024*1024 else memory_end);
          buffer_memory_end =
            (if memory_end > 12*1024*1024 then 4*1024*1024
             else if memory_end > 6*1024*1024 then 2*1024*1024 else 1*1024*1024);
          main_memory_start = buffer_memory_end in
      (memory_end, buffer_memory_end, main_memory_start))"

definition boot_memory :: "u16 \<Rightarrow> kernel \<Rightarrow> unit kres" where
  "boot_memory EXT_MEM_K s =
     (case memory_limits EXT_MEM_K of (memory_end, buffer_memory_end, main_memory_start) \<Rightarrow>
        mem_init main_memory_start memory_end s)"

subsection \<open>The calendar\<close>

definition leap :: "int \<Rightarrow> bool" where
  "leap y \<longleftrightarrow> 4 dvd y \<and> \<not> 100 dvd y \<or> 400 dvd y"

definition year_days :: "int \<Rightarrow> int" where
  "year_days y = (if leap y then 366 else 365)"

definition month_days :: "int \<Rightarrow> int list" where
  "month_days y = [31, if leap y then 29 else 28, 31, 30, 31, 30, 31, 31, 30, 31, 30, 31]"

text \<open>The seconds between the beginning of 1970 and a moment of the Gregorian calendar, by counting
  years and months.\<close>

definition calendar_seconds :: "tm \<Rightarrow> int" where
  "calendar_seconds t =
     (let y = 1900 + tm_year t;
          days = sum_list (map year_days [1970..y - 1]) + sum_list (take (nat (tm_mon t)) (month_days y)) + tm_mday t - 1 in
      ((days * 24 + tm_hour t) * 60 + tm_min t) * 60 + tm_sec t)"

lemma wrap32_add_left: "wrap32 (wrap32 a + b) = wrap32 (a + b)"
  by (simp add: wrap32_def algebra_simps mod_simps)

lemma wrap32_diff_left: "wrap32 (wrap32 a - b) = wrap32 (a - b)"
  using wrap32_add_left [of a "- b"] by simp

lemma leap_in_range:
  assumes "0 \<le> n" "n < 130"
  shows "leap (1970 + n) \<longleftrightarrow> (n + 2) mod 4 = 0"
proof -
  have four: "4 dvd 1970 + n \<longleftrightarrow> (n + 2) mod 4 = 0" by presburger
  show ?thesis
  proof (cases "n = 30")
    case False
    have h: "\<not> 100 dvd 1970 + n"
    proof
      assume "100 dvd 1970 + n"
      then obtain k where "1970 + n = 100 * k" by (auto simp: dvd_def)
      moreover from this have "k = 20" using assms by linarith
      ultimately show False using False by simp
    qed
    moreover from h have "\<not> 400 dvd 1970 + n" using dvd_trans [of 100 400 "1970 + n"] by auto
    ultimately show ?thesis by (simp add: leap_def four)
  qed (simp add: leap_def)
qed

lemma days_before_year:
  assumes "n < 130"
  shows "sum_list (map year_days [1970..1970 + int n - 1]) = 365 * int n + (int n + 1) div 4"
  using assms
proof (induction n)
  case 0
  then show ?case by simp
next
  case (Suc n)
  have "[1970..1970 + int (Suc n) - 1] = [1970..1970 + int n - 1] @ [1970 + int n]"
    using upto_rec2 [of 1970 "1970 + int n"] by simp
  moreover have "year_days (1970 + int n) = 365 + (if (int n + 2) mod 4 = 0 then 1 else 0)"
    using Suc.prems by (simp add: year_days_def leap_in_range)
  moreover have "(int n + 2) div 4 = (int n + 1) div 4 + (if (int n + 2) mod 4 = 0 then 1 else 0)" by presburger
  ultimately show ?case using Suc by simp
qed

lemma month_table:
  assumes "m < 12"
  shows "month ! m - (if m > 1 \<and> \<not> leap y then DAY else 0) = DAY * sum_list (take m (month_days y))"
proof -
  have "m = 0 \<or> m = 1 \<or> m = 2 \<or> m = 3 \<or> m = 4 \<or> m = 5 \<or> m = 6 \<or> m = 7 \<or> m = 8 \<or> m = 9 \<or> m = 10 \<or> m = 11"
    using assms by presburger
  then show ?thesis by (elim disjE) (simp_all add: month_def month_days_def)
qed

text \<open>C21: \<open>kernel_mktime\<close> is the calendar: for every moment of the years 1970 to 2099 it returns the
  seconds since the beginning of 1970, wrapped around to a 32-bit \<^verbatim>\<open>long\<close>.\<close>

theorem kernel_mktime_calendar:
  assumes "70 \<le> tm_year t" "tm_year t < 200" "0 \<le> tm_mon t" "tm_mon t < 12" "is_s32 (tm_mday t - 1)"
  shows "kernel_mktime t = Some (wrap32 (calendar_seconds t))"
proof -
  define n where "n = nat (tm_year t - 70)"
  define m where "m = nat (tm_mon t)"
  have e: "tm_year t = 70 + int n" "tm_mon t = int m" "n < 130" "m < 12" using assms by (simp_all add: n_def m_def)
  have l: "leap (1970 + int n) \<longleftrightarrow> (int n + 2) mod 4 = 0" using e(3) by (intro leap_in_range) simp_all
  let ?d = "365 * int n + (int n + 1) div 4"
  have "calendar_seconds t = (((?d + sum_list (take m (month_days (1970 + int n))) + tm_mday t - 1) * 24 + tm_hour t) * 60
      + tm_min t) * 60 + tm_sec t"
    using days_before_year [OF e(3)] by (simp add: calendar_seconds_def Let_def e(1,2))
  also have "\<dots> = DAY * ?d + DAY * sum_list (take m (month_days (1970 + int n))) + DAY * (tm_mday t - 1) + HOUR * tm_hour t
      + MINUTE * tm_min t + tm_sec t"
    by (simp add: algebra_simps)
  also have "\<dots> = YEAR * int n + DAY * ((int n + 1) div 4) + month ! m
      - (if m > 1 \<and> (int n + 2) mod 4 \<noteq> 0 then DAY else 0)
      + DAY * (tm_mday t - 1) + HOUR * tm_hour t + MINUTE * tm_min t + tm_sec t"
    using month_table [OF e(4), of "1970 + int n"] unfolding l by (simp split: if_splits)
  finally have c: "calendar_seconds t = \<dots>" .
  have w: "wrap32 (int n) = int n" "wrap32 (int n + 1) = int n + 1" "wrap32 (int n + 2) = int n + 2"
    using e(3) by (simp_all add: is_s32_def)
  have d: "c_div (int n + 1) 4 = (int n + 1) div 4" "c_mod (int n + 2) 4 = (int n + 2) mod 4" by simp_all
  have y: "tm_year t - 70 = int n" using e(1) by simp
  show ?thesis
  proof (cases "m > 1 \<and> (int n + 2) mod 4 \<noteq> 0")
    case True
    then show ?thesis
      unfolding c kernel_mktime_def Let_def y w d e(2) using e(4) assms(5)
      by (simp add: wrap32_add_left wrap32_diff_left)
  next
    case False
    then show ?thesis
      unfolding c kernel_mktime_def Let_def y w d e(2) using e(4) assms(5)
      by (auto simp: wrap32_add_left) (simp_all only: add.assoc wrap32_add_left)
  qed
qed

subsection \<open>Reading the clock\<close>

lemma BCD_digits:
  assumes "0 \<le> n" "n < 100"
  shows "BCD_TO_BIN (16 * (n div 10) + n mod 10) = n"
proof -
  have "(16 * (n div 10) + n mod 10) mod 16 = n mod 10" "(16 * (n div 10) + n mod 10) div 16 = n div 10"
    using assms by simp_all
  moreover have "x AND 15 = x mod 16" for x :: int
    using take_bit_eq_mask [of 4 x] by (simp add: mask_eq_exp_minus_1 take_bit_eq_mod)
  ultimately show ?thesis unfolding BCD_TO_BIN_def by (simp only: drop_bit_eq_div) simp
qed

text \<open>A clock chip that shows the moment \<open>T k\<close> at the \<open>k\<close>-th reading: the registers hold the fields of
  the moment in two decimal digits, the months counted from 1.\<close>

definition shows_time :: "cmos \<Rightarrow> (nat \<Rightarrow> tm) \<Rightarrow> bool" where
  "shows_time cmos T \<longleftrightarrow> (\<forall>k. let bcd = (\<lambda>n. 16 * (n div 10) + n mod 10); t = T k in
     (\<forall>n \<in> {tm_sec t, tm_min t, tm_hour t, tm_mday t, tm_mon t + 1, tm_year t}. 0 \<le> n \<and> n < 100) \<and>
     uint (cmos k 0x80) = bcd (tm_sec t) \<and> uint (cmos k 0x82) = bcd (tm_min t) \<and>
     uint (cmos k 0x84) = bcd (tm_hour t) \<and> uint (cmos k 0x87) = bcd (tm_mday t) \<and>
     uint (cmos k 0x88) = bcd (tm_mon t + 1) \<and> uint (cmos k 0x89) = bcd (tm_year t))"

text \<open>The seven readings from \<open>k\<close> on see one moment, or the second has changed at the last of them.\<close>

definition fast_readings :: "(nat \<Rightarrow> tm) \<Rightarrow> bool" where
  "fast_readings T \<longleftrightarrow> (\<forall>k. (\<forall>j \<le> 6. T (k + j) = T k) \<or> tm_sec (T (k + 6)) \<noteq> tm_sec (T k))"

lemma CMOS_READ_shows:
  assumes "shows_time cmos T"
  shows "BCD_TO_BIN (CMOS_READ cmos k 0) = tm_sec (T k)" "BCD_TO_BIN (CMOS_READ cmos k 2) = tm_min (T k)"
    "BCD_TO_BIN (CMOS_READ cmos k 4) = tm_hour (T k)" "BCD_TO_BIN (CMOS_READ cmos k 7) = tm_mday (T k)"
    "BCD_TO_BIN (CMOS_READ cmos k 8) = tm_mon (T k) + 1" "BCD_TO_BIN (CMOS_READ cmos k 9) = tm_year (T k)"
  using assms [unfolded shows_time_def Let_def, rule_format, of k]
  by (simp_all add: CMOS_READ_def BCD_digits)

text \<open>When the clock shows the moments \<open>T\<close> and the readings are fast compared to its second, \<open>time_init\<close>
  ends as soon as one round of readings falls into one second, and sets \<open>startup_time\<close> from a moment
  that the clock really showed, never from a mixture of two.\<close>

theorem time_init_consistent:
  assumes c: "shows_time cmos T" and f: "fast_readings T"
    and r: "T (7 * n + 6) = T (7 * n)" "n < fuel E"
    and mon: "\<forall>k. 0 \<le> tm_mon (T k) \<and> tm_mon (T k) < 12"
  shows "\<exists>k \<le> n. \<exists>res. kernel_mktime (T (7 * k)) = Some res \<and>
    time_init E cmos s = Ret () (s\<lparr>startup_time := res\<rparr>)"
proof -
  let ?b = "\<lambda>k s. let time = read_clock cmos k in
         if tm_sec time \<noteq> CMOS_READ cmos (k + 6) 0 then Ret (Inl (k + 7)) s else Ret (Inr time) s"
  let ?I = "\<lambda>v t. t = s \<and> (\<exists>k \<le> n. v = 7 * k)"
  let ?Q = "\<lambda>a t. t = s \<and> (\<exists>k \<le> n. a = read_clock cmos (7 * k) \<and> tm_sec (T (7 * k + 6)) = tm_sec (T (7 * k)))"
  have sec: "tm_sec (read_clock cmos k) = CMOS_READ cmos (k + 6) 0 \<longleftrightarrow> tm_sec (T (k + 6)) = tm_sec (T k)" for k
  proof
    assume "tm_sec (read_clock cmos k) = CMOS_READ cmos (k + 6) 0"
    then have "CMOS_READ cmos k 0 = CMOS_READ cmos (k + 6) 0" by (simp add: read_clock_def)
    then show "tm_sec (T (k + 6)) = tm_sec (T k)" by (simp only: CMOS_READ_shows(1) [OF c, symmetric])
  next
    have v: "CMOS_READ cmos j 0 = 16 * (tm_sec (T j) div 10) + tm_sec (T j) mod 10" for j
      using c [unfolded shows_time_def Let_def, rule_format, of j] by (simp add: CMOS_READ_def)
    assume "tm_sec (T (k + 6)) = tm_sec (T k)"
    then show "tm_sec (read_clock cmos k) = CMOS_READ cmos (k + 6) 0" by (simp add: read_clock_def v)
  qed
  have step: "\<exists>r t'. ?b v t = Ret r t' \<and>
      (case r of Inl w \<Rightarrow> ?I w t' \<and> n - w div 7 < n - v div 7 | Inr a \<Rightarrow> ?Q a t')" if I: "?I v t" for v t
  proof -
    obtain k where k: "k \<le> n" "v = 7 * k" "t = s" using I by auto
    show ?thesis
    proof (cases "tm_sec (T (v + 6)) = tm_sec (T v)")
      case True
      then have "?b v t = Ret (Inr (read_clock cmos v)) s" using sec [of v] by (simp add: Let_def k(3))
      with True k show ?thesis by auto
    next
      case False
      then have b: "?b v t = Ret (Inl (v + 7)) s" using sec [of v] by (simp add: Let_def k(3))
      have "k < n" using False r(1) k(1,2) by (cases "k = n") auto
      then have "Suc k \<le> n" "v + 7 = 7 * Suc k" "n - (v + 7) div 7 < n - v div 7" using k(2) by simp_all
      then have "?I (v + 7) s \<and> n - (v + 7) div 7 < n - v div 7" by blast
      then show ?thesis unfolding b by simp
    qed
  qed
  have "\<exists>a t. kwhile (fuel E) ?b 0 s = Ret a t \<and> ?Q a t"
    by (rule kwhile_rule [of ?I ?b "\<lambda>v _. n - v div 7" ?Q]) (use step r(2) in simp_all)
  then obtain k where k: "k \<le> n" "kwhile (fuel E) ?b 0 s = Ret (read_clock cmos (7 * k)) s"
      "tm_sec (T (7 * k + 6)) = tm_sec (T (7 * k))"
    by blast
  have same: "T (7 * k + j) = T (7 * k)" if "j \<le> 6" for j
    using f k(3) that unfolding fast_readings_def by blast
  have "bcd_tm (read_clock cmos (7 * k)) = T (7 * k)"
    by (rule tm.equality) (simp_all add: bcd_tm_def read_clock_def CMOS_READ_shows [OF c] same same [of 1, simplified] same [of 2, simplified])
  moreover have "kernel_mktime (T (7 * k)) \<noteq> None"
    using mon [rule_format, of "7 * k"] by (auto simp: kernel_mktime_def Let_def)
  ultimately show ?thesis using k by (auto simp: time_init_def)
qed

subsection \<open>The division of memory\<close>

lemma memory_end_page: "(x :: int) AND NOT 0xfff = 4096 * (x div 4096)"
proof -
  have "(0xfff :: int) = mask 12" by (simp add: mask_eq_exp_minus_1)
  then have "x AND NOT 0xfff = push_bit 12 (drop_bit 12 x)"
    by (intro bit_eqI) (simp only: bit_simps, auto)
  then show ?thesis by (simp add: push_bit_eq_mult drop_bit_eq_div)
qed

lemma memory_limits_bounds:
  assumes "memory_limits ext = (high, buf, start)"
  shows "0x100000 \<le> start" "start \<le> high" "high \<le> 0x1000000" "4096 dvd high" "4096 dvd start" "buf = start"
proof -
  define e where "e = 4096 * ((0x100000 + 1024 * uint ext) div 4096)"
  have "memory_limits ext =
      (let m = (if e > 16*1024*1024 then 16*1024*1024 else e);
           b = (if m > 12*1024*1024 then 4*1024*1024 else if m > 6*1024*1024 then 2*1024*1024 else 1*1024*1024)
       in (m, b, b))"
    unfolding memory_limits_def memory_end_page e_def by (simp add: push_bit_eq_mult mult.commute)
  moreover have "0x100000 \<le> e" "4096 dvd e" unfolding e_def
    using zdiv_mono1 [of "0x100000" "0x100000 + 1024 * uint ext" 4096] by auto
  ultimately show "0x100000 \<le> start" "start \<le> high" "high \<le> 0x1000000" "4096 dvd high" "4096 dvd start" "buf = start"
    using assms by (auto simp: Let_def split: if_splits)
qed

text \<open>For every size of the extended memory that the setup code can report, the boundaries that
  \<open>main\<close> computes are page-aligned, in order and within the 16 megabytes the page map covers;
  \<open>mem_init\<close> stays inside the map, and the free frames are exactly those from the end of the buffer
  cache up to the end of memory.\<close>

theorem boot_memory_bounds:
  "\<exists>high start t. memory_limits ext = (high, start, start) \<and> boot_memory ext s = Ret () t \<and>
     0x100000 \<le> start \<and> start \<le> high \<and> high \<le> 0x1000000 \<and> uint (HIGH_MEMORY t) = high \<and>
     (\<forall>n < PAGING_PAGES. mem_map t n = 0 \<longleftrightarrow> start \<le> uint (page_of_nr n) \<and> uint (page_of_nr n) < high)"
proof -
  obtain high buf start where l: "memory_limits ext = (high, buf, start)" by (cases "memory_limits ext") auto
  note b = memory_limits_bounds [OF l]
  define i where "i = nat ((start - 0x100000) div 4096)"
  define n where "n = nat ((high - start) div 4096)"
  have v: "start = 4096 * int i + 0x100000" "high = start + 4096 * int n"
    using b by (auto simp: i_def n_def elim!: dvdE)
  then have r: "i + n \<le> 3840" using b(3) by simp
  define t where "t = s\<lparr>HIGH_MEMORY := of_int high,
    mem_map := (\<lambda>k. if i \<le> k \<and> k < i + n then 0 else if k < PAGING_PAGES then USED else mem_map s k)\<rparr>"
  have i': "(start - 0x100000) div 4096 = int i" using v(1) by simp
  have n': "nat ((high - start) div 4096) = n" by (simp add: n_def)
  have "boot_memory ext s = Ret () t"
    using r unfolding boot_memory_def l prod.case mem_init_def Let_def i' n' t_def by (simp cong: if_cong)
  moreover have "uint (HIGH_MEMORY t) = high" using b by (simp add: t_def uint_word_of_int)
  moreover have "mem_map t k = 0 \<longleftrightarrow> start \<le> uint (page_of_nr k) \<and> uint (page_of_nr k) < high"
    if "k < PAGING_PAGES" for k
  proof -
    have "uint (page_of_nr k) = 4096 * int k + 0x100000"
      using unat_page_of_nr [OF that] by (metis of_nat_add of_nat_mult of_nat_numeral uint_nat)
    then show ?thesis using that v by (auto simp: t_def)
  qed
  ultimately show ?thesis using l b by blast
qed

subsection \<open>Witnesses\<close>

theorem kernel_mktime_calendar_witness:
  "kernel_mktime \<lparr>tm_sec = 7, tm_min = 14, tm_hour = 3, tm_mday = 19, tm_mon = 0, tm_year = 138\<rparr> = Some 2147483647"
  using kernel_mktime_calendar [of "\<lparr>tm_sec = 7, tm_min = 14, tm_hour = 3, tm_mday = 19, tm_mon = 0, tm_year = 138\<rparr>"]
    days_before_year [of 68]
  by (simp add: is_s32_def calendar_seconds_def)

definition new_year_1991 :: tm where
  "new_year_1991 = \<lparr>tm_sec = 59, tm_min = 59, tm_hour = 23, tm_mday = 31, tm_mon = 11, tm_year = 91\<rparr>"

definition stopped_clock :: cmos where
  "stopped_clock k r = (if r = 0x80 \<or> r = 0x82 then 0x59 else if r = 0x84 then 0x23 else if r = 0x87 then 0x31
     else if r = 0x88 then 0x12 else 0x91)"

theorem time_init_consistent_witness:
  "\<exists>res. kernel_mktime new_year_1991 = Some res \<and>
     time_init (quiet_env 1) stopped_clock k0 = Ret () (k0\<lparr>startup_time := res\<rparr>)"
proof -
  have "shows_time stopped_clock (\<lambda>_. new_year_1991)" "fast_readings (\<lambda>_. new_year_1991)"
    by (simp_all add: shows_time_def fast_readings_def stopped_clock_def new_year_1991_def)
  from time_init_consistent [OF this, of 0 "quiet_env 1" k0] show ?thesis
    by (auto simp: quiet_env_def new_year_1991_def)
qed

theorem boot_memory_bounds_witness:
  "\<exists>t. boot_memory 0x3c00 k0 = Ret () t \<and> mem_map t 767 \<noteq> 0 \<and> mem_map t 768 = 0"
proof -
  obtain high start t where t: "memory_limits 0x3c00 = (high, start, start)" "boot_memory 0x3c00 k0 = Ret () t"
      "\<forall>n < PAGING_PAGES. mem_map t n = 0 \<longleftrightarrow> start \<le> uint (page_of_nr n) \<and> uint (page_of_nr n) < high"
    using boot_memory_bounds [of "0x3c00" k0] by blast
  have "memory_limits 0x3c00 = (0x1000000, 0x400000, 0x400000)"
    by (simp add: memory_limits_def memory_end_page push_bit_eq_mult)
  then have "high = 0x1000000" "start = 0x400000" using t(1) by simp_all
  then have "mem_map t 767 \<noteq> 0 \<and> mem_map t 768 = 0"
    using t(3) by (simp add: page_of_nr_def push_bit_eq_mult)
  then show ?thesis using t(2) by blast
qed

end
