(* ===== verification/Sched.thy ===== *)
theory Sched
  imports Mm
begin

text \<open>
  kernel/sched.c with the task-switching macros of include/linux/sched.h: the scheduler, the wait
  queues, the kernel timers, the floppy motor timers and the small system calls of that file.

  A task switch away from the current task returns when some later switch comes back to it; what the
  other tasks and the interrupts do to the kernel in between is the function \<open>others\<close> of the
  environment. Interrupts take effect at these points only. Port output, the interrupt
  flag and the interrupt descriptor table are not part of the state.
\<close>

subsection \<open>The scheduler\<close>

definition BLOCKABLE :: u32 where
  "BLOCKABLE = NOT (sigbit SIGKILL OR sigbit SIGSTOP)"

definition math_state_restore :: "kernel \<Rightarrow> kernel" where
  "math_state_restore s =
     (if last_task_used_math s = current s then s
      else let s = (if last_task_used_math s \<noteq> 0
                    then upd_task (last_task_used_math s)
                           (\<lambda>p. p\<lparr>t_tss := (t_tss p)\<lparr>tss_i387 := fpu s\<rparr>\<rparr>) s
                    else s);
               s = s\<lparr>last_task_used_math := current s\<rparr> in
        if t_used_math (cur s) \<noteq> 0 then s\<lparr>fpu := tss_i387 (t_tss (cur s))\<rparr>
        else upd_cur (\<lambda>p. p\<lparr>t_used_math := 1\<rparr>) (s\<lparr>fpu := fpu_init s\<rparr>))"

text \<open>The body of the first loop of \<^verbatim>\<open>schedule\<close> on one task, the loop over the task table from
  \<^verbatim>\<open>LAST_TASK\<close> down to the task after \<^verbatim>\<open>FIRST_TASK\<close>, and the first loop.\<close>

definition check_alarm :: "int \<Rightarrow> task_struct \<Rightarrow> task_struct" where
  "check_alarm jif p =
     (let p = (if t_alarm p \<noteq> 0 \<and> t_alarm p < jif
               then p\<lparr>t_signal := t_signal p OR sigbit SIGALRM, t_alarm := 0\<rparr> else p) in
      if t_signal p AND NOT (BLOCKABLE AND t_blocked p) \<noteq> 0 \<and> t_state p = TASK_INTERRUPTIBLE
      then p\<lparr>t_state := TASK_RUNNING\<rparr> else p)"

definition for_each_task :: "(task_struct \<Rightarrow> task_struct) \<Rightarrow> kernel \<Rightarrow> kernel" where
  "for_each_task f s =
     fold (\<lambda>i s. if task s i = 0 then s else upd_task (task s i) f s) (rev [1..<NR_TASKS]) s"

definition check_signals :: "kernel \<Rightarrow> kernel" where
  "check_signals s = for_each_task (check_alarm (jiffies s)) s"

text \<open>The inner scan for the runnable task with the largest counter: \<open>(c, next)\<close>.\<close>

definition best_step :: "kernel \<Rightarrow> nat \<Rightarrow> int \<times> nat \<Rightarrow> int \<times> nat" where
  "best_step s i = (\<lambda>(c, next).
     if task s i = 0 then (c, next)
     else let p = tstruct s (task s i) in
       if t_state p = TASK_RUNNING \<and> t_counter p > c then (t_counter p, i) else (c, next))"

definition best_task :: "kernel \<Rightarrow> int \<times> nat" where
  "best_task s = fold (best_step s) (rev [1..<NR_TASKS]) (-1, 0)"

text \<open>The right shift of a negative counter is arithmetic, which is division rounding down.\<close>

definition new_counter :: "task_struct \<Rightarrow> task_struct" where
  "new_counter p = p\<lparr>t_counter := wrap32 (t_counter p div 2 + t_priority p)\<rparr>"

definition recalc_counters :: "kernel \<Rightarrow> kernel" where
  "recalc_counters s = for_each_task new_counter s"

definition pick_next :: "env \<Rightarrow> kernel \<Rightarrow> nat kres" where
  "pick_next E s =
     kloop (fuel E) (\<lambda>s. let (c, next) = best_task s in
       if c \<noteq> 0 then Ret (Some next) s else Ret None (recalc_counters s)) s"

definition switch_to :: "env \<Rightarrow> nat \<Rightarrow> kernel \<Rightarrow> kernel" where
  "switch_to E n s =
     (if task s n = current s then s
      else (others E (s\<lparr>current := task s n\<rparr>))\<lparr>current := current s\<rparr>)"

definition schedule :: "env \<Rightarrow> kernel \<Rightarrow> unit kres" where
  "schedule E s =
     kbind (pick_next E (check_signals s)) (\<lambda>next s. Ret () (switch_to E next s))"

definition sys_pause :: "env \<Rightarrow> kernel \<Rightarrow> int kres" where
  "sys_pause E s =
     kbind (schedule E (upd_cur (\<lambda>p. p\<lparr>t_state := TASK_INTERRUPTIBLE\<rparr>) s)) (\<lambda>_ s. Ret 0 s)"

subsection \<open>Wait queues\<close>

definition sleep_on :: "env \<Rightarrow> waitq \<Rightarrow> kernel \<Rightarrow> unit kres" where
  "sleep_on E p s =
     (if current s = init_task s then Panic ''task[0] trying to sleep'' s
      else let tmp = wq s p;
               s = s\<lparr>wq := (wq s)(p := current s)\<rparr>;
               s = upd_cur (\<lambda>p. p\<lparr>t_state := TASK_UNINTERRUPTIBLE\<rparr>) s in
        kbind (schedule E s) (\<lambda>_ s.
          Ret () (if tmp \<noteq> 0 then upd_task tmp (\<lambda>p. p\<lparr>t_state := 0\<rparr>) s else s)))"

definition interruptible_sleep_on :: "env \<Rightarrow> waitq \<Rightarrow> kernel \<Rightarrow> unit kres" where
  "interruptible_sleep_on E p s =
     (if current s = init_task s then Panic ''task[0] trying to sleep'' s
      else let tmp = wq s p;
               s = s\<lparr>wq := (wq s)(p := current s)\<rparr> in
        kbind (kloop (fuel E) (\<lambda>s.
            kbind (schedule E (upd_cur (\<lambda>p. p\<lparr>t_state := TASK_INTERRUPTIBLE\<rparr>) s)) (\<lambda>_ s.
              if wq s p \<noteq> 0 \<and> wq s p \<noteq> current s
              then Ret None (upd_task (wq s p) (\<lambda>p. p\<lparr>t_state := 0\<rparr>) s)
              else Ret (Some ()) s)) s) (\<lambda>_ s.
          let s = s\<lparr>wq := (wq s)(p := 0)\<rparr> in
          Ret () (if tmp \<noteq> 0 then upd_task tmp (\<lambda>p. p\<lparr>t_state := 0\<rparr>) s else s)))"

definition wake_up :: "waitq \<Rightarrow> kernel \<Rightarrow> kernel" where
  "wake_up p s =
     (if wq s p \<noteq> 0
      then let s = upd_task (wq s p) (\<lambda>p. p\<lparr>t_state := 0\<rparr>) s in s\<lparr>wq := (wq s)(p := 0)\<rparr>
      else s)"

subsection \<open>The floppy motors\<close>

definition ticks_to_floppy_on :: "u32 \<Rightarrow> kernel \<Rightarrow> int kres" where
  "ticks_to_floppy_on nr s =
     (if nr > 3 then Panic ''floppy_on: nr>3'' s
      else let n = unat nr;
               mask = push_bit n 0x10 :: u8;
               s = s\<lparr>moff_timer := (moff_timer s)(n := 10000)\<rparr>;
               mask = mask OR current_DOR s;
               mask = (if \<not> selected s then (mask AND 0xFC) OR ucast nr else mask);
               s = (if mask \<noteq> current_DOR s then
                      let s = (if (mask XOR current_DOR s) AND 0xf0 \<noteq> 0
                               then s\<lparr>mon_timer := (mon_timer s)(n := HZ div 2)\<rparr>
                               else if mon_timer s n < 2
                               then s\<lparr>mon_timer := (mon_timer s)(n := 2)\<rparr> else s) in
                      s\<lparr>current_DOR := mask\<rparr>
                    else s) in
        Ret (mon_timer s n) s)"

definition floppy_on :: "env \<Rightarrow> u32 \<Rightarrow> kernel \<Rightarrow> unit kres" where
  "floppy_on E nr s =
     kloop (fuel E) (\<lambda>s. kbind (ticks_to_floppy_on nr s) (\<lambda>ticks s.
       if ticks = 0 then Ret (Some ()) s
       else kbind (sleep_on E (Wait_motor (unat nr)) s) (\<lambda>_ s. Ret None s))) s"

definition floppy_off :: "u32 \<Rightarrow> kernel \<Rightarrow> unit kres" where
  "floppy_off nr s =
     (if nr > 3 then Fault else Ret () (s\<lparr>moff_timer := (moff_timer s)(unat nr := 3 * HZ)\<rparr>))"

definition floppy_timer_step :: "nat \<Rightarrow> kernel \<Rightarrow> kernel" where
  "floppy_timer_step i s =
     (let mask = push_bit i 0x10 :: u8 in
      if mask AND current_DOR s = 0 then s
      else if mon_timer s i \<noteq> 0 then
        (let s = s\<lparr>mon_timer := (mon_timer s)(i := wrap32 (mon_timer s i - 1))\<rparr> in
         if mon_timer s i = 0 then wake_up (Wait_motor i) s else s)
      else if moff_timer s i = 0 then s\<lparr>current_DOR := current_DOR s AND NOT mask\<rparr>
      else s\<lparr>moff_timer := (moff_timer s)(i := wrap32 (moff_timer s i - 1))\<rparr>)"

definition do_floppy_timer :: "kernel \<Rightarrow> kernel" where
  "do_floppy_timer s = fold floppy_timer_step [0..<4] s"

subsection \<open>Timers\<close>

abbreviation (input) "TIME_REQUESTS \<equiv> (64::nat)"

definition upd_timer :: "nat \<Rightarrow> (timer_node \<Rightarrow> timer_node) \<Rightarrow> kernel \<Rightarrow> kernel" where
  "upd_timer i f s = s\<lparr>timer_list := (timer_list s)(i := f (timer_list s i))\<rparr>"

text \<open>One round of the sorting loop of \<^verbatim>\<open>add_timer\<close>: \<open>p\<close> is the node that holds the new request.\<close>

definition timer_sift :: "nat \<Rightarrow> kernel \<Rightarrow> (kernel, nat + unit) outcome" where
  "timer_sift p s =
     (case tm_next (timer_list s p) of
        None \<Rightarrow> Ret (Inr ()) s
      | Some q \<Rightarrow>
          if tm_jiffies (timer_list s q) < tm_jiffies (timer_list s p) then
            (let pj = wrap32 (tm_jiffies (timer_list s p) - tm_jiffies (timer_list s q));
                 fn = tm_fn (timer_list s p);
                 s = upd_timer p (\<lambda>t. t\<lparr>tm_fn := tm_fn (timer_list s q)\<rparr>) s;
                 s = upd_timer q (\<lambda>t. t\<lparr>tm_fn := fn\<rparr>) s;
                 s = upd_timer p (\<lambda>t. t\<lparr>tm_jiffies := tm_jiffies (timer_list s q)\<rparr>) s;
                 s = upd_timer q (\<lambda>t. t\<lparr>tm_jiffies := pj\<rparr>) s in
             Ret (Inl q) s)
          else Ret (Inr ()) s)"

definition add_timer :: "env \<Rightarrow> int \<Rightarrow> u32 \<Rightarrow> kernel \<Rightarrow> unit kres" where
  "add_timer E jif fn s =
     (if fn = 0 then Ret () s
      else if jif \<le> 0 then Ret () (call_fn E fn s)
      else case find_up (\<lambda>i. tm_fn (timer_list s i) = 0) 0 TIME_REQUESTS of
        None \<Rightarrow> Panic ''No more time requests free'' s
      | Some p \<Rightarrow>
          let s = upd_timer p (\<lambda>t. \<lparr>tm_jiffies = jif, tm_fn = fn, tm_next = next_timer s\<rparr>) s;
              s = s\<lparr>next_timer := Some p\<rparr> in
          kwhile (fuel E) timer_sift p s)"

definition expire_timers :: "env \<Rightarrow> kernel \<Rightarrow> unit kres" where
  "expire_timers E s = kloop (fuel E) (\<lambda>s.
     case next_timer s of
       None \<Rightarrow> Ret (Some ()) s
     | Some p \<Rightarrow>
         if tm_jiffies (timer_list s p) \<le> 0 then
           (let fn = tm_fn (timer_list s p);
                s = upd_timer p (\<lambda>t. t\<lparr>tm_fn := 0\<rparr>) s;
                s = s\<lparr>next_timer := tm_next (timer_list s p)\<rparr> in
            Ret None (call_fn E fn s))
         else Ret (Some ()) s) s"

text \<open>\<^verbatim>\<open>sysbeepstop()\<close> (kernel/chr_drv/console.c) turns off the speaker through a port.\<close>

definition do_timer :: "env \<Rightarrow> int \<Rightarrow> kernel \<Rightarrow> unit kres" where
  "do_timer E cpl s =
     (let s = (if beepcount s \<noteq> 0 then s\<lparr>beepcount := wrap32 (beepcount s - 1)\<rparr> else s);
          s = (if cpl \<noteq> 0 then upd_cur (\<lambda>p. p\<lparr>t_utime := wrap32 (t_utime p + 1)\<rparr>) s
               else upd_cur (\<lambda>p. p\<lparr>t_stime := wrap32 (t_stime p + 1)\<rparr>) s) in
      kbind (case next_timer s of
               None \<Rightarrow> Ret () s
             | Some p \<Rightarrow> expire_timers E (upd_timer p (\<lambda>t. t\<lparr>tm_jiffies := wrap32 (tm_jiffies t - 1)\<rparr>) s))
        (\<lambda>_ s.
          let s = (if current_DOR s AND 0xf0 \<noteq> 0 then do_floppy_timer s else s);
              s = upd_cur (\<lambda>p. p\<lparr>t_counter := wrap32 (t_counter p - 1)\<rparr>) s in
          if t_counter (cur s) > 0 then Ret () s
          else let s = upd_cur (\<lambda>p. p\<lparr>t_counter := 0\<rparr>) s in
            if cpl = 0 then Ret () s else schedule E s))"

subsection \<open>System calls\<close>

definition sys_alarm :: "int \<Rightarrow> kernel \<Rightarrow> int \<times> kernel" where
  "sys_alarm seconds s =
     (let old = t_alarm (cur s);
          old = (if old \<noteq> 0 then c_div (wrap32 (old - jiffies s)) HZ else old) in
      (old, upd_cur (\<lambda>p. p\<lparr>t_alarm := if seconds > 0 then wrap32 (jiffies s + HZ * seconds) else 0\<rparr>) s))"

definition sys_getpid :: "kernel \<Rightarrow> int" where "sys_getpid s = t_pid (cur s)"
definition sys_getppid :: "kernel \<Rightarrow> int" where "sys_getppid s = t_father (cur s)"
definition sys_getuid :: "kernel \<Rightarrow> int" where "sys_getuid s = uint (t_uid (cur s))"
definition sys_geteuid :: "kernel \<Rightarrow> int" where "sys_geteuid s = uint (t_euid (cur s))"
definition sys_getgid :: "kernel \<Rightarrow> int" where "sys_getgid s = uint (t_gid (cur s))"
definition sys_getegid :: "kernel \<Rightarrow> int" where "sys_getegid s = uint (t_egid (cur s))"

definition sys_nice :: "int \<Rightarrow> kernel \<Rightarrow> int \<times> kernel" where
  "sys_nice increment s =
     (0, if wrap32 (t_priority (cur s) - increment) > 0
         then upd_cur (\<lambda>p. p\<lparr>t_priority := wrap32 (t_priority p - increment)\<rparr>) s else s)"

subsection \<open>Initialisation\<close>

text \<open>\<^verbatim>\<open>_set_tssldt_desc\<close> (include/asm/system.h) writes the eight bytes of a descriptor; the addresses of
  \<^verbatim>\<open>ldt\<close> and \<^verbatim>\<open>tss\<close> in a \<^verbatim>\<open>task_struct\<close> are at offsets 720 and 744.\<close>

definition set_tssldt_desc :: "u32 \<Rightarrow> u32 \<Rightarrow> desc_struct" where
  "set_tssldt_desc addr type =
     \<lparr>desc_a = 104 OR push_bit 16 (addr AND 0xffff),
      desc_b = (drop_bit 16 addr AND 0xff) OR push_bit 8 type OR (addr AND 0xff000000)\<rparr>"

definition set_tss_desc :: "nat \<Rightarrow> u32 \<Rightarrow> kernel \<Rightarrow> kernel" where
  "set_tss_desc n addr s = s\<lparr>gdt := (gdt s)(n := set_tssldt_desc addr 0x89)\<rparr>"

definition set_ldt_desc :: "nat \<Rightarrow> u32 \<Rightarrow> kernel \<Rightarrow> kernel" where
  "set_ldt_desc n addr s = s\<lparr>gdt := (gdt s)(n := set_tssldt_desc addr 0x82)\<rparr>"

abbreviation (input) "FIRST_TSS_ENTRY \<equiv> (4::nat)"
abbreviation (input) "FIRST_LDT_ENTRY \<equiv> (5::nat)"

definition TSS_sel :: "nat \<Rightarrow> u32" where "TSS_sel n = push_bit 4 (of_nat n) + 32"
definition LDT_sel :: "nat \<Rightarrow> u32" where "LDT_sel n = push_bit 4 (of_nat n) + 40"
definition ldt_addr :: "u32 \<Rightarrow> u32" where "ldt_addr p = p + 720"
definition tss_addr :: "u32 \<Rightarrow> u32" where "tss_addr p = p + 744"

definition sched_init :: "kernel \<Rightarrow> kernel" where
  "sched_init s =
     (let s = set_tss_desc FIRST_TSS_ENTRY (tss_addr (init_task s)) s;
          s = set_ldt_desc FIRST_LDT_ENTRY (ldt_addr (init_task s)) s in
      fold (\<lambda>i s. s\<lparr>task := (task s)(i := 0),
                    gdt := (gdt s)(2 + FIRST_TSS_ENTRY + 2 * (i - 1) := zero_desc,
                                   3 + FIRST_TSS_ENTRY + 2 * (i - 1) := zero_desc)\<rparr>)
        [1..<NR_TASKS] s)"

text \<open>\<^verbatim>\<open>INIT_TASK\<close> (include/linux/sched.h), the first task's structure at address \<open>p\<close>.\<close>

definition INIT_TASK :: "u32 \<Rightarrow> task_struct" where
  "INIT_TASK p = zero_task\<lparr>t_counter := 15, t_priority := 15, t_father := -1, t_tty := -1,
     t_umask := 0x12,
     t_ldt := (\<lambda>_. zero_desc)(1 := \<lparr>desc_a = 0x9f, desc_b = 0xc0fa00\<rparr>,
                              2 := \<lparr>desc_a = 0x9f, desc_b = 0xc0f200\<rparr>),
     t_tss := zero_tss\<lparr>tss_esp0 := p + 4096, tss_ss0 := 0x10, tss_cr3 := 0, tss_es := 0x17,
       tss_cs := 0x17, tss_ss := 0x17, tss_ds := 0x17, tss_fs := 0x17, tss_gs := 0x17,
       tss_ldt := LDT_sel 0, tss_trace_bitmap := 0x80000000\<rparr>\<rparr>"

subsection \<open>The choice of the next task\<close>

text \<open>Two slots of the task table never hold the same task.\<close>

definition task_wf :: "kernel \<Rightarrow> bool" where
  "task_wf s \<longleftrightarrow> (\<forall>i < NR_TASKS. \<forall>j < NR_TASKS. task s i \<noteq> 0 \<longrightarrow> task s i = task s j \<longrightarrow> i = j)"

definition is_task :: "kernel \<Rightarrow> nat \<Rightarrow> bool" where
  "is_task s i \<longleftrightarrow> 0 < i \<and> i < NR_TASKS \<and> task s i \<noteq> 0"

abbreviation (input) "tsk s i \<equiv> tstruct s (task s i)"

definition runnable :: "kernel \<Rightarrow> nat \<Rightarrow> bool" where
  "runnable s i \<longleftrightarrow> is_task s i \<and> t_state (tsk s i) = TASK_RUNNING"

text \<open>Every task has a positive priority and a counter between 0 and twice its priority.\<close>

definition sched_wf :: "kernel \<Rightarrow> bool" where
  "sched_wf s \<longleftrightarrow> task_wf s \<and> (\<forall>i. is_task s i \<longrightarrow>
     0 < t_priority (tsk s i) \<and> t_priority (tsk s i) < 2 ^ 30 \<and>
     0 \<le> t_counter (tsk s i) \<and> t_counter (tsk s i) \<le> 2 * t_priority (tsk s i))"

lemma upd_task_simps [simp]:
  "task (upd_task p f s) = task s" "jiffies (upd_task p f s) = jiffies s"
  "current (upd_task p f s) = current s" "init_task (upd_task p f s) = init_task s"
  "wq (upd_task p f s) = wq s"
  "tstruct (upd_task p f s) = (tstruct s)(p := f (tstruct s p))"
  by (simp_all add: upd_task_def)

lemma upd_cur_simps [simp]:
  "task (upd_cur f s) = task s" "jiffies (upd_cur f s) = jiffies s"
  "current (upd_cur f s) = current s" "init_task (upd_cur f s) = init_task s"
  "wq (upd_cur f s) = wq s"
  "tstruct (upd_cur f s) = (tstruct s)(current s := f (cur s))"
  by (simp_all add: upd_cur_def cur_def)

lemma fold_upd_task:
  assumes "task_wf s" "distinct xs" "set xs \<subseteq> {1..<NR_TASKS}"
  shows "fold (\<lambda>i s. if task s i = 0 then s else upd_task (task s i) f s) xs s =
    s\<lparr>tstruct := (\<lambda>p. if p \<noteq> 0 \<and> (\<exists>i \<in> set xs. task s i = p) then f (tstruct s p) else tstruct s p)\<rparr>"
  using assms
proof (induction xs arbitrary: s)
  case Nil
  then show ?case by simp
next
  case (Cons a xs)
  let ?s = "if task s a = 0 then s else upd_task (task s a) f s"
  have t: "task ?s = task s" by simp
  have wf: "task_wf ?s" using Cons.prems(1) by (simp add: task_wf_def)
  have ne: "task s i \<noteq> task s a" if "i \<in> set xs" "task s a \<noteq> 0" for i
    using that Cons.prems unfolding task_wf_def by fastforce
  have "fold (\<lambda>i s. if task s i = 0 then s else upd_task (task s i) f s) (a # xs) s =
    ?s\<lparr>tstruct := (\<lambda>p. if p \<noteq> 0 \<and> (\<exists>i \<in> set xs. task s i = p) then f (tstruct ?s p) else tstruct ?s p)\<rparr>"
    using Cons.IH [OF wf] Cons.prems(2,3) t by simp
  also have "\<dots> = s\<lparr>tstruct := (\<lambda>p. if p \<noteq> 0 \<and> (\<exists>i \<in> set (a # xs). task s i = p) then f (tstruct s p) else tstruct s p)\<rparr>"
    using ne by (auto simp: upd_task_def fun_eq_iff)
  finally show ?case .
qed

lemma for_each_task_eq:
  "task_wf s \<Longrightarrow> for_each_task f s =
    s\<lparr>tstruct := (\<lambda>p. if p \<noteq> 0 \<and> (\<exists>i \<in> {1..<NR_TASKS}. task s i = p) then f (tstruct s p) else tstruct s p)\<rparr>"
  unfolding for_each_task_def by (subst fold_upd_task) auto

lemma for_each_task_simps:
  assumes "task_wf s"
  shows "task (for_each_task f s) = task s" "current (for_each_task f s) = current s"
    "is_task (for_each_task f s) = is_task s" "task_wf (for_each_task f s)"
    "is_task s i \<Longrightarrow> tsk (for_each_task f s) i = f (tsk s i)"
    "wq (for_each_task f s) = wq s"
proof -
  show 1: "task (for_each_task f s) = task s" "current (for_each_task f s) = current s"
    "wq (for_each_task f s) = wq s"
    using assms by (simp_all add: for_each_task_eq)
  show "is_task (for_each_task f s) = is_task s" by (simp add: is_task_def 1 fun_eq_iff)
  show "task_wf (for_each_task f s)" using assms by (simp add: task_wf_def 1)
  show "tsk (for_each_task f s) i = f (tsk s i)" if "is_task s i"
    using assms that by (force simp: for_each_task_eq is_task_def)
qed

lemma best_task_fold:
  assumes "fold (best_step s) xs (-1, 0) = (c, n)" "set xs \<subseteq> {1..<NR_TASKS}"
  shows "(if n = 0 then c = -1 else n \<in> set xs \<and> runnable s n \<and> c = t_counter (tsk s n) \<and> 0 \<le> c) \<and>
    (\<forall>i \<in> set xs. runnable s i \<longrightarrow> t_counter (tsk s i) \<le> c)"
  using assms
proof (induction xs arbitrary: c n rule: rev_induct)
  case Nil
  then show ?case by simp
next
  case (snoc a xs)
  obtain c' n' where r: "fold (best_step s) xs (-1, 0) = (c', n')" by fastforce
  from snoc.prems(1) r have st: "best_step s a (c', n') = (c, n)" by simp
  from snoc.IH [OF r] snoc.prems(2) st show ?case
    by (auto simp: best_step_def Let_def runnable_def is_task_def split: if_splits)
qed

lemma best_task_spec:
  assumes "best_task s = (c, n)"
  shows "(if n = 0 then c = -1 else runnable s n \<and> c = t_counter (tsk s n) \<and> 0 \<le> c) \<and>
    (\<forall>i. runnable s i \<longrightarrow> t_counter (tsk s i) \<le> c)"
proof -
  have sub: "set (rev [1..<NR_TASKS]) \<subseteq> {1..<NR_TASKS}" by auto
  have "i \<in> set (rev [1..<NR_TASKS])" if "runnable s i" for i
    using that by (auto simp: runnable_def is_task_def)
  with best_task_fold [OF assms [unfolded best_task_def] sub] show ?thesis
    by (auto split: if_splits)
qed

text \<open>Recomputing the counters keeps them in bounds and leaves every task with a positive one.\<close>

lemma new_counter_bounds:
  assumes "0 < t_priority p" "t_priority p < 2 ^ 30" "0 \<le> t_counter p" "t_counter p \<le> 2 * t_priority p"
  shows "t_counter (new_counter p) = t_counter p div 2 + t_priority p"
    "t_priority p \<le> t_counter (new_counter p)" "t_counter (new_counter p) \<le> 2 * t_priority p"
proof -
  have "0 \<le> t_counter p div 2" "t_counter p div 2 \<le> t_priority p" using assms by auto
  then have "is_s32 (t_counter p div 2 + t_priority p)" using assms by (simp add: is_s32_def)
  then show e: "t_counter (new_counter p) = t_counter p div 2 + t_priority p"
    by (simp add: new_counter_def)
  show "t_priority p \<le> t_counter (new_counter p)" "t_counter (new_counter p) \<le> 2 * t_priority p"
    unfolding e using assms by auto
qed

lemma new_counter_simps [simp]:
  "t_state (new_counter p) = t_state p" "t_priority (new_counter p) = t_priority p"
  by (simp_all add: new_counter_def)

lemma recalc_counters_wf:
  assumes "sched_wf s"
  shows "sched_wf (recalc_counters s)" "runnable (recalc_counters s) = runnable s"
    "is_task s i \<Longrightarrow> 0 < t_counter (tsk (recalc_counters s) i)"
proof -
  from assms have wf: "task_wf s" by (simp add: sched_wf_def)
  note fs = for_each_task_simps [OF wf, where f = new_counter]
  have nb: "0 < t_counter (new_counter (tsk s i)) \<and> t_counter (new_counter (tsk s i)) \<le> 2 * t_priority (tsk s i)"
    if "is_task s i" for i
    using assms that new_counter_bounds [of "tsk s i"] unfolding sched_wf_def by fastforce
  show "sched_wf (recalc_counters s)"
    using assms nb fs(3,4,5) unfolding sched_wf_def recalc_counters_def
    by (auto intro: less_imp_le)
  show "runnable (recalc_counters s) = runnable s"
    using fs(3,5) by (auto simp: runnable_def recalc_counters_def fun_eq_iff)
  show "is_task s i \<Longrightarrow> 0 < t_counter (tsk (recalc_counters s) i)"
    using nb fs(5) by (simp add: recalc_counters_def)
qed

lemma pick_next_spec:
  assumes "sched_wf s" "2 \<le> fuel E"
  shows "\<exists>n t. pick_next E s = Ret n t \<and> sched_wf t \<and> runnable t = runnable s \<and>
    (if \<exists>i. runnable s i
     then runnable s n \<and> 0 < t_counter (tsk t n) \<and> (\<forall>i. runnable s i \<longrightarrow> t_counter (tsk t i) \<le> t_counter (tsk t n))
     else n = 0) \<and>
    (t = s \<or> t = recalc_counters s \<and> (\<forall>i. runnable s i \<longrightarrow> t_counter (tsk s i) = 0))"
proof -
  obtain c n where b: "best_task s = (c, n)" by fastforce
  note spec = best_task_spec [OF b]
  obtain k where k: "fuel E = Suc (Suc k)" using assms(2) by (metis add_2_eq_Suc le_Suc_ex)
  show ?thesis
  proof (cases "c = 0")
    case False
    then have run: "pick_next E s = Ret n s" by (simp add: pick_next_def k b)
    have "runnable s i \<Longrightarrow> 0 \<le> t_counter (tsk s i)" for i
      using assms(1) by (simp add: sched_wf_def runnable_def)
    moreover from this spec have "n \<noteq> 0" if "runnable s i" for i
      using that by (force split: if_splits)
    ultimately have "if \<exists>i. runnable s i
     then runnable s n \<and> 0 < t_counter (tsk s n) \<and> (\<forall>i. runnable s i \<longrightarrow> t_counter (tsk s i) \<le> t_counter (tsk s n))
     else n = 0" using spec False by (auto split: if_splits)
    with run assms(1) show ?thesis by blast
  next
    case True
    let ?t = "recalc_counters s"
    note rc = recalc_counters_wf [OF assms(1)]
    obtain c' n' where b': "best_task ?t = (c', n')" by fastforce
    note spec' = best_task_spec [OF b']
    from spec True have n: "runnable s n" by (auto split: if_splits)
    then have "0 < t_counter (tsk ?t n)" using rc(3) by (simp add: runnable_def)
    moreover from spec' n rc(2) have "t_counter (tsk ?t n) \<le> c'" by auto
    ultimately have c': "0 < c'" by simp
    then have run: "pick_next E s = Ret n' ?t" using True by (simp add: pick_next_def k b b')
    have "runnable s n' \<and> 0 < t_counter (tsk ?t n') \<and>
        (\<forall>i. runnable s i \<longrightarrow> t_counter (tsk ?t i) \<le> t_counter (tsk ?t n'))"
      using spec' c' rc(2) by (auto split: if_splits)
    moreover have "t_counter (tsk s i) = 0" if "runnable s i" for i
      using spec True that assms(1) by (force simp: sched_wf_def runnable_def)
    ultimately show ?thesis using run n rc(1,2) by auto
  qed
qed

lemma sched_wf_cong:
  assumes "task t = task s" "\<And>p. t_counter (tstruct t p) = t_counter (tstruct s p)"
    "\<And>p. t_priority (tstruct t p) = t_priority (tstruct s p)"
  shows "sched_wf t = sched_wf s"
  by (simp add: sched_wf_def task_wf_def is_task_def assms)

lemma check_alarm_simps [simp]:
  "t_counter (check_alarm j p) = t_counter p" "t_priority (check_alarm j p) = t_priority p"
  by (simp_all add: check_alarm_def Let_def)

lemma check_signals_wf: "sched_wf s \<Longrightarrow> sched_wf (check_signals s)"
  using for_each_task_simps [of s] by (auto simp: sched_wf_def check_signals_def)

text \<open>C1: The scheduler always comes to a decision, after at most one recomputation of the counters,
  and it decides for a runnable task of the largest counter, which is positive; it falls back on
  task 0 exactly when no other task is runnable. All counters stay between 0 and twice the
  priority.\<close>

theorem schedule_picks_best:
  assumes "sched_wf s" "2 \<le> fuel E"
  shows "\<exists>n t. schedule E s = Ret () (switch_to E n t) \<and> sched_wf t \<and>
    runnable t = runnable (check_signals s) \<and>
    (if \<exists>i. runnable t i
     then runnable t n \<and> 0 < t_counter (tsk t n) \<and> (\<forall>i. runnable t i \<longrightarrow> t_counter (tsk t i) \<le> t_counter (tsk t n))
     else n = 0)"
proof -
  from pick_next_spec [OF check_signals_wf [OF assms(1)] assms(2)] obtain n t where
    "pick_next E (check_signals s) = Ret n t" and t: "sched_wf t" "runnable t = runnable (check_signals s)"
    and n: "if \<exists>i. runnable t i
     then runnable t n \<and> 0 < t_counter (tsk t n) \<and> (\<forall>i. runnable t i \<longrightarrow> t_counter (tsk t i) \<le> t_counter (tsk t n))
     else n = 0"
    by (elim exE conjE) simp
  then have "schedule E s = Ret () (switch_to E n t)" by (simp add: schedule_def)
  with t n show ?thesis by blast
qed

text \<open>Three tasks; those in slots 1 and 2 are runnable and have used up their time slices.\<close>

definition three_tasks :: kernel where
  "three_tasks = k0\<lparr>init_task := 0x1000, current := 0x2000,
     task := (\<lambda>i. if i = 0 then 0x1000 else if i = 1 then 0x2000 else if i = 2 then 0x3000 else 0),
     tstruct := (\<lambda>_. zero_task\<lparr>t_priority := 15\<rparr>)(0x3000 := zero_task\<lparr>t_priority := 20\<rparr>)\<rparr>"

lemma three_tasks_wf: "sched_wf three_tasks"
  by (auto simp: sched_wf_def task_wf_def is_task_def three_tasks_def zero_task_def)

theorem schedule_picks_best_witness:
  "\<exists>n t. schedule (quiet_env 2) three_tasks = Ret () (switch_to (quiet_env 2) n t) \<and>
     runnable t n \<and> 0 < t_counter (tsk t n)"
proof -
  have "2 \<le> fuel (quiet_env 2)" by (simp add: quiet_env_def)
  from schedule_picks_best [OF three_tasks_wf this] obtain n t where
    n: "schedule (quiet_env 2) three_tasks = Ret () (switch_to (quiet_env 2) n t)"
    "runnable t = runnable (check_signals three_tasks)"
    "if \<exists>i. runnable t i then runnable t n \<and> 0 < t_counter (tsk t n) \<and>
       (\<forall>i. runnable t i \<longrightarrow> t_counter (tsk t i) \<le> t_counter (tsk t n)) else n = 0" by blast
  have wf: "task_wf three_tasks" using three_tasks_wf by (simp add: sched_wf_def)
  have "is_task three_tasks 1" "t_state (tsk three_tasks 1) = 0" "t_alarm (tsk three_tasks 1) = 0"
    by (simp_all add: is_task_def three_tasks_def zero_task_def)
  then have "runnable (check_signals three_tasks) 1"
    using for_each_task_simps(3) [OF wf] for_each_task_simps(5) [OF wf, of 1]
    by (simp add: runnable_def check_signals_def check_alarm_def)
  then have "\<exists>i. runnable t i" using n(2) by auto
  then have "runnable t n \<and> 0 < t_counter (tsk t n)" using n(3) by simp
  with n(1) show ?thesis by blast
qed

text \<open>C4: No task can make itself deaf to \<^verbatim>\<open>SIGKILL\<close>: whatever it blocks, with that signal pending
  the first loop of the scheduler makes it runnable if it sleeps interruptibly. In any other state
  (running, in uninterruptible sleep, a zombie, stopped) the loop leaves it there: only an
  interruptible sleep is cut short by a signal.\<close>

theorem sigkill_wakes:
  assumes "task_wf s" "0 < i" "i < NR_TASKS" "task s i \<noteq> 0"
    "t_signal (tstruct s (task s i)) AND sigbit SIGKILL \<noteq> 0"
  shows "t_state (tstruct (check_signals s) (task s i)) =
    (if t_state (tstruct s (task s i)) = TASK_INTERRUPTIBLE then TASK_RUNNING
     else t_state (tstruct s (task s i)))"
proof -
  let ?p = "tstruct s (task s i)"
  define q where "q = (if t_alarm ?p \<noteq> 0 \<and> t_alarm ?p < jiffies s
               then ?p\<lparr>t_signal := t_signal ?p OR sigbit SIGALRM, t_alarm := 0\<rparr> else ?p)"
  obtain k where "bit (t_signal ?p AND sigbit SIGKILL) k" "k < 32"
    using assms(5) by (auto simp: word_neq_0_bit)
  then have "bit (t_signal q) 8"
    by (auto simp: q_def bit_and_iff bit_or_iff bit_sigbit)
  moreover have "bit (NOT (BLOCKABLE AND t_blocked q)) 8"
    by (simp add: BLOCKABLE_def bit_sigbit bit_and_iff bit_or_iff bit_not_iff)
  ultimately have "bit (t_signal q AND NOT (BLOCKABLE AND t_blocked q)) 8" by (simp add: bit_simps)
  then have "t_signal q AND NOT (BLOCKABLE AND t_blocked q) \<noteq> 0"
    unfolding word_neq_0_bit by (intro exI [of _ 8]) simp
  moreover have "t_state q = t_state ?p" by (simp add: q_def)
  ultimately have "t_state (check_alarm (jiffies s) ?p) =
      (if t_state ?p = TASK_INTERRUPTIBLE then TASK_RUNNING else t_state ?p)"
    unfolding check_alarm_def q_def [symmetric] Let_def by simp
  moreover have "is_task s i" using assms by (simp add: is_task_def)
  ultimately show ?thesis
    using for_each_task_simps(1) [OF assms(1)] for_each_task_simps(5) [OF assms(1)]
    by (metis check_signals_def)
qed

text \<open>The state of a task that sleeps uninterruptibly survives both loops of the scheduler, so the
  task is not the one picked.\<close>

lemma pick_next_not_sleeper:
  assumes "sched_wf u" "2 \<le> fuel E" "is_task u c" "t_state (tsk u c) = TASK_UNINTERRUPTIBLE"
  shows "\<exists>n t. pick_next E (check_signals u) = Ret n t \<and> task t = task u \<and> task u n \<noteq> task u c \<and>
    current t = current u \<and> wq t = wq u \<and> t_state (tsk t c) = TASK_UNINTERRUPTIBLE \<and>
    (n = 0 \<or> runnable t n)"
proof -
  have wf: "task_wf u" using assms(1) by (simp add: sched_wf_def)
  let ?v = "check_signals u"
  have wf': "task_wf ?v" using wf by (simp add: check_signals_def for_each_task_simps)
  have v: "task ?v = task u" "current ?v = current u" "wq ?v = wq u" "is_task ?v c"
    using wf assms(3) by (simp_all add: check_signals_def for_each_task_simps)
  have "tsk ?v c = check_alarm (jiffies u) (tsk u c)"
    using for_each_task_simps(5) [OF wf assms(3), of "check_alarm (jiffies u)"] unfolding check_signals_def .
  then have vc: "t_state (tsk ?v c) = TASK_UNINTERRUPTIBLE"
    using assms(4) by (simp add: check_alarm_def Let_def)
  from pick_next_spec [OF check_signals_wf [OF assms(1)] assms(2)] obtain n t where
    run: "pick_next E ?v = Ret n t" and r: "runnable t = runnable ?v"
    and n: "n = 0 \<or> runnable ?v n" and t: "t = ?v \<or> t = recalc_counters ?v"
    by (elim exE conjE) (auto split: if_splits)
  have t1: "task t = task u" "current t = current u" "wq t = wq u"
    using t v wf' by (auto simp: recalc_counters_def for_each_task_simps)
  have "t_state (tsk (recalc_counters ?v) c) = TASK_UNINTERRUPTIBLE"
    using for_each_task_simps(5) [OF wf' v(4), of new_counter] vc unfolding recalc_counters_def by simp
  with t vc have t2: "t_state (tsk t c) = TASK_UNINTERRUPTIBLE" by auto
  have "n < NR_TASKS" "n \<noteq> c" using n v vc assms(3) by (auto simp: runnable_def is_task_def)
  then have "task u n \<noteq> task u c" using wf assms(3) unfolding task_wf_def is_task_def by metis
  with run r n t1 t2 show ?thesis by auto
qed

text \<open>C5: A task other than task 0 that goes to sleep on a wait queue puts itself at the head of the
  queue and into uninterruptible sleep: that is the state \<open>v\<close> in which the next task, which is another
  one, takes over. When the other tasks let the sleeper run again, it makes the task that was on the
  queue before it runnable and changes nothing else; this is how one \<^verbatim>\<open>wake_up\<close> of the head wakes
  the whole queue, one task after the other. Task 0 must not sleep: the kernel stops.\<close>

theorem sleep_on_wakes_next:
  assumes "sched_wf s" "2 \<le> fuel E"
    "current s \<noteq> init_task s \<longrightarrow> is_task s c \<and> task s c = current s"
  shows "if current s = init_task s then sleep_on E q s = Panic ''task[0] trying to sleep'' s
    else \<exists>n v t. sleep_on E q s = Ret () t \<and>
      current v = task s n \<and> task s n \<noteq> current s \<and> (n = 0 \<or> runnable v n) \<and>
      wq v = (wq s)(q := current s) \<and> t_state (tstruct v (current s)) = TASK_UNINTERRUPTIBLE \<and>
      t = (others E v)\<lparr>current := current s,
        tstruct := (if wq s q = 0 then tstruct (others E v)
          else (tstruct (others E v))(wq s q := (tstruct (others E v) (wq s q))\<lparr>t_state := TASK_RUNNING\<rparr>))\<rparr>"
proof (cases "current s = init_task s")
  case True
  then show ?thesis by (simp add: sleep_on_def)
next
  case False
  define u where "u = upd_cur (\<lambda>p. p\<lparr>t_state := TASK_UNINTERRUPTIBLE\<rparr>) (s\<lparr>wq := (wq s)(q := current s)\<rparr>)"
  have wf: "sched_wf u"
    using assms(1) sched_wf_cong [of u s] by (simp add: u_def cur_def)
  have c: "task s c = current s" "is_task u c" "t_state (tsk u c) = TASK_UNINTERRUPTIBLE"
    using assms(3) False by (auto simp: u_def is_task_def)
  have u: "task u = task s" "current u = current s" "wq u = (wq s)(q := current s)"
    by (simp_all add: u_def)
  from pick_next_not_sleeper [OF wf assms(2) c(2,3)] obtain n t where
    run: "pick_next E (check_signals u) = Ret n t" and t: "task t = task s" "task s n \<noteq> current s"
    "current t = current s" "wq t = (wq s)(q := current s)"
    "t_state (tstruct t (current s)) = TASK_UNINTERRUPTIBLE" "n = 0 \<or> runnable t n"
    unfolding u c(1) by (elim exE conjE) (simp add: c(1))
  let ?v = "t\<lparr>current := task s n\<rparr>"
  have "schedule E u = Ret () ((others E ?v)\<lparr>current := current s\<rparr>)"
    using run t(1-3) by (simp add: schedule_def switch_to_def)
  then have "sleep_on E q s = Ret () ((others E ?v)\<lparr>current := current s,
        tstruct := (if wq s q = 0 then tstruct (others E ?v)
          else (tstruct (others E ?v))(wq s q := (tstruct (others E ?v) (wq s q))\<lparr>t_state := TASK_RUNNING\<rparr>))\<rparr>)"
    using False by (simp add: sleep_on_def u_def upd_task_def Let_def)
  then show ?thesis
    using False t by (auto simp: runnable_def is_task_def intro!: exI [of _ n] exI [of _ ?v])
qed

theorem sleep_on_wakes_next_witness:
  "\<exists>(v :: kernel) t. sleep_on (quiet_env 2) (I_wait 3) (three_tasks\<lparr>wq := (\<lambda>_. 0x3000)\<rparr>) = Ret () t \<and>
     current v \<noteq> 0x2000 \<and> wq v (I_wait 3) = 0x2000 \<and> t_state (tstruct v 0x2000) = TASK_UNINTERRUPTIBLE \<and>
     current t = 0x2000 \<and> t_state (tstruct t 0x3000) = TASK_RUNNING"
proof -
  let ?s = "three_tasks\<lparr>wq := (\<lambda>_. 0x3000)\<rparr>"
  have wf: "sched_wf ?s" using three_tasks_wf by (simp add: sched_wf_def task_wf_def is_task_def)
  have f: "2 \<le> fuel (quiet_env 2)" by (simp add: quiet_env_def)
  have c: "current ?s \<noteq> init_task ?s \<longrightarrow> is_task ?s 1 \<and> task ?s 1 = current ?s"
    "current ?s = 0x2000" "current ?s \<noteq> init_task ?s" "wq ?s (I_wait 3) = 0x3000"
    by (simp_all add: three_tasks_def is_task_def)
  from sleep_on_wakes_next [OF wf f c(1), of "I_wait 3"] c(3) obtain n v t where
    t: "sleep_on (quiet_env 2) (I_wait 3) ?s = Ret () t"
    "current v = task ?s n" "task ?s n \<noteq> current ?s" "wq v = (wq ?s)(I_wait 3 := current ?s)"
    "t_state (tstruct v (current ?s)) = TASK_UNINTERRUPTIBLE"
    "t = (others (quiet_env 2) v)\<lparr>current := current ?s,
        tstruct := (if wq ?s (I_wait 3) = 0 then tstruct (others (quiet_env 2) v)
          else (tstruct (others (quiet_env 2) v))(wq ?s (I_wait 3) :=
            (tstruct (others (quiet_env 2) v) (wq ?s (I_wait 3)))\<lparr>t_state := TASK_RUNNING\<rparr>))\<rparr>"
    by (auto simp del: fun_upd_apply)
  have "current t = 0x2000" "t_state (tstruct t 0x3000) = TASK_RUNNING"
    unfolding t(6) c(2,4) by simp_all
  with t(1-5) show ?thesis unfolding c(2) by - (rule exI [of _ v], rule exI [of _ t], simp)
qed

theorem sigkill_wakes_witness:
  "t_state (tstruct (check_signals (three_tasks\<lparr>tstruct := (\<lambda>_. zero_task\<lparr>t_state := 1, t_signal := 0x100,
     t_blocked := 0xffffffff\<rparr>)\<rparr>)) 0x2000) = TASK_RUNNING"
proof -
  let ?s = "three_tasks\<lparr>tstruct := (\<lambda>_. zero_task\<lparr>t_state := 1, t_signal := 0x100,
     t_blocked := 0xffffffff\<rparr>)\<rparr>"
  have "task_wf ?s" using three_tasks_wf by (simp add: sched_wf_def task_wf_def)
  from sigkill_wakes [of ?s 1, OF this] show ?thesis
    by (simp add: three_tasks_def sigbit_def)
qed

subsection \<open>The timer list\<close>

text \<open>The list that starts at \<open>p\<close> runs through the nodes \<open>is\<close>, all different and in use; each holds the
  ticks that remain after its predecessor has expired.\<close>

fun timer_chain :: "(nat \<Rightarrow> timer_node) \<Rightarrow> nat option \<Rightarrow> nat list \<Rightarrow> bool" where
  "timer_chain T p [] = (p = None)"
| "timer_chain T p (i # is) =
     (p = Some i \<and> i < TIME_REQUESTS \<and> i \<notin> set is \<and> tm_fn (T i) \<noteq> 0 \<and> 0 \<le> tm_jiffies (T i) \<and>
      tm_jiffies (T i) < 2 ^ 31 \<and> timer_chain T (tm_next (T i)) is)"

definition timer_entries :: "(nat \<Rightarrow> timer_node) \<Rightarrow> nat list \<Rightarrow> (int \<times> u32) list" where
  "timer_entries T is = map (\<lambda>i. (tm_jiffies (T i), tm_fn (T i))) is"

text \<open>What \<^verbatim>\<open>add_timer\<close> does to the list of entries.\<close>

fun timer_insert :: "int \<Rightarrow> u32 \<Rightarrow> (int \<times> u32) list \<Rightarrow> (int \<times> u32) list" where
  "timer_insert j f [] = [(j, f)]"
| "timer_insert j f ((k, g) # xs) =
     (if k < j then (k, g) # timer_insert (j - k) f xs else (j, f) # (k, g) # xs)"

text \<open>The ticks from now at which the entries expire, when \<open>d\<close> ticks go before the list.\<close>

fun expiry :: "int \<Rightarrow> (int \<times> u32) list \<Rightarrow> (int \<times> u32) list" where
  "expiry d [] = []"
| "expiry d ((k, g) # xs) = (d + k, g) # expiry (d + k) xs"

lemma timer_chain_cong:
  "(\<And>i. i \<in> set is \<Longrightarrow> T i = U i) \<Longrightarrow> timer_chain T p is = timer_chain U p is"
  by (induction "is" arbitrary: p) auto

lemma timer_chain_used:
  "timer_chain T p is \<Longrightarrow> distinct is \<and> (\<forall>i \<in> set is. i < TIME_REQUESTS \<and> tm_fn (T i) \<noteq> 0)"
  by (induction "is" arbitrary: p) auto

lemma timer_entries_simps [simp]:
  "timer_entries T [] = []"
  "timer_entries T (i # is) = (tm_jiffies (T i), tm_fn (T i)) # timer_entries T is"
  by (simp_all add: timer_entries_def)

lemma timer_entries_cong:
  "(\<And>i. i \<in> set is \<Longrightarrow> T i = U i) \<Longrightarrow> timer_entries T is = timer_entries U is"
  by (simp add: timer_entries_def)

lemma upd_timer_simps [simp]:
  "timer_list (upd_timer i f s) = (timer_list s)(i := f (timer_list s i))"
  "next_timer (upd_timer i f s) = next_timer s"
  by (simp_all add: upd_timer_def)

lemma timer_sift_insert:
  assumes "timer_chain (timer_list s) (Some p) (p # is)" "length is < n"
  shows "\<exists>t. kwhile n timer_sift p s = Ret () t \<and> next_timer t = next_timer s \<and>
    timer_chain (timer_list t) (Some p) (p # is) \<and>
    timer_entries (timer_list t) (p # is) =
      timer_insert (tm_jiffies (timer_list s p)) (tm_fn (timer_list s p)) (timer_entries (timer_list s) is) \<and>
    (\<forall>i. i \<notin> set (p # is) \<longrightarrow> timer_list t i = timer_list s i)"
  using assms
proof (induction "is" arbitrary: p s n)
  case Nil
  then show ?case by (cases n) (auto simp: timer_sift_def)
next
  case (Cons q "is")
  let ?T = "timer_list s"
  let ?j = "tm_jiffies (?T p)" and ?k = "tm_jiffies (?T q)"
  obtain m where n: "n = Suc m" "length is < m" using Cons.prems(2) by (cases n) auto
  have ne: "p \<noteq> q" "p \<notin> set is" "q \<notin> set is" and nx: "tm_next (?T p) = Some q"
    and ch: "timer_chain ?T (tm_next (?T q)) is"
    and b: "0 \<le> ?j" "?j < 2 ^ 31" "0 \<le> ?k" "?k < 2 ^ 31" "tm_fn (?T p) \<noteq> 0" "tm_fn (?T q) \<noteq> 0"
      "p < TIME_REQUESTS" "q < TIME_REQUESTS"
    using Cons.prems(1) by auto
  show ?case
  proof (cases "?k < ?j")
    case False
    with Cons.prems(1) n show ?thesis by (auto simp: timer_sift_def)
  next
    case True
    define u where "u = s\<lparr>timer_list := ?T(p := \<lparr>tm_jiffies = ?k, tm_fn = tm_fn (?T q), tm_next = Some q\<rparr>,
      q := \<lparr>tm_jiffies = ?j - ?k, tm_fn = tm_fn (?T p), tm_next = tm_next (?T q)\<rparr>)\<rparr>"
    have "is_s32 (?j - ?k)" using True b by (simp add: is_s32_def)
    then have step: "timer_sift p s = Ret (Inl q) u"
      using True ne nx by (simp add: timer_sift_def u_def upd_timer_def Let_def fun_eq_iff timer_node.splits)
    have eq: "timer_list u i = ?T i" if "i \<in> set is" for i using that ne by (auto simp: u_def)
    have "timer_chain (timer_list u) (tm_next (?T q)) is"
      using ch timer_chain_cong [of "is" "timer_list u" ?T, OF eq] by simp
    then have "timer_chain (timer_list u) (Some q) (q # is)" using b True ne by (simp add: u_def)
    moreover have "tm_jiffies (timer_list u q) = ?j - ?k" "tm_fn (timer_list u q) = tm_fn (?T p)"
      by (simp_all add: u_def)
    ultimately obtain t where
      t: "kwhile m timer_sift q u = Ret () t" "next_timer t = next_timer u"
      "timer_chain (timer_list t) (Some q) (q # is)"
      "timer_entries (timer_list t) (q # is) = timer_insert (?j - ?k) (tm_fn (?T p)) (timer_entries (timer_list u) is)"
      "\<forall>i. i \<notin> set (q # is) \<longrightarrow> timer_list t i = timer_list u i"
      using Cons.IH [of u q m] n(2) by auto
    have "timer_list t p = timer_list u p" using t(5) ne by simp
    then have p: "timer_list t p = \<lparr>tm_jiffies = ?k, tm_fn = tm_fn (?T q), tm_next = Some q\<rparr>"
      using ne by (simp add: u_def)
    have "kwhile n timer_sift p s = Ret () t" using step t(1) n(1) by simp
    moreover have "next_timer t = next_timer s" using t(2) by (simp add: u_def)
    moreover have "timer_chain (timer_list t) (Some p) (p # q # is)" using t(3) p b ne by simp
    moreover have "timer_entries (timer_list t) (p # q # is) =
        timer_insert ?j (tm_fn (?T p)) (timer_entries ?T (q # is))"
      using t(4) p True timer_entries_cong [of "is" "timer_list u" ?T, OF eq]
      by simp
    moreover have "\<forall>i. i \<notin> set (p # q # is) \<longrightarrow> timer_list t i = ?T i"
      using t(5) by (simp add: u_def)
    ultimately show ?thesis by blast
  qed
qed

lemma add_timer_insert:
  assumes "timer_chain (timer_list s) (next_timer s) is" "0 < j" "j < 2 ^ 31" "fn \<noteq> 0"
    "k < TIME_REQUESTS" "tm_fn (timer_list s k) = 0" "64 \<le> fuel E"
  shows "\<exists>t js. add_timer E j fn s = Ret () t \<and> timer_chain (timer_list t) (next_timer t) js \<and>
    timer_entries (timer_list t) js = timer_insert j fn (timer_entries (timer_list s) is)"
proof -
  have used: "i \<in> set is \<Longrightarrow> i < TIME_REQUESTS \<and> tm_fn (timer_list s i) \<noteq> 0" for i
    using timer_chain_used [OF assms(1)] by blast
  obtain p where p: "find_up (\<lambda>i. tm_fn (timer_list s i) = 0) 0 TIME_REQUESTS = Some p"
    using assms(5,6) find_up_None_iff [of "\<lambda>i. tm_fn (timer_list s i) = 0" 0 TIME_REQUESTS] by force
  then have p': "p < TIME_REQUESTS" "p \<notin> set is" using used by (auto simp: find_up_Some_iff)
  have "distinct is" using timer_chain_used [OF assms(1)] by blast
  moreover have "set is \<subseteq> {0..<64} - {p}" using used p' by auto
  ultimately have "length is < 64"
    using card_mono [of "{0..<64} - {p}" "set is"] p' by (simp add: distinct_card)
  define u where "u = (upd_timer p (\<lambda>t. \<lparr>tm_jiffies = j, tm_fn = fn, tm_next = next_timer s\<rparr>) s)\<lparr>next_timer := Some p\<rparr>"
  have eq: "timer_list u i = timer_list s i" if "i \<in> set is" for i using that p' by (auto simp: u_def)
  have "timer_chain (timer_list u) (Some p) (p # is)"
    using assms p' timer_chain_cong [of "is" "timer_list u" "timer_list s", OF eq] by (simp add: u_def)
  moreover have "length is < fuel E" using \<open>length is < 64\<close> assms(7) by simp
  ultimately obtain t where "kwhile (fuel E) timer_sift p u = Ret () t" "next_timer t = Some p"
    "timer_chain (timer_list t) (Some p) (p # is)"
    "timer_entries (timer_list t) (p # is) = timer_insert j fn (timer_entries (timer_list u) is)"
    using timer_sift_insert [of u p "is" "fuel E"] by (auto simp: u_def)
  moreover have "timer_entries (timer_list u) is = timer_entries (timer_list s) is"
    using timer_entries_cong [OF eq] .
  ultimately show ?thesis
    using assms(2,4) p by (auto simp: add_timer_def u_def Let_def intro!: exI [of _ "p # is"])
qed

lemma expiry_insert:
  assumes "0 < j"
  shows "\<exists>pre post. xs = pre @ post \<and> sum_list (map fst pre) < j \<and>
    expiry d (timer_insert j f xs) = expiry d pre @ (d + j, f) # 
       map (\<lambda>(e, g). (e + (j - sum_list (map fst pre)), g)) (expiry (d + sum_list (map fst pre)) post) \<and>
    (post \<noteq> [] \<longrightarrow> j \<le> sum_list (map fst pre) + fst (hd post))"
  using assms
proof (induction xs arbitrary: j d)
  case Nil
  then show ?case by simp
next
  case (Cons x xs)
  obtain k g where x: "x = (k, g)" by fastforce
  show ?case
  proof (cases "k < j")
    case True
    then have "0 < j - k" by simp
    from Cons.IH [OF this, of "d + k"] obtain pre post where
      "xs = pre @ post" "sum_list (map fst pre) < j - k"
      "expiry (d + k) (timer_insert (j - k) f xs) = expiry (d + k) pre @ (d + k + (j - k), f) #
         map (\<lambda>(e, g). (e + (j - k - sum_list (map fst pre)), g)) (expiry (d + k + sum_list (map fst pre)) post)"
      "post \<noteq> [] \<longrightarrow> j - k \<le> sum_list (map fst pre) + fst (hd post)" by blast
    then show ?thesis using True x
      by (intro exI [of _ "x # pre"] exI [of _ post]) (simp add: algebra_simps)
  next
    case False
    have "expiry (d + j) ys = map (\<lambda>(e, g). (e + j, g)) (expiry d ys)" for ys d
    proof (induction ys arbitrary: d)
      case (Cons y ys)
      then show ?case using Cons.IH [of "d + fst y"] by (cases y) (simp add: algebra_simps)
    qed simp
    from this [of d "x # xs"] False x Cons.prems show ?thesis
      by (intro exI [of _ "[]"] exI [of _ "x # xs"]) simp
  qed
qed

text \<open>C6: A new timer is put behind exactly the timers that are due earlier (\<open>pre\<close>: the last of them is
  due before \<open>j\<close>, and the first one behind the new timer is not), expires exactly after the ticks
  asked for, and the timers before it are not disturbed. The timers after it are: \<^verbatim>\<open>add_timer\<close>
  never takes the new delay off its successor, so each of them expires late by the distance between
  the new timer and its predecessor.\<close>

theorem add_timer_expiry:
  assumes "timer_chain (timer_list s) (next_timer s) is" "0 < j" "j < 2 ^ 31" "fn \<noteq> 0"
    "k < TIME_REQUESTS" "tm_fn (timer_list s k) = 0" "64 \<le> fuel E"
  shows "\<exists>t js pre post. add_timer E j fn s = Ret () t \<and> timer_chain (timer_list t) (next_timer t) js \<and>
    timer_entries (timer_list s) is = pre @ post \<and> sum_list (map fst pre) < j \<and>
    (post \<noteq> [] \<longrightarrow> j \<le> sum_list (map fst pre) + fst (hd post)) \<and>
    expiry 0 (timer_entries (timer_list t) js) = expiry 0 pre @ (j, fn) #
      map (\<lambda>(e, g). (e + (j - sum_list (map fst pre)), g)) (expiry (sum_list (map fst pre)) post)"
proof -
  from add_timer_insert [OF assms] obtain t js where
    t: "add_timer E j fn s = Ret () t" "timer_chain (timer_list t) (next_timer t) js"
    "timer_entries (timer_list t) js = timer_insert j fn (timer_entries (timer_list s) is)" by blast
  from expiry_insert [OF assms(2), of "timer_entries (timer_list s) is" 0 fn] obtain pre post where
    "timer_entries (timer_list s) is = pre @ post" "sum_list (map fst pre) < j"
    "post \<noteq> [] \<longrightarrow> j \<le> sum_list (map fst pre) + fst (hd post)"
    "expiry 0 (timer_insert j fn (timer_entries (timer_list s) is)) = expiry 0 pre @ (j, fn) #
      map (\<lambda>(e, g). (e + (j - sum_list (map fst pre)), g)) (expiry (sum_list (map fst pre)) post)"
    unfolding add_0 by blast
  with t show ?thesis
    by (intro exI [of _ t] exI [of _ js] exI [of _ pre] exI [of _ post]) simp
qed

text \<open>Timers due in 3 and in 10 ticks; one due in 5 ticks goes between them, and puts the second off
  by the 2 ticks from the first.\<close>

definition two_timers :: kernel where
  "two_timers = k0\<lparr>timer_list := (\<lambda>i. if i = 0 then \<lparr>tm_jiffies = 3, tm_fn = 0x1000, tm_next = Some 1\<rparr>
     else if i = 1 then \<lparr>tm_jiffies = 7, tm_fn = 0x1100, tm_next = None\<rparr>
     else \<lparr>tm_jiffies = 0, tm_fn = 0, tm_next = None\<rparr>), next_timer := Some 0\<rparr>"

theorem add_timer_expiry_witness:
  "\<exists>t js. add_timer (quiet_env 64) 5 0x2000 two_timers = Ret () t \<and>
     timer_chain (timer_list t) (next_timer t) js \<and>
     expiry 0 (timer_entries (timer_list two_timers) [0, 1]) = [(3, 0x1000), (10, 0x1100)] \<and>
     expiry 0 (timer_entries (timer_list t) js) = [(3, 0x1000), (5, 0x2000), (12, 0x1100)]"
proof -
  have c: "timer_chain (timer_list two_timers) (next_timer two_timers) [0, 1]"
    "tm_fn (timer_list two_timers 2) = 0" "(2::nat) < TIME_REQUESTS" "64 \<le> fuel (quiet_env 64)"
    "timer_entries (timer_list two_timers) [0, 1] = [(3, 0x1000), (7, 0x1100)]"
    by (simp_all add: two_timers_def quiet_env_def)
  from add_timer_expiry [OF c(1) _ _ _ c(3,2,4), of 5 "0x2000"] obtain t js pre post where
    t: "add_timer (quiet_env 64) 5 0x2000 two_timers = Ret () t" "timer_chain (timer_list t) (next_timer t) js"
    and pp: "timer_entries (timer_list two_timers) [0, 1] = pre @ post" "sum_list (map fst pre) < 5"
      "post \<noteq> [] \<longrightarrow> 5 \<le> sum_list (map fst pre) + fst (hd post)"
    and e: "expiry 0 (timer_entries (timer_list t) js) = expiry 0 pre @ (5, 0x2000) #
      map (\<lambda>(e, g). (e + (5 - sum_list (map fst pre)), g)) (expiry (sum_list (map fst pre)) post)"
    by auto
  have "pre = [(3, 0x1000)]" "post = [(7, 0x1100)]" using pp c(5) by (auto simp: Cons_eq_append_conv)
  with t e c(5) show ?thesis by auto
qed

subsection \<open>The coprocessor\<close>

text \<open>The floating-point state of task \<open>p\<close>: it is in the coprocessor when \<open>p\<close> used it last, and in the
  task's structure otherwise.\<close>

definition math_of :: "kernel \<Rightarrow> u32 \<Rightarrow> i387_struct" where
  "math_of s p = (if last_task_used_math s = p then fpu s else tss_i387 (t_tss (tstruct s p)))"

text \<open>The lazy switch of the coprocessor loses no state: \<^verbatim>\<open>math_state_restore\<close> leaves the
  floating-point state of every task as it was, save that a task which has never used the
  coprocessor starts with an initialised one, and the coprocessor ends up holding the state of
  the current task.\<close>

theorem math_state_restore_lazy:
  assumes "current s \<noteq> 0" "p \<noteq> 0"
  shows "math_of (math_state_restore s) p =
      (if p = current s \<and> t_used_math (cur s) = 0 \<and> last_task_used_math s \<noteq> p then fpu_init s
       else math_of s p) \<and>
    last_task_used_math (math_state_restore s) = current s"
  using assms by (auto simp: math_state_restore_def math_of_def Let_def upd_defs cur_def)

theorem math_state_restore_lazy_witness:
  "math_of (math_state_restore (three_tasks\<lparr>last_task_used_math := 0x3000, fpu := (\<lambda>_. 7)\<rparr>)) 0x3000 = (\<lambda>_. 7)"
proof -
  let ?s = "three_tasks\<lparr>last_task_used_math := 0x3000, fpu := (\<lambda>_. 7)\<rparr>"
  have "current ?s = 0x2000" "math_of ?s 0x3000 = (\<lambda>_. 7)" by (simp_all add: three_tasks_def math_of_def)
  with math_state_restore_lazy [of ?s "0x3000"] show ?thesis by simp
qed

end
