(* ===== verification/BlkDev.thy ===== *)
theory BlkDev
  imports Sched
begin

text \<open>
  The block devices: kernel/blk_drv/ll_rw_blk.c, the shared part of every driver in
  kernel/blk_drv/blk.h, and the RAM disk of kernel/blk_drv/ramdisk.c (its \<^verbatim>\<open>rd_load\<close>, which uses the
  buffer cache, is in the theory that closes the cache). The request functions of the floppy and the
  hard disk are parameters of the environment. The \<^verbatim>\<open>buffer\<close> of a request points into the data block
  of its \<^verbatim>\<open>bh\<close> and is the offset from its start; \<^verbatim>\<open>waiting\<close> is the wait queue \<open>Req_waiting\<close>.
\<close>

subsection \<open>Buffers and their locks\<close>

abbreviation (input) "NR_BLK_DEV \<equiv> (7::nat)"

definition MAJOR :: "u16 \<Rightarrow> nat" where
  "MAJOR dev = unat (drop_bit 8 dev)"

definition MINOR :: "u16 \<Rightarrow> u16" where
  "MINOR dev = dev AND 0xff"

definition wait_on_buffer :: "env \<Rightarrow> nat \<Rightarrow> kernel \<Rightarrow> unit kres" where
  "wait_on_buffer E bh s =
     kloop (fuel E) (\<lambda>s. if b_lock (bufs s bh)
                         then kbind (sleep_on E (B_wait bh) s) (\<lambda>_ s. Ret None s)
                         else Ret (Some ()) s) s"

definition lock_buffer :: "env \<Rightarrow> nat \<Rightarrow> kernel \<Rightarrow> unit kres" where
  "lock_buffer E bh s =
     kbind (kloop (fuel E) (\<lambda>s. if b_lock (bufs s bh)
                         then kbind (sleep_on E (B_wait bh) s) (\<lambda>_ s. Ret None s)
                         else Ret (Some ()) s) s)
       (\<lambda>_ s. Ret () (upd_buf bh (\<lambda>b. b\<lparr>b_lock := True\<rparr>) s))"

definition unlock_buffer :: "nat \<Rightarrow> kernel \<Rightarrow> kernel" where
  "unlock_buffer bh s = wake_up (B_wait bh) (upd_buf bh (\<lambda>b. b\<lparr>b_lock := False\<rparr>) s)"

subsection \<open>The drivers' common code\<close>

text \<open>\<open>CURRENT\<close> of the driver with major number \<open>major\<close>; a request's \<open>dev\<close> is an \<open>int\<close>, -1 when free.\<close>

definition set_current_request :: "nat \<Rightarrow> nat option \<Rightarrow> kernel \<Rightarrow> kernel" where
  "set_current_request major r s =
     s\<lparr>blk_dev := (blk_dev s)(major := (blk_dev s major)\<lparr>current_request := r\<rparr>)\<rparr>"

definition dev_major :: "int \<Rightarrow> nat" where
  "dev_major dev = unat (drop_bit 8 (word_of_int dev :: u32))"

definition end_request :: "nat \<Rightarrow> bool \<Rightarrow> kernel \<Rightarrow> unit kres" where
  "end_request major uptodate s =
     (case current_request (blk_dev s major) of
        None \<Rightarrow> Fault
      | Some r \<Rightarrow>
          kbind (if major = 2 then floppy_off (word_of_int (r_dev (request s r)) AND 3) s else Ret () s)
            (\<lambda>_ s.
            let s = (case r_bh (request s r) of
                       None \<Rightarrow> s
                     | Some bh \<Rightarrow> unlock_buffer bh (upd_buf bh (\<lambda>b. b\<lparr>b_uptodate := uptodate\<rparr>) s));
                s = wake_up (Req_waiting r) s;
                s = wake_up Wait_for_request s;
                s = upd_req r (\<lambda>q. q\<lparr>r_dev := -1\<rparr>) s in
            Ret () (set_current_request major (r_next (request s r)) s)))"

text \<open>\<^verbatim>\<open>INIT_REQUEST\<close>: \<open>Some r\<close> is the request to serve, \<open>None\<close> says that the queue is empty.\<close>

definition INIT_REQUEST :: "nat \<Rightarrow> kernel \<Rightarrow> nat option kres" where
  "INIT_REQUEST major s =
     (case current_request (blk_dev s major) of
        None \<Rightarrow> Ret None s
      | Some r \<Rightarrow>
          if dev_major (r_dev (request s r)) \<noteq> major then Panic ''request list destroyed'' s
          else (case r_bh (request s r) of
            None \<Rightarrow> Ret (Some r) s
          | Some bh \<Rightarrow> if \<not> b_lock (bufs s bh) then Panic ''block not locked'' s else Ret (Some r) s))"

subsection \<open>The RAM disk\<close>

definition rd_write :: "nat \<Rightarrow> nat \<Rightarrow> (nat \<Rightarrow> u8) \<Rightarrow> kernel \<Rightarrow> kernel" where
  "rd_write off len d s =
     s\<lparr>rd_data := (\<lambda>k. if off \<le> k \<and> k < off + len then d (k - off) else rd_data s k)\<rparr>"

text \<open>The two copies of \<^verbatim>\<open>do_rd_request\<close>. The disk is the bytes from \<^verbatim>\<open>rd_start\<close> on; an access that the
  unsigned comparison lets through although it leaves the disk is a \<open>Fault\<close>.\<close>

definition rd_transfer :: "nat \<Rightarrow> kernel \<Rightarrow> unit kres" where
  "rd_transfer r s =
     (let addr = rd_start s + push_bit 9 (r_sector (request s r));
          len = unat (push_bit 9 (r_nr_sectors (request s r)));
          off = unat (addr - rd_start s);
          buf = r_buffer (request s r) in
      case r_bh (request s r) of
        None \<Rightarrow> Fault
      | Some bh \<Rightarrow>
          if buf + len > BLOCK_SIZE \<or> int (off + len) > rd_length s then Fault
          else (case r_cmd (request s r) of
            WRITE \<Rightarrow> Ret () (rd_write off len (\<lambda>k. b_data (bufs s bh) (buf + k)) s)
          | READ \<Rightarrow> Ret () (upd_buf bh (\<lambda>b. b\<lparr>b_data := (\<lambda>k. if buf \<le> k \<and> k < buf + len
                       then rd_data s (off + (k - buf)) else b_data b k)\<rparr>) s)
          | _ \<Rightarrow> Panic ''unknown ramdisk-command'' s))"

definition do_rd_request :: "env \<Rightarrow> kernel \<Rightarrow> unit kres" where
  "do_rd_request E s =
     kloop (fuel E) (\<lambda>s. kbind (INIT_REQUEST 1 s) (\<lambda>q s.
       case q of
         None \<Rightarrow> Ret (Some ()) s
       | Some r \<Rightarrow>
           let addr = rd_start s + push_bit 9 (r_sector (request s r));
               len = push_bit 9 (r_nr_sectors (request s r)) in
           if word_of_int (r_dev (request s r)) AND 0xff \<noteq> (1 :: u32)
              \<or> addr + len > rd_start s + word_of_int (rd_length s)
           then kbind (end_request 1 False s) (\<lambda>_ s. Ret None s)
           else kbind (rd_transfer r s) (\<lambda>_ s.
                kbind (end_request 1 True s) (\<lambda>_ s. Ret None s)))) s"

definition rd_init :: "u32 \<Rightarrow> int \<Rightarrow> kernel \<Rightarrow> int \<times> kernel" where
  "rd_init mem_start len s =
     (len, s\<lparr>blk_dev := (blk_dev s)(1 := (blk_dev s 1)\<lparr>request_fn := Some Do_rd_request\<rparr>),
        rd_start := mem_start, rd_length := len,
        rd_data := (\<lambda>k. if int k < len then 0 else rd_data s k)\<rparr>)"

subsection \<open>Requests\<close>

definition cmd_nr :: "rwcmd \<Rightarrow> nat" where
  "cmd_nr c = (case c of READ \<Rightarrow> 0 | WRITE \<Rightarrow> 1 | READA \<Rightarrow> 2 | WRITEA \<Rightarrow> 3)"

definition IN_ORDER :: "request \<Rightarrow> request \<Rightarrow> bool" where
  "IN_ORDER s1 s2 \<longleftrightarrow>
     cmd_nr (r_cmd s1) < cmd_nr (r_cmd s2) \<or> cmd_nr (r_cmd s1) = cmd_nr (r_cmd s2) \<and>
     (r_dev s1 < r_dev s2 \<or> (r_dev s1 = r_dev s2 \<and> r_sector s1 < r_sector s2))"

definition call_request_fn :: "env \<Rightarrow> nat \<Rightarrow> kernel \<Rightarrow> unit kres" where
  "call_request_fn E major s =
     (case request_fn (blk_dev s major) of
        None \<Rightarrow> Fault
      | Some Do_rd_request \<Rightarrow> do_rd_request E s
      | Some Do_fd_request \<Rightarrow> Ret () (do_fd_request E s)
      | Some Do_hd_request \<Rightarrow> Ret () (do_hd_request E s))"

text \<open>One round of the elevator's search for the place of \<open>req\<close>.\<close>

definition elevator_step :: "nat \<Rightarrow> nat \<Rightarrow> kernel \<Rightarrow> (kernel, nat + nat) outcome" where
  "elevator_step req tmp s =
     (case r_next (request s tmp) of
        None \<Rightarrow> Ret (Inr tmp) s
      | Some nx \<Rightarrow>
          if (IN_ORDER (request s tmp) (request s req) \<or> \<not> IN_ORDER (request s tmp) (request s nx))
             \<and> IN_ORDER (request s req) (request s nx)
          then Ret (Inr tmp) s else Ret (Inl nx) s)"

definition add_request :: "env \<Rightarrow> nat \<Rightarrow> nat \<Rightarrow> kernel \<Rightarrow> unit kres" where
  "add_request E major req s =
     (let s = upd_req req (\<lambda>q. q\<lparr>r_next := None\<rparr>) s;
          s = (case r_bh (request s req) of
                 None \<Rightarrow> s
               | Some bh \<Rightarrow> upd_buf bh (\<lambda>b. b\<lparr>b_dirt := False\<rparr>) s) in
      case current_request (blk_dev s major) of
        None \<Rightarrow> call_request_fn E major (set_current_request major (Some req) s)
      | Some tmp \<Rightarrow>
          kbind (kwhile (fuel E) (elevator_step req) tmp s) (\<lambda>tmp s.
            let s = upd_req req (\<lambda>q. q\<lparr>r_next := r_next (request s tmp)\<rparr>) s in
            Ret () (upd_req tmp (\<lambda>q. q\<lparr>r_next := Some req\<rparr>) s)))"

definition make_request :: "env \<Rightarrow> nat \<Rightarrow> rwcmd \<Rightarrow> nat \<Rightarrow> kernel \<Rightarrow> unit kres" where
  "make_request E major rw bh s =
     (let rw_ahead = (rw = READA \<or> rw = WRITEA) in
      if rw_ahead \<and> b_lock (bufs s bh) then Ret () s
      else let rw = (if rw_ahead then (if rw = READA then READ else WRITE) else rw) in
        kbind (lock_buffer E bh s) (\<lambda>_ s.
          if rw = WRITE \<and> \<not> b_dirt (bufs s bh) \<or> rw = READ \<and> b_uptodate (bufs s bh)
          then Ret () (unlock_buffer bh s)
          else kloop (fuel E) (\<lambda>s.
            case find_down (\<lambda>i. r_dev (request s i) < 0)
                   (if rw = READ then NR_REQUEST else (NR_REQUEST * 2) div 3) of
              None \<Rightarrow>
                if rw_ahead then Ret (Some ()) (unlock_buffer bh s)
                else kbind (sleep_on E Wait_for_request s) (\<lambda>_ s. Ret None s)
            | Some req \<Rightarrow>
                let s = upd_req req (\<lambda>q. \<lparr>r_dev = uint (b_dev (bufs s bh)), r_cmd = rw,
                          r_errors = 0, r_sector = push_bit 1 (b_blocknr (bufs s bh)),
                          r_nr_sectors = 2, r_buffer = 0, r_bh = Some bh, r_next = None\<rparr>) s;
                    s = s\<lparr>wq := (wq s)(Req_waiting req := 0)\<rparr> in
                kbind (add_request E major req s) (\<lambda>_ s. Ret (Some ()) s)) s))"

definition ll_rw_block :: "env \<Rightarrow> rwcmd \<Rightarrow> nat \<Rightarrow> kernel \<Rightarrow> unit kres" where
  "ll_rw_block E rw bh s =
     (let major = MAJOR (b_dev (bufs s bh)) in
      if major \<ge> NR_BLK_DEV \<or> request_fn (blk_dev s major) = None then Ret () s
      else make_request E major rw bh s)"

definition blk_dev_init :: "kernel \<Rightarrow> kernel" where
  "blk_dev_init s =
     s\<lparr>request := (\<lambda>i. if i < NR_REQUEST then (request s i)\<lparr>r_dev := -1, r_next := None\<rparr>
                       else request s i)\<rparr>"

end
