(* ===== verification/Floppy.thy ===== *)
theory Floppy
  imports BlkDev
begin

text \<open>
  The floppy driver, kernel/blk_drv/floppy.c with include/linux/fdreg.h, and the assembler stub \<^verbatim>\<open>floppy_interrupt\<close> of
  kernel/system_call.s that calls whatever \<^verbatim>\<open>do_floppy\<close> points to. A routine takes the driver's variables and the
  kernel's state and returns the new variables. The controller is a stream of answers: \<open>fd_ins p k\<close> is the byte
  that the \<open>k\<close>-th read of a register delivers when it goes to port \<open>p\<close>; what the driver writes to the ports of the controller and
  of the DMA chip is kept in order in \<open>fd_outs\<close>.

  The addresses that the linker and the memory layout decide are fields that no routine changes: \<open>data_addr i\<close> is
  where the data block of buffer \<open>i\<close> is, \<open>tmp_floppy_addr\<close> where \<^verbatim>\<open>tmp_floppy_area\<close> is, \<open>fd_addr\<close> the addresses of the two
  routines that are called by timers. \<^verbatim>\<open>current_DOR\<close> and \<^verbatim>\<open>selected\<close>, which kernel/sched.c shares, are in the kernel's state.
\<close>

subsection \<open>State\<close>

record floppy_struct =
  fs_size :: u32
  fs_sect :: u32
  fs_head :: u32
  fs_track :: u32
  fs_stretch :: nat
  fs_gap :: u8
  fs_rate :: u8
  fs_spec1 :: u8

definition floppy_type :: "floppy_struct list" where
  "floppy_type =
    [\<lparr>fs_size = 0, fs_sect = 0, fs_head = 0, fs_track = 0, fs_stretch = 0, fs_gap = 0x00, fs_rate = 0x00, fs_spec1 = 0x00\<rparr>,
     \<lparr>fs_size = 720, fs_sect = 9, fs_head = 2, fs_track = 40, fs_stretch = 0, fs_gap = 0x2A, fs_rate = 0x02, fs_spec1 = 0xDF\<rparr>,
     \<lparr>fs_size = 2400, fs_sect = 15, fs_head = 2, fs_track = 80, fs_stretch = 0, fs_gap = 0x1B, fs_rate = 0x00, fs_spec1 = 0xDF\<rparr>,
     \<lparr>fs_size = 720, fs_sect = 9, fs_head = 2, fs_track = 40, fs_stretch = 1, fs_gap = 0x2A, fs_rate = 0x02, fs_spec1 = 0xDF\<rparr>,
     \<lparr>fs_size = 1440, fs_sect = 9, fs_head = 2, fs_track = 80, fs_stretch = 0, fs_gap = 0x2A, fs_rate = 0x02, fs_spec1 = 0xDF\<rparr>,
     \<lparr>fs_size = 720, fs_sect = 9, fs_head = 2, fs_track = 40, fs_stretch = 1, fs_gap = 0x23, fs_rate = 0x01, fs_spec1 = 0xDF\<rparr>,
     \<lparr>fs_size = 1440, fs_sect = 9, fs_head = 2, fs_track = 80, fs_stretch = 0, fs_gap = 0x23, fs_rate = 0x01, fs_spec1 = 0xDF\<rparr>,
     \<lparr>fs_size = 2880, fs_sect = 18, fs_head = 2, fs_track = 80, fs_stretch = 0, fs_gap = 0x1B, fs_rate = 0x00, fs_spec1 = 0xCF\<rparr>]"

datatype fd_intr = Rw_interrupt | Seek_interrupt | Recal_interrupt | Reset_interrupt

datatype fd_fn = Floppy_on_interrupt | Transfer

text \<open>\<^verbatim>\<open>floppy\<close> is the index of the entry of \<^verbatim>\<open>floppy_type\<close> it points to.\<close>

record fd_drv =
  fd_recalibrate :: bool
  fd_reset :: bool
  fd_seek :: bool
  reply_buffer :: "nat \<Rightarrow> u8"
  cur_spec1 :: int
  cur_rate :: int
  floppy :: nat
  current_drive :: u8
  fd_sector :: u8
  fd_head :: u8
  fd_track :: u8
  seek_track :: u8
  current_track :: u8
  fd_command :: u8
  do_floppy :: "fd_intr option"
  tmp_floppy_area :: "nat \<Rightarrow> u8"
  fd_outs :: "(nat \<times> u8) list"
  fd_ins :: "nat \<Rightarrow> nat \<Rightarrow> u8"
  fd_nins :: nat
  data_addr :: "nat \<Rightarrow> u32"
  tmp_floppy_addr :: u32
  fd_addr :: "fd_fn \<Rightarrow> u32"

type_synonym fdres = "(kernel, fd_drv) outcome"

abbreviation (input) "FD_MAX_ERRORS \<equiv> (8 :: int)"
abbreviation (input) "MAX_REPLIES \<equiv> (7 :: nat)"
abbreviation (input) "FD_STATUS \<equiv> (0x3f4 :: nat)"
abbreviation (input) "FD_DATA \<equiv> (0x3f5 :: nat)"
abbreviation (input) "FD_DOR \<equiv> (0x3f2 :: nat)"
abbreviation (input) "FD_DIR \<equiv> (0x3f7 :: nat)"
abbreviation (input) "FD_DCR \<equiv> (0x3f7 :: nat)"
abbreviation (input) "STATUS_BUSY \<equiv> (0x10 :: u8)"
abbreviation (input) "STATUS_DIR \<equiv> (0x40 :: u8)"
abbreviation (input) "STATUS_READY \<equiv> (0x80 :: u8)"
abbreviation (input) "FD_RECALIBRATE \<equiv> (0x07 :: u8)"
abbreviation (input) "FD_SEEK \<equiv> (0x0F :: u8)"
abbreviation (input) "FD_READ \<equiv> (0xE6 :: u8)"
abbreviation (input) "FD_WRITE \<equiv> (0xC5 :: u8)"
abbreviation (input) "FD_SENSEI \<equiv> (0x08 :: u8)"
abbreviation (input) "FD_SPECIFY \<equiv> (0x03 :: u8)"
abbreviation (input) "DMA_READ \<equiv> (0x46 :: u8)"
abbreviation (input) "DMA_WRITE \<equiv> (0x4A :: u8)"

subsection \<open>The controller's registers\<close>

definition fd_inb :: "nat \<Rightarrow> fd_drv \<Rightarrow> u8 \<times> fd_drv" where
  "fd_inb port f = (fd_ins f port (fd_nins f), f\<lparr>fd_nins := fd_nins f + 1\<rparr>)"

definition fd_outb :: "(nat \<times> u8) list \<Rightarrow> fd_drv \<Rightarrow> fd_drv" where
  "fd_outb bs f = f\<lparr>fd_outs := fd_outs f @ bs\<rparr>"

fun output_loop :: "nat \<Rightarrow> u8 \<Rightarrow> fd_drv \<Rightarrow> fd_drv" where
  "output_loop 0 byte f = f\<lparr>fd_reset := True\<rparr>"
| "output_loop (Suc n) byte f =
     (let (status, f) = fd_inb FD_STATUS f in
      if status AND (STATUS_READY OR STATUS_DIR) = STATUS_READY then fd_outb [(FD_DATA, byte)] f
      else output_loop n byte f)"

definition output_byte :: "u8 \<Rightarrow> fd_drv \<Rightarrow> fd_drv" where
  "output_byte byte f = (if fd_reset f then f else output_loop 10000 byte f)"

fun result_loop :: "nat \<Rightarrow> nat \<Rightarrow> fd_drv \<Rightarrow> int \<times> fd_drv" where
  "result_loop 0 i f = (-1, f\<lparr>fd_reset := True\<rparr>)"
| "result_loop (Suc n) i f =
     (let (status, f) = fd_inb FD_STATUS f;
          status = status AND (STATUS_DIR OR STATUS_READY OR STATUS_BUSY) in
      if status = STATUS_READY then (int i, f)
      else if status = STATUS_DIR OR STATUS_READY OR STATUS_BUSY then
        (if i \<ge> MAX_REPLIES then (-1, f\<lparr>fd_reset := True\<rparr>)
         else let (d, f) = fd_inb FD_DATA f in
           result_loop n (i + 1) (f\<lparr>reply_buffer := (reply_buffer f)(i := d)\<rparr>))
      else result_loop n i f)"

definition result_bytes :: "fd_drv \<Rightarrow> int \<times> fd_drv" where
  "result_bytes f = (if fd_reset f then (-1, f) else result_loop 10000 0 f)"

abbreviation (input) "ST0 f \<equiv> reply_buffer f 0"
abbreviation (input) "ST1 f \<equiv> reply_buffer f 1"
abbreviation (input) "ST2 f \<equiv> reply_buffer f 2"

subsection \<open>Selecting a drive\<close>

definition floppy_deselect :: "kernel \<Rightarrow> kernel" where
  "floppy_deselect s = wake_up Wait_on_floppy_select (s\<lparr>selected := False\<rparr>)"

text \<open>\<^verbatim>\<open>floppy_change\<close> answers whether the disk was changed; the two loops take their fuel from the environment.\<close>

definition fd_wait_selected :: "env \<Rightarrow> u32 \<Rightarrow> kernel \<Rightarrow> unit kres" where
  "fd_wait_selected E nr s =
     kloop (fuel E) (\<lambda>s. if ucast (current_DOR s AND 3) \<noteq> nr \<and> selected s
                         then kbind (interruptible_sleep_on E Wait_on_floppy_select s) (\<lambda>_ s. Ret None s)
                         else Ret (Some ()) s) s"

definition fd_change :: "env \<Rightarrow> u32 \<Rightarrow> fd_drv \<Rightarrow> kernel \<Rightarrow> (bool \<times> fd_drv) kres" where
  "fd_change E nr f s =
     kbind (kloop (fuel E) (\<lambda>s.
         kbind (floppy_on E nr s) (\<lambda>_ s.
         kbind (fd_wait_selected E nr s) (\<lambda>_ s.
           if ucast (current_DOR s AND 3) \<noteq> nr then Ret None s else Ret (Some ()) s))) s)
       (\<lambda>_ s.
         let (b, f) = fd_inb FD_DIR f in
         kbind (floppy_off nr s) (\<lambda>_ s. Ret (b AND 0x80 \<noteq> 0, f) s))"

subsection \<open>Starting a transfer\<close>

text \<open>The DMA chip cannot reach beyond the first megabyte; for such a buffer the transfer goes through
  \<^verbatim>\<open>tmp_floppy_area\<close>. A copy of 1024 bytes that would leave the data block is a \<open>Fault\<close>.\<close>

definition setup_DMA :: "fd_drv \<Rightarrow> kernel \<Rightarrow> fdres" where
  "setup_DMA f s =
     (case current_request (blk_dev s 2) of
        None \<Rightarrow> Fault
      | Some r \<Rightarrow>
          (case r_bh (request s r) of
             None \<Rightarrow> Fault
           | Some bh \<Rightarrow>
               let off = r_buffer (request s r);
                   addr = data_addr f bh + of_nat off;
                   high = sint addr \<ge> 0x100000;
                   mode = (if fd_command f = FD_READ then DMA_READ else DMA_WRITE) in
               if high \<and> fd_command f = FD_WRITE \<and> off \<noteq> 0 then Fault
               else
                 let f = (if high \<and> fd_command f = FD_WRITE
                          then f\<lparr>tmp_floppy_area := (\<lambda>k. if k < BLOCK_SIZE then b_data (bufs s bh) k else tmp_floppy_area f k)\<rparr>
                          else f);
                     addr = (if high then tmp_floppy_addr f else addr) in
                 Ret (fd_outb [(10, 4 OR 2), (12, mode), (11, mode), (4, ucast addr), (4, ucast (drop_bit 8 addr)),
                        (0x81, ucast (drop_bit 16 addr)), (5, 0xff), (5, 3), (10, 0 OR 2)] f) s))"

text \<open>The routines below call \<^verbatim>\<open>do_fd_request\<close> when the controller does not take a command, and \<^verbatim>\<open>do_fd_request\<close> calls
  them; here they take it as an argument \<open>again\<close>, and \<open>fd_request_n\<close> ties the knot.\<close>

definition setup_rw_floppy :: "(fd_drv \<Rightarrow> kernel \<Rightarrow> fdres) \<Rightarrow> fd_drv \<Rightarrow> kernel \<Rightarrow> fdres" where
  "setup_rw_floppy again f s =
     kbind (setup_DMA f s) (\<lambda>f s.
       let f = f\<lparr>do_floppy := Some Rw_interrupt\<rparr>;
           f = output_byte (fd_command f) f;
           f = output_byte (push_bit 2 (fd_head f) OR current_drive f) f;
           f = output_byte (fd_track f) f;
           f = output_byte (fd_head f) f;
           f = output_byte (fd_sector f) f;
           f = output_byte 2 f;
           f = output_byte (ucast (fs_sect (floppy_type ! floppy f))) f;
           f = output_byte (fs_gap (floppy_type ! floppy f)) f;
           f = output_byte 0xFF f in
       if fd_reset f then again f s else Ret f s)"

definition transfer_specify :: "fd_drv \<Rightarrow> fd_drv" where
  "transfer_specify f =
     (let g = floppy_type ! floppy f;
          f = (if cur_spec1 f \<noteq> uint (fs_spec1 g)
               then output_byte 6 (output_byte (fs_spec1 g) (output_byte FD_SPECIFY (f\<lparr>cur_spec1 := uint (fs_spec1 g)\<rparr>)))
               else f) in
      if cur_rate f \<noteq> uint (fs_rate g) then fd_outb [(FD_DCR, fs_rate g)] (f\<lparr>cur_rate := uint (fs_rate g)\<rparr>) else f)"

definition transfer :: "(fd_drv \<Rightarrow> kernel \<Rightarrow> fdres) \<Rightarrow> fd_drv \<Rightarrow> kernel \<Rightarrow> fdres" where
  "transfer again f s =
     (let f = transfer_specify f in
      if fd_reset f then again f s
      else if \<not> fd_seek f then setup_rw_floppy again f s
      else
        let f = f\<lparr>do_floppy := Some Seek_interrupt\<rparr>;
            f = (if seek_track f \<noteq> 0
                 then output_byte (seek_track f) (output_byte (push_bit 2 (fd_head f) OR current_drive f) (output_byte FD_SEEK f))
                 else output_byte (push_bit 2 (fd_head f) OR current_drive f) (output_byte FD_RECALIBRATE f)) in
        if fd_reset f then again f s else Ret f s)"

text \<open>\<^verbatim>\<open>add_timer\<close> for one of the driver's routines: a timer that has run out already calls the routine at once.\<close>

definition fd_add_timer :: "env \<Rightarrow> int \<Rightarrow> fd_fn \<Rightarrow> (fd_drv \<Rightarrow> kernel \<Rightarrow> fdres) \<Rightarrow> fd_drv \<Rightarrow> kernel \<Rightarrow> fdres" where
  "fd_add_timer E jif fn run f s =
     (if fd_addr f fn \<noteq> 0 \<and> jif \<le> 0 then run f s
      else kbind (add_timer E jif (fd_addr f fn) s) (\<lambda>_ s. Ret f s))"

definition floppy_on_interrupt :: "env \<Rightarrow> (fd_drv \<Rightarrow> kernel \<Rightarrow> fdres) \<Rightarrow> fd_drv \<Rightarrow> kernel \<Rightarrow> fdres" where
  "floppy_on_interrupt E again f s =
     (let s = s\<lparr>selected := True\<rparr> in
      if current_drive f \<noteq> current_DOR s AND 3 then
        let s = s\<lparr>current_DOR := (current_DOR s AND 0xFC) OR current_drive f\<rparr> in
        fd_add_timer E 2 Transfer (transfer again) (fd_outb [(FD_DOR, current_DOR s)] f) s
      else transfer again f s)"

subsection \<open>Requests\<close>

definition recalibrate_floppy :: "(fd_drv \<Rightarrow> kernel \<Rightarrow> fdres) \<Rightarrow> fd_drv \<Rightarrow> kernel \<Rightarrow> fdres" where
  "recalibrate_floppy again f s =
     (let f = f\<lparr>fd_recalibrate := False, current_track := 0, do_floppy := Some Recal_interrupt\<rparr>;
          f = output_byte (push_bit 2 (fd_head f) OR current_drive f) (output_byte FD_RECALIBRATE f) in
      if fd_reset f then again f s else Ret f s)"

definition reset_floppy :: "fd_drv \<Rightarrow> kernel \<Rightarrow> fdres" where
  "reset_floppy f s =
     Ret (fd_outb [(FD_DOR, current_DOR s AND NOT 0x04), (FD_DOR, current_DOR s)]
       (f\<lparr>fd_reset := False, cur_spec1 := -1, cur_rate := -1, fd_recalibrate := True, do_floppy := Some Reset_interrupt\<rparr>)) s"

text \<open>The type and the drive in a device number, and their selection.\<close>

definition fd_type_of :: "int \<Rightarrow> nat" where
  "fd_type_of dev = unat (drop_bit 2 (word_of_int dev AND 0xff :: u32))"

definition fd_drive_of :: "int \<Rightarrow> u8" where
  "fd_drive_of dev = ucast (word_of_int dev AND 3 :: u32)"

definition fd_select :: "int \<Rightarrow> fd_drv \<Rightarrow> fd_drv" where
  "fd_select dev f =
     f\<lparr>floppy := fd_type_of dev, fd_seek := fd_seek f \<or> current_drive f \<noteq> fd_drive_of dev, current_drive := fd_drive_of dev\<rparr>"

text \<open>The place of sector number \<open>block\<close> on a disk with geometry \<open>g\<close>, and whether the head has to move.\<close>

definition fd_locate :: "floppy_struct \<Rightarrow> u32 \<Rightarrow> fd_drv \<Rightarrow> fd_drv" where
  "fd_locate g block f =
     (let trk = ucast (block div fs_sect g div fs_head g) :: u8;
          stk = push_bit (fs_stretch g) trk in
      f\<lparr>fd_sector := ucast (block mod fs_sect g) + 1, fd_head := ucast (block div fs_sect g mod fs_head g),
        fd_track := trk, seek_track := stk, fd_seek := fd_seek f \<or> stk \<noteq> current_track f\<rparr>)"

definition fd_start :: "env \<Rightarrow> (fd_drv \<Rightarrow> kernel \<Rightarrow> fdres) \<Rightarrow> rwcmd \<Rightarrow> fd_drv \<Rightarrow> kernel \<Rightarrow> fdres" where
  "fd_start E again cmd f s =
     kbind (case cmd of
              READ \<Rightarrow> Ret (f\<lparr>fd_command := FD_READ\<rparr>) s
            | WRITE \<Rightarrow> Ret (f\<lparr>fd_command := FD_WRITE\<rparr>) s
            | _ \<Rightarrow> Panic ''do_fd_request: unknown command'' s)
       (\<lambda>f s. kbind (ticks_to_floppy_on (ucast (current_drive f)) s) (\<lambda>ticks s.
         fd_add_timer E ticks Floppy_on_interrupt (floppy_on_interrupt E again) f s))"

text \<open>One round from the label \<^verbatim>\<open>repeat\<close>: \<open>Inl\<close> goes back to it. The source does not compare the type with the table:
  for a minor number from 32 on the pointer lies behind it, and the read of \<^verbatim>\<open>floppy->size\<close> two lines further on is outside any
  object of the model, so it is \<open>Fault\<close>. Type 0 has no sectors to divide by.\<close>

definition fd_request_step :: "env \<Rightarrow> (fd_drv \<Rightarrow> kernel \<Rightarrow> fdres) \<Rightarrow> fd_drv \<Rightarrow> kernel \<Rightarrow> (kernel, fd_drv + fd_drv) outcome" where
  "fd_request_step E again f s =
     kbind (INIT_REQUEST 2 s) (\<lambda>q s.
       case q of
         None \<Rightarrow> Ret (Inr f) s
       | Some r \<Rightarrow>
           if fd_type_of (r_dev (request s r)) \<ge> length floppy_type then Fault
           else
             let g = floppy_type ! fd_type_of (r_dev (request s r));
                 f = fd_select (r_dev (request s r)) f;
                 block = r_sector (request s r) in
             if block + 2 > fs_size g then kbind (end_request 2 False s) (\<lambda>_ s. Ret (Inl f) s)
             else if fs_sect g = 0 then Fault
             else kbind (fd_start E again (r_cmd (request s r)) (fd_locate g block f) s) (\<lambda>f s. Ret (Inr f) s))"

fun fd_request_n :: "nat \<Rightarrow> env \<Rightarrow> fd_drv \<Rightarrow> kernel \<Rightarrow> fdres" where
  "fd_request_n 0 E f s = Hang"
| "fd_request_n (Suc n) E f s =
     (let f = f\<lparr>fd_seek := False\<rparr> in
      if fd_reset f then reset_floppy f s
      else if fd_recalibrate f then recalibrate_floppy (fd_request_n n E) f s
      else kwhile (fuel E) (fd_request_step E (fd_request_n n E)) f s)"

definition fd_request :: "env \<Rightarrow> fd_drv \<Rightarrow> kernel \<Rightarrow> fdres" where
  "fd_request = fd_request_n 2"

subsection \<open>Interrupts\<close>

text \<open>\<^verbatim>\<open>CURRENT->errors\<close>, also when the queue is empty: then \<^verbatim>\<open>bad_flp_intr\<close> reads it through the null pointer, at
  address 8 of physical memory. As in the disk driver, an increment through the null pointer, when the queue is empty from
  the start, is a store into the page directory and \<open>Fault\<close>.\<close>

definition fd_errors :: "kernel \<Rightarrow> int" where
  "fd_errors s = (case current_request (blk_dev s 2) of None \<Rightarrow> sint (phys s 8) | Some r \<Rightarrow> r_errors (request s r))"

definition bad_flp_intr :: "fd_drv \<Rightarrow> kernel \<Rightarrow> fdres" where
  "bad_flp_intr f s =
     (case current_request (blk_dev s 2) of
        None \<Rightarrow> Fault
      | Some r \<Rightarrow>
          let s = upd_req r (\<lambda>q. q\<lparr>r_errors := wrap32 (r_errors q + 1)\<rparr>) s in
          kbind (if r_errors (request s r) > FD_MAX_ERRORS then end_request 2 False (floppy_deselect s) else Ret () s) (\<lambda>_ s.
            Ret (if fd_errors s > FD_MAX_ERRORS div 2 then f\<lparr>fd_reset := True\<rparr> else f\<lparr>fd_recalibrate := True\<rparr>) s))"

text \<open>The copy out of \<^verbatim>\<open>tmp_floppy_area\<close> after a read.\<close>

definition fd_copy_in :: "fd_drv \<Rightarrow> kernel \<Rightarrow> unit kres" where
  "fd_copy_in f s =
     (case current_request (blk_dev s 2) of
        None \<Rightarrow> Fault
      | Some r \<Rightarrow>
          (case r_bh (request s r) of
             None \<Rightarrow> Fault
           | Some bh \<Rightarrow>
               let off = r_buffer (request s r) in
               if fd_command f = FD_READ \<and> unat (data_addr f bh + of_nat off) \<ge> 0x100000 then
                 (if off \<noteq> 0 then Fault
                  else Ret () (upd_buf bh (\<lambda>b. b\<lparr>b_data := (\<lambda>k. if k < BLOCK_SIZE then tmp_floppy_area f k else b_data b k)\<rparr>) s))
               else Ret () s))"

definition rw_interrupt :: "env \<Rightarrow> fd_drv \<Rightarrow> kernel \<Rightarrow> fdres" where
  "rw_interrupt E f s =
     (let (n, f) = result_bytes f in
      if n \<noteq> 7 \<or> ST0 f AND 0xf8 \<noteq> 0 \<or> ST1 f AND 0xbf \<noteq> 0 \<or> ST2 f AND 0x73 \<noteq> 0 then
        (if ST1 f AND 0x02 \<noteq> 0 then kbind (end_request 2 False (floppy_deselect s)) (\<lambda>_ s. fd_request E f s)
         else kbind (bad_flp_intr f s) (fd_request E))
      else kbind (fd_copy_in f s) (\<lambda>_ s.
        kbind (end_request 2 True (floppy_deselect s)) (\<lambda>_ s. fd_request E f s)))"

definition seek_interrupt :: "env \<Rightarrow> fd_drv \<Rightarrow> kernel \<Rightarrow> fdres" where
  "seek_interrupt E f s =
     (let (n, f) = result_bytes (output_byte FD_SENSEI f) in
      if n \<noteq> 2 \<or> ST0 f AND 0xF8 \<noteq> 0x20 \<or> ST1 f \<noteq> seek_track f then kbind (bad_flp_intr f s) (fd_request E)
      else setup_rw_floppy (fd_request E) (f\<lparr>current_track := ST1 f\<rparr>) s)"

definition recal_interrupt :: "env \<Rightarrow> fd_drv \<Rightarrow> kernel \<Rightarrow> fdres" where
  "recal_interrupt E f s =
     (let (n, f) = result_bytes (output_byte FD_SENSEI f) in
      fd_request E (if n \<noteq> 2 \<or> ST0 f AND 0xE0 = 0x60 then f\<lparr>fd_reset := True\<rparr> else f\<lparr>fd_recalibrate := False\<rparr>) s)"

definition unexpected_floppy_interrupt :: "fd_drv \<Rightarrow> fd_drv" where
  "unexpected_floppy_interrupt f =
     (let (n, f) = result_bytes (output_byte FD_SENSEI f) in
      if n \<noteq> 2 \<or> ST0 f AND 0xE0 = 0x60 then f\<lparr>fd_reset := True\<rparr> else f\<lparr>fd_recalibrate := True\<rparr>)"

definition reset_interrupt :: "env \<Rightarrow> fd_drv \<Rightarrow> kernel \<Rightarrow> fdres" where
  "reset_interrupt E f s =
     (let f = snd (result_bytes (output_byte FD_SENSEI f));
          f = output_byte 6 (output_byte (word_of_int (cur_spec1 f)) (output_byte FD_SPECIFY f)) in
      fd_request E f s)"

definition floppy_interrupt :: "env \<Rightarrow> fd_drv \<Rightarrow> kernel \<Rightarrow> fdres" where
  "floppy_interrupt E f s =
     (let f' = f\<lparr>do_floppy := None\<rparr> in
      case do_floppy f of
        None \<Rightarrow> Ret (unexpected_floppy_interrupt f') s
      | Some Rw_interrupt \<Rightarrow> rw_interrupt E f' s
      | Some Seek_interrupt \<Rightarrow> seek_interrupt E f' s
      | Some Recal_interrupt \<Rightarrow> recal_interrupt E f' s
      | Some Reset_interrupt \<Rightarrow> reset_interrupt E f' s)"

definition floppy_init :: "kernel \<Rightarrow> kernel" where
  "floppy_init s = s\<lparr>blk_dev := (blk_dev s)(2 := (blk_dev s 2)\<lparr>request_fn := Some Do_fd_request\<rparr>)\<rparr>"

subsection \<open>The recursion ends\<close>

text \<open>A nested call of \<^verbatim>\<open>do_fd_request\<close> happens only when the controller needs a reset, and then it goes no further: two
  arguments \<open>again\<close> that agree on such calls are the same to every routine.\<close>

definition same_on_reset :: "(fd_drv \<Rightarrow> kernel \<Rightarrow> fdres) \<Rightarrow> (fd_drv \<Rightarrow> kernel \<Rightarrow> fdres) \<Rightarrow> bool" where
  "same_on_reset a b \<longleftrightarrow> (\<forall>f s. fd_reset f \<longrightarrow> a f s = b f s)"

lemma setup_rw_floppy_cong: "same_on_reset a b \<Longrightarrow> setup_rw_floppy a = setup_rw_floppy b"
  by (auto simp: setup_rw_floppy_def same_on_reset_def Let_def fun_eq_iff intro!: kbind_cong)

lemma transfer_cong: "same_on_reset a b \<Longrightarrow> transfer a = transfer b"
  using setup_rw_floppy_cong [of a b] by (auto simp: transfer_def same_on_reset_def Let_def fun_eq_iff)

lemma floppy_on_interrupt_cong: "same_on_reset a b \<Longrightarrow> floppy_on_interrupt E a = floppy_on_interrupt E b"
  by (drule transfer_cong) (simp only: floppy_on_interrupt_def [abs_def])

lemma recalibrate_floppy_cong: "same_on_reset a b \<Longrightarrow> recalibrate_floppy a = recalibrate_floppy b"
  by (auto simp: recalibrate_floppy_def same_on_reset_def Let_def fun_eq_iff)

lemma fd_request_step_cong: "same_on_reset a b \<Longrightarrow> fd_request_step E a = fd_request_step E b"
  by (drule floppy_on_interrupt_cong [where E = E]) (simp only: fd_request_step_def [abs_def] fd_start_def [abs_def])

lemma fd_request_n_enough: "fd_request_n (Suc (Suc n)) E f s = fd_request E f s"
proof -
  have "same_on_reset (fd_request_n (Suc n) E) (fd_request_n 1 E)" by (simp add: same_on_reset_def Let_def)
  then show ?thesis
    unfolding fd_request_def numeral_2_eq_2 One_nat_def fd_request_n.simps(2) [of "Suc n"] fd_request_n.simps(2) [of "Suc 0"]
    by (simp only: recalibrate_floppy_cong fd_request_step_cong One_nat_def)
qed

lemma fd_request_unfold:
  "fd_request E f s =
     (let f = f\<lparr>fd_seek := False\<rparr> in
      if fd_reset f then reset_floppy f s
      else if fd_recalibrate f then recalibrate_floppy (fd_request E) f s
      else kwhile (fuel E) (fd_request_step E (fd_request E)) f s)"
proof -
  have e: "fd_request_n (Suc (Suc 0)) E = fd_request E" by (simp only: fd_request_def numeral_2_eq_2)
  have "fd_request E f s = fd_request_n (Suc (Suc (Suc 0))) E f s" by (simp only: fd_request_n_enough)
  then show ?thesis by (simp only: fd_request_n.simps(2) [of "Suc (Suc 0)"] e)
qed

subsection \<open>What every routine keeps\<close>

text \<open>\<open>sectors_ok\<close>: the sector numbers of requests are far enough from the end of the 32-bit range that the size check does not
  wrap around. \<open>place_ok\<close>: the driver's variables name a drive, a type and a place that a drive can have.\<close>

definition sectors_ok :: "kernel \<Rightarrow> bool" where
  "sectors_ok s \<longleftrightarrow> (\<forall>r. unat (r_sector (request s r)) + 2 < 2 ^ 32)"

definition place_ok :: "fd_drv \<Rightarrow> bool" where
  "place_ok f \<longleftrightarrow> floppy f < length floppy_type \<and> current_drive f < 4 \<and> fd_head f < 2 \<and> fd_sector f \<le> 18 \<and>
     fd_track f < 80 \<and> seek_track f < 80"

fun fd_keeps :: "fdres \<Rightarrow> bool" where
  "fd_keeps (Ret f s) \<longleftrightarrow> place_ok f \<and> sectors_ok s"
| "fd_keeps m \<longleftrightarrow> True"

definition place :: "fd_drv \<Rightarrow> nat \<times> u8 \<times> u8 \<times> u8 \<times> u8 \<times> u8" where
  "place f = (floppy f, current_drive f, fd_head f, fd_sector f, fd_track f, seek_track f)"

lemma place_ok_cong: "place f = place g \<Longrightarrow> place_ok f = place_ok g"
  by (simp add: place_def place_ok_def)

lemma place_upd [simp]:
  "place (f\<lparr>fd_recalibrate := b\<rparr>) = place f" "place (f\<lparr>fd_reset := b\<rparr>) = place f" "place (f\<lparr>fd_seek := b\<rparr>) = place f"
  "place (f\<lparr>reply_buffer := y\<rparr>) = place f" "place (f\<lparr>cur_spec1 := i\<rparr>) = place f" "place (f\<lparr>cur_rate := i\<rparr>) = place f"
  "place (f\<lparr>current_track := w\<rparr>) = place f" "place (f\<lparr>fd_command := w\<rparr>) = place f" "place (f\<lparr>do_floppy := d\<rparr>) = place f"
  "place (f\<lparr>tmp_floppy_area := y\<rparr>) = place f" "place (f\<lparr>fd_nins := n\<rparr>) = place f" "place (fd_outb bs f) = place f"
  by (simp_all add: place_def fd_outb_def)

lemma place_output_loop: "place (output_loop n b f) = place f"
  by (induction n b f rule: output_loop.induct) (simp_all add: fd_inb_def Let_def)

lemma place_output_byte [simp]: "place (output_byte b f) = place f"
  by (simp add: output_byte_def place_output_loop)

lemma place_result_loop: "place (snd (result_loop n i f)) = place f"
  by (induction n i f rule: result_loop.induct) (simp_all add: fd_inb_def Let_def)

lemma place_result_bytes [simp]: "place (snd (result_bytes f)) = place f"
  by (simp add: result_bytes_def place_result_loop)

lemma place_transfer_specify [simp]: "place (transfer_specify f) = place f"
  by (simp add: transfer_specify_def Let_def)

lemma sectors_ok_upd [simp]:
  "sectors_ok (wake_up q s) = sectors_ok s" "sectors_ok (s\<lparr>selected := b\<rparr>) = sectors_ok s" "sectors_ok (s\<lparr>current_DOR := w\<rparr>) = sectors_ok s"
  "sectors_ok (s\<lparr>mon_timer := m\<rparr>) = sectors_ok s" "sectors_ok (s\<lparr>moff_timer := m\<rparr>) = sectors_ok s"
  "sectors_ok (upd_timer i t s) = sectors_ok s" "sectors_ok (s\<lparr>next_timer := n\<rparr>) = sectors_ok s"
  "sectors_ok (upd_buf k g s) = sectors_ok s" "sectors_ok (set_current_request j c s) = sectors_ok s"
  "sectors_ok (floppy_deselect s) = sectors_ok s"
  by (simp_all add: sectors_ok_def wake_up_def upd_task_def upd_timer_def upd_buf_def set_current_request_def floppy_deselect_def Let_def)

lemma sectors_ok_upd_req: "(\<And>q. r_sector (g q) = r_sector q) \<Longrightarrow> sectors_ok (upd_req r g s) = sectors_ok s"
  by (auto simp: sectors_ok_def upd_req_def split: if_splits)

lemma sectors_end_request: "sectors_ok s \<Longrightarrow> kpred sectors_ok (end_request m u s)"
  by (auto simp: end_request_def floppy_off_def unlock_buffer_def sectors_ok_upd_req Let_def sectors_ok_def [of "_\<lparr>moff_timer := _\<rparr>"] split: option.split)

lemma sectors_ticks: "sectors_ok s \<Longrightarrow> kpred sectors_ok (ticks_to_floppy_on nr s)"
  by (simp add: ticks_to_floppy_on_def Let_def)

lemma sectors_add_timer:
  assumes "sectors_ok s" "0 < jif \<or> fn = 0"
  shows "kpred sectors_ok (add_timer E jif fn s)"
proof -
  have "kpred sectors_ok (timer_sift p t)" if "sectors_ok t" for p t
    using that by (simp add: timer_sift_def Let_def split: option.split)
  then have "kpred sectors_ok (kwhile (fuel E) timer_sift p t)" if "sectors_ok t" for p t
    using that by (intro kpred_kwhile)
  then show ?thesis using assms by (auto simp: add_timer_def Let_def split: option.split)
qed

text \<open>\<open>fd_inv h\<close>: routine \<open>h\<close> keeps both.\<close>

definition fd_inv :: "(fd_drv \<Rightarrow> kernel \<Rightarrow> fdres) \<Rightarrow> bool" where
  "fd_inv h \<longleftrightarrow> (\<forall>f s. place_ok f \<longrightarrow> sectors_ok s \<longrightarrow> fd_keeps (h f s))"

lemma fd_invI: "(\<And>f s. place_ok f \<Longrightarrow> sectors_ok s \<Longrightarrow> fd_keeps (h f s)) \<Longrightarrow> fd_inv h"
  by (simp add: fd_inv_def)

lemma fd_invD: "fd_inv h \<Longrightarrow> place f = place g \<Longrightarrow> place_ok g \<Longrightarrow> sectors_ok s \<Longrightarrow> fd_keeps (h f s)"
  using place_ok_cong [of f g] by (simp add: fd_inv_def)

lemma fd_keeps_Ret: "place f = place g \<Longrightarrow> place_ok g \<Longrightarrow> sectors_ok s \<Longrightarrow> fd_keeps (Ret f s)"
  using place_ok_cong [of f g] by simp

lemma fd_keeps_bind: "fd_keeps m \<Longrightarrow> (\<And>f s. place_ok f \<Longrightarrow> sectors_ok s \<Longrightarrow> fd_keeps (h f s)) \<Longrightarrow> fd_keeps (kbind m h)"
  by (cases m) simp_all

lemma fd_keeps_kernel: "kpred sectors_ok m \<Longrightarrow> (\<And>a s. sectors_ok s \<Longrightarrow> fd_keeps (h a s)) \<Longrightarrow> fd_keeps (kbind m h)"
  by (cases m) simp_all

lemma setup_DMA_inv: "fd_inv setup_DMA"
  by (rule fd_invI) (auto simp: setup_DMA_def Let_def place_ok_cong [OF place_upd(12)] place_ok_cong [OF place_upd(10)] split: option.split)

lemma setup_rw_floppy_inv:
  assumes "fd_inv again"
  shows "fd_inv (setup_rw_floppy again)"
proof (rule fd_invI)
  fix f s assume p: "place_ok f" "sectors_ok s"
  show "fd_keeps (setup_rw_floppy again f s)"
    unfolding setup_rw_floppy_def
  proof (rule fd_keeps_bind)
    show "fd_keeps (setup_DMA f s)" using p setup_DMA_inv by (simp add: fd_inv_def)
  next
    fix g t assume "place_ok g" "sectors_ok t"
    then show "fd_keeps (let f = g\<lparr>do_floppy := Some Rw_interrupt\<rparr>; f = output_byte (fd_command f) f;
           f = output_byte (push_bit 2 (fd_head f) OR current_drive f) f; f = output_byte (fd_track f) f;
           f = output_byte (fd_head f) f; f = output_byte (fd_sector f) f; f = output_byte 2 f;
           f = output_byte (ucast (fs_sect (floppy_type ! floppy f))) f;
           f = output_byte (fs_gap (floppy_type ! floppy f)) f; f = output_byte 0xFF f in
       if fd_reset f then again f t else Ret f t)"
      unfolding Let_def by (auto simp del: fd_keeps.simps intro!: fd_invD [OF assms, of _ g] fd_keeps_Ret [of _ g])
  qed
qed

lemma transfer_inv:
  assumes a: "fd_inv again"
  shows "fd_inv (transfer again)"
proof (rule fd_invI)
  fix f s assume "place_ok f" "sectors_ok s"
  then show "fd_keeps (transfer again f s)"
    unfolding transfer_def Let_def
    by (auto simp del: fd_keeps.simps intro!: fd_invD [OF a, of _ f] fd_invD [OF setup_rw_floppy_inv [OF a], of _ f] fd_keeps_Ret [of _ f])
qed

lemma fd_add_timer_inv:
  assumes "fd_inv run"
  shows "fd_inv (fd_add_timer E jif fn run)"
proof (rule fd_invI)
  fix f s assume p: "place_ok f" "sectors_ok s"
  show "fd_keeps (fd_add_timer E jif fn run f s)"
  proof (cases "fd_addr f fn \<noteq> 0 \<and> jif \<le> 0")
    case True
    then show ?thesis using assms p by (simp add: fd_add_timer_def fd_inv_def)
  next
    case False
    then have "kpred sectors_ok (add_timer E jif (fd_addr f fn) s)" using p by (intro sectors_add_timer) auto
    with False show ?thesis using p by (auto simp: fd_add_timer_def intro!: fd_keeps_kernel)
  qed
qed

lemma floppy_on_interrupt_inv:
  assumes "fd_inv again"
  shows "fd_inv (floppy_on_interrupt E again)"
proof (rule fd_invI)
  fix f s assume "place_ok f" "sectors_ok s"
  then show "fd_keeps (floppy_on_interrupt E again f s)"
    unfolding floppy_on_interrupt_def Let_def
    by (auto intro!: fd_invD [OF fd_add_timer_inv [OF transfer_inv [OF assms]], of _ f] fd_invD [OF transfer_inv [OF assms], of _ f])
qed

lemma recalibrate_floppy_inv:
  assumes a: "fd_inv again"
  shows "fd_inv (recalibrate_floppy again)"
proof (rule fd_invI)
  fix f s assume "place_ok f" "sectors_ok s"
  then show "fd_keeps (recalibrate_floppy again f s)"
    unfolding recalibrate_floppy_def Let_def
    by (auto simp del: fd_keeps.simps intro!: fd_invD [OF a, of _ f] fd_keeps_Ret [of _ f])
qed

lemma reset_floppy_inv: "fd_inv reset_floppy"
proof (rule fd_invI)
  fix f s assume "place_ok f" "sectors_ok s"
  then show "fd_keeps (reset_floppy f s)"
    unfolding reset_floppy_def by (intro fd_keeps_Ret [of _ f]) simp_all
qed

subsection \<open>Where a block is\<close>

lemma floppy_geometry:
  assumes "g \<in> set floppy_type" "fs_sect g \<noteq> 0"
  shows "fs_head g = 2" "9 \<le> unat (fs_sect g)" "unat (fs_sect g) \<le> 18" "0 < unat (fs_track g)"
    "unat (fs_size g) = unat (fs_track g) * 2 * unat (fs_sect g)" "unat (fs_track g) * 2 ^ fs_stretch g \<le> 80"
  using assms by (auto simp: floppy_type_def)

lemma unat_ucast8:
  fixes x :: u32
  assumes "unat x < 256"
  shows "unat (ucast x :: u8) = unat x"
  using assms by (simp add: unsigned_ucast_eq take_bit_eq_mod)

text \<open>A block inside the disk has a sector, counted from 1, a head and a track inside its geometry.\<close>

lemma floppy_place:
  fixes block :: u32
  assumes g: "g \<in> set floppy_type" "fs_sect g \<noteq> 0" and b: "unat block + 2 \<le> unat (fs_size g)"
  shows "unat (ucast (block mod fs_sect g) + 1 :: u8) = unat block mod unat (fs_sect g) + 1"
    "unat (ucast (block div fs_sect g mod fs_head g) :: u8) = unat block div unat (fs_sect g) mod 2"
    "unat (ucast (block div fs_sect g div fs_head g) :: u8) = unat block div unat (fs_sect g) div 2"
    "unat block div unat (fs_sect g) div 2 < unat (fs_track g)"
    "unat (push_bit (fs_stretch g) (ucast (block div fs_sect g div fs_head g) :: u8)) =
       unat block div unat (fs_sect g) div 2 * 2 ^ fs_stretch g"
proof -
  note geo = floppy_geometry [OF g]
  define S where "S = unat (fs_sect g)"
  have S: "0 < S" "S \<le> 18" using geo by (simp_all add: S_def)
  have two: "unat (2 :: u32) = 2" by simp
  have m: "unat (block mod fs_sect g) = unat block mod S" by (simp add: S_def unat_mod)
  have "unat block mod S < S" using S by simp
  then have l: "unat block mod S < 18" using S by linarith
  have "unat (ucast (block mod fs_sect g) :: u8) = unat block mod S" using m l by (subst unat_ucast8) simp_all
  then show "unat (ucast (block mod fs_sect g) + 1 :: u8) = unat block mod unat (fs_sect g) + 1"
    using l by (simp add: unat_word_ariths S_def)
  have h: "unat (block div fs_sect g mod fs_head g) = unat block div S mod 2" unfolding geo(1) by (simp add: unat_mod unat_div S_def)
  show "unat (ucast (block div fs_sect g mod fs_head g) :: u8) = unat block div unat (fs_sect g) mod 2"
    using h by (subst unat_ucast8) (simp_all add: S_def)
  have c: "unat (block div fs_sect g div fs_head g) = unat block div S div 2" unfolding geo(1) by (simp add: unat_div S_def)
  have "unat block < unat (fs_track g) * 2 * S" using b geo(5) by (simp add: S_def)
  then have t: "unat block div S div 2 < unat (fs_track g)" using S by (simp add: div_less_iff_less_mult ac_simps)
  then show "unat block div unat (fs_sect g) div 2 < unat (fs_track g)" by (simp add: S_def)
  have "unat (fs_track g) \<le> unat (fs_track g) * 2 ^ fs_stretch g" by simp
  then have t80: "unat (fs_track g) \<le> 80" using geo(6) by linarith
  show tr: "unat (ucast (block div fs_sect g div fs_head g) :: u8) = unat block div unat (fs_sect g) div 2"
    using c t t80 by (subst unat_ucast8) (simp_all add: S_def)
  have "unat block div S div 2 * 2 ^ fs_stretch g < unat (fs_track g) * 2 ^ fs_stretch g" using t by simp
  then have "unat block div S div 2 * 2 ^ fs_stretch g < 256" using geo(6) by linarith
  then show "unat (push_bit (fs_stretch g) (ucast (block div fs_sect g div fs_head g) :: u8)) =
       unat block div unat (fs_sect g) div 2 * 2 ^ fs_stretch g"
    using tr unfolding S_def by (simp only: unsigned_push_bit_eq) (simp add: push_bit_eq_mult take_bit_eq_mod)
qed

lemma fd_size_check:
  fixes block :: u32
  assumes "unat block + 2 < 2 ^ 32" "\<not> n < block + 2"
  shows "unat block + 2 \<le> unat n"
  using assms by (simp add: word_less_nat_alt unat_word_ariths)

lemma fd_drive_less: "fd_drive_of dev < 4"
proof -
  have "word_of_int dev AND 3 \<le> (3 :: u32)" by (rule word_and_le1)
  then have "unat (word_of_int dev AND 3 :: u32) \<le> 3" by (simp add: word_le_nat_alt)
  then show ?thesis by (simp add: fd_drive_of_def word_less_nat_alt unat_ucast8)
qed

lemma place_ok_located:
  fixes block :: u32
  assumes t: "typ < length floppy_type" and g: "g = floppy_type ! typ" "fs_sect g \<noteq> 0" and b: "unat block + 2 \<le> unat (fs_size g)"
    and f: "floppy f = typ" "current_drive f < 4" "fd_sector f = ucast (block mod fs_sect g) + 1"
      "fd_head f = ucast (block div fs_sect g mod fs_head g)" "fd_track f = ucast (block div fs_sect g div fs_head g)"
      "seek_track f = push_bit (fs_stretch g) (fd_track f)"
  shows "place_ok f"
proof -
  have gs: "g \<in> set floppy_type" using t g(1) by simp
  note p = floppy_place [OF gs g(2) b]
  note geo = floppy_geometry [OF gs g(2)]
  have "unat block mod unat (fs_sect g) < unat (fs_sect g)" using geo(2) by simp
  then have sec: "fd_sector f \<le> 18" unfolding word_le_nat_alt f(3) p(1) using geo(3) by simp
  have hd: "fd_head f < 2" unfolding word_less_nat_alt f(4) p(2) by simp
  have s: "unat (fd_track f) * 2 ^ fs_stretch g < unat (fs_track g) * 2 ^ fs_stretch g" using p(4) unfolding f(5) p(3) by simp
  then have "unat (seek_track f) < 80" using geo(6) unfolding f(5,6) p(3,5) by linarith
  then have sk: "seek_track f < 80" by (simp add: word_less_nat_alt)
  have "unat (fd_track f) \<le> unat (fd_track f) * 2 ^ fs_stretch g" by simp
  then have "unat (fd_track f) < 80" using s geo(6) by linarith
  then have "fd_track f < 80" by (simp add: word_less_nat_alt)
  then show ?thesis using t f(1,2) sec hd sk by (simp add: place_ok_def)
qed

subsection \<open>Every routine keeps the place\<close>

lemma kwhile_fd_inv:
  assumes "\<And>f s. place_ok f \<Longrightarrow> sectors_ok s \<Longrightarrow> fd_keeps (kbind (b f s) (\<lambda>r s. Ret (case_sum id id r) s))"
  shows "fd_inv (kwhile n b)"
proof (rule fd_invI)
  fix f s assume "place_ok f" "sectors_ok s"
  then show "fd_keeps (kwhile n b f s)"
  proof (induction n arbitrary: f s)
    case (Suc n)
    then show ?case using assms [of f s] by (cases "b f s") (auto split: sum.splits)
  qed simp
qed

lemma fd_start_inv:
  assumes "fd_inv again"
  shows "fd_inv (fd_start E again cmd)"
proof (rule fd_invI)
  fix f s assume p: "place_ok f" "sectors_ok s"
  have "fd_keeps (case cmd of READ \<Rightarrow> Ret (f\<lparr>fd_command := 0xE6\<rparr>) s | WRITE \<Rightarrow> Ret (f\<lparr>fd_command := 0xC5\<rparr>) s
            | _ \<Rightarrow> Panic ''do_fd_request: unknown command'' s)"
    using p place_ok_cong [OF place_upd(8)] by (simp split: rwcmd.split)
  then show "fd_keeps (fd_start E again cmd f s)"
    unfolding fd_start_def
  proof (rule fd_keeps_bind)
    fix g t assume "place_ok g" "sectors_ok t"
    then show "fd_keeps (kbind (ticks_to_floppy_on (ucast (current_drive g)) t) (\<lambda>ticks s.
         fd_add_timer E ticks Floppy_on_interrupt (floppy_on_interrupt E again) g s))"
      by (intro fd_keeps_kernel sectors_ticks fd_invD [OF fd_add_timer_inv [OF floppy_on_interrupt_inv [OF assms]] refl])
  qed
qed

lemma fd_request_step_Some:
  assumes "INIT_REQUEST 2 s = Ret (Some r) s" "g = floppy_type ! fd_type_of (r_dev (request s r))" "f' = fd_select (r_dev (request s r)) f"
  shows "fd_request_step E again f s = (if fd_type_of (r_dev (request s r)) \<ge> length floppy_type then Fault
       else if r_sector (request s r) + 2 > fs_size g then kbind (end_request 2 False s) (\<lambda>_ s. Ret (Inl f') s)
       else if fs_sect g = 0 then Fault
       else kbind (fd_start E again (r_cmd (request s r)) (fd_locate g (r_sector (request s r)) f') s) (\<lambda>f s. Ret (Inr f) s))"
  unfolding fd_request_step_def assms by (simp add: Let_def)

lemma INIT_REQUEST_same: "INIT_REQUEST m s = Ret q t \<Longrightarrow> t = s"
  by (auto simp: INIT_REQUEST_def split: option.splits if_splits)

lemma fd_request_step_inv:
  assumes a: "fd_inv again" and p: "place_ok f" "sectors_ok s"
  shows "fd_keeps (kbind (fd_request_step E again f s) (\<lambda>r s. Ret (case_sum id id r) s))"
proof (cases "INIT_REQUEST 2 s")
  case (Ret q t)
  note t = INIT_REQUEST_same [OF Ret]
  show ?thesis
  proof (cases q)
    case None
    then show ?thesis using p Ret t by (simp add: fd_request_step_def)
  next
    case (Some r)
    define dev block g f' where "dev = r_dev (request s r)" and "block = r_sector (request s r)"
      and "g = floppy_type ! fd_type_of dev" and "f' = fd_select dev f"
    note e = fd_request_step_Some [OF Ret [unfolded t Some], of g f' f E again, folded dev_def block_def, OF g_def f'_def]
    have b: "unat block + 2 < 2 ^ 32" using p(2) unfolding sectors_ok_def block_def by blast
    show ?thesis
    proof (cases "fd_type_of dev < length floppy_type \<and> \<not> fs_size g < block + 2 \<and> fs_sect g \<noteq> 0")
      case True
      have "place_ok (fd_locate g block f')"
        using True fd_size_check [OF b] fd_drive_less [of dev]
        by (intro place_ok_located [of "fd_type_of dev" g block]) (simp_all add: fd_locate_def f'_def fd_select_def g_def Let_def)
      then have "fd_keeps (fd_start E again (r_cmd (request s r)) (fd_locate g block f') s)"
        using fd_invD [OF fd_start_inv [OF a] refl] p(2) by simp
      then show ?thesis using True e by (simp add: kbind_assoc)
    next
      case False
      have "place_ok f'" if "fd_type_of dev < length floppy_type"
        using that p(1) fd_drive_less [of dev] by (simp add: f'_def fd_select_def place_ok_def)
      then have "fd_keeps (kbind (end_request 2 False s) (\<lambda>_. Ret f'))" if "fd_type_of dev < length floppy_type"
        using p(2) that by (intro fd_keeps_kernel [OF sectors_end_request]) simp_all
      then show ?thesis using False e by (auto simp: kbind_assoc)
    qed
  qed
qed (simp_all add: fd_request_step_def)

lemma fd_request_n_inv: "fd_inv (fd_request_n n E)"
proof (induction n)
  case 0
  then show ?case by (simp add: fd_inv_def)
next
  case (Suc n)
  show ?case
  proof (rule fd_invI)
    fix f s assume p: "place_ok f" "sectors_ok s"
    show "fd_keeps (fd_request_n (Suc n) E f s)"
      unfolding fd_request_n.simps(2) Let_def
      using p by (auto intro!: fd_invD [OF reset_floppy_inv, where g = f] fd_invD [OF recalibrate_floppy_inv [OF Suc.IH], where g = f]
          fd_invD [OF kwhile_fd_inv [OF fd_request_step_inv [OF Suc.IH]], where g = f])
  qed
qed

lemma fd_request_inv: "fd_inv (fd_request E)"
  unfolding fd_request_def by (rule fd_request_n_inv)

lemma bad_flp_intr_inv: "fd_inv bad_flp_intr"
proof (rule fd_invI)
  fix f s assume p: "place_ok f" "sectors_ok s"
  show "fd_keeps (bad_flp_intr f s)"
  proof (cases "current_request (blk_dev s 2)")
    case (Some r)
    let ?t = "upd_req r (\<lambda>q. q\<lparr>r_errors := wrap32 (r_errors q + 1)\<rparr>) s"
    have t: "sectors_ok ?t" using p(2) by (simp add: sectors_ok_upd_req)
    then have "kpred sectors_ok (if r_errors (request ?t r) > 8 then end_request 2 False (floppy_deselect ?t) else Ret () ?t)"
      using sectors_end_request [of "floppy_deselect ?t" 2 False] by simp
    then show ?thesis
      unfolding bad_flp_intr_def Some option.case Let_def
      using p(1) by (intro fd_keeps_kernel fd_keeps_Ret [where g = f]) simp_all
  qed (simp add: bad_flp_intr_def)
qed

lemma fd_retry_inv: "fd_inv (\<lambda>f s. kbind (bad_flp_intr f s) (fd_request E))"
  by (rule fd_invI) (auto intro!: fd_keeps_bind fd_invD [OF bad_flp_intr_inv refl] fd_invD [OF fd_request_inv refl])

lemma fd_done_inv: "fd_inv (\<lambda>f s. kbind (end_request 2 u (floppy_deselect s)) (\<lambda>_ s. fd_request E f s))"
  by (rule fd_invI) (auto intro!: fd_keeps_kernel sectors_end_request fd_invD [OF fd_request_inv refl])

lemma fd_copy_in_sectors: "sectors_ok s \<Longrightarrow> kpred sectors_ok (fd_copy_in f s)"
  by (simp add: fd_copy_in_def Let_def split: option.split)

lemma rw_interrupt_inv: "fd_inv (rw_interrupt E)"
proof (rule fd_invI)
  fix f s assume p: "place_ok f" "sectors_ok s"
  define g where "g = snd (result_bytes f)"
  have g: "place g = place f" by (simp add: g_def)
  have "fd_keeps (kbind (fd_copy_in g s) (\<lambda>_ s. kbind (end_request 2 True (floppy_deselect s)) (\<lambda>_ s. fd_request E g s)))"
    using p by (intro fd_keeps_kernel [OF fd_copy_in_sectors] fd_invD [OF fd_done_inv g])
  then show "fd_keeps (rw_interrupt E f s)"
    unfolding rw_interrupt_def case_prod_beta Let_def g_def [symmetric]
    using fd_invD [OF fd_done_inv g] fd_invD [OF fd_retry_inv g] p by simp
qed

lemma seek_interrupt_inv: "fd_inv (seek_interrupt E)"
proof (rule fd_invI)
  fix f s assume p: "place_ok f" "sectors_ok s"
  define g where "g = snd (result_bytes (output_byte 0x08 f))"
  have g: "place g = place f" "place (g\<lparr>current_track := w\<rparr>) = place f" for w by (simp_all add: g_def)
  show "fd_keeps (seek_interrupt E f s)"
    unfolding seek_interrupt_def case_prod_beta Let_def g_def [symmetric]
    using fd_invD [OF fd_retry_inv g(1)] fd_invD [OF setup_rw_floppy_inv [OF fd_request_inv] g(2)] p by simp
qed

lemma recal_interrupt_inv: "fd_inv (recal_interrupt E)"
proof (rule fd_invI)
  fix f s assume "place_ok f" "sectors_ok s"
  then show "fd_keeps (recal_interrupt E f s)"
    unfolding recal_interrupt_def case_prod_beta Let_def by (intro fd_invD [OF fd_request_inv, where g = f]) simp_all
qed

lemma reset_interrupt_inv: "fd_inv (reset_interrupt E)"
proof (rule fd_invI)
  fix f s assume "place_ok f" "sectors_ok s"
  then show "fd_keeps (reset_interrupt E f s)"
    unfolding reset_interrupt_def Let_def by (intro fd_invD [OF fd_request_inv, where g = f]) simp_all
qed

lemma place_unexpected [simp]: "place (unexpected_floppy_interrupt f) = place f"
  by (simp add: unexpected_floppy_interrupt_def case_prod_beta Let_def)

lemma floppy_interrupt_inv: "fd_inv (floppy_interrupt E)"
proof (rule fd_invI)
  fix f s assume "place_ok f" "sectors_ok s"
  then show "fd_keeps (floppy_interrupt E f s)"
    unfolding floppy_interrupt_def Let_def
    by (auto simp del: fd_keeps.simps split: option.split fd_intr.split intro!: fd_keeps_Ret [where g = f]
        fd_invD [OF rw_interrupt_inv, where g = f] fd_invD [OF seek_interrupt_inv, where g = f]
        fd_invD [OF recal_interrupt_inv, where g = f] fd_invD [OF reset_interrupt_inv, where g = f])
qed

subsection \<open>The driver as a state machine\<close>

text \<open>What can happen to the driver, in any order: the block layer starts it, the controller interrupts, one of its timers runs out, a
  task asks whether the disk was changed, or the rest of the kernel runs. The driver starts with the initial values of its
  variables.\<close>

definition fd_initial :: "fd_drv \<Rightarrow> bool" where
  "fd_initial f \<longleftrightarrow> \<not> fd_recalibrate f \<and> \<not> fd_reset f \<and> \<not> fd_seek f \<and> cur_spec1 f = -1 \<and> cur_rate f = -1 \<and> floppy f = 0 \<and>
     current_drive f = 0 \<and> fd_sector f = 0 \<and> fd_head f = 0 \<and> fd_track f = 0 \<and> seek_track f = 0 \<and> current_track f = 255 \<and>
     fd_command f = 0 \<and> do_floppy f = None"

inductive fd_step :: "env \<Rightarrow> fd_drv \<times> kernel \<Rightarrow> fd_drv \<times> kernel \<Rightarrow> bool" for E where
  started: "fd_request E f s = Ret g t \<Longrightarrow> fd_step E (f, s) (g, t)"
| interrupted: "floppy_interrupt E f s = Ret g t \<Longrightarrow> fd_step E (f, s) (g, t)"
| motor_timer: "floppy_on_interrupt E (fd_request E) f s = Ret g t \<Longrightarrow> fd_step E (f, s) (g, t)"
| select_timer: "transfer (fd_request E) f s = Ret g t \<Longrightarrow> fd_step E (f, s) (g, t)"
| asked: "fd_change E nr f s = Ret (b, g) t \<Longrightarrow> sectors_ok t \<Longrightarrow> fd_step E (f, s) (g, t)"
| elsewhere: "sectors_ok t \<Longrightarrow> fd_step E (f, s) (f, t)"

inductive_cases fd_stepE: "fd_step E (f, s) (g, t)"

inductive fd_reaches :: "env \<Rightarrow> fd_drv \<times> kernel \<Rightarrow> bool" for E where
  start: "fd_initial f \<Longrightarrow> sectors_ok s \<Longrightarrow> fd_reaches E (f, s)"
| step: "fd_reaches E c \<Longrightarrow> fd_step E c d \<Longrightarrow> fd_reaches E d"

lemma fd_change_place: "fd_change E nr f s = Ret (b, g) t \<Longrightarrow> place g = place f"
  by (auto simp: fd_change_def fd_inb_def kbind_eq_Ret_iff Let_def)

lemma fd_keeps_RetD: "fd_inv h \<Longrightarrow> h f s = Ret g t \<Longrightarrow> place_ok f \<Longrightarrow> sectors_ok s \<Longrightarrow> place_ok g \<and> sectors_ok t"
  using fd_invD [of h f f s] by simp

lemma fd_step_keeps:
  assumes "fd_step E (f, s) (g, t)" "place_ok f" "sectors_ok s"
  shows "place_ok g \<and> sectors_ok t"
  using assms
  by (cases rule: fd_stepE) (auto dest: fd_keeps_RetD [OF fd_request_inv] fd_keeps_RetD [OF floppy_interrupt_inv]
      fd_keeps_RetD [OF floppy_on_interrupt_inv [OF fd_request_inv]] fd_keeps_RetD [OF transfer_inv [OF fd_request_inv]]
      fd_change_place place_ok_cong)

lemma fd_initial_place: "fd_initial f \<Longrightarrow> place_ok f"
  by (simp add: fd_initial_def place_ok_def floppy_type_def)

lemma fd_type_of_mod: "fd_type_of dev = nat (dev mod 256 div 4)"
proof -
  have "uint (word_of_int dev AND 0xff :: u32) = take_bit 32 dev AND mask 8"
    by (simp add: unsigned_and_eq uint_word_of_int_eq mask_eq_exp_minus_1)
  also have "\<dots> = take_bit 8 (take_bit 32 dev)" by (simp only: take_bit_eq_mask)
  also have "\<dots> = dev mod 256" unfolding take_bit_take_bit by (simp add: take_bit_eq_mod)
  finally have u: "uint (word_of_int dev AND 0xff :: u32) = dev mod 256" .
  have "uint (drop_bit 2 (w :: u32)) = uint w div 4" for w
    unfolding unsigned_drop_bit_eq using unsigned_less [where 'a = int, of w] by (simp add: drop_bit_eq_div take_bit_int_eq_self)
  from this [of "word_of_int dev AND 0xff"] show ?thesis
    unfolding fd_type_of_def u by (simp only: unat_eq_nat_uint)
qed

lemma fd_request_past_table:
  assumes "INIT_REQUEST 2 s = Ret (Some r) s" "32 \<le> r_dev (request s r) mod 256" "\<not> fd_reset f" "\<not> fd_recalibrate f" "0 < fuel E"
  shows "fd_request E f s = Fault"
proof -
  have "8 \<le> r_dev (request s r) mod 256 div 4" using assms(2) by linarith
  then have "length floppy_type \<le> fd_type_of (r_dev (request s r))"
    unfolding fd_type_of_mod by (simp add: floppy_type_def nat_le_eq_zle le_nat_iff)
  then show ?thesis
    using assms by (subst fd_request_unfold) (simp add: kwhile_unfold fd_request_step_def)
qed


text \<open>A driver in its initial state whose controller is always ready, and a kernel with a request to read sector 100 of a 1.44 MB disk
  in drive 1.\<close>

definition fd0 :: fd_drv where
  "fd0 = \<lparr>fd_recalibrate = False, fd_reset = False, fd_seek = False, reply_buffer = (\<lambda>_. 0), cur_spec1 = -1, cur_rate = -1,
     floppy = 0, current_drive = 0, fd_sector = 0, fd_head = 0, fd_track = 0, seek_track = 0, current_track = 255, fd_command = 0,
     do_floppy = None, tmp_floppy_area = (\<lambda>_. 0), fd_outs = [], fd_ins = (\<lambda>_ _. 0x80), fd_nins = 0, data_addr = (\<lambda>i. 0x80000 + of_nat (1024 * i)),
     tmp_floppy_addr = 0x5000, fd_addr = (\<lambda>_. 0x6000)\<rparr>"

definition fd_kernel :: kernel where
  "fd_kernel = k0\<lparr>bufs := (\<lambda>i. (bufs k0 i)\<lparr>b_lock := True\<rparr>),
     request := (\<lambda>_. \<lparr>r_dev = 0x21D, r_cmd = READ, r_errors = 0, r_sector = 100, r_nr_sectors = 2, r_buffer = 0, r_bh = Some 0, r_next = None\<rparr>),
     blk_dev := (\<lambda>_. \<lparr>request_fn = Some Do_fd_request, current_request = Some 3\<rparr>)\<rparr>"


subsection \<open>A read command\<close>

lemma DOR_unchanged:
  fixes w :: u8
  assumes "d < 4" "bit w (4 + d)" "w AND 3 = of_nat d"
  shows "push_bit d 0x10 OR w = w" "(w AND 0xFC) OR of_nat d = w"
proof -
  have p: "bit (push_bit d 0x10 :: u8) k \<Longrightarrow> k = 4 + d" for k
    using bit_exp_iff [where 'a = "8 word", of 4 "k - d"] by (auto simp: bit_push_bit_iff)
  show "push_bit d 0x10 OR w = w" 
    by (rule bit_word_eqI) (use p assms(2) in \<open>auto simp: bit_or_iff\<close>)
  have "(w AND 0xFC) OR (w AND 3) = w AND (0xFC OR 3)" by (simp only: bit.conj_disj_distrib)
  moreover have "(0xFC OR 3 :: u8) = -1" by simp
  ultimately show "(w AND 0xFC) OR of_nat d = w" using assms(3) by (simp only: and.right_neutral)
qed

lemma ticks_running:
  assumes d: "d < 4" "bit (current_DOR s) (4 + d)" "current_DOR s AND 3 = of_nat d" "mon_timer s d = 0"
  shows "ticks_to_floppy_on (of_nat d) s = Ret 0 (s\<lparr>moff_timer := (moff_timer s)(d := 10000)\<rparr>)"
proof -
  have u: "unat (of_nat d :: u32) = d" using d(1) by (intro unat_of_nat32) simp
  then have "\<not> (of_nat d :: u32) > 3" using d(1) by (simp add: word_less_nat_alt)
  moreover have "ucast (of_nat d :: u32) = (of_nat d :: u8)"
    using u of_nat_unat [of "of_nat d :: u32", where ?'a = "8 word"] by simp
  ultimately show ?thesis
    using u d(4) DOR_unchanged [OF d(1-3)] unfolding ticks_to_floppy_on_def by (simp add: Let_def)
qed

lemma output_byte_ready:
  assumes "\<not> fd_reset f" "fd_ins f 0x3f4 (fd_nins f) AND 0xC0 = 0x80"
  shows "output_byte b f = f\<lparr>fd_nins := fd_nins f + 1, fd_outs := fd_outs f @ [(0x3f5, b)]\<rparr>"
  using assms by (simp add: output_byte_def numeral_eq_Suc fd_inb_def fd_outb_def)

lemma output_bytes_ready:
  assumes "\<not> fd_reset f" "\<forall>k<length bs. fd_ins f 0x3f4 (fd_nins f + k) AND 0xC0 = 0x80"
  shows "fold output_byte bs f = f\<lparr>fd_nins := fd_nins f + length bs, fd_outs := fd_outs f @ map (Pair 0x3f5) bs\<rparr>"
  using assms
proof (induction bs arbitrary: f)
  case (Cons b bs)
  have "output_byte b f = f\<lparr>fd_nins := fd_nins f + 1, fd_outs := fd_outs f @ [(0x3f5, b)]\<rparr>"
    using Cons.prems(1) Cons.prems(2) [rule_format, of 0] by (intro output_byte_ready) simp_all
  moreover have "\<forall>k<length bs. fd_ins f 0x3f4 (fd_nins f + 1 + k) AND 0xC0 = 0x80"
    using Cons.prems(2) by (metis Suc_less_eq add.assoc length_Cons plus_1_eq_Suc)
  ultimately show ?case using Cons.prems(1) Cons.IH [of "output_byte b f"] by simp
qed simp

lemma output_loop_command: "fd_command (output_loop n b f) = fd_command f"
  by (induction n b f rule: output_loop.induct) (simp_all add: fd_inb_def fd_outb_def Let_def)

lemma output_byte_fields [simp]:
  "fd_command (output_byte b f) = fd_command f" "fd_head (output_byte b f) = fd_head f" "fd_track (output_byte b f) = fd_track f"
  "fd_sector (output_byte b f) = fd_sector f" "floppy (output_byte b f) = floppy f" "current_drive (output_byte b f) = current_drive f"
  using place_output_byte [of b f] by (simp_all add: place_def output_byte_def output_loop_command)

definition rw_bytes :: "fd_drv \<Rightarrow> u8 list" where
  "rw_bytes f = [fd_command f, push_bit 2 (fd_head f) OR current_drive f, fd_track f, fd_head f, fd_sector f, 2,
     ucast (fs_sect (floppy_type ! floppy f)), fs_gap (floppy_type ! floppy f), 0xFF]"

definition dma_bytes :: "u8 \<Rightarrow> u32 \<Rightarrow> (nat \<times> u8) list" where
  "dma_bytes mode addr = [(10, 6), (12, mode), (11, mode), (4, ucast addr), (4, ucast (drop_bit 8 addr)),
     (0x81, ucast (drop_bit 16 addr)), (5, 0xff), (5, 3), (10, 2)]"

lemma setup_rw_ready:
  assumes r: "current_request (blk_dev s 2) = Some r" "r_bh (request s r) = Some bh" "r_buffer (request s r) = 0"
    and f: "fd_command f = 0xE6" "\<not> fd_reset f" "\<forall>k<9. fd_ins f 0x3f4 (fd_nins f + k) AND 0xC0 = 0x80"
  shows "\<exists>g. setup_rw_floppy again f s = Ret g s \<and> do_floppy g = Some Rw_interrupt \<and>
    fd_outs g = fd_outs f @ dma_bytes 0x46 (if sint (data_addr f bh) \<ge> 0x100000 then tmp_floppy_addr f else data_addr f bh) @
      map (Pair 0x3f5) (rw_bytes f)"
proof -
  define f1 where "f1 = fd_outb (dma_bytes 0x46 (if sint (data_addr f bh) \<ge> 0x100000 then tmp_floppy_addr f else data_addr f bh)) f"
  define f2 where "f2 = f1\<lparr>do_floppy := Some Rw_interrupt\<rparr>"
  have d: "setup_DMA f s = Ret f1 s" using r f(1) by (simp add: setup_DMA_def f1_def dma_bytes_def Let_def)
  have "\<forall>k<length (rw_bytes f). fd_ins f2 0x3f4 (fd_nins f2 + k) AND 0xC0 = 0x80"
    using f(3) by (simp add: f2_def f1_def fd_outb_def rw_bytes_def)
  from output_bytes_ready [OF _ this] have o: "fold output_byte (rw_bytes f) f2 =
      f2\<lparr>fd_nins := fd_nins f2 + 9, fd_outs := fd_outs f2 @ map (Pair 0x3f5) (rw_bytes f)\<rparr>"
    using f(2) by (simp add: f2_def f1_def fd_outb_def rw_bytes_def)
  have fb: "fd_command f2 = fd_command f" "fd_head f2 = fd_head f" "fd_track f2 = fd_track f" "fd_sector f2 = fd_sector f"
    "floppy f2 = floppy f" "current_drive f2 = current_drive f" by (simp_all add: f2_def f1_def fd_outb_def)
  have "setup_rw_floppy again f s = (let g = fold output_byte (rw_bytes f) f2 in if fd_reset g then again g s else Ret g s)"
    unfolding setup_rw_floppy_def d kbind.simps f2_def [symmetric] by (simp add: rw_bytes_def Let_def fb)
  then show ?thesis using f(2) unfolding o by (simp add: f2_def f1_def fd_outb_def)
qed

lemma fd_dev:
  assumes "ty < 64" "d < 4"
  shows "fd_type_of (int (0x200 + 4 * ty + d)) = ty" "fd_drive_of (int (0x200 + 4 * ty + d)) = of_nat d"
    "dev_major (int (0x200 + 4 * ty + d)) = 2"
proof -
  let ?n = "0x200 + 4 * ty + d"
  have u: "unat (of_nat ?n :: u32) = ?n" using assms by (intro unat_of_nat32) simp
  have m: "(0xff :: u32) = mask 8" "(3 :: u32) = mask 2" by (simp_all add: mask_eq_exp_minus_1)
  have "unat (of_nat ?n AND 0xff :: u32) = ?n mod 256" "unat (of_nat ?n AND 3 :: u32) = ?n mod 4"
    using u unfolding m by (simp_all only: take_bit_eq_mask [symmetric] unsigned_take_bit_eq) (simp_all add: take_bit_eq_mod)
  moreover have "(4 * ty + d + 2 * 256) mod 256 = 4 * ty + d" using assms by (simp only: mod_mult_self1) simp
  moreover have "(d + (128 + ty) * 4) mod 4 = d" using assms by (simp only: mod_mult_self1) simp
  moreover have "?n = 4 * ty + d + 2 * 256" "?n = d + (128 + ty) * 4" by simp_all
  ultimately have b: "unat (of_nat ?n AND 0xff :: u32) = 4 * ty + d" "unat (of_nat ?n AND 3 :: u32) = d" by metis+
  show "fd_type_of (int ?n) = ty" unfolding fd_type_of_def of_int_of_nat_eq unat_drop_bit32 b using assms by simp
  note ucast_d = of_nat_unat [of "of_nat ?n AND 3 :: u32", where ?'a = "8 word", unfolded b]
  show "fd_drive_of (int ?n) = of_nat d" unfolding fd_drive_of_def of_int_of_nat_eq ucast_d ..
  show "dev_major (int ?n) = 2" unfolding dev_major_def of_int_of_nat_eq unat_drop_bit32 u using assms by simp
qed

text \<open>The drive \<open>d\<close> is selected and its motor runs.\<close>

definition motor_on :: "nat \<Rightarrow> kernel \<Rightarrow> bool" where
  "motor_on d s \<longleftrightarrow> d < 4 \<and> bit (current_DOR s) (4 + d) \<and> current_DOR s AND 3 = of_nat d \<and> mon_timer s d = 0"

text \<open>The driver has nothing to reset, its controller is set up for type \<open>ty\<close>, and the head of drive \<open>d\<close> is over \<open>trk\<close>.\<close>

definition fd_idle :: "nat \<Rightarrow> nat \<Rightarrow> nat \<Rightarrow> fd_drv \<Rightarrow> bool" where
  "fd_idle ty d trk f \<longleftrightarrow> \<not> fd_reset f \<and> \<not> fd_recalibrate f \<and> cur_spec1 f = uint (fs_spec1 (floppy_type ! ty)) \<and>
     cur_rate f = uint (fs_rate (floppy_type ! ty)) \<and> current_drive f = of_nat d \<and> unat (current_track f) = trk \<and>
     fd_addr f Floppy_on_interrupt \<noteq> 0"

lemma fd_start_running:
  assumes m: "motor_on d s" and f: "current_drive f = of_nat d" "fd_addr f Floppy_on_interrupt \<noteq> 0" "\<not> fd_reset f" "\<not> fd_seek f"
    "cur_spec1 f = uint (fs_spec1 (floppy_type ! floppy f))" "cur_rate f = uint (fs_rate (floppy_type ! floppy f))"
  shows "fd_start E again READ f s = setup_rw_floppy again (f\<lparr>fd_command := 0xE6\<rparr>)
    (s\<lparr>moff_timer := (moff_timer s)(d := 10000), selected := True\<rparr>)"
proof -
  have d: "d < 4" using m by (simp add: motor_on_def)
  have "ucast (of_nat d :: u8) = (of_nat d :: u32)"
    using d by (intro word_unat_eq_iff [THEN iffD2]) (simp add: unsigned_ucast_eq take_bit_eq_mod unsigned_of_nat)
  then show ?thesis
    using m f ticks_running [of d s]
    by (simp add: fd_start_def motor_on_def fd_add_timer_def floppy_on_interrupt_def transfer_def transfer_specify_def Let_def)
qed

lemma floppy_type_length [simp]: "length floppy_type = 8"
  by (simp add: floppy_type_def)

lemma floppy_type_sects:
  assumes "0 < ty" "ty < 8"
  shows "fs_sect (floppy_type ! ty) \<noteq> 0"
proof -
  have "ty = 1 \<or> ty = 2 \<or> ty = 3 \<or> ty = 4 \<or> ty = 5 \<or> ty = 6 \<or> ty = 7" using assms by auto
  then show ?thesis by (elim disjE) (simp_all add: floppy_type_def)
qed

lemma head_drive_byte:
  assumes "h < 2" "d < 4"
  shows "push_bit 2 (of_nat h :: u8) OR of_nat d = of_nat (4 * h + d)"
proof -
  have "h = 0 \<or> h = 1" "d = 0 \<or> d = 1 \<or> d = 2 \<or> d = 3" using assms by auto
  then show ?thesis by (elim disjE) simp_all
qed

text \<open>A request whose block is inside the disk and under the head: the selection and the place do not ask for a seek.\<close>

lemma fd_locate_here:
  fixes block :: u32
  assumes g: "g \<in> set floppy_type" "fs_sect g \<noteq> 0" "unat block + 2 \<le> unat (fs_size g)"
    and t: "unat (current_track f) = unat block div unat (fs_sect g) div 2 * 2 ^ fs_stretch g" "\<not> fd_seek f"
  shows "\<not> fd_seek (fd_locate g block f)"
proof -
  have "push_bit (fs_stretch g) (ucast (block div fs_sect g div fs_head g)) = current_track f"
    by (rule word_unat_eq_iff [THEN iffD2]) (simp only: floppy_place [OF g] t)
  then show ?thesis using t(2) by (simp add: fd_locate_def Let_def)
qed

lemma fd_request_once:
  assumes "\<not> fd_reset f" "\<not> fd_recalibrate f" "0 < fuel E" "INIT_REQUEST 2 s = Ret (Some r) s"
    "fd_type_of (r_dev (request s r)) < length floppy_type" "g = floppy_type ! fd_type_of (r_dev (request s r))" "fs_sect g \<noteq> 0"
    "unat (r_sector (request s r)) + 2 \<le> unat (fs_size g)"
  shows "fd_request E f s = fd_start E (fd_request E) (r_cmd (request s r))
    (fd_locate g (r_sector (request s r)) (fd_select (r_dev (request s r)) (f\<lparr>fd_seek := False\<rparr>))) s"
proof -
  have "unat (fs_size g) < 2 ^ 32" using unsigned_less [of "fs_size g"] by simp
  then have "unat (r_sector (request s r) + 2) = unat (r_sector (request s r)) + 2" using assms(8) by (simp add: unat_word_ariths)
  then have "\<not> fs_size g < r_sector (request s r) + 2" using assms(8) by (simp add: word_less_nat_alt)
  then have "fd_request_step E (fd_request E) (f\<lparr>fd_seek := False\<rparr>) s = kbind (fd_start E (fd_request E) (r_cmd (request s r))
    (fd_locate g (r_sector (request s r)) (fd_select (r_dev (request s r)) (f\<lparr>fd_seek := False\<rparr>))) s) (\<lambda>f s. Ret (Inr f) s)"
    using assms(5,7) by (simp add: fd_request_step_Some [OF assms(4,6) refl])
  then show ?thesis using assms(1-3) by (subst fd_request_unfold) (simp add: kwhile_unfold kbind_assoc)
qed

lemma floppy_read_starts:
  assumes r: "current_request (blk_dev s 2) = Some r" "r_dev (request s r) = int (0x200 + 4 * ty + d)" "r_cmd (request s r) = READ"
      "r_bh (request s r) = Some bh" "b_lock (bufs s bh)"
    and ty: "0 < ty" "ty < 8" and g: "g = floppy_type ! ty"
    and inside: "unat (r_sector (request s r)) + 2 \<le> unat (fs_size g)" and m: "motor_on d s"
    and idle: "fd_idle ty d (unat (r_sector (request s r)) div unat (fs_sect g) div 2 * 2 ^ fs_stretch g) f" and fu: "0 < fuel E"
  shows "fd_request E f s = setup_rw_floppy (fd_request E)
      ((fd_locate g (r_sector (request s r)) (f\<lparr>floppy := ty, fd_seek := False, current_drive := of_nat d\<rparr>))\<lparr>fd_command := 0xE6\<rparr>)
      (s\<lparr>moff_timer := (moff_timer s)(d := 10000), selected := True\<rparr>)"
proof -
  define block where "block = r_sector (request s r)"
  have d: "d < 4" using m by (simp add: motor_on_def)
  have gs: "g \<in> set floppy_type" using ty g by simp
  have sect: "fs_sect g \<noteq> 0" using floppy_type_sects [OF ty] g by simp
  have dev: "fd_type_of (r_dev (request s r)) = ty" "fd_drive_of (r_dev (request s r)) = of_nat d" "dev_major (r_dev (request s r)) = 2"
    using fd_dev [of ty d] ty d by (simp_all only: r(2))
  have "INIT_REQUEST 2 s = Ret (Some r) s" using r(1,4,5) dev(3) by (simp add: INIT_REQUEST_def)
  note once = fd_request_once [OF _ _ fu this _ _ sect inside, unfolded dev r(3), OF _ _ _ g, of f, folded block_def]
  have i: "fd_idle ty d (unat block div unat (fs_sect g) div 2 * 2 ^ fs_stretch g) f" using idle by (simp only: block_def)
  have sel: "fd_select (r_dev (request s r)) (f\<lparr>fd_seek := False\<rparr>) = f\<lparr>floppy := ty, fd_seek := False, current_drive := of_nat d\<rparr>"
    using i by (simp add: fd_select_def dev fd_idle_def)
  have "\<not> fd_seek (fd_locate g block (f\<lparr>floppy := ty, fd_seek := False, current_drive := of_nat d\<rparr>))"
    using i by (intro fd_locate_here [OF gs sect inside [folded block_def]]) (simp_all add: fd_idle_def)
  then show ?thesis
    unfolding block_def [symmetric] using i ty g
    by (subst once) (simp_all add: fd_idle_def sel fd_start_running [OF m] fd_locate_def Let_def)
qed

text \<open>C31: With the motor running and the head over the right track, a request to read a block of a floppy disk makes the driver program the
  DMA chip for 1024 bytes, at the buffer's address or, for a buffer beyond the first megabyte, at that of
  \<^verbatim>\<open>tmp_floppy_area\<close>, and send the controller exactly one read command. Its track, head and sector (counted from 1) are within the
  geometry of the disk's type and together name the sector asked for. The next interrupt goes to \<^verbatim>\<open>rw_interrupt\<close>.\<close>

theorem floppy_read_command:
  assumes r: "current_request (blk_dev s 2) = Some r" "r_dev (request s r) = int (0x200 + 4 * ty + d)" "r_cmd (request s r) = READ"
      "r_bh (request s r) = Some bh" "r_buffer (request s r) = 0" "b_lock (bufs s bh)"
    and ty: "0 < ty" "ty < 8" and g: "g = floppy_type ! ty"
    and inside: "unat (r_sector (request s r)) + 2 \<le> unat (fs_size g)" and m: "motor_on d s"
    and idle: "fd_idle ty d (unat (r_sector (request s r)) div unat (fs_sect g) div 2 * 2 ^ fs_stretch g) f"
    and ready: "\<forall>k<9. fd_ins f 0x3f4 (fd_nins f + k) AND 0xC0 = 0x80" and fu: "0 < fuel E"
  shows "\<exists>f' s' sec head trk. fd_request E f s = Ret f' s' \<and> do_floppy f' = Some Rw_interrupt \<and>
    fd_outs f' = fd_outs f @
      dma_bytes 0x46 (if sint (data_addr f bh) \<ge> 0x100000 then tmp_floppy_addr f else data_addr f bh) @
      map (Pair 0x3f5) [0xE6, of_nat (4 * head + d), of_nat trk, of_nat head, of_nat sec, 2, ucast (fs_sect g), fs_gap g, 0xFF] \<and>
    1 \<le> sec \<and> sec \<le> unat (fs_sect g) \<and> head < 2 \<and> trk < unat (fs_track g) \<and>
    (trk * 2 + head) * unat (fs_sect g) + (sec - 1) = unat (r_sector (request s r))"
proof -
  define f1 where "f1 = (fd_locate g (r_sector (request s r)) (f\<lparr>floppy := ty, fd_seek := False, current_drive := of_nat d\<rparr>))\<lparr>fd_command := 0xE6\<rparr>"
  define s1 where "s1 = s\<lparr>moff_timer := (moff_timer s)(d := 10000), selected := True\<rparr>"
  have gs: "g \<in> set floppy_type" and sect: "fs_sect g \<noteq> 0" and d: "d < 4"
    using ty floppy_type_sects [OF ty] g m by (simp_all add: motor_on_def)
  note p = floppy_place [OF gs sect inside] and geo = floppy_geometry [OF gs sect]
  have run: "fd_request E f s = setup_rw_floppy (fd_request E) f1 s1"
    unfolding f1_def s1_def by (rule floppy_read_starts [OF r(1-4,6) ty g inside m idle fu])
  have "fd_command f1 = 0xE6" "\<not> fd_reset f1" "\<forall>k<9. fd_ins f1 0x3f4 (fd_nins f1 + k) AND 0xC0 = 0x80"
    using idle ready by (simp_all add: f1_def fd_locate_def fd_idle_def Let_def)
  moreover have "current_request (blk_dev s1 2) = Some r" "r_bh (request s1 r) = Some bh" "r_buffer (request s1 r) = 0"
    using r by (simp_all add: s1_def)
  ultimately obtain f' where f': "fd_request E f s = Ret f' s1" "do_floppy f' = Some Rw_interrupt"
    "fd_outs f' = fd_outs f1 @ dma_bytes 0x46 (if sint (data_addr f1 bh) \<ge> 0x100000 then tmp_floppy_addr f1 else data_addr f1 bh) @
      map (Pair 0x3f5) (rw_bytes f1)"
    unfolding run using setup_rw_ready [of s1 r bh f1] by blast
  define sec head trk where "sec = unat (fd_sector f1)" and "head = unat (fd_head f1)" and "trk = unat (fd_track f1)"
  have n: "sec = unat (r_sector (request s r)) mod unat (fs_sect g) + 1" "head = unat (r_sector (request s r)) div unat (fs_sect g) mod 2"
    "trk = unat (r_sector (request s r)) div unat (fs_sect g) div 2"
    unfolding sec_def head_def trk_def using p by (simp_all add: f1_def fd_locate_def Let_def)
  have h: "head < 2" using n by simp
  have ff: "fd_outs f1 = fd_outs f" "data_addr f1 = data_addr f" "tmp_floppy_addr f1 = tmp_floppy_addr f"
    by (simp_all add: f1_def fd_locate_def Let_def)
  have bytes: "rw_bytes f1 = [0xE6, of_nat (4 * head + d), of_nat trk, of_nat head, of_nat sec, 2, ucast (fs_sect g), fs_gap g, 0xFF]"
    unfolding head_drive_byte [OF h d, symmetric]
    by (simp add: rw_bytes_def sec_def head_def trk_def) (simp add: f1_def fd_locate_def Let_def g)
  have "unat (r_sector (request s r)) mod unat (fs_sect g) < unat (fs_sect g)" using geo(2) by simp
  then have "1 \<le> sec" "sec \<le> unat (fs_sect g)" unfolding n by simp_all
  moreover have "trk < unat (fs_track g)" using p(4) n by simp
  moreover have "(trk * 2 + head) * unat (fs_sect g) + (sec - 1) = unat (r_sector (request s r))" unfolding n by simp
  ultimately show ?thesis using f'(1,2) f'(3) [unfolded ff bytes] h by blast
qed

theorem floppy_read_command_witness:
  "\<exists>f s. fd_request (quiet_env 1) (fd0\<lparr>cur_spec1 := 0xCF, cur_rate := 0, current_drive := 1, current_track := 2\<rparr>)
      (fd_kernel\<lparr>current_DOR := 0x2D\<rparr>) = Ret f s \<and>
    fd_outs f = dma_bytes 0x46 0x80000 @ map (Pair 0x3f5) [0xE6, 5, 2, 1, 11, 2, 18, 0x1B, 0xFF]"
proof -
  let ?f = "fd0\<lparr>cur_spec1 := 0xCF, cur_rate := 0, current_drive := 1, current_track := 2\<rparr>"
  let ?s = "fd_kernel\<lparr>current_DOR := 0x2D\<rparr>"
  let ?g = "floppy_type ! 7"
  have r: "current_request (blk_dev ?s 2) = Some 3" "r_dev (request ?s 3) = int (0x200 + 4 * 7 + 1)" "r_cmd (request ?s 3) = READ"
      "r_bh (request ?s 3) = Some 0" "r_buffer (request ?s 3) = 0" "b_lock (bufs ?s 0)"
    and inside: "unat (r_sector (request ?s 3)) + 2 \<le> unat (fs_size ?g)"
    and m: "motor_on 1 ?s" and fu: "0 < fuel (quiet_env 1)"
    and idle: "fd_idle 7 1 (unat (r_sector (request ?s 3)) div unat (fs_sect ?g) div 2 * 2 ^ fs_stretch ?g) ?f"
    and ready: "\<forall>k<9. fd_ins ?f 0x3f4 (fd_nins ?f + k) AND 0xC0 = 0x80"
    by (simp_all add: fd_kernel_def fd0_def floppy_type_def motor_on_def k0_def quiet_env_def fd_idle_def)
  from floppy_read_command [OF r _ _ refl inside m idle ready fu] obtain f' s' sec head trk where
    f': "fd_request (quiet_env 1) ?f ?s = Ret f' s'"
    "fd_outs f' = fd_outs ?f @ dma_bytes 0x46 (if sint (data_addr ?f 0) \<ge> 0x100000 then tmp_floppy_addr ?f else data_addr ?f 0) @
      map (Pair 0x3f5) [0xE6, of_nat (4 * head + 1), of_nat trk, of_nat head, of_nat sec, 2, ucast (fs_sect ?g), fs_gap ?g, 0xFF]"
    and n: "1 \<le> sec" "sec \<le> unat (fs_sect ?g)" "head < 2" "trk < unat (fs_track ?g)"
      "(trk * 2 + head) * unat (fs_sect ?g) + (sec - 1) = unat (r_sector (request ?s 3))" by auto
  have "sec \<le> 18" "(trk * 2 + head) * 18 + (sec - 1) = 100" using n by (simp_all add: floppy_type_def fd_kernel_def)
  then have "trk = 2" "head = 1" "sec = 11" using n(1,3) by presburger+
  then show ?thesis using f' by (simp add: fd0_def floppy_type_def)
qed

end
