(* ===== verification/Segment.thy ===== *)
theory Segment
  imports Sched
begin

text \<open>
  Segment descriptors (the macros at the end of include/linux/sched.h) and \<^verbatim>\<open>verify_area\<close> of
  kernel/fork.c, which makes a range of user memory writable before the kernel writes to it.
\<close>

definition set_base :: "u32 \<Rightarrow> desc_struct \<Rightarrow> desc_struct" where
  "set_base base d =
     \<lparr>desc_a = (desc_a d AND 0xffff) OR push_bit 16 (base AND 0xffff),
      desc_b = (desc_b d AND 0x00ffff00) OR (drop_bit 16 base AND 0xff) OR (base AND 0xff000000)\<rparr>"

definition get_base :: "desc_struct \<Rightarrow> u32" where
  "get_base d =
     drop_bit 16 (desc_a d) OR push_bit 16 (desc_b d AND 0xff) OR (desc_b d AND 0xff000000)"

text \<open>\<^verbatim>\<open>set_limit\<close> stores the limit in pages less one.\<close>

definition set_limit :: "u32 \<Rightarrow> desc_struct \<Rightarrow> desc_struct" where
  "set_limit limit d =
     (let l = drop_bit 12 (limit - 1) in
      \<lparr>desc_a = (desc_a d AND 0xffff0000) OR (l AND 0xffff),
       desc_b = (desc_b d AND 0xfff0ffff) OR (l AND 0xff0000)\<rparr>)"

text \<open>\<^verbatim>\<open>get_limit\<close> loads the limit in bytes of the segment with the processor and adds one; with the
  granularity bit set the descriptor counts pages.\<close>

definition get_limit :: "desc_struct \<Rightarrow> u32" where
  "get_limit d =
     (let l = (desc_a d AND 0xffff) OR (desc_b d AND 0xf0000) in
      (if bit (desc_b d) 23 then push_bit 12 l OR 0xfff else l) + 1)"

definition cur_limit :: "nat \<Rightarrow> kernel \<Rightarrow> u32" where
  "cur_limit sel s = get_limit (t_ldt (cur s) (sel div 8))"

text \<open>The rounds of the loop of \<^verbatim>\<open>verify_area\<close>: one per page, \<open>\<lceil>size / 4096\<rceil>\<close> of them when \<open>size\<close> is positive.\<close>

definition verify_area :: "u32 \<Rightarrow> int \<Rightarrow> kernel \<Rightarrow> unit kres" where
  "verify_area addr sz s =
     (let sz = wrap32 (sz + uint (addr AND 0xfff));
          start = (addr AND PAGE_MASK) + get_base (t_ldt (cur s) 2) in
      kfor (\<lambda>k _ s. write_verify (start + 4096 * of_nat k) s) [0..<nat ((sz + 4095) div 4096)] () s)"

subsection \<open>Descriptors\<close>

text \<open>The masks of the macros as ranges of bits.\<close>

lemma desc_masks:
  "(0xff :: u32) = mask 8" "(0xffff :: u32) = mask 16" "(0x00ffff00 :: u32) = push_bit 8 (mask 16)"
  "(0xff000000 :: u32) = push_bit 24 (mask 8)" "(0xffff0000 :: u32) = push_bit 16 (mask 16)"
  "(0xfff0ffff :: u32) = push_bit 20 (mask 12) OR mask 16" "(0xff0000 :: u32) = push_bit 16 (mask 8)"
  "(0xf0000 :: u32) = push_bit 16 (mask 4)" "(0xfff :: u32) = mask 12"
  by (simp_all add: mask_eq_exp_minus_1)

lemma bits32:
  fixes a b :: u32
  assumes "list_all (\<lambda>n. bit a n = bit b n) [0, 1, 2, 3, 4, 5, 6, 7, 8, 9, 10, 11, 12, 13, 14, 15,
     16, 17, 18, 19, 20, 21, 22, 23, 24, 25, 26, 27, 28, 29, 30, 31]"
  shows "a = b"
proof (rule bit_word_eqI)
  have "[0..<32] = [0, 1, 2, 3, 4, 5, 6, 7, 8, 9, 10, 11, 12, 13, 14, 15,
     16, 17, 18, 19, 20, 21, 22, 23, 24, 25, 26, 27, 28, 29, 30, 31]" by code_simp
  moreover fix n
  assume "n < LENGTH(32)"
  then have "n \<in> set [0..<32]" by simp
  ultimately show "bit a n = bit b n" using assms unfolding list_all_iff by metis
qed

lemma bit32_high: "32 \<le> n \<Longrightarrow> \<not> bit (a :: u32) n"
  using bit_imp_le_length [of a n] by auto

text \<open>The base address and the limit of a segment descriptor can be read back: \<^verbatim>\<open>get_base\<close> after \<^verbatim>\<open>set_base\<close>
  gives the base, whatever was in the descriptor, neither disturbs the other, and in a descriptor that
  counts pages \<^verbatim>\<open>get_limit\<close> after \<^verbatim>\<open>set_limit\<close> gives the limit rounded up to a page.\<close>

theorem get_set_descriptor:
  "get_base (set_base b d) = b \<and> get_limit (set_base b d) = get_limit d \<and>
   get_base (set_limit l d) = get_base d \<and>
   (bit (desc_b d) 23 \<longrightarrow> get_limit (set_limit l d) = ((l - 1) OR 0xfff) + 1)"
proof (intro conjI impI)
  show "get_base (set_base b d) = b"
    unfolding get_base_def set_base_def desc_masks desc_struct.simps
    by (rule bits32) (simp add: bit_simps bit32_high)
  show "get_base (set_limit l d) = get_base d"
    unfolding get_base_def set_limit_def desc_masks desc_struct.simps Let_def
    by (rule bits32) (simp add: bit_simps bit32_high)
  have b: "bit (desc_b (set_base b d)) 23 = bit (desc_b d) 23" 
    unfolding set_base_def desc_masks desc_struct.simps by (simp add: bit_simps)
  have "(desc_a (set_base b d) AND 0xffff) OR (desc_b (set_base b d) AND 0xf0000) =
      (desc_a d AND 0xffff) OR (desc_b d AND 0xf0000)"
    unfolding set_base_def desc_masks desc_struct.simps by (rule bits32) (simp add: bit_simps bit32_high)
  then show "get_limit (set_base b d) = get_limit d" by (simp add: get_limit_def b)
  assume g: "bit (desc_b d) 23"
  have h: "bit (desc_b (set_limit l d)) 23" 
    using g unfolding set_limit_def desc_masks desc_struct.simps Let_def by (simp add: bit_simps)
  have "push_bit 12 ((desc_a (set_limit l d) AND 0xffff) OR (desc_b (set_limit l d) AND 0xf0000)) OR 0xfff =
      (l - 1) OR 0xfff"
    unfolding set_limit_def desc_masks desc_struct.simps Let_def by (rule bits32) (simp add: bit_simps bit32_high)
  with h show "get_limit (set_limit l d) = ((l - 1) OR 0xfff) + 1"
    by (simp add: get_limit_def)
qed

theorem get_set_descriptor_witness:
  "get_limit (set_limit 0xa0001 \<lparr>desc_a = 0x9f, desc_b = 0xc0fa00\<rparr>) = 0xa1000"
proof -
  have "bit (desc_b \<lparr>desc_a = 0x9f, desc_b = 0xc0fa00\<rparr>) 23" by simp
  then show ?thesis using get_set_descriptor [of 0 "\<lparr>desc_a = 0x9f, desc_b = 0xc0fa00\<rparr>" "0xa0001"] by simp
qed

subsection \<open>What the memory manager leaves alone\<close>

definition mm_only :: "kernel \<Rightarrow> kernel \<Rightarrow> bool" where
  "mm_only s t \<longleftrightarrow> (\<exists>m p. t = s\<lparr>mem_map := m, phys := p\<rparr>)"

lemma mm_only_refl [simp]: "mm_only s s"
proof -
  have "s = s\<lparr>mem_map := mem_map s, phys := phys s\<rparr>" by simp
  then show ?thesis unfolding mm_only_def by blast
qed

lemma mm_only_upd:
  assumes "mm_only s t"
  shows "mm_only s (t\<lparr>phys := f\<rparr>)" "mm_only s (t\<lparr>mem_map := g\<rparr>)"
proof -
  obtain m p where t: "t = s\<lparr>mem_map := m, phys := p\<rparr>" using assms by (auto simp: mm_only_def)
  have "t\<lparr>phys := f\<rparr> = s\<lparr>mem_map := m, phys := f\<rparr>" "t\<lparr>mem_map := g\<rparr> = s\<lparr>mem_map := g, phys := p\<rparr>"
    by (simp_all add: t)
  then show "mm_only s (t\<lparr>phys := f\<rparr>)" "mm_only s (t\<lparr>mem_map := g\<rparr>)" unfolding mm_only_def by blast+
qed

lemma mm_only_ops [kpred_intro]:
  "mm_only s t \<Longrightarrow> mm_only s (set_phys a v t)" "mm_only s t \<Longrightarrow> mm_only s (set_map n c t)"
  "mm_only s t \<Longrightarrow> mm_only s (clear_page p t)" "mm_only s t \<Longrightarrow> mm_only s (copy_page p q t)"
  "mm_only s t \<Longrightarrow> mm_only s (snd (get_free_page t))"
  by (auto simp: set_phys_def set_map_def clear_page_def copy_page_def get_free_page_def
      intro!: mm_only_upd split: option.split)

lemma mm_only_get_free_page: "mm_only s t \<Longrightarrow> get_free_page t = (p, u) \<Longrightarrow> mm_only s u"
  using mm_only_ops(5) [of s t] by simp

lemma mm_only_sel:
  "mm_only s t \<Longrightarrow> tstruct t = tstruct s" "mm_only s t \<Longrightarrow> current t = current s"
  "mm_only s t \<Longrightarrow> umem t = umem s" "mm_only s t \<Longrightarrow> task t = task s" "mm_only s t \<Longrightarrow> last_pid t = last_pid s"
  "mm_only s t \<Longrightarrow> HIGH_MEMORY t = HIGH_MEMORY s" "mm_only s t \<Longrightarrow> file_table t = file_table s"
  "mm_only s t \<Longrightarrow> inode_table t = inode_table s" "mm_only s t \<Longrightarrow> cur t = cur s"
  by (auto simp: mm_only_def cur_def)

lemma mm_only_free_page [kpred_intro]: "mm_only s t \<Longrightarrow> kpred (mm_only s) (free_page a t)"
  by (simp add: free_page_def Let_def mm_only_ops)

lemma mm_only_free_page_tables [kpred_intro]: "mm_only s t \<Longrightarrow> kpred (mm_only s) (free_page_tables a n t)"
  by (simp add: free_page_tables_def free_dir_entry_def free_pte_def Let_def kpred_intro)

lemma mm_only_copy_pte [kpred_intro]: "mm_only s t \<Longrightarrow> kpred (mm_only s) (copy_pte a b t)"
  by (simp add: copy_pte_def Let_def mm_only_ops)

lemma mm_only_copy_dir_entry [kpred_intro]: "mm_only s t \<Longrightarrow> kpred (mm_only s) (copy_dir_entry f a b t)"
  by (auto simp: copy_dir_entry_def Let_def split: prod.split
      intro!: kpred_intro mm_only_ops dest: mm_only_get_free_page)

lemma mm_only_copy_page_tables [kpred_intro]: "mm_only s t \<Longrightarrow> kpred (mm_only s) (copy_page_tables a b n t)"
  by (auto simp: copy_page_tables_def Let_def intro!: kpred_intro)

lemma mm_only_write_verify [kpred_intro]: "mm_only s t \<Longrightarrow> kpred (mm_only s) (write_verify a t)"
  by (auto simp: write_verify_def un_wp_page_def oom_def Let_def split: prod.split
      intro!: kpred_intro mm_only_ops dest: mm_only_get_free_page)

lemma mm_only_verify_area: "kpred (mm_only s) (verify_area a n s)"
  by (auto simp: verify_area_def Let_def intro!: kpred_intro)

end
