(* ===== verification/Tty.thy ===== *)
theory Tty
  imports Segment
begin

text \<open>
  kernel/chr_drv/tty_io.c and the queue macros of include/linux/tty.h: the terminals' line discipline.
  A terminal is its index in \<^verbatim>\<open>tty_table\<close>; its driver's \<^verbatim>\<open>write\<close> routine is a parameter of the
  environment. A \<^verbatim>\<open>signed char\<close> is an \<open>int\<close>.
\<close>

subsection \<open>Queues\<close>

definition inc_index :: "u32 \<Rightarrow> u32" where "inc_index a = (a + 1) AND 1023"
definition dec_index :: "u32 \<Rightarrow> u32" where "dec_index a = (a - 1) AND 1023"

definition EMPTY :: "tty_queue \<Rightarrow> bool" where "EMPTY q \<longleftrightarrow> q_head q = q_tail q"
definition LEFT :: "tty_queue \<Rightarrow> u32" where "LEFT q = (q_tail q - q_head q - 1) AND 1023"
definition LAST :: "tty_queue \<Rightarrow> u8" where "LAST q = q_buf q (unat (1023 AND (q_head q - 1)))"
definition FULL :: "tty_queue \<Rightarrow> bool" where "FULL q \<longleftrightarrow> LEFT q = 0"
definition CHARS :: "tty_queue \<Rightarrow> u32" where "CHARS q = (q_head q - q_tail q) AND 1023"

definition GETCH :: "tty_queue \<Rightarrow> u8 \<times> tty_queue" where
  "GETCH q = (q_buf q (unat (q_tail q)), q\<lparr>q_tail := inc_index (q_tail q)\<rparr>)"

definition PUTCH :: "u8 \<Rightarrow> tty_queue \<Rightarrow> tty_queue" where
  "PUTCH c q = q\<lparr>q_buf := (q_buf q)(unat (q_head q) := c), q_head := inc_index (q_head q)\<rparr>"

definition upd_tty :: "nat \<Rightarrow> (tty_struct \<Rightarrow> tty_struct) \<Rightarrow> kernel \<Rightarrow> kernel" where
  "upd_tty n f s = s\<lparr>tty_table := (tty_table s)(n := f (tty_table s n))\<rparr>"

definition put_write_q :: "nat \<Rightarrow> u8 \<Rightarrow> kernel \<Rightarrow> kernel" where
  "put_write_q n c s = upd_tty n (\<lambda>t. t\<lparr>write_q := PUTCH c (write_q t)\<rparr>) s"

subsection \<open>Flags and control characters\<close>

abbreviation (input) "L_FLAG t f \<equiv> c_lflag (tty_termios t) AND f \<noteq> 0"
abbreviation (input) "I_FLAG t f \<equiv> c_iflag (tty_termios t) AND f \<noteq> 0"
abbreviation (input) "O_FLAG t f \<equiv> c_oflag (tty_termios t) AND f \<noteq> 0"
abbreviation (input) "L_ISIG t \<equiv> L_FLAG t 1"
abbreviation (input) "L_CANON t \<equiv> L_FLAG t 2"
abbreviation (input) "L_ECHO t \<equiv> L_FLAG t 8"
abbreviation (input) "L_ECHOCTL t \<equiv> L_FLAG t 0x200"
abbreviation (input) "I_NLCR t \<equiv> I_FLAG t 0x40"
abbreviation (input) "I_NOCR t \<equiv> I_FLAG t 0x80"
abbreviation (input) "I_CRNL t \<equiv> I_FLAG t 0x100"
abbreviation (input) "I_UCLC t \<equiv> I_FLAG t 0x200"
abbreviation (input) "O_POST t \<equiv> O_FLAG t 1"
abbreviation (input) "O_LCUC t \<equiv> O_FLAG t 2"
abbreviation (input) "O_NLCR t \<equiv> O_FLAG t 4"
abbreviation (input) "O_CRNL t \<equiv> O_FLAG t 8"
abbreviation (input) "O_NLRET t \<equiv> O_FLAG t 0x20"

definition cc_char :: "nat \<Rightarrow> tty_struct \<Rightarrow> int" where
  "cc_char k t = uint (c_cc (tty_termios t) k)"

abbreviation (input) "INTR_CHAR t \<equiv> cc_char 0 t"
abbreviation (input) "QUIT_CHAR t \<equiv> cc_char 1 t"
abbreviation (input) "ERASE_CHAR t \<equiv> cc_char 2 t"
abbreviation (input) "KILL_CHAR t \<equiv> cc_char 3 t"
abbreviation (input) "EOF_CHAR t \<equiv> cc_char 4 t"
abbreviation (input) "VTIME_CHAR t \<equiv> cc_char 5 t"
abbreviation (input) "VMIN_CHAR t \<equiv> cc_char 6 t"
abbreviation (input) "START_CHAR t \<equiv> cc_char 8 t"
abbreviation (input) "STOP_CHAR t \<equiv> cc_char 9 t"

text \<open>\<^verbatim>\<open>tolower\<close> and \<^verbatim>\<open>toupper\<close> index the table \<^verbatim>\<open>_ctype\<close> with a signed character; below -1 the index
  is outside it.\<close>

definition tolower_c :: "int \<Rightarrow> kernel \<Rightarrow> int kres" where
  "tolower_c c s = (if c < -1 then Fault else Ret (if 65 \<le> c \<and> c \<le> 90 then c + 32 else c) s)"

definition toupper_c :: "int \<Rightarrow> kernel \<Rightarrow> int kres" where
  "toupper_c c s = (if c < -1 then Fault else Ret (if 97 \<le> c \<and> c \<le> 122 then c - 32 else c) s)"

subsection \<open>Signals and sleeping\<close>

definition tty_intr :: "nat \<Rightarrow> u32 \<Rightarrow> kernel \<Rightarrow> kernel" where
  "tty_intr n msk s =
     (if tty_pgrp (tty_table s n) \<le> 0 then s
      else fold (\<lambda>i s. if task s i \<noteq> 0 \<and> t_pgrp (tstruct s (task s i)) = tty_pgrp (tty_table s n)
                       then upd_task (task s i) (\<lambda>p. p\<lparr>t_signal := t_signal p OR msk\<rparr>) s else s)
             [0..<NR_TASKS] s)"

definition sleep_if_empty :: "env \<Rightarrow> nat \<Rightarrow> kernel \<Rightarrow> unit kres" where
  "sleep_if_empty E n s =
     kloop (fuel E) (\<lambda>s. if t_signal (cur s) = 0 \<and> EMPTY (secondary (tty_table s n))
       then kbind (interruptible_sleep_on E (Secondary_list n) s) (\<lambda>_ s. Ret None s)
       else Ret (Some ()) s) s"

definition sleep_if_full :: "env \<Rightarrow> nat \<Rightarrow> kernel \<Rightarrow> unit kres" where
  "sleep_if_full E n s =
     (if \<not> FULL (write_q (tty_table s n)) then Ret () s
      else kloop (fuel E) (\<lambda>s. if t_signal (cur s) = 0 \<and> LEFT (write_q (tty_table s n)) < 128
        then kbind (interruptible_sleep_on E (Write_list n) s) (\<lambda>_ s. Ret None s)
        else Ret (Some ()) s) s)"

definition wait_for_keypress :: "env \<Rightarrow> kernel \<Rightarrow> unit kres" where
  "wait_for_keypress E s = sleep_if_empty E 0 s"

subsection \<open>Cooked input\<close>

text \<open>Is the character before the head of the secondary queue one that line editing may take back?
  The result is the character.\<close>

definition last_erasable :: "nat \<Rightarrow> kernel \<Rightarrow> int option" where
  "last_erasable n s =
     (let t = tty_table s n; q = secondary t in
      if EMPTY q then None
      else let c = sint (LAST q) in if c = 10 \<or> c = EOF_CHAR t then None else Some c)"

text \<open>Take back one character: echo the erasure and move the head.\<close>

definition erase_last :: "env \<Rightarrow> nat \<Rightarrow> int \<Rightarrow> kernel \<Rightarrow> kernel" where
  "erase_last E n c s =
     (let s = (if L_ECHO (tty_table s n)
               then let s = (if c < 32 then put_write_q n 127 s else s) in tty_drv E n (put_write_q n 127 s)
               else s) in
      upd_tty n (\<lambda>t. t\<lparr>secondary := (secondary t)\<lparr>q_head := dec_index (q_head (secondary t))\<rparr>\<rparr>) s)"

definition kill_line :: "env \<Rightarrow> nat \<Rightarrow> kernel \<Rightarrow> unit kres" where
  "kill_line E n s =
     kloop (fuel E) (\<lambda>s. case last_erasable n s of
         None \<Rightarrow> Ret (Some ()) s
       | Some c \<Rightarrow> Ret None (erase_last E n c s)) s"

definition echo_char :: "env \<Rightarrow> nat \<Rightarrow> int \<Rightarrow> kernel \<Rightarrow> kernel" where
  "echo_char E n c s =
     (let s = (if c = 10 then put_write_q n 13 (put_write_q n 10 s)
               else if c < 32 then
                 (if L_ECHOCTL (tty_table s n)
                  then put_write_q n (word_of_int (c + 64)) (put_write_q n 94 s) else s)
               else put_write_q n (word_of_int c) s) in
      tty_drv E n s)"

text \<open>One character in cooked mode, after the translation of carriage returns and case.\<close>

definition cook_char :: "env \<Rightarrow> nat \<Rightarrow> int \<Rightarrow> kernel \<Rightarrow> unit kres" where
  "cook_char E n c s =
     (let t = tty_table s n in
      if L_CANON t \<and> c = KILL_CHAR t then kill_line E n s
      else if L_CANON t \<and> c = ERASE_CHAR t then
        Ret () (case last_erasable n s of None \<Rightarrow> s | Some d \<Rightarrow> erase_last E n d s)
      else if L_CANON t \<and> c = STOP_CHAR t then Ret () (upd_tty n (\<lambda>t. t\<lparr>tty_stopped := True\<rparr>) s)
      else if L_CANON t \<and> c = START_CHAR t then Ret () (upd_tty n (\<lambda>t. t\<lparr>tty_stopped := False\<rparr>) s)
      else if L_ISIG t \<and> c = INTR_CHAR t then Ret () (tty_intr n (sigbit 2) s)
      else if L_ISIG t \<and> c = QUIT_CHAR t then Ret () (tty_intr n (sigbit 3) s)
      else let s = (if c = 10 \<or> c = EOF_CHAR t
                    then upd_tty n (\<lambda>t. t\<lparr>secondary := (secondary t)\<lparr>q_data := q_data (secondary t) + 1\<rparr>\<rparr>) s
                    else s);
               s = (if L_ECHO (tty_table s n) then echo_char E n c s else s) in
        Ret () (upd_tty n (\<lambda>t. t\<lparr>secondary := PUTCH (word_of_int c) (secondary t)\<rparr>) s))"

definition copy_to_cooked :: "env \<Rightarrow> nat \<Rightarrow> kernel \<Rightarrow> unit kres" where
  "copy_to_cooked E n s =
     kbind (kloop (fuel E) (\<lambda>s.
       if EMPTY (read_q (tty_table s n)) \<or> FULL (secondary (tty_table s n)) then Ret (Some ()) s
       else let (ch, q) = GETCH (read_q (tty_table s n));
                s = upd_tty n (\<lambda>t. t\<lparr>read_q := q\<rparr>) s;
                t = tty_table s n;
                c = sint ch in
         if c = 13 \<and> \<not> I_CRNL t \<and> I_NOCR t then Ret None s
         else let c = (if c = 13 then (if I_CRNL t then 10 else 13)
                       else if c = 10 \<and> I_NLCR t then 13 else c) in
           kbind (if I_UCLC t then tolower_c c s else Ret c s) (\<lambda>c s.
           kbind (cook_char E n c s) (\<lambda>_ s. Ret None s))) s)
       (\<lambda>_ s. Ret () (wake_up (Secondary_list n) s))"

definition do_tty_interrupt :: "env \<Rightarrow> nat \<Rightarrow> kernel \<Rightarrow> unit kres" where
  "do_tty_interrupt E tty s = (if tty > 2 then Fault else copy_to_cooked E tty s)"

subsection \<open>Reading and writing\<close>

text \<open>The \<^verbatim>\<open>do ... while\<close> loop of \<^verbatim>\<open>tty_read\<close>: \<open>k\<close> characters are at \<open>buf\<close> already and \<open>nr\<close> are still wanted.
  It leaves with the characters delivered, the number still wanted, and whether an end of file ends
  the call.\<close>

definition tty_take_step :: "nat \<Rightarrow> u32 \<Rightarrow> nat \<times> int \<Rightarrow> kernel \<Rightarrow> (kernel, nat \<times> int + nat \<times> int \<times> bool) outcome" where
  "tty_take_step n buf = (\<lambda>(k, nr) s.
     let (ch, q) = GETCH (secondary (tty_table s n));
         s = upd_tty n (\<lambda>t. t\<lparr>secondary := q\<rparr>) s;
         c = sint ch;
         t = tty_table s n;
         s = (if c = EOF_CHAR t \<or> c = 10
              then upd_tty n (\<lambda>t. t\<lparr>secondary := (secondary t)\<lparr>q_data := q_data (secondary t) - 1\<rparr>\<rparr>) s
              else s) in
     if c = EOF_CHAR t \<and> L_CANON t then Ret (Inr (k, nr, True)) s
     else let s = put_fs_byte ch (buf + of_nat k) s in
       if nr - 1 > 0 \<and> \<not> EMPTY (secondary (tty_table s n)) then Ret (Inl (k + 1, nr - 1)) s
       else Ret (Inr (k + 1, nr - 1, False)) s)"

text \<open>One round of the outer loop: \<open>k\<close> and \<open>nr\<close> as above, \<open>flag\<close> says whether the timer is ours. The
  result of the loop is the number of characters and whether to return it at once.\<close>

definition tty_read_step ::
  "env \<Rightarrow> nat \<Rightarrow> u32 \<Rightarrow> int \<Rightarrow> int \<Rightarrow> int \<Rightarrow> nat \<times> int \<times> bool \<Rightarrow> kernel \<Rightarrow>
   (kernel, nat \<times> int \<times> bool + nat \<times> bool) outcome" where
  "tty_read_step E n buf oldalarm time minimum = (\<lambda>(k, nr, flag) s.
     if \<not> nr > 0 then Ret (Inr (k, False)) s
     else if flag \<and> t_signal (cur s) AND sigbit SIGALRM \<noteq> 0
     then Ret (Inr (k, False)) (upd_cur (\<lambda>p. p\<lparr>t_signal := t_signal p AND NOT (sigbit SIGALRM)\<rparr>) s)
     else if t_signal (cur s) \<noteq> 0 then Ret (Inr (k, False)) s
     else let t = tty_table s n in
       if EMPTY (secondary t) \<or> L_CANON t \<and> q_data (secondary t) = 0 \<and> LEFT (secondary t) > 20
       then kbind (sleep_if_empty E n s) (\<lambda>_ s. Ret (Inl (k, nr, flag)) s)
       else kbind (kwhile (fuel E) (tty_take_step n buf) (k, nr) s) (\<lambda>(k, nr, eof) s.
         if eof then Ret (Inr (k, True)) s
         else let t = tty_table s n;
                  timed = (time \<noteq> 0 \<and> \<not> L_CANON t);
                  flag = (if timed then oldalarm = 0 \<or> wrap32 (time + jiffies s) < oldalarm else flag);
                  s = (if timed
                       then upd_cur (\<lambda>p. p\<lparr>t_alarm := if flag then wrap32 (time + jiffies s) else oldalarm\<rparr>) s
                       else s) in
           if L_CANON t then (if k \<noteq> 0 then Ret (Inr (k, False)) s else Ret (Inl (k, nr, flag)) s)
           else if int k \<ge> minimum then Ret (Inr (k, False)) s
           else Ret (Inl (k, nr, flag)) s))"

definition tty_read :: "env \<Rightarrow> nat \<Rightarrow> u32 \<Rightarrow> int \<Rightarrow> kernel \<Rightarrow> int kres" where
  "tty_read E channel buf nr s =
     (if channel > 2 \<or> nr < 0 then Ret (-1) s
      else let t = tty_table s channel;
               oldalarm = t_alarm (cur s);
               time = 10 * VTIME_CHAR t;
               minimum = VMIN_CHAR t;
               timer = (time \<noteq> 0 \<and> minimum = 0);
               flag = (timer \<and> (oldalarm = 0 \<or> wrap32 (time + jiffies s) < oldalarm));
               minimum = (if timer then 1 else minimum);
               s = (if flag then upd_cur (\<lambda>p. p\<lparr>t_alarm := wrap32 (time + jiffies s)\<rparr>) s else s);
               minimum = (if minimum > nr then nr else minimum) in
        kbind (kwhile (fuel E) (tty_read_step E channel buf oldalarm time minimum) (0, nr, flag) s)
          (\<lambda>(k, at_once) s.
            if at_once then Ret (int k) s
            else let s = upd_cur (\<lambda>p. p\<lparr>t_alarm := oldalarm\<rparr>) s in
              if t_signal (cur s) \<noteq> 0 \<and> k = 0 then Ret (- EINTR) s else Ret (int k) s))"

text \<open>The inner loop of \<^verbatim>\<open>tty_write\<close>: \<open>b\<close> is the address of the next character, \<open>nr\<close> how many are left.\<close>

definition tty_put_step :: "nat \<Rightarrow> u32 \<times> int \<Rightarrow> kernel \<Rightarrow> (kernel, u32 \<times> int + u32 \<times> int) outcome" where
  "tty_put_step n = (\<lambda>(b, nr) s.
     if \<not> (nr > 0 \<and> \<not> FULL (write_q (tty_table s n))) then Ret (Inr (b, nr)) s
     else let t = tty_table s n;
              c = sint (get_fs_byte b s) in
       if O_POST t then
         let c = (if c = 13 \<and> O_CRNL t then 10 else if c = 10 \<and> O_NLRET t then 13 else c) in
         if c = 10 \<and> \<not> cr_flag s \<and> O_NLCR t
         then Ret (Inl (b, nr)) (put_write_q n 13 (s\<lparr>cr_flag := True\<rparr>))
         else kbind (if O_LCUC t then toupper_c c s else Ret c s) (\<lambda>c s.
           Ret (Inl (b + 1, nr - 1)) (put_write_q n (word_of_int c) (s\<lparr>cr_flag := False\<rparr>)))
       else Ret (Inl (b + 1, nr - 1)) (put_write_q n (word_of_int c) (s\<lparr>cr_flag := False\<rparr>)))"

definition tty_write :: "env \<Rightarrow> nat \<Rightarrow> u32 \<Rightarrow> int \<Rightarrow> kernel \<Rightarrow> int kres" where
  "tty_write E channel buf nr s =
     (if channel > 2 \<or> nr < 0 then Ret (-1) s
      else kbind (kwhile (fuel E) (\<lambda>(b, nr) s.
          if \<not> nr > 0 then Ret (Inr b) s
          else kbind (sleep_if_full E channel s) (\<lambda>_ s.
            if t_signal (cur s) \<noteq> 0 then Ret (Inr b) s
            else kbind (kwhile (fuel E) (tty_put_step channel) (b, nr) s) (\<lambda>(b, nr) s.
              let s = tty_drv E channel s in
              kbind (if nr > 0 then schedule E s else Ret () s) (\<lambda>_ s. Ret (Inl (b, nr)) s))))
          (buf, nr) s) (\<lambda>b s. Ret (sint (b - buf)) s))"

text \<open>The terminals as they are initialised: the console cooks its lines, the serial lines are raw.\<close>

definition INIT_C_CC :: "nat \<Rightarrow> u8" where
  "INIT_C_CC k = (if k < 17 then [3, 28, 127, 21, 4, 0, 1, 0, 17, 19, 26, 0, 18, 15, 23, 22, 0] ! k else 0)"

definition init_tty_table :: "nat \<Rightarrow> tty_struct" where
  "init_tty_table n =
     (let q = (\<lambda>d. zero_queue\<lparr>q_data := d\<rparr>) in
      if n = 0 then \<lparr>tty_termios = \<lparr>c_iflag = 0x100, c_oflag = 5, c_cflag = 0, c_lflag = 0xa0b,
            c_line = 0, c_cc = INIT_C_CC\<rparr>, tty_pgrp = 0, tty_stopped = False,
            read_q = q 0, write_q = q 0, secondary = q 0\<rparr>
      else \<lparr>tty_termios = \<lparr>c_iflag = 0, c_oflag = 0, c_cflag = 0x3b, c_lflag = 0, c_line = 0,
            c_cc = INIT_C_CC\<rparr>, tty_pgrp = 0, tty_stopped = False,
            read_q = q (if n = 1 then 0x3f8 else 0x2f8), write_q = q (if n = 1 then 0x3f8 else 0x2f8),
            secondary = q 0\<rparr>)"

subsection \<open>The queues as lists\<close>

definition q_ok :: "tty_queue \<Rightarrow> bool" where
  "q_ok q \<longleftrightarrow> q_head q < 1024 \<and> q_tail q < 1024"

definition q_items :: "tty_queue \<Rightarrow> u8 list" where
  "q_items q = map (\<lambda>k. q_buf q ((unat (q_tail q) + k) mod 1024)) [0..<unat (CHARS q)]"

lemma unat_and_1023: "unat ((w :: u32) AND 1023) = unat w mod 1024"
proof -
  have "(1023 :: u32) = mask 10" by (simp add: mask_eq_exp_minus_1)
  then have "w AND 1023 = take_bit 10 w" by (simp only: take_bit_eq_mask)
  then show ?thesis by (simp add: unsigned_take_bit_eq take_bit_eq_mod unat_mod)
qed

lemma unat_sub_1024:
  assumes "(a :: u32) < 1024" "b < 1024"
  shows "unat (a - b) mod 1024 = (if b \<le> a then unat a - unat b else 1024 + unat a - unat b)"
proof -
  have l: "unat a < 1024" "unat b < 1024" using assms by (simp_all add: word_less_nat_alt)
  show ?thesis
  proof (cases "b \<le> a")
    case True
    then show ?thesis using l by (simp add: unat_sub)
  next
    case False
    then have "unat a < unat b" by (simp add: word_le_nat_alt)
    moreover have "unat (a - b) = 2 ^ 32 + unat a - unat b"
      using False by (simp add: unat_sub_if' word_le_nat_alt)
    moreover have "(4294967296 + unat a - unat b) mod 1024 = 1024 + unat a - unat b"
      if "unat a < unat b"
    proof -
      have "4294967296 + unat a - unat b = (1024 + unat a - unat b) + 1024 * 4194303" using l that by simp
      then show ?thesis using l that by (simp only: mod_mult_self2) simp
    qed
    ultimately show ?thesis using False by simp
  qed
qed

lemma chars_value:
  assumes "q_ok q"
  shows "unat (CHARS q) = (if q_tail q \<le> q_head q then unat (q_head q) - unat (q_tail q)
     else 1024 + unat (q_head q) - unat (q_tail q))"
  using assms unat_sub_1024 [of "q_head q" "q_tail q"] by (simp add: CHARS_def q_ok_def unat_and_1023)

lemma unat_inc_index: "a < 1024 \<Longrightarrow> unat (inc_index a) = (if unat a = 1023 then 0 else Suc (unat a))"
proof -
  assume "a < 1024"
  then have l: "unat a < 1024" by (simp add: word_less_nat_alt)
  then have "unat (a + 1) = Suc (unat a)" by (simp add: unat_word_ariths)
  then show ?thesis using l by (simp add: inc_index_def unat_and_1023)
qed

lemma inc_index_less: "inc_index a < 1024"
  by (simp add: inc_index_def word_less_nat_alt unat_and_1023)

lemma length_q_items: "length (q_items q) = unat (CHARS q)"
  by (simp add: q_items_def)

lemma ring_distance:
  fixes h t k :: nat
  assumes "k < (if t \<le> h then h - t else 1024 + h - t)" "h < 1024" "t < 1024"
  shows "(t + k) mod 1024 \<noteq> h"
proof -
  have "t + k < 2048" using assms by (auto split: if_splits)
  then have "(t + k) mod 1024 = (if t + k < 1024 then t + k else t + k - 1024)" by (simp add: mod_if)
  then show ?thesis using assms by (auto split: if_splits)
qed

interpretation ttyq: fifo q_items PUTCH GETCH q_ok 1023
proof
  fix q :: tty_queue and a :: u8
  assume ok: "q_ok q" 
  have l: "unat (q_head q) < 1024" "unat (q_tail q) < 1024"
    using ok by (auto simp: q_ok_def word_less_nat_alt)
  note cv = chars_value [OF ok] 
  {
    assume sp: "length (q_items q) < 1023"
    let ?q = "PUTCH a q"
    show ok': "q_ok ?q" using ok by (simp add: q_ok_def PUTCH_def inc_index_less)
    have "unat (CHARS ?q) = Suc (unat (CHARS q))"
      using l sp ok unfolding chars_value [OF ok'] length_q_items cv
      by (auto simp: PUTCH_def unat_inc_index q_ok_def word_le_nat_alt split: if_splits)
    moreover have "(unat (q_tail q) + k) mod 1024 \<noteq> unat (q_head q)" if "k < unat (CHARS q)" for k
      using that l unfolding cv word_le_nat_alt by (rule ring_distance)
    moreover have "(unat (q_tail q) + unat (CHARS q)) mod 1024 = unat (q_head q)"
      using l unfolding cv by (auto simp: word_le_nat_alt)
    ultimately show "q_items ?q = q_items q @ [a]" by (simp add: q_items_def PUTCH_def)
  }
  {
    assume ne: "q_items q \<noteq> []"
    let ?q = "snd (GETCH q)"
    show ok': "q_ok ?q" using ok by (simp add: q_ok_def GETCH_def inc_index_less)
    have "0 < unat (CHARS q)" using ne by (simp add: q_items_def)
    then have c: "unat (CHARS q) = Suc (unat (CHARS ?q))"
      using l ok unfolding chars_value [OF ok'] cv
      by (auto simp: GETCH_def unat_inc_index q_ok_def word_le_nat_alt split: if_splits)
    have m: "(unat (inc_index (q_tail q)) + k) mod 1024 = (unat (q_tail q) + Suc k) mod 1024" for k
      using ok l by (auto simp: unat_inc_index q_ok_def)
    have u: "[0..<Suc n] = 0 # map Suc [0..<n]" for n by (simp add: upt_conv_Cons map_Suc_upt del: upt_Suc)
    have "q_items q = q_buf q (unat (q_tail q)) #
        map (\<lambda>k. q_buf q ((unat (q_tail q) + Suc k) mod 1024)) [0..<unat (CHARS ?q)]"
      unfolding q_items_def c u using l by (simp add: comp_def)
    moreover have "q_items ?q = map (\<lambda>k. q_buf q ((unat (q_tail q) + Suc k) mod 1024)) [0..<unat (CHARS ?q)]"
      using m by (simp add: q_items_def GETCH_def)
    moreover have "fst (GETCH q) = q_buf q (unat (q_tail q))" by (simp add: GETCH_def)
    ultimately show "fst (GETCH q) = hd (q_items q) \<and> q_items ?q = tl (q_items q)" by simp
  }
qed

lemma unat_not_mod_1024: "unat (NOT (y :: u32)) mod 1024 = 1023 - unat y mod 1024"
proof -
  have "unat y < 2 ^ 32" using unsigned_less [of y] by simp
  moreover have "unat (-1 - y) = unat (-1 :: u32) - unat y" by (rule unat_sub) simp
  moreover have "unat (-1 :: u32) = 4294967295" by (simp add: unsigned_minus_1_eq_mask mask_eq_exp_minus_1)
  moreover have "NOT y = -1 - y" by (simp add: not_eq_complement)
  moreover have "(4294967295 - n) mod 1024 = 1023 - n mod 1024" if "n < 4294967296" for n :: nat
  proof -
    define q r where "q = n div 1024" and "r = n mod 1024"
    then have n: "n = 1024 * q + r" "r < 1024" by simp_all
    then have "4294967295 - n = (1023 - r) + 1024 * (4194303 - q)" using that by simp
    then have "(4294967295 - n) mod 1024 = (1023 - r) mod 1024" by (simp only: mod_mult_self2)
    then show ?thesis unfolding r_def by simp
  qed
  ultimately show ?thesis by simp
qed

lemma q_tests:
  assumes "q_ok q"
  shows "EMPTY q \<longleftrightarrow> q_items q = []" "FULL q \<longleftrightarrow> length (q_items q) = 1023"
    "unat (LEFT q) = 1023 - length (q_items q)"
proof -
  have l: "unat (q_head q) < 1024" "unat (q_tail q) < 1024"
    using assms by (auto simp: q_ok_def word_less_nat_alt)
  note cv = chars_value [OF assms]
  have "EMPTY q \<longleftrightarrow> unat (CHARS q) = 0"
    using l unfolding cv by (auto simp: EMPTY_def word_le_nat_alt word_unat_eq_iff)
  then show "EMPTY q \<longleftrightarrow> q_items q = []" by (simp add: q_items_def)
  have "q_tail q - q_head q - 1 = NOT (q_head q - q_tail q)" by (simp add: not_eq_complement)
  then have "unat (LEFT q) = unat (NOT (q_head q - q_tail q)) mod 1024" by (simp add: LEFT_def unat_and_1023)
  also have "\<dots> = 1023 - unat (CHARS q)"
    by (simp add: CHARS_def unat_and_1023 unat_not_mod_1024)
  finally have "unat (LEFT q) = 1023 - unat (CHARS q)" .
  then show left: "unat (LEFT q) = 1023 - length (q_items q)" by (simp add: length_q_items)
  have "unat (CHARS q) \<le> 1023" using l unfolding cv by (auto simp: word_le_nat_alt)
  moreover have "FULL q \<longleftrightarrow> unat (LEFT q) = 0" by (simp add: FULL_def unat_eq_0)
  ultimately show "FULL q \<longleftrightarrow> length (q_items q) = 1023" using left by (auto simp: length_q_items)
qed

text \<open>The characters of a list put one after the other, and the next \<open>n\<close> taken.\<close>

fun take_chars :: "nat \<Rightarrow> tty_queue \<Rightarrow> u8 list \<times> tty_queue" where
  "take_chars 0 q = ([], q)"
| "take_chars (Suc n) q = (let (c, q') = GETCH q; (cs, q'') = take_chars n q' in (c # cs, q''))"

lemma take_chars_get_n: "take_chars n q = ttyq.get_n n q"
  by (induction n arbitrary: q) (simp_all add: Let_def)

text \<open>C18: A terminal queue is first-in first-out across the wrap-around of its indices: after characters are
  put with \<^verbatim>\<open>PUTCH\<close>, no more of them than \<^verbatim>\<open>LEFT\<close> says, \<^verbatim>\<open>GETCH\<close> returns the characters that were waiting
  and then these, in order, after which the queue is \<^verbatim>\<open>EMPTY\<close>.\<close>

theorem tty_queue_fifo:
  assumes "q_ok q" "length cs \<le> unat (LEFT q)"
  shows "fst (take_chars (unat (CHARS q) + length cs) (fold PUTCH cs q)) = q_items q @ cs \<and>
    EMPTY (snd (take_chars (unat (CHARS q) + length cs) (fold PUTCH cs q)))"
proof -
  have "unat (CHARS q) \<le> 1023"
    using assms(1) chars_value [OF assms(1)] by (auto simp: q_ok_def word_le_nat_alt word_less_nat_alt)
  then have le: "length (q_items q) + length cs \<le> 1023"
    using assms q_tests(3) [OF assms(1)] by (simp add: length_q_items)
  note p = ttyq.put_all [OF assms(1) le]
  let ?n = "length (q_items q) + length cs"
  note g = ttyq.get_n_items [of "fold PUTCH cs q" ?n]
  have "fst (take_chars ?n (fold PUTCH cs q)) = q_items q @ cs"
    "q_items (snd (take_chars ?n (fold PUTCH cs q))) = []" "q_ok (snd (take_chars ?n (fold PUTCH cs q)))"
    using p g by (simp_all add: take_chars_get_n)
  then show ?thesis using q_tests(1) by (simp add: length_q_items)
qed

theorem tty_queue_fifo_witness:
  "fst (take_chars 3 (fold PUTCH [97, 98, 99]
     \<lparr>q_data = 0, q_head = 1022, q_tail = 1022, q_buf = (\<lambda>_. 0)\<rparr>)) = [97, 98, 99]"
proof -
  let ?q = "\<lparr>q_data = 0, q_head = 1022, q_tail = 1022, q_buf = (\<lambda>_. 0)\<rparr> :: tty_queue"
  have "q_ok ?q" "length [97, 98, 99 :: u8] \<le> unat (LEFT ?q)" "unat (CHARS ?q) = 0"
    by (simp_all add: q_ok_def LEFT_def CHARS_def)
  moreover from this have "q_items ?q = []" by (simp add: q_items_def)
  ultimately show ?thesis using tty_queue_fifo [of ?q "[97, 98, 99]"]
    by (simp add: eval_nat_numeral del: fold_simps take_chars.simps)
qed

end
