(* ===== verification/Console.thy ===== *)
theory Console
  imports Tty
begin

text \<open>
  The console (kernel/chr_drv/console.c): the emulation of a VT102 on the memory of a display adapter.
  Its static variables are a record of their own; an \<^verbatim>\<open>unsigned long\<close> is a natural number below
  \<open>2 ^ 32\<close> with the wrap-around written out. \<open>vmem\<close> is memory as bytes, of which the display's is
  the part from \<^verbatim>\<open>video_mem_start\<close> to \<^verbatim>\<open>video_mem_end\<close>; \<open>crt_origin\<close> and \<open>crt_cursor\<close> are the two
  registers of the CRT controller that \<^verbatim>\<open>set_origin\<close> and \<^verbatim>\<open>set_cursor\<close> load through the ports.
\<close>

subsection \<open>Unsigned arithmetic and string instructions\<close>

definition add32 :: "nat \<Rightarrow> nat \<Rightarrow> nat" where
  "add32 a b = (a + b) mod 4294967296"

definition sub32 :: "nat \<Rightarrow> nat \<Rightarrow> nat" where
  "sub32 a b = (a + (4294967296 - b mod 4294967296)) mod 4294967296"

definition mul32 :: "nat \<Rightarrow> nat \<Rightarrow> nat" where
  "mul32 a b = (a * b) mod 4294967296"

type_synonym mem = "nat \<Rightarrow> u8"

definition store16 :: "nat \<Rightarrow> u16 \<Rightarrow> mem \<Rightarrow> mem" where
  "store16 a w m = m(a := byte_of16 0 w, add32 a 1 := byte_of16 1 w)"

definition load16 :: "nat \<Rightarrow> mem \<Rightarrow> u16" where
  "load16 a m = le16 (m a) (m (add32 a 1))"

text \<open>\<^verbatim>\<open>rep stosw\<close> and \<^verbatim>\<open>rep movsl\<close> with the direction flag clear (\<^verbatim>\<open>cld\<close>) and set (\<^verbatim>\<open>std\<close>).\<close>

definition stosw :: "nat \<Rightarrow> nat \<Rightarrow> u16 \<Rightarrow> mem \<Rightarrow> mem" where
  "stosw n d w m = fold (\<lambda>i m. store16 (add32 d (2 * i)) w m) [0..<n] m"

definition stosw_down :: "nat \<Rightarrow> nat \<Rightarrow> u16 \<Rightarrow> mem \<Rightarrow> mem" where
  "stosw_down n d w m = fold (\<lambda>i m. store16 (sub32 d (2 * i)) w m) [0..<n] m"

definition move4 :: "nat \<Rightarrow> nat \<Rightarrow> mem \<Rightarrow> mem" where
  "move4 d s m = m(d := m s, add32 d 1 := m (add32 s 1), add32 d 2 := m (add32 s 2), add32 d 3 := m (add32 s 3))"

definition movsl :: "nat \<Rightarrow> nat \<Rightarrow> nat \<Rightarrow> mem \<Rightarrow> mem" where
  "movsl n d s m = fold (\<lambda>i m. move4 (add32 d (4 * i)) (add32 s (4 * i)) m) [0..<n] m"

definition movsl_down :: "nat \<Rightarrow> nat \<Rightarrow> nat \<Rightarrow> mem \<Rightarrow> mem" where
  "movsl_down n d s m = fold (\<lambda>i m. move4 (sub32 d (4 * i)) (sub32 s (4 * i)) m) [0..<n] m"

subsection \<open>The state of the console\<close>

record console =
  video_type :: nat
  video_num_columns :: nat
  video_size_row :: nat
  video_num_lines :: nat
  video_page :: u8
  video_mem_start :: nat
  video_mem_end :: nat
  video_port_reg :: u16
  video_port_val :: u16
  video_erase_char :: u16
  origin :: nat
  scr_end :: nat
  con_pos :: nat
  con_x :: nat
  con_y :: nat
  con_top :: nat
  con_bottom :: nat
  con_state :: nat
  npar :: nat
  con_par :: "nat \<Rightarrow> nat"
  ques :: bool
  attr :: u8
  saved_x :: nat
  saved_y :: nat
  vmem :: mem
  crt_origin :: nat
  crt_cursor :: nat

abbreviation (input) "NPAR \<equiv> (16 :: nat)"

definition is_ega :: "console \<Rightarrow> bool" where
  "is_ega k \<longleftrightarrow> video_type k = 0x21 \<or> video_type k = 0x20"

definition gotoxy :: "nat \<Rightarrow> nat \<Rightarrow> console \<Rightarrow> console" where
  "gotoxy new_x new_y k =
     (if new_x > video_num_columns k \<or> new_y \<ge> video_num_lines k then k
      else k\<lparr>con_x := new_x, con_y := new_y,
             con_pos := add32 (add32 (origin k) (mul32 new_y (video_size_row k))) (mul32 new_x 2)\<rparr>)"

text \<open>The 16-bit register that two writes of a byte to the controller set.\<close>

definition crt_word :: "nat \<Rightarrow> nat" where
  "crt_word a = 256 * (a div 512 mod 256) + a div 2 mod 256"

definition set_origin :: "console \<Rightarrow> console" where
  "set_origin k = k\<lparr>crt_origin := crt_word (sub32 (origin k) (video_mem_start k))\<rparr>"

definition set_cursor :: "console \<Rightarrow> console" where
  "set_cursor k = k\<lparr>crt_cursor := crt_word (sub32 (con_pos k) (video_mem_start k))\<rparr>"

subsection \<open>Scrolling\<close>

text \<open>The slow path of \<^verbatim>\<open>scrup\<close>: move the lines of the region up and erase its last one.\<close>

definition move_up :: "console \<Rightarrow> console" where
  "move_up k =
     (let n = mul32 (sub32 (sub32 (con_bottom k) (con_top k)) 1) (video_num_columns k) div 2;
          d = add32 (origin k) (mul32 (video_size_row k) (con_top k));
          s = add32 (origin k) (mul32 (video_size_row k) (add32 (con_top k) 1)) in
      k\<lparr>vmem := stosw (video_num_columns k) (add32 d (4 * n)) (video_erase_char k) (movsl n d s (vmem k))\<rparr>)"

definition scrup :: "console \<Rightarrow> console" where
  "scrup k =
     (if is_ega k \<and> con_top k = 0 \<and> con_bottom k = video_num_lines k then
        let k = k\<lparr>origin := add32 (origin k) (video_size_row k), con_pos := add32 (con_pos k) (video_size_row k),
                  scr_end := add32 (scr_end k) (video_size_row k)\<rparr>;
            k = (if scr_end k > video_mem_end k then
                   let n = mul32 (sub32 (video_num_lines k) 1) (video_num_columns k) div 2;
                       off = sub32 (origin k) (video_mem_start k) in
                   k\<lparr>vmem := stosw (video_num_columns k) (add32 (video_mem_start k) (4 * n)) (video_erase_char k)
                               (movsl n (video_mem_start k) (origin k) (vmem k)),
                     scr_end := sub32 (scr_end k) off, con_pos := sub32 (con_pos k) off,
                     origin := video_mem_start k\<rparr>
                 else k\<lparr>vmem := stosw (video_num_columns k) (sub32 (scr_end k) (video_size_row k))
                                   (video_erase_char k) (vmem k)\<rparr>) in
        set_origin k
      else move_up k)"

text \<open>Both branches of \<^verbatim>\<open>scrdown\<close> are the same.\<close>

definition scrdown :: "console \<Rightarrow> console" where
  "scrdown k =
     (let n = mul32 (sub32 (sub32 (con_bottom k) (con_top k)) 1) (video_num_columns k) div 2;
          d = sub32 (add32 (origin k) (mul32 (video_size_row k) (con_bottom k))) 4;
          s = sub32 (add32 (origin k) (mul32 (video_size_row k) (sub32 (con_bottom k) 1))) 4 in
      k\<lparr>vmem := stosw_down (video_num_columns k) (add32 (sub32 d (4 * n)) 2) (video_erase_char k)
                  (movsl_down n d s (vmem k))\<rparr>)"

definition lf :: "console \<Rightarrow> console" where
  "lf k = (if add32 (con_y k) 1 < con_bottom k
           then k\<lparr>con_y := add32 (con_y k) 1, con_pos := add32 (con_pos k) (video_size_row k)\<rparr>
           else scrup k)"

definition ri :: "console \<Rightarrow> console" where
  "ri k = (if con_y k > con_top k
           then k\<lparr>con_y := con_y k - 1, con_pos := sub32 (con_pos k) (video_size_row k)\<rparr>
           else scrdown k)"

definition cr :: "console \<Rightarrow> console" where
  "cr k = k\<lparr>con_x := 0, con_pos := sub32 (con_pos k) (mul32 (con_x k) 2)\<rparr>"

definition del :: "console \<Rightarrow> console" where
  "del k = (if con_x k \<noteq> 0
            then let p = sub32 (con_pos k) 2 in
              k\<lparr>con_x := con_x k - 1, con_pos := p, vmem := store16 p (video_erase_char k) (vmem k)\<rparr>
            else k)"

subsection \<open>Erasing and editing\<close>

definition erase :: "nat \<Rightarrow> nat \<Rightarrow> console \<Rightarrow> console" where
  "erase count start k = k\<lparr>vmem := stosw count start (video_erase_char k) (vmem k)\<rparr>"

definition csi_J :: "nat \<Rightarrow> console \<Rightarrow> console" where
  "csi_J par k =
     (if par = 0 then erase (sub32 (scr_end k) (con_pos k) div 2) (con_pos k) k
      else if par = 1 then erase (sub32 (con_pos k) (origin k) div 2) (origin k) k
      else if par = 2 then erase (mul32 (video_num_columns k) (video_num_lines k)) (origin k) k
      else k)"

definition csi_K :: "nat \<Rightarrow> console \<Rightarrow> console" where
  "csi_K par k =
     (if par = 0 then
        (if con_x k \<ge> video_num_columns k then k
         else erase (sub32 (video_num_columns k) (con_x k)) (con_pos k) k)
      else if par = 1 then
        erase (if con_x k < video_num_columns k then con_x k else video_num_columns k)
          (sub32 (con_pos k) (mul32 (con_x k) 2)) k
      else if par = 2 then erase (video_num_columns k) (sub32 (con_pos k) (mul32 (con_x k) 2)) k
      else k)"

definition set_attr :: "nat \<Rightarrow> u8 \<Rightarrow> u8" where
  "set_attr p a = (if p = 0 then 0x07 else if p = 1 then 0x0f else if p = 4 then 0x0f
     else if p = 7 then 0x70 else if p = 27 then 0x07 else a)"

definition csi_m :: "console \<Rightarrow> console" where
  "csi_m k = k\<lparr>attr := fold (\<lambda>i. set_attr (con_par k i)) [0..<npar k + 1] (attr k)\<rparr>"

text \<open>The loop of \<^verbatim>\<open>insert_char\<close>: \<open>n\<close> cells from \<open>p\<close> on move one place to the right, \<open>old\<close> comes in.\<close>

fun shift_right :: "nat \<Rightarrow> nat \<Rightarrow> u16 \<Rightarrow> mem \<Rightarrow> mem" where
  "shift_right 0 p old m = m"
| "shift_right (Suc n) p old m = shift_right n (add32 p 2) (load16 p m) (store16 p old m)"

definition insert_char :: "console \<Rightarrow> console" where
  "insert_char k =
     k\<lparr>vmem := shift_right (video_num_columns k - con_x k) (con_pos k) (video_erase_char k) (vmem k)\<rparr>"

fun shift_left :: "nat \<Rightarrow> nat \<Rightarrow> u16 \<Rightarrow> mem \<Rightarrow> mem" where
  "shift_left 0 p w m = store16 p w m"
| "shift_left (Suc n) p w m = shift_left n (add32 p 2) w (store16 p (load16 (add32 p 2) m) m)"

definition delete_char :: "console \<Rightarrow> console" where
  "delete_char k =
     (if con_x k \<ge> video_num_columns k then k
      else k\<lparr>vmem := shift_left (video_num_columns k - con_x k - 1) (con_pos k) (video_erase_char k) (vmem k)\<rparr>)"

definition insert_line :: "console \<Rightarrow> console" where
  "insert_line k =
     (scrdown (k\<lparr>con_top := con_y k, con_bottom := video_num_lines k\<rparr>))\<lparr>con_top := con_top k, con_bottom := con_bottom k\<rparr>"

definition delete_line :: "console \<Rightarrow> console" where
  "delete_line k =
     (scrup (k\<lparr>con_top := con_y k, con_bottom := video_num_lines k\<rparr>))\<lparr>con_top := con_top k, con_bottom := con_bottom k\<rparr>"

text \<open>The common beginning of \<^verbatim>\<open>csi_at\<close>, \<^verbatim>\<open>csi_L\<close>, \<^verbatim>\<open>csi_P\<close> and \<^verbatim>\<open>csi_M\<close>.\<close>

definition csi_count :: "nat \<Rightarrow> nat \<Rightarrow> nat" where
  "csi_count nr bound = (if nr > bound then bound else if nr = 0 then 1 else nr)"

definition csi_at :: "nat \<Rightarrow> console \<Rightarrow> console" where
  "csi_at nr k = (insert_char ^^ csi_count nr (video_num_columns k)) k"

definition csi_L :: "nat \<Rightarrow> console \<Rightarrow> console" where
  "csi_L nr k = (insert_line ^^ csi_count nr (video_num_lines k)) k"

definition csi_P :: "nat \<Rightarrow> console \<Rightarrow> console" where
  "csi_P nr k = (delete_char ^^ csi_count nr (video_num_columns k)) k"

definition csi_M :: "nat \<Rightarrow> console \<Rightarrow> console" where
  "csi_M nr k = (delete_line ^^ csi_count nr (video_num_lines k)) k"

definition save_cur :: "console \<Rightarrow> console" where
  "save_cur k = k\<lparr>saved_x := con_x k, saved_y := con_y k\<rparr>"

definition restore_cur :: "console \<Rightarrow> console" where
  "restore_cur k = gotoxy (saved_x k) (saved_y k) k"

subsection \<open>Characters\<close>

text \<open>What a character does beside changing the console: nothing, \<^verbatim>\<open>respond\<close>, or \<^verbatim>\<open>sysbeep\<close>.\<close>

datatype con_event = Quiet | Respond | Beep

text \<open>State 0. \<open>c\<close> is a \<^verbatim>\<open>char\<close>, which is signed; \<open>ec\<close> is the terminal's \<^verbatim>\<open>ERASE_CHAR\<close>.\<close>

definition wrap_line :: "console \<Rightarrow> console" where
  "wrap_line k = lf (k\<lparr>con_x := sub32 (con_x k) (video_num_columns k), con_pos := sub32 (con_pos k) (video_size_row k)\<rparr>)"

definition put_char :: "int \<Rightarrow> console \<Rightarrow> console" where
  "put_char c k =
     (let k = (if con_x k \<ge> video_num_columns k then wrap_line k else k) in
      k\<lparr>vmem := store16 (con_pos k) (le16 (word_of_int c) (attr k)) (vmem k),
        con_pos := add32 (con_pos k) 2, con_x := add32 (con_x k) 1\<rparr>)"

definition tab :: "console \<Rightarrow> console" where
  "tab k =
     (let c = 8 - con_x k mod 8;
          k = k\<lparr>con_x := add32 (con_x k) c, con_pos := add32 (con_pos k) (2 * c)\<rparr> in
      if con_x k > video_num_columns k then wrap_line k else k)"

definition plain_char :: "int \<Rightarrow> int \<Rightarrow> console \<Rightarrow> console \<times> con_event" where
  "plain_char ec c k =
     (if c > 31 \<and> c < 127 then (put_char c k, Quiet)
      else if c = 27 then (k\<lparr>con_state := 1\<rparr>, Quiet)
      else if c = 10 \<or> c = 11 \<or> c = 12 then (lf k, Quiet)
      else if c = 13 then (cr k, Quiet)
      else if c = ec then (del k, Quiet)
      else if c = 8 then
        (if con_x k \<noteq> 0 then (k\<lparr>con_x := con_x k - 1, con_pos := sub32 (con_pos k) 2\<rparr>, Quiet) else (k, Quiet))
      else if c = 9 then (tab k, Quiet)
      else if c = 7 then (k, Beep)
      else (k, Quiet))"

text \<open>State 1, after an escape. The last two tests of the source compare the column \<^verbatim>\<open>x\<close>, not the
  character, with \<^verbatim>\<open>'7'\<close> and \<^verbatim>\<open>'8'\<close>.\<close>

definition escape_char :: "int \<Rightarrow> console \<Rightarrow> console \<times> con_event" where
  "escape_char c k =
     (let k = k\<lparr>con_state := 0\<rparr> in
      if c = 0x5b then (k\<lparr>con_state := 2\<rparr>, Quiet)
      else if c = 0x45 then (gotoxy 0 (add32 (con_y k) 1) k, Quiet)
      else if c = 0x4d then (ri k, Quiet)
      else if c = 0x44 then (lf k, Quiet)
      else if c = 0x5a then (k, Respond)
      else if con_x k = 0x37 then (save_cur k, Quiet)
      else if con_x k = 0x38 then (restore_cur k, Quiet)
      else (k, Quiet))"

text \<open>State 4, the final character of a control sequence. \<open>atleast1\<close> and \<open>less1\<close> are the two
  adjustments of a parameter.\<close>

definition atleast1 :: "nat \<Rightarrow> nat" where "atleast1 p = (if p = 0 then 1 else p)"
definition less1 :: "nat \<Rightarrow> nat" where "less1 p = p - 1"

definition final_char :: "int \<Rightarrow> console \<Rightarrow> console" where
  "final_char c k =
     (let k = k\<lparr>con_state := 0\<rparr>;
          p0 = con_par k 0;
          p1 = con_par k 1;
          up = k\<lparr>con_par := (con_par k)(0 := atleast1 p0)\<rparr>;
          down = k\<lparr>con_par := (con_par k)(0 := less1 p0)\<rparr> in
      if c = 0x47 \<or> c = 0x60 then gotoxy (less1 p0) (con_y k) down
      else if c = 0x41 then gotoxy (con_x k) (sub32 (con_y k) (atleast1 p0)) up
      else if c = 0x42 \<or> c = 0x65 then gotoxy (con_x k) (add32 (con_y k) (atleast1 p0)) up
      else if c = 0x43 \<or> c = 0x61 then gotoxy (add32 (con_x k) (atleast1 p0)) (con_y k) up
      else if c = 0x44 then gotoxy (sub32 (con_x k) (atleast1 p0)) (con_y k) up
      else if c = 0x45 then gotoxy 0 (add32 (con_y k) (atleast1 p0)) up
      else if c = 0x46 then gotoxy 0 (sub32 (con_y k) (atleast1 p0)) up
      else if c = 0x64 then gotoxy (con_x k) (less1 p0) down
      else if c = 0x48 \<or> c = 0x66 then
        gotoxy (less1 p1) (less1 p0) (k\<lparr>con_par := (con_par k)(0 := less1 p0, 1 := less1 p1)\<rparr>)
      else if c = 0x4a then csi_J p0 k
      else if c = 0x4b then csi_K p0 k
      else if c = 0x4c then csi_L p0 k
      else if c = 0x4d then csi_M p0 k
      else if c = 0x50 then csi_P p0 k
      else if c = 0x40 then csi_at p0 k
      else if c = 0x6d then csi_m k
      else if c = 0x72 then
        (let b = (if p1 = 0 then video_num_lines k else p1);
             k = k\<lparr>con_par := (con_par k)(0 := less1 p0, 1 := b)\<rparr> in
         if less1 p0 < b \<and> b \<le> video_num_lines k then k\<lparr>con_top := less1 p0, con_bottom := b\<rparr> else k)
      else if c = 0x73 then save_cur k
      else if c = 0x75 then restore_cur k
      else k)"

text \<open>State 3, the parameters.\<close>

definition param_char :: "int \<Rightarrow> console \<Rightarrow> console" where
  "param_char c k =
     (if c = 0x3b \<and> npar k < NPAR - 1 then k\<lparr>npar := npar k + 1\<rparr>
      else if c \<ge> 0x30 \<and> c \<le> 0x39 then
        k\<lparr>con_par := (con_par k)(npar k := sub32 (add32 (mul32 10 (con_par k (npar k))) (nat c)) 48)\<rparr>
      else final_char c (k\<lparr>con_state := 4\<rparr>))"

definition con_char :: "int \<Rightarrow> int \<Rightarrow> console \<Rightarrow> console \<times> con_event" where
  "con_char ec c k =
     (if con_state k = 0 then plain_char ec c k
      else if con_state k = 1 then escape_char c k
      else if con_state k = 2 then
        (let k = k\<lparr>con_par := (\<lambda>i. if i < NPAR then 0 else con_par k i), npar := 0, con_state := 3, ques := (c = 0x3f)\<rparr> in
         if c = 0x3f then (k, Quiet) else (param_char c k, Quiet))
      else if con_state k = 3 then (param_char c k, Quiet)
      else if con_state k = 4 then (final_char c k, Quiet)
      else (k, Quiet))"

definition RESPONSE :: "u8 list" where
  "RESPONSE = [27, 0x5b, 0x3f, 0x31, 0x3b, 0x32, 0x63]"

definition respond :: "env \<Rightarrow> nat \<Rightarrow> kernel \<Rightarrow> unit kres" where
  "respond E n s = copy_to_cooked E n (upd_tty n (\<lambda>t. t\<lparr>read_q := fold PUTCH RESPONSE (read_q t)\<rparr>) s)"

definition con_event_effect :: "env \<Rightarrow> nat \<Rightarrow> con_event \<Rightarrow> kernel \<Rightarrow> unit kres" where
  "con_event_effect E n e s =
     (case e of Quiet \<Rightarrow> Ret () s
      | Respond \<Rightarrow> respond E n s
      | Beep \<Rightarrow> Ret () (s\<lparr>beepcount := c_div HZ 8\<rparr>))"

definition con_write :: "env \<Rightarrow> nat \<Rightarrow> console \<Rightarrow> kernel \<Rightarrow> console kres" where
  "con_write E n k s =
     kbind (kfor (\<lambda>_ k s.
         let (ch, q) = GETCH (write_q (tty_table s n));
             s = upd_tty n (\<lambda>t. t\<lparr>write_q := q\<rparr>) s;
             (k, e) = con_char (ERASE_CHAR (tty_table s n)) (sint ch) k in
         kbind (con_event_effect E n e s) (\<lambda>_ s. Ret k s)) [0..<unat (CHARS (write_q (tty_table s n)))] k s)
       (\<lambda>k s. Ret (set_cursor k) s)"

text \<open>What setup.s left at 0x90000: cursor, page, mode and columns, and the answer of the EGA BIOS.\<close>

record boot_screen =
  ORIG_X :: u8
  ORIG_Y :: u8
  ORIG_VIDEO_PAGE :: u16
  ORIG_VIDEO_MODE :: u8
  ORIG_VIDEO_COLS :: u8
  ORIG_VIDEO_EGA_BX :: u16

text \<open>\<^verbatim>\<open>con_init\<close> also sets the keyboard's interrupt gate and acknowledges the keyboard.\<close>

definition con_init :: "boot_screen \<Rightarrow> console \<Rightarrow> console" where
  "con_init b k =
     (let cols = unat (ORIG_VIDEO_COLS b);
          ega = (ORIG_VIDEO_EGA_BX b AND 0xff \<noteq> 0x10);
          mono = (ORIG_VIDEO_MODE b = 7);
          start = (if mono then 0xb0000 else 0xb8000);
          desc = (if mono then (if ega then ''EGAm'' else ''*MDA'') else (if ega then ''EGAc'' else ''*CGA''));
          ptr = sub32 (add32 start (2 * cols)) 8;
          k = k\<lparr>video_num_columns := cols, video_size_row := 2 * cols, video_num_lines := 25,
                video_page := ucast (ORIG_VIDEO_PAGE b),
                video_port_reg := (if mono then 0x3b4 else 0x3d4), video_port_val := (if mono then 0x3b5 else 0x3d5),
                video_erase_char := 0x0720, video_mem_start := start,
                video_type := (if mono then (if ega then 0x20 else 0x10) else (if ega then 0x21 else 0x11)),
                video_mem_end := (if mono then (if ega then 0xb8000 else 0xb2000) else (if ega then 0xbc000 else 0xba000)),
                vmem := fold (\<lambda>(i, c) m. m(add32 ptr (2 * i) := of_char c)) (enumerate 0 desc) (vmem k),
                origin := start, scr_end := start + 25 * (2 * cols), con_top := 0, con_bottom := 25\<rparr> in
      gotoxy (unat (ORIG_X b)) (unat (ORIG_Y b)) k)"

subsection \<open>What the string instructions leave alone\<close>

lemma add32_small [simp]: "a + b < 4294967296 \<Longrightarrow> add32 a b = a + b"
  by (simp add: add32_def)

lemma mul32_small [simp]: "a * b < 4294967296 \<Longrightarrow> mul32 a b = a * b"
  by (simp add: mul32_def)

lemma sub32_small [simp]: "b \<le> a \<Longrightarrow> a < 4294967296 \<Longrightarrow> sub32 a b = a - b"
proof -
  assume "b \<le> a" "a < 4294967296"
  then have "a + (4294967296 - b mod 4294967296) = (a - b) + 4294967296" by simp
  then have "sub32 a b = ((a - b) + 4294967296) mod 4294967296" by (simp only: sub32_def)
  then show ?thesis using \<open>a < 4294967296\<close> by simp
qed

text \<open>\<open>same_outside lo hi m m'\<close>: the two memories differ at most from \<open>lo\<close> up to \<open>hi\<close>.\<close>

definition same_outside :: "nat \<Rightarrow> nat \<Rightarrow> mem \<Rightarrow> mem \<Rightarrow> bool" where
  "same_outside lo hi m m' \<longleftrightarrow> (\<forall>a. a < lo \<or> hi \<le> a \<longrightarrow> m' a = m a)"

lemma same_outside_refl [simp]: "same_outside lo hi m m"
  by (simp add: same_outside_def)

lemma same_outside_trans: "same_outside lo hi m m' \<Longrightarrow> same_outside lo hi m' m'' \<Longrightarrow> same_outside lo hi m m''"
  by (simp add: same_outside_def)

lemma same_outside_fold:
  assumes "\<And>i m. i \<in> set xs \<Longrightarrow> same_outside lo hi m (f i m)"
  shows "same_outside lo hi m (fold f xs m)"
  using assms
proof (induction xs arbitrary: m)
  case (Cons x xs)
  have "same_outside lo hi m (f x m)" "same_outside lo hi (f x m) (fold f xs (f x m))"
    using Cons.prems Cons.IH [of "f x m"] by simp_all
  then show ?case by (auto intro: same_outside_trans)
qed simp

lemma same_outside_store16 [intro]:
  "lo \<le> a \<Longrightarrow> a + 2 \<le> hi \<Longrightarrow> hi < 4294967296 \<Longrightarrow> same_outside lo hi m (store16 a w m)"
  by (auto simp: same_outside_def store16_def)

lemma same_outside_stosw [intro]:
  assumes "lo \<le> d" "d + 2 * n \<le> hi" "hi < 4294967296"
  shows "same_outside lo hi m (stosw n d w m)"
  unfolding stosw_def using assms by (intro same_outside_fold same_outside_store16) auto

lemma same_outside_move4 [intro]:
  "lo \<le> d \<Longrightarrow> d + 4 \<le> hi \<Longrightarrow> hi < 4294967296 \<Longrightarrow> same_outside lo hi m (move4 d s m)"
  by (auto simp: same_outside_def move4_def)

lemma same_outside_movsl [intro]:
  assumes "lo \<le> d" "d + 4 * n \<le> hi" "hi < 4294967296"
  shows "same_outside lo hi m (movsl n d s m)"
  unfolding movsl_def using assms by (intro same_outside_fold same_outside_move4) auto

lemma same_outside_stosw_down [intro]:
  assumes "lo + 2 * n \<le> d + 2" "d + 2 \<le> hi" "hi < 4294967296"
  shows "same_outside lo hi m (stosw_down n d w m)"
  unfolding stosw_down_def using assms by (intro same_outside_fold same_outside_store16) auto

lemma same_outside_movsl_down [intro]:
  assumes "lo + 4 * n \<le> d + 4" "d + 4 \<le> hi" "hi < 4294967296"
  shows "same_outside lo hi m (movsl_down n d s m)"
  unfolding movsl_down_def using assms by (intro same_outside_fold same_outside_move4) auto

lemma same_outside_shift_right [intro]:
  assumes "lo \<le> p" "p + 2 * n \<le> hi" "hi < 4294967296"
  shows "same_outside lo hi m (shift_right n p old m)"
  using assms
proof (induction n arbitrary: p old m)
  case (Suc n)
  have "same_outside lo hi m (store16 p old m)" using Suc.prems by (intro same_outside_store16) auto
  moreover have "same_outside lo hi (store16 p old m) (shift_right n (add32 p 2) (load16 p m) (store16 p old m))"
    using Suc.prems by (intro Suc.IH) auto
  ultimately show ?case by (auto intro: same_outside_trans)
qed simp

lemma same_outside_shift_left [intro]:
  assumes "lo \<le> p" "p + 2 * n + 2 \<le> hi" "hi < 4294967296"
  shows "same_outside lo hi m (shift_left n p w m)"
  using assms
proof (induction n arbitrary: p m)
  case 0
  then show ?case by (auto simp: same_outside_store16)
next
  case (Suc n)
  let ?m = "store16 p (load16 (add32 p 2) m) m"
  have "same_outside lo hi m ?m" using Suc.prems by (intro same_outside_store16) auto
  moreover have "same_outside lo hi ?m (shift_left n (add32 p 2) w ?m)"
    using Suc.prems by (intro Suc.IH) auto
  ultimately show ?case by (auto intro: same_outside_trans)
qed

subsection \<open>The cursor stays on the screen\<close>

definition geometry :: "console \<Rightarrow> nat list" where
  "geometry k = [video_type k, video_num_columns k, video_size_row k, video_num_lines k, video_mem_start k, video_mem_end k]"

definition con_ok :: "console \<Rightarrow> bool" where
  "con_ok k \<longleftrightarrow> 8 \<le> video_num_columns k \<and> video_size_row k = 2 * video_num_columns k \<and>
     con_x k \<le> video_num_columns k \<and> con_y k < video_num_lines k \<and>
     con_top k < con_bottom k \<and> con_bottom k \<le> video_num_lines k \<and>
     con_pos k = origin k + con_y k * video_size_row k + 2 * con_x k \<and>
     video_mem_start k \<le> origin k \<and> scr_end k = origin k + video_num_lines k * video_size_row k \<and>
     scr_end k \<le> video_mem_end k \<and> video_mem_end k < 2147483648 \<and> con_state k \<le> 3 \<and> npar k < NPAR"

definition on_screen :: "console \<Rightarrow> console \<Rightarrow> bool" where
  "on_screen k k' \<longleftrightarrow> con_ok k' \<and> geometry k' = geometry k \<and>
     same_outside (video_mem_start k) (video_mem_end k) (vmem k) (vmem k')"

lemma on_screen_refl: "con_ok k \<Longrightarrow> on_screen k k"
  by (simp add: on_screen_def)

lemma on_screen_trans: "on_screen k k' \<Longrightarrow> on_screen k' k'' \<Longrightarrow> on_screen k k''"
  unfolding on_screen_def geometry_def by (auto intro: same_outside_trans)

lemma row_le: "t < n \<Longrightarrow> t * r + r \<le> n * (r :: nat)"
  using mult_le_mono1 [of "Suc t" n r] by simp

lemma con_okD:
  assumes "con_ok k"
  shows "8 \<le> video_num_columns k" "video_size_row k = 2 * video_num_columns k" "con_x k \<le> video_num_columns k"
    "con_y k < video_num_lines k" "con_top k < con_bottom k" "con_bottom k \<le> video_num_lines k"
    "con_pos k = origin k + con_y k * video_size_row k + 2 * con_x k" "video_mem_start k \<le> origin k"
    "scr_end k = origin k + video_num_lines k * video_size_row k" "scr_end k \<le> video_mem_end k"
    "video_mem_end k < 2147483648" "con_state k \<le> 3" "npar k < NPAR"
  using assms unfolding con_ok_def by blast+

lemma con_bounds:
  assumes "con_ok k"
  shows "con_y k * video_size_row k + video_size_row k \<le> video_num_lines k * video_size_row k"
    "con_pos k \<le> scr_end k" "origin k \<le> con_pos k" "scr_end k < 2147483648"
    "con_pos k + 2 * (video_num_columns k - con_x k) \<le> scr_end k"
    "video_num_lines k < 2147483648" "video_num_columns k < 2147483648" "video_size_row k < 2147483648"
proof -
  let ?r = "video_size_row k" and ?n = "video_num_lines k"
  show a: "con_y k * ?r + ?r \<le> ?n * ?r" using con_okD(4) [OF assms] by (rule row_le)
  show "con_pos k \<le> scr_end k" "origin k \<le> con_pos k" "scr_end k < 2147483648"
    "con_pos k + 2 * (video_num_columns k - con_x k) \<le> scr_end k"
    using a con_okD [OF assms] by linarith+
  have f: "scr_end k = origin k + ?n * ?r" "scr_end k \<le> video_mem_end k" "video_mem_end k < 2147483648"
      "?r = 2 * video_num_columns k" "8 \<le> video_num_columns k" "con_y k < ?n"
    using con_okD [OF assms] by blast+
  have "?n \<le> ?n * ?r" "?r \<le> ?n * ?r" using f(4-6) by simp_all
  then show "?n < 2147483648" "?r < 2147483648" "video_num_columns k < 2147483648" using f by linarith+
qed

text \<open>The bytes of the lines from \<open>t\<close> up to \<open>b\<close>.\<close>

lemma region_bounds:
  assumes ok: "con_ok k" and t: "t < b" "b \<le> video_num_lines k"
  defines "n \<equiv> mul32 (sub32 (sub32 b t) 1) (video_num_columns k) div 2"
  shows "4 * n \<le> (b - t - 1) * video_size_row k"
    "video_size_row k * t + (b - t - 1) * video_size_row k + video_size_row k = video_size_row k * b"
    "video_size_row k * b \<le> video_num_lines k * video_size_row k"
    "video_num_lines k * video_size_row k < 2147483648"
    "mul32 (video_size_row k) t = video_size_row k * t" "mul32 (video_size_row k) b = video_size_row k * b"
    "mul32 (video_size_row k) (t + 1) = video_size_row k * (t + 1)"
    "mul32 (video_size_row k) (b - 1) = video_size_row k * (b - 1)"
    "add32 t 1 = t + 1" "sub32 b 1 = b - 1"
proof -
  let ?r = "video_size_row k" and ?L = "video_num_lines k"
  have L: "?L * ?r < 2147483648" "?L < 2147483648" "?r = 2 * video_num_columns k"
    using con_bounds [OF ok] con_okD [OF ok] by linarith+
  have le: "j * ?r \<le> ?L * ?r" if "j \<le> ?L" for j using that by (rule mult_le_mono1)
  have s: "sub32 (sub32 b t) 1 = b - t - 1" using t L(2) by simp
  have "(b - t - 1) * video_num_columns k \<le> (b - t - 1) * ?r" using L(3) by (intro mult_le_mono2) simp
  also have "\<dots> \<le> ?L * ?r" using t by (intro le) simp
  finally have "mul32 (b - t - 1) (video_num_columns k) = (b - t - 1) * video_num_columns k" using L(1) by simp
  then have "2 * n \<le> (b - t - 1) * video_num_columns k" unfolding n_def s by simp
  then show "4 * n \<le> (b - t - 1) * ?r" unfolding L(3) by (simp add: mult.left_commute mult.commute)
  have "b = t + (b - t - 1) + 1" using t(1) by simp
  then show "?r * t + (b - t - 1) * ?r + ?r = ?r * b"
    by (metis add_mult_distrib2 mult.commute nat_mult_1_right)
  show "?r * b \<le> ?L * ?r" using le [OF t(2)] by (simp add: mult.commute)
  show "?L * ?r < 2147483648" by (rule L)
  have "mul32 ?r j = ?r * j" if "j \<le> ?L" for j
    using le [OF that] L(1) unfolding mult.commute [of j] by (intro mul32_small) linarith
  then show "mul32 ?r t = ?r * t" "mul32 ?r b = ?r * b" "mul32 ?r (t + 1) = ?r * (t + 1)" "mul32 ?r (b - 1) = ?r * (b - 1)"
    using t by simp_all
  show "add32 t 1 = t + 1" "sub32 b 1 = b - 1" using t L(2) by simp_all
qed

lemma on_screen_vmem:
  assumes "con_ok k" "same_outside (origin k) (scr_end k) (vmem k) m"
  shows "on_screen k (k\<lparr>vmem := m\<rparr>)"
  using assms by (auto simp: on_screen_def con_ok_def geometry_def same_outside_def)

lemma move_up_on_screen:
  assumes ok: "con_ok k"
  shows "on_screen k (move_up k)"
proof -
  let ?c = "video_num_columns k" and ?r = "video_size_row k"
  define n where "n = mul32 (sub32 (sub32 (con_bottom k) (con_top k)) 1) ?c div 2"
  have tb: "con_top k < con_bottom k" "con_bottom k \<le> video_num_lines k" using con_okD [OF ok] by blast+
  note b = region_bounds [OF ok tb, folded n_def]
  have f: "scr_end k = origin k + video_num_lines k * ?r" "scr_end k < 2147483648" "?r = 2 * ?c"
    using con_okD [OF ok] by linarith+
  have d: "add32 (origin k) (mul32 ?r (con_top k)) = origin k + ?r * con_top k" unfolding b(5) using b f by (intro add32_small) linarith
  have e: "add32 (origin k + ?r * con_top k) (4 * n) = origin k + ?r * con_top k + 4 * n"
    using b f by (intro add32_small) linarith
  have "same_outside (origin k) (scr_end k) (vmem k) (movsl n (origin k + ?r * con_top k) s (vmem k))" for s
    using b f by (intro same_outside_movsl) linarith+
  moreover have "same_outside (origin k) (scr_end k) m (stosw ?c (origin k + ?r * con_top k + 4 * n) (video_erase_char k) m)" for m
    using b f by (intro same_outside_stosw) linarith+
  ultimately have "same_outside (origin k) (scr_end k) (vmem k) (vmem (move_up k))"
    unfolding move_up_def Let_def n_def [symmetric] d e by (auto intro: same_outside_trans)
  then show ?thesis using on_screen_vmem [OF ok] by (simp add: move_up_def Let_def)
qed

lemma scrdown_on_screen:
  assumes ok: "con_ok k"
  shows "on_screen k (scrdown k)"
proof -
  let ?c = "video_num_columns k" and ?r = "video_size_row k"
  define n where "n = mul32 (sub32 (sub32 (con_bottom k) (con_top k)) 1) ?c div 2"
  have tb: "con_top k < con_bottom k" "con_bottom k \<le> video_num_lines k" using con_okD [OF ok] by blast+
  note b = region_bounds [OF ok tb, folded n_def]
  have f: "scr_end k = origin k + video_num_lines k * ?r" "scr_end k < 2147483648" "?r = 2 * ?c" "8 \<le> ?c"
    using con_okD [OF ok] by linarith+
  define d where "d = origin k + ?r * con_bottom k - 4"
  have e: "4 * n + 2 * ?c \<le> ?r * con_bottom k" using b f by linarith
  have a: "add32 (origin k) (mul32 ?r (con_bottom k)) = origin k + ?r * con_bottom k"
    unfolding b(6) using b f by (intro add32_small) linarith
  have d: "sub32 (origin k + ?r * con_bottom k) 4 = d"
    unfolding d_def using b f e by (intro sub32_small) linarith+
  have d4: "d + 4 = origin k + ?r * con_bottom k" unfolding d_def using e f by linarith
  have g: "sub32 d (4 * n) = d - 4 * n" using b f e d4 by (intro sub32_small) linarith+
  have h: "add32 (d - 4 * n) 2 = d - 4 * n + 2" using b f d4 by (intro add32_small) linarith
  have "same_outside (origin k) (scr_end k) (vmem k) (movsl_down n d s (vmem k))" for s
    using b f d4 e by (intro same_outside_movsl_down) linarith+
  moreover have "same_outside (origin k) (scr_end k) m (stosw_down ?c (d - 4 * n + 2) (video_erase_char k) m)" for m
    using b f d4 e by (intro same_outside_stosw_down) linarith+
  ultimately have "same_outside (origin k) (scr_end k) (vmem k) (vmem (scrdown k))"
    unfolding scrdown_def Let_def n_def [symmetric] a d g h by (auto intro: same_outside_trans)
  then show ?thesis using on_screen_vmem [OF ok] by (simp add: scrdown_def Let_def)
qed

lemma con_okI:
  assumes "con_ok k" "geometry k' = geometry k" "con_x k' \<le> video_num_columns k" "con_y k' < video_num_lines k"
    "con_top k' < con_bottom k'" "con_bottom k' \<le> video_num_lines k"
    "con_pos k' = origin k' + con_y k' * video_size_row k + 2 * con_x k'" "video_mem_start k \<le> origin k'"
    "scr_end k' = origin k' + video_num_lines k * video_size_row k" "scr_end k' \<le> video_mem_end k"
    "con_state k' \<le> 3" "npar k' < NPAR"
  shows "con_ok k'"
  using assms unfolding con_ok_def geometry_def by simp

lemma scrup_on_screen:
  assumes ok: "con_ok k"
  shows "on_screen k (scrup k)"
proof (cases "is_ega k \<and> con_top k = 0 \<and> con_bottom k = video_num_lines k")
  case False
  then show ?thesis using move_up_on_screen [OF ok] unfolding scrup_def if_not_P [OF False] by simp
next
  case True
  let ?c = "video_num_columns k" and ?r = "video_size_row k" and ?L = "video_num_lines k"
  note D = con_okD [OF ok] and B = con_bounds [OF ok]
  have a: "add32 (origin k) ?r = origin k + ?r" "add32 (con_pos k) ?r = con_pos k + ?r" "add32 (scr_end k) ?r = scr_end k + ?r"
    using B by (intro add32_small; linarith)+
  show ?thesis
  proof (cases "scr_end k + ?r > video_mem_end k")
    case False
    have s: "sub32 (scr_end k + ?r) ?r = scr_end k" using B by (subst sub32_small) linarith+
    define k' where "k' = set_origin (k\<lparr>origin := origin k + ?r, con_pos := con_pos k + ?r, scr_end := scr_end k + ?r,
      vmem := stosw ?c (scr_end k) (video_erase_char k) (vmem k)\<rparr>)"
    have "scrup k = k'"
      unfolding scrup_def Let_def if_P [OF True] a k'_def using False by (simp add: s)
    moreover have "same_outside (video_mem_start k) (video_mem_end k) (vmem k) (stosw ?c (scr_end k) (video_erase_char k) (vmem k))"
      using D B False by (intro same_outside_stosw) linarith+
    moreover have "con_ok k'"
      by (rule con_okI [OF ok]) (use D False in \<open>simp_all add: k'_def set_origin_def geometry_def\<close>)
    ultimately show ?thesis by (simp add: on_screen_def k'_def set_origin_def geometry_def)
  next
    case over: True
    define n where "n = mul32 (sub32 ?L 1) ?c div 2"
    have n': "mul32 (sub32 ?L (Suc 0)) ?c div 2 = n" by (simp add: n_def)
    have L: "0 < ?L" using D(4) by linarith
    have "n = mul32 (sub32 (sub32 ?L 0) 1) ?c div 2" using B(6) by (simp add: n_def)
    with region_bounds [OF ok L order.refl] have n: "4 * n \<le> (?L - 0 - 1) * ?r" "?r * 0 + (?L - 0 - 1) * ?r + ?r = ?r * ?L"
      by simp_all
    then have n4: "4 * n + ?r \<le> ?L * ?r" by (simp add: mult.commute)
    have off: "sub32 (origin k + ?r) (video_mem_start k) = origin k + ?r - video_mem_start k"
      using D B by (intro sub32_small) linarith+
    have s: "sub32 (scr_end k + ?r) (origin k + ?r - video_mem_start k) = video_mem_start k + ?L * ?r"
        "sub32 (con_pos k + ?r) (origin k + ?r - video_mem_start k) = video_mem_start k + con_y k * ?r + 2 * con_x k"
      using D B by (subst sub32_small; linarith)+
    have e: "add32 (video_mem_start k) (4 * n) = video_mem_start k + 4 * n" using D B n4 by (intro add32_small) linarith
    define m where "m = stosw ?c (video_mem_start k + 4 * n) (video_erase_char k) (movsl n (video_mem_start k) (origin k + ?r) (vmem k))"
    define k' where "k' = set_origin (k\<lparr>vmem := m, scr_end := video_mem_start k + ?L * ?r,
      con_pos := video_mem_start k + con_y k * ?r + 2 * con_x k, origin := video_mem_start k\<rparr>)"
    have "scrup k = k'"
      unfolding scrup_def Let_def if_P [OF True] a k'_def m_def using over by (simp add: off s e n')
    moreover have "same_outside (video_mem_start k) (video_mem_end k) (vmem k) m"
      unfolding m_def using D B n4
      by (intro same_outside_trans [OF same_outside_movsl same_outside_stosw]) linarith+
    moreover have "con_ok k'"
      by (rule con_okI [OF ok]) (use D in \<open>simp_all add: k'_def set_origin_def geometry_def\<close>)
    ultimately show ?thesis by (simp add: on_screen_def k'_def set_origin_def geometry_def)
  qed
qed


lemma on_screen_upd:
  assumes "con_ok k" "con_ok k'" "geometry k' = geometry k" "vmem k' = vmem k"
  shows "on_screen k k'"
  using assms by (simp add: on_screen_def)

lemma con_ok_same [simp]:
  "con_ok (k\<lparr>con_par := p\<rparr>) = con_ok k" "con_ok (k\<lparr>attr := a\<rparr>) = con_ok k" "con_ok (k\<lparr>saved_x := u, saved_y := v\<rparr>) = con_ok k"
  "con_ok (k\<lparr>crt_cursor := n\<rparr>) = con_ok k" "con_ok (k\<lparr>ques := q\<rparr>) = con_ok k"
  by (simp_all add: con_ok_def)

lemma geometry_same [simp]:
  "geometry (k\<lparr>con_par := p\<rparr>) = geometry k" "geometry (k\<lparr>attr := a\<rparr>) = geometry k"
  "geometry (k\<lparr>saved_x := u, saved_y := v\<rparr>) = geometry k" "geometry (k\<lparr>crt_cursor := n\<rparr>) = geometry k"
  "geometry (k\<lparr>con_state := n\<rparr>) = geometry k" "geometry (k\<lparr>npar := n\<rparr>) = geometry k"
  "geometry (k\<lparr>con_top := n, con_bottom := m\<rparr>) = geometry k"
  "geometry (k\<lparr>con_x := n, con_pos := m\<rparr>) = geometry k" "geometry (k\<lparr>con_y := n, con_pos := m\<rparr>) = geometry k"
  by (simp_all add: geometry_def)

lemma con_state_ok:
  assumes ok: "con_ok k" and "n \<le> 3"
  shows "con_ok (k\<lparr>con_state := n\<rparr>)"
  by (rule con_okI [OF ok]) (use con_okD [OF ok] assms(2) in simp_all)

lemma gotoxy_on_screen:
  assumes ok: "con_ok k"
  shows "on_screen k (gotoxy new_x new_y k)"
proof (cases "new_x > video_num_columns k \<or> new_y \<ge> video_num_lines k")
  case True
  then show ?thesis using ok by (simp add: gotoxy_def on_screen_refl)
next
  case False
  note D = con_okD [OF ok] and B = con_bounds [OF ok]
  let ?r = "video_size_row k"
  have y: "new_y * ?r + ?r \<le> video_num_lines k * ?r" using False by (intro row_le) simp
  have m: "mul32 new_y ?r = new_y * ?r" "mul32 new_x 2 = new_x * 2" using y D B False by (intro mul32_small; linarith)+
  have a: "add32 (origin k) (new_y * ?r) = origin k + new_y * ?r"
      "add32 (origin k + new_y * ?r) (new_x * 2) = origin k + new_y * ?r + new_x * 2"
    using y D B False by (intro add32_small; linarith)+
  define k' where "k' = k\<lparr>con_x := new_x, con_y := new_y, con_pos := origin k + new_y * ?r + new_x * 2\<rparr>"
  have "con_ok k'" by (rule con_okI [OF ok]) (use D False in \<open>simp_all add: k'_def geometry_def\<close>)
  moreover have "gotoxy new_x new_y k = k'" using False by (simp add: gotoxy_def k'_def m a)
  ultimately show ?thesis using ok by (intro on_screen_upd) (simp_all add: k'_def geometry_def)
qed

lemma lf_on_screen:
  assumes ok: "con_ok k"
  shows "on_screen k (lf k)"
proof (cases "add32 (con_y k) 1 < con_bottom k")
  case False
  then show ?thesis using scrup_on_screen [OF ok] by (simp add: lf_def)
next
  case True
  note D = con_okD [OF ok] and B = con_bounds [OF ok]
  have a: "add32 (con_y k) 1 = con_y k + 1" "add32 (con_pos k) (video_size_row k) = con_pos k + video_size_row k"
    using D B by (intro add32_small; linarith)+
  define k' where "k' = k\<lparr>con_y := con_y k + 1, con_pos := con_pos k + video_size_row k\<rparr>"
  have "con_ok k'" by (rule con_okI [OF ok]) (use D True a in \<open>simp_all add: k'_def geometry_def\<close>)
  moreover have "lf k = k'" unfolding lf_def if_P [OF True] unfolding a k'_def ..
  ultimately show ?thesis using ok by (intro on_screen_upd) (simp_all add: k'_def geometry_def)
qed

lemma ri_on_screen:
  assumes ok: "con_ok k"
  shows "on_screen k (ri k)"
proof (cases "con_y k > con_top k")
  case False
  then show ?thesis using scrdown_on_screen [OF ok] by (simp add: ri_def)
next
  case True
  note D = con_okD [OF ok] and B = con_bounds [OF ok]
  obtain y where y: "con_y k = Suc y" using True by (cases "con_y k") auto
  have r: "con_y k * video_size_row k = y * video_size_row k + video_size_row k" by (simp add: y)
  have s: "sub32 (con_pos k) (video_size_row k) = con_pos k - video_size_row k"
    using D B r by (intro sub32_small) linarith+
  define k' where "k' = k\<lparr>con_y := y, con_pos := con_pos k - video_size_row k\<rparr>"
  have "con_ok k'" by (rule con_okI [OF ok]) (use D y r in \<open>simp_all add: k'_def geometry_def\<close>)
  moreover have "ri k = k'" unfolding ri_def if_P [OF True] unfolding s k'_def y by simp
  ultimately show ?thesis using ok by (intro on_screen_upd) (simp_all add: k'_def geometry_def)
qed

text \<open>Moving the cursor within its line.\<close>

lemma move_x_on_screen:
  assumes ok: "con_ok k" and x: "x \<le> video_num_columns k" and p: "p + 2 * con_x k = con_pos k + 2 * x"
  shows "on_screen k (k\<lparr>con_x := x, con_pos := p\<rparr>)"
proof -
  have "con_ok (k\<lparr>con_x := x, con_pos := p\<rparr>)"
    by (rule con_okI [OF ok]) (use con_okD [OF ok] x p in \<open>simp_all add: geometry_def\<close>)
  then show ?thesis using ok by (intro on_screen_upd) simp_all
qed

lemma back_on_screen:
  assumes ok: "con_ok k" and x: "x \<le> con_x k"
  shows "sub32 (con_pos k) (2 * x) = con_pos k - 2 * x" "on_screen k (k\<lparr>con_x := con_x k - x, con_pos := sub32 (con_pos k) (2 * x)\<rparr>)"
proof -
  note D = con_okD [OF ok] and B = con_bounds [OF ok]
  show s: "sub32 (con_pos k) (2 * x) = con_pos k - 2 * x" using D B x by (intro sub32_small) linarith+
  show "on_screen k (k\<lparr>con_x := con_x k - x, con_pos := sub32 (con_pos k) (2 * x)\<rparr>)"
    unfolding s by (rule move_x_on_screen [OF ok]) (use D x in linarith)+
qed

lemma cr_on_screen:
  assumes ok: "con_ok k"
  shows "on_screen k (cr k)"
proof -
  have "mul32 (con_x k) 2 = 2 * con_x k" using con_okD [OF ok] con_bounds [OF ok] by (subst mul32_small) linarith+
  then show ?thesis using back_on_screen(2) [OF ok order.refl] by (simp add: cr_def)
qed

lemma del_on_screen:
  assumes ok: "con_ok k"
  shows "on_screen k (del k)"
proof (cases "con_x k = 0")
  case True
  then show ?thesis using ok by (simp add: del_def on_screen_refl)
next
  case False
  note D = con_okD [OF ok] and B = con_bounds [OF ok]
  have x: "1 \<le> con_x k" using False by simp
  let ?k = "k\<lparr>con_x := con_x k - 1, con_pos := sub32 (con_pos k) 2\<rparr>"
  have s: "sub32 (con_pos k) 2 = con_pos k - 2" and o: "on_screen k ?k" using back_on_screen [OF ok x] by simp_all
  have "on_screen ?k (?k\<lparr>vmem := store16 (con_pos k - 2) (video_erase_char k) (vmem k)\<rparr>)"
  proof (rule on_screen_vmem)
    show "con_ok ?k" using o by (simp add: on_screen_def)
    show "same_outside (origin ?k) (scr_end ?k) (vmem ?k) (store16 (con_pos k - 2) (video_erase_char k) (vmem k))"
      using D B x by (simp, intro same_outside_store16) linarith+
  qed
  moreover have "del k = ?k\<lparr>vmem := store16 (con_pos k - 2) (video_erase_char k) (vmem k)\<rparr>"
    using False by (simp add: del_def s Let_def)
  ultimately show ?thesis using o on_screen_trans by metis
qed

lemma erase_on_screen:
  assumes ok: "con_ok k" and b: "origin k \<le> start" "start + 2 * count \<le> scr_end k"
  shows "on_screen k (erase count start k)"
  unfolding erase_def using con_bounds(4) [OF ok] b
  by (intro on_screen_vmem [OF ok] same_outside_stosw) linarith+

lemma line_start:
  assumes ok: "con_ok k"
  shows "sub32 (con_pos k) (mul32 (con_x k) 2) = origin k + con_y k * video_size_row k"
    "origin k + con_y k * video_size_row k + 2 * video_num_columns k \<le> scr_end k"
proof -
  note D = con_okD [OF ok] and B = con_bounds [OF ok]
  have "mul32 (con_x k) 2 = 2 * con_x k" using D B by (subst mul32_small) linarith+
  then show "sub32 (con_pos k) (mul32 (con_x k) 2) = origin k + con_y k * video_size_row k"
    using back_on_screen(1) [OF ok order.refl] D(7) by simp
  show "origin k + con_y k * video_size_row k + 2 * video_num_columns k \<le> scr_end k" using D B by linarith
qed

lemma csi_J_on_screen:
  assumes ok: "con_ok k"
  shows "on_screen k (csi_J par k)"
proof -
  note D = con_okD [OF ok] and B = con_bounds [OF ok]
  have s: "sub32 (scr_end k) (con_pos k) = scr_end k - con_pos k" "sub32 (con_pos k) (origin k) = con_pos k - origin k"
    using D B by (intro sub32_small; linarith)+
  have e: "video_num_lines k * video_size_row k = 2 * (video_num_columns k * video_num_lines k)" unfolding D(2) by simp
  have m: "mul32 (video_num_columns k) (video_num_lines k) = video_num_columns k * video_num_lines k"
    using D B e by (intro mul32_small) linarith
  have d: "con_pos k + 2 * ((scr_end k - con_pos k) div 2) \<le> scr_end k" "origin k + 2 * ((con_pos k - origin k) div 2) \<le> scr_end k"
    using B by linarith+
  show ?thesis
    unfolding csi_J_def s m using D B d e
    by (auto intro!: erase_on_screen [OF ok] on_screen_refl [OF ok])
qed

lemma csi_K_on_screen:
  assumes ok: "con_ok k"
  shows "on_screen k (csi_K par k)"
proof -
  note D = con_okD [OF ok] and B = con_bounds [OF ok] and l = line_start [OF ok]
  have s: "sub32 (video_num_columns k) (con_x k) = video_num_columns k - con_x k" using D B by (intro sub32_small) linarith+
  show ?thesis
    unfolding csi_K_def s l(1) using D B l(2)
    by (auto intro!: erase_on_screen [OF ok] on_screen_refl [OF ok])
qed

lemma insert_char_on_screen: "con_ok k \<Longrightarrow> on_screen k (insert_char k)"
  unfolding insert_char_def using con_bounds [of k]
  by (intro on_screen_vmem same_outside_shift_right) auto

lemma delete_char_on_screen:
  assumes ok: "con_ok k"
  shows "on_screen k (delete_char k)"
proof (cases "con_x k \<ge> video_num_columns k")
  case False
  then have "con_pos k + 2 * (video_num_columns k - con_x k - 1) + 2 \<le> scr_end k" using con_bounds(5) [OF ok] by linarith
  then show ?thesis
    unfolding delete_char_def if_not_P [OF False] using con_bounds [OF ok]
    by (intro on_screen_vmem [OF ok] same_outside_shift_left) linarith+
qed (simp add: delete_char_def on_screen_refl [OF ok])

lemma region_op_on_screen:
  assumes ok: "con_ok k" and op: "\<And>k. con_ok k \<Longrightarrow> on_screen k (f k)"
  shows "on_screen k ((f (k\<lparr>con_top := con_y k, con_bottom := video_num_lines k\<rparr>))\<lparr>con_top := con_top k, con_bottom := con_bottom k\<rparr>)"
proof -
  let ?k = "k\<lparr>con_top := con_y k, con_bottom := video_num_lines k\<rparr>"
  note D = con_okD [OF ok]
  have "con_ok ?k" by (rule con_okI [OF ok]) (use D in simp_all)
  then have f: "on_screen ?k (f ?k)" by (rule op)
  then have ok': "con_ok (f ?k)" and g: "geometry (f ?k) = geometry k" by (simp_all add: on_screen_def)
  have "con_ok ((f ?k)\<lparr>con_top := con_top k, con_bottom := con_bottom k\<rparr>)"
    by (rule con_okI [OF ok']) (use con_okD [OF ok'] D g in \<open>simp_all add: geometry_def\<close>)
  then show ?thesis using f g by (simp add: on_screen_def)
qed

lemmas insert_line_on_screen = region_op_on_screen [where f = scrdown, folded insert_line_def, OF _ scrdown_on_screen]
lemmas delete_line_on_screen = region_op_on_screen [where f = scrup, folded delete_line_def, OF _ scrup_on_screen]

lemma funpow_on_screen:
  assumes "con_ok k" "\<And>k. con_ok k \<Longrightarrow> on_screen k (f k)"
  shows "on_screen k ((f ^^ n) k)"
proof (induction n)
  case (Suc n)
  then have "con_ok ((f ^^ n) k)" by (simp add: on_screen_def)
  then show ?case using Suc assms(2) on_screen_trans by (metis comp_apply funpow.simps(2))
qed (simp add: on_screen_refl [OF assms(1)])

lemma csi_on_screen:
  assumes "con_ok k"
  shows "on_screen k (csi_at nr k)" "on_screen k (csi_L nr k)" "on_screen k (csi_P nr k)" "on_screen k (csi_M nr k)"
    "on_screen k (csi_m k)" "on_screen k (save_cur k)" "on_screen k (restore_cur k)"
  using assms gotoxy_on_screen [OF assms]
  by (simp_all add: csi_at_def csi_L_def csi_P_def csi_M_def csi_m_def save_cur_def restore_cur_def on_screen_upd
      funpow_on_screen insert_char_on_screen insert_line_on_screen delete_char_on_screen delete_line_on_screen)

lemma on_screen_bind: "on_screen k k' \<Longrightarrow> (con_ok k' \<Longrightarrow> on_screen k' k'') \<Longrightarrow> on_screen k k''"
  using on_screen_trans by (auto simp: on_screen_def)

lemma wrap_line_on_screen:
  assumes ok: "con_ok k" and x: "video_num_columns k \<le> x" "x \<le> video_num_columns k + 8"
    and p: "p + 2 * con_x k = con_pos k + 2 * x"
  shows "on_screen k (wrap_line (k\<lparr>con_x := x, con_pos := p\<rparr>))"
proof -
  note D = con_okD [OF ok] and B = con_bounds [OF ok]
  let ?c = "video_num_columns k" and ?r = "video_size_row k"
  have s: "sub32 x ?c = x - ?c" "sub32 p ?r = p - ?r" using D B x p by (intro sub32_small; linarith)+
  have "on_screen k (k\<lparr>con_x := x - ?c, con_pos := p - ?r\<rparr>)"
    by (rule move_x_on_screen [OF ok]) (use D B x p in linarith)+
  then show ?thesis unfolding wrap_line_def by (rule on_screen_bind) (simp add: s lf_on_screen)
qed

lemma con_x_lf: "con_x (lf k) = con_x k"
  by (simp add: lf_def scrup_def move_up_def set_origin_def Let_def)

lemma put_char_on_screen:
  assumes ok: "con_ok k"
  shows "on_screen k (put_char c k)"
proof -
  define k1 where "k1 = (if con_x k \<ge> video_num_columns k then wrap_line k else k)"
  note D = con_okD [OF ok] and B = con_bounds [OF ok]
  have "on_screen k k1"
  proof (cases "con_x k \<ge> video_num_columns k")
    case True
    then show ?thesis using wrap_line_on_screen [OF ok, of "con_x k" "con_pos k"] D(3) by (simp add: k1_def)
  qed (simp add: k1_def on_screen_refl [OF ok])
  then show ?thesis
  proof (rule on_screen_bind)
    assume ok1: "con_ok k1"
    note D1 = con_okD [OF ok1] and B1 = con_bounds [OF ok1]
    have x: "con_x k1 < video_num_columns k1"
    proof (cases "con_x k \<ge> video_num_columns k")
      case True
      then have "con_x k1 = 0" using D(3) B(7) by (simp add: k1_def wrap_line_def con_x_lf)
      then show ?thesis using D1(1) by linarith
    qed (simp add: k1_def)
    have a: "add32 (con_pos k1) 2 = con_pos k1 + 2" "add32 (con_x k1) 1 = con_x k1 + 1"
      using D1 B1 x by (intro add32_small; linarith)+
    define m where "m = store16 (con_pos k1) (le16 (word_of_int c) (attr k1)) (vmem k1)"
    have "same_outside (origin k1) (scr_end k1) (vmem k1) m"
      unfolding m_def using B1 x by (intro same_outside_store16) linarith+
    from on_screen_vmem [OF ok1 this] have "on_screen k1 ((k1\<lparr>vmem := m\<rparr>)\<lparr>con_x := con_x k1 + 1, con_pos := con_pos k1 + 2\<rparr>)"
      by (rule on_screen_bind) (rule move_x_on_screen, use x in simp_all)
    moreover have "put_char c k = (k1\<lparr>vmem := m\<rparr>)\<lparr>con_x := con_x k1 + 1, con_pos := con_pos k1 + 2\<rparr>"
      unfolding put_char_def Let_def k1_def [symmetric] m_def a by simp
    ultimately show "on_screen k1 (put_char c k)" by simp
  qed
qed

lemma tab_on_screen:
  assumes ok: "con_ok k"
  shows "on_screen k (tab k)"
proof -
  note D = con_okD [OF ok] and B = con_bounds [OF ok]
  define d where "d = 8 - con_x k mod 8"
  have d: "0 < d" "d \<le> 8" by (simp_all add: d_def)
  have a: "add32 (con_x k) d = con_x k + d" "add32 (con_pos k) (2 * d) = con_pos k + 2 * d"
    using D B d by (intro add32_small; linarith)+
  have "tab k = (if con_x k + d > video_num_columns k then wrap_line (k\<lparr>con_x := con_x k + d, con_pos := con_pos k + 2 * d\<rparr>)
      else k\<lparr>con_x := con_x k + d, con_pos := con_pos k + 2 * d\<rparr>)"
    unfolding tab_def Let_def d_def [symmetric] a by simp
  moreover have "on_screen k (wrap_line (k\<lparr>con_x := con_x k + d, con_pos := con_pos k + 2 * d\<rparr>))"
    if "con_x k + d > video_num_columns k"
    using D d that by (intro wrap_line_on_screen [OF ok]) (simp_all add: algebra_simps)
  moreover have "on_screen k (k\<lparr>con_x := con_x k + d, con_pos := con_pos k + 2 * d\<rparr>)"
    if "\<not> con_x k + d > video_num_columns k"
    using that by (intro move_x_on_screen [OF ok]) (simp_all add: algebra_simps)
  ultimately show ?thesis by simp
qed

lemma on_screen_state: "con_ok k \<Longrightarrow> n \<le> 3 \<Longrightarrow> on_screen k (k\<lparr>con_state := n\<rparr>)"
  by (rule on_screen_upd) (simp_all add: con_state_ok)

lemma plain_char_on_screen:
  assumes ok: "con_ok k"
  shows "on_screen k (fst (plain_char ec c k))"
  using back_on_screen(2) [OF ok, of 1]
  by (simp add: plain_char_def put_char_on_screen [OF ok] lf_on_screen [OF ok] cr_on_screen [OF ok] del_on_screen [OF ok]
      tab_on_screen [OF ok] on_screen_state [OF ok] on_screen_refl [OF ok])

lemma escape_char_on_screen:
  assumes ok: "con_ok k"
  shows "on_screen k (fst (escape_char c k))"
proof -
  define k0 where "k0 = k\<lparr>con_state := 0\<rparr>"
  have "on_screen k k0" unfolding k0_def by (rule on_screen_state [OF ok]) simp
  then show ?thesis
  proof (rule on_screen_bind)
    assume ok0: "con_ok k0"
    show "on_screen k0 (fst (escape_char c k))"
      unfolding escape_char_def Let_def k0_def [symmetric]
      by (simp add: on_screen_state [OF ok0] gotoxy_on_screen [OF ok0] ri_on_screen [OF ok0] lf_on_screen [OF ok0]
          csi_on_screen [OF ok0] on_screen_refl [OF ok0])
  qed
qed

lemma param_gotoxy_on_screen:
  assumes "con_ok k"
  shows "on_screen k (gotoxy x y (k\<lparr>con_par := p\<rparr>))"
  by (rule on_screen_bind [OF on_screen_upd gotoxy_on_screen]) (simp_all add: assms)

lemma final_char_on_screen:
  assumes ok: "con_ok (k\<lparr>con_state := 0\<rparr>)"
  shows "on_screen (k\<lparr>con_state := 0\<rparr>) (final_char c k)"
proof -
  define k0 where "k0 = k\<lparr>con_state := 0\<rparr>"
  have ok0: "con_ok k0" using ok by (simp add: k0_def)
  have region: "on_screen k0 (k0\<lparr>con_par := p, con_top := t, con_bottom := b\<rparr>)" if "t < b" "b \<le> video_num_lines k0" for p t b
  proof -
    have "con_ok (k0\<lparr>con_par := p, con_top := t, con_bottom := b\<rparr>)"
      by (rule con_okI [OF ok0]) (use con_okD [OF ok0] that in \<open>simp_all add: geometry_def\<close>)
    then show ?thesis using ok0 by (intro on_screen_upd) (simp_all add: geometry_def)
  qed
  have par: "on_screen k0 (k0\<lparr>con_par := p\<rparr>)" for p by (rule on_screen_upd) (simp_all add: ok0)
  show ?thesis
    unfolding final_char_def Let_def k0_def [symmetric]
    by (simp add: param_gotoxy_on_screen [OF ok0] csi_J_on_screen [OF ok0] csi_K_on_screen [OF ok0] csi_on_screen [OF ok0]
        region par on_screen_refl [OF ok0])
qed

lemma npar_ok: "con_ok k \<Longrightarrow> n < NPAR \<Longrightarrow> con_ok (k\<lparr>npar := n\<rparr>)"
  by (rule con_okI) (use con_okD [of k] in \<open>simp_all add: geometry_def\<close>)

lemma param_char_on_screen:
  assumes ok: "con_ok k"
  shows "on_screen k (param_char c k)"
proof -
  have z: "on_screen k (k\<lparr>con_state := 0\<rparr>)" using on_screen_state [OF ok, of 0] by simp
  have fin: "on_screen k (final_char c (k\<lparr>con_state := 4\<rparr>))"
    using z final_char_on_screen [of "k\<lparr>con_state := 4\<rparr>" c] by (intro on_screen_bind [OF z]) simp
  have np: "on_screen k (k\<lparr>npar := npar k + 1\<rparr>)" if "npar k < 15"
    using that ok npar_ok [OF ok, of "npar k + 1"] by (intro on_screen_upd) simp_all
  show ?thesis
    unfolding param_char_def using fin np on_screen_upd [OF ok] ok by simp
qed

lemma con_char_on_screen:
  assumes ok: "con_ok k"
  shows "on_screen k (fst (con_char ec c k))"
proof -
  define k2 where "k2 = k\<lparr>con_par := (\<lambda>i. if i < NPAR then 0 else con_par k i), npar := 0, con_state := 3, ques := (c = 0x3f)\<rparr>"
  have s: "con_state k \<le> 3" using con_okD [OF ok] by simp
  have "con_ok k2" by (rule con_okI [OF ok]) (use con_okD [OF ok] in \<open>simp_all add: k2_def geometry_def\<close>)
  then have k2: "on_screen k k2" using ok by (intro on_screen_upd) (simp_all add: k2_def geometry_def)
  then have par: "on_screen k (param_char c k2)" by (rule on_screen_bind) (rule param_char_on_screen)
  show ?thesis
    unfolding con_char_def Let_def k2_def [symmetric]
    using s k2 par plain_char_on_screen [OF ok] escape_char_on_screen [OF ok] param_char_on_screen [OF ok] by simp
qed

subsection \<open>Writing a queue of characters\<close>

text \<open>The console after a list of characters, and what they ask for beside it.\<close>

fun con_chars :: "int \<Rightarrow> u8 list \<Rightarrow> console \<Rightarrow> console \<times> con_event list" where
  "con_chars ec [] k = (k, [])"
| "con_chars ec (c # cs) k =
     (let (k, e) = con_char ec (sint c) k; (k, es) = con_chars ec cs k in (k, e # es))"

lemma con_chars_on_screen: "con_ok k \<Longrightarrow> on_screen k (fst (con_chars ec cs k))"
proof (induction cs arbitrary: k)
  case (Cons c cs)
  have "on_screen k (fst (con_char ec (sint c) k))" using Cons.prems by (rule con_char_on_screen)
  then have "on_screen k (fst (con_chars ec cs (fst (con_char ec (sint c) k))))" by (rule on_screen_bind) (rule Cons.IH)
  then show ?case by (simp add: Let_def case_prod_beta)
qed (simp add: on_screen_refl)

lemma con_event_quiet: "e \<noteq> Respond \<Longrightarrow> \<exists>t. con_event_effect E n e s = Ret () t \<and> tty_table t = tty_table s"
  by (cases e) (simp_all add: con_event_effect_def)

lemma con_write_loop:
  assumes "q_ok (write_q (tty_table s n))" "length is = length (q_items (write_q (tty_table s n)))"
    "ec = ERASE_CHAR (tty_table s n)" "Respond \<notin> set (snd (con_chars ec (q_items (write_q (tty_table s n))) k))"
  shows "\<exists>t. kfor (\<lambda>_ k s.
         let (ch, q) = GETCH (write_q (tty_table s n));
             s = upd_tty n (\<lambda>t. t\<lparr>write_q := q\<rparr>) s;
             (k, e) = con_char (ERASE_CHAR (tty_table s n)) (sint ch) k in
         kbind (con_event_effect E n e s) (\<lambda>_ s. Ret k s)) is k s
     = Ret (fst (con_chars ec (q_items (write_q (tty_table s n))) k)) t \<and> EMPTY (write_q (tty_table t n))"
  using assms
proof (induction "is" arbitrary: k s)
  case Nil
  then show ?case using q_tests(1) [OF Nil.prems(1)] by simp
next
  case (Cons i "is")
  let ?q = "write_q (tty_table s n)"
  obtain ch q where g: "GETCH ?q = (ch, q)" by (cases "GETCH ?q")
  have ne: "q_items ?q \<noteq> []" using Cons.prems(2) by auto
  have q: "q_ok q" "q_items ?q = ch # q_items q"
    using ttyq.get_ok [OF Cons.prems(1) ne] ttyq.items_get [OF Cons.prems(1) ne] ne g by auto
  define s1 where "s1 = upd_tty n (\<lambda>t. t\<lparr>write_q := q\<rparr>) s"
  have s1: "write_q (tty_table s1 n) = q" "ERASE_CHAR (tty_table s1 n) = ec"
    using Cons.prems(3) by (simp_all add: s1_def upd_tty_def cc_char_def)
  obtain k1 e where ke: "con_char ec (sint ch) k = (k1, e)" by (cases "con_char ec (sint ch) k")
  have "e \<noteq> Respond" "Respond \<notin> set (snd (con_chars ec (q_items q) k1))"
    using Cons.prems(4) q ke by (auto simp: Let_def split: prod.splits)
  moreover then obtain t1 where t1: "con_event_effect E n e s1 = Ret () t1" "tty_table t1 = tty_table s1"
    using con_event_quiet by blast
  ultimately have "\<exists>t. kfor (\<lambda>_ k s.
         let (ch, q) = GETCH (write_q (tty_table s n));
             s = upd_tty n (\<lambda>t. t\<lparr>write_q := q\<rparr>) s;
             (k, e) = con_char (ERASE_CHAR (tty_table s n)) (sint ch) k in
         kbind (con_event_effect E n e s) (\<lambda>_ s. Ret k s)) is k1 t1
     = Ret (fst (con_chars ec (q_items q) k1)) t \<and> EMPTY (write_q (tty_table t n))"
    using Cons.IH [of t1 k1] Cons.prems(2) q s1 t1(2) by simp
  moreover have "fst (con_chars ec (q_items ?q) k) = fst (con_chars ec (q_items q) k1)"
    using q ke by (simp add: Let_def split: prod.splits)
  ultimately show ?case using g ke t1 s1 by (simp add: s1_def [symmetric])
qed

lemma crt_word_cell: "crt_word a = (a div 2) mod 65536"
proof -
  have "a div 2 mod (256 * 256) = 256 * (a div 2 div 256 mod 256) + a div 2 mod 256" by (rule mod_mult2_eq)
  moreover have "a div 2 div 256 = a div 512" by (simp add: div_mult2_eq [symmetric])
  ultimately show ?thesis by (simp add: crt_word_def)
qed

text \<open>Whatever the characters are, and whatever the terminal's answer does to the kernel, each round of the loop
  leaves the console on the screen.\<close>

lemma kfor_on_screen:
  assumes "\<And>i k s k' t. f i k s = Ret k' t \<Longrightarrow> con_ok k \<Longrightarrow> on_screen k k'"
  shows "kfor f is k s = Ret k' t \<Longrightarrow> con_ok k \<Longrightarrow> on_screen k k'"
proof (induction "is" arbitrary: k s)
  case (Cons i "is")
  from Cons.prems(1) obtain k1 u where "f i k s = Ret k1 u" "kfor f is k1 u = Ret k' t"
    by (auto simp: kbind_eq_Ret_iff)
  then show ?case using assms Cons.IH Cons.prems(2) on_screen_trans by (metis on_screen_def)
qed (simp add: on_screen_refl)

lemma con_write_rounds:
  assumes "con_write E n k s = Ret k' t" "con_ok k"
  shows "\<exists>k1. on_screen k k1 \<and> k' = set_cursor k1"
proof -
  let ?f = "\<lambda>_ k s. let (ch, q) = GETCH (write_q (tty_table s n));
             s = upd_tty n (\<lambda>t. t\<lparr>write_q := q\<rparr>) s;
             (k, e) = con_char (ERASE_CHAR (tty_table s n)) (sint ch) k in
         kbind (con_event_effect E n e s) (\<lambda>_ s. Ret k s)"
  have round: "on_screen k k'" if "?f i k s = Ret k' t" "con_ok k" for i :: nat and k k' s t
    using that con_char_on_screen by (auto simp: kbind_eq_Ret_iff Let_def case_prod_beta)
  from assms(1) obtain k1 where "kfor ?f [0..<unat (CHARS (write_q (tty_table s n)))] k s = Ret k1 t" "k' = set_cursor k1"
    by (auto simp: con_write_def kbind_eq_Ret_iff simp del: upt.simps)
  moreover have "on_screen k k1" if "kfor ?f is k s = Ret k1 t" for "is" :: "nat list" and k1
    by (rule kfor_on_screen [OF _ that assms(2)]) (rule round)
  ultimately show ?thesis by blast
qed

lemma set_cursor_on_screen:
  assumes "on_screen k k'"
  shows "on_screen k (set_cursor k')"
    "crt_cursor (set_cursor k') = (con_pos (set_cursor k') - video_mem_start (set_cursor k')) div 2 mod 65536"
proof -
  have ok: "con_ok k'" using assms by (simp add: on_screen_def)
  note D = con_okD [OF ok] and B = con_bounds [OF ok]
  have "sub32 (con_pos k') (video_mem_start k') = con_pos k' - video_mem_start k'"
    using D B by (intro sub32_small) linarith+
  then show "crt_cursor (set_cursor k') = (con_pos (set_cursor k') - video_mem_start (set_cursor k')) div 2 mod 65536"
    by (simp add: set_cursor_def crt_word_cell)
  show "on_screen k (set_cursor k')" using assms by (simp add: on_screen_def set_cursor_def)
qed


text \<open>A freshly initialised colour adapter.\<close>

definition cga_boot :: boot_screen where
  "cga_boot = \<lparr>ORIG_X = 0, ORIG_Y = 24, ORIG_VIDEO_PAGE = 0, ORIG_VIDEO_MODE = 3, ORIG_VIDEO_COLS = 80, ORIG_VIDEO_EGA_BX = 0x10\<rparr>"

definition zero_console :: console where
  "zero_console = \<lparr>video_type = 0, video_num_columns = 0, video_size_row = 0, video_num_lines = 0, video_page = 0,
     video_mem_start = 0, video_mem_end = 0, video_port_reg = 0, video_port_val = 0, video_erase_char = 0, origin = 0, scr_end = 0, con_pos = 0, con_x = 0, con_y = 0, con_top = 0,
     con_bottom = 0, con_state = 0, npar = 0, con_par = (\<lambda>_. 0), ques = False, attr = 7, saved_x = 0, saved_y = 0,
     vmem = (\<lambda>_. 0), crt_origin = 0, crt_cursor = 0\<rparr>"

lemma con_init_inv:
  assumes "8 \<le> unat (ORIG_VIDEO_COLS b)" "unat (ORIG_VIDEO_COLS b) \<le> 163"
    "unat (ORIG_X b) \<le> unat (ORIG_VIDEO_COLS b)" "unat (ORIG_Y b) < 25" "con_state k = 0" "npar k = 0"
  shows "con_ok (con_init b k) \<and> con_x (con_init b k) = unat (ORIG_X b) \<and> con_y (con_init b k) = unat (ORIG_Y b) \<and>
    origin (con_init b k) = video_mem_start (con_init b k) \<and> con_top (con_init b k) = 0 \<and>
    con_bottom (con_init b k) = 25 \<and> video_num_lines (con_init b k) = 25"
proof -
  let ?c = "unat (ORIG_VIDEO_COLS b)" and ?x = "unat (ORIG_X b)" and ?y = "unat (ORIG_Y b)"
  have "?y * (2 * ?c) \<le> 24 * 326" by (rule mult_le_mono) (use assms in simp_all)
  then have "add32 (add32 a (mul32 ?y (2 * ?c))) (2 * ?x) = 2 * ?x + (2 * (?c * ?y) + a)" if "a \<le> 753664" for a
    using assms that by (simp add: algebra_simps)
  then show ?thesis using assms by (simp add: con_init_def Let_def gotoxy_def con_ok_def algebra_simps)
qed

text \<open>C27: \<^verbatim>\<open>con_init\<close> establishes the console's invariant for each of the four adapters it knows, given a
  BIOS screen of 8 to 163 columns with the cursor on it: 25 lines of that many columns at the start of
  the adapter's memory, the whole screen as the scrolling region, the cursor where the BIOS left it.\<close>

theorem con_init_ok:
  assumes "8 \<le> unat (ORIG_VIDEO_COLS b)" "unat (ORIG_VIDEO_COLS b) \<le> 163"
    "unat (ORIG_X b) \<le> unat (ORIG_VIDEO_COLS b)" "unat (ORIG_Y b) < 25" "con_state k = 0" "npar k = 0"
  shows "con_ok (con_init b k) \<and> con_x (con_init b k) = unat (ORIG_X b) \<and> con_y (con_init b k) = unat (ORIG_Y b) \<and>
    origin (con_init b k) = video_mem_start (con_init b k) \<and> con_top (con_init b k) = 0 \<and>
    con_bottom (con_init b k) = 25 \<and> video_num_lines (con_init b k) = 25"
  using assms by (rule con_init_inv)

theorem con_init_ok_witness:
  "con_ok (con_init cga_boot zero_console) \<and> con_y (con_init cga_boot zero_console) = 24 \<and>
   video_mem_end (con_init cga_boot zero_console) = 0xba000"
  using con_init_ok [of cga_boot zero_console]
  by (simp add: cga_boot_def zero_console_def) (simp add: con_init_def gotoxy_def Let_def)

text \<open>The characters \<^verbatim>\<open>h\<close>, newline, \<^verbatim>\<open>i\<close> wait for the console.\<close>

definition hi_state :: kernel where
  "hi_state = upd_tty 0 (\<lambda>t. t\<lparr>write_q := fold PUTCH [104, 10, 105] zero_queue\<rparr>) k0"

lemma hi_state: "q_ok (write_q (tty_table hi_state 0))" "q_items (write_q (tty_table hi_state 0)) = [104, 10, 105]"
proof -
  have z: "q_ok zero_queue" "q_items zero_queue = []"
    by (simp_all add: zero_queue_def q_ok_def q_items_def CHARS_def)
  have w: "write_q (tty_table hi_state 0) = fold PUTCH [104, 10, 105] zero_queue"
    by (simp only: hi_state_def upd_tty_def) simp
  show "q_ok (write_q (tty_table hi_state 0))" "q_items (write_q (tty_table hi_state 0)) = [104, 10, 105]"
    unfolding w using ttyq.put_all [OF z(1), of "[104, 10, 105]"] z(2) by simp_all
qed

lemma cga_console: "con_ok (con_init cga_boot zero_console)" "con_state (con_init cga_boot zero_console) = 0"
  by (simp_all add: con_init_def cga_boot_def zero_console_def gotoxy_def con_ok_def Let_def)

lemma con_state_lf: "con_state (lf k) = con_state k"
  by (simp add: lf_def scrup_def move_up_def set_origin_def Let_def)

lemma con_state_moves: "con_state (put_char c k) = con_state k" "con_state (tab k) = con_state k"
  "con_state (del k) = con_state k" "con_state (cr k) = con_state k"
  by (simp_all add: put_char_def tab_def wrap_line_def con_state_lf del_def cr_def Let_def)

lemma con_state_plain: "con_state k = 0 \<Longrightarrow> c \<noteq> 27 \<Longrightarrow> con_state (fst (con_char ec c k)) = 0 \<and> snd (con_char ec c k) \<noteq> Respond"
  by (simp add: con_char_def plain_char_def con_state_lf con_state_moves)

lemma plain_text_quiet:
  "con_state k = 0 \<Longrightarrow> 27 \<notin> set cs \<Longrightarrow> Respond \<notin> set (snd (con_chars ec cs k))"
proof (induction cs arbitrary: k)
  case (Cons c cs)
  have "sint c \<noteq> 27"
  proof
    assume "sint c = 27"
    then have "word_of_int (sint c) = (27 :: u8)" by simp
    then have "c = 27" by simp
    then show False using Cons.prems by simp
  qed
  then show ?case using Cons con_state_plain [of k "sint c" ec] by (auto simp: Let_def case_prod_beta)
qed simp


end
