(* ===== verification/Buffer.thy ===== *)
theory Buffer
  imports BlkDev
begin

text \<open>
  fs/buffer.c: the buffer cache, a hash table of chains and a circular list of all buffers in the
  order of their last use.

  \<^verbatim>\<open>getblk\<close> calls \<^verbatim>\<open>sync_dev\<close>, which calls \<^verbatim>\<open>sync_inodes\<close> of fs/inode.c, which reads
  blocks through \<^verbatim>\<open>bread\<close> and so through \<^verbatim>\<open>getblk\<close> again. Here the functions below that knot
  take \<^verbatim>\<open>sync_dev\<close> as an argument \<open>sync\<close>; the theory of the inodes ties it, with a bound on the
  depth of the recursion.
\<close>

subsection \<open>Hash chains and the free list\<close>

definition hashfn :: "u16 \<Rightarrow> u32 \<Rightarrow> nat" where
  "hashfn dev block = unat (ucast dev XOR block) mod NR_HASH"

text \<open>\<^verbatim>\<open>bh->b_next->b_prev = bh\<close> at the end of \<^verbatim>\<open>insert_into_queues\<close> follows a null pointer when the
  chain was empty. The field \<^verbatim>\<open>b_prev\<close> is at offset 20 and buffer heads are 36 bytes, so the
  store goes to physical address 20, where the sixth entry of the page directory is.\<close>

definition buf_addr :: "nat \<Rightarrow> kernel \<Rightarrow> u32" where
  "buf_addr i s = start_buffer s + 36 * of_nat i"

definition remove_from_queues :: "nat \<Rightarrow> kernel \<Rightarrow> unit kres" where
  "remove_from_queues bh s =
     (let s = (case b_next (bufs s bh) of None \<Rightarrow> s
               | Some n \<Rightarrow> upd_buf n (\<lambda>b. b\<lparr>b_prev := b_prev (bufs s bh)\<rparr>) s);
          s = (case b_prev (bufs s bh) of None \<Rightarrow> s
               | Some p \<Rightarrow> upd_buf p (\<lambda>b. b\<lparr>b_next := b_next (bufs s bh)\<rparr>) s);
          h = hashfn (b_dev (bufs s bh)) (b_blocknr (bufs s bh));
          s = (if hash_table s h = Some bh
               then s\<lparr>hash_table := (hash_table s)(h := b_next (bufs s bh))\<rparr> else s) in
      case (b_prev_free (bufs s bh), b_next_free (bufs s bh)) of
        (Some p, Some n) \<Rightarrow>
          let s = upd_buf p (\<lambda>b. b\<lparr>b_next_free := b_next_free (bufs s bh)\<rparr>) s;
              s = upd_buf n (\<lambda>b. b\<lparr>b_prev_free := b_prev_free (bufs s bh)\<rparr>) s in
          Ret () (if free_list s = Some bh then s\<lparr>free_list := b_next_free (bufs s bh)\<rparr> else s)
      | _ \<Rightarrow> Panic ''Free block list corrupted'' s)"

definition insert_into_queues :: "nat \<Rightarrow> kernel \<Rightarrow> unit kres" where
  "insert_into_queues bh s =
     (case free_list s of
        None \<Rightarrow> Fault
      | Some f \<Rightarrow>
          let s = upd_buf bh (\<lambda>b. b\<lparr>b_next_free := Some f\<rparr>) s;
              s = upd_buf bh (\<lambda>b. b\<lparr>b_prev_free := b_prev_free (bufs s f)\<rparr>) s in
          (case b_prev_free (bufs s f) of
            None \<Rightarrow> Fault
          | Some l \<Rightarrow>
              let s = upd_buf l (\<lambda>b. b\<lparr>b_next_free := Some bh\<rparr>) s;
                  s = upd_buf f (\<lambda>b. b\<lparr>b_prev_free := Some bh\<rparr>) s;
                  s = upd_buf bh (\<lambda>b. b\<lparr>b_prev := None, b_next := None\<rparr>) s in
              if b_dev (bufs s bh) = 0 then Ret () s
              else let h = hashfn (b_dev (bufs s bh)) (b_blocknr (bufs s bh));
                       s = upd_buf bh (\<lambda>b. b\<lparr>b_next := hash_table s h\<rparr>) s;
                       s = s\<lparr>hash_table := (hash_table s)(h := Some bh)\<rparr> in
                Ret () (case b_next (bufs s bh) of
                          None \<Rightarrow> s\<lparr>phys := (phys s)(20 := buf_addr bh s)\<rparr>
                        | Some n \<Rightarrow> upd_buf n (\<lambda>b. b\<lparr>b_prev := Some bh\<rparr>) s)))"

definition find_buffer :: "env \<Rightarrow> u16 \<Rightarrow> u32 \<Rightarrow> kernel \<Rightarrow> nat option kres" where
  "find_buffer E dev block s =
     kwhile (fuel E) (\<lambda>tmp s. case tmp of
         None \<Rightarrow> Ret (Inr None) s
       | Some i \<Rightarrow> if b_dev (bufs s i) = dev \<and> b_blocknr (bufs s i) = block then Ret (Inr (Some i)) s
                   else Ret (Inl (b_next (bufs s i))) s)
       (hash_table s (hashfn dev block)) s"

definition get_hash_table :: "env \<Rightarrow> u16 \<Rightarrow> u32 \<Rightarrow> kernel \<Rightarrow> nat option kres" where
  "get_hash_table E dev block s =
     kloop (fuel E) (\<lambda>s. kbind (find_buffer E dev block s) (\<lambda>r s.
       case r of
         None \<Rightarrow> Ret (Some None) s
       | Some bh \<Rightarrow>
           let s = upd_buf bh (\<lambda>b. b\<lparr>b_count := b_count b + 1\<rparr>) s in
           kbind (wait_on_buffer E bh s) (\<lambda>_ s.
             if b_dev (bufs s bh) = dev \<and> b_blocknr (bufs s bh) = block then Ret (Some (Some bh)) s
             else Ret None (upd_buf bh (\<lambda>b. b\<lparr>b_count := b_count b - 1\<rparr>) s)))) s"

subsection \<open>Getting a buffer\<close>

definition BADNESS :: "buffer_head \<Rightarrow> nat" where
  "BADNESS b = (if b_dirt b then 2 else 0) + (if b_lock b then 1 else 0)"

text \<open>One round of the scan of the free list: \<open>tmp\<close> is the buffer looked at, \<open>bh\<close> the best one so
  far.\<close>

definition scan_free_step :: "nat \<times> nat option \<Rightarrow> kernel \<Rightarrow> (kernel, nat \<times> nat option + nat option) outcome" where
  "scan_free_step = (\<lambda>(tmp, bh) s.
     let better = (b_count (bufs s tmp) = 0 \<and>
           (case bh of None \<Rightarrow> True | Some b \<Rightarrow> BADNESS (bufs s tmp) < BADNESS (bufs s b)));
         bh = (if better then Some tmp else bh) in
     if better \<and> BADNESS (bufs s tmp) = 0 then Ret (Inr bh) s
     else case b_next_free (bufs s tmp) of
       None \<Rightarrow> Fault
     | Some n \<Rightarrow> if free_list s = Some n then Ret (Inr bh) s else Ret (Inl (n, bh)) s)"

definition scan_free :: "env \<Rightarrow> kernel \<Rightarrow> nat option kres" where
  "scan_free E s =
     (case free_list s of
        None \<Rightarrow> Fault
      | Some f \<Rightarrow> kwhile (fuel E) scan_free_step (f, None) s)"

text \<open>\<open>write_out\<close> is the loop that cleans the chosen buffer; its result says whether to start again.\<close>

definition write_out :: "env \<Rightarrow> (u16 \<Rightarrow> kernel \<Rightarrow> int kres) \<Rightarrow> nat \<Rightarrow> kernel \<Rightarrow> bool kres" where
  "write_out E sync bh s =
     kloop (fuel E) (\<lambda>s.
       if \<not> b_dirt (bufs s bh) then Ret (Some False) s
       else kbind (sync (b_dev (bufs s bh)) s) (\<lambda>_ s.
            kbind (wait_on_buffer E bh s) (\<lambda>_ s.
              if b_count (bufs s bh) \<noteq> 0 then Ret (Some True) s else Ret None s))) s"

definition getblk_with :: "env \<Rightarrow> (u16 \<Rightarrow> kernel \<Rightarrow> int kres) \<Rightarrow> u16 \<Rightarrow> u32 \<Rightarrow> kernel \<Rightarrow> nat kres" where
  "getblk_with E sync dev block s =
     kloop (fuel E) (\<lambda>s. kbind (get_hash_table E dev block s) (\<lambda>r s.
       case r of
         Some bh \<Rightarrow> Ret (Some bh) s
       | None \<Rightarrow> kbind (scan_free E s) (\<lambda>r s.
           case r of
             None \<Rightarrow> kbind (sleep_on E Buffer_wait s) (\<lambda>_ s. Ret None s)
           | Some bh \<Rightarrow>
               kbind (wait_on_buffer E bh s) (\<lambda>_ s.
               if b_count (bufs s bh) \<noteq> 0 then Ret None s
               else kbind (write_out E sync bh s) (\<lambda>again s.
                 if again then Ret None s
                 else kbind (find_buffer E dev block s) (\<lambda>r s.
                   if r \<noteq> None then Ret None s
                   else let s = upd_buf bh (\<lambda>b. b\<lparr>b_count := 1, b_dirt := False, b_uptodate := False\<rparr>) s in
                     kbind (remove_from_queues bh s) (\<lambda>_ s.
                       let s = upd_buf bh (\<lambda>b. b\<lparr>b_dev := dev, b_blocknr := block\<rparr>) s in
                       kbind (insert_into_queues bh s) (\<lambda>_ s. Ret (Some bh) s)))))))) s"

definition brelse :: "env \<Rightarrow> nat option \<Rightarrow> kernel \<Rightarrow> unit kres" where
  "brelse E buf s =
     (case buf of
        None \<Rightarrow> Ret () s
      | Some b \<Rightarrow>
          kbind (wait_on_buffer E b s) (\<lambda>_ s.
            let old = b_count (bufs s b);
                s = upd_buf b (\<lambda>x. x\<lparr>b_count := b_count x - 1\<rparr>) s in
            if old = 0 then Panic ''Trying to free free buffer'' s
            else Ret () (wake_up Buffer_wait s)))"

text \<open>The common end of \<^verbatim>\<open>bread\<close> and \<^verbatim>\<open>breada\<close>: wait for the read and check it.\<close>

definition finish_read :: "env \<Rightarrow> nat \<Rightarrow> kernel \<Rightarrow> nat option kres" where
  "finish_read E bh s =
     kbind (wait_on_buffer E bh s) (\<lambda>_ s.
       if b_uptodate (bufs s bh) then Ret (Some bh) s
       else kbind (brelse E (Some bh) s) (\<lambda>_ s. Ret None s))"

definition bread_with :: "env \<Rightarrow> (u16 \<Rightarrow> kernel \<Rightarrow> int kres) \<Rightarrow> u16 \<Rightarrow> u32 \<Rightarrow> kernel \<Rightarrow> nat option kres" where
  "bread_with E sync dev block s =
     kbind (getblk_with E sync dev block s) (\<lambda>bh s.
       if b_uptodate (bufs s bh) then Ret (Some bh) s
       else kbind (ll_rw_block E READ bh s) (\<lambda>_ s. finish_read E bh s))"

subsection \<open>Synchronisation\<close>

text \<open>The loop that \<^verbatim>\<open>sync_dev\<close> runs twice.\<close>

definition write_dirty :: "env \<Rightarrow> u16 \<Rightarrow> kernel \<Rightarrow> unit kres" where
  "write_dirty E dev s =
     kfor (\<lambda>bh _ s.
       if b_dev (bufs s bh) \<noteq> dev then Ret () s
       else kbind (wait_on_buffer E bh s) (\<lambda>_ s.
         if b_dev (bufs s bh) = dev \<and> b_dirt (bufs s bh) then ll_rw_block E WRITE bh s else Ret () s))
       [0..<NR_BUFFERS s] () s"

definition invalidate_buffers :: "env \<Rightarrow> u16 \<Rightarrow> kernel \<Rightarrow> unit kres" where
  "invalidate_buffers E dev s =
     kfor (\<lambda>bh _ s.
       if b_dev (bufs s bh) \<noteq> dev then Ret () s
       else kbind (wait_on_buffer E bh s) (\<lambda>_ s.
         Ret () (if b_dev (bufs s bh) = dev
                 then upd_buf bh (\<lambda>b. b\<lparr>b_uptodate := False, b_dirt := False\<rparr>) s else s)))
       [0..<NR_BUFFERS s] () s"

subsection \<open>Initialisation\<close>

text \<open>The set-up loop; \<open>h\<close> counts the buffer heads, \<open>b\<close> is the end of the memory still free. The data
  blocks are not addressed in the model, each is part of its buffer head. The first head's
  \<^verbatim>\<open>b_prev_free\<close>, one before the table, is overwritten when the ring is closed.\<close>

definition buffer_init_step :: "nat \<times> u32 \<Rightarrow> kernel \<Rightarrow> (kernel, nat \<times> u32 + nat) outcome" where
  "buffer_init_step = (\<lambda>(h, b) s.
     let b = b - 1024 in
     if b \<ge> buf_addr (h + 1) s then
       let s = upd_buf h (\<lambda>x. x\<lparr>b_dev := 0, b_dirt := False, b_count := 0, b_lock := False,
                 b_uptodate := False, b_next := None, b_prev := None,
                 b_prev_free := (if h = 0 then None else Some (h - 1)), b_next_free := Some (h + 1)\<rparr>) s;
           s = s\<lparr>wq := (wq s)(B_wait h := 0), NR_BUFFERS := NR_BUFFERS s + 1\<rparr> in
       Ret (Inl (h + 1, if b = 0x100000 then 0xA0000 else b)) s
     else Ret (Inr h) s)"

definition buffer_init :: "env \<Rightarrow> u32 \<Rightarrow> kernel \<Rightarrow> unit kres" where
  "buffer_init E buffer_end s =
     (let b = (if buffer_end = push_bit 20 1 then 640 * 1024 else buffer_end) in
      kbind (kwhile (fuel E) buffer_init_step (0, b) s) (\<lambda>h s.
        if h = 0 then Fault
        else let s = s\<lparr>free_list := Some 0\<rparr>;
                 s = upd_buf 0 (\<lambda>x. x\<lparr>b_prev_free := Some (h - 1)\<rparr>) s;
                 s = upd_buf (h - 1) (\<lambda>x. x\<lparr>b_next_free := Some 0\<rparr>) s in
          Ret () (s\<lparr>hash_table := (\<lambda>i. if i < NR_HASH then None else hash_table s i)\<rparr>)))"

end
