(* ===== verification/InodeIO.thy ===== *)
theory InodeIO
  imports Buffer
begin

text \<open>
  Reading and writing inodes and blocks: the locks and the disk format of fs/inode.c, the look-up of a
  super block (fs/super.c), and the knot of fs/buffer.c and fs/inode.c, \<^verbatim>\<open>sync_dev\<close>, \<^verbatim>\<open>getblk\<close>,
  \<^verbatim>\<open>bread\<close>, \<^verbatim>\<open>sync_inodes\<close>, tied with a bound on the depth of the recursion.
\<close>

subsection \<open>Locks\<close>

definition wait_on_inode :: "env \<Rightarrow> nat \<Rightarrow> kernel \<Rightarrow> unit kres" where
  "wait_on_inode E i s =
     kloop (fuel E) (\<lambda>s. if i_lock (inode_table s i)
                         then kbind (sleep_on E (I_wait i) s) (\<lambda>_ s. Ret None s)
                         else Ret (Some ()) s) s"

definition lock_inode :: "env \<Rightarrow> nat \<Rightarrow> kernel \<Rightarrow> unit kres" where
  "lock_inode E i s =
     kbind (wait_on_inode E i s) (\<lambda>_ s. Ret () (upd_inode i (\<lambda>n. n\<lparr>i_lock := True\<rparr>) s))"

definition unlock_inode :: "nat \<Rightarrow> kernel \<Rightarrow> kernel" where
  "unlock_inode i s = wake_up (I_wait i) (upd_inode i (\<lambda>n. n\<lparr>i_lock := False\<rparr>) s)"

definition invalidate_inodes :: "env \<Rightarrow> u16 \<Rightarrow> kernel \<Rightarrow> unit kres" where
  "invalidate_inodes E dev s =
     kfor (\<lambda>i _ s. kbind (wait_on_inode E i s) (\<lambda>_ s.
       Ret () (if i_dev (inode_table s i) = dev
               then upd_inode i (\<lambda>n. n\<lparr>i_dev := 0, i_dirt := False\<rparr>) s else s)))
       [0..<NR_INODE] () s"

definition wait_on_super :: "env \<Rightarrow> nat \<Rightarrow> kernel \<Rightarrow> unit kres" where
  "wait_on_super E n s =
     kloop (fuel E) (\<lambda>s. if s_lock (super_block s n)
                         then kbind (sleep_on E (S_wait n) s) (\<lambda>_ s. Ret None s)
                         else Ret (Some ()) s) s"

definition lock_super :: "env \<Rightarrow> nat \<Rightarrow> kernel \<Rightarrow> unit kres" where
  "lock_super E n s =
     kbind (wait_on_super E n s) (\<lambda>_ s. Ret () (upd_super n (\<lambda>b. b\<lparr>s_lock := True\<rparr>) s))"

definition free_super :: "nat \<Rightarrow> kernel \<Rightarrow> kernel" where
  "free_super n s = wake_up (S_wait n) (upd_super n (\<lambda>b. b\<lparr>s_lock := False\<rparr>) s)"

definition get_super :: "env \<Rightarrow> u16 \<Rightarrow> kernel \<Rightarrow> nat option kres" where
  "get_super E dev s =
     (if dev = 0 then Ret None s
      else kwhile (fuel E) (\<lambda>n s.
        if n \<ge> NR_SUPER then Ret (Inr None) s
        else if s_dev (super_block s n) = dev then
          kbind (wait_on_super E n s) (\<lambda>_ s.
            if s_dev (super_block s n) = dev then Ret (Inr (Some n)) s else Ret (Inl 0) s)
        else Ret (Inl (n + 1)) s) 0 s)"

subsection \<open>The disk format\<close>

text \<open>A block as an array of \<^verbatim>\<open>unsigned short\<close>. The inodes of a block are the elements of an array of
  \<^verbatim>\<open>struct d_inode\<close>, which has 32 bytes and no padding (include/linux/fs.h); the buffers of the model hold
  bytes, so the structure assignments of \<^verbatim>\<open>read_inode\<close> and \<^verbatim>\<open>write_inode\<close> are written out as the copies
  of its members from and to the bytes at their offsets in the structure.\<close>

definition get_short :: "(nat \<Rightarrow> u8) \<Rightarrow> nat \<Rightarrow> u16" where
  "get_short d off = le16 (d off) (d (off + 1))"

definition put_short :: "u16 \<Rightarrow> nat \<Rightarrow> (nat \<Rightarrow> u8) \<Rightarrow> nat \<Rightarrow> u8" where
  "put_short v off d = d(off := byte_of16 0 v, off + 1 := byte_of16 1 v)"

definition get_long :: "(nat \<Rightarrow> u8) \<Rightarrow> nat \<Rightarrow> u32" where
  "get_long d off = le32 (\<lambda>k. d (off + k))"

definition put_long :: "u32 \<Rightarrow> nat \<Rightarrow> (nat \<Rightarrow> u8) \<Rightarrow> nat \<Rightarrow> u8" where
  "put_long v off d = (\<lambda>k. if off \<le> k \<and> k < off + 4 then byte_of32 (k - off) v else d k)"

definition get_d_inode :: "(nat \<Rightarrow> u8) \<Rightarrow> nat \<Rightarrow> m_inode \<Rightarrow> m_inode" where
  "get_d_inode d off n =
     n\<lparr>i_mode := get_short d off, i_uid := get_short d (off + 2), i_size := get_long d (off + 4),
       i_mtime := get_long d (off + 8), i_gid := d (off + 12), i_nlinks := d (off + 13),
       i_zone := (\<lambda>k. if k < 9 then get_short d (off + 14 + 2 * k) else i_zone n k)\<rparr>"

definition put_d_inode :: "m_inode \<Rightarrow> nat \<Rightarrow> (nat \<Rightarrow> u8) \<Rightarrow> nat \<Rightarrow> u8" where
  "put_d_inode n off d =
     (let d = put_short (i_mode n) off d;
          d = put_short (i_uid n) (off + 2) d;
          d = put_long (i_size n) (off + 4) d;
          d = put_long (i_mtime n) (off + 8) d;
          d = d(off + 12 := i_gid n, off + 13 := i_nlinks n) in
      fold (\<lambda>k d. put_short (i_zone n k) (off + 14 + 2 * k) d) [0..<9] d)"

definition inode_block :: "super_block \<Rightarrow> u16 \<Rightarrow> u32" where
  "inode_block sb nr = 2 + ucast (s_imap_blocks sb) + ucast (s_zmap_blocks sb) + (ucast nr - 1) div 32"

definition inode_offset :: "u16 \<Rightarrow> nat" where
  "inode_offset nr = 32 * unat ((ucast nr - 1 :: u32) mod 32)"

subsection \<open>Writing inodes and synchronising\<close>

definition write_inode_with :: "env \<Rightarrow> (u16 \<Rightarrow> kernel \<Rightarrow> int kres) \<Rightarrow> nat \<Rightarrow> kernel \<Rightarrow> unit kres" where
  "write_inode_with E sync i s =
     kbind (lock_inode E i s) (\<lambda>_ s.
       if \<not> i_dirt (inode_table s i) \<or> i_dev (inode_table s i) = 0 then Ret () (unlock_inode i s)
       else kbind (get_super E (i_dev (inode_table s i)) s) (\<lambda>r s.
         case r of
           None \<Rightarrow> Panic ''trying to write inode without device'' s
         | Some sb \<Rightarrow>
             kbind (bread_with E sync (i_dev (inode_table s i))
                      (inode_block (super_block s sb) (i_num (inode_table s i))) s) (\<lambda>r s.
               case r of
                 None \<Rightarrow> Panic ''unable to read i-node block'' s
               | Some bh \<Rightarrow>
                   let n = inode_table s i;
                       s = upd_buf bh (\<lambda>b. b\<lparr>b_data := put_d_inode n (inode_offset (i_num n)) (b_data b),
                                             b_dirt := True\<rparr>) s;
                       s = upd_inode i (\<lambda>n. n\<lparr>i_dirt := False\<rparr>) s in
                   kbind (brelse E (Some bh) s) (\<lambda>_ s. Ret () (unlock_inode i s)))))"

definition sync_inodes_with :: "env \<Rightarrow> (u16 \<Rightarrow> kernel \<Rightarrow> int kres) \<Rightarrow> kernel \<Rightarrow> unit kres" where
  "sync_inodes_with E sync s =
     kfor (\<lambda>i _ s. kbind (wait_on_inode E i s) (\<lambda>_ s.
       if i_dirt (inode_table s i) \<and> \<not> i_pipe (inode_table s i) then write_inode_with E sync i s
       else Ret () s)) [0..<NR_INODE] () s"

primrec sync_dev_at :: "nat \<Rightarrow> env \<Rightarrow> u16 \<Rightarrow> kernel \<Rightarrow> int kres" where
  "sync_dev_at 0 E = (\<lambda>dev s. Hang)"
| "sync_dev_at (Suc d) E = (\<lambda>dev s.
     kbind (write_dirty E dev s) (\<lambda>_ s.
     kbind (sync_inodes_with E (sync_dev_at d E) s) (\<lambda>_ s.
     kbind (write_dirty E dev s) (\<lambda>_ s. Ret 0 s))))"

definition sync_dev :: "env \<Rightarrow> u16 \<Rightarrow> kernel \<Rightarrow> int kres" where
  "sync_dev E = sync_dev_at (fuel E) E"

definition getblk :: "env \<Rightarrow> u16 \<Rightarrow> u32 \<Rightarrow> kernel \<Rightarrow> nat kres" where
  "getblk E = getblk_with E (sync_dev E)"

definition bread :: "env \<Rightarrow> u16 \<Rightarrow> u32 \<Rightarrow> kernel \<Rightarrow> nat option kres" where
  "bread E = bread_with E (sync_dev E)"

definition write_inode :: "env \<Rightarrow> nat \<Rightarrow> kernel \<Rightarrow> unit kres" where
  "write_inode E = write_inode_with E (sync_dev E)"

definition sync_inodes :: "env \<Rightarrow> kernel \<Rightarrow> unit kres" where
  "sync_inodes E = sync_inodes_with E (sync_dev E)"

definition sys_sync :: "env \<Rightarrow> kernel \<Rightarrow> int kres" where
  "sys_sync E s =
     kbind (sync_inodes E s) (\<lambda>_ s.
     kbind (kfor (\<lambda>bh _ s. kbind (wait_on_buffer E bh s) (\<lambda>_ s.
              if b_dirt (bufs s bh) then ll_rw_block E WRITE bh s else Ret () s))
              [0..<NR_BUFFERS s] () s) (\<lambda>_ s. Ret 0 s))"

definition read_inode :: "env \<Rightarrow> nat \<Rightarrow> kernel \<Rightarrow> unit kres" where
  "read_inode E i s =
     kbind (lock_inode E i s) (\<lambda>_ s.
     kbind (get_super E (i_dev (inode_table s i)) s) (\<lambda>r s.
       case r of
         None \<Rightarrow> Panic ''trying to read inode without dev'' s
       | Some sb \<Rightarrow>
           kbind (bread E (i_dev (inode_table s i))
                    (inode_block (super_block s sb) (i_num (inode_table s i))) s) (\<lambda>r s.
             case r of
               None \<Rightarrow> Panic ''unable to read i-node block'' s
             | Some bh \<Rightarrow>
                 let s = upd_inode i (\<lambda>n. get_d_inode (b_data (bufs s bh)) (inode_offset (i_num n)) n) s in
                 kbind (brelse E (Some bh) s) (\<lambda>_ s. Ret () (unlock_inode i s)))))"

subsection \<open>Reading several blocks\<close>

text \<open>\<^verbatim>\<open>COPYBLK\<close> to the physical address \<open>address\<close>.\<close>

definition copyblk :: "(nat \<Rightarrow> u8) \<Rightarrow> u32 \<Rightarrow> kernel \<Rightarrow> kernel" where
  "copyblk d address s =
     s\<lparr>phys := (\<lambda>a. if unat (a - address) < BLOCK_SIZE then get_long d (unat (a - address)) else phys s a)\<rparr>"

definition bread_page :: "env \<Rightarrow> u32 \<Rightarrow> u16 \<Rightarrow> (nat \<Rightarrow> u32) \<Rightarrow> kernel \<Rightarrow> unit kres" where
  "bread_page E address dev b s =
     kbind (kfor (\<lambda>i bh s.
        if b i \<noteq> 0 then
          kbind (getblk E dev (b i) s) (\<lambda>x s.
          kbind (if \<not> b_uptodate (bufs s x) then ll_rw_block E READ x s else Ret () s)
            (\<lambda>_ s. Ret (bh(i := Some x)) s))
        else Ret (bh(i := None)) s) [0..<4] (\<lambda>_. None) s) (\<lambda>bh s.
      kfor (\<lambda>i _ s. case bh i of
          None \<Rightarrow> Ret () s
        | Some x \<Rightarrow>
            kbind (wait_on_buffer E x s) (\<lambda>_ s.
              let s = (if b_uptodate (bufs s x)
                       then copyblk (b_data (bufs s x)) (address + 1024 * of_nat i) s else s) in
              brelse E (Some x) s)) [0..<4] () s)"

text \<open>\<open>rest\<close> is the variable argument list up to its negative end. The read-ahead passes \<^verbatim>\<open>bh\<close>, not
  \<^verbatim>\<open>tmp\<close>, to \<^verbatim>\<open>ll_rw_block\<close>.\<close>

definition breada :: "env \<Rightarrow> u16 \<Rightarrow> u32 \<Rightarrow> u32 list \<Rightarrow> kernel \<Rightarrow> nat option kres" where
  "breada E dev first rest s =
     kbind (getblk E dev first s) (\<lambda>bh s.
     kbind (if \<not> b_uptodate (bufs s bh) then ll_rw_block E READ bh s else Ret () s) (\<lambda>_ s.
     kbind (kfor (\<lambda>blk _ s.
        kbind (getblk E dev blk s) (\<lambda>tmp s.
        kbind (if \<not> b_uptodate (bufs s tmp) then ll_rw_block E READA bh s else Ret () s) (\<lambda>_ s.
          Ret () (upd_buf tmp (\<lambda>b. b\<lparr>b_count := b_count b - 1\<rparr>) s)))) rest () s) (\<lambda>_ s.
     finish_read E bh s)))"

subsection \<open>Super blocks on disk and the RAM disk image\<close>

abbreviation (input) "SUPER_MAGIC \<equiv> (0x137F :: u16)"

definition get_d_super_block :: "(nat \<Rightarrow> u8) \<Rightarrow> super_block \<Rightarrow> super_block" where
  "get_d_super_block d b =
     b\<lparr>s_ninodes := get_short d 0, s_nzones := get_short d 2, s_imap_blocks := get_short d 4,
       s_zmap_blocks := get_short d 6, s_firstdatazone := get_short d 8,
       s_log_zone_size := get_short d 10, s_max_size := get_long d 12, s_magic := get_short d 16\<rparr>"

text \<open>One round of the loop of \<^verbatim>\<open>rd_load\<close>, with the variables \<^verbatim>\<open>nblocks\<close>, \<^verbatim>\<open>block\<close> and
  \<^verbatim>\<open>cp\<close> (as an offset into the disk); it leaves with \<open>True\<close> when all blocks are loaded.\<close>

definition rd_load_step :: "env \<Rightarrow> int \<times> u32 \<times> nat \<Rightarrow> kernel \<Rightarrow> (kernel, int \<times> u32 \<times> nat + bool) outcome" where
  "rd_load_step E = (\<lambda>(nblocks, block, cp) s.
     if nblocks = 0 then Ret (Inr True) s
     else kbind (if nblocks > 2 then breada E (ROOT_DEV s) block [block + 1, block + 2] s
                 else bread E (ROOT_DEV s) block s) (\<lambda>r s.
       case r of
         None \<Rightarrow> Ret (Inr False) s
       | Some bh \<Rightarrow>
           if int (cp + BLOCK_SIZE) > rd_length s then Fault
           else kbind (brelse E (Some bh) (rd_write cp BLOCK_SIZE (b_data (bufs s bh)) s)) (\<lambda>_ s.
             Ret (Inl (wrap32 (nblocks - 1), block + 1, cp + BLOCK_SIZE)) s)))"

definition rd_load :: "env \<Rightarrow> kernel \<Rightarrow> unit kres" where
  "rd_load E s =
     (if rd_length s = 0 then Ret () s
      else if MAJOR (ROOT_DEV s) \<noteq> 2 then Ret () s
      else kbind (breada E (ROOT_DEV s) 257 [256, 258] s) (\<lambda>r s.
        case r of
          None \<Rightarrow> Ret () s
        | Some bh \<Rightarrow>
            let sb = get_d_super_block (b_data (bufs s bh)) zero_super in
            kbind (brelse E (Some bh) s) (\<lambda>_ s.
              if s_magic sb \<noteq> SUPER_MAGIC then Ret () s
              else let nblocks = wrap32 (uint (s_nzones sb) * 2 ^ (unat (s_log_zone_size sb) mod 32)) in
                if nblocks > rd_length s div 1024 then Ret () s
                else kbind (kwhile (fuel E) (rd_load_step E) (nblocks, 256, 0) s) (\<lambda>ok s.
                  Ret () (if ok then s\<lparr>ROOT_DEV := 0x0101\<rparr> else s)))))"

subsection \<open>The disk format read back\<close>

lemma get_put_short [simp]:
  "get_short (put_short v off d) off = v"
  "off' + 1 < off \<or> off + 1 < off' \<Longrightarrow> get_short (put_short v off d) off' = get_short d off'"
  using le16_bytes [of v] by (auto simp: get_short_def put_short_def)

lemma get_put_long [simp]:
  "get_long (put_long v off d) off = v"
  "off' + 3 < off \<or> off + 3 < off' \<Longrightarrow> get_long (put_long v off d) off' = get_long d off'"
proof -
  show "get_long (put_long v off d) off = v"
    using le32_bytes [of v] unfolding le32_def by (simp add: get_long_def put_long_def le32_def)
qed (auto simp: get_long_def put_long_def le32_def)

lemma get_put_mixed:
  "off' + 1 < off \<or> off + 3 < off' \<Longrightarrow> get_short (put_long v off d) off' = get_short d off'"
  "off' + 3 < off \<or> off + 1 < off' \<Longrightarrow> get_long (put_short w off d) off' = get_long d off'"
  by (auto simp: get_long_def get_short_def put_short_def put_long_def le32_def)

lemma put_other:
  "k < off \<or> off + 1 < k \<Longrightarrow> put_short v off d k = d k"
  "k < off \<or> off + 3 < k \<Longrightarrow> put_long w off d k = d k"
  by (auto simp: put_short_def put_long_def)

lemma get_byte_upd:
  "k < off \<or> off + 1 < k \<Longrightarrow> get_short (d(k := v)) off = get_short d off"
  "k < off \<or> off + 3 < k \<Longrightarrow> get_long (d(k := v)) off = get_long d off"
  by (auto simp: get_long_def get_short_def le32_def)

text \<open>The loop over the nine zones.\<close>

lemma put_zones:
  "get_short (fold (\<lambda>k d. put_short (z k) (off + 2 * k) d) [0..<n] d) (off + 2 * j) =
     (if j < n then z j else get_short d (off + 2 * j))"
  "i + 1 < off \<Longrightarrow> get_short (fold (\<lambda>k d. put_short (z k) (off + 2 * k) d) [0..<n] d) i = get_short d i"
  "i < off \<or> off + 2 * n \<le> i \<Longrightarrow> fold (\<lambda>k d. put_short (z k) (off + 2 * k) d) [0..<n] d i = d i"
proof (induction n)
  case (Suc n)
  {
    case 1
    show ?case using Suc(1) by (cases "j = n") (auto simp: less_Suc_eq)
  next
    case 2
    then show ?case using Suc(2) by simp
  next
    case 3
    then show ?case using Suc(3) by (auto simp: put_other)
  }
qed simp_all

lemma put_zones_long:
  "i + 3 < off \<Longrightarrow> get_long (fold (\<lambda>k d. put_short (z k) (off + 2 * k) d) [0..<n] d) i = get_long d i"
  by (induction n) (simp_all add: get_put_mixed)

text \<open>An inode put into a block and taken out again has its mode, owner, size, times, links and nine zone
  numbers again, and the bytes of the block outside the 32 of the inode are as before.\<close>

lemma put_get_d_inode:
  "get_d_inode (put_d_inode n off d) off m = m\<lparr>i_mode := i_mode n, i_uid := i_uid n, i_size := i_size n,
     i_mtime := i_mtime n, i_gid := i_gid n, i_nlinks := i_nlinks n,
     i_zone := (\<lambda>k. if k < 9 then i_zone n k else i_zone m k)\<rparr> \<and>
   (\<forall>k. k < off \<or> off + 32 \<le> k \<longrightarrow> put_d_inode n off d k = d k)"
proof
  note zs = put_zones [where off = "off + 14"] put_zones_long [where off = "off + 14"]
  show "get_d_inode (put_d_inode n off d) off m = m\<lparr>i_mode := i_mode n, i_uid := i_uid n, i_size := i_size n,
     i_mtime := i_mtime n, i_gid := i_gid n, i_nlinks := i_nlinks n,
     i_zone := (\<lambda>k. if k < 9 then i_zone n k else i_zone m k)\<rparr>"
    by (simp add: get_d_inode_def put_d_inode_def Let_def zs get_put_mixed get_byte_upd cong: if_cong)
  show "\<forall>k. k < off \<or> off + 32 \<le> k \<longrightarrow> put_d_inode n off d k = d k"
    by (auto simp: put_d_inode_def Let_def zs(3) put_other)
qed

end
