(* ===== verification/Inode.thy ===== *)
theory Inode
  imports InodeIO
begin

text \<open>
  fs/bitmap.c, fs/truncate.c and the rest of fs/inode.c: allocation of blocks and inodes in the
  bitmaps of a file system, the mapping of file blocks to disk blocks, truncation, and the table of
  inodes in memory.
\<close>

subsection \<open>Bits of a block\<close>

definition test_bit :: "nat \<Rightarrow> (nat \<Rightarrow> u8) \<Rightarrow> bool" where
  "test_bit nr d = bit (d (nr div 8)) (nr mod 8)"

text \<open>\<^verbatim>\<open>set_bit\<close> and \<^verbatim>\<open>clear_bit\<close> return whether the bit was already what it is made.\<close>

definition set_bit_data :: "nat \<Rightarrow> (nat \<Rightarrow> u8) \<Rightarrow> nat \<Rightarrow> u8" where
  "set_bit_data nr d = d(nr div 8 := Bit_Operations.set_bit (nr mod 8) (d (nr div 8)))"

definition clear_bit_data :: "nat \<Rightarrow> (nat \<Rightarrow> u8) \<Rightarrow> nat \<Rightarrow> u8" where
  "clear_bit_data nr d = d(nr div 8 := Bit_Operations.unset_bit (nr mod 8) (d (nr div 8)))"

definition set_bit_in :: "nat \<Rightarrow> nat \<Rightarrow> kernel \<Rightarrow> bool \<times> kernel" where
  "set_bit_in nr bh s =
     (test_bit nr (b_data (bufs s bh)), upd_buf bh (\<lambda>b. b\<lparr>b_data := set_bit_data nr (b_data b)\<rparr>) s)"

definition clear_bit_in :: "nat \<Rightarrow> nat \<Rightarrow> kernel \<Rightarrow> bool \<times> kernel" where
  "clear_bit_in nr bh s =
     (\<not> test_bit nr (b_data (bufs s bh)), upd_buf bh (\<lambda>b. b\<lparr>b_data := clear_bit_data nr (b_data b)\<rparr>) s)"

text \<open>\<^verbatim>\<open>find_first_zero\<close> goes through the block a 32-bit word at a time; \<^verbatim>\<open>bsfl\<close> is the index of the
  lowest set bit. \<open>n\<close> words are left, \<open>c\<close> is the register \<^verbatim>\<open>ecx\<close>.\<close>

definition bsfl :: "u32 \<Rightarrow> nat option" where
  "bsfl w = find_up (bit w) 0 32"

fun ffz_words :: "(nat \<Rightarrow> u8) \<Rightarrow> nat \<Rightarrow> nat \<Rightarrow> nat" where
  "ffz_words d 0 c = c"
| "ffz_words d (Suc n) c =
     (case bsfl (NOT (get_long d (c div 8))) of
        Some k \<Rightarrow> c + k
      | None \<Rightarrow> ffz_words d n (c + 32))"

definition find_first_zero :: "(nat \<Rightarrow> u8) \<Rightarrow> nat" where
  "find_first_zero d = ffz_words d 256 0"

subsection \<open>Blocks\<close>

text \<open>The search through the eight slots of a bitmap: slot, bit and buffer of the first zero bit.\<close>

fun scan_map :: "(nat \<Rightarrow> nat option) \<Rightarrow> nat \<Rightarrow> nat \<Rightarrow> kernel \<Rightarrow> (nat \<times> nat \<times> nat) option" where
  "scan_map m 0 i s = None"
| "scan_map m (Suc n) i s =
     (case m i of
        None \<Rightarrow> scan_map m n (i + 1) s
      | Some bh \<Rightarrow> let j = find_first_zero (b_data (bufs s bh)) in
                   if j < 8192 then Some (i, j, bh) else scan_map m n (i + 1) s)"

definition free_block :: "env \<Rightarrow> u16 \<Rightarrow> int \<Rightarrow> kernel \<Rightarrow> unit kres" where
  "free_block E dev block s =
     kbind (get_super E dev s) (\<lambda>r s.
       case r of
         None \<Rightarrow> Panic ''trying to free block on nonexistent device'' s
       | Some sb \<Rightarrow>
           if block < uint (s_firstdatazone (super_block s sb)) \<or> block \<ge> uint (s_nzones (super_block s sb))
           then Panic ''trying to free block not in datazone'' s
           else kbind (get_hash_table E dev (word_of_int block) s) (\<lambda>r s.
             kbind (case r of
                      None \<Rightarrow> Ret True s
                    | Some bh \<Rightarrow>
                        if b_count (bufs s bh) \<noteq> 1 then Ret False s
                        else kbind (brelse E (Some bh)
                                 (upd_buf bh (\<lambda>b. b\<lparr>b_dirt := False, b_uptodate := False\<rparr>) s))
                               (\<lambda>_ s. Ret True s)) (\<lambda>go s.
               if \<not> go then Ret () s
               else let nr = nat (block - (uint (s_firstdatazone (super_block s sb)) - 1)) in
                 case s_zmap (super_block s sb) (nr div 8192) of
                   None \<Rightarrow> Fault
                 | Some bh \<Rightarrow>
                     let (clear, s) = clear_bit_in (nr mod 8192) bh s in
                     if clear then Panic ''free_block: bit already cleared'' s
                     else Ret () (upd_buf bh (\<lambda>b. b\<lparr>b_dirt := True\<rparr>) s))))"

definition new_block :: "env \<Rightarrow> u16 \<Rightarrow> kernel \<Rightarrow> u16 kres" where
  "new_block E dev s =
     kbind (get_super E dev s) (\<lambda>r s.
       case r of
         None \<Rightarrow> Panic ''trying to get new block from nonexistant device'' s
       | Some sb \<Rightarrow>
           (case scan_map (s_zmap (super_block s sb)) 8 0 s of
              None \<Rightarrow> Ret 0 s
            | Some (i, j, bh) \<Rightarrow>
                let (set, s) = set_bit_in j bh s in
                if set then Panic ''new_block: bit already set'' s
                else let s = upd_buf bh (\<lambda>b. b\<lparr>b_dirt := True\<rparr>) s;
                         z = int (j + i * 8192) + uint (s_firstdatazone (super_block s sb)) - 1 in
                  if z \<ge> uint (s_nzones (super_block s sb)) then Ret 0 s
                  else kbind (getblk E dev (word_of_int z) s) (\<lambda>bh s.
                    if b_count (bufs s bh) \<noteq> 1 then Panic ''new block: count is != 1'' s
                    else let s = upd_buf bh (\<lambda>b. b\<lparr>b_data := (\<lambda>k. if k < BLOCK_SIZE then 0 else b_data b k),
                                               b_uptodate := True, b_dirt := True\<rparr>) s in
                      kbind (brelse E (Some bh) s) (\<lambda>_ s. Ret (word_of_int z) s))))"

subsection \<open>Truncation\<close>

abbreviation (input) "S_IFMT \<equiv> (0xF000 :: u16)"
definition S_ISREG :: "u16 \<Rightarrow> bool" where "S_ISREG m \<longleftrightarrow> m AND S_IFMT = 0x8000"
definition S_ISDIR :: "u16 \<Rightarrow> bool" where "S_ISDIR m \<longleftrightarrow> m AND S_IFMT = 0x4000"
definition S_ISCHR :: "u16 \<Rightarrow> bool" where "S_ISCHR m \<longleftrightarrow> m AND S_IFMT = 0x2000"
definition S_ISBLK :: "u16 \<Rightarrow> bool" where "S_ISBLK m \<longleftrightarrow> m AND S_IFMT = 0x6000"

text \<open>The block of indices is read before the loop and held; the loop reads its entries from the
  buffer.\<close>

definition free_entries :: "(u16 \<Rightarrow> kernel \<Rightarrow> unit kres) \<Rightarrow> nat \<Rightarrow> kernel \<Rightarrow> unit kres" where
  "free_entries f bh s =
     kfor (\<lambda>i _ s. let z = get_short (b_data (bufs s bh)) (2 * i) in
             if z \<noteq> 0 then f z s else Ret () s) [0..<512] () s"

definition free_ind :: "env \<Rightarrow> u16 \<Rightarrow> u16 \<Rightarrow> kernel \<Rightarrow> unit kres" where
  "free_ind E dev block s =
     (if block = 0 then Ret () s
      else kbind (bread E dev (ucast block) s) (\<lambda>r s.
        kbind (case r of
                 None \<Rightarrow> Ret () s
               | Some bh \<Rightarrow> kbind (free_entries (\<lambda>z s. free_block E dev (uint z) s) bh s)
                              (\<lambda>_ s. brelse E (Some bh) s))
          (\<lambda>_ s. free_block E dev (uint block) s)))"

definition free_dind :: "env \<Rightarrow> u16 \<Rightarrow> u16 \<Rightarrow> kernel \<Rightarrow> unit kres" where
  "free_dind E dev block s =
     (if block = 0 then Ret () s
      else kbind (bread E dev (ucast block) s) (\<lambda>r s.
        kbind (case r of
                 None \<Rightarrow> Ret () s
               | Some bh \<Rightarrow> kbind (free_entries (\<lambda>z s. free_ind E dev z s) bh s)
                              (\<lambda>_ s. brelse E (Some bh) s))
          (\<lambda>_ s. free_block E dev (uint block) s)))"

definition truncate :: "env \<Rightarrow> nat \<Rightarrow> kernel \<Rightarrow> unit kres" where
  "truncate E n s =
     (if \<not> (S_ISREG (i_mode (inode_table s n)) \<or> S_ISDIR (i_mode (inode_table s n))) then Ret () s
      else kbind (kfor (\<lambda>i _ s.
          if i_zone (inode_table s n) i \<noteq> 0 then
            kbind (free_block E (i_dev (inode_table s n)) (uint (i_zone (inode_table s n) i)) s) (\<lambda>_ s.
              Ret () (upd_inode n (\<lambda>x. x\<lparr>i_zone := (i_zone x)(i := 0)\<rparr>) s))
          else Ret () s) [0..<7] () s) (\<lambda>_ s.
        kbind (free_ind E (i_dev (inode_table s n)) (i_zone (inode_table s n) 7) s) (\<lambda>_ s.
        kbind (free_dind E (i_dev (inode_table s n)) (i_zone (inode_table s n) 8) s) (\<lambda>_ s.
          Ret () (upd_inode n (\<lambda>x. x\<lparr>i_zone := (i_zone x)(7 := 0, 8 := 0), i_size := 0, i_dirt := True,
                    i_mtime := word_of_int (CURRENT_TIME s), i_ctime := word_of_int (CURRENT_TIME s)\<rparr>) s)))))"

subsection \<open>The inode table\<close>

text \<open>\<^verbatim>\<open>memset(inode,0,sizeof(*inode))\<close>, which clears the wait queue too.\<close>

definition clear_inode :: "nat \<Rightarrow> kernel \<Rightarrow> kernel" where
  "clear_inode i s = (upd_inode i (\<lambda>_. zero_inode) s)\<lparr>wq := (wq s)(I_wait i := 0)\<rparr>"

definition free_inode :: "env \<Rightarrow> nat option \<Rightarrow> kernel \<Rightarrow> unit kres" where
  "free_inode E inode s =
     (case inode of
        None \<Rightarrow> Ret () s
      | Some i \<Rightarrow>
          let n = inode_table s i in
          if i_dev n = 0 then Ret () (clear_inode i s)
          else if i_count n > 1 then Panic ''free_inode'' s
          else if i_nlinks n \<noteq> 0 then Panic ''trying to free inode with links'' s
          else kbind (get_super E (i_dev n) s) (\<lambda>r s.
            case r of
              None \<Rightarrow> Panic ''trying to free inode on nonexistent device'' s
            | Some sb \<Rightarrow>
                let n = inode_table s i in
                if i_num n < 1 \<or> i_num n > s_ninodes (super_block s sb)
                then Panic ''trying to free inode 0 or nonexistant inode'' s
                else (case s_imap (super_block s sb) (unat (drop_bit 13 (i_num n))) of
                  None \<Rightarrow> Panic ''nonexistent imap in superblock'' s
                | Some bh \<Rightarrow>
                    let (_, s) = clear_bit_in (unat (i_num n AND 8191)) bh s;
                        s = upd_buf bh (\<lambda>b. b\<lparr>b_dirt := True\<rparr>) s in
                    Ret () (clear_inode i s))))"

text \<open>\<^verbatim>\<open>iput\<close>; the pipe's page is the physical address in \<^verbatim>\<open>i_size\<close>.\<close>

definition iput_repeat :: "env \<Rightarrow> nat \<Rightarrow> kernel \<Rightarrow> (kernel, unit option) outcome" where
  "iput_repeat E i s =
     (if i_count (inode_table s i) > 1
      then Ret (Some ()) (upd_inode i (\<lambda>n. n\<lparr>i_count := i_count n - 1\<rparr>) s)
      else if i_nlinks (inode_table s i) = 0
      then kbind (truncate E i s) (\<lambda>_ s. kbind (free_inode E (Some i) s) (\<lambda>_ s. Ret (Some ()) s))
      else if i_dirt (inode_table s i)
      then kbind (write_inode E i s) (\<lambda>_ s. kbind (wait_on_inode E i s) (\<lambda>_ s. Ret None s))
      else Ret (Some ()) (upd_inode i (\<lambda>n. n\<lparr>i_count := i_count n - 1\<rparr>) s))"

definition iput :: "env \<Rightarrow> nat option \<Rightarrow> kernel \<Rightarrow> unit kres" where
  "iput E inode s =
     (case inode of
        None \<Rightarrow> Ret () s
      | Some i \<Rightarrow>
          kbind (wait_on_inode E i s) (\<lambda>_ s.
            if i_count (inode_table s i) = 0 then Panic ''iput: trying to free free inode'' s
            else if i_pipe (inode_table s i) then
              let s = wake_up (I_wait i) s;
                  s = upd_inode i (\<lambda>n. n\<lparr>i_count := i_count n - 1\<rparr>) s in
              if i_count (inode_table s i) \<noteq> 0 then Ret () s
              else kbind (free_page (i_size (inode_table s i)) s) (\<lambda>_ s.
                Ret () (upd_inode i (\<lambda>n. n\<lparr>i_count := 0, i_dirt := False, i_pipe := False\<rparr>) s))
            else if i_dev (inode_table s i) = 0
            then Ret () (upd_inode i (\<lambda>n. n\<lparr>i_count := i_count n - 1\<rparr>) s)
            else kbind (if S_ISBLK (i_mode (inode_table s i))
                        then kbind (sync_dev E (i_zone (inode_table s i) 0) s) (\<lambda>_ s. wait_on_inode E i s)
                        else Ret () s) (\<lambda>_ s.
              kloop (fuel E) (iput_repeat E i) s)))"

text \<open>The circular search of \<^verbatim>\<open>get_empty_inode\<close>: \<open>n\<close> rounds are left, \<open>inode\<close> is the last unused inode
  seen.\<close>

fun find_empty_inode :: "nat \<Rightarrow> nat option \<Rightarrow> kernel \<Rightarrow> nat option \<times> kernel" where
  "find_empty_inode 0 inode s = (inode, s)"
| "find_empty_inode (Suc n) inode s =
     (let l = (if last_inode s + 1 \<ge> NR_INODE then 0 else last_inode s + 1);
          s = s\<lparr>last_inode := l\<rparr> in
      if i_count (inode_table s l) = 0 then
        (if \<not> i_dirt (inode_table s l) \<and> \<not> i_lock (inode_table s l) then (Some l, s)
         else find_empty_inode n (Some l) s)
      else find_empty_inode n inode s)"

definition get_empty_inode :: "env \<Rightarrow> kernel \<Rightarrow> nat kres" where
  "get_empty_inode E s =
     kbind (kloop (fuel E) (\<lambda>s.
       let (r, s) = find_empty_inode NR_INODE None s in
       case r of
         None \<Rightarrow> Panic ''No free inodes in mem'' s
       | Some i \<Rightarrow>
           kbind (wait_on_inode E i s) (\<lambda>_ s.
           kbind (kloop (fuel E) (\<lambda>s.
                    if \<not> i_dirt (inode_table s i) then Ret (Some ()) s
                    else kbind (write_inode E i s) (\<lambda>_ s.
                         kbind (wait_on_inode E i s) (\<lambda>_ s. Ret None s))) s) (\<lambda>_ s.
             if i_count (inode_table s i) \<noteq> 0 then Ret None s else Ret (Some i) s))) s) (\<lambda>i s.
     Ret i (upd_inode i (\<lambda>n. n\<lparr>i_count := 1\<rparr>) (clear_inode i s)))"

definition get_pipe_inode :: "env \<Rightarrow> kernel \<Rightarrow> nat option kres" where
  "get_pipe_inode E s =
     kbind (get_empty_inode E s) (\<lambda>i s.
       let (page, s) = get_free_page s;
           s = upd_inode i (\<lambda>n. n\<lparr>i_size := page\<rparr>) s in
       if page = 0 then Ret None (upd_inode i (\<lambda>n. n\<lparr>i_count := 0\<rparr>) s)
       else Ret (Some i) (upd_inode i (\<lambda>n. n\<lparr>i_count := 2, i_zone := (i_zone n)(0 := 0, 1 := 0),
                                             i_pipe := True\<rparr>) s))"

definition new_inode :: "env \<Rightarrow> u16 \<Rightarrow> kernel \<Rightarrow> nat option kres" where
  "new_inode E dev s =
     kbind (get_empty_inode E s) (\<lambda>ino s.
     kbind (get_super E dev s) (\<lambda>r s.
       case r of
         None \<Rightarrow> Panic ''new_inode with unknown device'' s
       | Some sb \<Rightarrow>
           (case scan_map (s_imap (super_block s sb)) 8 0 s of
              None \<Rightarrow> kbind (iput E (Some ino) s) (\<lambda>_ s. Ret None s)
            | Some (i, j, bh) \<Rightarrow>
                if j + i * 8192 > unat (s_ninodes (super_block s sb))
                then kbind (iput E (Some ino) s) (\<lambda>_ s. Ret None s)
                else let (set, s) = set_bit_in j bh s in
                  if set then Panic ''new_inode: bit already set'' s
                  else let s = upd_buf bh (\<lambda>b. b\<lparr>b_dirt := True\<rparr>) s;
                           now = word_of_int (CURRENT_TIME s) in
                    Ret (Some ino) (upd_inode ino (\<lambda>n. n\<lparr>i_count := 1, i_nlinks := 1, i_dev := dev,
                      i_uid := t_euid (cur s), i_gid := ucast (t_egid (cur s)), i_dirt := True,
                      i_num := of_nat (j + i * 8192), i_mtime := now, i_atime := now, i_ctime := now\<rparr>) s))))"

text \<open>One round of the search of \<^verbatim>\<open>iget\<close>; crossing a mount point goes on with the root of the mounted file
  system.\<close>

definition iget_step :: "env \<Rightarrow> nat \<Rightarrow> u16 \<times> u16 \<times> nat \<Rightarrow> kernel \<Rightarrow> (kernel, u16 \<times> u16 \<times> nat + nat) outcome" where
  "iget_step E emp = (\<lambda>(dev, nr, i) s.
     if i \<ge> NR_INODE then
       (let s = upd_inode emp (\<lambda>n. n\<lparr>i_dev := dev, i_num := nr\<rparr>) s in
        kbind (read_inode E emp s) (\<lambda>_ s. Ret (Inr emp) s))
     else if i_dev (inode_table s i) \<noteq> dev \<or> i_num (inode_table s i) \<noteq> nr then Ret (Inl (dev, nr, i + 1)) s
     else kbind (wait_on_inode E i s) (\<lambda>_ s.
       if i_dev (inode_table s i) \<noteq> dev \<or> i_num (inode_table s i) \<noteq> nr then Ret (Inl (dev, nr, 0)) s
       else let s = upd_inode i (\<lambda>n. n\<lparr>i_count := i_count n + 1\<rparr>) s in
         if i_mount (inode_table s i) then
           (case find_up (\<lambda>k. s_imount (super_block s k) = Some i) 0 NR_SUPER of
              None \<Rightarrow> kbind (iput E (Some emp) s) (\<lambda>_ s. Ret (Inr i) s)
            | Some k \<Rightarrow> kbind (iput E (Some i) s) (\<lambda>_ s.
                          Ret (Inl (s_dev (super_block s k), ROOT_INO, 0)) s))
         else kbind (iput E (Some emp) s) (\<lambda>_ s. Ret (Inr i) s)))"

definition iget :: "env \<Rightarrow> u16 \<Rightarrow> u16 \<Rightarrow> kernel \<Rightarrow> nat kres" where
  "iget E dev nr s =
     (if dev = 0 then Panic ''iget with dev==0'' s
      else kbind (get_empty_inode E s) (\<lambda>emp s.
        kwhile (fuel E) (iget_step E emp) (dev, nr, 0) s))"

subsection \<open>File blocks\<close>

text \<open>\<open>zone_slot\<close> allocates the block behind a slot of the inode when asked to; \<open>map_slot\<close> does the same for an
  entry of an index block.\<close>

definition zone_slot :: "env \<Rightarrow> nat \<Rightarrow> nat \<Rightarrow> bool \<Rightarrow> kernel \<Rightarrow> u16 kres" where
  "zone_slot E n k create s =
     (if create \<and> i_zone (inode_table s n) k = 0 then
        kbind (new_block E (i_dev (inode_table s n)) s) (\<lambda>z s.
          let s = upd_inode n (\<lambda>x. x\<lparr>i_zone := (i_zone x)(k := z)\<rparr>) s in
          Ret z (if z \<noteq> 0
                 then upd_inode n (\<lambda>x. x\<lparr>i_ctime := word_of_int (CURRENT_TIME s), i_dirt := True\<rparr>) s
                 else s))
      else Ret (i_zone (inode_table s n) k) s)"

definition map_slot :: "env \<Rightarrow> u16 \<Rightarrow> u16 \<Rightarrow> nat \<Rightarrow> bool \<Rightarrow> kernel \<Rightarrow> u16 kres" where
  "map_slot E dev z k create s =
     kbind (bread E dev (ucast z) s) (\<lambda>r s.
       case r of
         None \<Rightarrow> Ret 0 s
       | Some bh \<Rightarrow>
           let i = get_short (b_data (bufs s bh)) (2 * k) in
           kbind (if create \<and> i = 0 then
                    kbind (new_block E dev s) (\<lambda>i s.
                      Ret i (if i \<noteq> 0
                             then upd_buf bh (\<lambda>b. b\<lparr>b_data := put_short i (2 * k) (b_data b), b_dirt := True\<rparr>) s
                             else s))
                  else Ret i s) (\<lambda>i s.
             kbind (brelse E (Some bh) s) (\<lambda>_ s. Ret i s)))"

definition bmap_gen :: "env \<Rightarrow> nat \<Rightarrow> int \<Rightarrow> bool \<Rightarrow> kernel \<Rightarrow> u16 kres" where
  "bmap_gen E n block create s =
     (if block < 0 then Panic ''_bmap: block<0'' s
      else if block \<ge> 7 + 512 + 512 * 512 then Panic ''_bmap: block>big'' s
      else if block < 7 then zone_slot E n (nat block) create s
      else let block = nat (block - 7) in
        if block < 512 then
          kbind (zone_slot E n 7 create s) (\<lambda>z s.
            if z = 0 then Ret 0 s else map_slot E (i_dev (inode_table s n)) z block create s)
        else let block = block - 512 in
          kbind (zone_slot E n 8 create s) (\<lambda>z s.
            if z = 0 then Ret 0 s
            else kbind (map_slot E (i_dev (inode_table s n)) z (block div 512) create s) (\<lambda>i s.
              if i = 0 then Ret 0 s
              else map_slot E (i_dev (inode_table s n)) i (block mod 512) create s)))"

definition bmap :: "env \<Rightarrow> nat \<Rightarrow> int \<Rightarrow> kernel \<Rightarrow> u16 kres" where
  "bmap E n block s = bmap_gen E n block False s"

definition create_block :: "env \<Rightarrow> nat \<Rightarrow> int \<Rightarrow> kernel \<Rightarrow> u16 kres" where
  "create_block E n block s = bmap_gen E n block True s"

subsection \<open>The first zero bit\<close>

lemma bit_get_long:
  assumes "k < 32"
  shows "bit (get_long d off) k = bit (d (off + k div 8)) (k mod 8)"
proof -
  have nb: "\<not> bit (w :: u8) j" if "8 \<le> j" for w j using bit_imp_le_length [of w j] that by auto
  obtain q r where k: "k = 8 * q + r" "r < 8" "q < 4"
    using assms by (metis mod_less_divisor mult_div_mod_eq less_mult_imp_div_less numeral_times_numeral
        semiring_norm(12,13) zero_less_numeral)
  then have "q = 0 \<or> q = 1 \<or> q = 2 \<or> q = 3" by auto
  then show ?thesis using k by (auto simp: get_long_def le32_def bit_simps nb)
qed

lemma bsfl_NOT:
  "bsfl (NOT (get_long d (c div 8))) = None \<longleftrightarrow> (\<forall>k < 32. bit (d (c div 8 + k div 8)) (k mod 8))"
  "bsfl (NOT (get_long d (c div 8))) = Some i \<longleftrightarrow> i < 32 \<and> \<not> bit (d (c div 8 + i div 8)) (i mod 8) \<and>
     (\<forall>k < i. bit (d (c div 8 + k div 8)) (k mod 8))"
  by (auto simp: bsfl_def find_up_None_iff find_up_Some_iff bit_simps bit_get_long)

lemma test_bit_offset: "c mod 32 = 0 \<Longrightarrow> bit (d (c div 8 + k div 8)) (k mod 8) = test_bit (c + k) d"
proof -
  assume "c mod 32 = 0"
  then have "c = 8 * (4 * (c div 32))" by presburger
  then obtain m where c: "c = 8 * (4 * m)" by blast
  have "(8 * (4 * m) + k) div 8 = 4 * m + k div 8" "(8 * (4 * m) + k) mod 8 = k mod 8"
    by presburger+
  then show ?thesis unfolding test_bit_def c by (simp only: nonzero_mult_div_cancel_left zero_neq_numeral not_False_eq_True)
qed

lemma ffz_words_spec:
  assumes "c mod 32 = 0"
  shows "(\<forall>k. c \<le> k \<and> k < ffz_words d n c \<longrightarrow> test_bit k d) \<and> c \<le> ffz_words d n c \<and>
    (ffz_words d n c < c + 32 * n \<and> \<not> test_bit (ffz_words d n c) d \<or> ffz_words d n c = c + 32 * n)"
  using assms
proof (induction n arbitrary: c)
  case 0
  then show ?case by auto
next
  case (Suc n)
  note tb = test_bit_offset [OF Suc.prems, of d]
  show ?case
  proof (cases "bsfl (NOT (get_long d (c div 8)))")
    case None
    then have all: "\<forall>k < 32. test_bit (c + k) d" by (simp add: bsfl_NOT tb)
    have "(c + 32) mod 32 = 0" using Suc.prems by simp
    note IH = Suc.IH [OF this]
    have "test_bit k d" if "c \<le> k" "k < ffz_words d n (c + 32)" for k
    proof (cases "k < c + 32")
      case True
      then have "k - c < 32" using that by simp
      then show ?thesis using all that by (metis le_add_diff_inverse)
    qed (use IH that in auto)
    with IH None show ?thesis by auto
  next
    case (Some i)
    then have i: "i < 32" "\<not> test_bit (c + i) d" "\<forall>k < i. test_bit (c + k) d" by (simp_all add: bsfl_NOT tb)
    have "test_bit k d" if "c \<le> k" "k < c + i" for k
      using i(3) that by (metis le_add_diff_inverse nat_add_left_cancel_less)
    with i Some show ?thesis by auto
  qed
qed

text \<open>C11: \<^verbatim>\<open>find_first_zero\<close>, which looks at a bitmap block a 32-bit word at a time, returns the index of
  the first bit that is 0, and 8192 exactly when all bits of the block are 1.\<close>

theorem find_first_zero_least:
  "find_first_zero d \<le> 8192 \<and> (\<forall>k < find_first_zero d. test_bit k d) \<and>
   (find_first_zero d < 8192 \<longrightarrow> \<not> test_bit (find_first_zero d) d)"
  using ffz_words_spec [of 0 d 256] by (auto simp: find_first_zero_def)

theorem find_first_zero_least_witness: "\<not> test_bit (find_first_zero (\<lambda>_. 0)) (\<lambda>_. 0)"
proof -
  have "find_first_zero (\<lambda>_. 0) < 8192"
  proof (rule ccontr)
    assume "\<not> find_first_zero (\<lambda>_. 0) < 8192"
    then have "\<forall>k < 8192. test_bit k (\<lambda>_. 0)" using find_first_zero_least [of "\<lambda>_. 0"] by simp
    then have "test_bit 0 (\<lambda>_. 0)" by (rule allE [of _ 0]) simp
    then show False by (simp add: test_bit_def)
  qed
  then show ?thesis using find_first_zero_least [of "\<lambda>_. 0"] by blast
qed

subsection \<open>Bitmaps as allocators\<close>

text \<open>What the allocators of blocks and inodes rely on: a bit that is set or cleared changes no other, and
  the search finds a zero bit if there is one.\<close>

locale bitmap =
  fixes used :: "nat \<Rightarrow> 'd \<Rightarrow> bool" and mark :: "nat \<Rightarrow> 'd \<Rightarrow> 'd" and unmark :: "nat \<Rightarrow> 'd \<Rightarrow> 'd"
    and first_free :: "'d \<Rightarrow> nat" and nbits :: nat
  assumes used_mark: "used k (mark j d) \<longleftrightarrow> k = j \<or> used k d"
    and used_unmark: "used k (unmark j d) \<longleftrightarrow> k \<noteq> j \<and> used k d"
    and first_free_unused: "first_free d < nbits \<Longrightarrow> \<not> used (first_free d) d"
    and first_free_full: "k < nbits \<Longrightarrow> \<not> used k d \<Longrightarrow> first_free d \<le> k"
begin

definition free_bits :: "'d \<Rightarrow> nat set" where
  "free_bits d = {k. k < nbits \<and> \<not> used k d}"

lemma free_bits_finite: "finite (free_bits d)"
  by (simp add: free_bits_def)

lemma free_bits_mark: "free_bits (mark j d) = free_bits d - {j}"
  by (auto simp: free_bits_def used_mark)

lemma first_free_Min: "free_bits d \<noteq> {} \<Longrightarrow> first_free d = Min (free_bits d)"
proof -
  assume "free_bits d \<noteq> {}"
  then obtain k where k: "k < nbits" "\<not> used k d" by (auto simp: free_bits_def)
  then have "first_free d < nbits" using first_free_full by fastforce
  then have "first_free d \<in> free_bits d" using first_free_unused by (simp add: free_bits_def)
  moreover have "\<And>k. k \<in> free_bits d \<Longrightarrow> first_free d \<le> k" using first_free_full by (simp add: free_bits_def)
  ultimately show ?thesis by (metis Min_eqI free_bits_finite)
qed

text \<open>Allocating \<open>n\<close> times takes the \<open>n\<close> lowest free bits, each once.\<close>

fun allocs :: "nat \<Rightarrow> 'd \<Rightarrow> nat list \<times> 'd" where
  "allocs 0 d = ([], d)"
| "allocs (Suc n) d = (let (ks, d') = allocs n (mark (first_free d) d) in (first_free d # ks, d'))"

lemma allocs_lowest:
  "n \<le> card (free_bits d) \<Longrightarrow> fst (allocs n d) = take n (sorted_list_of_set (free_bits d)) \<and>
     free_bits (snd (allocs n d)) = free_bits d - set (fst (allocs n d))"
proof (induction n arbitrary: d)
  case 0
  then show ?case by simp
next
  case (Suc n)
  let ?d = "mark (first_free d) d"
  have ne: "free_bits d \<noteq> {}" using Suc.prems by auto
  note fm = first_free_Min [OF ne]
  have "first_free d \<in> free_bits d" using ne fm free_bits_finite by simp
  then have "card (free_bits ?d) = card (free_bits d) - 1"
    by (simp add: free_bits_mark)
  with Suc.prems have "n \<le> card (free_bits ?d)" by simp
  note IH = Suc.IH [OF this]
  have "sorted_list_of_set (free_bits d) = first_free d # sorted_list_of_set (free_bits ?d)"
    using sorted_list_of_set_nonempty [OF free_bits_finite ne] by (simp add: fm free_bits_mark)
  moreover obtain ks d' where a: "allocs n ?d = (ks, d')" by (cases "allocs n ?d")
  moreover have "free_bits d' = free_bits d - {first_free d} - set ks" using IH a by (simp add: free_bits_mark)
  ultimately show ?case using IH by auto
qed

lemma unmark_mark: "\<not> used j d \<Longrightarrow> used k (unmark j (mark j d)) = used k d"
  by (auto simp: used_mark used_unmark)

end

lemma test_set_clear_bit:
  "test_bit k (set_bit_data j d) \<longleftrightarrow> k = j \<or> test_bit k d"
  "test_bit k (clear_bit_data j d) \<longleftrightarrow> k \<noteq> j \<and> test_bit k d"
proof -
  have e: "k = j \<longleftrightarrow> k div 8 = j div 8 \<and> k mod 8 = j mod 8" by (metis div_mult_mod_eq)
  define q r q' r' where "q = k div 8" "r = k mod 8" "q' = j div 8" "r' = j mod 8"
  moreover have "r < 8" "r' < 8" unfolding calculation by simp_all
  ultimately show "test_bit k (set_bit_data j d) \<longleftrightarrow> k = j \<or> test_bit k d"
    "test_bit k (clear_bit_data j d) \<longleftrightarrow> k \<noteq> j \<and> test_bit k d"
    unfolding e test_bit_def set_bit_data_def clear_bit_data_def
    by (auto simp: bit_set_bit_iff bit_unset_bit_iff)
qed

interpretation block_map: bitmap test_bit set_bit_data clear_bit_data find_first_zero 8192
proof
  fix d k
  note f = ffz_words_spec [of 0 d 256, simplified, folded find_first_zero_def]
  show "find_first_zero d < 8192 \<Longrightarrow> \<not> test_bit (find_first_zero d) d" using f by auto
  show "k < 8192 \<Longrightarrow> \<not> test_bit k d \<Longrightarrow> find_first_zero d \<le> k" using f not_le by blast
qed (auto simp: test_set_clear_bit)

text \<open>The first \<open>n\<close> bits that repeated \<^verbatim>\<open>find_first_zero\<close> and \<^verbatim>\<open>set_bit\<close> take.\<close>

fun take_bits :: "nat \<Rightarrow> (nat \<Rightarrow> u8) \<Rightarrow> nat list \<times> (nat \<Rightarrow> u8)" where
  "take_bits 0 d = ([], d)"
| "take_bits (Suc n) d =
     (let (ks, d') = take_bits n (set_bit_data (find_first_zero d) d) in (find_first_zero d # ks, d'))"

lemma take_bits_allocs: "take_bits n d = block_map.allocs n d"
  by (induction n arbitrary: d) (simp_all add: Let_def)

text \<open>C12: The bitmap of a block hands out its zero bits from the lowest on, each once: as long as there are
  \<open>n\<close> of them, \<open>n\<close> rounds of \<^verbatim>\<open>find_first_zero\<close> and \<^verbatim>\<open>set_bit\<close> take exactly the \<open>n\<close> lowest, and the
  zero bits left are the others.\<close>

theorem bitmap_allocates_lowest:
  assumes "n \<le> card {k. k < 8192 \<and> \<not> test_bit k d}"
  shows "fst (take_bits n d) = take n (sorted_list_of_set {k. k < 8192 \<and> \<not> test_bit k d}) \<and>
    {k. k < 8192 \<and> \<not> test_bit k (snd (take_bits n d))} =
      {k. k < 8192 \<and> \<not> test_bit k d} - set (fst (take_bits n d))"
  using block_map.allocs_lowest [of n d] assms by (simp add: take_bits_allocs block_map.free_bits_def)

theorem bitmap_allocates_lowest_witness:
  "fst (take_bits 3 (\<lambda>_. 0)) = take 3 (sorted_list_of_set {k. k < 8192})"
proof -
  have z: "test_bit k (\<lambda>_. 0) = False" for k by (simp add: test_bit_def)
  have "3 \<le> card {k :: nat. k < 8192 \<and> \<not> test_bit k (\<lambda>_. 0)}" by (simp add: z)
  from bitmap_allocates_lowest [OF this] show ?thesis by (simp add: z)
qed

end
