(* ===== verification/Namei.thy ===== *)
theory Namei
  imports Inode
begin

text \<open>
  fs/namei.c: permissions, directories, path names, and the system calls that create, link and
  remove names. A path name is an address in user memory. A directory entry is 16 bytes of a block, an
  inode number and 14 bytes of name; a \<^verbatim>\<open>struct dir_entry *\<close> is the buffer and the byte offset in it.
\<close>

subsection \<open>Permissions\<close>

abbreviation (input) "MAY_EXEC \<equiv> (1::u16)"
abbreviation (input) "MAY_WRITE \<equiv> (2::u16)"
abbreviation (input) "MAY_READ \<equiv> (4::u16)"

definition permission :: "nat \<Rightarrow> u16 \<Rightarrow> kernel \<Rightarrow> bool" where
  "permission n msk s =
     (let inode = inode_table s n; mode = i_mode inode in
      if i_dev inode \<noteq> 0 \<and> i_nlinks inode = 0 then False
      else let mode = (if t_euid (cur s) = i_uid inode then drop_bit 6 mode
                       else if t_egid (cur s) = ucast (i_gid inode) then drop_bit 3 mode
                       else mode) in
        mode AND msk AND 7 = msk \<or> suser s)"

text \<open>The fourth character of the string of \<^verbatim>\<open>ACC_MODE\<close> is a \<^verbatim>\<open>char\<close> of value -1.\<close>

definition ACC_MODE :: "u32 \<Rightarrow> u16" where
  "ACC_MODE flag = (let k = flag AND 3 in if k = 0 then 4 else if k = 1 then 2 else if k = 2 then 6 else 0xffff)"

subsection \<open>Directory entries\<close>

definition de_inode :: "nat \<Rightarrow> nat \<Rightarrow> kernel \<Rightarrow> u16" where
  "de_inode bh de s = get_short (b_data (bufs s bh)) de"

definition de_name :: "nat \<Rightarrow> nat \<Rightarrow> nat \<Rightarrow> kernel \<Rightarrow> u8" where
  "de_name bh de k s = b_data (bufs s bh) (de + 2 + k)"

definition set_de_inode :: "nat \<Rightarrow> nat \<Rightarrow> u16 \<Rightarrow> kernel \<Rightarrow> kernel" where
  "set_de_inode bh de v s = upd_buf bh (\<lambda>b. b\<lparr>b_data := put_short v de (b_data b)\<rparr>) s"

definition set_de_name :: "nat \<Rightarrow> nat \<Rightarrow> (nat \<times> u8) list \<Rightarrow> kernel \<Rightarrow> kernel" where
  "set_de_name bh de kvs s =
     upd_buf bh (\<lambda>b. b\<lparr>b_data := fold (\<lambda>(k, v) d. d(de + 2 + k := v)) kvs (b_data b)\<rparr>) s"

definition mark_dirty :: "nat \<Rightarrow> kernel \<Rightarrow> kernel" where
  "mark_dirty bh s = upd_buf bh (\<lambda>b. b\<lparr>b_dirt := True\<rparr>) s"

definition match :: "nat \<Rightarrow> u32 \<Rightarrow> nat \<Rightarrow> nat \<Rightarrow> kernel \<Rightarrow> bool" where
  "match len name bh de s =
     (if de_inode bh de s = 0 \<or> len > NAME_LEN then False
      else if len < NAME_LEN \<and> de_name bh de len s \<noteq> 0 then False
      else list_all (\<lambda>k. get_fs_byte (name + of_nat k) s = de_name bh de k s) [0..<len])"

text \<open>One round of the search of \<^verbatim>\<open>find_entry\<close>: \<open>i\<close> counts entries, \<open>bh\<close> is the current buffer
  (\<^verbatim>\<open>NULL\<close> after a hole) and \<open>de\<close> the offset of the entry in it. With a null \<^verbatim>\<open>bh\<close> the test
  for the end of the block compares with the first word of memory and holds.\<close>

definition find_entry_step ::
  "env \<Rightarrow> nat \<Rightarrow> u32 \<Rightarrow> nat \<Rightarrow> nat \<Rightarrow> nat \<times> nat option \<times> nat \<Rightarrow> kernel \<Rightarrow>
   (kernel, nat \<times> nat option \<times> nat + (nat \<times> nat) option) outcome" where
  "find_entry_step E dir name namelen entries = (\<lambda>(i, bh, de) s.
     if \<not> i < entries then kbind (brelse E bh s) (\<lambda>_ s. Ret (Inr None) s)
     else kbind
       (if bh = None \<or> de \<ge> BLOCK_SIZE then
          kbind (brelse E bh s) (\<lambda>_ s.
          kbind (bmap E dir (int (i div 64)) s) (\<lambda>block s.
            if block = 0 then Ret None s
            else kbind (bread E (i_dev (inode_table s dir)) (ucast block) s) (\<lambda>bh s.
              Ret (map_option (\<lambda>b. (b, 0)) bh) s)))
        else Ret (Some (the bh, de)) s) (\<lambda>p s.
       case p of
         None \<Rightarrow> Ret (Inl (i + 64, None, de)) s
       | Some (b, de) \<Rightarrow>
           if match namelen name b de s then Ret (Inr (Some (b, de))) s
           else Ret (Inl (i + 1, Some b, de + 16)) s))"

text \<open>The result is the directory, which \<open>..\<close> over a mount point exchanges, and the entry found.\<close>

definition find_entry :: "env \<Rightarrow> nat \<Rightarrow> u32 \<Rightarrow> nat \<Rightarrow> kernel \<Rightarrow> (nat \<times> (nat \<times> nat) option) kres" where
  "find_entry E dir name namelen s =
     (let namelen = (if namelen > NAME_LEN then NAME_LEN else namelen);
          entries = unat (i_size (inode_table s dir)) div 16 in
      if namelen = 0 then Ret (dir, None) s
      else kbind
        (if namelen = 2 \<and> get_fs_byte name s = 46 \<and> get_fs_byte (name + 1) s = 46 then
           (if Some dir = t_root (cur s) then Ret (dir, 1) s
            else if i_num (inode_table s dir) = ROOT_INO then
              kbind (get_super E (i_dev (inode_table s dir)) s) (\<lambda>sb s.
                case sb of
                  None \<Rightarrow> Fault
                | Some sb \<Rightarrow>
                    (case s_imount (super_block s sb) of
                       None \<Rightarrow> Ret (dir, namelen) s
                     | Some _ \<Rightarrow>
                         kbind (iput E (Some dir) s) (\<lambda>_ s.
                           case s_imount (super_block s sb) of
                             None \<Rightarrow> Fault
                           | Some d \<Rightarrow> Ret (d, namelen) (upd_inode d (\<lambda>n. n\<lparr>i_count := i_count n + 1\<rparr>) s))))
            else Ret (dir, namelen) s)
         else Ret (dir, namelen) s) (\<lambda>(dir, namelen) s.
        let block = i_zone (inode_table s dir) 0 in
        if block = 0 then Ret (dir, None) s
        else kbind (bread E (i_dev (inode_table s dir)) (ucast block) s) (\<lambda>bh s.
          case bh of
            None \<Rightarrow> Ret (dir, None) s
          | Some b \<Rightarrow> kbind (kwhile (fuel E) (find_entry_step E dir name namelen entries) (0, Some b, 0) s)
                        (\<lambda>r s. Ret (dir, r) s))))"

definition add_entry_step ::
  "env \<Rightarrow> nat \<Rightarrow> u32 \<Rightarrow> nat \<Rightarrow> nat \<times> nat option \<times> nat \<Rightarrow> kernel \<Rightarrow>
   (kernel, nat \<times> nat option \<times> nat + (nat \<times> nat) option) outcome" where
  "add_entry_step E dir name namelen = (\<lambda>(i, bh, de) s.
     kbind
       (if bh = None \<or> de \<ge> BLOCK_SIZE then
          kbind (brelse E bh s) (\<lambda>_ s.
          kbind (create_block E dir (int (i div 64)) s) (\<lambda>block s.
            if block = 0 then Ret (Inr (Inr None)) s
            else kbind (bread E (i_dev (inode_table s dir)) (ucast block) s) (\<lambda>bh s.
              case bh of
                None \<Rightarrow> Ret (Inr (Inl (i + 64, None, de))) s
              | Some b \<Rightarrow> Ret (Inl (b, 0)) s)))
        else Ret (Inl (the bh, de)) s) (\<lambda>p s.
       case p of
         Inr r \<Rightarrow> Ret r s
       | Inl (b, de) \<Rightarrow>
           let s = (if of_nat (i * 16) \<ge> i_size (inode_table s dir)
                    then upd_inode dir (\<lambda>n. n\<lparr>i_size := of_nat ((i + 1) * 16), i_dirt := True,
                             i_ctime := word_of_int (CURRENT_TIME s)\<rparr>) (set_de_inode b de 0 s)
                    else s) in
           if de_inode b de s = 0 then
             let s = upd_inode dir (\<lambda>n. n\<lparr>i_mtime := word_of_int (CURRENT_TIME s)\<rparr>) s;
                 s = set_de_name b de (map (\<lambda>k. (k, if k < namelen then get_fs_byte (name + of_nat k) s else 0))
                       [0..<NAME_LEN]) s in
             Ret (Inr (Some (b, de))) (mark_dirty b s)
           else Ret (Inl (i + 1, Some b, de + 16)) s))"

definition add_entry :: "env \<Rightarrow> nat \<Rightarrow> u32 \<Rightarrow> nat \<Rightarrow> kernel \<Rightarrow> (nat \<times> nat) option kres" where
  "add_entry E dir name namelen s =
     (let namelen = (if namelen > NAME_LEN then NAME_LEN else namelen);
          block = i_zone (inode_table s dir) 0 in
      if namelen = 0 then Ret None s
      else if block = 0 then Ret None s
      else kbind (bread E (i_dev (inode_table s dir)) (ucast block) s) (\<lambda>bh s.
        case bh of
          None \<Rightarrow> Ret None s
        | Some b \<Rightarrow> kwhile (fuel E) (add_entry_step E dir name namelen) (0, Some b, 0) s))"

subsection \<open>Path names\<close>

text \<open>The scan of one component: its length and the character that ended it.\<close>

definition scan_component :: "env \<Rightarrow> u32 \<Rightarrow> kernel \<Rightarrow> (nat \<times> u8) kres" where
  "scan_component E p s =
     kwhile (fuel E) (\<lambda>n s. let c = get_fs_byte (p + of_nat n) s in
       if c = 0 \<or> c = 47 then Ret (Inr (n, c)) s else Ret (Inl (n + 1)) s) 0 s"

definition get_dir_step :: "env \<Rightarrow> nat \<times> u32 \<Rightarrow> kernel \<Rightarrow> (kernel, nat \<times> u32 + nat option) outcome" where
  "get_dir_step E = (\<lambda>(inode, thisname) s.
     if \<not> S_ISDIR (i_mode (inode_table s inode)) \<or> \<not> permission inode MAY_EXEC s
     then kbind (iput E (Some inode) s) (\<lambda>_ s. Ret (Inr None) s)
     else kbind (scan_component E thisname s) (\<lambda>(namelen, c) s.
       let pathname = thisname + of_nat namelen + 1 in
       if c = 0 then Ret (Inr (Some inode)) s
       else kbind (find_entry E inode thisname namelen s) (\<lambda>(inode, r) s.
         case r of
           None \<Rightarrow> kbind (iput E (Some inode) s) (\<lambda>_ s. Ret (Inr None) s)
         | Some (bh, de) \<Rightarrow>
             let inr = de_inode bh de s;
                 idev = i_dev (inode_table s inode) in
             kbind (brelse E (Some bh) s) (\<lambda>_ s.
             kbind (iput E (Some inode) s) (\<lambda>_ s.
             kbind (iget E idev inr s) (\<lambda>inode s. Ret (Inl (inode, pathname)) s))))))"

definition get_dir :: "env \<Rightarrow> u32 \<Rightarrow> kernel \<Rightarrow> nat option kres" where
  "get_dir E pathname s =
     (case (t_root (cur s), t_pwd (cur s)) of
        (Some root, Some pwd) \<Rightarrow>
          if i_count (inode_table s root) = 0 then Panic ''No root inode'' s
          else if i_count (inode_table s pwd) = 0 then Panic ''No cwd inode'' s
          else let c = get_fs_byte pathname s in
            if c = 0 then Ret None s
            else let (inode, p) = (if c = 47 then (root, pathname + 1) else (pwd, pathname));
                     s = upd_inode inode (\<lambda>n. n\<lparr>i_count := i_count n + 1\<rparr>) s in
              kwhile (fuel E) (get_dir_step E) (inode, p) s
      | (None, _) \<Rightarrow> Panic ''No root inode'' s
      | (_, None) \<Rightarrow> if i_count (inode_table s (the (t_root (cur s)))) = 0 then Panic ''No root inode'' s
                     else Panic ''No cwd inode'' s)"

text \<open>The result of \<^verbatim>\<open>dir_namei\<close>: directory, length and address of the last component.\<close>

definition dir_namei :: "env \<Rightarrow> u32 \<Rightarrow> kernel \<Rightarrow> (nat \<times> nat \<times> u32) option kres" where
  "dir_namei E pathname s =
     kbind (get_dir E pathname s) (\<lambda>r s.
       case r of
         None \<Rightarrow> Ret None s
       | Some dir \<Rightarrow>
           kbind (kwhile (fuel E) (\<lambda>(p, basename) s.
               let c = get_fs_byte p s in
               if c = 0 then Ret (Inr (p + 1, basename)) s
               else Ret (Inl (p + 1, if c = 47 then p + 1 else basename)) s) (pathname, pathname) s)
             (\<lambda>(p, basename) s. Ret (Some (dir, unat (p - basename - 1), basename)) s))"

text \<open>Releasing what a system call holds before it returns \<open>r\<close>.\<close>

definition iputs :: "env \<Rightarrow> nat list \<Rightarrow> 'a \<Rightarrow> kernel \<Rightarrow> 'a kres" where
  "iputs E is r s = kbind (kfor (\<lambda>i _ s. iput E (Some i) s) is () s) (\<lambda>_ s. Ret r s)"

definition iputs_brelse :: "env \<Rightarrow> nat list \<Rightarrow> nat \<Rightarrow> 'a \<Rightarrow> kernel \<Rightarrow> 'a kres" where
  "iputs_brelse E is bh r s = kbind (iputs E is () s) (\<lambda>_ s. kbind (brelse E (Some bh) s) (\<lambda>_ s. Ret r s))"

definition brelse_iputs :: "env \<Rightarrow> nat \<Rightarrow> nat list \<Rightarrow> 'a \<Rightarrow> kernel \<Rightarrow> 'a kres" where
  "brelse_iputs E bh is r s = kbind (brelse E (Some bh) s) (\<lambda>_ s. iputs E is r s)"

definition namei :: "env \<Rightarrow> u32 \<Rightarrow> kernel \<Rightarrow> nat option kres" where
  "namei E pathname s =
     kbind (dir_namei E pathname s) (\<lambda>r s.
       case r of
         None \<Rightarrow> Ret None s
       | Some (dir, namelen, basename) \<Rightarrow>
           if namelen = 0 then Ret (Some dir) s
           else kbind (find_entry E dir basename namelen s) (\<lambda>(dir, r) s.
             case r of
               None \<Rightarrow> iputs E [dir] None s
             | Some (bh, de) \<Rightarrow>
                 let inr = de_inode bh de s;
                     dev = i_dev (inode_table s dir) in
                 kbind (brelse_iputs E bh [dir] () s) (\<lambda>_ s.
                 kbind (iget E dev inr s) (\<lambda>dir s.
                   Ret (Some dir) (upd_inode dir (\<lambda>n. n\<lparr>i_atime := word_of_int (CURRENT_TIME s),
                                                        i_dirt := True\<rparr>) s)))))"

subsection \<open>Opening\<close>

abbreviation (input) "O_ACCMODE \<equiv> (3::u32)"
abbreviation (input) "O_WRONLY \<equiv> (1::u32)"
abbreviation (input) "O_CREAT \<equiv> (0x40::u32)"
abbreviation (input) "O_EXCL \<equiv> (0x80::u32)"
abbreviation (input) "O_TRUNC \<equiv> (0x200::u32)"
abbreviation (input) "I_REGULAR \<equiv> (0x8000::u16)"
abbreviation (input) "I_DIRECTORY \<equiv> (0x4000::u16)"
abbreviation (input) "S_ISVTX \<equiv> (0x200::u16)"

text \<open>The part of \<^verbatim>\<open>open_namei\<close> that makes a new file.\<close>

definition open_create :: "env \<Rightarrow> nat \<Rightarrow> u32 \<Rightarrow> nat \<Rightarrow> u16 \<Rightarrow> kernel \<Rightarrow> (int \<times> nat option) kres" where
  "open_create E dir basename namelen mode s =
     (if \<not> permission dir MAY_WRITE s then iputs E [dir] (- EACCES, None) s
      else kbind (new_inode E (i_dev (inode_table s dir)) s) (\<lambda>r s.
        case r of
          None \<Rightarrow> iputs E [dir] (- ENOSPC, None) s
        | Some inode \<Rightarrow>
            let s = upd_inode inode (\<lambda>n. n\<lparr>i_uid := t_euid (cur s), i_mode := mode, i_dirt := True\<rparr>) s in
            kbind (add_entry E dir basename namelen s) (\<lambda>r s.
              case r of
                None \<Rightarrow> iputs E [inode, dir] (- ENOSPC, None)
                          (upd_inode inode (\<lambda>n. n\<lparr>i_nlinks := i_nlinks n - 1\<rparr>) s)
              | Some (bh, de) \<Rightarrow>
                  brelse_iputs E bh [dir] (0, Some inode)
                    (mark_dirty bh (set_de_inode bh de (i_num (inode_table s inode)) s)))))"

definition open_namei :: "env \<Rightarrow> u32 \<Rightarrow> u32 \<Rightarrow> u16 \<Rightarrow> kernel \<Rightarrow> (int \<times> nat option) kres" where
  "open_namei E pathname flag mode s =
     (let flag = (if flag AND O_TRUNC \<noteq> 0 \<and> flag AND O_ACCMODE = 0 then flag OR O_WRONLY else flag);
          mode = (mode AND (0x1FF AND NOT (t_umask (cur s)))) OR I_REGULAR in
      kbind (dir_namei E pathname s) (\<lambda>r s.
        case r of
          None \<Rightarrow> Ret (- ENOENT, None) s
        | Some (dir, namelen, basename) \<Rightarrow>
            if namelen = 0 then
              (if flag AND (O_ACCMODE OR O_CREAT OR O_TRUNC) = 0 then Ret (0, Some dir) s
               else iputs E [dir] (- EISDIR, None) s)
            else kbind (find_entry E dir basename namelen s) (\<lambda>(dir, r) s.
              case r of
                None \<Rightarrow>
                  if flag AND O_CREAT = 0 then iputs E [dir] (- ENOENT, None) s
                  else open_create E dir basename namelen mode s
              | Some (bh, de) \<Rightarrow>
                  let inr = de_inode bh de s;
                      dev = i_dev (inode_table s dir) in
                  kbind (brelse_iputs E bh [dir] () s) (\<lambda>_ s.
                    if flag AND O_EXCL \<noteq> 0 then Ret (- EEXIST, None) s
                    else kbind (iget E dev inr s) (\<lambda>inode s.
                      if S_ISDIR (i_mode (inode_table s inode)) \<and> flag AND O_ACCMODE \<noteq> 0
                         \<or> \<not> permission inode (ACC_MODE flag) s
                      then iputs E [inode] (- EPERM, None) s
                      else let s = upd_inode inode (\<lambda>n. n\<lparr>i_atime := word_of_int (CURRENT_TIME s)\<rparr>) s in
                        kbind (if flag AND O_TRUNC \<noteq> 0 then truncate E inode s else Ret () s)
                          (\<lambda>_ s. Ret (0, Some inode) s))))))"

subsection \<open>Making nodes and directories\<close>

text \<open>What \<^verbatim>\<open>sys_mknod\<close>, \<^verbatim>\<open>sys_mkdir\<close>, \<^verbatim>\<open>sys_rmdir\<close> and \<^verbatim>\<open>sys_unlink\<close> begin with: the
  directory of the name, which must have a last component and be writable. \<open>k\<close> goes on with the
  directory, the name and its length.\<close>

definition with_writable_dir ::
  "env \<Rightarrow> u32 \<Rightarrow> (nat \<Rightarrow> u32 \<Rightarrow> nat \<Rightarrow> kernel \<Rightarrow> int kres) \<Rightarrow> kernel \<Rightarrow> int kres" where
  "with_writable_dir E filename k s =
     kbind (dir_namei E filename s) (\<lambda>r s.
       case r of
         None \<Rightarrow> Ret (- ENOENT) s
       | Some (dir, namelen, basename) \<Rightarrow>
           if namelen = 0 then iputs E [dir] (- ENOENT) s
           else if \<not> permission dir MAY_WRITE s then iputs E [dir] (- EPERM) s
           else k dir basename namelen s)"

definition sys_mknod :: "env \<Rightarrow> u32 \<Rightarrow> u16 \<Rightarrow> u16 \<Rightarrow> kernel \<Rightarrow> int kres" where
  "sys_mknod E filename mode dev s =
     (if \<not> suser s then Ret (- EPERM) s
      else with_writable_dir E filename (\<lambda>dir basename namelen s.
        kbind (find_entry E dir basename namelen s) (\<lambda>(dir, r) s.
          case r of
            Some (bh, de) \<Rightarrow> brelse_iputs E bh [dir] (- EEXIST) s
          | None \<Rightarrow> kbind (new_inode E (i_dev (inode_table s dir)) s) (\<lambda>r s.
              case r of
                None \<Rightarrow> iputs E [dir] (- ENOSPC) s
              | Some inode \<Rightarrow>
                  let now = word_of_int (CURRENT_TIME s);
                      s = upd_inode inode (\<lambda>n. n\<lparr>i_mode := mode,
                            i_zone := (if S_ISBLK mode \<or> S_ISCHR mode then (i_zone n)(0 := dev) else i_zone n),
                            i_mtime := now, i_atime := now, i_dirt := True\<rparr>) s in
                  kbind (add_entry E dir basename namelen s) (\<lambda>r s.
                    case r of
                      None \<Rightarrow>
                        kbind (iput E (Some dir) s) (\<lambda>_ s.
                          iputs E [inode] (- ENOSPC) (upd_inode inode (\<lambda>n. n\<lparr>i_nlinks := 0\<rparr>) s))
                    | Some (bh, de) \<Rightarrow>
                        iputs_brelse E [dir, inode] bh 0
                          (mark_dirty bh (set_de_inode bh de (i_num (inode_table s inode)) s)))))) s)"

text \<open>The two first entries of a new directory.\<close>

definition dot_entries :: "nat \<Rightarrow> u16 \<Rightarrow> u16 \<Rightarrow> kernel \<Rightarrow> kernel" where
  "dot_entries bh self parent s =
     (let s = set_de_name bh 0 [(0, 46), (1, 0)] (set_de_inode bh 0 self s);
          s = set_de_name bh 16 [(0, 46), (1, 46), (2, 0)] (set_de_inode bh 16 parent s) in
      s)"

definition sys_mkdir_enter :: "env \<Rightarrow> nat \<Rightarrow> nat \<Rightarrow> u32 \<Rightarrow> nat \<Rightarrow> kernel \<Rightarrow> int kres" where
  "sys_mkdir_enter E dir inode basename namelen s =
     kbind (add_entry E dir basename namelen s) (\<lambda>r s.
       case r of
         None \<Rightarrow>
           kbind (iput E (Some dir) s) (\<lambda>_ s.
           kbind (free_block E (i_dev (inode_table s inode)) (uint (i_zone (inode_table s inode) 0)) s) (\<lambda>_ s.
             iputs E [inode] (- ENOSPC) (upd_inode inode (\<lambda>n. n\<lparr>i_nlinks := 0\<rparr>) s)))
       | Some (bh, de) \<Rightarrow>
           let s = mark_dirty bh (set_de_inode bh de (i_num (inode_table s inode)) s);
               s = upd_inode dir (\<lambda>n. n\<lparr>i_nlinks := i_nlinks n + 1, i_dirt := True\<rparr>) s in
           iputs_brelse E [dir, inode] bh 0 s)"

definition sys_mkdir :: "env \<Rightarrow> u32 \<Rightarrow> u16 \<Rightarrow> kernel \<Rightarrow> int kres" where
  "sys_mkdir E pathname mode s =
     (if \<not> suser s then Ret (- EPERM) s
      else with_writable_dir E pathname (\<lambda>dir basename namelen s.
        kbind (find_entry E dir basename namelen s) (\<lambda>(dir, r) s.
          case r of
            Some (bh, de) \<Rightarrow> brelse_iputs E bh [dir] (- EEXIST) s
          | None \<Rightarrow> kbind (new_inode E (i_dev (inode_table s dir)) s) (\<lambda>r s.
              case r of
                None \<Rightarrow> iputs E [dir] (- ENOSPC) s
              | Some inode \<Rightarrow>
                  let now = word_of_int (CURRENT_TIME s);
                      s = upd_inode inode (\<lambda>n. n\<lparr>i_size := 32, i_dirt := True, i_mtime := now, i_atime := now\<rparr>) s in
                  kbind (new_block E (i_dev (inode_table s inode)) s) (\<lambda>z s.
                    let s = upd_inode inode (\<lambda>n. n\<lparr>i_zone := (i_zone n)(0 := z)\<rparr>) s in
                    if z = 0 then
                      kbind (iput E (Some dir) s) (\<lambda>_ s.
                        iputs E [inode] (- ENOSPC) (upd_inode inode (\<lambda>n. n\<lparr>i_nlinks := i_nlinks n - 1\<rparr>) s))
                    else let s = upd_inode inode (\<lambda>n. n\<lparr>i_dirt := True\<rparr>) s in
                      kbind (bread E (i_dev (inode_table s inode)) (ucast (i_zone (inode_table s inode) 0)) s) (\<lambda>r s.
                        case r of
                          None \<Rightarrow>
                            kbind (iput E (Some dir) s) (\<lambda>_ s.
                            kbind (free_block E (i_dev (inode_table s inode))
                                     (uint (i_zone (inode_table s inode) 0)) s) (\<lambda>_ s.
                              iputs E [inode] (- ERROR) (upd_inode inode (\<lambda>n. n\<lparr>i_nlinks := i_nlinks n - 1\<rparr>) s)))
                        | Some dir_block \<Rightarrow>
                            let s = dot_entries dir_block (i_num (inode_table s inode)) (i_num (inode_table s dir)) s;
                                s = upd_inode inode (\<lambda>n. n\<lparr>i_nlinks := 2\<rparr>) s;
                                s = mark_dirty dir_block s in
                            kbind (brelse E (Some dir_block) s) (\<lambda>_ s.
                              let s = upd_inode inode (\<lambda>n. n\<lparr>i_mode := I_DIRECTORY OR
                                        (mode AND 0x1FF AND NOT (t_umask (cur s))), i_dirt := True\<rparr>) s in
                              sys_mkdir_enter E dir inode basename namelen s)))))) s)"

subsection \<open>Removing names\<close>

text \<open>The loop of \<^verbatim>\<open>empty_dir\<close>. After a hole it goes on with the buffer it has already released.\<close>

definition empty_dir_step :: "env \<Rightarrow> nat \<Rightarrow> nat \<Rightarrow> nat \<times> nat \<times> nat \<Rightarrow> kernel \<Rightarrow>
    (kernel, nat \<times> nat \<times> nat + bool) outcome" where
  "empty_dir_step E inode len = (\<lambda>(nr, bh, de) s.
     if \<not> nr < len then kbind (brelse E (Some bh) s) (\<lambda>_ s. Ret (Inr True) s)
     else
       let check = (\<lambda>bh de s. if de_inode bh de s \<noteq> 0 then kbind (brelse E (Some bh) s) (\<lambda>_ s. Ret (Inr False) s)
                              else Ret (Inl (nr + 1, bh, de + 16)) s) in
       if de \<ge> BLOCK_SIZE then
         kbind (brelse E (Some bh) s) (\<lambda>_ s.
         kbind (bmap E inode (int (nr div 64)) s) (\<lambda>block s.
           if block = 0 then Ret (Inl (nr + 64, bh, de)) s
           else kbind (bread E (i_dev (inode_table s inode)) (ucast block) s) (\<lambda>r s.
             case r of
               None \<Rightarrow> Ret (Inr False) s
             | Some bh \<Rightarrow> check bh 0 s)))
       else check bh de s)"

definition empty_dir :: "env \<Rightarrow> nat \<Rightarrow> kernel \<Rightarrow> bool kres" where
  "empty_dir E inode s =
     (let len = unat (i_size (inode_table s inode)) div 16 in
      if len < 2 \<or> i_zone (inode_table s inode) 0 = 0 then Ret False s
      else kbind (bread E (i_dev (inode_table s inode)) (ucast (i_zone (inode_table s inode) 0)) s) (\<lambda>r s.
        case r of
          None \<Rightarrow> Ret False s
        | Some bh \<Rightarrow>
            if de_inode bh 0 s \<noteq> i_num (inode_table s inode) \<or> de_inode bh 16 s = 0
               \<or> \<not> (de_name bh 0 0 s = 46 \<and> de_name bh 0 1 s = 0)
               \<or> \<not> (de_name bh 16 0 s = 46 \<and> de_name bh 16 1 s = 46 \<and> de_name bh 16 2 s = 0)
            then Ret False s
            else kwhile (fuel E) (empty_dir_step E inode len) (2, bh, 32) s))"

definition sys_rmdir :: "env \<Rightarrow> u32 \<Rightarrow> kernel \<Rightarrow> int kres" where
  "sys_rmdir E name s =
     (if \<not> suser s then Ret (- EPERM) s
      else with_writable_dir E name (\<lambda>dir basename namelen s.
        kbind (find_entry E dir basename namelen s) (\<lambda>(dir, r) s.
          case r of
            None \<Rightarrow> iputs E [dir] (- ENOENT) s
          | Some (bh, de) \<Rightarrow>
              kbind (iget E (i_dev (inode_table s dir)) (de_inode bh de s) s) (\<lambda>inode s.
                let i = inode_table s inode; d = inode_table s dir in
                if i_mode d AND S_ISVTX \<noteq> 0 \<and> t_euid (cur s) \<noteq> 0 \<and> i_uid i \<noteq> t_euid (cur s)
                then iputs_brelse E [dir, inode] bh (- EPERM) s
                else if i_dev i \<noteq> i_dev d \<or> i_count i > 1 then iputs_brelse E [dir, inode] bh (- EPERM) s
                else if inode = dir then iputs_brelse E [inode, dir] bh (- EPERM) s
                else if \<not> S_ISDIR (i_mode i) then iputs_brelse E [inode, dir] bh (- ENOTDIR) s
                else kbind (empty_dir E inode s) (\<lambda>empty s.
                  if \<not> empty then iputs_brelse E [inode, dir] bh (- ENOTEMPTY) s
                  else let s = mark_dirty bh (set_de_inode bh de 0 s) in
                    kbind (brelse E (Some bh) s) (\<lambda>_ s.
                      let now = word_of_int (CURRENT_TIME s);
                          s = upd_inode inode (\<lambda>n. n\<lparr>i_nlinks := 0, i_dirt := True\<rparr>) s;
                          s = upd_inode dir (\<lambda>n. n\<lparr>i_nlinks := i_nlinks n - 1, i_ctime := now,
                                                  i_mtime := now, i_dirt := True\<rparr>) s in
                      iputs E [dir, inode] 0 s))))) s)"

definition sys_unlink :: "env \<Rightarrow> u32 \<Rightarrow> kernel \<Rightarrow> int kres" where
  "sys_unlink E name s =
     with_writable_dir E name (\<lambda>dir basename namelen s.
       kbind (find_entry E dir basename namelen s) (\<lambda>(dir, r) s.
         case r of
           None \<Rightarrow> iputs E [dir] (- ENOENT) s
         | Some (bh, de) \<Rightarrow>
             kbind (iget E (i_dev (inode_table s dir)) (de_inode bh de s) s) (\<lambda>inode s.
               let i = inode_table s inode; d = inode_table s dir in
               if i_mode d AND S_ISVTX \<noteq> 0 \<and> \<not> suser s \<and> t_euid (cur s) \<noteq> i_uid i \<and> t_euid (cur s) \<noteq> i_uid d
               then iputs_brelse E [dir, inode] bh (- EPERM) s
               else if S_ISDIR (i_mode i) then iputs_brelse E [inode, dir] bh (- EPERM) s
               else let s = (if i_nlinks i = 0 then upd_inode inode (\<lambda>n. n\<lparr>i_nlinks := 1\<rparr>) s else s);
                        s = mark_dirty bh (set_de_inode bh de 0 s) in
                 kbind (brelse E (Some bh) s) (\<lambda>_ s.
                   iputs E [inode, dir] 0
                     (upd_inode inode (\<lambda>n. n\<lparr>i_nlinks := i_nlinks n - 1, i_dirt := True,
                        i_ctime := word_of_int (CURRENT_TIME s)\<rparr>) s))))) s"

definition sys_link :: "env \<Rightarrow> u32 \<Rightarrow> u32 \<Rightarrow> kernel \<Rightarrow> int kres" where
  "sys_link E oldname newname s =
     kbind (namei E oldname s) (\<lambda>r s.
       case r of
         None \<Rightarrow> Ret (- ENOENT) s
       | Some oldinode \<Rightarrow>
           if S_ISDIR (i_mode (inode_table s oldinode)) then iputs E [oldinode] (- EPERM) s
           else kbind (dir_namei E newname s) (\<lambda>r s.
             case r of
               None \<Rightarrow> iputs E [oldinode] (- EACCES) s
             | Some (dir, namelen, basename) \<Rightarrow>
                 if namelen = 0 then iputs E [oldinode, dir] (- EPERM) s
                 else if i_dev (inode_table s dir) \<noteq> i_dev (inode_table s oldinode)
                 then iputs E [dir, oldinode] (- EXDEV) s
                 else if \<not> permission dir MAY_WRITE s then iputs E [dir, oldinode] (- EACCES) s
                 else kbind (find_entry E dir basename namelen s) (\<lambda>(dir, r) s.
                   case r of
                     Some (bh, de) \<Rightarrow> brelse_iputs E bh [dir, oldinode] (- EEXIST) s
                   | None \<Rightarrow> kbind (add_entry E dir basename namelen s) (\<lambda>r s.
                       case r of
                         None \<Rightarrow> iputs E [dir, oldinode] (- ENOSPC) s
                       | Some (bh, de) \<Rightarrow>
                           kbind (brelse_iputs E bh [dir] ()
                                    (mark_dirty bh (set_de_inode bh de (i_num (inode_table s oldinode)) s))) (\<lambda>_ s.
                             iputs E [oldinode] 0
                               (upd_inode oldinode (\<lambda>n. n\<lparr>i_nlinks := i_nlinks n + 1,
                                  i_ctime := word_of_int (CURRENT_TIME s), i_dirt := True\<rparr>) s))))))"

subsection \<open>Names\<close>

lemma takeWhile_eq_iff:
  assumes "\<forall>x\<in>set xs. P x"
  shows "xs = takeWhile P zs \<longleftrightarrow> length xs \<le> length zs \<and> (\<forall>k<length xs. zs ! k = xs ! k) \<and>
    (length xs < length zs \<longrightarrow> \<not> P (zs ! length xs))"
proof
  assume "xs = takeWhile P zs"
  then show "length xs \<le> length zs \<and> (\<forall>k<length xs. zs ! k = xs ! k) \<and>
    (length xs < length zs \<longrightarrow> \<not> P (zs ! length xs))"
    by (simp add: length_takeWhile_le takeWhile_nth nth_length_takeWhile)
next
  assume a: "length xs \<le> length zs \<and> (\<forall>k<length xs. zs ! k = xs ! k) \<and>
    (length xs < length zs \<longrightarrow> \<not> P (zs ! length xs))"
  then have "takeWhile P zs = take (length xs) zs"
    using assms by (intro takeWhile_eq_take_P_nth) auto
  also have "\<dots> = xs" using a by (intro nth_equalityI) auto
  finally show "xs = takeWhile P zs" by simp
qed

text \<open>The name of a directory entry: its 14 bytes up to the first null byte.\<close>

definition entry_name :: "nat \<Rightarrow> nat \<Rightarrow> kernel \<Rightarrow> u8 list" where
  "entry_name bh de s = takeWhile (\<lambda>c. c \<noteq> 0) (map (\<lambda>k. de_name bh de k s) [0..<NAME_LEN])"

definition user_name :: "u32 \<Rightarrow> nat \<Rightarrow> kernel \<Rightarrow> u8 list" where
  "user_name name len s = map (\<lambda>k. get_fs_byte (name + of_nat k) s) [0..<len]"

text \<open>\<^verbatim>\<open>match\<close> compares names: for a component of a path, which has no null byte, it is true exactly for
  the used entries whose name is the component; a component longer than 14 bytes matches no entry.\<close>

theorem match_iff_same_name:
  assumes "\<forall>k<len. get_fs_byte (name + of_nat k) s \<noteq> 0"
  shows "match len name bh de s \<longleftrightarrow> de_inode bh de s \<noteq> 0 \<and> user_name name len s = entry_name bh de s"
proof -
  have "\<forall>c\<in>set (user_name name len s). c \<noteq> 0" using assms by (auto simp: user_name_def)
  note tw = takeWhile_eq_iff [OF this]
  show ?thesis unfolding entry_name_def tw
    by (auto simp: match_def user_name_def list_all_iff)
qed

theorem match_iff_same_name_witness:
  "match 2 16 0 0 (k0\<lparr>umem := (\<lambda>a. if a = 16 then 97 else 98),
     bufs := (\<lambda>_. zero_buf\<lparr>b_data := (\<lambda>i. if i = 0 then 5 else if i = 2 then 97 else if i = 3 then 98 else 0)\<rparr>)\<rparr>)"
proof -
  let ?s = "k0\<lparr>umem := (\<lambda>a. if a = 16 then 97 else 98),
     bufs := (\<lambda>_. zero_buf\<lparr>b_data := (\<lambda>i. if i = 0 then 5 else if i = 2 then 97 else if i = 3 then 98 else 0)\<rparr>)\<rparr>"
  have "\<forall>k<2. get_fs_byte (16 + of_nat k) ?s \<noteq> 0" by (simp add: get_fs_byte_def)
  moreover have "de_inode 0 0 ?s \<noteq> 0" by (simp add: de_inode_def get_short_def le16_def)
  moreover have "user_name 16 2 ?s = [97, 98]" by (simp add: user_name_def get_fs_byte_def upt_rec)
  moreover have "entry_name 0 0 ?s = [97, 98]" by (simp add: entry_name_def de_name_def upt_rec)
  ultimately show ?thesis using match_iff_same_name [of 2 16 ?s 0 0] by simp
qed

end
