(* ===== verification/Super.thy ===== *)
theory Super
  imports Namei Tty
begin

text \<open>
  fs/super.c: reading and releasing super blocks, mounting and unmounting; and \<^verbatim>\<open>check_disk_change\<close> of
  fs/buffer.c, which releases the super blocks of a changed floppy.
\<close>

definition put_super :: "env \<Rightarrow> u16 \<Rightarrow> kernel \<Rightarrow> unit kres" where
  "put_super E dev s =
     (if dev = ROOT_DEV s then Ret () s
      else kbind (get_super E dev s) (\<lambda>r s.
        case r of
          None \<Rightarrow> Ret () s
        | Some sb \<Rightarrow>
            if s_imount (super_block s sb) \<noteq> None then Ret () s
            else kbind (lock_super E sb s) (\<lambda>_ s.
              let s = upd_super sb (\<lambda>b. b\<lparr>s_dev := 0\<rparr>) s in
              kbind (kfor (\<lambda>i _ s. brelse E (s_imap (super_block s sb) i) s) [0..<8] () s) (\<lambda>_ s.
              kbind (kfor (\<lambda>i _ s. brelse E (s_zmap (super_block s sb) i) s) [0..<8] () s) (\<lambda>_ s.
                Ret () (free_super sb s))))))"

definition check_disk_change :: "env \<Rightarrow> u16 \<Rightarrow> kernel \<Rightarrow> unit kres" where
  "check_disk_change E dev s =
     (if MAJOR dev \<noteq> 2 then Ret () s
      else if \<not> floppy_change E (dev AND 3) then Ret () s
      else kbind (kfor (\<lambda>i _ s. if s_dev (super_block s i) = dev then put_super E (s_dev (super_block s i)) s
                               else Ret () s) [0..<NR_SUPER] () s) (\<lambda>_ s.
        kbind (invalidate_inodes E dev s) (\<lambda>_ s. invalidate_buffers E dev s)))"

text \<open>The two loops that read the bitmaps: the result is the number of the next block; a failed read ends
  the loop. More than eight bitmap blocks would leave the array.\<close>

definition read_maps :: "env \<Rightarrow> u16 \<Rightarrow> (nat \<Rightarrow> nat option \<Rightarrow> kernel \<Rightarrow> kernel) \<Rightarrow> nat \<Rightarrow> u32 \<Rightarrow> kernel \<Rightarrow> u32 kres" where
  "read_maps E dev put n block s =
     kbind (kfor (\<lambda>i (block, stop) s.
       if stop then Ret (block, stop) s
       else if i \<ge> 8 then Fault
       else kbind (bread E dev block s) (\<lambda>r s.
         Ret (if r = None then (block, True) else (block + 1, False)) (put i r s)))
       [0..<n] (block, False) s) (\<lambda>(block, _) s. Ret block s)"

definition read_super :: "env \<Rightarrow> u16 \<Rightarrow> kernel \<Rightarrow> nat option kres" where
  "read_super E dev s =
     (if dev = 0 then Ret None s
      else kbind (check_disk_change E dev s) (\<lambda>_ s.
        kbind (get_super E dev s) (\<lambda>r s.
          case r of
            Some n \<Rightarrow> Ret (Some n) s
          | None \<Rightarrow>
              (case find_up (\<lambda>n. s_dev (super_block s n) = 0) 0 NR_SUPER of
                 None \<Rightarrow> Ret None s
               | Some n \<Rightarrow>
                   let s = upd_super n (\<lambda>b. b\<lparr>s_dev := dev, s_isup := None, s_imount := None, s_time := 0,
                             s_rd_only := False, s_dirt := False\<rparr>) s;
                       give_up = (\<lambda>s. Ret None (free_super n (upd_super n (\<lambda>b. b\<lparr>s_dev := 0\<rparr>) s))) in
                   kbind (lock_super E n s) (\<lambda>_ s.
                   kbind (bread E dev 1 s) (\<lambda>r s.
                     case r of
                       None \<Rightarrow> give_up s
                     | Some bh \<Rightarrow>
                         let s = upd_super n (get_d_super_block (b_data (bufs s bh))) s in
                         kbind (brelse E (Some bh) s) (\<lambda>_ s.
                           if s_magic (super_block s n) \<noteq> SUPER_MAGIC then give_up s
                           else let s = upd_super n (\<lambda>b. b\<lparr>s_imap := (\<lambda>i. if i < 8 then None else s_imap b i),
                                          s_zmap := (\<lambda>i. if i < 8 then None else s_zmap b i)\<rparr>) s in
                             kbind (read_maps E dev (\<lambda>i r s. upd_super n (\<lambda>b. b\<lparr>s_imap := (s_imap b)(i := r)\<rparr>) s)
                                      (unat (s_imap_blocks (super_block s n))) 2 s) (\<lambda>block s.
                             kbind (read_maps E dev (\<lambda>i r s. upd_super n (\<lambda>b. b\<lparr>s_zmap := (s_zmap b)(i := r)\<rparr>) s)
                                      (unat (s_zmap_blocks (super_block s n))) block s) (\<lambda>block s.
                               if block \<noteq> 2 + ucast (s_imap_blocks (super_block s n))
                                            + ucast (s_zmap_blocks (super_block s n)) then
                                 kbind (kfor (\<lambda>i _ s. brelse E (s_imap (super_block s n) i) s) [0..<8] () s) (\<lambda>_ s.
                                 kbind (kfor (\<lambda>i _ s. brelse E (s_zmap (super_block s n) i) s) [0..<8] () s) (\<lambda>_ s.
                                   give_up s))
                               else (case (s_imap (super_block s n) 0, s_zmap (super_block s n) 0) of
                                   (Some ib, Some zb) \<Rightarrow>
                                     let s = upd_buf ib (\<lambda>b. b\<lparr>b_data := (b_data b)(0 := b_data b 0 OR 1)\<rparr>) s;
                                         s = upd_buf zb (\<lambda>b. b\<lparr>b_data := (b_data b)(0 := b_data b 0 OR 1)\<rparr>) s in
                                     Ret (Some n) (free_super n s)
                                 | _ \<Rightarrow> Fault))))))))))"

definition sys_umount :: "env \<Rightarrow> u32 \<Rightarrow> kernel \<Rightarrow> int kres" where
  "sys_umount E dev_name s =
     kbind (namei E dev_name s) (\<lambda>r s.
       case r of
         None \<Rightarrow> Ret (- ENOENT) s
       | Some inode \<Rightarrow>
           let dev = i_zone (inode_table s inode) 0 in
           if \<not> S_ISBLK (i_mode (inode_table s inode)) then iputs E [inode] (- ENOTBLK) s
           else kbind (iput E (Some inode) s) (\<lambda>_ s.
             if dev = ROOT_DEV s then Ret (- EBUSY) s
             else kbind (get_super E dev s) (\<lambda>r s.
               case r of
                 None \<Rightarrow> Ret (- ENOENT) s
               | Some sb \<Rightarrow>
                   (case s_imount (super_block s sb) of
                      None \<Rightarrow> Ret (- ENOENT) s
                    | Some mnt \<Rightarrow>
                        if \<exists>i \<in> set [0..<NR_INODE]. i_dev (inode_table s i) = dev \<and> i_count (inode_table s i) \<noteq> 0
                        then Ret (- EBUSY) s
                        else let s = upd_inode mnt (\<lambda>n. n\<lparr>i_mount := False\<rparr>) s in
                          kbind (iput E (s_imount (super_block s sb)) s) (\<lambda>_ s.
                          kbind (iput E (s_isup (super_block s sb))
                                   (upd_super sb (\<lambda>b. b\<lparr>s_imount := None\<rparr>) s)) (\<lambda>_ s.
                          kbind (put_super E dev (upd_super sb (\<lambda>b. b\<lparr>s_isup := None\<rparr>) s)) (\<lambda>_ s.
                          kbind (sync_dev E dev s) (\<lambda>_ s. Ret 0 s))))))))"

definition sys_mount :: "env \<Rightarrow> u32 \<Rightarrow> u32 \<Rightarrow> int \<Rightarrow> kernel \<Rightarrow> int kres" where
  "sys_mount E dev_name dir_name rw_flag s =
     kbind (namei E dev_name s) (\<lambda>r s.
       case r of
         None \<Rightarrow> Ret (- ENOENT) s
       | Some dev_i \<Rightarrow>
           let dev = i_zone (inode_table s dev_i) 0 in
           if \<not> S_ISBLK (i_mode (inode_table s dev_i)) then iputs E [dev_i] (- EPERM) s
           else kbind (iput E (Some dev_i) s) (\<lambda>_ s.
           kbind (namei E dir_name s) (\<lambda>r s.
             case r of
               None \<Rightarrow> Ret (- ENOENT) s
             | Some dir_i \<Rightarrow>
                 if i_count (inode_table s dir_i) \<noteq> 1 \<or> i_num (inode_table s dir_i) = ROOT_INO
                 then iputs E [dir_i] (- EBUSY) s
                 else if \<not> S_ISDIR (i_mode (inode_table s dir_i)) then iputs E [dir_i] (- EPERM) s
                 else kbind (read_super E dev s) (\<lambda>r s.
                   case r of
                     None \<Rightarrow> iputs E [dir_i] (- EBUSY) s
                   | Some sb \<Rightarrow>
                       if s_imount (super_block s sb) \<noteq> None then iputs E [dir_i] (- EBUSY) s
                       else if i_mount (inode_table s dir_i) then iputs E [dir_i] (- EPERM) s
                       else let s = upd_super sb (\<lambda>b. b\<lparr>s_imount := Some dir_i\<rparr>) s in
                         Ret 0 (upd_inode dir_i (\<lambda>n. n\<lparr>i_mount := True, i_dirt := True\<rparr>) s)))))"

text \<open>The counts of free blocks and inodes that \<^verbatim>\<open>mount_root\<close> prints at the end have no effect.\<close>

definition mount_root :: "env \<Rightarrow> kernel \<Rightarrow> unit kres" where
  "mount_root E s =
     (let s = s\<lparr>file_table := (\<lambda>i. if i < NR_FILE then (file_table s i)\<lparr>f_count := 0\<rparr> else file_table s i)\<rparr> in
      kbind (if MAJOR (ROOT_DEV s) = 2 then wait_for_keypress E s else Ret () s) (\<lambda>_ s.
        let s = fold (\<lambda>n s. (upd_super n (\<lambda>b. b\<lparr>s_dev := 0, s_lock := False\<rparr>) s)
                               \<lparr>wq := (wq s)(S_wait n := 0)\<rparr>) [0..<NR_SUPER] s in
        kbind (read_super E (ROOT_DEV s) s) (\<lambda>r s.
          case r of
            None \<Rightarrow> Panic ''Unable to mount root'' s
          | Some p \<Rightarrow>
              kbind (iget E (ROOT_DEV s) ROOT_INO s) (\<lambda>mi s.
                let s = upd_inode mi (\<lambda>n. n\<lparr>i_count := i_count n + 3\<rparr>) s;
                    s = upd_super p (\<lambda>b. b\<lparr>s_imount := Some mi, s_isup := Some mi\<rparr>) s in
                Ret () (upd_cur (\<lambda>t. t\<lparr>t_pwd := Some mi, t_root := Some mi\<rparr>) s)))))"

end
