(* ===== verification/Files.thy ===== *)
theory Files
  imports Super
begin

text \<open>
  Open files: fs/file_dev.c, fs/pipe.c, fs/block_dev.c, fs/char_dev.c, fs/read_write.c, fs/open.c,
  fs/fcntl.c and fs/stat.c. A \<^verbatim>\<open>struct file *\<close> is the index of the file in \<^verbatim>\<open>file_table\<close>; user
  buffers are addresses in user memory.
\<close>

subsection \<open>Regular files\<close>

definition advance_pos :: "nat \<Rightarrow> int \<Rightarrow> kernel \<Rightarrow> kernel" where
  "advance_pos f n s = upd_file f (\<lambda>x. x\<lparr>f_pos := wrap32 (f_pos x + n)\<rparr>) s"

definition file_read_step :: "env \<Rightarrow> nat \<Rightarrow> nat \<Rightarrow> int \<times> u32 \<Rightarrow> kernel \<Rightarrow> (kernel, int \<times> u32 + int) outcome" where
  "file_read_step E inode filp = (\<lambda>(left, buf) s.
     if left = 0 then Ret (Inr left) s
     else kbind (bmap E inode (c_div (f_pos (file_table s filp)) 1024) s) (\<lambda>nr s.
       kbind (if nr \<noteq> 0 then kbind (bread E (i_dev (inode_table s inode)) (ucast nr) s) (\<lambda>bh s. Ret (bh, bh = None) s)
              else Ret (None, False) s) (\<lambda>(bh, stop) s.
         if stop then Ret (Inr left) s
         else let nr = c_mod (f_pos (file_table s filp)) 1024;
                  chars = min (1024 - nr) left;
                  s = advance_pos filp chars s in
           case bh of
             Some b \<Rightarrow>
               if nr < 0 then Fault
               else kbind (brelse E (Some b) (put_fs_bytes (\<lambda>k. b_data (bufs s b) (nat nr + k)) (nat chars) buf s))
                      (\<lambda>_ s. Ret (Inl (left - chars, buf + word_of_int chars)) s)
           | None \<Rightarrow> Ret (Inl (left - chars, buf + word_of_int chars)) (put_fs_bytes (\<lambda>_. 0) (nat chars) buf s))))"

definition file_read :: "env \<Rightarrow> nat \<Rightarrow> nat \<Rightarrow> u32 \<Rightarrow> int \<Rightarrow> kernel \<Rightarrow> int kres" where
  "file_read E inode filp buf count s =
     (if count \<le> 0 then Ret 0 s
      else kbind (kwhile (fuel E) (file_read_step E inode filp) (count, buf) s) (\<lambda>left s.
        let s = upd_inode inode (\<lambda>n. n\<lparr>i_atime := word_of_int (CURRENT_TIME s)\<rparr>) s in
        Ret (if count - left \<noteq> 0 then count - left else - ERROR) s))"

definition buf_write :: "nat \<Rightarrow> nat \<Rightarrow> nat \<Rightarrow> u32 \<Rightarrow> kernel \<Rightarrow> kernel" where
  "buf_write bh off n buf s =
     upd_buf bh (\<lambda>b. b\<lparr>b_data := (\<lambda>k. if off \<le> k \<and> k < off + n then get_fs_byte (buf + of_nat (k - off)) s
                                       else b_data b k)\<rparr>) s"

definition file_write_step ::
  "env \<Rightarrow> nat \<Rightarrow> int \<Rightarrow> int \<times> int \<times> u32 \<Rightarrow> kernel \<Rightarrow> (kernel, int \<times> int \<times> u32 + int \<times> int) outcome" where
  "file_write_step E inode count = (\<lambda>(pos, i, buf) s.
     if \<not> i < count then Ret (Inr (pos, i)) s
     else kbind (create_block E inode (c_div pos 1024) s) (\<lambda>block s.
       if block = 0 then Ret (Inr (pos, i)) s
       else kbind (bread E (i_dev (inode_table s inode)) (ucast block) s) (\<lambda>bh s.
         case bh of
           None \<Rightarrow> Ret (Inr (pos, i)) s
         | Some b \<Rightarrow>
             let off = c_mod pos 1024;
                 s = upd_buf b (\<lambda>x. x\<lparr>b_dirt := True\<rparr>) s;
                 c = min (1024 - off) (count - i);
                 pos = wrap32 (pos + c);
                 s = (if word_of_int pos > i_size (inode_table s inode)
                      then upd_inode inode (\<lambda>n. n\<lparr>i_size := word_of_int pos, i_dirt := True\<rparr>) s else s) in
             if off < 0 then Fault
             else kbind (brelse E (Some b) (buf_write b (nat off) (nat c) buf s)) (\<lambda>_ s.
               Ret (Inl (pos, i + c, buf + word_of_int c)) s))))"

abbreviation (input) "O_APPEND \<equiv> (0x400::u16)"
abbreviation (input) "O_NONBLOCK \<equiv> (0x800::u16)"

definition file_write :: "env \<Rightarrow> nat \<Rightarrow> nat \<Rightarrow> u32 \<Rightarrow> int \<Rightarrow> kernel \<Rightarrow> int kres" where
  "file_write E inode filp buf count s =
     (let append = (f_flags (file_table s filp) AND O_APPEND \<noteq> 0);
          pos = (if append then sint (i_size (inode_table s inode)) else f_pos (file_table s filp)) in
      kbind (kwhile (fuel E) (file_write_step E inode count) (pos, 0, buf) s) (\<lambda>(pos, i) s.
        let now = word_of_int (CURRENT_TIME s);
            s = upd_inode inode (\<lambda>n. n\<lparr>i_mtime := now\<rparr>) s;
            s = (if f_flags (file_table s filp) AND O_APPEND = 0
                 then upd_inode inode (\<lambda>n. n\<lparr>i_ctime := now\<rparr>) (upd_file filp (\<lambda>x. x\<lparr>f_pos := pos\<rparr>) s)
                 else s) in
        Ret (if i \<noteq> 0 then i else -1) s))"

subsection \<open>Pipes\<close>

definition PIPE_HEAD :: "m_inode \<Rightarrow> u16" where "PIPE_HEAD n = i_zone n 0"
definition PIPE_TAIL :: "m_inode \<Rightarrow> u16" where "PIPE_TAIL n = i_zone n 1"
definition PIPE_SIZE :: "m_inode \<Rightarrow> nat" where "PIPE_SIZE n = unat ((PIPE_HEAD n - PIPE_TAIL n) AND 4095)"

text \<open>The bytes of the pipe's page, whose physical address is in \<^verbatim>\<open>i_size\<close>.\<close>

definition pipe_get :: "nat \<Rightarrow> nat \<Rightarrow> kernel \<Rightarrow> u8" where
  "pipe_get inode k s = phys_byte (i_size (inode_table s inode) + of_nat k) s"

definition pipe_put :: "nat \<Rightarrow> nat \<Rightarrow> u8 \<Rightarrow> kernel \<Rightarrow> kernel" where
  "pipe_put inode k v s = set_phys_byte (i_size (inode_table s inode) + of_nat k) v s"

text \<open>Copying \<open>chars\<close> bytes out of the page from the tail on, and into it from the head on.\<close>

definition pipe_take :: "nat \<Rightarrow> nat \<Rightarrow> u32 \<Rightarrow> kernel \<Rightarrow> kernel" where
  "pipe_take inode chars buf s =
     (let tail = unat (PIPE_TAIL (inode_table s inode));
          s = upd_inode inode (\<lambda>n. n\<lparr>i_zone := (i_zone n)(1 := (PIPE_TAIL n + of_nat chars) AND 4095)\<rparr>) s in
      put_fs_bytes (\<lambda>k. pipe_get inode (tail + k) s) chars buf s)"

definition pipe_add :: "nat \<Rightarrow> nat \<Rightarrow> u32 \<Rightarrow> kernel \<Rightarrow> kernel" where
  "pipe_add inode chars buf s =
     (let head = unat (PIPE_HEAD (inode_table s inode));
          s = upd_inode inode (\<lambda>n. n\<lparr>i_zone := (i_zone n)(0 := (PIPE_HEAD n + of_nat chars) AND 4095)\<rparr>) s in
      fold (\<lambda>k s. pipe_put inode (head + k) (get_fs_byte (buf + of_nat k) s) s) [0..<chars] s)"

text \<open>Waiting until \<open>avail\<close> is positive; \<open>False\<close> when the other end of the pipe is closed.\<close>

definition pipe_wait :: "env \<Rightarrow> nat \<Rightarrow> (m_inode \<Rightarrow> nat) \<Rightarrow> kernel \<Rightarrow> bool kres" where
  "pipe_wait E inode avail s =
     kloop (fuel E) (\<lambda>s.
       if avail (inode_table s inode) \<noteq> 0 then Ret (Some True) s
       else let s = wake_up (I_wait inode) s in
         if i_count (inode_table s inode) \<noteq> 2 then Ret (Some False) s
         else kbind (sleep_on E (I_wait inode) s) (\<lambda>_ s. Ret None s)) s"

definition pipe_space :: "m_inode \<Rightarrow> nat" where
  "pipe_space n = 4095 - PIPE_SIZE n"

definition read_pipe :: "env \<Rightarrow> nat \<Rightarrow> u32 \<Rightarrow> int \<Rightarrow> kernel \<Rightarrow> int kres" where
  "read_pipe E inode buf count s =
     kwhile (fuel E) (\<lambda>(count, done) s.
       if count = 0 then Ret (Inr (int done)) (wake_up (I_wait inode) s)
       else kbind (pipe_wait E inode PIPE_SIZE s) (\<lambda>go s.
         if \<not> go then Ret (Inr (int done)) s
         else let n = inode_table s inode;
                  chars = min (min (4096 - unat (PIPE_TAIL n)) count) (PIPE_SIZE n) in
           Ret (Inl (count - chars, done + chars)) (pipe_take inode chars (buf + of_nat done) s)))
       (nat count, 0) s"

definition write_pipe :: "env \<Rightarrow> nat \<Rightarrow> u32 \<Rightarrow> int \<Rightarrow> kernel \<Rightarrow> int kres" where
  "write_pipe E inode buf count s =
     kwhile (fuel E) (\<lambda>(count, done) s.
       if count = 0 then Ret (Inr (int done)) (wake_up (I_wait inode) s)
       else kbind (pipe_wait E inode pipe_space s) (\<lambda>go s.
         if \<not> go then Ret (Inr (if done \<noteq> 0 then int done else -1))
                        (upd_cur (\<lambda>p. p\<lparr>t_signal := t_signal p OR sigbit SIGPIPE\<rparr>) s)
         else let n = inode_table s inode;
                  chars = min (min (4096 - unat (PIPE_HEAD n)) count) (pipe_space n) in
           Ret (Inl (count - chars, done + chars)) (pipe_add inode chars (buf + of_nat done) s)))
       (nat count, 0) s"

text \<open>The first two free files and the first two free descriptors, as far as there are two.\<close>

definition free_files :: "kernel \<Rightarrow> nat list" where
  "free_files s = take 2 (filter (\<lambda>i. f_count (file_table s i) = 0) [0..<NR_FILE])"

definition free_fds :: "kernel \<Rightarrow> nat list" where
  "free_fds s = take 2 (filter (\<lambda>i. t_filp (cur s) i = None) [0..<NR_OPEN])"

definition set_filp :: "nat \<Rightarrow> nat option \<Rightarrow> kernel \<Rightarrow> kernel" where
  "set_filp fd f s = upd_cur (\<lambda>p. p\<lparr>t_filp := (t_filp p)(fd := f)\<rparr>) s"

definition set_f_count :: "nat \<Rightarrow> u16 \<Rightarrow> kernel \<Rightarrow> kernel" where
  "set_f_count f c s = upd_file f (\<lambda>x. x\<lparr>f_count := c\<rparr>) s"

definition sys_pipe :: "env \<Rightarrow> u32 \<Rightarrow> kernel \<Rightarrow> int kres" where
  "sys_pipe E fildes s =
     (case free_files s of
        [f0, f1] \<Rightarrow>
          let s = set_f_count f1 1 (set_f_count f0 1 s) in
          (case free_fds s of
             [d0, d1] \<Rightarrow>
               let s = set_filp d1 (Some f1) (set_filp d0 (Some f0) s) in
               kbind (get_pipe_inode E s) (\<lambda>r s.
                 case r of
                   None \<Rightarrow> Ret (-1) (set_f_count f1 0 (set_f_count f0 0 (set_filp d0 None (set_filp d1 None s))))
                 | Some inode \<Rightarrow>
                     let s = upd_file f0 (\<lambda>x. x\<lparr>f_inode := Some inode, f_pos := 0, f_mode := 1\<rparr>) s;
                         s = upd_file f1 (\<lambda>x. x\<lparr>f_inode := Some inode, f_pos := 0, f_mode := 2\<rparr>) s in
                     Ret 0 (put_fs_long (of_nat d1) (fildes + 4) (put_fs_long (of_nat d0) fildes s)))
           | _ \<Rightarrow> Ret (-1) (set_f_count f1 0 (set_f_count f0 0 s)))
      | _ \<Rightarrow> Ret (-1) s)"

subsection \<open>Block devices\<close>

definition block_write_step ::
  "env \<Rightarrow> u16 \<Rightarrow> nat \<Rightarrow> int \<times> int \<times> u32 \<times> int \<times> u32 \<Rightarrow> kernel \<Rightarrow>
   (kernel, int \<times> int \<times> u32 \<times> int \<times> u32 + int) outcome" where
  "block_write_step E dev filp = (\<lambda>(count, written, block, off, buf) s.
     if \<not> count > 0 then Ret (Inr written) s
     else let chars = min (1024 - off) count in
       kbind (if chars = 1024 then kbind (getblk E dev block s) (\<lambda>b s. Ret (Some b) s)
              else breada E dev block (takeWhile (\<lambda>b. sint b \<ge> 0) [block + 1, block + 2]) s) (\<lambda>bh s.
         case bh of
           None \<Rightarrow> Ret (Inr (if written \<noteq> 0 then written else - EIO)) s
         | Some b \<Rightarrow>
             let s = advance_pos filp chars s;
                 s = upd_buf b (\<lambda>x. x\<lparr>b_dirt := True\<rparr>) (buf_write b (nat off) (nat chars) buf s) in
             kbind (brelse E (Some b) s) (\<lambda>_ s.
               Ret (Inl (count - chars, written + chars, block + 1, 0, buf + word_of_int chars)) s)))"

definition block_write :: "env \<Rightarrow> u16 \<Rightarrow> nat \<Rightarrow> u32 \<Rightarrow> int \<Rightarrow> kernel \<Rightarrow> int kres" where
  "block_write E dev filp buf count s =
     (let pos = f_pos (file_table s filp) in
      kwhile (fuel E) (block_write_step E dev filp) (count, 0, word_of_int (pos div 1024), pos mod 1024, buf) s)"

definition block_read_step ::
  "env \<Rightarrow> u16 \<Rightarrow> nat \<Rightarrow> int \<times> int \<times> u32 \<times> int \<times> u32 \<Rightarrow> kernel \<Rightarrow>
   (kernel, int \<times> int \<times> u32 \<times> int \<times> u32 + int) outcome" where
  "block_read_step E dev filp = (\<lambda>(count, done, block, off, buf) s.
     if \<not> count > 0 then Ret (Inr done) s
     else let chars = min (1024 - off) count in
       kbind (breada E dev block (takeWhile (\<lambda>b. sint b \<ge> 0) [block + 1, block + 2]) s) (\<lambda>bh s.
         case bh of
           None \<Rightarrow> Ret (Inr (if done \<noteq> 0 then done else - EIO)) s
         | Some b \<Rightarrow>
             let s = advance_pos filp chars s;
                 s = put_fs_bytes (\<lambda>k. b_data (bufs s b) (nat off + k)) (nat chars) buf s in
             kbind (brelse E (Some b) s) (\<lambda>_ s.
               Ret (Inl (count - chars, done + chars, block + 1, 0, buf + word_of_int chars)) s)))"

text \<open>Unlike \<^verbatim>\<open>block_write\<close>, \<^verbatim>\<open>block_read\<close> takes the position as unsigned.\<close>

definition block_read :: "env \<Rightarrow> u16 \<Rightarrow> nat \<Rightarrow> u32 \<Rightarrow> int \<Rightarrow> kernel \<Rightarrow> int kres" where
  "block_read E dev filp buf count s =
     (let pos = word_of_int (f_pos (file_table s filp)) :: u32 in
      kwhile (fuel E) (block_read_step E dev filp) (count, 0, drop_bit 10 pos, uint (pos AND 1023), buf) s)"

subsection \<open>Character devices\<close>

definition rw_ttyx :: "env \<Rightarrow> rwcmd \<Rightarrow> nat \<Rightarrow> u32 \<Rightarrow> int \<Rightarrow> kernel \<Rightarrow> int kres" where
  "rw_ttyx E rw minor buf count s =
     (if rw = READ then tty_read E minor buf count s else tty_write E minor buf count s)"

definition rw_tty :: "env \<Rightarrow> rwcmd \<Rightarrow> nat \<Rightarrow> u32 \<Rightarrow> int \<Rightarrow> kernel \<Rightarrow> int kres" where
  "rw_tty E rw minor buf count s =
     (if t_tty (cur s) < 0 then Ret (- EPERM) s
      else rw_ttyx E rw (nat (t_tty (cur s))) buf count s)"

text \<open>Output to a port has no effect on the state.\<close>

definition rw_port :: "env \<Rightarrow> rwcmd \<Rightarrow> u32 \<Rightarrow> int \<Rightarrow> nat \<Rightarrow> kernel \<Rightarrow> int kres" where
  "rw_port E rw buf count filp s =
     (let i = f_pos (file_table s filp);
          n = nat (min count (65536 - i));
          s = (if rw = READ
               then put_fs_bytes (\<lambda>k. port_in E (nat ((i + int k) mod 65536))) n buf s else s) in
      Ret (int n) (advance_pos filp (int n) s))"

definition rw_memory :: "env \<Rightarrow> rwcmd \<Rightarrow> nat \<Rightarrow> u32 \<Rightarrow> int \<Rightarrow> nat \<Rightarrow> kernel \<Rightarrow> int kres" where
  "rw_memory E rw minor buf count filp s =
     (if minor = 3 then Ret (if rw = READ then 0 else count) s
      else if minor = 4 then rw_port E rw buf count filp s
      else Ret (- EIO) s)"

definition rw_char :: "env \<Rightarrow> rwcmd \<Rightarrow> u16 \<Rightarrow> u32 \<Rightarrow> int \<Rightarrow> nat \<Rightarrow> kernel \<Rightarrow> int kres" where
  "rw_char E rw dev buf count filp s =
     (let minor = unat (MINOR dev) in
      if MAJOR dev = 1 then rw_memory E rw minor buf count filp s
      else if MAJOR dev = 4 then rw_ttyx E rw minor buf count s
      else if MAJOR dev = 5 then rw_tty E rw minor buf count s
      else Ret (- ENODEV) s)"

subsection \<open>Reading, writing and seeking\<close>

text \<open>The file behind a descriptor of the current task.\<close>

definition fd_file :: "u32 \<Rightarrow> kernel \<Rightarrow> nat option" where
  "fd_file fd s = (if fd \<ge> of_nat NR_OPEN then None else t_filp (cur s) (unat fd))"

definition IS_SEEKABLE :: "nat \<Rightarrow> bool" where
  "IS_SEEKABLE x \<longleftrightarrow> x \<ge> 1 \<and> x \<le> 3"

definition sys_lseek :: "u32 \<Rightarrow> int \<Rightarrow> int \<Rightarrow> kernel \<Rightarrow> int \<times> kernel" where
  "sys_lseek fd offset origin s =
     (case fd_file fd s of
        None \<Rightarrow> (- EBADF, s)
      | Some f \<Rightarrow>
          (case f_inode (file_table s f) of
             None \<Rightarrow> (- EBADF, s)
           | Some i \<Rightarrow>
               let n = inode_table s i;
                   set = (\<lambda>p. (p, upd_file f (\<lambda>x. x\<lparr>f_pos := p\<rparr>) s)) in
               if \<not> IS_SEEKABLE (MAJOR (i_dev n)) then (- EBADF, s)
               else if i_pipe n then (- ESPIPE, s)
               else if origin = 0 then (if offset < 0 then (- EINVAL, s) else set offset)
               else if origin = 1 then
                 (let p = wrap32 (f_pos (file_table s f) + offset) in
                  if p < 0 then (- EINVAL, s) else set p)
               else if origin = 2 then
                 (let p = wrap32 (uint (i_size n) + offset) in
                  if p < 0 then (- EINVAL, s) else set p)
               else (- EINVAL, s)))"

definition sys_read :: "env \<Rightarrow> u32 \<Rightarrow> u32 \<Rightarrow> int \<Rightarrow> kernel \<Rightarrow> int kres" where
  "sys_read E fd buf count s =
     (case fd_file fd s of
        None \<Rightarrow> Ret (- EINVAL) s
      | Some f \<Rightarrow>
          if count < 0 then Ret (- EINVAL) s
          else if count = 0 then Ret 0 s
          else kbind (verify_area buf count s) (\<lambda>_ s.
            case f_inode (file_table s f) of
              None \<Rightarrow> Fault
            | Some i \<Rightarrow>
                let n = inode_table s i in
                if i_pipe n then
                  (if f_mode (file_table s f) AND 1 \<noteq> 0 then read_pipe E i buf count s else Ret (- EIO) s)
                else if S_ISCHR (i_mode n) then rw_char E READ (i_zone n 0) buf count f s
                else if S_ISBLK (i_mode n) then block_read E (i_zone n 0) f buf count s
                else if S_ISDIR (i_mode n) \<or> S_ISREG (i_mode n) then
                  (let count = (if word_of_int (count + f_pos (file_table s f)) > i_size n
                                then wrap32 (uint (i_size n) - f_pos (file_table s f)) else count) in
                   if count \<le> 0 then Ret 0 s else file_read E i f buf count s)
                else Ret (- EINVAL) s))"

definition sys_write :: "env \<Rightarrow> u32 \<Rightarrow> u32 \<Rightarrow> int \<Rightarrow> kernel \<Rightarrow> int kres" where
  "sys_write E fd buf count s =
     (case fd_file fd s of
        None \<Rightarrow> Ret (- EINVAL) s
      | Some f \<Rightarrow>
          if count < 0 then Ret (- EINVAL) s
          else if count = 0 then Ret 0 s
          else (case f_inode (file_table s f) of
              None \<Rightarrow> Fault
            | Some i \<Rightarrow>
                let n = inode_table s i in
                if i_pipe n then
                  (if f_mode (file_table s f) AND 2 \<noteq> 0 then write_pipe E i buf count s else Ret (- EIO) s)
                else if S_ISCHR (i_mode n) then rw_char E WRITE (i_zone n 0) buf count f s
                else if S_ISBLK (i_mode n) then block_write E (i_zone n 0) f buf count s
                else if S_ISREG (i_mode n) then file_write E i f buf count s
                else Ret (- EINVAL) s))"

subsection \<open>Attributes and directories of a task\<close>

text \<open>\<open>with_inode\<close> resolves a name and goes on with the inode, or fails with \<open>err\<close>.\<close>

definition with_inode :: "env \<Rightarrow> u32 \<Rightarrow> int \<Rightarrow> (nat \<Rightarrow> kernel \<Rightarrow> int kres) \<Rightarrow> kernel \<Rightarrow> int kres" where
  "with_inode E filename err k s =
     kbind (namei E filename s) (\<lambda>r s. case r of None \<Rightarrow> Ret (- err) s | Some i \<Rightarrow> k i s)"

definition sys_utime :: "env \<Rightarrow> u32 \<Rightarrow> u32 \<Rightarrow> kernel \<Rightarrow> int kres" where
  "sys_utime E filename tbuf s =
     with_inode E filename ENOENT (\<lambda>i s.
       let now = word_of_int (CURRENT_TIME s);
           actime = (if tbuf \<noteq> 0 then get_fs_long tbuf s else now);
           modtime = (if tbuf \<noteq> 0 then get_fs_long (tbuf + 4) s else now) in
       iputs E [i] 0 (upd_inode i (\<lambda>n. n\<lparr>i_atime := actime, i_mtime := modtime, i_dirt := True\<rparr>) s)) s"

text \<open>The inode is looked at again after it has been released.\<close>

definition sys_access :: "env \<Rightarrow> u32 \<Rightarrow> u16 \<Rightarrow> kernel \<Rightarrow> int kres" where
  "sys_access E filename mode s =
     (let mode = mode AND 7 in
      with_inode E filename EACCES (\<lambda>i s.
        let im = i_mode (inode_table s i) AND 0x1FF in
        kbind (iput E (Some i) s) (\<lambda>_ s.
          let n = inode_table s i;
              res = (if t_uid (cur s) = i_uid n then drop_bit 6 im
                     else if t_gid (cur s) = ucast (i_gid n) then drop_bit 6 im
                     else im) in
          if res AND 7 AND mode = mode then Ret 0 s
          else if t_uid (cur s) = 0 \<and> (mode AND 1 = 0 \<or> im AND 0x49 \<noteq> 0) then Ret 0 s
          else Ret (- EACCES) s)) s)"

definition sys_chdir :: "env \<Rightarrow> u32 \<Rightarrow> kernel \<Rightarrow> int kres" where
  "sys_chdir E filename s =
     with_inode E filename ENOENT (\<lambda>i s.
       if \<not> S_ISDIR (i_mode (inode_table s i)) then iputs E [i] (- ENOTDIR) s
       else kbind (iput E (t_pwd (cur s)) s) (\<lambda>_ s. Ret 0 (upd_cur (\<lambda>p. p\<lparr>t_pwd := Some i\<rparr>) s))) s"

definition sys_chroot :: "env \<Rightarrow> u32 \<Rightarrow> kernel \<Rightarrow> int kres" where
  "sys_chroot E filename s =
     with_inode E filename ENOENT (\<lambda>i s.
       if \<not> S_ISDIR (i_mode (inode_table s i)) then iputs E [i] (- ENOTDIR) s
       else kbind (iput E (t_root (cur s)) s) (\<lambda>_ s. Ret 0 (upd_cur (\<lambda>p. p\<lparr>t_root := Some i\<rparr>) s))) s"

definition sys_chmod :: "env \<Rightarrow> u32 \<Rightarrow> u16 \<Rightarrow> kernel \<Rightarrow> int kres" where
  "sys_chmod E filename mode s =
     with_inode E filename ENOENT (\<lambda>i s.
       if t_euid (cur s) \<noteq> i_uid (inode_table s i) \<and> \<not> suser s then iputs E [i] (- EACCES) s
       else iputs E [i] 0 (upd_inode i (\<lambda>n. n\<lparr>i_mode := (mode AND 0xFFF) OR (i_mode n AND NOT 0xFFF),
                                              i_dirt := True\<rparr>) s)) s"

definition sys_chown :: "env \<Rightarrow> u32 \<Rightarrow> u16 \<Rightarrow> u8 \<Rightarrow> kernel \<Rightarrow> int kres" where
  "sys_chown E filename uid gid s =
     with_inode E filename ENOENT (\<lambda>i s.
       if \<not> suser s then iputs E [i] (- EACCES) s
       else iputs E [i] 0 (upd_inode i (\<lambda>n. n\<lparr>i_uid := uid, i_gid := gid, i_dirt := True\<rparr>) s)) s"

subsection \<open>Opening, closing and duplicating\<close>

definition clear_cloexec :: "nat \<Rightarrow> kernel \<Rightarrow> kernel" where
  "clear_cloexec fd s = upd_cur (\<lambda>p. p\<lparr>t_close_on_exec := t_close_on_exec p AND NOT (push_bit fd 1)\<rparr>) s"

text \<open>What \<^verbatim>\<open>sys_open\<close> does about terminals: \<open>True\<close> when the file may not be opened.\<close>

definition open_tty :: "nat \<Rightarrow> kernel \<Rightarrow> bool kres" where
  "open_tty inode s =
     (let n = inode_table s inode in
      if \<not> S_ISCHR (i_mode n) then Ret False s
      else if MAJOR (i_zone n 0) = 4 then
        (if t_leader (cur s) \<noteq> 0 \<and> t_tty (cur s) < 0 then
           let m = unat (MINOR (i_zone n 0));
               s = upd_cur (\<lambda>p. p\<lparr>t_tty := int m\<rparr>) s in
           if m > 2 then Fault
           else Ret False (upd_tty m (\<lambda>t. t\<lparr>tty_pgrp := t_pgrp (cur s)\<rparr>) s)
         else Ret False s)
      else Ret (MAJOR (i_zone n 0) = 5 \<and> t_tty (cur s) < 0) s)"

definition sys_open :: "env \<Rightarrow> u32 \<Rightarrow> u32 \<Rightarrow> u16 \<Rightarrow> kernel \<Rightarrow> int kres" where
  "sys_open E filename flag mode s =
     (let mode = mode AND (0x1FF AND NOT (t_umask (cur s))) in
      case find_up (\<lambda>fd. t_filp (cur s) fd = None) 0 NR_OPEN of
        None \<Rightarrow> Ret (- EINVAL) s
      | Some fd \<Rightarrow>
          let s = clear_cloexec fd s in
          (case find_up (\<lambda>i. f_count (file_table s i) = 0) 0 NR_FILE of
             None \<Rightarrow> Ret (- EINVAL) s
           | Some f \<Rightarrow>
               let s = set_filp fd (Some f) s;
                   s = upd_file f (\<lambda>x. x\<lparr>f_count := f_count x + 1\<rparr>) s in
               kbind (open_namei E filename flag mode s) (\<lambda>(i, r) s.
                 case r of
                   None \<Rightarrow> Ret i (set_f_count f 0 (set_filp fd None s))
                 | Some inode \<Rightarrow>
                     kbind (open_tty inode s) (\<lambda>refuse s.
                       if refuse then
                         kbind (iput E (Some inode) s) (\<lambda>_ s.
                           Ret (- EPERM) (set_f_count f 0 (set_filp fd None s)))
                       else kbind (if S_ISBLK (i_mode (inode_table s inode))
                                   then check_disk_change E (i_zone (inode_table s inode) 0) s
                                   else Ret () s) (\<lambda>_ s.
                         Ret (int fd) (upd_file f (\<lambda>x. \<lparr>f_mode = i_mode (inode_table s inode),
                           f_flags = ucast flag, f_count = 1, f_inode = Some inode, f_pos = 0\<rparr>) s))))))"

definition sys_creat :: "env \<Rightarrow> u32 \<Rightarrow> u16 \<Rightarrow> kernel \<Rightarrow> int kres" where
  "sys_creat E pathname mode s = sys_open E pathname (O_CREAT OR O_TRUNC) mode s"

definition sys_close :: "env \<Rightarrow> u32 \<Rightarrow> kernel \<Rightarrow> int kres" where
  "sys_close E fd s =
     (if fd \<ge> of_nat NR_OPEN then Ret (- EINVAL) s
      else let s = clear_cloexec (unat fd) s in
        case t_filp (cur s) (unat fd) of
          None \<Rightarrow> Ret (- EINVAL) s
        | Some f \<Rightarrow>
            let s = set_filp (unat fd) None s in
            if f_count (file_table s f) = 0 then Panic ''Close: file count is 0'' s
            else let s = upd_file f (\<lambda>x. x\<lparr>f_count := f_count x - 1\<rparr>) s in
              if f_count (file_table s f) \<noteq> 0 then Ret 0 s
              else kbind (iput E (f_inode (file_table s f)) s) (\<lambda>_ s. Ret 0 s))"

definition dupfd :: "u32 \<Rightarrow> u32 \<Rightarrow> kernel \<Rightarrow> int \<times> kernel" where
  "dupfd fd arg s =
     (case fd_file fd s of
        None \<Rightarrow> (- EBADF, s)
      | Some f \<Rightarrow>
          if arg \<ge> of_nat NR_OPEN then (- EINVAL, s)
          else (case find_up (\<lambda>k. t_filp (cur s) k = None) (unat arg) NR_OPEN of
             None \<Rightarrow> (- EMFILE, s)
           | Some k \<Rightarrow>
               let s = set_filp k (Some f) (clear_cloexec k s) in
               (int k, upd_file f (\<lambda>x. x\<lparr>f_count := f_count x + 1\<rparr>) s)))"

definition sys_dup2 :: "env \<Rightarrow> u32 \<Rightarrow> u32 \<Rightarrow> kernel \<Rightarrow> int kres" where
  "sys_dup2 E oldfd newfd s =
     kbind (sys_close E newfd s) (\<lambda>_ s. let (r, s) = dupfd oldfd newfd s in Ret r s)"

definition sys_dup :: "u32 \<Rightarrow> kernel \<Rightarrow> int \<times> kernel" where
  "sys_dup fildes s = dupfd fildes 0 s"

definition sys_fcntl :: "u32 \<Rightarrow> u32 \<Rightarrow> u32 \<Rightarrow> kernel \<Rightarrow> int \<times> kernel" where
  "sys_fcntl fd cmd arg s =
     (case fd_file fd s of
        None \<Rightarrow> (- EBADF, s)
      | Some f \<Rightarrow>
          if cmd = 0 then dupfd fd arg s
          else if cmd = 1 then (uint (drop_bit (unat fd) (t_close_on_exec (cur s)) AND 1), s)
          else if cmd = 2 then
            (0, if arg AND 1 \<noteq> 0
                then upd_cur (\<lambda>p. p\<lparr>t_close_on_exec := t_close_on_exec p OR push_bit (unat fd) 1\<rparr>) s
                else clear_cloexec (unat fd) s)
          else if cmd = 3 then (uint (f_flags (file_table s f)), s)
          else if cmd = 4 then
            (0, upd_file f (\<lambda>x. x\<lparr>f_flags := (f_flags x AND NOT (O_APPEND OR O_NONBLOCK)) OR
                                             (ucast arg AND (O_APPEND OR O_NONBLOCK))\<rparr>) s)
          else (-1, s))"

subsection \<open>File status\<close>

text \<open>\<^verbatim>\<open>struct stat\<close> is 32 bytes with four bytes of padding, which keep what the stack held.\<close>

definition stat_bytes :: "(nat \<Rightarrow> u8) \<Rightarrow> m_inode \<Rightarrow> nat \<Rightarrow> u8" where
  "stat_bytes pad n =
     (let d = put_short (i_dev n) 0 pad;
          d = put_short (i_num n) 2 d;
          d = put_short (i_mode n) 4 d;
          d = d(6 := i_nlinks n);
          d = put_short (i_uid n) 8 d;
          d = d(10 := i_gid n);
          d = put_short (i_zone n 0) 12 d;
          d = put_long (i_size n) 16 d;
          d = put_long (i_atime n) 20 d;
          d = put_long (i_mtime n) 24 d in
      put_long (i_ctime n) 28 d)"

definition cp_stat :: "env \<Rightarrow> nat \<Rightarrow> u32 \<Rightarrow> kernel \<Rightarrow> unit kres" where
  "cp_stat E inode statbuf s =
     kbind (verify_area statbuf 32 s) (\<lambda>_ s.
       Ret () (put_fs_bytes (stat_bytes (junk E) (inode_table s inode)) 32 statbuf s))"

definition sys_stat :: "env \<Rightarrow> u32 \<Rightarrow> u32 \<Rightarrow> kernel \<Rightarrow> int kres" where
  "sys_stat E filename statbuf s =
     with_inode E filename ENOENT (\<lambda>i s. kbind (cp_stat E i statbuf s) (\<lambda>_ s. iputs E [i] 0 s)) s"

definition sys_fstat :: "env \<Rightarrow> u32 \<Rightarrow> u32 \<Rightarrow> kernel \<Rightarrow> int kres" where
  "sys_fstat E fd statbuf s =
     (case fd_file fd s of
        None \<Rightarrow> Ret (- EBADF) s
      | Some f \<Rightarrow>
          (case f_inode (file_table s f) of
             None \<Rightarrow> Ret (- EBADF) s
           | Some i \<Rightarrow> kbind (cp_stat E i statbuf s) (\<lambda>_ s. Ret 0 s)))"

end
