(* ===== verification/Process.thy ===== *)
theory Process
  imports Files
begin

text \<open>
  Processes: kernel/fork.c, kernel/exit.c, kernel/signal.c and kernel/sys.c, and the page fault handler
  \<^verbatim>\<open>do_no_page\<close> of mm/memory.c, which reads the executable through the file system.
\<close>

subsection \<open>Creating a process\<close>

text \<open>\<^verbatim>\<open>copy_mem\<close> for the child at address \<open>p\<close> in slot \<open>nr\<close>.\<close>

definition copy_mem :: "nat \<Rightarrow> u32 \<Rightarrow> kernel \<Rightarrow> int kres" where
  "copy_mem nr p s =
     (let code_limit = cur_limit 0x0f s;
          data_limit = cur_limit 0x17 s;
          old_code_base = get_base (t_ldt (cur s) 1);
          old_data_base = get_base (t_ldt (cur s) 2) in
      if old_data_base \<noteq> old_code_base then Panic ''We don't support separate I&D'' s
      else if data_limit < code_limit then Panic ''Bad data_limit'' s
      else let base = of_nat nr * 0x4000000;
               s = upd_task p (\<lambda>t. t\<lparr>t_start_code := base,
                     t_ldt := (t_ldt t)(1 := set_base base (t_ldt t 1), 2 := set_base base (t_ldt t 2))\<rparr>) s in
        kbind (copy_page_tables old_data_base base data_limit s) (\<lambda>r s.
          if r \<noteq> 0 then kbind (free_page_tables base data_limit s) (\<lambda>_ s. Ret (- ENOMEM) s)
          else Ret 0 s))"

text \<open>The registers that \<^verbatim>\<open>copy_process\<close> finds on the kernel stack.\<close>

record regs =
  reg_ebp :: u32
  reg_edi :: u32
  reg_esi :: u32
  reg_gs :: u32
  reg_ebx :: u32
  reg_ecx :: u32
  reg_edx :: u32
  reg_fs :: u32
  reg_es :: u32
  reg_ds :: u32
  reg_eip :: u32
  reg_cs :: u32
  reg_eflags :: u32
  reg_esp :: u32
  reg_ss :: u32

definition child_tss :: "regs \<Rightarrow> nat \<Rightarrow> u32 \<Rightarrow> tss_struct \<Rightarrow> tss_struct" where
  "child_tss r nr p t =
     t\<lparr>tss_back_link := 0, tss_esp0 := 4096 + p, tss_ss0 := 0x10, tss_eip := reg_eip r,
       tss_eflags := reg_eflags r, tss_eax := 0, tss_ecx := reg_ecx r, tss_edx := reg_edx r,
       tss_ebx := reg_ebx r, tss_esp := reg_esp r, tss_ebp := reg_ebp r, tss_esi := reg_esi r,
       tss_edi := reg_edi r, tss_es := reg_es r AND 0xffff, tss_cs := reg_cs r AND 0xffff,
       tss_ss := reg_ss r AND 0xffff, tss_ds := reg_ds r AND 0xffff, tss_fs := reg_fs r AND 0xffff,
       tss_gs := reg_gs r AND 0xffff, tss_ldt := LDT_sel nr, tss_trace_bitmap := 0x80000000\<rparr>"

definition child_task :: "regs \<Rightarrow> nat \<Rightarrow> u32 \<Rightarrow> kernel \<Rightarrow> task_struct" where
  "child_task r nr p s =
     (let c = cur s in
      c\<lparr>t_state := TASK_UNINTERRUPTIBLE, t_pid := last_pid s, t_father := t_pid c,
        t_counter := t_priority c, t_signal := 0, t_alarm := 0, t_leader := 0, t_utime := 0,
        t_stime := 0, t_cutime := 0, t_cstime := 0, t_start_time := jiffies s,
        t_tss := child_tss r nr p (t_tss c)\<rparr>)"

definition inc_i_count :: "nat option \<Rightarrow> kernel \<Rightarrow> kernel" where
  "inc_i_count i s = (case i of None \<Rightarrow> s | Some n \<Rightarrow> upd_inode n (\<lambda>x. x\<lparr>i_count := i_count x + 1\<rparr>) s)"

definition inc_f_counts :: "u32 \<Rightarrow> kernel \<Rightarrow> kernel" where
  "inc_f_counts p s =
     fold (\<lambda>i s. case t_filp (tstruct s p) i of None \<Rightarrow> s
                 | Some f \<Rightarrow> upd_file f (\<lambda>x. x\<lparr>f_count := f_count x + 1\<rparr>) s) [0..<NR_OPEN] s"

definition copy_process :: "nat \<Rightarrow> regs \<Rightarrow> kernel \<Rightarrow> int kres" where
  "copy_process nr r s =
     (let (p, s) = get_free_page s in
      if p = 0 then Ret (- EAGAIN) s
      else let s = s\<lparr>task := (task s)(nr := p)\<rparr>;
               s = upd_task p (\<lambda>_. child_task r nr p s) s;
               s = (if last_task_used_math s = current s
                    then upd_task p (\<lambda>t. t\<lparr>t_tss := (t_tss t)\<lparr>tss_i387 := fpu s\<rparr>\<rparr>) (s\<lparr>fpu := fpu_init s\<rparr>)
                    else s) in
        kbind (copy_mem nr p s) (\<lambda>e s.
          if e \<noteq> 0 then kbind (free_page p (s\<lparr>task := (task s)(nr := 0)\<rparr>)) (\<lambda>_ s. Ret (- EAGAIN) s)
          else let s = inc_f_counts p s;
                   s = inc_i_count (t_pwd (cur s)) s;
                   s = inc_i_count (t_root (cur s)) s;
                   s = inc_i_count (t_executable (cur s)) s;
                   s = set_tss_desc (2 * nr + FIRST_TSS_ENTRY) (tss_addr p) s;
                   s = set_ldt_desc (2 * nr + FIRST_LDT_ENTRY) (ldt_addr p) s in
            Ret (last_pid s) (upd_task p (\<lambda>t. t\<lparr>t_state := TASK_RUNNING\<rparr>) s)))"

text \<open>The loop at \<^verbatim>\<open>repeat\<close> tries process numbers; 64 tasks cannot occupy 65 numbers in a row, so it
  ends within 65 rounds.\<close>

definition next_pid :: "int \<Rightarrow> int" where
  "next_pid n = (let n = wrap32 (n + 1) in if n < 0 then 1 else n)"

definition pid_used :: "int \<Rightarrow> kernel \<Rightarrow> bool" where
  "pid_used n s \<longleftrightarrow> (\<exists>i \<in> set [0..<NR_TASKS]. task s i \<noteq> 0 \<and> t_pid (tstruct s (task s i)) = n)"

definition find_empty_process :: "env \<Rightarrow> kernel \<Rightarrow> int kres" where
  "find_empty_process E s =
     kbind (kloop (fuel E) (\<lambda>s.
         let s = s\<lparr>last_pid := next_pid (last_pid s)\<rparr> in
         if pid_used (last_pid s) s then Ret None s else Ret (Some ()) s) s) (\<lambda>_ s.
       case find_up (\<lambda>i. task s i = 0) 1 NR_TASKS of
         Some i \<Rightarrow> Ret (int i) s
       | None \<Rightarrow> Ret (- EAGAIN) s)"

subsection \<open>Signals sent and sessions\<close>

definition send_sig :: "int \<Rightarrow> u32 \<Rightarrow> bool \<Rightarrow> kernel \<Rightarrow> int \<times> kernel" where
  "send_sig sig p priv s =
     (if p = 0 \<or> sig < 1 \<or> sig > 32 then (- EINVAL, s)
      else if priv \<or> t_euid (cur s) = t_euid (tstruct s p) \<or> suser s
      then (0, upd_task p (\<lambda>t. t\<lparr>t_signal := t_signal t OR sigbit (nat sig)\<rparr>) s)
      else (- EPERM, s))"

definition kill_session :: "kernel \<Rightarrow> kernel" where
  "kill_session s =
     fold (\<lambda>i s. if task s i \<noteq> 0 \<and> t_session (tstruct s (task s i)) = t_session (cur s)
                 then upd_task (task s i) (\<lambda>t. t\<lparr>t_signal := t_signal t OR sigbit SIGHUP\<rparr>) s else s)
       (rev [1..<NR_TASKS]) s"

text \<open>One of the \<^verbatim>\<open>while\<close> loops of \<^verbatim>\<open>sys_kill\<close>: signal every task that satisfies \<open>sel\<close>, from slot \<open>n - 1\<close> down,
  and remember the last error.\<close>

fun kill_loop :: "(nat \<Rightarrow> kernel \<Rightarrow> bool) \<Rightarrow> int \<Rightarrow> bool \<Rightarrow> nat list \<Rightarrow> int \<Rightarrow> kernel \<Rightarrow> int \<times> kernel" where
  "kill_loop sel sig priv [] retval s = (retval, s)"
| "kill_loop sel sig priv (i # is) retval s =
     (if sel i s then
        let (err, s) = send_sig sig (task s i) priv s in
        kill_loop sel sig priv is (if err \<noteq> 0 then err else retval) s
      else kill_loop sel sig priv is retval s)"

text \<open>The loop for \<^verbatim>\<open>pid == -1\<close>. The last \<^verbatim>\<open>else\<close> of the function, meant for process groups, belongs to
  the \<^verbatim>\<open>if\<close> inside this loop: after the first success the rest of the table is run through with the
  test for the process group \<^verbatim>\<open>-pid\<close>, which is 1.\<close>

fun kill_all :: "int \<Rightarrow> nat list \<Rightarrow> int \<Rightarrow> kernel \<Rightarrow> int \<times> kernel" where
  "kill_all sig [] retval s = (retval, s)"
| "kill_all sig (i # is) retval s =
     (let (err, s) = send_sig sig (task s i) False s in
      if err \<noteq> 0 then kill_all sig is err s
      else kill_loop (\<lambda>i s. task s i \<noteq> 0 \<and> t_pgrp (tstruct s (task s i)) = 1) sig False is retval s)"

definition sys_kill :: "int \<Rightarrow> int \<Rightarrow> kernel \<Rightarrow> int \<times> kernel" where
  "sys_kill pid sig s =
     (let slots = rev [1..<NR_TASKS] in
      if pid = 0 then
        kill_loop (\<lambda>i s. task s i \<noteq> 0 \<and> t_pgrp (tstruct s (task s i)) = t_pid (cur s)) sig True slots 0 s
      else if pid > 0 then
        kill_loop (\<lambda>i s. task s i \<noteq> 0 \<and> t_pid (tstruct s (task s i)) = pid) sig False slots 0 s
      else if pid = -1 then kill_all sig slots 0 s
      else (0, s))"

subsection \<open>Exit and wait\<close>

definition release :: "env \<Rightarrow> u32 \<Rightarrow> kernel \<Rightarrow> unit kres" where
  "release E p s =
     (if p = 0 then Ret () s
      else case find_up (\<lambda>i. task s i = p) 1 NR_TASKS of
        None \<Rightarrow> Panic ''trying to release non-existent task'' s
      | Some i \<Rightarrow> kbind (free_page p (s\<lparr>task := (task s)(i := 0)\<rparr>)) (\<lambda>_ s. schedule E s))"

definition tell_father :: "env \<Rightarrow> int \<Rightarrow> kernel \<Rightarrow> unit kres" where
  "tell_father E pid s =
     (case (if pid \<noteq> 0 then find_up (\<lambda>i. task s i \<noteq> 0 \<and> t_pid (tstruct s (task s i)) = pid) 0 NR_TASKS
            else None) of
        Some i \<Rightarrow> Ret () (upd_task (task s i) (\<lambda>t. t\<lparr>t_signal := t_signal t OR sigbit SIGCHLD\<rparr>) s)
      | None \<Rightarrow> release E (current s) s)"

text \<open>The children of the current task become children of process 1.\<close>

definition reparent :: "kernel \<Rightarrow> kernel" where
  "reparent s =
     fold (\<lambda>i s.
       if task s i \<noteq> 0 \<and> t_father (tstruct s (task s i)) = t_pid (cur s) then
         let s = upd_task (task s i) (\<lambda>t. t\<lparr>t_father := 1\<rparr>) s in
         if t_state (tstruct s (task s i)) = TASK_ZOMBIE
         then snd (send_sig (int SIGCHLD) (task s 1) True s) else s
       else s) [0..<NR_TASKS] s"

definition close_all :: "env \<Rightarrow> kernel \<Rightarrow> unit kres" where
  "close_all E s =
     kfor (\<lambda>i _ s. if t_filp (cur s) i \<noteq> None then kbind (sys_close E (of_nat i) s) (\<lambda>_ s. Ret () s)
                   else Ret () s) [0..<NR_OPEN] () s"

definition do_exit :: "env \<Rightarrow> int \<Rightarrow> kernel \<Rightarrow> int kres" where
  "do_exit E code s =
     kbind (free_page_tables (get_base (t_ldt (cur s) 1)) (cur_limit 0x0f s) s) (\<lambda>_ s.
     kbind (free_page_tables (get_base (t_ldt (cur s) 2)) (cur_limit 0x17 s) s) (\<lambda>_ s.
     kbind (close_all E (reparent s)) (\<lambda>_ s.
     kbind (iput E (t_pwd (cur s)) s) (\<lambda>_ s.
     kbind (iput E (t_root (cur s)) (upd_cur (\<lambda>p. p\<lparr>t_pwd := None\<rparr>) s)) (\<lambda>_ s.
     kbind (iput E (t_executable (cur s)) (upd_cur (\<lambda>p. p\<lparr>t_root := None\<rparr>) s)) (\<lambda>_ s.
       let s = upd_cur (\<lambda>p. p\<lparr>t_executable := None\<rparr>) s in
       if t_leader (cur s) \<noteq> 0 \<and> t_tty (cur s) > 2 then Fault
       else let s = (if t_leader (cur s) \<noteq> 0 \<and> t_tty (cur s) \<ge> 0
                     then upd_tty (nat (t_tty (cur s))) (\<lambda>t. t\<lparr>tty_pgrp := 0\<rparr>) s else s);
                s = (if last_task_used_math s = current s then s\<lparr>last_task_used_math := 0\<rparr> else s);
                s = (if t_leader (cur s) \<noteq> 0 then kill_session s else s);
                s = upd_cur (\<lambda>p. p\<lparr>t_state := TASK_ZOMBIE, t_exit_code := code\<rparr>) s in
         kbind (tell_father E (t_father (cur s)) s) (\<lambda>_ s.
         kbind (schedule E s) (\<lambda>_ s. Ret (-1) s))))))))"

definition sys_exit :: "env \<Rightarrow> int \<Rightarrow> kernel \<Rightarrow> int kres" where
  "sys_exit E error_code s = do_exit E ((error_code mod 256) * 256) s"

text \<open>Is the task in slot \<open>i\<close> a child that \<^verbatim>\<open>waitpid(pid, ...)\<close> waits for?\<close>

definition wait_matches :: "int \<Rightarrow> nat \<Rightarrow> kernel \<Rightarrow> bool" where
  "wait_matches pid i s =
     (let p = tstruct s (task s i) in
      task s i \<noteq> 0 \<and> task s i \<noteq> current s \<and> t_father p = t_pid (cur s) \<and>
      (if pid > 0 then t_pid p = pid
       else if pid = 0 then t_pgrp p = t_pgrp (cur s)
       else pid = -1 \<or> t_pgrp p = - pid))"

text \<open>The scan of \<^verbatim>\<open>sys_waitpid\<close>: \<open>Some r\<close> ends the call with \<open>r\<close>; otherwise \<open>flag\<close> tells whether there was a
  child at all.\<close>

abbreviation (input) "WNOHANG \<equiv> (1::u32)"
abbreviation (input) "WUNTRACED \<equiv> (2::u32)"

definition wait_scan :: "env \<Rightarrow> int \<Rightarrow> u32 \<Rightarrow> u32 \<Rightarrow> kernel \<Rightarrow> (int option \<times> bool) kres" where
  "wait_scan E pid stat_addr options s =
     kfor (\<lambda>i (res, flag) s.
       if res \<noteq> None then Ret (res, flag) s
       else if \<not> wait_matches pid i s then Ret (None, flag) s
       else let p = tstruct s (task s i) in
         if t_state p = TASK_STOPPED then
           (if options AND WUNTRACED = 0 then Ret (None, flag) s
            else Ret (Some (t_pid p), flag) (put_fs_long 0x7f stat_addr s))
         else if t_state p = TASK_ZOMBIE then
           (let s = upd_cur (\<lambda>c. c\<lparr>t_cutime := wrap32 (t_cutime c + t_utime p),
                                   t_cstime := wrap32 (t_cstime c + t_stime p)\<rparr>) s in
            kbind (release E (task s i) s) (\<lambda>_ s.
              Ret (Some (t_pid p), flag) (put_fs_long (word_of_int (t_exit_code p)) stat_addr s)))
         else Ret (None, True) s) (rev [1..<NR_TASKS]) (None, False) s"

definition sys_waitpid :: "env \<Rightarrow> int \<Rightarrow> u32 \<Rightarrow> u32 \<Rightarrow> kernel \<Rightarrow> int kres" where
  "sys_waitpid E pid stat_addr options s =
     kbind (verify_area stat_addr 4 s) (\<lambda>_ s.
       kloop (fuel E) (\<lambda>s. kbind (wait_scan E pid stat_addr options s) (\<lambda>(res, flag) s.
         case res of
           Some r \<Rightarrow> Ret (Some r) s
         | None \<Rightarrow>
             if \<not> flag then Ret (Some (- ECHILD)) s
             else if options AND WNOHANG \<noteq> 0 then Ret (Some 0) s
             else kbind (schedule E (upd_cur (\<lambda>p. p\<lparr>t_state := TASK_INTERRUPTIBLE\<rparr>) s)) (\<lambda>_ s.
               let s = upd_cur (\<lambda>p. p\<lparr>t_signal := t_signal p AND NOT (sigbit SIGCHLD)\<rparr>) s in
               if t_signal (cur s) = 0 then Ret None s else Ret (Some (- EINTR)) s))) s)"

subsection \<open>Signals received\<close>

abbreviation (input) "SA_NOMASK \<equiv> (0x40000000::u32)"
abbreviation (input) "SA_ONESHOT \<equiv> (0x80000000::u32)"

definition sys_sgetmask :: "kernel \<Rightarrow> u32" where
  "sys_sgetmask s = t_blocked (cur s)"

definition sys_ssetmask :: "u32 \<Rightarrow> kernel \<Rightarrow> u32 \<times> kernel" where
  "sys_ssetmask newmask s =
     (t_blocked (cur s), upd_cur (\<lambda>p. p\<lparr>t_blocked := newmask AND NOT (sigbit SIGKILL)\<rparr>) s)"

text \<open>\<^verbatim>\<open>struct sigaction\<close> as 16 bytes.\<close>

definition sigaction_bytes :: "sigaction \<Rightarrow> nat \<Rightarrow> u8" where
  "sigaction_bytes a =
     put_long (sa_handler a) 0 (put_long (sa_mask a) 4 (put_long (sa_flags a) 8
       (put_long (sa_restorer a) 12 (\<lambda>_. 0))))"

definition save_old :: "sigaction \<Rightarrow> u32 \<Rightarrow> kernel \<Rightarrow> unit kres" where
  "save_old from_a to_a s =
     kbind (verify_area to_a 16 s) (\<lambda>_ s. Ret () (put_fs_bytes (sigaction_bytes from_a) 16 to_a s))"

definition get_new :: "u32 \<Rightarrow> kernel \<Rightarrow> sigaction" where
  "get_new from_a s =
     \<lparr>sa_handler = get_fs_long from_a s, sa_mask = get_fs_long (from_a + 4) s,
      sa_flags = get_fs_long (from_a + 8) s, sa_restorer = get_fs_long (from_a + 12) s\<rparr>"

definition set_sigaction :: "nat \<Rightarrow> sigaction \<Rightarrow> kernel \<Rightarrow> kernel" where
  "set_sigaction k a s = upd_cur (\<lambda>p. p\<lparr>t_sigaction := (t_sigaction p)(k := a)\<rparr>) s"

definition sys_signal :: "int \<Rightarrow> u32 \<Rightarrow> u32 \<Rightarrow> kernel \<Rightarrow> int \<times> kernel" where
  "sys_signal signum handler restorer s =
     (if signum < 1 \<or> signum > 32 \<or> signum = int SIGKILL then (-1, s)
      else let k = nat (signum - 1) in
        (sint (sa_handler (t_sigaction (cur s) k)),
         set_sigaction k \<lparr>sa_handler = handler, sa_mask = 0, sa_flags = SA_ONESHOT OR SA_NOMASK,
                          sa_restorer = restorer\<rparr> s))"

definition sys_sigaction :: "int \<Rightarrow> u32 \<Rightarrow> u32 \<Rightarrow> kernel \<Rightarrow> int kres" where
  "sys_sigaction signum action oldaction s =
     (if signum < 1 \<or> signum > 32 \<or> signum = int SIGKILL then Ret (-1) s
      else let k = nat (signum - 1);
               tmp = t_sigaction (cur s) k;
               s = set_sigaction k (get_new action s) s in
        kbind (if oldaction \<noteq> 0 then save_old tmp oldaction s else Ret () s) (\<lambda>_ s.
          let a = t_sigaction (cur s) k in
          Ret 0 (set_sigaction k (if sa_flags a AND SA_NOMASK \<noteq> 0 then a\<lparr>sa_mask := 0\<rparr>
                                  else a\<lparr>sa_mask := sa_mask a OR sigbit (nat signum)\<rparr>) s)))"

text \<open>\<^verbatim>\<open>do_signal\<close> changes the return address and the user stack pointer in the frame it was called with;
  the result is the new pair. The words it pushes are, from the new stack pointer up, the
  restorer, the signal number, the blocked signals unless \<^verbatim>\<open>SA_NOMASK\<close>, \<^verbatim>\<open>eax\<close>, \<^verbatim>\<open>ecx\<close>,
  \<^verbatim>\<open>edx\<close>, \<^verbatim>\<open>eflags\<close> and the old \<^verbatim>\<open>eip\<close>.\<close>

definition signal_frame :: "sigaction \<Rightarrow> nat \<Rightarrow> u32 \<Rightarrow> u32 \<Rightarrow> regs \<Rightarrow> u32 list" where
  "signal_frame sa signr blocked eax r =
     [sa_restorer sa, of_nat signr] @ (if sa_flags sa AND SA_NOMASK = 0 then [blocked] else []) @
     [eax, reg_ecx r, reg_edx r, reg_eflags r, reg_eip r]"

definition push_longs :: "u32 \<Rightarrow> u32 list \<Rightarrow> kernel \<Rightarrow> kernel" where
  "push_longs esp vs s = fold (\<lambda>(k, v) s. put_fs_long v (esp + 4 * of_nat k) s) (enumerate 0 vs) s"

definition do_signal :: "nat \<Rightarrow> u32 \<Rightarrow> regs \<Rightarrow> kernel \<Rightarrow> (u32 \<times> u32) kres" where
  "do_signal signr eax r s =
     (let k = signr - 1;
          sa = t_sigaction (cur s) k;
          handler = sa_handler sa in
      if handler = 1 then Ret (reg_eip r, reg_esp r) s
      else if handler = 0 then
        (if signr = SIGCHLD then Ret (reg_eip r, reg_esp r) s
         else Exit (wrap32 (2 ^ (signr - 1))) s)
      else let sa = (if sa_flags sa AND SA_ONESHOT \<noteq> 0 then sa\<lparr>sa_handler := 0\<rparr> else sa);
               s = set_sigaction k sa s;
               longs = (if sa_flags sa AND SA_NOMASK \<noteq> 0 then 7 else 8);
               esp = reg_esp r - 4 * longs in
        kbind (verify_area esp (uint longs * 4) s) (\<lambda>_ s.
          let s = push_longs esp (signal_frame sa signr (t_blocked (cur s)) eax r) s in
          Ret (handler, esp) (upd_cur (\<lambda>p. p\<lparr>t_blocked := t_blocked p OR sa_mask sa\<rparr>) s)))"

subsection \<open>Identities, times and sessions\<close>

definition sys_setregid :: "int \<Rightarrow> int \<Rightarrow> kernel \<Rightarrow> int \<times> kernel" where
  "sys_setregid rgid egid s =
     (if rgid > 0 \<and> \<not> (uint (t_gid (cur s)) = rgid \<or> suser s) then (- EPERM, s)
      else let s = (if rgid > 0 then upd_cur (\<lambda>p. p\<lparr>t_gid := word_of_int rgid\<rparr>) s else s) in
        if egid > 0 \<and> \<not> (uint (t_gid (cur s)) = egid \<or> uint (t_egid (cur s)) = egid
                          \<or> uint (t_sgid (cur s)) = egid \<or> suser s) then (- EPERM, s)
        else (0, if egid > 0 then upd_cur (\<lambda>p. p\<lparr>t_egid := word_of_int egid\<rparr>) s else s))"

definition sys_setgid :: "int \<Rightarrow> kernel \<Rightarrow> int \<times> kernel" where
  "sys_setgid gid s = sys_setregid gid gid s"

definition sys_setreuid :: "int \<Rightarrow> int \<Rightarrow> kernel \<Rightarrow> int \<times> kernel" where
  "sys_setreuid ruid euid s =
     (let old_ruid = t_uid (cur s) in
      if ruid > 0 \<and> \<not> (uint (t_euid (cur s)) = ruid \<or> uint old_ruid = ruid \<or> suser s) then (- EPERM, s)
      else let s = (if ruid > 0 then upd_cur (\<lambda>p. p\<lparr>t_uid := word_of_int ruid\<rparr>) s else s) in
        if euid > 0 \<and> \<not> (uint old_ruid = euid \<or> uint (t_euid (cur s)) = euid \<or> suser s)
        then (- EPERM, upd_cur (\<lambda>p. p\<lparr>t_uid := old_ruid\<rparr>) s)
        else (0, if euid > 0 then upd_cur (\<lambda>p. p\<lparr>t_euid := word_of_int euid\<rparr>) s else s))"

definition sys_setuid :: "int \<Rightarrow> kernel \<Rightarrow> int \<times> kernel" where
  "sys_setuid uid s = sys_setreuid uid uid s"

definition sys_time :: "u32 \<Rightarrow> kernel \<Rightarrow> int kres" where
  "sys_time tloc s =
     (let i = CURRENT_TIME s in
      if tloc \<noteq> 0 then kbind (verify_area tloc 4 s) (\<lambda>_ s. Ret i (put_fs_long (word_of_int i) tloc s))
      else Ret i s)"

definition sys_stime :: "u32 \<Rightarrow> kernel \<Rightarrow> int \<times> kernel" where
  "sys_stime tptr s =
     (if \<not> suser s then (- EPERM, s)
      else (0, s\<lparr>startup_time := wrap32 (uint (get_fs_long tptr s) - c_div (jiffies s) HZ)\<rparr>))"

definition sys_times :: "u32 \<Rightarrow> kernel \<Rightarrow> int kres" where
  "sys_times tbuf s =
     (if tbuf \<noteq> 0 then
        kbind (verify_area tbuf 16 s) (\<lambda>_ s.
          let c = cur s;
              s = push_longs tbuf (map word_of_int [t_utime c, t_stime c, t_cutime c, t_cstime c]) s in
          Ret (jiffies s) s)
      else Ret (jiffies s) s)"

definition sys_brk :: "u32 \<Rightarrow> kernel \<Rightarrow> u32 \<times> kernel" where
  "sys_brk end_data_seg s =
     (let s = (if end_data_seg \<ge> t_end_code (cur s) \<and> end_data_seg < t_start_stack (cur s) - 16384
               then upd_cur (\<lambda>p. p\<lparr>t_brk := end_data_seg\<rparr>) s else s) in
      (t_brk (cur s), s))"

definition sys_setpgid :: "int \<Rightarrow> int \<Rightarrow> kernel \<Rightarrow> int \<times> kernel" where
  "sys_setpgid pid pgid s =
     (let pid = (if pid = 0 then t_pid (cur s) else pid);
          pgid = (if pgid = 0 then t_pid (cur s) else pgid) in
      case find_up (\<lambda>i. task s i \<noteq> 0 \<and> t_pid (tstruct s (task s i)) = pid) 0 NR_TASKS of
        None \<Rightarrow> (- ESRCH, s)
      | Some i \<Rightarrow>
          let p = tstruct s (task s i) in
          if t_leader p \<noteq> 0 then (- EPERM, s)
          else if t_session p \<noteq> t_session (cur s) then (- EPERM, s)
          else (0, upd_task (task s i) (\<lambda>t. t\<lparr>t_pgrp := pgid\<rparr>) s))"

definition sys_getpgrp :: "kernel \<Rightarrow> int" where
  "sys_getpgrp s = t_pgrp (cur s)"

definition sys_setsid :: "kernel \<Rightarrow> int \<times> kernel" where
  "sys_setsid s =
     (if t_leader (cur s) \<noteq> 0 \<and> \<not> suser s then (- EPERM, s)
      else let s = upd_cur (\<lambda>p. p\<lparr>t_leader := 1, t_session := t_pid p, t_pgrp := t_pid p, t_tty := -1\<rparr>) s in
        (t_pgrp (cur s), s))"

text \<open>\<^verbatim>\<open>struct utsname\<close> is five strings of nine bytes.\<close>

definition utsname_bytes :: "nat \<Rightarrow> u8" where
  "utsname_bytes k =
     (let name = ''linux .0'' @ [CHR 0x00] @ ''nodename'' @ [CHR 0x00] @ ''release '' @ [CHR 0x00] @
                 ''version '' @ [CHR 0x00] @ ''machine '' @ [CHR 0x00] in
      if k < 45 then of_char (name ! k) else 0)"

definition sys_uname :: "u32 \<Rightarrow> kernel \<Rightarrow> int kres" where
  "sys_uname name s =
     (if name = 0 then Ret (- ERROR) s
      else kbind (verify_area name 45 s) (\<lambda>_ s. Ret 0 (put_fs_bytes utsname_bytes 45 name s)))"

definition sys_umask :: "u16 \<Rightarrow> kernel \<Rightarrow> int \<times> kernel" where
  "sys_umask msk s = (uint (t_umask (cur s)), upd_cur (\<lambda>p. p\<lparr>t_umask := msk AND 0x1FF\<rparr>) s)"

subsection \<open>Page faults\<close>

text \<open>The bytes of the page past the end of the data are cleared.\<close>

definition clear_tail :: "u32 \<Rightarrow> nat \<Rightarrow> kernel \<Rightarrow> kernel" where
  "clear_tail page n s = fold (\<lambda>k s. set_phys_byte (page + 4095 - of_nat k) 0 s) [0..<n] s"

definition do_no_page :: "env \<Rightarrow> u32 \<Rightarrow> u32 \<Rightarrow> kernel \<Rightarrow> unit kres" where
  "do_no_page E error_code address s =
     (let address = address AND PAGE_MASK;
          tmp = address - t_start_code (cur s) in
      case t_executable (cur s) of
        None \<Rightarrow> get_empty_page address s
      | Some _ \<Rightarrow>
          if tmp \<ge> t_end_data (cur s) then get_empty_page address s
          else kbind (share_page tmp s) (\<lambda>shared s.
            if shared \<noteq> 0 then Ret () s
            else let (page, s) = get_free_page s in
              if page = 0 then oom s
              else (case t_executable (cur s) of
                  None \<Rightarrow> Fault
                | Some ex \<Rightarrow>
                    kbind (kfor (\<lambda>i nr s. kbind (bmap E ex (1 + uint tmp div 1024 + int i) s) (\<lambda>b s.
                             Ret (nr(i := ucast b)) s)) [0..<4] (\<lambda>_. 0) s) (\<lambda>nr s.
                    kbind (bread_page E page (i_dev (inode_table s ex)) nr s) (\<lambda>_ s.
                      let i = tmp + 4096 - t_end_data (cur s);
                          s = clear_tail page (nat (sint i)) s;
                          (r, s) = put_page page address s in
                      if r \<noteq> 0 then Ret () s else kbind (free_page page s) (\<lambda>_ s. oom s))))))"

subsection \<open>Process numbers\<close>

text \<open>The number that the loop at \<^verbatim>\<open>repeat\<close> tries in round \<open>k\<close>.\<close>

definition pid_seq :: "int \<Rightarrow> nat \<Rightarrow> int" where
  "pid_seq n k = (n + int k - 1) mod (2 ^ 31 - 1) + 1"

lemma next_pid_seq:
  assumes "0 \<le> n" "n < 2 ^ 31"
  shows "next_pid n = pid_seq n 1" "0 < next_pid n" "next_pid n < 2 ^ 31"
proof -
  have "next_pid n = (if n = 2 ^ 31 - 1 then 1 else n + 1)"
    using assms by (auto simp: next_pid_def wrap32_def Let_def)
  then show "next_pid n = pid_seq n 1" "0 < next_pid n" "next_pid n < 2 ^ 31"
    using assms by (auto simp: pid_seq_def)
qed

lemma pid_seq_Suc:
  assumes "0 \<le> n" "n < 2 ^ 31"
  shows "pid_seq (next_pid n) k = pid_seq n (Suc k)"
proof -
  have "pid_seq (next_pid n) k = ((n mod (2 ^ 31 - 1)) + int k) mod (2 ^ 31 - 1) + 1"
    using next_pid_seq(1) [OF assms] by (simp add: pid_seq_def)
  then show ?thesis by (simp add: pid_seq_def mod_add_left_eq)
qed

lemma pid_seq_inj: "inj_on (pid_seq n) {1..65}"
proof (rule inj_onI)
  fix j k
  assume jk: "j \<in> {1..65}" "k \<in> {1..65 :: nat}" and "pid_seq n j = pid_seq n k"
  then have "(n + int j - 1) mod (2 ^ 31 - 1) = (n + int k - 1) mod (2 ^ 31 - 1)" by (simp add: pid_seq_def)
  then have "(2 ^ 31 - 1) dvd (int j - int k)" by (simp add: mod_eq_dvd_iff)
  moreover have "\<bar>int j - int k\<bar> < 2 ^ 31 - 1" using jk by auto
  ultimately have "int j - int k = 0" using zdvd_imp_le [of "2 ^ 31 - 1" "\<bar>int j - int k\<bar>"] by force
  then show "j = k" by simp
qed

lemma pid_used_last_pid [simp]: "pid_used q (s\<lparr>last_pid := x\<rparr>) = pid_used q s"
  by (simp add: pid_used_def)

lemma some_pid_unused: "\<exists>k\<in>{1..65}. \<not> pid_used (pid_seq n k) s"
proof (rule ccontr)
  assume "\<not> ?thesis"
  then have u: "\<And>k. k \<in> {1..65} \<Longrightarrow> pid_used (pid_seq n k) s" by blast
  have "pid_seq n ` {1..65} \<subseteq> (\<lambda>i. t_pid (tstruct s (task s i))) ` {0..<NR_TASKS}"
  proof
    fix q
    assume "q \<in> pid_seq n ` {1..65}"
    then have "pid_used q s" using u by blast
    then show "q \<in> (\<lambda>i. t_pid (tstruct s (task s i))) ` {0..<NR_TASKS}"
      unfolding pid_used_def set_upt by blast
  qed
  then have "card (pid_seq n ` {1..65}) \<le> card ((\<lambda>i. t_pid (tstruct s (task s i))) ` {0..<NR_TASKS})"
    by (intro card_mono) auto
  also have "\<dots> \<le> NR_TASKS" by (rule order_trans [OF card_image_le]) simp_all
  finally show False using card_image [OF pid_seq_inj, of n] by simp
qed

lemma pid_loop:
  assumes "0 \<le> last_pid s" "last_pid s < 2 ^ 31" "\<exists>k\<in>{1..n}. \<not> pid_used (pid_seq (last_pid s) k) s"
  shows "\<exists>p. kloop n (\<lambda>s. let s = s\<lparr>last_pid := next_pid (last_pid s)\<rparr> in
         if pid_used (last_pid s) s then Ret None s else Ret (Some ()) s) s = Ret () (s\<lparr>last_pid := p\<rparr>) \<and>
    0 < p \<and> p < 2 ^ 31 \<and> \<not> pid_used p s"
  using assms
proof (induction n arbitrary: s)
  case 0
  then show ?case by simp
next
  case (Suc n)
  let ?p = "next_pid (last_pid s)" let ?s = "s\<lparr>last_pid := ?p\<rparr>"
  note np = next_pid_seq [OF Suc.prems(1,2)]
  show ?case
  proof (cases "pid_used ?p s")
    case False
    then show ?thesis using np by (intro exI [of _ ?p]) (simp add: Let_def)
  next
    case True
    from Suc.prems(3) obtain k where k: "k \<in> {1..Suc n}" "\<not> pid_used (pid_seq (last_pid s) k) s" by blast
    then have "k \<noteq> 1" using True np(1) by auto
    then obtain j where j: "k = Suc j" "j \<in> {1..n}" using k(1) by (cases k) auto
    then have "\<exists>k\<in>{1..n}. \<not> pid_used (pid_seq (last_pid ?s) k) ?s"
      using k(2) pid_seq_Suc [OF Suc.prems(1,2), of j] by (intro bexI [of _ j]) simp_all
    from Suc.IH [OF _ _ this] np True show ?thesis by (simp add: Let_def)
  qed
qed

text \<open>\<^verbatim>\<open>find_empty_process\<close> ends after at most 65 rounds, also when the process numbers wrap around. It
  leaves in \<^verbatim>\<open>last_pid\<close> a positive number that no task has, and returns the first free slot of the
  task table, or -EAGAIN exactly when there is none; nothing else changes.\<close>

theorem find_empty_process_fresh:
  assumes "0 \<le> last_pid s" "last_pid s < 2 ^ 31" "65 \<le> fuel E"
  shows "\<exists>p r. find_empty_process E s = Ret r (s\<lparr>last_pid := p\<rparr>) \<and> 0 < p \<and> p < 2 ^ 31 \<and>
    (\<forall>i<NR_TASKS. task s i \<noteq> 0 \<longrightarrow> t_pid (tsk s i) \<noteq> p) \<and>
    (if \<exists>i. 1 \<le> i \<and> i < NR_TASKS \<and> task s i = 0
     then 1 \<le> r \<and> r < int NR_TASKS \<and> task s (nat r) = 0 \<and> (\<forall>j. 1 \<le> j \<and> j < nat r \<longrightarrow> task s j \<noteq> 0)
     else r = - EAGAIN)"
proof -
  have "\<exists>k\<in>{1..fuel E}. \<not> pid_used (pid_seq (last_pid s) k) s"
    using some_pid_unused [of "last_pid s" s] assms(3) by force
  from pid_loop [OF assms(1,2) this] obtain p where p: "0 < p" "p < 2 ^ 31" "\<not> pid_used p s"
    and l: "kloop (fuel E) (\<lambda>s. let s = s\<lparr>last_pid := next_pid (last_pid s)\<rparr> in
         if pid_used (last_pid s) s then Ret None s else Ret (Some ()) s) s = Ret () (s\<lparr>last_pid := p\<rparr>)"
    by blast
  have u: "\<forall>i<NR_TASKS. task s i \<noteq> 0 \<longrightarrow> t_pid (tsk s i) \<noteq> p" using p(3) by (auto simp: pid_used_def)
  show ?thesis
  proof (cases "find_up (\<lambda>i. task s i = 0) 1 NR_TASKS")
    case None
    then have "\<not> (\<exists>i. 1 \<le> i \<and> i < NR_TASKS \<and> task s i = 0)" by (auto simp: find_up_None_iff)
    then show ?thesis using p u l None by (auto simp: find_empty_process_def)
  next
    case (Some i)
    then have "1 \<le> i" "i < NR_TASKS" "task s i = 0" "\<forall>j. 1 \<le> j \<and> j < i \<longrightarrow> task s j \<noteq> 0"
      by (auto simp: find_up_Some_iff)
    then show ?thesis using p u l Some
      by (intro exI [of _ p] exI [of _ "int i"]) (auto simp: find_empty_process_def)
  qed
qed

theorem find_empty_process_fresh_witness:
  "\<exists>p. find_empty_process (quiet_env 65) (three_tasks\<lparr>last_pid := 2 ^ 31 - 1\<rparr>) =
     Ret 3 (three_tasks\<lparr>last_pid := p\<rparr>) \<and> 0 < p"
proof -
  let ?s = "three_tasks\<lparr>last_pid := 2 ^ 31 - 1\<rparr>"
  have h: "0 \<le> last_pid ?s" "last_pid ?s < 2 ^ 31" "65 \<le> fuel (quiet_env 65)"
    by (simp_all add: quiet_env_def)
  have t: "task three_tasks i = (if i = 0 then 0x1000 else if i = 1 then 0x2000 else if i = 2 then 0x3000 else 0)" for i
    by (simp add: three_tasks_def)
  from find_empty_process_fresh [OF h] obtain p r where
    e: "find_empty_process (quiet_env 65) ?s = Ret r (?s\<lparr>last_pid := p\<rparr>)" "0 < p"
    and i: "if \<exists>i. 1 \<le> i \<and> i < NR_TASKS \<and> task ?s i = 0
     then 1 \<le> r \<and> r < int NR_TASKS \<and> task ?s (nat r) = 0 \<and> (\<forall>j. 1 \<le> j \<and> j < nat r \<longrightarrow> task ?s j \<noteq> 0)
     else r = - EAGAIN" by blast
  have "\<exists>i. 1 \<le> i \<and> i < NR_TASKS \<and> task ?s i = 0" by (rule exI [of _ 3]) (simp add: t)
  with i have r: "1 \<le> r" "task ?s (nat r) = 0" "\<forall>j. 1 \<le> j \<and> j < nat r \<longrightarrow> task ?s j \<noteq> 0" by simp_all
  have "nat r = 3"
  proof -
    have "\<not> 3 < nat r" using r(3) by (auto simp: t dest: spec [of _ 3])
    moreover have "nat r \<noteq> 0 \<and> nat r \<noteq> 1 \<and> nat r \<noteq> 2" using r(1,2) by (auto simp: t split: if_splits)
    ultimately show ?thesis by arith
  qed
  then have "r = 3" using r(1) by simp
  with e show ?thesis by auto
qed

subsection \<open>Sending signals\<close>

definition may_signal :: "bool \<Rightarrow> kernel \<Rightarrow> u32 \<Rightarrow> bool" where
  "may_signal priv s p \<longleftrightarrow> priv \<or> t_euid (cur s) = t_euid (tstruct s p) \<or> suser s"

definition raise_sig :: "nat \<Rightarrow> task_struct \<Rightarrow> task_struct" where
  "raise_sig sig t = t\<lparr>t_signal := t_signal t OR sigbit sig\<rparr>"

lemma may_signal_raise [simp]: "may_signal priv (upd_task q (raise_sig sig) s) p = may_signal priv s p"
  by (simp add: may_signal_def raise_sig_def suser_def cur_def)

lemma send_sig_valid:
  assumes "p \<noteq> 0" "1 \<le> sig" "sig \<le> 32"
  shows "send_sig sig p priv s =
    (if may_signal priv s p then (0, upd_task p (raise_sig (nat sig)) s) else (- EPERM, s))"
  using assms by (simp add: send_sig_def may_signal_def raise_sig_def [abs_def])

lemma tstruct_upd_cong: "(\<And>p. f p = g p) \<Longrightarrow> s\<lparr>tstruct := f\<rparr> = s\<lparr>tstruct := g\<rparr>" for s :: kernel
  by (subst ext [of f g]) simp_all

lemma kill_loop_spec:
  assumes "task_wf s" "distinct xs" "set xs \<subseteq> {0..<NR_TASKS}" "1 \<le> sig" "sig \<le> 32"
    and sel: "\<And>i q s. sel i (upd_task q (raise_sig (nat sig)) s) = sel i s" "\<And>i s. sel i s \<Longrightarrow> task s i \<noteq> 0"
  shows "kill_loop sel sig priv xs r s =
    (if \<exists>i\<in>set xs. sel i s \<and> \<not> may_signal priv s (task s i) then - EPERM else r,
     s\<lparr>tstruct := (\<lambda>p. if \<exists>i\<in>set xs. task s i = p \<and> sel i s \<and> may_signal priv s p
                       then raise_sig (nat sig) (tstruct s p) else tstruct s p)\<rparr>)"
  using assms(1-5)
proof (induction xs arbitrary: r s)
  case Nil
  then show ?case by simp
next
  case (Cons a xs)
  have d: "distinct xs" "set xs \<subseteq> {0..<NR_TASKS}" using Cons.prems by auto
  show ?case
  proof (cases "sel a s")
    case False
    then show ?thesis using Cons.IH [OF Cons.prems(1) d Cons.prems(4,5)] by auto
  next
    case True
    then have ta: "task s a \<noteq> 0" by (rule sel)
    note ss = send_sig_valid [OF ta Cons.prems(4,5), of priv s]
    show ?thesis
    proof (cases "may_signal priv s (task s a)")
      case False
      then show ?thesis using True ss Cons.IH [OF Cons.prems(1) d Cons.prems(4,5)]
        by (auto intro!: tstruct_upd_cong)
    next
      case m: True
      let ?s = "upd_task (task s a) (raise_sig (nat sig)) s"
      have wf: "task_wf ?s" using Cons.prems(1) by (simp add: task_wf_def)
      have ne: "task s i \<noteq> task s a" if "i \<in> set xs" for i
        using that Cons.prems(1-3) ta unfolding task_wf_def by force
      have "kill_loop sel sig priv (a # xs) r s = kill_loop sel sig priv xs r ?s"
        using True m ss by simp
      also have "\<dots> = (if \<exists>i\<in>set xs. sel i s \<and> \<not> may_signal priv s (task s i) then - EPERM else r,
         ?s\<lparr>tstruct := (\<lambda>p. if \<exists>i\<in>set xs. task s i = p \<and> sel i s \<and> may_signal priv s p
                       then raise_sig (nat sig) (tstruct ?s p) else tstruct ?s p)\<rparr>)"
        unfolding Cons.IH [OF wf d Cons.prems(4,5)] by (simp add: sel(1))
      also have "\<dots> = (if \<exists>i\<in>set (a # xs). sel i s \<and> \<not> may_signal priv s (task s i) then - EPERM else r,
         s\<lparr>tstruct := (\<lambda>p. if \<exists>i\<in>set (a # xs). task s i = p \<and> sel i s \<and> may_signal priv s p
                       then raise_sig (nat sig) (tstruct s p) else tstruct s p)\<rparr>)"
      proof -
        have "(\<lambda>p. if \<exists>i\<in>set xs. task s i = p \<and> sel i s \<and> may_signal priv s p
                then raise_sig (nat sig) (tstruct ?s p) else tstruct ?s p) =
          (\<lambda>p. if \<exists>i\<in>set (a # xs). task s i = p \<and> sel i s \<and> may_signal priv s p
                then raise_sig (nat sig) (tstruct s p) else tstruct s p)"
          using True m ne by (intro ext) auto
        then show ?thesis using m by (simp add: upd_task_def)
      qed
      finally show ?thesis .
    qed
  qed
qed

text \<open>The tasks that \<^verbatim>\<open>kill(pid, sig)\<close> addresses.\<close>

definition kill_target :: "int \<Rightarrow> kernel \<Rightarrow> nat \<Rightarrow> bool" where
  "kill_target pid s i \<longleftrightarrow> is_task s i \<and>
     (if pid = 0 then t_pgrp (tsk s i) = t_pid (cur s) else t_pid (tsk s i) = pid)"

text \<open>C15: \<^verbatim>\<open>kill\<close> with a process number, or with 0 for the process group named after the caller, signals
  exactly the tasks addressed: each of them that has the caller's effective user, or all of them for the
  super-user and for the group, gets the signal added to its pending ones, no other task and nothing
  else changes, and the result is -EPERM exactly when some addressed task could not be signalled.\<close>

theorem sys_kill_exact:
  assumes "task_wf s" "0 \<le> pid" "1 \<le> sig" "sig \<le> 32"
  shows "sys_kill pid sig s =
    (if \<exists>i. kill_target pid s i \<and> \<not> may_signal (pid = 0) s (task s i) then - EPERM else 0,
     s\<lparr>tstruct := (\<lambda>p. if \<exists>i. task s i = p \<and> kill_target pid s i \<and> may_signal (pid = 0) s p
                       then raise_sig (nat sig) (tstruct s p) else tstruct s p)\<rparr>)"
proof -
  let ?sel = "\<lambda>i s. task s i \<noteq> 0 \<and>
    (if pid = 0 then t_pgrp (tstruct s (task s i)) = t_pid (cur s) else t_pid (tstruct s (task s i)) = pid)"
  have sel: "?sel i (upd_task q (raise_sig (nat sig)) s) = ?sel i s" for i q s
    by (auto simp: raise_sig_def cur_def)
  have "sys_kill pid sig s = kill_loop ?sel sig (pid = 0) (rev [1..<NR_TASKS]) 0 s"
    using assms(2) by (cases "pid = 0") (simp_all add: sys_kill_def Let_def)
  also have "\<dots> = (if \<exists>i\<in>set (rev [1..<NR_TASKS]). ?sel i s \<and> \<not> may_signal (pid = 0) s (task s i) then - EPERM else 0,
     s\<lparr>tstruct := (\<lambda>p. if \<exists>i\<in>set (rev [1..<NR_TASKS]). task s i = p \<and> ?sel i s \<and> may_signal (pid = 0) s p
                       then raise_sig (nat sig) (tstruct s p) else tstruct s p)\<rparr>)"
    by (rule kill_loop_spec [OF assms(1) _ _ assms(3,4)]) (use sel in \<open>auto simp del: upd_task_simps\<close>)
  finally show ?thesis by (simp add: kill_target_def is_task_def Bex_def conj_assoc Suc_le_eq conj_commute conj_left_commute)
qed

theorem sys_kill_exact_witness:
  "t_signal (tstruct (snd (sys_kill 5 15
     (three_tasks\<lparr>tstruct := (\<lambda>p. zero_task\<lparr>t_pid := (if p = 0x3000 then 5 else 1)\<rparr>)\<rparr>))) 0x3000) = 0x4000"
proof -
  let ?s = "three_tasks\<lparr>tstruct := (\<lambda>p. zero_task\<lparr>t_pid := (if p = 0x3000 then 5 else 1)\<rparr>)\<rparr>"
  have wf: "task_wf ?s" using three_tasks_wf by (simp add: sched_wf_def task_wf_def)
  have "task ?s 2 = 0x3000" "kill_target 5 ?s 2" "may_signal False ?s 0x3000"
    by (simp_all add: three_tasks_def kill_target_def is_task_def may_signal_def suser_def cur_def zero_task_def)
  then have "\<exists>i. task ?s i = 0x3000 \<and> kill_target 5 ?s i \<and> may_signal False ?s 0x3000" by blast
  with sys_kill_exact [OF wf, of 5 15] show ?thesis
    by (simp add: raise_sig_def zero_task_def sigbit_def)
qed

subsection \<open>Identities\<close>

lemma word_of_int_uint_eq: "uint (w :: u16) = k \<Longrightarrow> word_of_int k = w"
  by auto

text \<open>C17: Without the privileges of the super-user a task cannot become anybody else: \<^verbatim>\<open>setreuid\<close> can only
  make its real and effective user one of the two it had, and when it fails neither has changed.\<close>

theorem setreuid_confined:
  assumes "\<not> suser s" "sys_setreuid ruid euid s = (r, t)"
  shows "t_uid (cur t) \<in> {t_uid (cur s), t_euid (cur s)} \<and> t_euid (cur t) \<in> {t_uid (cur s), t_euid (cur s)} \<and>
    (r = 0 \<or> r = - EPERM \<and> t_uid (cur t) = t_uid (cur s) \<and> t_euid (cur t) = t_euid (cur s))"
proof -
  have su: "\<not> suser (upd_cur (\<lambda>p. p\<lparr>t_uid := x\<rparr>) s)" for x using assms(1) by (simp add: suser_def cur_def upd_cur_def upd_task_def)
  show ?thesis using assms su
    by (auto simp: sys_setreuid_def Let_def cur_def upd_cur_def upd_task_def word_of_int_uint_eq split: if_splits)
qed

theorem setreuid_confined_witness:
  "t_euid (cur (snd (sys_setreuid 0 7 (k0\<lparr>tstruct := (\<lambda>_. zero_task\<lparr>t_uid := 7, t_euid := 9\<rparr>)\<rparr>)))) \<in> {7, 9}"
proof -
  let ?s = "k0\<lparr>tstruct := (\<lambda>_. zero_task\<lparr>t_uid := 7, t_euid := 9\<rparr>)\<rparr>"
  have "\<not> suser ?s" by (simp add: suser_def cur_def)
  from setreuid_confined [OF this surjective_pairing, of 0 7] show ?thesis by (simp add: cur_def)
qed

subsection \<open>Orphans\<close>

definition orphan_of :: "int \<Rightarrow> kernel \<Rightarrow> nat \<Rightarrow> bool" where
  "orphan_of pid s i \<longleftrightarrow> task s i \<noteq> 0 \<and> t_father (tsk s i) = pid"

lemma send_sig_father:
  "task (snd (send_sig sig p priv s)) = task s" "current (snd (send_sig sig p priv s)) = current s"
  "t_father (tstruct (snd (send_sig sig p priv s)) q) = t_father (tstruct s q)"
  "t_pid (tstruct (snd (send_sig sig p priv s)) q) = t_pid (tstruct s q)"
  by (simp_all add: send_sig_def)

text \<open>One round of the loop of \<^verbatim>\<open>do_exit\<close> over the task table.\<close>

definition reparent_step :: "nat \<Rightarrow> kernel \<Rightarrow> kernel" where
  "reparent_step i s =
     (if task s i \<noteq> 0 \<and> t_father (tstruct s (task s i)) = t_pid (cur s) then
        let s = upd_task (task s i) (\<lambda>t. t\<lparr>t_father := 1\<rparr>) s in
        if t_state (tstruct s (task s i)) = TASK_ZOMBIE
        then snd (send_sig (int SIGCHLD) (task s 1) True s) else s
      else s)"

lemma reparent_step_simps:
  "task (reparent_step i s) = task s" "current (reparent_step i s) = current s"
  "t_pid (tstruct (reparent_step i s) q) = t_pid (tstruct s q)"
  "t_father (tstruct (reparent_step i s) q) =
     (if q = task s i \<and> q \<noteq> 0 \<and> t_father (tstruct s q) = t_pid (cur s) then 1 else t_father (tstruct s q))"
  by (auto simp: reparent_step_def Let_def send_sig_father)

lemma reparent_fold:
  "task (fold reparent_step xs s) = task s \<and> current (fold reparent_step xs s) = current s \<and>
   (\<forall>q. t_pid (tstruct (fold reparent_step xs s) q) = t_pid (tstruct s q)) \<and>
   (\<forall>q. t_father (tstruct (fold reparent_step xs s) q) =
     (if q \<noteq> 0 \<and> t_father (tstruct s q) = t_pid (cur s) \<and> (\<exists>i\<in>set xs. task s i = q) then 1
      else t_father (tstruct s q)))"
  by (induction xs arbitrary: s) (auto simp: reparent_step_simps cur_def)

text \<open>When a task exits, every child it has becomes a child of process 1, so that no task has the
  exiting one as its father any more, unless it is process 1 itself; all other tasks keep their
  fathers.\<close>

lemma reparent_complete:
  "\<forall>i<NR_TASKS. t_father (tsk (reparent s) i) =
     (if orphan_of (t_pid (cur s)) s i then 1 else t_father (tsk s i))"
proof -
  have "reparent s = fold reparent_step [0..<NR_TASKS] s"
    by (simp add: reparent_def reparent_step_def [abs_def])
  then show ?thesis using reparent_fold [of "[0..<NR_TASKS]" s] by (auto simp: orphan_of_def)
qed

subsection \<open>The frame of a signal handler\<close>

lemma umem_put_fs_long:
  assumes "4 * n + 3 < 2 ^ 32" "m < 2 ^ 32"
  shows "umem (put_fs_long v (a + 4 * of_nat n) s) (a + of_nat m) =
    (if 4 * n \<le> m \<and> m < 4 * n + 4 then byte_of32 (m - 4 * n) v else umem s (a + of_nat m))"
proof -
  have e: "a + of_nat m = a + 4 * of_nat n + of_nat j \<longleftrightarrow> m = 4 * n + j" if "j < 4" for j
  proof -
    have "a + of_nat m = a + 4 * of_nat n + of_nat j \<longleftrightarrow> (of_nat m :: u32) = of_nat (4 * n + j)" by (simp add: algebra_simps)
    also have "\<dots> \<longleftrightarrow> m = 4 * n + j" using assms that by (intro of_nat32_inj) auto
    finally show ?thesis .
  qed
  have "4 * n \<le> m \<and> m < 4 * n + 4 \<longleftrightarrow> m = 4 * n \<or> m = 4 * n + 1 \<or> m = 4 * n + 2 \<or> m = 4 * n + 3" by auto
  then show ?thesis using e [of 0] e [of 1] e [of 2] e [of 3]
    by (auto simp: put_fs_long_def)
qed

lemma get_fs_long_put:
  assumes "4 * n + 3 < 2 ^ 32" "4 * m + 3 < 2 ^ 32"
  shows "get_fs_long (a + 4 * of_nat m) (put_fs_long v (a + 4 * of_nat n) s) =
    (if m = n then v else get_fs_long (a + 4 * of_nat m) s)"
proof (cases "m = n")
  case True
  then show ?thesis by (simp add: get_put_fs_long)
next
  case False
  have "umem (put_fs_long v (a + 4 * of_nat n) s) (a + 4 * of_nat m + of_nat k) = umem s (a + 4 * of_nat m + of_nat k)"
    if "k < 4" for k
  proof -
    have "a + 4 * of_nat m + of_nat k = a + of_nat (4 * m + k)" by simp
    moreover have "\<not> (4 * n \<le> 4 * m + k \<and> 4 * m + k < 4 * n + 4)" using that False by arith
    moreover have "4 * m + k < 2 ^ 32" using that assms(2) by simp
    ultimately show ?thesis using umem_put_fs_long [OF assms(1), of "4 * m + k" v a s] by (simp only: if_False)
  qed
  from this [of 0] this [of 1] this [of 2] this [of 3] False show ?thesis
    by (simp add: get_fs_long_def le32_def)
qed

lemma push_longs_snoc:
  "push_longs a (vs @ [v]) s = put_fs_long v (a + 4 * of_nat (length vs)) (push_longs a vs s)"
  by (simp add: push_longs_def enumerate_append_eq)

lemma get_push_longs:
  assumes "k < length vs" "4 * length vs < 2 ^ 32"
  shows "get_fs_long (a + 4 * of_nat k) (push_longs a vs s) = vs ! k"
  using assms
proof (induction vs rule: rev_induct)
  case Nil
  then show ?case by simp
next
  case (snoc v vs)
  then show ?case
    by (auto simp: push_longs_snoc get_fs_long_put nth_append)
qed

lemma push_longs_other: "tstruct (push_longs a vs s) = tstruct s" "current (push_longs a vs s) = current s"
  by (induction vs rule: rev_induct) (simp_all add: push_longs_snoc push_longs_def [of _ "[]"] put_fs_long_def)

text \<open>C16: When a task has a handler for a signal, \<^verbatim>\<open>do_signal\<close> arranges that the task resumes in the handler
  with a frame on its user stack that holds everything needed to go back: at the new stack pointer lie,
  word by word, the restorer, the signal number, the signals blocked so far unless the handler runs
  with \<^verbatim>\<open>SA_NOMASK\<close>, the registers, the flags and the interrupted address. The handler's mask is
  blocked, and a one-shot handler is reset.\<close>

theorem do_signal_frame:
  assumes d: "do_signal signr eax r s = Ret (eip, esp) t"
    and h: "sa_handler (t_sigaction (cur s) (signr - 1)) \<noteq> 0" "sa_handler (t_sigaction (cur s) (signr - 1)) \<noteq> 1"
  defines "sa \<equiv> t_sigaction (cur s) (signr - 1)"
  defines "frame \<equiv> signal_frame sa signr (t_blocked (cur s)) eax r"
  shows "eip = sa_handler sa \<and> esp = reg_esp r - 4 * of_nat (length frame) \<and>
    map (\<lambda>k. get_fs_long (esp + 4 * of_nat k) t) [0..<length frame] = frame \<and>
    t_blocked (cur t) = t_blocked (cur s) OR sa_mask sa \<and>
    sa_handler (t_sigaction (cur t) (signr - 1)) = (if sa_flags sa AND SA_ONESHOT \<noteq> 0 then 0 else sa_handler sa)"
proof -
  define sa' where "sa' = (if sa_flags sa AND SA_ONESHOT \<noteq> 0 then sa\<lparr>sa_handler := 0\<rparr> else sa)"
  have same: "sa_flags sa' = sa_flags sa" "sa_mask sa' = sa_mask sa" "sa_restorer sa' = sa_restorer sa"
    by (simp_all add: sa'_def)
  define longs :: u32 where "longs = (if sa_flags sa AND SA_NOMASK \<noteq> 0 then 7 else 8)"
  have len: "of_nat (length frame) = longs" "length frame \<le> 8"
    by (simp_all add: frame_def signal_frame_def longs_def)
  let ?s = "set_sigaction (signr - 1) sa' s" let ?e = "reg_esp r - 4 * longs"
  have h': "sa_handler sa \<noteq> 0" "sa_handler sa \<noteq> 1" using h by (simp_all add: sa_def)
  have "do_signal signr eax r s = kbind (verify_area ?e (uint longs * 4) ?s) (\<lambda>_ s.
      let s = push_longs ?e (signal_frame sa' signr (t_blocked (cur s)) eax r) s in
      Ret (sa_handler sa, ?e) (upd_cur (\<lambda>p. p\<lparr>t_blocked := t_blocked p OR sa_mask sa'\<rparr>) s))"
    unfolding do_signal_def Let_def sa_def [symmetric] if_not_P [OF h'(1)] if_not_P [OF h'(2)]
      sa'_def [symmetric] same longs_def [symmetric] by (rule refl)
  with d obtain u where u: "verify_area ?e (uint longs * 4) ?s = Ret () u"
    and t: "eip = sa_handler sa" "esp = ?e"
      "t = upd_cur (\<lambda>p. p\<lparr>t_blocked := t_blocked p OR sa_mask sa'\<rparr>)
             (push_longs ?e (signal_frame sa' signr (t_blocked (cur u)) eax r) u)"
    by (auto simp: kbind_eq_Ret_iff Let_def)
  have mm: "mm_only ?s u" using mm_only_verify_area [of ?s ?e "uint longs * 4"] u by simp
  have cu: "cur u = (cur s)\<lparr>t_sigaction := (t_sigaction (cur s))(signr - 1 := sa')\<rparr>"
    using mm_only_sel(9) [OF mm] by (simp add: set_sigaction_def cur_def)
  have fr: "signal_frame sa' signr (t_blocked (cur u)) eax r = frame"
    by (simp add: frame_def signal_frame_def same cu)
  have "umem t = umem (push_longs ?e frame u)" by (simp add: t(3) fr upd_cur_def upd_task_def)
  then have "get_fs_long a t = get_fs_long a (push_longs ?e frame u)" for a by (simp add: get_fs_long_def)
  then have "map (\<lambda>k. get_fs_long (esp + 4 * of_nat k) t) [0..<length frame] = frame"
    using len(2) by (intro nth_equalityI) (simp_all add: t(2) get_push_longs)
  moreover have "cur t = (cur u)\<lparr>t_blocked := t_blocked (cur u) OR sa_mask sa\<rparr>"
    by (simp add: t(3) cur_def push_longs_other same)
  ultimately show ?thesis using t(1,2) len(1) by (simp add: cu sa'_def)
qed

definition one_handler :: kernel where
  "one_handler = k0\<lparr>tstruct := (\<lambda>_. zero_task\<lparr>t_sigaction :=
     (\<lambda>_. \<lparr>sa_handler = 0x500, sa_mask = 2, sa_flags = 0x80000000, sa_restorer = 0x600\<rparr>)\<rparr>)\<rparr>"

definition some_regs :: regs where
  "some_regs = \<lparr>reg_ebp = 1, reg_edi = 2, reg_esi = 3, reg_gs = 4, reg_ebx = 5, reg_ecx = 6, reg_edx = 7,
     reg_fs = 8, reg_es = 9, reg_ds = 10, reg_eip = 0x700, reg_cs = 15, reg_eflags = 12, reg_esp = 0x1000,
     reg_ss = 23\<rparr>"

theorem do_signal_frame_witness:
  "\<exists>esp t. do_signal 2 9 some_regs one_handler = Ret (0x500, esp) t \<and>
     map (\<lambda>k. get_fs_long (esp + 4 * of_nat k) t) [0..<8] = [0x600, 2, 0, 9, 6, 7, 12, 0x700]"
proof -
  have v: "verify_area 0xfe0 32 s = Ret () s" if "phys s = (\<lambda>_. 0)" for s
    using that by (simp add: verify_area_def wrap32_def write_verify_def Let_def)
  have p: "phys (set_sigaction k a one_handler) = (\<lambda>_. 0)" for k a
    by (simp add: set_sigaction_def one_handler_def k0_def upd_cur_def upd_task_def)
  let ?sa = "\<lparr>sa_handler = 0x500, sa_mask = 2, sa_flags = 0x80000000, sa_restorer = 0x600\<rparr> :: sigaction"
  have sa: "t_sigaction (cur one_handler) k = ?sa" "t_blocked (cur one_handler) = 0" for k
    by (simp_all add: one_handler_def cur_def zero_task_def)
  have "\<exists>t. do_signal 2 9 some_regs one_handler = Ret (0x500, 0xfe0) t"
    by (simp add: do_signal_def sa some_regs_def v p Let_def)
  then obtain t where t: "do_signal 2 9 some_regs one_handler = Ret (0x500, 0xfe0) t" ..
  have fr: "signal_frame ?sa 2 0 9 some_regs = [0x600, 2, 0, 9, 6, 7, 12, 0x700]"
    by (simp add: signal_frame_def some_regs_def)
  show ?thesis
    using do_signal_frame [OF t, unfolded sa fr] t by (auto simp: upt_rec [of _ 8])
qed

end
