(* ===== verification/Traps.thy ===== *)
theory Traps
  imports Process
begin

text \<open>
  kernel/traps.c, the gate macros of include/asm/system.h, and the interrupt descriptor table as the start-up code fills it:
  \<^verbatim>\<open>setup_idt\<close> of boot/head.s, \<^verbatim>\<open>trap_init\<close>, and the gates that \<^verbatim>\<open>tty_init\<close> (through \<^verbatim>\<open>rs_init\<close> and \<^verbatim>\<open>con_init\<close>),
  \<^verbatim>\<open>sched_init\<close>, \<^verbatim>\<open>hd_init\<close> and \<^verbatim>\<open>floppy_init\<close> set in the order in which \<^verbatim>\<open>main\<close> calls them. The addresses that the linker
  gives to the handlers are the parameter \<open>addr\<close>; the masks of the interrupt controller are not part of the table.
\<close>

subsection \<open>Gates\<close>

datatype handler =
    Ignore_int | Divide_error | Debug | Nmi | Int3 | Overflow | Bounds | Invalid_op | Device_not_available | Double_fault
  | Coprocessor_segment_overrun | Invalid_TSS | Segment_not_present | Stack_segment | General_protection | Page_fault
  | Coprocessor_error | Reserved | Irq13 | Parallel_interrupt | Timer_interrupt | Keyboard_interrupt | Rs1_interrupt
  | Rs2_interrupt | Floppy_irq | Hd_irq | System_call

type_synonym idt = "nat \<Rightarrow> desc_struct"

definition set_gate :: "u32 \<Rightarrow> u32 \<Rightarrow> u32 \<Rightarrow> desc_struct" where
  "set_gate ty dpl addr =
     \<lparr>desc_a = 0x00080000 OR (addr AND 0xffff),
      desc_b = (addr AND 0xffff0000) OR (0x8000 + push_bit 13 dpl + push_bit 8 ty)\<rparr>"

definition set_intr_gate :: "nat \<Rightarrow> u32 \<Rightarrow> idt \<Rightarrow> idt" where
  "set_intr_gate n addr t = t(n := set_gate 14 0 addr)"

definition set_trap_gate :: "nat \<Rightarrow> u32 \<Rightarrow> idt \<Rightarrow> idt" where
  "set_trap_gate n addr t = t(n := set_gate 15 0 addr)"

definition set_system_gate :: "nat \<Rightarrow> u32 \<Rightarrow> idt \<Rightarrow> idt" where
  "set_system_gate n addr t = t(n := set_gate 15 3 addr)"

subsection \<open>Filling the table\<close>

definition setup_idt :: "(handler \<Rightarrow> u32) \<Rightarrow> idt \<Rightarrow> idt" where
  "setup_idt addr t =
     (\<lambda>n. if n < 256 then \<lparr>desc_a = 0x00080000 OR (addr Ignore_int AND 0xffff),
                           desc_b = (addr Ignore_int AND 0xffff0000) OR 0x8E00\<rparr> else t n)"

definition trap_init :: "(handler \<Rightarrow> u32) \<Rightarrow> idt \<Rightarrow> idt" where
  "trap_init addr t =
     (let t = set_trap_gate 0 (addr Divide_error) t;
          t = set_trap_gate 1 (addr Debug) t;
          t = set_trap_gate 2 (addr Nmi) t;
          t = set_system_gate 3 (addr Int3) t;
          t = set_system_gate 4 (addr Overflow) t;
          t = set_system_gate 5 (addr Bounds) t;
          t = set_trap_gate 6 (addr Invalid_op) t;
          t = set_trap_gate 7 (addr Device_not_available) t;
          t = set_trap_gate 8 (addr Double_fault) t;
          t = set_trap_gate 9 (addr Coprocessor_segment_overrun) t;
          t = set_trap_gate 10 (addr Invalid_TSS) t;
          t = set_trap_gate 11 (addr Segment_not_present) t;
          t = set_trap_gate 12 (addr Stack_segment) t;
          t = set_trap_gate 13 (addr General_protection) t;
          t = set_trap_gate 14 (addr Page_fault) t;
          t = set_trap_gate 15 (addr Reserved) t;
          t = set_trap_gate 16 (addr Coprocessor_error) t;
          t = fold (\<lambda>i. set_trap_gate i (addr Reserved)) [17..<48] t;
          t = set_trap_gate 45 (addr Irq13) t in
      set_trap_gate 39 (addr Parallel_interrupt) t)"

definition rs_init_gates :: "(handler \<Rightarrow> u32) \<Rightarrow> idt \<Rightarrow> idt" where
  "rs_init_gates addr t = set_intr_gate 0x23 (addr Rs2_interrupt) (set_intr_gate 0x24 (addr Rs1_interrupt) t)"

definition con_init_gate :: "(handler \<Rightarrow> u32) \<Rightarrow> idt \<Rightarrow> idt" where
  "con_init_gate addr t = set_trap_gate 0x21 (addr Keyboard_interrupt) t"

definition sched_init_gates :: "(handler \<Rightarrow> u32) \<Rightarrow> idt \<Rightarrow> idt" where
  "sched_init_gates addr t = set_system_gate 0x80 (addr System_call) (set_intr_gate 0x20 (addr Timer_interrupt) t)"

definition hd_init_gate :: "(handler \<Rightarrow> u32) \<Rightarrow> idt \<Rightarrow> idt" where
  "hd_init_gate addr t = set_intr_gate 0x2E (addr Hd_irq) t"

definition floppy_init_gate :: "(handler \<Rightarrow> u32) \<Rightarrow> idt \<Rightarrow> idt" where
  "floppy_init_gate addr t = set_trap_gate 0x26 (addr Floppy_irq) t"

definition boot_idt :: "(handler \<Rightarrow> u32) \<Rightarrow> idt \<Rightarrow> idt" where
  "boot_idt addr t =
     floppy_init_gate addr (hd_init_gate addr (sched_init_gates addr (con_init_gate addr (rs_init_gates addr
       (trap_init addr (setup_idt addr t))))))"

subsection \<open>The handlers\<close>

text \<open>\<^verbatim>\<open>die\<close> prints the registers and ends the task; the printing has no effect on the state of the model.\<close>

definition die :: "env \<Rightarrow> kernel \<Rightarrow> unit kres" where
  "die E s = kbind (do_exit E 11 s) (\<lambda>_ s. Ret () s)"

text \<open>The C parts of the handlers, \<^verbatim>\<open>do_double_fault\<close> to \<^verbatim>\<open>do_reserved\<close>: \<^verbatim>\<open>do_int3\<close> only prints, \<^verbatim>\<open>do_coprocessor_error\<close> ignores
  an error that another task has caused, and all others end the task. \<open>None\<close> for a handler that has no routine in traps.c.\<close>

definition do_trap :: "env \<Rightarrow> handler \<Rightarrow> kernel \<Rightarrow> unit kres option" where
  "do_trap E h s =
     (if h = Int3 then Some (Ret () s)
      else if h = Coprocessor_error then Some (if last_task_used_math s \<noteq> current s then Ret () s else die E s)
      else if h \<in> {Double_fault, General_protection, Divide_error, Nmi, Debug, Overflow, Bounds, Invalid_op, Device_not_available,
          Coprocessor_segment_overrun, Invalid_TSS, Segment_not_present, Stack_segment, Reserved} then Some (die E s)
      else None)"

subsection \<open>What the processor finds in the table\<close>

text \<open>The fields of a gate: address of the handler, code segment, privilege level, type and presence.\<close>

definition gate_fields :: "desc_struct \<Rightarrow> u32 \<times> u32 \<times> u32 \<times> u32 \<times> bool" where
  "gate_fields d =
     ((desc_b d AND 0xffff0000) OR (desc_a d AND 0xffff), drop_bit 16 (desc_a d), drop_bit 13 (desc_b d) AND 3,
      drop_bit 8 (desc_b d) AND 0x1f, bit (desc_b d) 15)"

lemma gate_word:
  fixes a w :: u32
  assumes "w = 0x8E00 \<or> w = 0x8F00 \<or> w = 0xEF00"
  shows "((a AND 0xffff0000) OR w) AND 0xffff0000 OR ((0x00080000 OR (a AND 0xffff)) AND 0xffff) = a"
    "drop_bit 16 (0x00080000 OR (a AND 0xffff)) = (8 :: u32)"
    "drop_bit 13 ((a AND 0xffff0000) OR w) AND 3 = drop_bit 13 w AND 3"
    "drop_bit 8 ((a AND 0xffff0000) OR w) AND 0x1f = drop_bit 8 w AND 0x1f"
    "bit ((a AND 0xffff0000) OR w) 15"
  using assms unfolding desc_masks(2,5)
  by (elim disjE; (intro bits32)?, simp add: bit_simps bit32_high)+

lemma gate_fields_gates [simp]:
  "gate_fields (set_gate 14 0 a) = (a, 8, 0, 14, True)" "gate_fields (set_gate 15 0 a) = (a, 8, 0, 15, True)"
  "gate_fields (set_gate 15 3 a) = (a, 8, 3, 15, True)"
  using gate_word(1,3-5) [where a = a and w = "0x8E00"] gate_word(1,3-5) [where a = a and w = "0x8F00"]
    gate_word(1,3-5) [where a = a and w = "0xEF00"] gate_word(2) [of "0x8E00" a]
  by (simp_all add: gate_fields_def set_gate_def)

lemma setup_idt_gate: "n < 256 \<Longrightarrow> setup_idt addr t n = set_gate 14 0 (addr Ignore_int)"
  by (simp add: setup_idt_def set_gate_def)

lemma fold_set_trap_gate: "fold (\<lambda>i. set_trap_gate i a) ns t = (\<lambda>n. if n \<in> set ns then set_gate 15 0 a else t n)"
  by (induction ns arbitrary: t) (auto simp: set_trap_gate_def fun_eq_iff)

text \<open>The handler of every vector, and the vectors that a program in user mode may call.\<close>

definition vector_handler :: "nat \<Rightarrow> handler" where
  "vector_handler n =
     (if n < 17 then [Divide_error, Debug, Nmi, Int3, Overflow, Bounds, Invalid_op, Device_not_available, Double_fault,
        Coprocessor_segment_overrun, Invalid_TSS, Segment_not_present, Stack_segment, General_protection, Page_fault, Reserved,
        Coprocessor_error] ! n
      else if n = 0x20 then Timer_interrupt else if n = 0x21 then Keyboard_interrupt else if n = 0x23 then Rs2_interrupt
      else if n = 0x24 then Rs1_interrupt else if n = 0x26 then Floppy_irq else if n = 0x27 then Parallel_interrupt
      else if n = 0x2D then Irq13 else if n = 0x2E then Hd_irq else if n < 48 then Reserved
      else if n = 0x80 then System_call else Ignore_int)"

definition user_callable :: "nat \<Rightarrow> bool" where
  "user_callable n \<longleftrightarrow> n = 3 \<or> n = 4 \<or> n = 5 \<or> n = 0x80"

text \<open>The type of the gate of every vector: 14, an interrupt gate, which the handler enters with interrupts off, for the timer, the
  serial lines, the hard disk and the vectors that nothing uses; 15, a trap gate, for all others.\<close>

definition vector_type :: "nat \<Rightarrow> u32" where
  "vector_type n = (if n \<in> {0x20, 0x23, 0x24, 0x2E} \<or> 48 \<le> n \<and> n \<noteq> 0x80 then 14 else 15)"

lemma boot_idt_gate:
  assumes "n < 256"
  shows "gate_fields (boot_idt addr t n) =
    (addr (vector_handler n), 8, if user_callable n then 3 else 0, vector_type n, True)"
proof -
  note table = boot_idt_def floppy_init_gate_def hd_init_gate_def sched_init_gates_def con_init_gate_def rs_init_gates_def
    set_intr_gate_def set_trap_gate_def set_system_gate_def
  consider (low) "n < 17" | (mid) "17 \<le> n" "n < 48" | (high) "48 \<le> n" by linarith
  then show ?thesis
  proof cases
    case low
    then have "n \<in> set [0..<17]" by simp
    moreover have "[0..<17] = [0, 1, 2, 3, 4, 5, 6, 7, 8, 9, 10, 11, 12, 13, 14, 15, 16]" by code_simp
    ultimately have "n \<in> {0, 1, 2, 3, 4, 5, 6, 7, 8, 9, 10, 11, 12, 13, 14, 15, 16}" by simp
    then show ?thesis
      by (elim insertE emptyE) (simp_all add: table trap_init_def Let_def fold_set_trap_gate vector_handler_def user_callable_def vector_type_def)
  next
    case mid
    then show ?thesis by (simp add: table trap_init_def Let_def fold_set_trap_gate vector_handler_def user_callable_def vector_type_def del: upt_rec_numeral)
  next
    case high
    then show ?thesis using assms
      by (simp add: table trap_init_def Let_def fold_set_trap_gate vector_handler_def user_callable_def vector_type_def setup_idt_gate del: upt_rec_numeral)
  qed
qed

text \<open>C34: After the start-up every entry of the interrupt descriptor table is a present gate into the kernel's code segment whose
  address fields give the entry point of the handler meant for the vector; it is an interrupt gate for the timer, the serial
  lines, the hard disk and the unused vectors and a trap gate for the others; and a program in user mode can call exactly the
  vectors 3 to 5 and the system call 0x80 itself.\<close>

theorem boot_idt_gates:
  assumes "n < 256"
  shows "gate_fields (boot_idt addr t n) =
    (addr (vector_handler n), 8, if user_callable n then 3 else 0, vector_type n, True)"
  using assms by (rule boot_idt_gate)

theorem boot_idt_gates_witness:
  "gate_fields (boot_idt (\<lambda>h. if h = System_call then 0x1234ABCD else 0) (\<lambda>_. zero_desc) 0x80) = (0x1234ABCD, 8, 3, 15, True)"
  using boot_idt_gates [of "0x80" "\<lambda>h. if h = System_call then 0x1234ABCD else 0" "\<lambda>_. zero_desc"]
  by (simp add: vector_handler_def user_callable_def vector_type_def)

end
