(* ===== verification/Serial.thy ===== *)
theory Serial
  imports Tty
begin

text \<open>
  The serial lines: kernel/chr_drv/serial.c and the interrupt routines of kernel/chr_drv/rs_io.s. The ports of the two
  controllers are a stream of answers, \<open>rs_ins p k\<close> for the \<open>k\<close>-th read when it goes to port \<open>p\<close>, and the list \<open>rs_outs\<close> of
  what was written; the base port of a line is \<^verbatim>\<open>data\<close> of its queues.
\<close>

subsection \<open>State\<close>

record rs_ports =
  rs_outs :: "(u32 \<times> u8) list"
  rs_ins :: "u32 \<Rightarrow> nat \<Rightarrow> u8"
  rs_nins :: nat

definition rs_inb :: "u32 \<Rightarrow> rs_ports \<Rightarrow> u8 \<times> rs_ports" where
  "rs_inb port r = (rs_ins r port (rs_nins r), r\<lparr>rs_nins := rs_nins r + 1\<rparr>)"

definition rs_outb :: "(u32 \<times> u8) list \<Rightarrow> rs_ports \<Rightarrow> rs_ports" where
  "rs_outb bs r = r\<lparr>rs_outs := rs_outs r @ bs\<rparr>"

subsection \<open>Initialisation and output\<close>

definition rs_port_init :: "u32 \<Rightarrow> rs_ports \<Rightarrow> rs_ports" where
  "rs_port_init port r =
     snd (rs_inb port (rs_outb [(port + 3, 0x80), (port, 0x30), (port + 1, 0x00), (port + 3, 0x03), (port + 4, 0x0b), (port + 1, 0x0d)] r))"

definition rs_init :: "kernel \<Rightarrow> rs_ports \<Rightarrow> rs_ports" where
  "rs_init s r =
     (let r = rs_port_init (q_data (read_q (tty_table s 1))) r;
          r = rs_port_init (q_data (read_q (tty_table s 2))) r;
          (v, r) = rs_inb 0x21 r in
      rs_outb [(0x21, v AND 0xE7)] r)"

definition rs_write :: "nat \<Rightarrow> kernel \<Rightarrow> rs_ports \<Rightarrow> rs_ports" where
  "rs_write n s r =
     (let q = write_q (tty_table s n) in
      if q_head q = q_tail q then r
      else let (v, r) = rs_inb (q_data q + 1) r in rs_outb [(q_data q + 1, v OR 0x02)] r)"

subsection \<open>Interrupts\<close>

text \<open>\<^verbatim>\<open>movl $0,(%ebx)\<close> on the task in \<^verbatim>\<open>proc_list\<close>: it becomes runnable but stays in the queue.\<close>

definition wake_writer :: "nat \<Rightarrow> kernel \<Rightarrow> kernel" where
  "wake_writer n s = (if wq s (Write_list n) = 0 then s else upd_task (wq s (Write_list n)) (\<lambda>p. p\<lparr>t_state := 0\<rparr>) s)"

definition write_buffer_empty :: "nat \<Rightarrow> u32 \<Rightarrow> kernel \<Rightarrow> rs_ports \<Rightarrow> kernel \<times> rs_ports" where
  "write_buffer_empty n port s r =
     (let s = wake_writer n s;
          (v, r) = rs_inb (port + 1) r in
      (s, rs_outb [(port + 1, v AND 0xd)] r))"

definition write_char :: "nat \<Rightarrow> u32 \<Rightarrow> kernel \<Rightarrow> rs_ports \<Rightarrow> kernel \<times> rs_ports" where
  "write_char n port s r =
     (let q = write_q (tty_table s n) in
      if CHARS q = 0 then write_buffer_empty n port s r
      else
        let s = (if CHARS q > 256 then s else wake_writer n s);
            (c, q) = GETCH q;
            r = rs_outb [(port, c)] r;
            s = upd_tty n (\<lambda>t. t\<lparr>write_q := q\<rparr>) s in
        if q_tail q = q_head q then write_buffer_empty n port s r else (s, r))"

definition rs_put :: "u8 \<Rightarrow> tty_queue \<Rightarrow> tty_queue" where
  "rs_put c q =
     (let b = q\<lparr>q_buf := (q_buf q)(unat (q_head q) := c)\<rparr> in
      if inc_index (q_head q) = q_tail q then b else b\<lparr>q_head := inc_index (q_head q)\<rparr>)"

definition read_char :: "env \<Rightarrow> nat \<Rightarrow> u32 \<Rightarrow> rs_ports \<Rightarrow> kernel \<Rightarrow> rs_ports kres" where
  "read_char E n port r s =
     (let (c, r) = rs_inb port r;
          s = upd_tty n (\<lambda>t. t\<lparr>read_q := rs_put c (read_q t)\<rparr>) s in
      kbind (do_tty_interrupt E n s) (\<lambda>_ s. Ret r s))"

text \<open>One round from \<^verbatim>\<open>rep_int\<close>: the interrupt identification selects the routine; \<open>Inr\<close> ends the loop.\<close>

definition rs_int_step :: "env \<Rightarrow> nat \<Rightarrow> u32 \<Rightarrow> rs_ports \<Rightarrow> kernel \<Rightarrow> (kernel, rs_ports + rs_ports) outcome" where
  "rs_int_step E n port r s =
     (let (iir, r) = rs_inb (port + 2) r in
      if iir AND 1 \<noteq> 0 \<or> iir > 6 then Ret (Inr r) s
      else if iir = 0 then Ret (Inl (snd (rs_inb (port + 6) r))) s
      else if iir = 2 then (let (s, r) = write_char n port s r in Ret (Inl r) s)
      else if iir = 4 then kbind (read_char E n port r s) (\<lambda>r s. Ret (Inl r) s)
      else Ret (Inl (snd (rs_inb (port + 5) r))) s)"

definition rs_interrupt :: "env \<Rightarrow> nat \<Rightarrow> rs_ports \<Rightarrow> kernel \<Rightarrow> rs_ports kres" where
  "rs_interrupt E n r s =
     kbind (kwhile (fuel E) (rs_int_step E n (q_data (read_q (tty_table s n)))) r s) (\<lambda>r s.
       Ret (rs_outb [(0x20, 0x20)] r) s)"

subsection \<open>The order of the output\<close>

lemma wake_writer_tty [simp]: "tty_table (wake_writer n s) = tty_table s"
  by (simp add: wake_writer_def upd_task_def)

lemma CHARS_0: "q_ok q \<Longrightarrow> CHARS q = 0 \<longleftrightarrow> q_items q = []"
  using length_q_items [of q] by (metis length_0_conv unat_eq_0)

lemma q_items_Nil: "q_ok q \<Longrightarrow> q_tail q = q_head q \<longleftrightarrow> q_items q = []"
  using chars_value [of q] length_q_items [of q]
  by (auto simp: word_le_nat_alt word_unat_eq_iff q_ok_def word_less_nat_alt simp flip: length_0_conv split: if_splits)

lemma write_char_sends:
  assumes q: "q_ok (write_q (tty_table s n))" "q_items (write_q (tty_table s n)) = b # bs"
  shows "\<exists>s' r'. write_char n port s r = (s', r') \<and> q_ok (write_q (tty_table s' n)) \<and> q_items (write_q (tty_table s' n)) = bs \<and>
    rs_ins r' = rs_ins r \<and>
    (bs = [] \<longrightarrow> rs_outs r' = rs_outs r @ [(port, b), (port + 1, rs_ins r (port + 1) (rs_nins r) AND 0xd)] \<and> rs_nins r' = rs_nins r + 1) \<and>
    (bs \<noteq> [] \<longrightarrow> rs_outs r' = rs_outs r @ [(port, b)] \<and> rs_nins r' = rs_nins r)"
proof -
  let ?q = "write_q (tty_table s n)"
  obtain c q' where g: "GETCH ?q = (c, q')" by (cases "GETCH ?q")
  have "c = b" "q_items q' = bs" "q_ok q'"
    using ttyq.items_get [OF q(1)] ttyq.get_ok [OF q(1)] q(2) g by auto
  moreover have "CHARS ?q \<noteq> 0" using q by (simp add: CHARS_0)
  ultimately show ?thesis
    by (simp add: write_char_def g Let_def write_buffer_empty_def rs_inb_def rs_outb_def upd_tty_def q_items_Nil)
qed

lemma rs_loop_sends:
  assumes "q_ok (write_q (tty_table s n))" "q_items (write_q (tty_table s n)) = bs" "bs \<noteq> []" "length bs < N"
    "\<forall>i<length bs. rs_ins r (port + 2) (rs_nins r + i) = 2" "rs_ins r (port + 2) (rs_nins r + length bs + 1) AND 1 \<noteq> 0"
  shows "\<exists>r' s'. kwhile N (rs_int_step E n port) r s = Ret r' s' \<and> q_items (write_q (tty_table s' n)) = [] \<and>
    rs_outs r' = rs_outs r @ map (Pair port) bs @ [(port + 1, rs_ins r (port + 1) (rs_nins r + length bs) AND 0xd)]"
  using assms
proof (induction bs arbitrary: s r N)
  case (Cons b bs)
  let ?r = "r\<lparr>rs_nins := rs_nins r + 1\<rparr>"
  obtain s1 r1 where w: "write_char n port s ?r = (s1, r1)" "q_ok (write_q (tty_table s1 n))" "q_items (write_q (tty_table s1 n)) = bs"
    "rs_ins r1 = rs_ins r"
    "bs = [] \<Longrightarrow> rs_outs r1 = rs_outs r @ [(port, b), (port + 1, rs_ins r (port + 1) (rs_nins r + 1) AND 0xd)] \<and> rs_nins r1 = rs_nins r + 2"
    "bs \<noteq> [] \<Longrightarrow> rs_outs r1 = rs_outs r @ [(port, b)] \<and> rs_nins r1 = rs_nins r + 1"
    using write_char_sends [OF Cons.prems(1,2), of port ?r] by auto
  have iir: "rs_ins r (port + 2) (rs_nins r) = 2" using Cons.prems(5) [rule_format, of 0] by simp
  have N: "0 < N" "0 < N - 1" "length bs < N - 1" using Cons.prems(4) by auto
  have st: "rs_int_step E n port r s = Ret (Inl r1) s1" using iir w(1) by (simp add: rs_int_step_def rs_inb_def)
  then have k: "kwhile N (rs_int_step E n port) r s = kwhile (N - 1) (rs_int_step E n port) r1 s1" using N by (simp add: kwhile_unfold)
  show ?case
  proof (cases bs)
    case Nil
    then have e: "rs_ins r1 (port + 2) (rs_nins r1) AND 1 \<noteq> 0" using Cons.prems(6) w(4,5) by simp
    then have "rs_int_step E n port r1 s1 = Ret (Inr (r1\<lparr>rs_nins := rs_nins r1 + 1\<rparr>)) s1" by (simp add: rs_int_step_def rs_inb_def)
    then show ?thesis using k N w Nil by (auto simp: kwhile_unfold)
  next
    case (Cons b' bs')
    then have n: "rs_outs r1 = rs_outs r @ [(port, b)]" "rs_nins r1 = rs_nins r + 1" using w(6) by simp_all
    have "\<forall>i<length bs. rs_ins r1 (port + 2) (rs_nins r1 + i) = 2"
      using Cons.prems(5) unfolding n w(4) by (metis add.assoc length_Cons Suc_less_eq plus_1_eq_Suc)
    moreover have "rs_ins r1 (port + 2) (rs_nins r1 + length bs + 1) AND 1 \<noteq> 0" using Cons.prems(6) unfolding n w(4) by simp
    ultimately show ?thesis using Cons.IH [OF w(2,3) _ N(3), of r1] k n w(4) Cons by auto
  qed
qed simp

text \<open>C35: The transmit interrupt of a serial line sends the characters of the write queue, all of them and in the order of the
  queue, to the data port, as long as the controller reports an empty transmitter; when the queue has run empty the routine masks
  the transmit interrupt, and it returns after it has acknowledged the interrupt controller. This is so for every fuel beyond the
  number of the characters.\<close>

theorem serial_sends_in_order:
  assumes "q_ok (write_q (tty_table s n))" "q_items (write_q (tty_table s n)) = bs" "bs \<noteq> []" "length bs < fuel E"
    and port: "port = q_data (read_q (tty_table s n))"
    and "\<forall>i<length bs. rs_ins r (port + 2) (rs_nins r + i) = 2" "rs_ins r (port + 2) (rs_nins r + length bs + 1) AND 1 \<noteq> 0"
  shows "\<exists>r' s'. rs_interrupt E n r s = Ret r' s' \<and> q_items (write_q (tty_table s' n)) = [] \<and>
    rs_outs r' = rs_outs r @ map (Pair port) bs @
      [(port + 1, rs_ins r (port + 1) (rs_nins r + length bs) AND 0xd), (0x20, 0x20)]"
  using rs_loop_sends [OF assms(1-4,6-), where E = E]
  by (auto simp: rs_interrupt_def rs_outb_def port)

theorem serial_sends_in_order_witness:
  "\<exists>r s. rs_interrupt (quiet_env 3) 1 \<lparr>rs_outs = [], rs_ins = (\<lambda>p k. if p = 0x3fa \<and> k < 2 then 2 else 15), rs_nins = 0\<rparr>
      (upd_tty 1 (\<lambda>t. t\<lparr>read_q := (read_q t)\<lparr>q_data := 0x3f8\<rparr>,
         write_q := zero_queue\<lparr>q_head := 1, q_tail := 1023, q_buf := (\<lambda>_. 0)(1023 := 72, 0 := 105)\<rparr>\<rparr>) k0) = Ret r s \<and>
    rs_outs r = [(0x3f8, 72), (0x3f8, 105), (0x3f9, 13), (0x20, 0x20)]"
proof -
  let ?r = "\<lparr>rs_outs = [], rs_ins = (\<lambda>p k. if p = 0x3fa \<and> k < 2 then 2 else 15), rs_nins = 0\<rparr> :: rs_ports"
  let ?s = "upd_tty 1 (\<lambda>t. t\<lparr>read_q := (read_q t)\<lparr>q_data := 0x3f8\<rparr>,
         write_q := zero_queue\<lparr>q_head := 1, q_tail := 1023, q_buf := (\<lambda>_. 0)(1023 := 72, 0 := 105)\<rparr>\<rparr>) k0"
  have q: "q_ok (write_q (tty_table ?s 1))" "q_items (write_q (tty_table ?s 1)) = [72, 105]"
    by (simp_all add: upd_tty_def q_ok_def q_items_def CHARS_def zero_queue_def upt_conv_Cons)
  have p: "0x3f8 = q_data (read_q (tty_table ?s 1))" by (simp add: upd_tty_def)
  show ?thesis using serial_sends_in_order [OF q _ _ p, of "quiet_env 3" ?r]
    by (auto simp: quiet_env_def less_Suc_eq)
qed

end
