(* ===== verification/Cache.thy ===== *)
theory Cache
  imports InodeIO
begin

text \<open>
  Correctness of the buffer cache of fs/buffer.c. The hash chains and the free list are doubly linked
  lists; \<open>seg\<close> says that a pair of link fields forms a list segment, and \<open>cache_ok\<close> that the links of a
  state form the chains \<open>H\<close> and the ring \<open>F\<close> of all buffers, each buffer in the chain of its block and no
  block in two buffers. The lemmas show that taking a buffer out of its queues and putting it back for
  another block is the list operation one expects, and that \<^verbatim>\<open>getblk\<close> keeps the invariant.
\<close>

subsection \<open>Doubly linked segments\<close>

fun seg :: "(nat \<Rightarrow> nat option) \<Rightarrow> (nat \<Rightarrow> nat option) \<Rightarrow> nat option \<Rightarrow> nat option \<Rightarrow> nat list \<Rightarrow>
    nat option \<Rightarrow> bool" where
  "seg nx pv pr p [] q = (p = q)"
| "seg nx pv pr p (i # is) q = (p = Some i \<and> pv i = pr \<and> seg nx pv (Some i) (nx i) is q)"

definition lastp :: "nat option \<Rightarrow> nat list \<Rightarrow> nat option" where
  "lastp pr xs = (if xs = [] then pr else Some (last xs))"

lemma lastp_simps [simp]:
  "lastp pr [] = pr" "lastp pr (xs @ [x]) = Some x" "lastp pr (x # xs) = lastp (Some x) xs"
  by (simp_all add: lastp_def)

lemma seg_append:
  "seg nx pv pr p (xs @ ys) q \<longleftrightarrow> (\<exists>m. seg nx pv pr p xs m \<and> seg nx pv (lastp pr xs) m ys q)"
  by (induction xs arbitrary: pr p) auto

lemma seg_cong:
  assumes "\<And>i. i \<in> set xs \<Longrightarrow> nx i = nx' i" "\<And>i. i \<in> set xs \<Longrightarrow> pv i = pv' i"
  shows "seg nx pv pr p xs q = seg nx' pv' pr p xs q"
  using assms by (induction xs arbitrary: pr p) auto

lemma seg_upd_other [simp]:
  "i \<notin> set xs \<Longrightarrow> seg (nx(i := v)) pv pr p xs q = seg nx pv pr p xs q"
  "i \<notin> set xs \<Longrightarrow> seg nx (pv(i := v)) pr p xs q = seg nx pv pr p xs q"
  by (auto intro!: seg_cong)

lemma seg_upd_last:
  assumes "seg nx pv pr p (xs @ [x]) q" "x \<notin> set xs"
  shows "seg (nx(x := q')) pv pr p (xs @ [x]) q'"
  using assms by (auto simp: seg_append)

lemma seg_hd: "seg nx pv pr p (x # xs) q \<Longrightarrow> p = Some x"
  by simp

lemma seg_det: "seg nx pv pr p xs q \<Longrightarrow> seg nx pv pr p xs q' \<Longrightarrow> q = q'"
  by (induction xs arbitrary: pr p) auto

text \<open>Taking \<open>i\<close> out of a segment: its successor's back link and its predecessor's forward link skip it.\<close>

lemma seg_remove:
  assumes s: "seg nx pv None p (xs @ i # ys) None" and d: "distinct (xs @ i # ys)"
  shows "seg (case lastp None xs of None \<Rightarrow> nx | Some l \<Rightarrow> nx(l := nx i))
             (case nx i of None \<Rightarrow> pv | Some n \<Rightarrow> pv(n := pv i))
             None (if xs = [] then nx i else p) (xs @ ys) None"
proof -
  from s have xs: "seg nx pv None p xs (Some i)" and pi: "pv i = lastp None xs"
    and ys: "seg nx pv (Some i) (nx i) ys None"
    by (auto simp: seg_append)
  let ?nx = "case lastp None xs of None \<Rightarrow> nx | Some l \<Rightarrow> nx(l := nx i)"
  let ?pv = "case nx i of None \<Rightarrow> pv | Some n \<Rightarrow> pv(n := pv i)"
  have ni: "nx i = (case ys of [] \<Rightarrow> None | y # _ \<Rightarrow> Some y)" using ys by (cases ys) auto
  have "seg ?nx ?pv None (if xs = [] then nx i else p) xs (nx i)"
  proof (cases xs rule: rev_cases)
    case Nil
    then show ?thesis by simp
  next
    case (snoc zs z)
    with xs d have "seg (nx(z := nx i)) pv None p xs (nx i)"
      by (auto intro: seg_upd_last)
    moreover have "seg (nx(z := nx i)) ?pv None p xs (nx i) = seg (nx(z := nx i)) pv None p xs (nx i)"
      using ni d by (cases ys) auto
    ultimately show ?thesis using snoc by simp
  qed
  moreover have "seg ?nx ?pv (lastp None xs) (nx i) ys None"
  proof (cases ys)
    case Nil
    then show ?thesis using ni by simp
  next
    case (Cons y zs)
    then have "seg nx (pv(y := pv i)) (lastp None xs) (nx i) ys None" using ys d pi by simp
    moreover have "xs \<noteq> [] \<Longrightarrow> last xs \<notin> set ys" using d last_in_set by fastforce
    then have "seg ?nx (pv(y := pv i)) (lastp None xs) (nx i) ys None =
        seg nx (pv(y := pv i)) (lastp None xs) (nx i) ys None"
      by (intro seg_cong) (auto simp: lastp_def split: option.splits)
    ultimately show ?thesis using ni Cons pi by simp
  qed
  ultimately show ?thesis by (auto simp: seg_append)
qed

lemma seg_insert_front:
  assumes "seg nx pv None p xs None" "i \<notin> set xs" "distinct xs"
  shows "seg (nx(i := p)) (case p of None \<Rightarrow> pv(i := None) | Some n \<Rightarrow> pv(i := None, n := Some i))
           None (Some i) (i # xs) None"
  using assms by (cases xs) auto

subsection \<open>Rings\<close>

definition ring :: "(nat \<Rightarrow> nat option) \<Rightarrow> (nat \<Rightarrow> nat option) \<Rightarrow> nat list \<Rightarrow> bool" where
  "ring nx pv xs \<longleftrightarrow> xs \<noteq> [] \<and> distinct xs \<and> seg nx pv (Some (last xs)) (Some (hd xs)) xs (Some (hd xs))"

lemma ring_rotate1:
  assumes "ring nx pv (x # xs)"
  shows "ring nx pv (xs @ [x])"
proof (cases xs)
  case Nil
  then show ?thesis using assms by simp
next
  case (Cons y ys)
  with assms have "seg nx pv (Some x) (Some y) xs (Some x)" "pv x = Some (last xs)" "nx x = Some y"
    by (auto simp: ring_def)
  with assms Cons show ?thesis by (auto simp: ring_def seg_append lastp_def)
qed

lemma ring_append_commute: "ring nx pv (xs @ ys) \<Longrightarrow> ring nx pv (ys @ xs)"
proof (induction xs arbitrary: ys)
  case Nil
  then show ?case by simp
next
  case (Cons x xs)
  from Cons.prems have "ring nx pv ((xs @ ys) @ [x])" using ring_rotate1 [of nx pv x "xs @ ys"] by simp
  with Cons.IH [of "ys @ [x]"] show ?case by simp
qed

lemma ring_remove_front:
  assumes "ring nx pv (i # ys)" "ys \<noteq> []"
  shows "pv i = Some (last ys)" "nx i = Some (hd ys)" "ring (nx(last ys := nx i)) (pv(hd ys := pv i)) ys"
proof -
  from assms show 1: "pv i = Some (last ys)" and 2: "nx i = Some (hd ys)"
    by (cases ys; auto simp: ring_def)+
  obtain zs z where zs: "ys = zs @ [z]" using assms(2) by (metis rev_exhaust)
  obtain y ws where ws: "ys = y # ws" using assms(2) by (cases ys) auto
  from assms have d: "distinct ys" "i \<notin> set ys" and s: "seg nx pv (Some i) (Some y) ys (Some i)"
    using ws by (auto simp: ring_def)
  have "seg nx (pv(y := Some z)) (Some z) (Some y) ys (Some i)"
    using s d ws by simp
  then have "seg (nx(z := Some y)) (pv(y := Some z)) (Some z) (Some y) ys (Some y)"
    unfolding zs using d zs by (intro seg_upd_last) simp_all
  moreover have "hd ys = y" by (simp add: ws)
  moreover have "last ys = z" by (simp add: zs)
  ultimately show "ring (nx(last ys := nx i)) (pv(hd ys := pv i)) ys"
    using 1 2 d assms(2) by (simp add: ring_def)
qed

lemma ring_insert_back:
  assumes "ring nx pv ys" "i \<notin> set ys"
  shows "pv (hd ys) = Some (last ys)"
    "ring (nx(i := Some (hd ys), last ys := Some i)) (pv(i := Some (last ys), hd ys := Some i)) (ys @ [i])"
proof -
  obtain zs z where zs: "ys = zs @ [z]" using assms(1) by (metis rev_exhaust ring_def)
  obtain y ws where ws: "ys = y # ws" using assms(1) by (cases ys) (auto simp: ring_def)
  have "hd ys = y" by (simp add: ws)
  moreover have "last ys = z" by (simp add: zs)
  ultimately have h: "hd ys = y" "last ys = z" .
  from assms have d: "distinct ys" and s: "seg nx pv (Some z) (Some y) ys (Some y)"
    using h by (auto simp: ring_def)
  from s show "pv (hd ys) = Some (last ys)" unfolding h using ws by simp
  have "seg (nx(i := Some y)) (pv(i := Some z, y := Some i)) (Some i) (Some y) ys (Some y)"
    using s d ws assms(2) by auto
  then have "seg (nx(i := Some y, z := Some i)) (pv(i := Some z, y := Some i)) (Some i) (Some y) ys (Some i)"
    unfolding zs using d zs by (intro seg_upd_last) simp_all
  moreover have "i \<noteq> z" using assms(2) by (auto simp: zs)
  moreover have "i \<noteq> y" using assms(2) by (auto simp: ws)
  ultimately show "ring (nx(i := Some (hd ys), last ys := Some i))
      (pv(i := Some (last ys), hd ys := Some i)) (ys @ [i])"
    unfolding h using d assms(2) h by (auto simp: ring_def seg_append lastp_def)
qed

lemma ring_next:
  assumes "ring nx pv (xs @ x # y # ys)"
  shows "nx x = Some y"
  using assms by (auto simp: ring_def seg_append)

lemma ring_next_last: "ring nx pv (xs @ [x]) \<Longrightarrow> nx x = Some (hd (xs @ [x]))"
  by (auto simp: ring_def seg_append)

subsection \<open>The links of a state\<close>

definition nx :: "kernel \<Rightarrow> nat \<Rightarrow> nat option" where "nx s i = b_next (bufs s i)"
definition pv :: "kernel \<Rightarrow> nat \<Rightarrow> nat option" where "pv s i = b_prev (bufs s i)"
definition nf :: "kernel \<Rightarrow> nat \<Rightarrow> nat option" where "nf s i = b_next_free (bufs s i)"
definition pf :: "kernel \<Rightarrow> nat \<Rightarrow> nat option" where "pf s i = b_prev_free (bufs s i)"
definition key :: "kernel \<Rightarrow> nat \<Rightarrow> u16 \<times> u32" where "key s i = (b_dev (bufs s i), b_blocknr (bufs s i))"

definition hash_of :: "kernel \<Rightarrow> nat \<Rightarrow> nat" where
  "hash_of s i = hashfn (fst (key s i)) (snd (key s i))"

lemma hashfn_less [simp]: "hashfn d b < NR_HASH" "hash_of s i < NR_HASH"
  by (simp_all add: hashfn_def hash_of_def)

lemma links_upd_buf [simp]:
  "nx (upd_buf j f s) = (nx s)(j := b_next (f (bufs s j)))"
  "pv (upd_buf j f s) = (pv s)(j := b_prev (f (bufs s j)))"
  "nf (upd_buf j f s) = (nf s)(j := b_next_free (f (bufs s j)))"
  "pf (upd_buf j f s) = (pf s)(j := b_prev_free (f (bufs s j)))"
  "key (upd_buf j f s) = (key s)(j := (b_dev (f (bufs s j)), b_blocknr (f (bufs s j))))"
  by (auto simp: nx_def pv_def nf_def pf_def key_def upd_buf_def fun_eq_iff)

lemma links_fold:
  "b_next (bufs s j) = nx s j" "b_prev (bufs s j) = pv s j"
  "b_next_free (bufs s j) = nf s j" "b_prev_free (bufs s j) = pf s j"
  "(b_dev (bufs s j), b_blocknr (bufs s j)) = key s j"
  by (simp_all add: nx_def pv_def nf_def pf_def key_def)

lemma links_upd_other [simp]:
  "nx (s\<lparr>hash_table := x\<rparr>) = nx s" "pv (s\<lparr>hash_table := x\<rparr>) = pv s" "nf (s\<lparr>hash_table := x\<rparr>) = nf s"
  "pf (s\<lparr>hash_table := x\<rparr>) = pf s" "key (s\<lparr>hash_table := x\<rparr>) = key s"
  "nx (s\<lparr>free_list := y\<rparr>) = nx s" "pv (s\<lparr>free_list := y\<rparr>) = pv s" "nf (s\<lparr>free_list := y\<rparr>) = nf s"
  "pf (s\<lparr>free_list := y\<rparr>) = pf s" "key (s\<lparr>free_list := y\<rparr>) = key s"
  "nx (s\<lparr>phys := z\<rparr>) = nx s" "pv (s\<lparr>phys := z\<rparr>) = pv s" "nf (s\<lparr>phys := z\<rparr>) = nf s"
  "pf (s\<lparr>phys := z\<rparr>) = pf s" "key (s\<lparr>phys := z\<rparr>) = key s"
  by (auto simp: nx_def pv_def nf_def pf_def key_def fun_eq_iff)

lemma upd_buf_other [simp]:
  "hash_table (upd_buf j f s) = hash_table s" "free_list (upd_buf j f s) = free_list s"
  "NR_BUFFERS (upd_buf j f s) = NR_BUFFERS s"
  by (simp_all add: upd_buf_def)

definition hashed :: "kernel \<Rightarrow> (nat \<Rightarrow> nat list) \<Rightarrow> bool" where
  "hashed s H \<longleftrightarrow> (\<forall>h<NR_HASH. seg (nx s) (pv s) None (hash_table s h) (H h) None \<and> distinct (H h) \<and>
     (\<forall>i\<in>set (H h). hash_of s i = h))"

definition freed :: "kernel \<Rightarrow> nat list \<Rightarrow> bool" where
  "freed s F \<longleftrightarrow> ring (nf s) (pf s) F \<and> free_list s = Some (hd F)"

text \<open>The two halves of \<^verbatim>\<open>remove_from_queues\<close> and of \<^verbatim>\<open>insert_into_queues\<close>.\<close>

definition unhash :: "nat \<Rightarrow> kernel \<Rightarrow> kernel" where
  "unhash i s =
     (let s = (case nx s i of None \<Rightarrow> s | Some n \<Rightarrow> upd_buf n (\<lambda>b. b\<lparr>b_prev := pv s i\<rparr>) s);
          s = (case pv s i of None \<Rightarrow> s | Some p \<Rightarrow> upd_buf p (\<lambda>b. b\<lparr>b_next := nx s i\<rparr>) s) in
      if hash_table s (hash_of s i) = Some i
      then s\<lparr>hash_table := (hash_table s)(hash_of s i := nx s i)\<rparr> else s)"

definition unfree :: "nat \<Rightarrow> kernel \<Rightarrow> unit kres" where
  "unfree i s = (case (pf s i, nf s i) of
     (Some p, Some n) \<Rightarrow>
       let s = upd_buf p (\<lambda>b. b\<lparr>b_next_free := nf s i\<rparr>) s;
           s = upd_buf n (\<lambda>b. b\<lparr>b_prev_free := pf s i\<rparr>) s in
       Ret () (if free_list s = Some i then s\<lparr>free_list := nf s i\<rparr> else s)
   | _ \<Rightarrow> Panic ''Free block list corrupted'' s)"

lemma remove_from_queues_halves: "remove_from_queues i s = unfree i (unhash i s)"
  unfolding remove_from_queues_def unfree_def unhash_def Let_def nx_def pv_def nf_def pf_def
    hash_of_def key_def fst_conv snd_conv by (rule refl)

definition enhash :: "nat \<Rightarrow> kernel \<Rightarrow> kernel" where
  "enhash i s =
     (let s = upd_buf i (\<lambda>b. b\<lparr>b_prev := None, b_next := None\<rparr>) s in
      if b_dev (bufs s i) = 0 then s
      else let h = hash_of s i;
               s = upd_buf i (\<lambda>b. b\<lparr>b_next := hash_table s h\<rparr>) s;
               s = s\<lparr>hash_table := (hash_table s)(h := Some i)\<rparr> in
        (case nx s i of
           None \<Rightarrow> s\<lparr>phys := (phys s)(20 := buf_addr i s)\<rparr>
         | Some n \<Rightarrow> upd_buf n (\<lambda>b. b\<lparr>b_prev := Some i\<rparr>) s))"

definition enfree :: "nat \<Rightarrow> nat \<Rightarrow> nat \<Rightarrow> kernel \<Rightarrow> kernel" where
  "enfree i f l s =
     (let s = upd_buf i (\<lambda>b. b\<lparr>b_next_free := Some f\<rparr>) s;
          s = upd_buf i (\<lambda>b. b\<lparr>b_prev_free := pf s f\<rparr>) s;
          s = upd_buf l (\<lambda>b. b\<lparr>b_next_free := Some i\<rparr>) s in
      upd_buf f (\<lambda>b. b\<lparr>b_prev_free := Some i\<rparr>) s)"

lemma insert_into_queues_halves:
  assumes "free_list s = Some f" "pf s f = Some l" "f \<noteq> i"
  shows "insert_into_queues i s = Ret () (enhash i (enfree i f l s))"
proof -
  have p: "b_prev_free (bufs (upd_buf i g (upd_buf i g' s)) f) = Some l" for g g'
    using assms(2,3) by (simp add: upd_buf_def pf_def)
  have r: "Ret () (if c then x else y) = (if c then Ret () x else Ret () y)" for c and x y :: kernel
    by simp
  show ?thesis
    unfolding insert_into_queues_def enhash_def enfree_def assms(1) option.case Let_def p r
    unfolding nx_def pf_def hash_of_def key_def fst_conv snd_conv
    by (rule refl)
qed

subsection \<open>The halves on lists\<close>

lemma unhash_other:
  "nf (unhash i s) = nf s" "pf (unhash i s) = pf s" "key (unhash i s) = key s"
  "free_list (unhash i s) = free_list s" "NR_BUFFERS (unhash i s) = NR_BUFFERS s"
  by (auto simp: unhash_def Let_def fun_eq_iff nf_def pf_def key_def upd_buf_def split: option.splits)

lemma unhash_links:
  assumes "nx s i \<noteq> Some i" "pv s i \<noteq> Some i"
  shows "nx (unhash i s) = (case pv s i of None \<Rightarrow> nx s | Some l \<Rightarrow> (nx s)(l := nx s i))"
    "pv (unhash i s) = (case nx s i of None \<Rightarrow> pv s | Some n \<Rightarrow> (pv s)(n := pv s i))"
    "hash_table (unhash i s) = (if hash_table s (hash_of s i) = Some i
       then (hash_table s)(hash_of s i := nx s i) else hash_table s)"
  using assms
  by (auto simp: unhash_def Let_def fun_eq_iff nx_def pv_def key_def hash_of_def upd_buf_def split: option.splits)

definition content :: "kernel \<Rightarrow> nat \<Rightarrow> (nat \<Rightarrow> u8) \<times> bool \<times> bool \<times> u8 \<times> bool" where
  "content s i = (b_data (bufs s i), b_uptodate (bufs s i), b_dirt (bufs s i), b_count (bufs s i),
     b_lock (bufs s i))"

lemma content_halves:
  "content (unhash i s) = content s" "content (enhash i s) = content s" "content (enfree i f l s) = content s"
  by (auto simp: unhash_def enhash_def enfree_def Let_def fun_eq_iff content_def upd_buf_def split: option.splits)

lemma content_unfree: "unfree i s = Ret () t \<Longrightarrow> content t = content s"
  by (auto simp: unfree_def Let_def fun_eq_iff content_def upd_buf_def split: option.splits if_splits)

lemma hash_of_cong: "key s = key t \<Longrightarrow> hash_of s = hash_of t"
  by (simp add: hash_of_def fun_eq_iff)

lemma hashed_unhash:
  assumes H: "hashed s H" and i: "i \<in> set (H (hash_of s i))"
  shows "hashed (unhash i s) (H(hash_of s i := remove1 i (H (hash_of s i))))" (is ?hashed)
    "j \<notin> set (H (hash_of s i)) \<Longrightarrow> nx (unhash i s) j = nx s j \<and> pv (unhash i s) j = pv s j"
proof -
  let ?h = "hash_of s i"
  obtain xs ys where sp: "H ?h = xs @ i # ys" using split_list [OF i] by blast
  from H have sg: "seg (nx s) (pv s) None (hash_table s ?h) (xs @ i # ys) None" and d: "distinct (xs @ i # ys)"
    unfolding hashed_def sp [symmetric] by simp_all
  then have pi: "pv s i = lastp None xs" and ns: "seg (nx s) (pv s) (Some i) (nx s i) ys None"
    by (auto simp: seg_append)
  have np: "nx s i \<noteq> Some i" "pv s i \<noteq> Some i"
    using ns pi d by (cases ys; auto simp: lastp_def)+
  have ht: "hash_table s ?h = Some i \<longleftrightarrow> xs = []" using sg d by (cases xs) auto
  have rm: "remove1 i (H ?h) = xs @ ys" using d by (simp add: sp remove1_append)
  note L = unhash_links [OF np]
  have near: "\<And>j. pv s i = Some j \<Longrightarrow> j \<in> set (H ?h)" "\<And>j. nx s i = Some j \<Longrightarrow> j \<in> set (H ?h)"
    subgoal for j using pi sp by (auto simp: lastp_def split: if_splits)
    subgoal for j using ns sp by (cases ys) auto
    done
  have "seg (nx (unhash i s)) (pv (unhash i s)) None (hash_table (unhash i s) h)
      ((H(?h := remove1 i (H ?h))) h) None" if "h < NR_HASH" for h
  proof (cases "h = ?h")
    case True
    have "hash_table (unhash i s) ?h = (if xs = [] then nx s i else hash_table s ?h)"
      using L(3) ht by simp
    with seg_remove [OF sg d] True show ?thesis
      unfolding L(1,2) rm pi by simp
  next
    case False
    with H that have sh: "seg (nx s) (pv s) None (hash_table s h) (H h) None"
      "\<And>j. j \<in> set (H h) \<Longrightarrow> hash_of s j = h" by (auto simp: hashed_def)
    have "hash_of s j = ?h" if "pv s i = Some j \<or> nx s i = Some j" for j
      using that near H by (auto simp: hashed_def)
    with sh(2) False have "seg (nx (unhash i s)) (pv (unhash i s)) None (hash_table s h) (H h) None"
      using sh(1) unfolding L(1,2) by (subst seg_cong [of _ _ "nx s" _ "pv s"]) (auto split: option.splits)
    with False show ?thesis by (simp add: L(3))
  qed
  moreover have "hash_of (unhash i s) = hash_of s" by (rule hash_of_cong) (simp add: unhash_other)
  ultimately show ?hashed using H by (auto simp: hashed_def dest: notin_set_remove1)
  show "nx (unhash i s) j = nx s j \<and> pv (unhash i s) j = pv s j" if "j \<notin> set (H ?h)"
    using that near unfolding L by (auto split: option.split)
qed

lemma unhash_free_buffer:
  assumes "nx s i = None" "pv s i = None" "hash_table s (hash_of s i) \<noteq> Some i"
  shows "unhash i s = s"
  using assms by (simp add: unhash_def)

lemma unfree_freed:
  assumes F: "freed s (xs @ i # ys)" and ne: "xs @ ys \<noteq> []"
  shows "\<exists>t. unfree i s = Ret () t \<and> freed t (xs @ ys) \<and> nx t = nx s \<and> pv t = pv s \<and> key t = key s \<and>
    hash_table t = hash_table s \<and> NR_BUFFERS t = NR_BUFFERS s"
proof -
  from F have "ring (nf s) (pf s) (i # ys @ xs)"
    using ring_append_commute [of "nf s" "pf s" xs "i # ys"] by (simp add: freed_def)
  note R = ring_remove_front [OF this]
  let ?l = "last (ys @ xs)" and ?f = "hd (ys @ xs)"
  have p: "pf s i = Some ?l" and n: "nf s i = Some ?f" using R ne by auto
  have rg: "ring ((nf s)(?l := nf s i)) ((pf s)(?f := pf s i)) (xs @ ys)"
    using R(3) ne ring_append_commute by blast
  have ni: "?l \<noteq> i" "?f \<noteq> i"
  proof -
    have "i \<notin> set (ys @ xs)" using F by (auto simp: freed_def ring_def)
    moreover have "ys @ xs \<noteq> []" using ne by auto
    then have "?l \<in> set (ys @ xs)" "?f \<in> set (ys @ xs)" by (rule last_in_set, rule hd_in_set)
    ultimately show "?l \<noteq> i" "?f \<noteq> i" by metis+
  qed
  have fl: "free_list s = Some (hd (xs @ [i]))" using F by (cases xs) (simp_all add: freed_def)
  have hd: "hd (xs @ ys) = (if xs = [] then ?f else hd xs)" using ne by simp
  have xi: "xs \<noteq> [] \<Longrightarrow> hd xs \<noteq> i" using F by (auto simp: freed_def ring_def)
  let ?s1 = "upd_buf ?l (\<lambda>b. b\<lparr>b_next_free := nf s i\<rparr>) s"
  let ?s2 = "upd_buf ?f (\<lambda>b. b\<lparr>b_prev_free := pf ?s1 i\<rparr>) ?s1"
  have e: "unfree i s = Ret () (if free_list ?s2 = Some i then ?s2\<lparr>free_list := nf ?s2 i\<rparr> else ?s2)"
    by (simp add: unfree_def p n Let_def)
  have q: "nf ?s2 = (nf s)(?l := nf s i)" "pf ?s2 = (pf s)(?f := pf s i)" "nx ?s2 = nx s" "pv ?s2 = pv s"
    "key ?s2 = key s"
    using ni by (auto simp: fun_eq_iff links_fold)
  show ?thesis
    unfolding e using rg fl hd ni xi n q by (cases "xs = []") (auto simp: freed_def)
qed

lemma enfree_freed:
  assumes F: "freed s F" and i: "i \<notin> set F"
  shows "pf s (hd F) = Some (last F)" "freed (enfree i (hd F) (last F) s) (F @ [i])"
proof -
  from F have rg: "ring (nf s) (pf s) F" by (simp add: freed_def)
  note R = ring_insert_back [OF rg i]
  show "pf s (hd F) = Some (last F)" by (rule R)
  have ne: "F \<noteq> []" using rg by (simp add: ring_def)
  have ni: "hd F \<noteq> i" "last F \<noteq> i" using i ne hd_in_set last_in_set by metis+
  let ?t = "enfree i (hd F) (last F) s"
  have "nf ?t = (nf s)(i := Some (hd F), last F := Some i)"
    "pf ?t = (pf s)(i := Some (last F), hd F := Some i)"
    using ni R(1) by (auto simp: enfree_def Let_def fun_eq_iff nf_def pf_def upd_buf_def)
  moreover have "free_list ?t = Some (hd (F @ [i]))"
    using F ne by (simp add: enfree_def Let_def freed_def)
  ultimately show "freed ?t (F @ [i])" using R(2) by (simp add: freed_def)
qed

lemma enfree_other:
  "nx (enfree i f l s) = nx s" "pv (enfree i f l s) = pv s" "key (enfree i f l s) = key s"
  "hash_table (enfree i f l s) = hash_table s" "NR_BUFFERS (enfree i f l s) = NR_BUFFERS s"
  by (auto simp: enfree_def Let_def fun_eq_iff nx_def pv_def key_def upd_buf_def)

lemma enhash_other:
  "nf (enhash i s) = nf s" "pf (enhash i s) = pf s" "key (enhash i s) = key s"
  "free_list (enhash i s) = free_list s" "NR_BUFFERS (enhash i s) = NR_BUFFERS s"
  by (auto simp: enhash_def Let_def fun_eq_iff nf_def pf_def key_def nx_def upd_buf_def split: option.splits)

lemma hashed_enhash:
  assumes H: "hashed s H" and i': "\<forall>h<NR_HASH. i \<notin> set (H h)" and dev: "fst (key s i) \<noteq> 0"
  shows "hashed (enhash i s) (H(hash_of s i := i # H (hash_of s i)))" (is ?hashed)
    "j \<noteq> i \<Longrightarrow> j \<notin> set (H (hash_of s i)) \<Longrightarrow> nx (enhash i s) j = nx s j \<and> pv (enhash i s) j = pv s j"
proof -
  note i = i' [rule_format]
  let ?h = "hash_of s i"
  let ?p = "hash_table s ?h"
  from H have sg: "seg (nx s) (pv s) None ?p (H ?h) None" and d: "distinct (H ?h)"
    by (auto simp: hashed_def)
  have pm: "\<And>n. ?p = Some n \<Longrightarrow> n \<in> set (H ?h)" using sg by (cases "H ?h") auto
  then have pni: "?p \<noteq> Some i" using i by auto
  have dv: "b_dev (bufs s i) \<noteq> 0" using dev by (simp add: key_def)
  have L: "nx (enhash i s) = (nx s)(i := ?p)"
    "pv (enhash i s) = (case ?p of None \<Rightarrow> (pv s)(i := None) | Some n \<Rightarrow> (pv s)(i := None, n := Some i))"
    "hash_table (enhash i s) = (hash_table s)(?h := Some i)"
    using dv pni by (auto simp: enhash_def Let_def fun_eq_iff nx_def pv_def hash_of_def key_def upd_buf_def
        split: option.splits)
  have "seg (nx (enhash i s)) (pv (enhash i s)) None (hash_table (enhash i s) h)
      ((H(?h := i # H ?h)) h) None" if h: "h < NR_HASH" for h
  proof (cases "h = ?h")
    case True
    then show ?thesis unfolding L using seg_insert_front [OF sg _ d, of i] i by simp
  next
    case False
    have o: "seg (nx s) (pv s) None (hash_table s h) (H h) None" "\<And>j. j \<in> set (H h) \<Longrightarrow> hash_of s j = h"
      using H h by (auto simp: hashed_def)
    have "n \<notin> set (H h)" if "?p = Some n" for n
      using pm [OF that] H o(2) False by (force simp: hashed_def)
    then have "seg (nx (enhash i s)) (pv (enhash i s)) None (hash_table s h) (H h) None"
      unfolding L using o(1) i [OF h]
      by (subst seg_cong [of _ _ "nx s" _ "pv s"]) (auto split: option.splits)
    with False show ?thesis by (simp add: L(3))
  qed
  moreover have "hash_of (enhash i s) = hash_of s" by (rule hash_of_cong) (simp add: enhash_other)
  ultimately show ?hashed using H i by (auto simp: hashed_def)
  show "nx (enhash i s) j = nx s j \<and> pv (enhash i s) j = pv s j" if "j \<noteq> i" "j \<notin> set (H ?h)"
    using that pm unfolding L by (auto split: option.split)
qed

subsection \<open>The invariant\<close>

definition cache_ok :: "kernel \<Rightarrow> (nat \<Rightarrow> nat list) \<Rightarrow> nat list \<Rightarrow> bool" where
  "cache_ok s H F \<longleftrightarrow> hashed s H \<and> freed s F \<and> set F = {..<NR_BUFFERS s} \<and> 1 < NR_BUFFERS s \<and>
     (\<forall>h<NR_HASH. \<forall>i\<in>set (H h). i < NR_BUFFERS s \<and> fst (key s i) \<noteq> 0) \<and>
     (\<forall>i<NR_BUFFERS s. if fst (key s i) = 0 then nx s i = None \<and> pv s i = None
                        else i \<in> set (H (hash_of s i))) \<and>
     (\<forall>i<NR_BUFFERS s. \<forall>j<NR_BUFFERS s. fst (key s i) \<noteq> 0 \<longrightarrow> key s i = key s j \<longrightarrow> i = j)"

lemma cache_okD:
  assumes "cache_ok s H F"
  shows "hashed s H" "freed s F" "set F = {..<NR_BUFFERS s}" "1 < NR_BUFFERS s"
    "\<forall>h<NR_HASH. \<forall>i\<in>set (H h). i < NR_BUFFERS s \<and> fst (key s i) \<noteq> 0"
    "\<forall>i<NR_BUFFERS s. if fst (key s i) = 0 then nx s i = None \<and> pv s i = None
                        else i \<in> set (H (hash_of s i))"
    "\<forall>i<NR_BUFFERS s. \<forall>j<NR_BUFFERS s. fst (key s i) \<noteq> 0 \<longrightarrow> key s i = key s j \<longrightarrow> i = j"
  using assms unfolding cache_ok_def by blast+

lemma cache_okI:
  assumes "hashed s H" "freed s F" "NR_BUFFERS s = N" "set F = {..<N}"
    "\<forall>h<NR_HASH. \<forall>i\<in>set (H h). i < N \<and> fst (key s i) \<noteq> 0"
    "\<And>i. i < N \<Longrightarrow> if fst (key s i) = 0 then nx s i = None \<and> pv s i = None
                        else i \<in> set (H (hash_of s i))"
    "\<forall>i<N. \<forall>j<N. fst (key s i) \<noteq> 0 \<longrightarrow> key s i = key s j \<longrightarrow> i = j" "1 < N"
  shows "cache_ok s H F"
  using assms(1,2,4-) unfolding cache_ok_def assms(3) by blast

lemma kwhile_find:
  assumes "seg (nx s) pv' pr p xs None" "length xs < n"
  shows "kwhile n (\<lambda>tmp s. case tmp of
         None \<Rightarrow> Ret (Inr None) s
       | Some i \<Rightarrow> if b_dev (bufs s i) = dev \<and> b_blocknr (bufs s i) = block then Ret (Inr (Some i)) s
                   else Ret (Inl (b_next (bufs s i))) s) p s = Ret (find (\<lambda>i. key s i = (dev, block)) xs) s"
  using assms
proof (induction xs arbitrary: n pr p)
  case Nil
  then show ?case by (cases n) simp_all
next
  case (Cons x xs)
  then obtain m where "n = Suc m" by (cases n) auto
  with Cons show ?case by (auto simp: key_def nx_def)
qed

lemma find_buffer_spec:
  assumes c: "cache_ok s H F" and f: "NR_BUFFERS s < fuel E" and d: "dev \<noteq> 0"
  shows "\<exists>r. find_buffer E dev block s = Ret r s \<and>
    (case r of None \<Rightarrow> \<forall>i<NR_BUFFERS s. key s i \<noteq> (dev, block)
     | Some i \<Rightarrow> i < NR_BUFFERS s \<and> key s i = (dev, block))"
proof -
  let ?h = "hashfn dev block"
  have h: "?h < NR_HASH" by simp
  then have sg: "seg (nx s) (pv s) None (hash_table s ?h) (H ?h) None" and ds: "distinct (H ?h)"
    using cache_okD(1) [OF c] unfolding hashed_def by blast+
  have m: "\<And>i. i \<in> set (H ?h) \<Longrightarrow> i < NR_BUFFERS s" using cache_okD(5) [OF c] h by blast
  from m have "set (H ?h) \<subseteq> {..<NR_BUFFERS s}" by auto
  then have "card (set (H ?h)) \<le> card {..<NR_BUFFERS s}" by (intro card_mono) auto
  then have "length (H ?h) \<le> NR_BUFFERS s" using ds by (simp add: distinct_card)
  with kwhile_find [OF sg] f
  have e: "find_buffer E dev block s = Ret (find (\<lambda>i. key s i = (dev, block)) (H ?h)) s"
    by (simp add: find_buffer_def)
  show ?thesis
  proof (cases "find (\<lambda>i. key s i = (dev, block)) (H ?h)")
    case None
    then have n: "\<And>i. i \<in> set (H ?h) \<Longrightarrow> key s i \<noteq> (dev, block)" by (simp add: find_None_iff)
    have "key s i \<noteq> (dev, block)" if "i < NR_BUFFERS s" for i
    proof
      assume k: "key s i = (dev, block)"
      then have "hash_of s i = ?h" by (simp add: hash_of_def)
      moreover have "i \<in> set (H (hash_of s i))" using c that k d by (auto simp: cache_ok_def split: if_splits)
      ultimately show False using n k by simp
    qed
    with e None show ?thesis by simp
  next
    case (Some i)
    then have "i \<in> set (H ?h)" "key s i = (dev, block)" by (auto simp: find_Some_iff)
    with e Some m show ?thesis by simp
  qed
qed

text \<open>Moving buffer \<open>i\<close> to another block: it leaves its hash chain and the ring and comes back at the front
  of the chain of the block and at the end of the ring.\<close>

lemma cache_unqueue:
  assumes c: "cache_ok s H F" and i: "i < NR_BUFFERS s"
  shows "\<exists>t H'. remove_from_queues i s = Ret () t \<and> hashed t H' \<and> freed t (remove1 i F) \<and>
    (\<forall>h<NR_HASH. set (H' h) = set (H h) - {i}) \<and>
    (\<forall>j<NR_BUFFERS s. fst (key s j) = 0 \<longrightarrow> nx t j = None \<and> pv t j = None) \<and>
    key t = key s \<and> content t = content s \<and> NR_BUFFERS t = NR_BUFFERS s"
proof -
  note H = cache_okD(1) [OF c] and F = cache_okD(2,3) [OF c] and N = cache_okD(4) [OF c]
    and own = cache_okD(6) [OF c, rule_format]
  have mem: "\<And>h j. h < NR_HASH \<Longrightarrow> j \<in> set (H h) \<Longrightarrow> fst (key s j) \<noteq> 0"
    using cache_okD(5) [OF c] by blast
  have "\<exists>H'. hashed (unhash i s) H' \<and> (\<forall>h<NR_HASH. set (H' h) = set (H h) - {i}) \<and>
    (\<forall>j<NR_BUFFERS s. fst (key s j) = 0 \<longrightarrow> nx (unhash i s) j = None \<and> pv (unhash i s) j = None)"
  proof (cases "fst (key s i) = 0")
    case True
    then have l: "nx s i = None" "pv s i = None" using own [OF i] by auto
    have ni: "\<And>h. h < NR_HASH \<Longrightarrow> i \<notin> set (H h)" using mem True by blast
    have sg: "seg (nx s) (pv s) None (hash_table s (hash_of s i)) (H (hash_of s i)) None"
      using H hashfn_less(2) [of s i] unfolding hashed_def by blast
    have "hash_table s (hash_of s i) \<noteq> Some i"
      using sg ni [OF hashfn_less(2) [of s i]] by (cases "H (hash_of s i)") auto
    then have "unhash i s = s" by (rule unhash_free_buffer [OF l])
    with H ni own show ?thesis by (intro exI [of _ H]) fastforce
  next
    case False
    then have m: "i \<in> set (H (hash_of s i))" using own [OF i] by simp
    have o: "i \<notin> set (H h)" if "h < NR_HASH" "h \<noteq> hash_of s i" for h
      using H that by (auto simp: hashed_def)
    have z: "nx (unhash i s) j = None \<and> pv (unhash i s) j = None"
      if "j < NR_BUFFERS s" "fst (key s j) = 0" for j
    proof -
      have "j \<notin> set (H (hash_of s i))" using mem that(2) hashfn_less(2) by blast
      from hashed_unhash(2) [OF H m this] own [OF that(1)] that(2) show ?thesis by simp
    qed
    have "distinct (H (hash_of s i))" using H hashfn_less(2) [of s i] unfolding hashed_def by blast
    then have "\<forall>h<NR_HASH. set ((H(hash_of s i := remove1 i (H (hash_of s i)))) h) = set (H h) - {i}"
      using o by (simp add: set_remove1_eq)
    with hashed_unhash(1) [OF H m] z show ?thesis by blast
  qed
  then obtain H' where H': "hashed (unhash i s) H'" "\<forall>h<NR_HASH. set (H' h) = set (H h) - {i}"
    "\<forall>j<NR_BUFFERS s. fst (key s j) = 0 \<longrightarrow> nx (unhash i s) j = None \<and> pv (unhash i s) j = None"
    by blast
  obtain xs ys where sp: "F = xs @ i # ys" using split_list [of i F] F(2) i by auto
  have d: "distinct F" using F(1) by (simp add: freed_def ring_def)
  then have rm: "remove1 i F = xs @ ys" by (simp add: sp remove1_append)
  have "length F = NR_BUFFERS s" using d F(2) distinct_card [of F] by simp
  then have ne: "xs @ ys \<noteq> []" using N sp by auto
  have "freed (unhash i s) (xs @ i # ys)" using F(1) sp by (simp add: freed_def unhash_other)
  from unfree_freed [OF this ne] obtain t where t: "unfree i (unhash i s) = Ret () t" "freed t (xs @ ys)"
    "nx t = nx (unhash i s)" "pv t = pv (unhash i s)" "key t = key (unhash i s)"
    "hash_table t = hash_table (unhash i s)" "NR_BUFFERS t = NR_BUFFERS (unhash i s)" by blast
  have "hashed t H'" using H'(1) hash_of_cong [OF t(5)] by (simp add: hashed_def t(3-6))
  with t H' content_unfree [OF t(1)] show ?thesis
    by (intro exI [of _ t] exI [of _ H'])
      (simp add: remove_from_queues_halves rm unhash_other content_halves)
qed

lemma cache_requeue:
  assumes c: "cache_ok s H F" and i: "i < NR_BUFFERS s" and d: "dev \<noteq> 0"
    and nk: "\<And>j. j < NR_BUFFERS s \<Longrightarrow> key s j \<noteq> (dev, block)"
  shows "\<exists>t u H'. remove_from_queues i s = Ret () t \<and>
    insert_into_queues i (upd_buf i (\<lambda>b. b\<lparr>b_dev := dev, b_blocknr := block\<rparr>) t) = Ret () u \<and>
    cache_ok u H' (remove1 i F @ [i]) \<and> key u = (key s)(i := (dev, block)) \<and> content u = content s \<and>
    NR_BUFFERS u = NR_BUFFERS s"
proof -
  from cache_unqueue [OF c i] obtain t H1 where rm: "remove_from_queues i s = Ret () t" and H1: "hashed t H1"
    and fr: "freed t (remove1 i F)" and s1: "\<forall>h<NR_HASH. set (H1 h) = set (H h) - {i}"
    and z: "\<forall>j<NR_BUFFERS s. fst (key s j) = 0 \<longrightarrow> nx t j = None \<and> pv t j = None"
    and k: "key t = key s" and ct: "content t = content s" and nb: "NR_BUFFERS t = NR_BUFFERS s" by blast
  note H = cache_okD(1) [OF c] and F = cache_okD(2,3) [OF c] and N = cache_okD(4) [OF c]
    and mem = cache_okD(5) [OF c] and own = cache_okD(6) [OF c] and unq = cache_okD(7) [OF c]
  let ?t = "upd_buf i (\<lambda>b. b\<lparr>b_dev := dev, b_blocknr := block\<rparr>) t"
  have lk: "nx ?t = nx t" "pv ?t = pv t" "nf ?t = nf t" "pf ?t = pf t" "key ?t = (key s)(i := (dev, block))"
    "content ?t = content s"
    by (simp_all add: k ct [symmetric] links_fold) (auto simp: fun_eq_iff content_def upd_buf_def)
  have ho: "\<And>j. j \<noteq> i \<Longrightarrow> hash_of ?t j = hash_of s j" by (simp add: hash_of_def k)
  have fr': "freed ?t (remove1 i F)" using fr by (simp add: freed_def links_fold)
  have dF: "distinct F" using F(1) by (simp add: freed_def ring_def)
  then have ni: "i \<notin> set (remove1 i F)" by simp
  let ?f = "hd (remove1 i F)" and ?l = "last (remove1 i F)"
  note ef = enfree_freed [OF fr' ni]
  have fne: "?f \<noteq> i"
  proof -
    have "remove1 i F \<noteq> []" using fr by (auto simp: freed_def ring_def)
    then show ?thesis using ni hd_in_set by metis
  qed
  let ?v = "enfree i ?f ?l ?t" let ?u = "enhash i ?v"
  have ins: "insert_into_queues i ?t = Ret () ?u"
    using fr' by (intro insert_into_queues_halves ef fne) (simp add: freed_def)
  have kv: "key ?v = (key s)(i := (dev, block))" "key ?u = (key s)(i := (dev, block))"
    by (simp_all only: enfree_other enhash_other lk)
  have hv: "hash_of ?v = hash_of ?t" "hash_of ?u = hash_of ?t"
    by (intro hash_of_cong, simp only: enfree_other enhash_other)+
  have H1v: "hashed ?v H1"
    using H1 ho s1 unfolding hashed_def hv by (simp add: enfree_other lk hash_of_cong [OF k])
  have i1: "\<forall>h<NR_HASH. i \<notin> set (H1 h)" using s1 by auto
  let ?H = "H1(hash_of ?v i := i # H1 (hash_of ?v i))"
  have dv: "fst (key ?v i) \<noteq> 0" by (simp add: kv d)
  note eh = hashed_enhash [OF H1v i1 dv]
  have "hashed ?u ?H" by (rule eh(1))
  moreover have "freed ?u (remove1 i F @ [i])" using ef(2) by (simp add: freed_def enhash_other)
  moreover have nu: "NR_BUFFERS ?u = NR_BUFFERS s" by (simp add: enhash_other enfree_other nb)
  moreover have "set (remove1 i F @ [i]) = {..<NR_BUFFERS s}" using F(2) dF i by auto
  moreover have "\<forall>h<NR_HASH. \<forall>j\<in>set (?H h). j < NR_BUFFERS s \<and> fst (key ?u j) \<noteq> 0"
  proof -
    have m: "\<And>h j. h < NR_HASH \<Longrightarrow> j \<in> set (H1 h) \<Longrightarrow> j \<noteq> i \<and> j < NR_BUFFERS s \<and> fst (key s j) \<noteq> 0"
      using mem s1 by blast
    show ?thesis using m m [OF hashfn_less(2) [of ?v i]] i d by (auto simp: kv)
  qed
  moreover have "if fst (key ?u j) = 0 then nx ?u j = None \<and> pv ?u j = None else j \<in> set (?H (hash_of ?u j))"
    if j: "j < NR_BUFFERS s" for j
  proof (cases "j = i")
    case True
    then show ?thesis by (simp add: kv d hv)
  next
    case False
    have "j \<notin> set (H1 (hash_of ?v i))" if "fst (key s j) = 0"
      using mem s1 that hashfn_less(2) [of ?v i] by blast
    with eh(2) [OF False] z j False
    have "fst (key s j) = 0 \<Longrightarrow> nx ?u j = None \<and> pv ?u j = None" by (simp add: enfree_other lk)
    moreover have "fst (key s j) \<noteq> 0 \<Longrightarrow> j \<in> set (H1 (hash_of ?t j))"
      using own [rule_format, OF j] s1 False ho [OF False] hashfn_less(2) [of s j] by auto
    ultimately show ?thesis using False by (auto simp: kv hv)
  qed
  moreover have "\<forall>j<NR_BUFFERS s. \<forall>j'<NR_BUFFERS s. fst (key ?u j) \<noteq> 0 \<longrightarrow> key ?u j = key ?u j' \<longrightarrow> j = j'"
    using unq nk nk [symmetric] by (simp add: kv) blast
  ultimately have "cache_ok ?u ?H (remove1 i F @ [i])" using N by (rule cache_okI)
  moreover have "content ?u = content s" by (simp only: content_halves lk)
  ultimately show ?thesis using rm ins kv(2) nu by blast
qed

subsection \<open>Scanning the free list\<close>

definition reusable :: "kernel \<Rightarrow> nat \<Rightarrow> bool" where
  "reusable s j \<longleftrightarrow> b_count (bufs s j) = 0 \<and> BADNESS (bufs s j) = 0"

lemma kwhile_scan:
  assumes "freed s (xs @ tmp # ys)" "find (reusable s) (tmp # ys) = Some j" "length ys < n"
    "case bh of None \<Rightarrow> True | Some b \<Rightarrow> 0 < BADNESS (bufs s b)"
  shows "kwhile n scan_free_step (tmp, bh) s = Ret (Some j) s"
  using assms
proof (induction ys arbitrary: xs tmp bh n)
  case Nil
  then show ?case by (cases n) (auto simp: scan_free_step_def reusable_def split: if_splits option.splits)
next
  case (Cons y ys)
  obtain m where n: "n = Suc m" using Cons.prems(3) by (cases n) auto
  show ?case
  proof (cases "reusable s tmp")
    case True
    then show ?thesis using Cons.prems(2,4)
      by (auto simp: n scan_free_step_def reusable_def split: option.splits)
  next
    case False
    have rg: "ring (nf s) (pf s) (xs @ tmp # y # ys)" using Cons.prems(1) by (simp add: freed_def)
    have nt: "b_next_free (bufs s tmp) = Some y" using ring_next [OF rg] by (simp add: nf_def)
    have "y \<noteq> hd (xs @ [tmp])" using rg by (cases xs) (auto simp: ring_def)
    then have fl: "free_list s \<noteq> Some y"
      using Cons.prems(1) by (cases xs) (auto simp: freed_def)
    have rec: "kwhile m scan_free_step (y, b) s = Ret (Some j) s"
      if "case b of None \<Rightarrow> True | Some b \<Rightarrow> 0 < BADNESS (bufs s b)" for b
      using Cons.IH [of "xs @ [tmp]" y m b] Cons.prems False n that by simp
    show ?thesis using False Cons.prems(4) nt fl rec
      by (auto simp: n scan_free_step_def reusable_def Let_def split: option.splits)
  qed
qed

lemma scan_free_spec:
  assumes c: "cache_ok s H F" and f: "NR_BUFFERS s < fuel E" and j: "find (reusable s) F = Some j"
  shows "scan_free E s = Ret (Some j) s"
proof -
  have fr: "freed s F" by (rule cache_okD(2) [OF c])
  then obtain x ys where F: "F = x # ys" by (cases F) (auto simp: freed_def ring_def)
  have "length F = NR_BUFFERS s"
    using fr cache_okD(3) [OF c] distinct_card [of F] by (simp add: freed_def ring_def)
  then have "kwhile (fuel E) scan_free_step (x, None) s = Ret (Some j) s"
    using fr j f F by (intro kwhile_scan [of s "[]" x ys]) simp_all
  with fr F show ?thesis by (simp add: scan_free_def freed_def)
qed

lemma wait_on_buffer_unlocked: "\<not> b_lock (bufs s i) \<Longrightarrow> 0 < fuel E \<Longrightarrow> wait_on_buffer E i s = Ret () s"
  by (simp add: wait_on_buffer_def kloop_unfold)

lemma write_out_clean: "\<not> b_dirt (bufs s i) \<Longrightarrow> 0 < fuel E \<Longrightarrow> write_out E sync i s = Ret False s"
  by (simp add: write_out_def kloop_unfold)

lemma cache_ok_cong:
  assumes "cache_ok s H F" "nx t = nx s" "pv t = pv s" "nf t = nf s" "pf t = pf s" "key t = key s"
    "hash_table t = hash_table s" "free_list t = free_list s" "NR_BUFFERS t = NR_BUFFERS s"
  shows "cache_ok t H F"
  using assms(1)
  unfolding cache_ok_def hashed_def freed_def hash_of_cong [OF assms(6)] assms(2-) by assumption

subsection \<open>Getting a block\<close>

text \<open>\<open>took s i t\<close>: between \<open>s\<close> and \<open>t\<close> buffer \<open>i\<close> was taken, and the others keep block and content.\<close>

definition kept_others :: "kernel \<Rightarrow> nat \<Rightarrow> kernel \<Rightarrow> bool" where
  "kept_others s i t \<longleftrightarrow> NR_BUFFERS t = NR_BUFFERS s \<and>
     (\<forall>j<NR_BUFFERS s. j \<noteq> i \<longrightarrow> key t j = key s j \<and> content t j = content s j)"

lemma get_hash_table_hit:
  assumes c: "cache_ok s H F" and f: "NR_BUFFERS s < fuel E" and d: "dev \<noteq> 0"
    and i: "i < NR_BUFFERS s" "key s i = (dev, block)" "\<not> b_lock (bufs s i)"
  shows "get_hash_table E dev block s = Ret (Some i) (upd_buf i (\<lambda>b. b\<lparr>b_count := b_count b + 1\<rparr>) s)"
proof -
  from find_buffer_spec [OF c f d] obtain r where r: "find_buffer E dev block s = Ret r s"
    "case r of None \<Rightarrow> \<forall>i<NR_BUFFERS s. key s i \<noteq> (dev, block)
     | Some i \<Rightarrow> i < NR_BUFFERS s \<and> key s i = (dev, block)" by blast
  have "r = Some i" using r(2) i cache_okD(7) [OF c] d by (auto split: option.splits)
  moreover have "b_dev (bufs s i) = dev" "b_blocknr (bufs s i) = block" using i(2) by (auto simp: key_def)
  moreover let ?s = "upd_buf i (\<lambda>b. b\<lparr>b_count := b_count b + 1\<rparr>) s"
  have "wait_on_buffer E i ?s = Ret () ?s"
    using i(3) f by (intro wait_on_buffer_unlocked) (simp_all add: upd_buf_def)
  ultimately show ?thesis using f r(1)
    by (simp add: get_hash_table_def kloop_unfold) (simp add: upd_buf_def)
qed

lemma get_hash_table_miss:
  assumes c: "cache_ok s H F" and f: "NR_BUFFERS s < fuel E" and d: "dev \<noteq> 0"
    and n: "\<forall>i<NR_BUFFERS s. key s i \<noteq> (dev, block)"
  shows "find_buffer E dev block s = Ret None s" "get_hash_table E dev block s = Ret None s"
proof -
  show fb: "find_buffer E dev block s = Ret None s"
    using find_buffer_spec [OF c f d, of block] n by (auto split: option.splits)
  show "get_hash_table E dev block s = Ret None s"
    using f by (simp add: get_hash_table_def kloop_unfold fb)
qed

lemma getblk_hit:
  assumes c: "cache_ok s H F" and f: "NR_BUFFERS s < fuel E" and d: "dev \<noteq> 0"
    and i: "i < NR_BUFFERS s" "key s i = (dev, block)" "\<not> b_lock (bufs s i)"
  shows "getblk_with E sync dev block s = Ret i (upd_buf i (\<lambda>b. b\<lparr>b_count := b_count b + 1\<rparr>) s)"
  using f by (simp add: getblk_with_def kloop_unfold get_hash_table_hit [OF assms])

lemma getblk_miss:
  assumes c: "cache_ok s H F" and f: "NR_BUFFERS s < fuel E" and d: "dev \<noteq> 0"
    and n: "\<forall>i<NR_BUFFERS s. key s i \<noteq> (dev, block)" and j: "find (reusable s) F = Some j"
  shows "\<exists>t H'. getblk_with E sync dev block s = Ret j t \<and> cache_ok t H' (remove1 j F @ [j]) \<and>
    key t = (key s)(j := (dev, block)) \<and>
    content t = (content s)(j := (b_data (bufs s j), False, False, 1, False)) \<and> NR_BUFFERS t = NR_BUFFERS s"
proof -
  have jr: "reusable s j" "j \<in> set F" using j by (auto simp: find_Some_iff)
  then have jn: "j < NR_BUFFERS s" using cache_okD(3) [OF c] by simp
  have jb: "b_count (bufs s j) = 0" "\<not> b_dirt (bufs s j)" "\<not> b_lock (bufs s j)"
    using jr(1) by (auto simp: reusable_def BADNESS_def split: if_splits)
  let ?s = "upd_buf j (\<lambda>b. b\<lparr>b_count := 1, b_dirt := False, b_uptodate := False\<rparr>) s"
  have sl: "nx ?s = nx s" "pv ?s = pv s" "nf ?s = nf s" "pf ?s = pf s" "key ?s = key s"
    by (auto simp: fun_eq_iff links_fold)
  have c': "cache_ok ?s H F" by (rule cache_ok_cong [OF c sl]) simp_all
  have "\<And>i. i < NR_BUFFERS ?s \<Longrightarrow> key ?s i \<noteq> (dev, block)" "j < NR_BUFFERS ?s" using n sl(5) jn by simp_all
  from cache_requeue [OF c' this(2) d this(1)] obtain t u H' where q: "remove_from_queues j ?s = Ret () t"
    "insert_into_queues j (upd_buf j (\<lambda>b. b\<lparr>b_dev := dev, b_blocknr := block\<rparr>) t) = Ret () u"
    "cache_ok u H' (remove1 j F @ [j])" "key u = (key ?s)(j := (dev, block))" "content u = content ?s"
    "NR_BUFFERS u = NR_BUFFERS ?s" by blast
  have "getblk_with E sync dev block s = Ret j u"
    using f jb q(1,2) get_hash_table_miss [OF c f d n]
    by (simp add: getblk_with_def kloop_unfold scan_free_spec [OF c f j] wait_on_buffer_unlocked
        write_out_clean)
  moreover have "content ?s = (content s)(j := (b_data (bufs s j), False, False, 1, False))"
    using jb(3) by (auto simp: fun_eq_iff content_def upd_buf_def)
  ultimately show ?thesis using q(3-) sl(5) by auto
qed

text \<open>C7: In a sound buffer cache, when the buffer of the block, if there is one, is not locked, and
  otherwise some buffer is unused, clean and unlocked, \<^verbatim>\<open>getblk\<close> returns without sleeping. The buffer it
  returns holds the requested block and is pinned by its caller: a buffer that had the block keeps its
  data, and otherwise the least recently used candidate of the free list is given the block, is not up to
  date and moves to the end of the list. All other buffers keep their blocks and contents, and the chains
  and the free list stay sound, so that again no block is in two buffers.\<close>

theorem getblk_returns_block:
  assumes c: "cache_ok s H F" and f: "NR_BUFFERS s < fuel E" and d: "dev \<noteq> 0"
    and l: "\<forall>i<NR_BUFFERS s. key s i = (dev, block) \<longrightarrow> \<not> b_lock (bufs s i)"
    and a: "(\<exists>i<NR_BUFFERS s. key s i = (dev, block)) \<or> (\<exists>j<NR_BUFFERS s. reusable s j)"
  shows "\<exists>i t H' F'. getblk E dev block s = Ret i t \<and> cache_ok t H' F' \<and>
    i < NR_BUFFERS s \<and> key t i = (dev, block) \<and> kept_others s i t \<and>
    (if \<exists>j<NR_BUFFERS s. key s j = (dev, block)
     then F' = F \<and> key s i = (dev, block) \<and> b_count (bufs t i) = b_count (bufs s i) + 1 \<and>
          b_data (bufs t i) = b_data (bufs s i) \<and> b_uptodate (bufs t i) = b_uptodate (bufs s i)
     else find (reusable s) F = Some i \<and> F' = remove1 i F @ [i] \<and> b_count (bufs t i) = 1 \<and>
          \<not> b_uptodate (bufs t i) \<and> \<not> b_dirt (bufs t i))"
proof (cases "\<exists>j<NR_BUFFERS s. key s j = (dev, block)")
  case True
  then obtain i where i: "i < NR_BUFFERS s" "key s i = (dev, block)" by blast
  let ?t = "upd_buf i (\<lambda>b. b\<lparr>b_count := b_count b + 1\<rparr>) s"
  have sl: "nx ?t = nx s" "pv ?t = pv s" "nf ?t = nf s" "pf ?t = pf s" "key ?t = key s"
    by (auto simp: fun_eq_iff links_fold)
  have "cache_ok ?t H F" by (rule cache_ok_cong [OF c sl]) simp_all
  moreover have "getblk E dev block s = Ret i ?t"
    unfolding getblk_def by (rule getblk_hit [OF c f d i]) (use l i in blast)
  moreover have "kept_others s i ?t" by (simp add: kept_others_def content_def upd_buf_def key_def)
  moreover have "b_count (bufs ?t i) = b_count (bufs s i) + 1" "b_data (bufs ?t i) = b_data (bufs s i)"
    "b_uptodate (bufs ?t i) = b_uptodate (bufs s i)" by (simp_all add: upd_buf_def)
  moreover have "key ?t i = (dev, block)" using i(2) sl(5) by simp
  ultimately show ?thesis using True i by auto
next
  case False
  then have n: "\<forall>i<NR_BUFFERS s. key s i \<noteq> (dev, block)" by blast
  have "find (reusable s) F \<noteq> None"
    using a False cache_okD(3) [OF c] by (auto simp: find_None_iff)
  then obtain j where j: "find (reusable s) F = Some j" by blast
  then have jn: "j < NR_BUFFERS s" using cache_okD(3) [OF c] by (auto simp: find_Some_iff)
  from getblk_miss [OF c f d n j, of "sync_dev E"] obtain t H' where t: "getblk E dev block s = Ret j t"
    "cache_ok t H' (remove1 j F @ [j])" "key t = (key s)(j := (dev, block))"
    "content t = (content s)(j := (b_data (bufs s j), False, False, 1, False))" "NR_BUFFERS t = NR_BUFFERS s"
    unfolding getblk_def by blast
  have "kept_others s j t" using t(3-5) by (simp add: kept_others_def)
  moreover have "content t j = (b_data (bufs s j), False, False, 1, False)" using t(4) by simp
  then have "b_count (bufs t j) = 1" "\<not> b_uptodate (bufs t j)" "\<not> b_dirt (bufs t j)"
    by (simp_all add: content_def)
  moreover have "key t j = (dev, block)" using t(3) by simp
  ultimately show ?thesis using False t(1,2) j jn by auto
qed

subsection \<open>Initialisation\<close>

lemma seg_upt:
  assumes "\<forall>i. a \<le> i \<and> i < b \<longrightarrow> nxt i = Some (if Suc i = b then q else Suc i)"
    "\<forall>i. a < i \<and> i < b \<longrightarrow> prv i = Some (i - 1)" "a < b" "prv a = pr"
  shows "seg nxt prv pr (Some a) [a..<b] (Some q)"
  using assms
proof (induction "b - a" arbitrary: a pr)
  case 0
  then show ?case by simp
next
  case (Suc n)
  show ?case
  proof (cases "Suc a = b")
    case True
    then show ?thesis using Suc.prems by (simp add: upt_rec)
  next
    case False
    then have "seg nxt prv (Some a) (Some (Suc a)) [Suc a..<b] (Some q)"
      using Suc.prems Suc.hyps(2) by (intro Suc.hyps(1)) auto
    with Suc.prems False show ?thesis by (simp add: upt_rec [of a])
  qed
qed

lemma ring_upt:
  assumes "0 < n" "\<forall>i<n. nxt i = Some (if Suc i = n then 0 else Suc i)"
    "\<forall>i<n. prv i = Some (if i = 0 then n - 1 else i - 1)"
  shows "ring nxt prv [0..<n]"
  using assms by (auto simp: ring_def intro!: seg_upt)

text \<open>What the set-up loop has made of the first \<open>h\<close> buffer heads.\<close>

definition fresh_heads :: "nat \<Rightarrow> kernel \<Rightarrow> bool" where
  "fresh_heads h s \<longleftrightarrow> NR_BUFFERS s = h \<and> (\<forall>i<h. b_dev (bufs s i) = 0 \<and> content s i =
       (b_data (bufs s i), False, False, 0, False) \<and> nx s i = None \<and> pv s i = None \<and>
     nf s i = Some (Suc i) \<and> pf s i = (if i = 0 then None else Some (i - 1)))"

lemma fresh_heads_Suc:
  assumes "fresh_heads h s"
  shows "fresh_heads (Suc h) ((upd_buf h (\<lambda>x. x\<lparr>b_dev := 0, b_dirt := False, b_count := 0, b_lock := False,
                 b_uptodate := False, b_next := None, b_prev := None,
                 b_prev_free := (if h = 0 then None else Some (h - 1)), b_next_free := Some (h + 1)\<rparr>) s)
       \<lparr>wq := w, NR_BUFFERS := NR_BUFFERS s + 1\<rparr>)"
proof -
  have "i < Suc h \<Longrightarrow> i = h \<or> i < h" for i by auto
  then show ?thesis using assms
    by (auto simp: fresh_heads_def upd_buf_def content_def nx_def pv_def nf_def pf_def)
qed

lemma buffer_init_loop:
  assumes st: "1024 \<le> unat (start_buffer s)" "unat (start_buffer s) \<le> 0x90000"
    and b: "0xA0000 \<le> unat b" and n: "NR_BUFFERS s = 0" and f: "2 ^ 32 \<le> n'"
  shows "\<exists>h t. kwhile n' buffer_init_step (0, b) s = Ret h t \<and> 2 \<le> h \<and> fresh_heads h t"
proof -
  let ?I = "\<lambda>(h, c) t. fresh_heads h t \<and> start_buffer t = start_buffer s \<and> 1024 * h + unat c \<le> unat b \<and>
    1024 \<le> unat c \<and> (h < 2 \<longrightarrow> 0xA0000 \<le> unat c + 1024 * h)"
  have "\<exists>r t'. buffer_init_step v t = Ret r t' \<and> (case r of
      Inl w \<Rightarrow> ?I w t' \<and> unat (snd w) < unat (snd v) | Inr h \<Rightarrow> 2 \<le> h \<and> fresh_heads h t')"
    if I: "?I v t" for v t
  proof -
    obtain h c where v: "v = (h, c)" by (cases v)
    note I = I [unfolded v prod.case]
    then have I': "1024 * h + unat c \<le> unat b" "1024 \<le> unat c" "h < 2 \<longrightarrow> 0xA0000 \<le> unat c + 1024 * h"
      by blast+
    have cw: "unat (c - 1024) = unat c - 1024" using I by (simp add: unat_sub word_le_nat_alt)
    have "unat b < 2 ^ 32" using unsigned_less [of b] by simp
    then have hb: "h < 2 ^ 22" using I by auto
    let ?k = "unat (start_buffer s) + 36 * (h + 1)"
    have "buf_addr (h + 1) t = of_nat ?k" using I by (simp add: buf_addr_def)
    moreover have "unat (of_nat ?k :: u32) = ?k" using st hb by (intro unat_of_nat32) simp
    ultimately have bw: "unat (buf_addr (h + 1) t) = ?k" by simp
    show ?thesis
    proof (cases "buf_addr (h + 1) t \<le> c - 1024")
      case True
      then have le: "?k \<le> unat c - 1024" unfolding word_le_nat_alt bw cw .
      define c' where "c' = (if c - 1024 = 0x100000 then 0xA0000 else c - 1024)"
      have "unat (c - 1024) = 0x100000" if "c - 1024 = 0x100000" using that by simp
      then have c: "unat c' \<le> unat c - 1024" "1024 \<le> unat c'" "0xA0000 \<le> unat c \<Longrightarrow> 0x9FC00 \<le> unat c'"
        using le st cw by (auto simp: c'_def split: if_splits)
      have k: "1024 * (h + 1) + unat c' \<le> unat b" "unat c' < unat c" using I' c(1) by auto
      have "h + 1 < 2 \<longrightarrow> 0xA0000 \<le> unat c' + 1024 * (h + 1)" using I' c(3) by auto
      moreover have "\<exists>t'. buffer_init_step v t = Ret (Inl (Suc h, c')) t' \<and> fresh_heads (Suc h) t' \<and>
          start_buffer t' = start_buffer s"
        using True I fresh_heads_Suc [of h t] unfolding v c'_def
        by (simp add: buffer_init_step_def Let_def upd_buf_def)
      ultimately show ?thesis using k c(2) v by auto
    next
      case False
      then have "\<not> ?k \<le> unat c - 1024" unfolding word_le_nat_alt bw cw .
      then have "2 \<le> h" using I' st by (cases "h < 2") auto
      with False I show ?thesis unfolding v by (simp add: buffer_init_step_def Let_def)
    qed
  qed
  then have "\<exists>h t. kwhile n' buffer_init_step (0, b) s = Ret h t \<and> (2 \<le> h \<and> fresh_heads h t)"
  proof (rule kwhile_rule [of ?I])
    show "?I (0, b) s" using b n by (simp add: fresh_heads_def)
    have "unat b < 2 ^ 32" using unsigned_less [of b] by simp
    then show "unat (snd (0 :: nat, b)) < n'" using f by simp
  qed
  then show ?thesis by blast
qed

text \<open>\<^verbatim>\<open>buffer_init\<close> terminates and sets up a sound cache: all hash chains are empty, the free list is
  the ring of all buffer heads in order, and every buffer is unused, clean, unlocked and not up to date.
  This holds for a kernel that ends below 0x90000 and at least 640 KB of memory for it and the
  buffers.\<close>

theorem buffer_init_sound:
  assumes st: "1024 \<le> unat (start_buffer s)" "unat (start_buffer s) \<le> 0x90000"
    and b: "0xA0000 \<le> unat buffer_end" and n: "NR_BUFFERS s = 0" and f: "2 ^ 32 \<le> fuel E"
  shows "\<exists>t N. buffer_init E buffer_end s = Ret () t \<and> cache_ok t (\<lambda>_. []) [0..<N] \<and>
    (\<forall>i<N. reusable t i \<and> \<not> b_uptodate (bufs t i))"
proof -
  let ?b = "if buffer_end = push_bit 20 1 then 640 * 1024 else buffer_end"
  have "0xA0000 \<le> unat ?b" using b by simp
  from buffer_init_loop [OF st this n f] obtain h t where
    t: "kwhile (fuel E) buffer_init_step (0, ?b) s = Ret h t" and h: "2 \<le> h" and fh: "fresh_heads h t" by blast
  let ?t1 = "upd_buf (h - 1) (\<lambda>x. x\<lparr>b_next_free := Some 0\<rparr>)
      (upd_buf 0 (\<lambda>x. x\<lparr>b_prev_free := Some (h - 1)\<rparr>) (t\<lparr>free_list := Some 0\<rparr>))"
  define u where "u = ?t1\<lparr>hash_table := (\<lambda>i. if i < NR_HASH then None else hash_table ?t1 i)\<rparr>"
  have e: "buffer_init E buffer_end s = Ret () u"
    using t h by (simp add: u_def buffer_init_def Let_def cong: if_cong)
  have lk: "\<forall>i<h. nx u i = None \<and> pv u i = None \<and> fst (key u i) = 0 \<and>
      content u i = (b_data (bufs t i), False, False, 0, False)"
    using fh h by (auto simp: fresh_heads_def nx_def pv_def key_def content_def upd_buf_def u_def)
  have "ring (nf u) (pf u) [0..<h]"
    using fh h by (intro ring_upt) (auto simp: fresh_heads_def nf_def pf_def upd_buf_def u_def)
  then have "freed u [0..<h]" using h by (simp add: freed_def u_def)
  moreover have "NR_BUFFERS u = h" using fh by (simp add: fresh_heads_def u_def)
  moreover have "hashed u (\<lambda>_. [])" by (simp add: hashed_def u_def)
  ultimately have "cache_ok u (\<lambda>_. []) [0..<h]"
    using lk h by (intro cache_okI) auto
  moreover have "\<forall>i<h. reusable u i \<and> \<not> b_uptodate (bufs u i)"
    using lk by (auto simp: reusable_def BADNESS_def content_def)
  ultimately show ?thesis using e by blast
qed

theorem buffer_init_sound_witness:
  "\<exists>t N. buffer_init (quiet_env (2 ^ 32)) 0x400000 (k0\<lparr>start_buffer := 0x20000, NR_BUFFERS := 0\<rparr>) = Ret () t \<and>
     cache_ok t (\<lambda>_. []) [0..<N] \<and> reusable t 0"
proof -
  let ?s = "k0\<lparr>start_buffer := 0x20000, NR_BUFFERS := 0\<rparr>"
  have "1024 \<le> unat (start_buffer ?s)" "unat (start_buffer ?s) \<le> 0x90000" "0xA0000 \<le> unat (0x400000 :: u32)"
    "NR_BUFFERS ?s = 0" "2 ^ 32 \<le> fuel (quiet_env (2 ^ 32))" by (simp_all add: quiet_env_def)
  from buffer_init_sound [OF this] obtain t N where
    "buffer_init (quiet_env (2 ^ 32)) 0x400000 ?s = Ret () t" and c: "cache_ok t (\<lambda>_. []) [0..<N]"
    and r: "\<forall>i<N. reusable t i \<and> \<not> b_uptodate (bufs t i)" by blast
  moreover have "0 < N" using cache_okD(2) [OF c] by (auto simp: freed_def ring_def)
  ultimately show ?thesis by blast
qed

text \<open>Two buffers, the first of which holds block 7 of device 0x301 and is in use.\<close>

definition two_buffers :: kernel where
  "two_buffers = k0\<lparr>NR_BUFFERS := 2, free_list := Some 1,
     hash_table := (\<lambda>h. if h = hashfn 0x301 7 then Some 0 else None),
     bufs := (\<lambda>i. \<lparr>b_data = (\<lambda>_. 0), b_blocknr = 7, b_dev = (if i = 0 then 0x301 else 0), b_uptodate = True,
       b_dirt = False, b_count = (if i = 0 then 1 else 0), b_lock = False, b_prev = None, b_next = None,
       b_prev_free = Some (1 - i), b_next_free = Some (1 - i)\<rparr>)\<rparr>"

lemma two_buffers_ok:
  "cache_ok two_buffers (\<lambda>h. if h = hashfn 0x301 7 then [0] else []) [1, 0]"
proof (rule cache_okI [where N = 2])
  show "hashed two_buffers (\<lambda>h. if h = hashfn 0x301 7 then [0] else [])"
    by (simp add: two_buffers_def hashed_def nx_def pv_def hash_of_def key_def)
  show "freed two_buffers [1, 0]"
    by (simp add: two_buffers_def freed_def ring_def nf_def pf_def)
  show "if fst (key two_buffers i) = 0 then nx two_buffers i = None \<and> pv two_buffers i = None
     else i \<in> set (if hash_of two_buffers i = hashfn 0x301 7 then [0] else [])" if "i < 2" for i
    by (simp add: two_buffers_def nx_def pv_def hash_of_def key_def)
qed (auto simp: two_buffers_def key_def split: if_splits)

theorem getblk_returns_block_witness:
  "(\<exists>t. getblk (quiet_env 3) 0x301 7 two_buffers = Ret 0 t \<and> b_count (bufs t 0) = 2) \<and>
   (\<exists>t. getblk (quiet_env 3) 0x301 8 two_buffers = Ret 1 t \<and> key t 1 = (0x301, 8) \<and> key t 0 = (0x301, 7))"
proof -
  have f: "NR_BUFFERS two_buffers < fuel (quiet_env 3)" by (simp add: two_buffers_def quiet_env_def)
  have k: "key two_buffers 0 = (0x301, 7)" "key two_buffers 1 = (0, 7)" and N: "NR_BUFFERS two_buffers = 2"
    and l: "\<not> b_lock (bufs two_buffers i)" for i
    by (simp_all add: two_buffers_def key_def)
  have r: "reusable two_buffers 1" "\<not> reusable two_buffers 0"
    by (simp_all add: two_buffers_def reusable_def BADNESS_def)
  have k7: "i < NR_BUFFERS two_buffers \<Longrightarrow> key two_buffers i = (0x301, 7) \<longleftrightarrow> i = 0"
    and k8: "i < NR_BUFFERS two_buffers \<Longrightarrow> key two_buffers i \<noteq> (0x301, 8)" for i
    by (auto simp: two_buffers_def key_def)
  have e7: "\<exists>i<NR_BUFFERS two_buffers. key two_buffers i = (0x301, 7)" using k(1) N by (intro exI [of _ 0]) simp
  have e8: "\<exists>j<NR_BUFFERS two_buffers. reusable two_buffers j" using r(1) N by (intro exI [of _ 1]) simp
  from getblk_returns_block [OF two_buffers_ok f _ _ disjI1 [OF e7]] l
  obtain i t where t: "getblk (quiet_env 3) 0x301 7 two_buffers = Ret i t" "i < NR_BUFFERS two_buffers"
    "key two_buffers i = (0x301, 7)" "b_count (bufs t i) = b_count (bufs two_buffers i) + 1"
    using e7 by auto
  then have "getblk (quiet_env 3) 0x301 7 two_buffers = Ret 0 t \<and> b_count (bufs t 0) = 2"
    using k7 [OF t(2)] by (simp add: two_buffers_def)
  moreover have n8: "\<not> (\<exists>j<NR_BUFFERS two_buffers. key two_buffers j = (0x301, 8))" using k8 by blast
  have d: "(0x301 :: u16) \<noteq> 0" by simp
  from getblk_returns_block [OF two_buffers_ok f d _ disjI2 [OF e8], of 8, unfolded if_not_P [OF n8]] l
  obtain j u where "getblk (quiet_env 3) 0x301 8 two_buffers = Ret j u" "key u j = (0x301, 8)"
    "kept_others two_buffers j u" "find (reusable two_buffers) [1, 0] = Some j"
    by blast
  then have "getblk (quiet_env 3) 0x301 8 two_buffers = Ret 1 u \<and> key u 1 = (0x301, 8) \<and> key u 0 = (0x301, 7)"
    using r k N by (auto simp: kept_others_def)
  ultimately show ?thesis by blast
qed

end
