(* ===== verification/FileRefs.thy ===== *)
theory FileRefs
  imports Process
begin

text \<open>
  The reference counts of open files. \<open>files_ok\<close> says that \<^verbatim>\<open>f_count\<close> of every entry of
  \<^verbatim>\<open>file_table\<close> is the number of descriptors, over all tasks, that refer to it. The lemmas show that
  \<^verbatim>\<open>dup\<close>, \<^verbatim>\<open>close\<close> and \<^verbatim>\<open>fork\<close> keep it so.
\<close>

definition fd_refs :: "kernel \<Rightarrow> nat \<Rightarrow> (nat \<times> nat) set" where
  "fd_refs s f = {(i, fd). i < NR_TASKS \<and> task s i \<noteq> 0 \<and> fd < NR_OPEN \<and> t_filp (tsk s i) fd = Some f}"

definition files_ok :: "kernel \<Rightarrow> bool" where
  "files_ok s \<longleftrightarrow> (\<forall>f. unat (f_count (file_table s f)) = card (fd_refs s f))"

definition current_slot :: "kernel \<Rightarrow> nat \<Rightarrow> bool" where
  "current_slot s c \<longleftrightarrow> task_wf s \<and> c < NR_TASKS \<and> task s c = current s \<and> current s \<noteq> 0"

lemma finite_fd_refs [simp]: "finite (fd_refs s f)"
proof (rule finite_subset)
  show "fd_refs s f \<subseteq> {..<NR_TASKS} \<times> {..<NR_OPEN}" by (auto simp: fd_refs_def)
qed simp

lemma card_fd_refs: "card (fd_refs s f) \<le> 1280"
proof -
  have "fd_refs s f \<subseteq> {..<NR_TASKS} \<times> {..<NR_OPEN}" by (auto simp: fd_refs_def)
  then have "card (fd_refs s f) \<le> card ({..<NR_TASKS} \<times> {..<NR_OPEN})" by (intro card_mono) auto
  then show ?thesis by simp
qed

lemma count_inc: "unat (c :: u16) = n \<Longrightarrow> n \<le> 1280 \<Longrightarrow> unat (c + 1) = n + 1"
  by (simp add: unat_word_ariths)

lemma count_dec: "unat (c :: u16) = n \<Longrightarrow> 0 < n \<Longrightarrow> unat (c - 1) = n - 1"
  by (metis unat_gt_0 unat_minus_one)

lemma fd_refs_set_filp:
  assumes c: "current_slot s c" and fd: "fd < NR_OPEN"
  shows "fd_refs (set_filp fd v s) f = fd_refs s f - {(c, fd)} \<union> (if v = Some f then {(c, fd)} else {})"
proof -
  have "task s i = current s \<longleftrightarrow> i = c" if "i < NR_TASKS" for i
    using c that unfolding current_slot_def task_wf_def by metis
  then have e: "t_filp (tstruct (set_filp fd v s) (task s i)) = (if i = c then (t_filp (tsk s i))(fd := v) else t_filp (tsk s i))"
    if "i < NR_TASKS" for i
    using that c by (simp add: set_filp_def cur_def current_slot_def)
  have t: "task (set_filp fd v s) = task s" by (simp add: set_filp_def)
  have "c < NR_TASKS" "task s c \<noteq> 0" using c by (simp_all add: current_slot_def)
  moreover have "fd_refs (set_filp fd v s) f = {(i, d). i < NR_TASKS \<and> task s i \<noteq> 0 \<and> d < NR_OPEN \<and>
      (if i = c then (t_filp (tsk s i))(fd := v) else t_filp (tsk s i)) d = Some f}"
    by (simp add: fd_refs_def t e cong: conj_cong)
  ultimately show ?thesis using fd by (auto simp: fd_refs_def split: if_splits)
qed

lemma fd_refs_frame:
  "fd_refs (clear_cloexec k s) f = fd_refs s f" "fd_refs (upd_file g h s) f = fd_refs s f"
  by (auto simp: fd_refs_def clear_cloexec_def upd_file_def cur_def split: if_splits)

lemma current_slot_frame:
  "current_slot (clear_cloexec k s) c = current_slot s c" "current_slot (set_filp fd v s) c = current_slot s c"
  by (simp_all add: current_slot_def task_wf_def clear_cloexec_def set_filp_def)

lemma file_table_frame:
  "file_table (clear_cloexec k s) = file_table s" "file_table (set_filp fd v s) = file_table s"
  by (simp_all add: clear_cloexec_def set_filp_def upd_cur_def upd_task_def)

text \<open>\<^verbatim>\<open>dup\<close> and \<^verbatim>\<open>F_DUPFD\<close> return the lowest free descriptor from \<open>arg\<close> on, which then refers to the same
  file, and the reference counts of all files stay right; when the call fails nothing changes.\<close>

theorem dupfd_refs:
  assumes ok: "files_ok s" and c: "current_slot s c" and d: "dupfd fd arg s = (r, t)"
  shows "files_ok t \<and> (if r < 0 then t = s \<and> r \<in> {- EBADF, - EINVAL, - EMFILE}
    else unat arg \<le> nat r \<and> nat r < NR_OPEN \<and> t_filp (cur s) (nat r) = None \<and>
      (\<forall>k. unat arg \<le> k \<and> k < nat r \<longrightarrow> t_filp (cur s) k \<noteq> None) \<and>
      t_filp (cur t) (nat r) = t_filp (cur s) (unat fd))"
proof (cases "\<exists>f k. fd_file fd s = Some f \<and> arg < of_nat NR_OPEN \<and>
    find_up (\<lambda>k. t_filp (cur s) k = None) (unat arg) NR_OPEN = Some k")
  case False
  then show ?thesis using d ok by (auto simp: dupfd_def split: option.splits if_splits)
next
  case True
  then obtain f k where f: "fd_file fd s = Some f" and a: "arg < of_nat NR_OPEN"
    and k: "find_up (\<lambda>k. t_filp (cur s) k = None) (unat arg) NR_OPEN = Some k" by blast
  let ?s = "set_filp k (Some f) (clear_cloexec k s)"
  have t: "r = int k" "t = upd_file f (\<lambda>x. x\<lparr>f_count := f_count x + 1\<rparr>) ?s"
    using d f a k by (auto simp: dupfd_def Let_def not_le [symmetric])
  have kk: "unat arg \<le> k" "k < NR_OPEN" "t_filp (cur s) k = None"
    "\<forall>j. unat arg \<le> j \<and> j < k \<longrightarrow> t_filp (cur s) j \<noteq> None"
    using k by (auto simp: find_up_Some_iff)
  have tf: "t_filp (tsk s c) = t_filp (cur s)" using c by (simp add: current_slot_def cur_def)
  then have new: "(c, k) \<notin> fd_refs s g" for g using kk(3) by (simp add: fd_refs_def)
  have rf: "fd_refs t g = fd_refs s g \<union> (if g = f then {(c, k)} else {})" for g
    using fd_refs_set_filp [of "clear_cloexec k s" c k "Some f" g] c kk(2) new [of g]
    by (auto simp: t(2) fd_refs_frame current_slot_frame)
  have ct: "f_count (file_table t g) = (if g = f then f_count (file_table s g) + 1 else f_count (file_table s g))" for g
    by (simp add: t(2) upd_file_def file_table_frame)
  have "unat (f_count (file_table t g)) = card (fd_refs t g)" for g
    using ok count_inc [of "f_count (file_table s f)", OF _ card_fd_refs [of s f]] new [of f]
    by (simp add: files_ok_def rf ct)
  then have "files_ok t" by (simp add: files_ok_def)
  moreover have "t_filp (cur t) k = t_filp (cur s) (unat fd)"
    using f by (auto simp: t(2) upd_file_def set_filp_def cur_def fd_file_def upd_cur_def upd_task_def split: if_splits)
  ultimately show ?thesis using kk by (auto simp: t(1))
qed

text \<open>C14: \<^verbatim>\<open>close\<close> of an open descriptor first reaches a state \<open>t\<close> in which the descriptor and its
  close-on-exec bit are cleared, every file has lost exactly the references of that descriptor, the
  reference counts of the files are right and the inodes are as before; its own panic, for a file
  whose count is already 0, cannot happen. From \<open>t\<close> it returns 0, after \<^verbatim>\<open>iput\<close> on the inode of
  the file exactly when the last reference is gone. What \<^verbatim>\<open>iput\<close> does then (it may sleep, and it has
  panics of its own) is outside this property.\<close>

theorem close_refs:
  assumes ok: "files_ok s" and c: "current_slot s c" and f: "fd_file fd s = Some f"
  shows "\<exists>t. files_ok t \<and> t_filp (cur t) (unat fd) = None \<and> \<not> bit (t_close_on_exec (cur t)) (unat fd) \<and>
    (\<forall>g. fd_refs t g = fd_refs s g - {(c, unat fd)}) \<and> inode_table t = inode_table s \<and>
    sys_close E fd s = (if fd_refs t f = {} then kbind (iput E (f_inode (file_table s f)) t) (\<lambda>_ s. Ret 0 s)
                        else Ret 0 t)"
proof -
  have fd: "unat fd < NR_OPEN" "\<not> fd \<ge> of_nat NR_OPEN" "t_filp (cur s) (unat fd) = Some f"
    using f by (auto simp: fd_file_def word_le_nat_alt split: if_splits)
  let ?s = "set_filp (unat fd) None (clear_cloexec (unat fd) s)"
  let ?t = "upd_file f (\<lambda>x. x\<lparr>f_count := f_count x - 1\<rparr>) ?s"
  have old: "(c, unat fd) \<in> fd_refs s f" "\<And>g. g \<noteq> f \<Longrightarrow> (c, unat fd) \<notin> fd_refs s g"
    using c fd by (auto simp: fd_refs_def current_slot_def cur_def)
  have rf: "fd_refs ?t g = fd_refs s g - {(c, unat fd)}" for g
    using fd_refs_set_filp [of "clear_cloexec (unat fd) s" c "unat fd" None g] c fd(1)
    by (simp add: fd_refs_frame current_slot_frame)
  have n0: "0 < card (fd_refs s f)" using old(1) by (auto simp: card_gt_0_iff)
  have ct: "f_count (file_table ?t g) = (if g = f then f_count (file_table s g) - 1 else f_count (file_table s g))" for g
    by (simp add: upd_file_def file_table_frame)
  have "unat (f_count (file_table ?t g)) = card (fd_refs ?t g)" for g
    unfolding ct rf using ok n0 old by (cases "g = f") (simp_all add: files_ok_def count_dec)
  then have okt: "files_ok ?t" by (simp add: files_ok_def)
  have "f_count (file_table s f) \<noteq> 0" using ok [unfolded files_ok_def, rule_format, of f] n0 by auto
  moreover have "t_filp (cur (clear_cloexec (unat fd) s)) = t_filp (cur s)"
    by (simp add: clear_cloexec_def cur_def)
  moreover have "f_count (file_table ?t f) = 0 \<longleftrightarrow> fd_refs ?t f = {}"
  proof -
    have "f_count (file_table ?t f) = 0 \<longleftrightarrow> unat (f_count (file_table ?t f)) = 0" by (simp only: unat_eq_0)
    also have "\<dots> \<longleftrightarrow> fd_refs ?t f = {}" using okt by (simp only: files_ok_def card_0_eq [OF finite_fd_refs])
    finally show ?thesis .
  qed
  moreover have "f_inode (file_table ?t f) = f_inode (file_table s f)" by (simp add: upd_file_def file_table_frame)
  ultimately have "sys_close E fd s =
      (if fd_refs ?t f = {} then kbind (iput E (f_inode (file_table s f)) ?t) (\<lambda>_ s. Ret 0 s) else Ret 0 ?t)"
    using fd by (auto simp: sys_close_def Let_def file_table_frame)
  moreover have "t_filp (cur ?t) (unat fd) = None" "inode_table ?t = inode_table s"
    by (simp_all add: set_filp_def clear_cloexec_def upd_file_def cur_def upd_cur_def upd_task_def)
  moreover have "\<not> bit (t_close_on_exec (cur ?t)) (unat fd)"
    by (simp add: set_filp_def clear_cloexec_def upd_file_def cur_def upd_cur_def upd_task_def bit_simps)
  ultimately show ?thesis using okt rf by blast
qed

subsection \<open>Forking\<close>

lemma inc_f_counts_fold:
  defines "step \<equiv> \<lambda>p i s. case t_filp (tstruct s p) i of None \<Rightarrow> s
                 | Some f \<Rightarrow> upd_file f (\<lambda>x. x\<lparr>f_count := f_count x + 1\<rparr>) s"
  shows "\<exists>ft. fold (step p) xs s = s\<lparr>file_table := ft\<rparr> \<and>
    (\<forall>f. f_count (ft f) = f_count (file_table s f) + of_nat (length (filter (\<lambda>i. t_filp (tstruct s p) i = Some f) xs)))"
proof (induction xs arbitrary: s)
  case Nil
  then show ?case by (intro exI [of _ "file_table s"]) simp
next
  case (Cons x xs)
  show ?case
  proof (cases "t_filp (tstruct s p) x")
    case None
    then show ?thesis using Cons.IH [of s] by (simp add: step_def)
  next
    case (Some g)
    let ?s = "upd_file g (\<lambda>x. x\<lparr>f_count := f_count x + 1\<rparr>) s"
    from Cons.IH [of ?s] obtain ft where ft: "fold (step p) xs ?s = ?s\<lparr>file_table := ft\<rparr>"
      "\<forall>f. f_count (ft f) = f_count (file_table ?s f) +
         of_nat (length (filter (\<lambda>i. t_filp (tstruct ?s p) i = Some f) xs))" by blast
    have "fold (step p) (x # xs) s = s\<lparr>file_table := ft\<rparr>"
      using ft(1) Some by (simp add: step_def upd_file_def)
    moreover have "\<forall>f. f_count (ft f) = f_count (file_table s f) +
        of_nat (length (filter (\<lambda>i. t_filp (tstruct s p) i = Some f) (x # xs)))"
      using ft(2) Some by (simp add: upd_file_def)
    ultimately show ?thesis by blast
  qed
qed

lemma inc_f_counts_spec:
  "\<exists>ft. inc_f_counts p s = s\<lparr>file_table := ft\<rparr> \<and> (\<forall>f. f_count (ft f) = f_count (file_table s f) +
     of_nat (card {i. i < NR_OPEN \<and> t_filp (tstruct s p) i = Some f}))"
proof -
  have "length (filter P [0..<NR_OPEN]) = card {i. i < NR_OPEN \<and> P i}" for P
    using distinct_card [of "filter P [0..<NR_OPEN]"] by (simp add: conj_commute)
  then show ?thesis using inc_f_counts_fold [of p "[0..<NR_OPEN]" s]
    by (simp add: inc_f_counts_def)
qed

text \<open>\<^verbatim>\<open>copy_mem\<close> changes memory and the segments of the child only.\<close>

lemma copy_mem_frame:
  assumes "copy_mem nr p s = Ret e u"
  shows "\<exists>b l. mm_only (upd_task p (\<lambda>t. t\<lparr>t_start_code := b, t_ldt := l\<rparr>) s) u"
proof -
  define base :: u32 where "base = of_nat nr * 0x4000000"
  define l where "l = (t_ldt (tstruct s p))(1 := set_base base (t_ldt (tstruct s p) 1), 2 := set_base base (t_ldt (tstruct s p) 2))"
  let ?s = "upd_task p (\<lambda>t. t\<lparr>t_start_code := base, t_ldt := l\<rparr>) s"
  have s: "upd_task p (\<lambda>t. t\<lparr>t_start_code := base,
      t_ldt := (t_ldt t)(1 := set_base base (t_ldt t 1), 2 := set_base base (t_ldt t 2))\<rparr>) s = ?s"
    by (simp add: upd_task_def l_def)
  let ?m = "kbind (copy_page_tables (get_base (t_ldt (cur s) 2)) base (cur_limit 0x17 s) ?s) (\<lambda>r s'.
          if r \<noteq> 0 then kbind (free_page_tables base (cur_limit 0x17 s) s') (\<lambda>_ s. Ret (- ENOMEM) s) else Ret 0 s')"
  have "kpred (mm_only ?s) ?m" by (auto intro!: kpred_intro)
  moreover from assms have "?m = Ret e u"
    unfolding copy_mem_def Let_def base_def [symmetric] s by (simp split: if_splits)
  ultimately have "mm_only ?s u" by (simp only: kpred.simps)
  then show ?thesis by blast
qed

lemma inc_i_count_frame:
  "\<exists>it. inc_i_count i s = s\<lparr>inode_table := it\<rparr>"
proof (cases i)
  case None
  then show ?thesis by (intro exI [of _ "inode_table s"]) (simp add: inc_i_count_def)
qed (auto simp: inc_i_count_def upd_inode_def)

lemma desc_frame: "\<exists>gd. set_ldt_desc m x (set_tss_desc n y s) = s\<lparr>gdt := gd\<rparr>"
  unfolding set_ldt_desc_def set_tss_desc_def
  by (rule exI [of _ "(gdt s)(n := set_tssldt_desc y 0x89, m := set_tssldt_desc x 0x82)"]) simp

text \<open>The state that \<^verbatim>\<open>copy_process\<close> leaves when it succeeds, as far as tasks and files go.\<close>

lemma copy_process_no_page:
  assumes "fst (get_free_page s) = 0"
  shows "copy_process nr rg s = Ret (- EAGAIN) s"
proof -
  have "find_down (\<lambda>i. mem_map s i = 0) PAGING_PAGES = None"
  proof (rule ccontr)
    assume "find_down (\<lambda>i. mem_map s i = 0) PAGING_PAGES \<noteq> None"
    then obtain i where i: "find_down (\<lambda>i. mem_map s i = 0) PAGING_PAGES = Some i" by blast
    then have "i < PAGING_PAGES" by (simp add: find_down_Some_iff)
    then show False using unat_page_of_nr [of i] assms i by (simp add: get_free_page_def)
  qed
  then have "get_free_page s = (0, s)" by (simp add: get_free_page_def)
  then show ?thesis by (simp add: copy_process_def)
qed

lemma copy_process_Ret:
  assumes r: "copy_process nr rg s = Ret v t" and p: "p = fst (get_free_page s)"
    and p0: "p \<noteq> 0"
    and np: "\<forall>i<NR_TASKS. task s i \<noteq> p" and c: "current_slot s c" and nr: "nr < NR_TASKS" "task s nr = 0"
  shows "v = - EAGAIN \<and> (\<exists>u u' e. copy_mem nr p u = Ret e u' \<and> e \<noteq> 0 \<and> cur u = cur s \<and>
      mem_map u = mem_map (snd (get_free_page s)) \<and> phys u = phys (snd (get_free_page s))) \<and> task t = task s \<and> file_table t = file_table s \<and> (\<forall>q. q \<noteq> p \<longrightarrow> tstruct t q = tstruct s q)
    \<and> current t = current s \<or>
    v = last_pid s \<and> task t = (task s)(nr := p) \<and> p \<noteq> 0 \<and> current t = current s \<and>
    (\<forall>q. q \<noteq> p \<longrightarrow> tstruct t q = tstruct s q) \<and>
    (\<exists>b l f. tstruct t p = (child_task rg nr p s)\<lparr>t_state := TASK_RUNNING, t_start_code := b, t_ldt := l,
       t_tss := (child_tss rg nr p (t_tss (cur s)))\<lparr>tss_i387 := f\<rparr>\<rparr>) \<and>
    (\<forall>f. f_count (file_table t f) = f_count (file_table s f) +
       of_nat (card {i. i < NR_OPEN \<and> t_filp (cur s) i = Some f}))"
proof -
  obtain s1 where g: "get_free_page s = (p, s1)" using p by (cases "get_free_page s") auto
  have m1: "mm_only s s1" using mm_only_get_free_page [OF mm_only_refl g] .
  have cp: "current s \<noteq> p" using c np by (auto simp: current_slot_def)
  define s2 where "s2 = upd_task p (\<lambda>_. child_task rg nr p (s1\<lparr>task := (task s1)(nr := p)\<rparr>)) (s1\<lparr>task := (task s1)(nr := p)\<rparr>)"
  define A where "A = (if last_task_used_math s2 = current s2
       then upd_task p (\<lambda>t. t\<lparr>t_tss := (t_tss t)\<lparr>tss_i387 := fpu s2\<rparr>\<rparr>) (s2\<lparr>fpu := fpu_init s2\<rparr>) else s2)"
  have ch: "child_task rg nr p (s1\<lparr>task := (task s1)(nr := p)\<rparr>) = child_task rg nr p s"
    using m1 by (auto simp: mm_only_def child_task_def cur_def)
  have A: "task A = (task s)(nr := p)" "file_table A = file_table s" "current A = current s"
    "last_pid A = last_pid s" "\<forall>q. q \<noteq> p \<longrightarrow> tstruct A q = tstruct s q"
    using m1 by (auto simp: A_def s2_def upd_task_def mm_only_def)
  have tp: "tstruct s2 p = child_task rg nr p s" unfolding s2_def ch by simp
  have tt: "t_tss (child_task rg nr p s) = child_tss rg nr p (t_tss (cur s))" by (simp add: child_task_def Let_def)
  have Ap: "\<exists>f. tstruct A p = (child_task rg nr p s)\<lparr>t_tss := (child_tss rg nr p (t_tss (cur s)))\<lparr>tss_i387 := f\<rparr>\<rparr>"
  proof (cases "last_task_used_math s2 = current s2")
    case True
    then have "tstruct A p = (child_task rg nr p s)\<lparr>t_tss := (child_tss rg nr p (t_tss (cur s)))\<lparr>tss_i387 := fpu s2\<rparr>\<rparr>"
      by (simp add: A_def tp tt)
    then show ?thesis by blast
  next
    case False
    have "tstruct A p = (child_task rg nr p s)\<lparr>t_tss := (child_tss rg nr p (t_tss (cur s)))
        \<lparr>tss_i387 := tss_i387 (t_tss (child_task rg nr p s))\<rparr>\<rparr>"
      using False tt by (simp add: A_def tp)
    then show ?thesis by blast
  qed
  define K where "K = (\<lambda>(e :: int) s. if e \<noteq> 0 then kbind (free_page p (s\<lparr>task := (task s)(nr := 0)\<rparr>)) (\<lambda>_ s. Ret (- EAGAIN) s)
          else let s = inc_f_counts p s;
                   s = inc_i_count (t_pwd (cur s)) s;
                   s = inc_i_count (t_root (cur s)) s;
                   s = inc_i_count (t_executable (cur s)) s;
                   s = set_tss_desc (2 * nr + FIRST_TSS_ENTRY) (tss_addr p) s;
                   s = set_ldt_desc (2 * nr + FIRST_LDT_ENTRY) (ldt_addr p) s in
            Ret (last_pid s) (upd_task p (\<lambda>t. t\<lparr>t_state := TASK_RUNNING\<rparr>) s) :: int kres)"
  have "copy_process nr rg s = kbind (copy_mem nr p A) K"
    unfolding copy_process_def g K_def A_def s2_def Let_def prod.case if_not_P [OF p0] by (rule refl)
  with r obtain e u where u: "copy_mem nr p A = Ret e u" and k: "K e u = Ret v t"
    by (auto simp: kbind_eq_Ret_iff)
  from copy_mem_frame [OF u] obtain b l where m: "mm_only (upd_task p (\<lambda>t. t\<lparr>t_start_code := b, t_ldt := l\<rparr>) A) u"
    by blast
  have U: "task u = (task s)(nr := p)" "file_table u = file_table s" "current u = current s" "last_pid u = last_pid s"
    "\<forall>q. q \<noteq> p \<longrightarrow> tstruct u q = tstruct s q"
    "tstruct u p = (tstruct A p)\<lparr>t_start_code := b, t_ldt := l\<rparr>"
    using m A by (auto simp: mm_only_def upd_task_def)
  have cu: "cur u = cur s" using U(3,5) cp by (simp add: cur_def)
  show ?thesis
  proof (cases "e = 0")
    case False
    with k obtain w where "free_page p (u\<lparr>task := (task u)(nr := 0)\<rparr>) = Ret () w" "v = - EAGAIN" "t = w"
      by (auto simp: K_def kbind_eq_Ret_iff)
    moreover from this(1) have "mm_only (u\<lparr>task := (task u)(nr := 0)\<rparr>) w"
      using mm_only_free_page [OF mm_only_refl, of "u\<lparr>task := (task u)(nr := 0)\<rparr>" p] by simp
    moreover have "cur A = cur s" "mem_map A = mem_map (snd (get_free_page s))" "phys A = phys (snd (get_free_page s))"
      using A(3,5) cp by (simp_all add: cur_def g) (simp_all add: A_def s2_def upd_task_def)
    moreover have "\<exists>u u' e. copy_mem nr p u = Ret e u' \<and> e \<noteq> 0 \<and> cur u = cur s \<and>
      mem_map u = mem_map (snd (get_free_page s)) \<and> phys u = phys (snd (get_free_page s))"
      using u False calculation(5-7) by blast
    ultimately show ?thesis using U nr(2) by (intro disjI1) (auto simp: mm_only_def fun_upd_idem)
  next
    case True
    obtain ft where ft: "inc_f_counts p u = u\<lparr>file_table := ft\<rparr>"
      "\<forall>f. f_count (ft f) = f_count (file_table u f) +
         of_nat (card {i. i < NR_OPEN \<and> t_filp (tstruct u p) i = Some f})"
      using inc_f_counts_spec by blast
    let ?u = "u\<lparr>file_table := ft\<rparr>"
    have ii: "\<exists>it. inc_i_count a (inc_i_count b (inc_i_count c ?u)) = ?u\<lparr>inode_table := it\<rparr>" for a b c
    proof -
      obtain x where x: "inc_i_count c ?u = ?u\<lparr>inode_table := x\<rparr>" using inc_i_count_frame by blast
      obtain y where y: "inc_i_count b (?u\<lparr>inode_table := x\<rparr>) = ?u\<lparr>inode_table := x, inode_table := y\<rparr>"
        using inc_i_count_frame by blast
      obtain z where "inc_i_count a (?u\<lparr>inode_table := y\<rparr>) = ?u\<lparr>inode_table := y, inode_table := z\<rparr>"
        using inc_i_count_frame by blast
      with x y show ?thesis by auto
    qed
    from k obtain x1 x2 x3 where t0: "t = upd_task p (\<lambda>t. t\<lparr>t_state := TASK_RUNNING\<rparr>)
        (set_ldt_desc (2 * nr + FIRST_LDT_ENTRY) (ldt_addr p) (set_tss_desc (2 * nr + FIRST_TSS_ENTRY) (tss_addr p)
           (inc_i_count x1 (inc_i_count x2 (inc_i_count x3 ?u)))))"
      and v0: "v = last_pid (set_ldt_desc (2 * nr + FIRST_LDT_ENTRY) (ldt_addr p) (set_tss_desc (2 * nr + FIRST_TSS_ENTRY) (tss_addr p)
           (inc_i_count x1 (inc_i_count x2 (inc_i_count x3 ?u)))))"
      unfolding K_def Let_def ft(1) using True by auto
    obtain it where it: "inc_i_count x1 (inc_i_count x2 (inc_i_count x3 ?u)) = ?u\<lparr>inode_table := it\<rparr>"
      using ii by blast
    obtain gd where gd: "set_ldt_desc (2 * nr + FIRST_LDT_ENTRY) (ldt_addr p)
        (set_tss_desc (2 * nr + FIRST_TSS_ENTRY) (tss_addr p) (?u\<lparr>inode_table := it\<rparr>)) = ?u\<lparr>inode_table := it, gdt := gd\<rparr>"
      using desc_frame by blast
    have t: "t = upd_task p (\<lambda>t. t\<lparr>t_state := TASK_RUNNING\<rparr>) (?u\<lparr>inode_table := it, gdt := gd\<rparr>)"
      unfolding t0 it gd ..
    have v: "v = last_pid s" unfolding v0 it gd using U(4) by simp
    have T: "task t = task u" "current t = current u" "file_table t = ft"
      "\<forall>q. q \<noteq> p \<longrightarrow> tstruct t q = tstruct u q" "tstruct t p = (tstruct u p)\<lparr>t_state := TASK_RUNNING\<rparr>"
      by (simp_all add: t upd_task_def)
    obtain f where Af: "tstruct A p =
        (child_task rg nr p s)\<lparr>t_tss := (child_tss rg nr p (t_tss (cur s)))\<lparr>tss_i387 := f\<rparr>\<rparr>" using Ap by blast
    have fp: "t_filp (tstruct u p) = t_filp (cur s)" unfolding U(6) Af by (simp add: child_task_def Let_def)
    have ch': "tstruct t p = (child_task rg nr p s)\<lparr>t_state := TASK_RUNNING, t_start_code := b, t_ldt := l,
       t_tss := (child_tss rg nr p (t_tss (cur s)))\<lparr>tss_i387 := f\<rparr>\<rparr>" unfolding T(5) U(6) Af by simp
    have q: "\<forall>q. q \<noteq> p \<longrightarrow> tstruct t q = tstruct s q" using T(4) U(5) by simp
    have fc: "\<forall>f. f_count (file_table t f) = f_count (file_table s f) +
       of_nat (card {i. i < NR_OPEN \<and> t_filp (cur s) i = Some f})" using ft(2) unfolding T(3) U(2) fp .
    have "task t = (task s)(nr := p)" "current t = current s" using T(1,2) U(1,3) by simp_all
    with v q fc ch' p0 show ?thesis by blast
  qed
qed

lemma fd_refs_fork:
  assumes "task t = (task s)(nr := p)" "p \<noteq> 0" "\<forall>q. q \<noteq> p \<longrightarrow> tstruct t q = tstruct s q"
    "\<forall>i<NR_TASKS. task s i \<noteq> p" "nr < NR_TASKS" "task s nr = 0"
  shows "fd_refs t f = fd_refs s f \<union> {nr} \<times> {i. i < NR_OPEN \<and> t_filp (tstruct t p) i = Some f}"
    "fd_refs s f \<inter> {nr} \<times> {i. i < NR_OPEN \<and> t_filp (tstruct t p) i = Some f} = {}"
  using assms by (auto simp: fd_refs_def split: if_splits)

text \<open>C13: When no page is free for the task structure, \<^verbatim>\<open>copy_process\<close> returns -EAGAIN and changes nothing.
  Otherwise it either returns -EAGAIN with the task table as it was, which happens only when
  \<^verbatim>\<open>copy_mem\<close> fails on the caller's memory with that page taken, or puts into the free slot a child with
  the new process number whose father is the caller, which is runnable with a full time slice and no
  pending signals, will return 0 from the system call at the caller's address, and shares all open
  files. In all cases the caller and all other tasks are unchanged, the slots of the table stay
  distinct, and the reference counts of the files stay right.\<close>

theorem fork_child:
  assumes ok: "files_ok s" and c: "current_slot s c" and nr: "nr < NR_TASKS" "task s nr = 0"
    and np: "\<forall>i<NR_TASKS. task s i \<noteq> 0 \<longrightarrow> task s i \<noteq> fst (get_free_page s)" and r: "copy_process nr rg s = Ret v t"
  shows "files_ok t \<and> task_wf t \<and> cur t = cur s \<and> (\<forall>i<NR_TASKS. task s i \<noteq> 0 \<longrightarrow> task t i = task s i \<and> tsk t i = tsk s i) \<and>
    (if fst (get_free_page s) = 0 then v = - EAGAIN \<and> t = s
     else v = - EAGAIN \<and> task t = task s \<and>
       (\<exists>u u' e. copy_mem nr (fst (get_free_page s)) u = Ret e u' \<and> e \<noteq> 0 \<and> cur u = cur s \<and>
          mem_map u = mem_map (snd (get_free_page s)) \<and> phys u = phys (snd (get_free_page s))) \<or>
     v = last_pid s \<and> task t nr \<noteq> 0 \<and> t_pid (tsk t nr) = last_pid s \<and> t_father (tsk t nr) = t_pid (cur s) \<and>
     t_state (tsk t nr) = TASK_RUNNING \<and> t_counter (tsk t nr) = t_priority (cur s) \<and> t_signal (tsk t nr) = 0 \<and>
     tss_eax (t_tss (tsk t nr)) = 0 \<and> tss_eip (t_tss (tsk t nr)) = reg_eip rg \<and> t_filp (tsk t nr) = t_filp (cur s))"
proof (cases "fst (get_free_page s) = 0")
  case True
  then have "v = - EAGAIN" "t = s" using r copy_process_no_page [of s nr rg] by simp_all
  then show ?thesis using ok c True by (simp add: current_slot_def)
next
  case False
  define p where "p = fst (get_free_page s)"
  have p0: "p \<noteq> 0" using False by (simp add: p_def)
  have np: "\<forall>i<NR_TASKS. task s i \<noteq> p" using np p0 by (auto simp: p_def)
  have cp: "current s \<noteq> p" using c np by (auto simp: current_slot_def)
  have wf: "task_wf s" using c by (simp add: current_slot_def)
  from copy_process_Ret [OF r p_def p0 np c nr] show ?thesis
  proof (elim disjE conjE)
    assume f: "v = - EAGAIN" "task t = task s" "file_table t = file_table s" "\<forall>q. q \<noteq> p \<longrightarrow> tstruct t q = tstruct s q"
      "current t = current s" "\<exists>u u' e. copy_mem nr p u = Ret e u' \<and> e \<noteq> 0 \<and> cur u = cur s \<and>
      mem_map u = mem_map (snd (get_free_page s)) \<and> phys u = phys (snd (get_free_page s))"
    have tk: "tsk t i = tsk s i" if "i < NR_TASKS" for i using f(2,4) np that by simp
    then have "fd_refs t g = fd_refs s g" for g by (simp add: fd_refs_def f(2) cong: conj_cong)
    then have "files_ok t" using ok by (simp add: files_ok_def f(3))
    moreover have "task_wf t" using wf by (simp add: task_wf_def f(2))
    moreover have "cur t = cur s" using f(4,5) cp by (simp add: cur_def)
    ultimately show ?thesis using f(1,2,6) tk p0 by (simp flip: p_def)
  next
    assume a: "v = last_pid s" "task t = (task s)(nr := p)" "p \<noteq> 0" "current t = current s"
      "\<forall>q. q \<noteq> p \<longrightarrow> tstruct t q = tstruct s q"
      "\<exists>b l f. tstruct t p = (child_task rg nr p s)\<lparr>t_state := TASK_RUNNING, t_start_code := b, t_ldt := l,
         t_tss := (child_tss rg nr p (t_tss (cur s)))\<lparr>tss_i387 := f\<rparr>\<rparr>"
      "\<forall>f. f_count (file_table t f) = f_count (file_table s f) +
         of_nat (card {i. i < NR_OPEN \<and> t_filp (cur s) i = Some f})"
    have ch: "t_pid (tstruct t p) = last_pid s" "t_father (tstruct t p) = t_pid (cur s)"
      "t_state (tstruct t p) = TASK_RUNNING" "t_counter (tstruct t p) = t_priority (cur s)"
      "t_signal (tstruct t p) = 0" "tss_eax (t_tss (tstruct t p)) = 0" "tss_eip (t_tss (tstruct t p)) = reg_eip rg"
      "t_filp (tstruct t p) = t_filp (cur s)"
      using a(6) by (auto simp: child_task_def child_tss_def Let_def)
    let ?N = "\<lambda>f. {i. i < NR_OPEN \<and> t_filp (cur s) i = Some f}"
    have card: "card (fd_refs t f) = card (fd_refs s f) + card (?N f)" for f
      using fd_refs_fork [OF a(2,3,5) np nr, of f] ch(8) by (simp add: card_Un_disjoint card_cartesian_product)
    have "unat (f_count (file_table t f)) = card (fd_refs t f)" for f
    proof -
      have "card (fd_refs s f) + card (?N f) < 2 ^ 16" using card_fd_refs [of t f] card [of f] by simp
      moreover have "unat (f_count (file_table s f)) = card (fd_refs s f)" using ok by (simp add: files_ok_def)
      ultimately have "unat (f_count (file_table s f) + of_nat (card (?N f))) = card (fd_refs s f) + card (?N f)"
        by (simp add: unat_word_ariths unsigned_of_nat take_bit_eq_mod)
      then show ?thesis using a(7) card by simp
    qed
    then have "files_ok t" by (simp add: files_ok_def)
    moreover have "task_wf t" using wf np a(3) unfolding task_wf_def a(2) by (auto split: if_splits)
    moreover have "cur t = cur s" using a(4,5) cp by (simp add: cur_def)
    moreover have "\<forall>i<NR_TASKS. task s i \<noteq> 0 \<longrightarrow> task t i = task s i \<and> tsk t i = tsk s i"
      using a(2,5) np nr(2) by auto
    moreover have "\<forall>i<NR_TASKS. task s i \<noteq> 0 \<longrightarrow> tstruct t (task s i) = tstruct s (task s i)" using a(5) np by auto
    moreover have "task t nr = p" using a(2) by simp
    ultimately show ?thesis using a(1,3) ch by (simp flip: p_def)
  qed
qed

text \<open>Three tasks, of which the current one has a file open as its descriptor 0.\<close>

definition one_file :: kernel where
  "one_file = three_tasks\<lparr>last_pid := 7,
     tstruct := (\<lambda>p. zero_task\<lparr>t_pid := 4, t_filp := (\<lambda>fd. if p = 0x2000 \<and> fd = 0 then Some 0 else None)\<rparr>),
     file_table := (\<lambda>f. (file_table three_tasks f)\<lparr>f_count := (if f = 0 then 1 else 0)\<rparr>)\<rparr>"

lemma one_file_tasks:
  "task one_file i = (if i = 0 then 0x1000 else if i = 1 then 0x2000 else if i = 2 then 0x3000 else 0)"
  "current one_file = 0x2000" "current_slot one_file 1"
  by (auto simp: one_file_def three_tasks_def current_slot_def task_wf_def split: if_splits)

lemma one_file_refs: "fd_refs one_file f = (if f = 0 then {(1, 0)} else {})"
  by (auto simp: fd_refs_def one_file_tasks) (auto simp: one_file_def split: if_splits)

lemma one_file_ok: "files_ok one_file"
  by (simp add: files_ok_def one_file_refs) (simp add: one_file_def)

lemma one_file_fd: "fd_file 0 one_file = Some 0"
  by (simp add: fd_file_def cur_def one_file_tasks) (simp add: one_file_def)

theorem dupfd_refs_witness: "files_ok (snd (dupfd 0 0 one_file)) \<and> fst (dupfd 0 0 one_file) = 1"
proof -
  have "find_up (\<lambda>k. t_filp (cur one_file) k = None) 0 NR_OPEN = Some 1"
    by (auto simp: find_up_Some_iff cur_def one_file_tasks) (auto simp: one_file_def)
  then have "fst (dupfd 0 0 one_file) = 1" by (simp add: dupfd_def one_file_fd Let_def)
  with dupfd_refs [OF one_file_ok one_file_tasks(3) surjective_pairing, of 0 0] show ?thesis by simp
qed

theorem close_refs_witness:
  "\<exists>t. files_ok t \<and> sys_close (quiet_env 2) 0 one_file =
     kbind (iput (quiet_env 2) (f_inode (file_table one_file 0)) t) (\<lambda>_ s. Ret 0 s)"
proof -
  from close_refs [OF one_file_ok one_file_tasks(3) one_file_fd, of "quiet_env 2"] obtain t where
    "files_ok t" "fd_refs t 0 = {}" "sys_close (quiet_env 2) 0 one_file = (if fd_refs t 0 = {}
       then kbind (iput (quiet_env 2) (f_inode (file_table one_file 0)) t) (\<lambda>_ s. Ret 0 s) else Ret 0 t)"
    by (auto simp: one_file_refs)
  then show ?thesis by auto
qed

lemma copy_mem_empty:
  assumes "phys A = (\<lambda>_. 0)" "t_ldt (cur A) = (\<lambda>_. zero_desc)"
  shows "\<exists>f. copy_mem 3 p A = Ret 0 (upd_task p f A)"
proof -
  have b: "get_base zero_desc = 0" "cur_limit k A = 1" for k
    using assms(2) by (simp_all add: get_base_def cur_limit_def get_limit_def zero_desc_def)
  let ?f = "\<lambda>t. t\<lparr>t_start_code := 0xc000000,
      t_ldt := (t_ldt t)(1 := set_base 0xc000000 (t_ldt t 1), 2 := set_base 0xc000000 (t_ldt t 2))\<rparr>"
  have "phys (upd_task p g A) = (\<lambda>_. 0)" for g using assms(1) by (simp add: upd_task_def)
  then have "copy_mem 3 p A = Ret 0 (upd_task p ?f A)"
    using assms by (simp add: copy_mem_def b Let_def copy_page_tables_def copy_dir_entry_def)
  then show ?thesis by blast
qed

theorem fork_child_witness:
  "\<exists>t. copy_process 3 some_regs one_file = Ret 7 t \<and> files_ok t \<and> t_pid (tsk t 3) = 7 \<and>
     tss_eax (t_tss (tsk t 3)) = 0"
proof -
  have m: "mem_map one_file = (\<lambda>_. 0)" "phys one_file = (\<lambda>_. 0)" "last_pid one_file = 7"
    by (simp_all add: one_file_def three_tasks_def k0_def)
  have "find_down (\<lambda>i. mem_map one_file i = 0) PAGING_PAGES = Some 3839"
    by (auto simp: m find_down_Some_iff)
  then have g: "get_free_page one_file = (0xfff000, clear_page 0xfff000 (set_map 3839 1 one_file))"
    by (simp add: get_free_page_def page_of_nr_def)
  have np: "\<forall>i<NR_TASKS. task one_file i \<noteq> 0 \<longrightarrow> task one_file i \<noteq> fst (get_free_page one_file)" by (simp add: g one_file_tasks)
  have z: "phys (clear_page 0xfff000 (set_map 3839 1 one_file)) = (\<lambda>_. 0)" by (auto simp: clear_page_def set_map_def m)
  have "\<exists>t. copy_process 3 some_regs one_file = Ret 7 t"
  proof -
    define s1 where "s1 = clear_page 0xfff000 (set_map 3839 1 one_file)"
    define A where "A = upd_task 0xfff000 (\<lambda>_. child_task some_regs 3 0xfff000 (s1\<lparr>task := (task s1)(3 := 0xfff000)\<rparr>))
      (s1\<lparr>task := (task s1)(3 := 0xfff000)\<rparr>)"
    have math: "last_task_used_math A \<noteq> current A"
      by (simp add: A_def s1_def clear_page_def set_map_def upd_task_def one_file_def three_tasks_def k0_def)
    have ph: "phys A = (\<lambda>_. 0)" using z by (simp add: A_def s1_def upd_task_def)
    have ld: "t_ldt (cur A) = (\<lambda>_. zero_desc)"
      by (simp add: A_def s1_def cur_def clear_page_def set_map_def one_file_tasks) (simp add: one_file_def zero_task_def)
    from copy_mem_empty [OF ph ld] obtain f where cm: "copy_mem 3 0xfff000 A = Ret 0 (upd_task 0xfff000 f A)" ..
    obtain ft where ft: "inc_f_counts 0xfff000 (upd_task 0xfff000 f A) = (upd_task 0xfff000 f A)\<lparr>file_table := ft\<rparr>"
      using inc_f_counts_spec by blast
    have lp: "last_pid (inc_i_count i x) = last_pid x" for i x
      by (simp add: inc_i_count_def upd_inode_def split: option.split)
    have lA: "last_pid (upd_task 0xfff000 f A) = 7"
      by (simp add: A_def s1_def upd_task_def clear_page_def set_map_def m)
    have nz: "(0xfff000 :: u32) \<noteq> 0" "\<not> (0 :: int) \<noteq> 0" by simp_all
    show ?thesis
      unfolding copy_process_def g s1_def [symmetric] Let_def prod.case if_not_P [OF nz(1)] A_def [symmetric]
        if_not_P [OF math] cm kbind.simps if_not_P [OF nz(2)] ft
      by (simp add: lp set_tss_desc_def set_ldt_desc_def lA)
  qed
  then obtain t where t: "copy_process 3 some_regs one_file = Ret 7 t" ..
  have "(3 :: nat) < NR_TASKS" "task one_file 3 = 0" by (simp_all add: one_file_tasks)
  from fork_child [OF one_file_ok one_file_tasks(3) this np t] t show ?thesis
    by (simp add: m(3) g)
qed

end
