(* ===== verification/Hd.thy ===== *)
theory Hd
  imports Super
begin

text \<open>
  The hard disk driver, kernel/blk_drv/hd.c with include/linux/hdreg.h, and the assembler stub \<^verbatim>\<open>hd_interrupt\<close>
  of kernel/system_call.s that calls whatever \<^verbatim>\<open>do_hd\<close> points to. A routine takes the driver's
  variables and the kernel's state and returns the new variables. The controller is two answers: \<open>hd_ins p k\<close>
  is the byte that the \<open>k\<close>-th read of a register delivers when it goes to port \<open>p\<close>, \<open>hd_data_in k\<close> the
  \<open>k\<close>-th byte the data register delivers; what the driver writes is kept in order in \<open>hd_outs\<close> (port and byte)
  and \<open>hd_data_out\<close> (the data register).
\<close>

subsection \<open>State\<close>

record hd_i_struct =
  hdi_head :: int
  hdi_sect :: int
  hdi_cyl :: int
  hdi_wpcom :: int
  hdi_lzone :: int
  hdi_ctl :: int

record hd_struct =
  start_sect :: int
  nr_sects :: int

datatype hd_intr = Recal_intr | Read_intr | Write_intr

record hd_tables =
  callable :: bool
  hd_info :: "nat \<Rightarrow> hd_i_struct"
  NR_HD :: nat
  hd_parts :: "nat \<Rightarrow> hd_struct"

record hd_drv = hd_tables +
  recalibrate :: bool
  reset :: bool
  do_hd :: "hd_intr option"
  hd_outs :: "(nat \<times> u8) list"
  hd_data_out :: "u8 list"
  hd_ins :: "nat \<Rightarrow> nat \<Rightarrow> u8"
  hd_nins :: nat
  hd_data_in :: "nat \<Rightarrow> u8"
  hd_ndata :: nat

type_synonym hdres = "(kernel, hd_drv) outcome"

abbreviation (input) "MAX_ERRORS \<equiv> (7 :: int)"
abbreviation (input) "HD_DATA \<equiv> (0x1f0 :: nat)"
abbreviation (input) "HD_ERROR \<equiv> (0x1f1 :: nat)"
abbreviation (input) "HD_STATUS \<equiv> (0x1f7 :: nat)"
abbreviation (input) "HD_CMD \<equiv> (0x3f6 :: nat)"
abbreviation (input) "WIN_RESTORE \<equiv> (0x10 :: u8)"
abbreviation (input) "WIN_READ \<equiv> (0x20 :: u8)"
abbreviation (input) "WIN_WRITE \<equiv> (0x30 :: u8)"
abbreviation (input) "WIN_SPECIFY \<equiv> (0x91 :: u8)"

subsection \<open>The controller's registers\<close>

definition hd_inb :: "nat \<Rightarrow> hd_drv \<Rightarrow> u8 \<times> hd_drv" where
  "hd_inb port h = (hd_ins h port (hd_nins h), h\<lparr>hd_nins := hd_nins h + 1\<rparr>)"

definition hd_outb :: "(nat \<times> u8) list \<Rightarrow> hd_drv \<Rightarrow> hd_drv" where
  "hd_outb bs h = h\<lparr>hd_outs := hd_outs h @ bs\<rparr>"

text \<open>The loop of \<^verbatim>\<open>controller_ready\<close>; the result is the value of \<^verbatim>\<open>retries\<close>.\<close>

fun ready_loop :: "nat \<Rightarrow> hd_drv \<Rightarrow> nat \<times> hd_drv" where
  "ready_loop 0 h = (0, h)"
| "ready_loop (Suc retries) h =
     (if retries = 0 then (0, h)
      else let (st, h) = hd_inb HD_STATUS h in
        if st AND 0xc0 \<noteq> 0x40 then ready_loop retries h else (retries, h))"

definition controller_ready :: "hd_drv \<Rightarrow> nat \<times> hd_drv" where
  "controller_ready h = ready_loop 10000 h"

definition win_result :: "hd_drv \<Rightarrow> bool \<times> hd_drv" where
  "win_result h =
     (let (i, h) = hd_inb HD_STATUS h in
      if i AND 0xf1 = 0x50 then (False, h)
      else if i AND 1 \<noteq> 0 then (True, snd (hd_inb HD_ERROR h)) else (True, h))"

definition hd_out :: "u32 \<Rightarrow> u32 \<Rightarrow> u32 \<Rightarrow> u32 \<Rightarrow> u32 \<Rightarrow> u8 \<Rightarrow> hd_intr \<Rightarrow> hd_drv \<Rightarrow> kernel \<Rightarrow> hdres" where
  "hd_out drive nsect sect head cyl cmd intr_addr h s =
     (if drive > 1 \<or> head > 15 then Panic ''Trying to write bad sector'' s
      else let (retries, h) = controller_ready h in
        if retries = 0 then Panic ''HD controller not ready'' s
        else Ret (hd_outb
          [(HD_CMD, word_of_int (hdi_ctl (hd_info h (unat drive)))),
           (0x1f1, word_of_int (hdi_wpcom (hd_info h (unat drive)) div 4)),
           (0x1f2, ucast nsect), (0x1f3, ucast sect), (0x1f4, ucast cyl), (0x1f5, ucast (drop_bit 8 cyl)),
           (0x1f6, 0xA0 OR ucast (push_bit 4 drive) OR ucast head), (0x1f7, cmd)]
          (h\<lparr>do_hd := Some intr_addr\<rparr>)) s)"

text \<open>In \<^verbatim>\<open>drive_busy\<close> the comparison binds tighter than the bitwise or, so the test is always true.\<close>

fun busy_loop :: "nat \<Rightarrow> hd_drv \<Rightarrow> hd_drv" where
  "busy_loop 0 h = h"
| "busy_loop (Suc n) h = (let (st, h) = hd_inb HD_STATUS h in if st AND 0xc0 = 0x40 then h else busy_loop n h)"

definition drive_busy :: "hd_drv \<Rightarrow> bool \<times> hd_drv" where
  "drive_busy h =
     (let (i, h) = hd_inb HD_STATUS (busy_loop 10000 h); i = i AND 0xd0 in
      if (if i = 0x40 then 1 else 0) OR (0x10 :: u8) \<noteq> 0 then (False, h) else (True, h))"

definition reset_controller :: "hd_drv \<Rightarrow> hd_drv" where
  "reset_controller h =
     (let h = hd_outb [(HD_CMD, 4), (HD_CMD, word_of_int (hdi_ctl (hd_info h 0)) AND 0x0f)] h;
          (busy, h) = drive_busy h in
      snd (hd_inb HD_ERROR h))"

definition reset_hd :: "nat \<Rightarrow> hd_drv \<Rightarrow> kernel \<Rightarrow> hdres" where
  "reset_hd nr h s =
     (let i = hd_info h nr in
      hd_out (of_nat nr) (word_of_int (hdi_sect i)) (word_of_int (hdi_sect i)) (word_of_int (hdi_head i - 1))
        (word_of_int (hdi_cyl i)) WIN_SPECIFY Recal_intr (reset_controller h) s)"

subsection \<open>Requests and interrupts\<close>

text \<open>\<^verbatim>\<open>CURRENT->errors\<close>, also when the queue is empty: then \<^verbatim>\<open>bad_rw_intr\<close> reads it through the null
  pointer, at address 8 of physical memory. Only its second test can meet an empty queue on the way of a failed
  request, after \<^verbatim>\<open>end_request\<close>; when the queue is empty from the start, the routine has no request to count the
  error for and increments through the null pointer, a store into the page directory, which is \<open>Fault\<close>.\<close>

definition CURRENT_errors :: "kernel \<Rightarrow> int" where
  "CURRENT_errors s =
     (case current_request (blk_dev s 3) of None \<Rightarrow> sint (phys s 8) | Some r \<Rightarrow> r_errors (request s r))"

definition bad_rw_intr :: "hd_drv \<Rightarrow> kernel \<Rightarrow> hdres" where
  "bad_rw_intr h s =
     (case current_request (blk_dev s 3) of
        None \<Rightarrow> Fault
      | Some r \<Rightarrow>
          let s = upd_req r (\<lambda>q. q\<lparr>r_errors := wrap32 (r_errors q + 1)\<rparr>) s in
          kbind (if r_errors (request s r) \<ge> MAX_ERRORS then end_request 3 False s else Ret () s) (\<lambda>_ s.
            Ret (if CURRENT_errors s > MAX_ERRORS div 2 then h\<lparr>reset := True\<rparr> else h) s))"

text \<open>\<^verbatim>\<open>port_read\<close> and \<^verbatim>\<open>port_write\<close> of 256 words between the data register and the buffer of request \<open>r\<close>.\<close>

definition store_sector :: "nat \<Rightarrow> (nat \<Rightarrow> u8) \<Rightarrow> buffer_head \<Rightarrow> buffer_head" where
  "store_sector off d b = b\<lparr>b_data := (\<lambda>k. if off \<le> k \<and> k < off + 512 then d (k - off) else b_data b k)\<rparr>"

definition port_read :: "nat \<Rightarrow> hd_drv \<Rightarrow> kernel \<Rightarrow> hdres" where
  "port_read r h s =
     (let off = r_buffer (request s r) in
      case r_bh (request s r) of
        None \<Rightarrow> Fault
      | Some bh \<Rightarrow>
          if off + 512 > BLOCK_SIZE then Fault
          else Ret (h\<lparr>hd_ndata := hd_ndata h + 512\<rparr>)
            (upd_buf bh (store_sector off (\<lambda>k. hd_data_in h (hd_ndata h + k))) s))"

definition port_write :: "nat \<Rightarrow> hd_drv \<Rightarrow> kernel \<Rightarrow> hdres" where
  "port_write r h s =
     (let off = r_buffer (request s r) in
      case r_bh (request s r) of
        None \<Rightarrow> Fault
      | Some bh \<Rightarrow>
          if off + 512 > BLOCK_SIZE then Fault
          else Ret (h\<lparr>hd_data_out := hd_data_out h @ map (\<lambda>k. b_data (bufs s bh) (off + k)) [0..<512]\<rparr>) s)"

text \<open>The wait for the data request bit after a write command.\<close>

fun drq_loop :: "nat \<Rightarrow> hd_drv \<Rightarrow> bool \<times> hd_drv" where
  "drq_loop 0 h = (False, h)"
| "drq_loop (Suc n) h = (let (st, h) = hd_inb HD_STATUS h in if st AND 8 \<noteq> 0 then (True, h) else drq_loop n h)"

text \<open>The place of a sector on a disk with \<open>sects\<close> sectors per track and \<open>heads\<close> heads: sector (from 1), head
  and cylinder, by the two \<^verbatim>\<open>divl\<close> instructions.\<close>

definition hd_place :: "u32 \<Rightarrow> u32 \<Rightarrow> u32 \<Rightarrow> u32 \<times> u32 \<times> u32" where
  "hd_place sects heads block = (block mod sects + 1, block div sects mod heads, block div sects div heads)"

text \<open>One round from the label \<^verbatim>\<open>repeat\<close>: \<open>Inl\<close> goes back to it. The command after the resets.\<close>

definition hd_command :: "nat \<Rightarrow> u32 \<Rightarrow> u32 \<Rightarrow> u32 \<Rightarrow> u32 \<Rightarrow> hd_drv \<Rightarrow> kernel \<Rightarrow> (kernel, hd_drv + hd_drv) outcome" where
  "hd_command r dev sec head cyl h s =
     (case r_cmd (request s r) of
        WRITE \<Rightarrow>
          kbind (hd_out dev (r_nr_sectors (request s r)) sec head cyl WIN_WRITE Write_intr h s) (\<lambda>h s.
            let (drq, h) = drq_loop 3000 h in
            if \<not> drq then kbind (bad_rw_intr h s) (\<lambda>h s. Ret (Inl h) s)
            else kbind (port_write r h s) (\<lambda>h s. Ret (Inr h) s))
      | READ \<Rightarrow>
          kbind (hd_out dev (r_nr_sectors (request s r)) sec head cyl WIN_READ Read_intr h s) (\<lambda>h s. Ret (Inr h) s)
      | _ \<Rightarrow> Panic ''unknown hd-command'' s)"

definition hd_request_step :: "hd_drv \<Rightarrow> kernel \<Rightarrow> (kernel, hd_drv + hd_drv) outcome" where
  "hd_request_step h s =
     kbind (INIT_REQUEST 3 s) (\<lambda>q s.
       case q of
         None \<Rightarrow> Ret (Inr h) s
       | Some r \<Rightarrow>
           let dev = unat (word_of_int (r_dev (request s r)) AND 0xff :: u32);
               block = r_sector (request s r) in
           if dev \<ge> 5 * NR_HD h \<or> block + 2 > word_of_int (nr_sects (hd_parts h dev))
           then kbind (end_request 3 False s) (\<lambda>_ s. Ret (Inl h) s)
           else
             let block = block + word_of_int (start_sect (hd_parts h dev));
                 dev = dev div 5;
                 sects = word_of_int (hdi_sect (hd_info h dev));
                 heads = word_of_int (hdi_head (hd_info h dev));
                 (sec, head, cyl) = hd_place sects heads block in
             if sects = 0 \<or> heads = 0 then Fault
             else if reset h
             then kbind (reset_hd dev (h\<lparr>reset := False, recalibrate := True\<rparr>) s) (\<lambda>h s. Ret (Inr h) s)
             else if recalibrate h
             then kbind (hd_out (of_nat dev) sects 0 0 0 WIN_RESTORE Recal_intr (h\<lparr>recalibrate := False\<rparr>) s)
                    (\<lambda>h s. Ret (Inr h) s)
             else hd_command r (of_nat dev) sec head cyl h s)"

definition hd_request :: "env \<Rightarrow> hd_drv \<Rightarrow> kernel \<Rightarrow> hdres" where
  "hd_request E h s = kwhile (fuel E) hd_request_step h s"

definition read_intr :: "env \<Rightarrow> hd_drv \<Rightarrow> kernel \<Rightarrow> hdres" where
  "read_intr E h s =
     (let (bad, h) = win_result h in
      if bad then kbind (bad_rw_intr h s) (hd_request E)
      else case current_request (blk_dev s 3) of
        None \<Rightarrow> Fault
      | Some r \<Rightarrow>
          kbind (port_read r h s) (\<lambda>h s.
            let s = upd_req r (\<lambda>q. q\<lparr>r_errors := 0, r_buffer := r_buffer q + 512, r_sector := r_sector q + 1,
                       r_nr_sectors := r_nr_sectors q - 1\<rparr>) s in
            if r_nr_sectors (request s r) \<noteq> 0 then Ret (h\<lparr>do_hd := Some Read_intr\<rparr>) s
            else kbind (end_request 3 True s) (\<lambda>_ s. hd_request E h s)))"

definition write_intr :: "env \<Rightarrow> hd_drv \<Rightarrow> kernel \<Rightarrow> hdres" where
  "write_intr E h s =
     (let (bad, h) = win_result h in
      if bad then kbind (bad_rw_intr h s) (hd_request E)
      else case current_request (blk_dev s 3) of
        None \<Rightarrow> Fault
      | Some r \<Rightarrow>
          let s = upd_req r (\<lambda>q. q\<lparr>r_nr_sectors := r_nr_sectors q - 1\<rparr>) s in
          if r_nr_sectors (request s r) \<noteq> 0 then
            let s = upd_req r (\<lambda>q. q\<lparr>r_sector := r_sector q + 1, r_buffer := r_buffer q + 512\<rparr>) s in
            port_write r (h\<lparr>do_hd := Some Write_intr\<rparr>) s
          else kbind (end_request 3 True s) (\<lambda>_ s. hd_request E h s))"

definition recal_intr :: "env \<Rightarrow> hd_drv \<Rightarrow> kernel \<Rightarrow> hdres" where
  "recal_intr E h s =
     (let (bad, h) = win_result h in
      if bad then kbind (bad_rw_intr h s) (hd_request E) else hd_request E h s)"

definition hd_interrupt :: "env \<Rightarrow> hd_drv \<Rightarrow> kernel \<Rightarrow> hdres" where
  "hd_interrupt E h s =
     (let h' = h\<lparr>do_hd := None\<rparr> in
      case do_hd h of
        None \<Rightarrow> Ret h' s
      | Some Recal_intr \<Rightarrow> recal_intr E h' s
      | Some Read_intr \<Rightarrow> read_intr E h' s
      | Some Write_intr \<Rightarrow> write_intr E h' s)"

definition hd_init :: "kernel \<Rightarrow> kernel" where
  "hd_init s = s\<lparr>blk_dev := (blk_dev s)(3 := (blk_dev s 3)\<lparr>request_fn := Some Do_hd_request\<rparr>)\<rparr>"

subsection \<open>Setting up the disks\<close>

text \<open>\<open>BIOS\<close> is the table of drive parameters, 16 bytes for each of two drives; \<open>cmos\<close> is the answer to
  \<^verbatim>\<open>CMOS_READ(0x12)\<close>.\<close>

definition bios_info :: "(nat \<Rightarrow> u8) \<Rightarrow> nat \<Rightarrow> hd_i_struct" where
  "bios_info BIOS drive =
     (let b = (\<lambda>k. BIOS (16 * drive + k)) in
      \<lparr>hdi_head = uint (b 2), hdi_sect = uint (b 14), hdi_cyl = uint (le16 (b 0) (b 1)),
       hdi_wpcom = uint (le16 (b 5) (b 6)), hdi_lzone = uint (le16 (b 12) (b 13)), hdi_ctl = uint (b 8)\<rparr>)"

definition read_partition :: "(nat \<Rightarrow> u8) \<Rightarrow> nat \<Rightarrow> hd_struct" where
  "read_partition d i =
     (let p = 0x1BE + 16 * (i - 1) in
      \<lparr>start_sect = sint (get_long d (p + 8)), nr_sects = sint (get_long d (p + 12))\<rparr>)"

definition whole_disk :: "hd_tables \<Rightarrow> nat \<Rightarrow> hd_struct" where
  "whole_disk h i = \<lparr>start_sect = 0, nr_sects =
     wrap32 (wrap32 (hdi_head (hd_info h i) * hdi_sect (hd_info h i)) * hdi_cyl (hd_info h i))\<rparr>"

definition setup_drive :: "env \<Rightarrow> nat \<Rightarrow> hd_tables \<Rightarrow> kernel \<Rightarrow> hd_tables kres" where
  "setup_drive E drive h s =
     kbind (bread E (0x300 + of_nat drive * 5) 0 s) (\<lambda>r s.
       case r of
         None \<Rightarrow> Panic '''' s
       | Some bh \<Rightarrow>
           let d = b_data (bufs s bh) in
           if d 510 \<noteq> 0x55 \<or> d 511 \<noteq> 0xAA then Panic '''' s
           else let h = h\<lparr>hd_parts := fold (\<lambda>i m. m(i + 5 * drive := read_partition d i)) [1..<5] (hd_parts h)\<rparr> in
             kbind (brelse E (Some bh) s) (\<lambda>_ s. Ret h s))"

definition sys_setup :: "env \<Rightarrow> u8 \<Rightarrow> (nat \<Rightarrow> u8) \<Rightarrow> hd_tables \<Rightarrow> kernel \<Rightarrow> (int \<times> hd_tables) kres" where
  "sys_setup E cmos BIOS h s =
     (if \<not> callable h then Ret (-1, h) s
      else
        let h = h\<lparr>callable := False, hd_info := (hd_info h)(0 := bios_info BIOS 0, 1 := bios_info BIOS 1)\<rparr>;
            h = h\<lparr>NR_HD := if hdi_cyl (hd_info h 1) \<noteq> 0 then 2 else 1\<rparr>;
            h = h\<lparr>hd_parts := fold (\<lambda>i m. m(5 * i := whole_disk h i)) [0..<NR_HD h] (hd_parts h)\<rparr>;
            h = h\<lparr>NR_HD := if cmos AND 0xf0 \<noteq> 0 then (if cmos AND 0x0f \<noteq> 0 then 2 else 1) else 0\<rparr>;
            h = h\<lparr>hd_parts := fold (\<lambda>i m. m(5 * i := \<lparr>start_sect = 0, nr_sects = 0\<rparr>)) [NR_HD h..<2] (hd_parts h)\<rparr> in
        kbind (kfor (\<lambda>drive h s. setup_drive E drive h s) [0..<NR_HD h] h s) (\<lambda>h s.
        kbind (rd_load E s) (\<lambda>_ s.
        kbind (mount_root E s) (\<lambda>_ s. Ret (0, h) s))))"

subsection \<open>Ending a request\<close>

lemma wake_up_blk [simp]:
  "bufs (wake_up q s) = bufs s" "request (wake_up q s) = request s" "blk_dev (wake_up q s) = blk_dev s"
  "phys (wake_up q s) = phys s"
  by (simp_all add: wake_up_def upd_task_def)

lemma upd_blk [simp]:
  "bufs (upd_req r f s) = bufs s" "blk_dev (upd_req r f s) = blk_dev s" "phys (upd_req r f s) = phys s"
  "request (upd_req r f s) = (request s)(r := f (request s r))"
  "request (upd_buf b g s) = request s" "blk_dev (upd_buf b g s) = blk_dev s" "phys (upd_buf b g s) = phys s"
  "bufs (upd_buf b g s) = (bufs s)(b := g (bufs s b))"
  "bufs (set_current_request m q s) = bufs s" "request (set_current_request m q s) = request s"
  "phys (set_current_request m q s) = phys s"
  "blk_dev (set_current_request m q s) = (blk_dev s)(m := (blk_dev s m)\<lparr>current_request := q\<rparr>)"
  by (simp_all add: upd_req_def upd_buf_def set_current_request_def)

text \<open>What the end of a request leaves: the buffer is unlocked and marked, the request is free, the next one
  is the current one.\<close>

lemma end_request_Ret:
  assumes "current_request (blk_dev s m) = Some r" "r_bh (request s r) = Some bh" "m \<noteq> 2"
  shows "\<exists>t. end_request m u s = Ret () t \<and>
    bufs t = (bufs s)(bh := (bufs s bh)\<lparr>b_uptodate := u, b_lock := False\<rparr>) \<and>
    request t = (request s)(r := (request s r)\<lparr>r_dev := -1\<rparr>) \<and> phys t = phys s \<and>
    blk_dev t = (blk_dev s)(m := (blk_dev s m)\<lparr>current_request := r_next (request s r)\<rparr>)"
  using assms by (simp add: end_request_def unlock_buffer_def Let_def)

lemma hd_request_empty:
  assumes "current_request (blk_dev s 3) = None" "0 < fuel E"
  shows "hd_request E h s = Ret h s"
  using assms by (simp add: hd_request_def kwhile_unfold hd_request_step_def INIT_REQUEST_def)

subsection \<open>Where a command points\<close>

lemma ready_at_once:
  assumes "hd_ins h 0x1f7 (hd_nins h) AND 0xc0 = 0x40"
  shows "controller_ready h = (9999, h\<lparr>hd_nins := hd_nins h + 1\<rparr>)"
  using assms by (simp add: controller_ready_def numeral_eq_Suc hd_inb_def)

lemma hd_place_inverse:
  fixes block sects heads :: u32
  assumes "0 < sects" "0 < heads" "hd_place sects heads block = (sec, head, cyl)" "unat sects < 256"
  shows "1 \<le> unat sec" "unat sec \<le> unat sects" "unat head < unat heads"
    "(unat cyl * unat heads + unat head) * unat sects + (unat sec - 1) = unat block"
proof -
  have p: "0 < unat sects" "0 < unat heads" using assms(1,2) by (simp_all add: word_less_nat_alt)
  have e: "sec = block mod sects + 1" "head = block div sects mod heads" "cyl = block div sects div heads"
    using assms(3) by (simp_all add: hd_place_def)
  have m: "unat (block mod sects) = unat block mod unat sects" by (simp add: unat_mod)
  moreover have l: "unat block mod unat sects < unat sects" using p by simp
  ultimately have s: "unat sec = unat block mod unat sects + 1"
    using assms(4) unfolding e by (simp add: unat_word_ariths)
  have hc: "unat head = unat block div unat sects mod unat heads" "unat cyl = unat block div unat sects div unat heads"
    unfolding e by (simp_all add: unat_mod unat_div)
  show "1 \<le> unat sec" "unat head < unat heads" using s hc p by simp_all
  show "unat sec \<le> unat sects" using s l by linarith
  show "(unat cyl * unat heads + unat head) * unat sects + (unat sec - 1) = unat block"
    unfolding s hc by simp
qed

lemma hd_minor:
  assumes "dev < 256"
  shows "unat (word_of_int (int (0x300 + dev)) AND 0xff :: u32) = dev" "dev_major (int (0x300 + dev)) = 3"
proof -
  have u: "unat (of_nat (0x300 + dev) :: u32) = 0x300 + dev" using assms by (intro unat_of_nat32) simp
  have "(0xff :: u32) = mask 8" by (simp add: mask_eq_exp_minus_1)
  then have "unat (of_nat (0x300 + dev) AND 0xff :: u32) = (0x300 + dev) mod 256"
    using u by (simp only: take_bit_eq_mask [symmetric] unsigned_take_bit_eq) (simp add: take_bit_eq_mod)
  then show "unat (word_of_int (int (0x300 + dev)) AND 0xff :: u32) = dev" using assms by (simp add: mod_if)
  show "dev_major (int (0x300 + dev)) = 3"
    unfolding dev_major_def of_int_of_nat_eq unat_drop_bit32 u using assms by simp
qed

lemma hd_out_ready:
  assumes "dev < 10" "head \<le> 15" "hd_ins h 0x1f7 (hd_nins h) AND 0xc0 = 0x40"
  shows "\<exists>h'. hd_out (of_nat (dev div 5)) nsect sec head cyl cmd intr h s = Ret h' s \<and> do_hd h' = Some intr \<and>
    hd_outs h' = hd_outs h @
      [(0x3f6, word_of_int (hdi_ctl (hd_info h (dev div 5)))), (0x1f1, word_of_int (hdi_wpcom (hd_info h (dev div 5)) div 4)),
       (0x1f2, ucast nsect), (0x1f3, of_nat (unat sec)), (0x1f4, of_nat (unat cyl)), (0x1f5, of_nat (unat cyl div 256)),
       (0x1f6, 0xA0 OR of_nat (16 * (dev div 5)) OR of_nat (unat head)), (0x1f7, cmd)]"
proof -
  have c: "of_nat (unat cyl div 256) = (ucast (drop_bit 8 cyl) :: u8)"
    using of_nat_unat [of "drop_bit 8 cyl", where ?'a = "8 word"] by (simp add: unat_drop_bit32)
  have "dev div 5 = 0 \<or> dev div 5 = 1" using assms(1) by linarith
  moreover have "\<not> head > 15" using assms(2) by simp
  ultimately show ?thesis
    unfolding hd_out_def ready_at_once [OF assms(3)] c by (elim disjE) (simp_all add: hd_outb_def)
qed

text \<open>The geometry and partition that a request's minor device number selects are sane: at most 255 sectors per track,
  at most 16 heads, and the partition ends within the 65536 cylinders that the registers can name.\<close>

definition hd_sane :: "hd_drv \<Rightarrow> nat \<Rightarrow> bool" where
  "hd_sane h dev \<longleftrightarrow> NR_HD h \<le> 2 \<and> dev < 5 * NR_HD h \<and>
     0 < hdi_sect (hd_info h (dev div 5)) \<and> hdi_sect (hd_info h (dev div 5)) < 256 \<and>
     0 < hdi_head (hd_info h (dev div 5)) \<and> hdi_head (hd_info h (dev div 5)) \<le> 16 \<and>
     0 \<le> start_sect (hd_parts h dev) \<and> 0 \<le> nr_sects (hd_parts h dev) \<and>
     start_sect (hd_parts h dev) + nr_sects (hd_parts h dev) \<le>
       65536 * (hdi_head (hd_info h (dev div 5)) * hdi_sect (hd_info h (dev div 5)))"

text \<open>C28: A read request makes the driver send the controller exactly one command, for the number of sectors asked for, at
  the place of the request's first sector: cylinder, head and sector (counted from 1) are within the disk's
  geometry and together name sector number partition start plus request sector. The next interrupt goes to \<^verbatim>\<open>read_intr\<close>.\<close>

theorem hd_read_command:
  assumes r: "current_request (blk_dev s 3) = Some r" "r_dev (request s r) = int (0x300 + dev)" "r_cmd (request s r) = READ"
      "r_bh (request s r) = Some bh" "b_lock (bufs s bh)"
    and sane: "hd_sane h dev" and inside: "uint (r_sector (request s r)) + 2 \<le> nr_sects (hd_parts h dev)"
    and idle: "\<not> reset h" "\<not> recalibrate h" "hd_ins h 0x1f7 (hd_nins h) AND 0xc0 = 0x40" and f: "0 < fuel E"
  shows "\<exists>h' sec head cyl. hd_request E h s = Ret h' s \<and> do_hd h' = Some Read_intr \<and>
    hd_outs h' = hd_outs h @
      [(0x3f6, word_of_int (hdi_ctl (hd_info h (dev div 5)))), (0x1f1, word_of_int (hdi_wpcom (hd_info h (dev div 5)) div 4)),
       (0x1f2, ucast (r_nr_sectors (request s r))), (0x1f3, of_nat sec), (0x1f4, of_nat cyl), (0x1f5, of_nat (cyl div 256)),
       (0x1f6, 0xA0 OR of_nat (16 * (dev div 5)) OR of_nat head), (0x1f7, 0x20)] \<and>
    cyl < 65536 \<and> 1 \<le> sec \<and> int sec \<le> hdi_sect (hd_info h (dev div 5)) \<and> int head < hdi_head (hd_info h (dev div 5)) \<and>
    (int cyl * hdi_head (hd_info h (dev div 5)) + int head) * hdi_sect (hd_info h (dev div 5)) + (int sec - 1) =
      start_sect (hd_parts h dev) + uint (r_sector (request s r))"
proof -
  let ?i = "hd_info h (dev div 5)" and ?p = "hd_parts h dev" and ?q = "request s r"
  note S = sane [unfolded hd_sane_def]
  have "hdi_head ?i * hdi_sect ?i \<le> 16 * 255" using S by (intro mult_mono) auto
  moreover have n0: "0 \<le> start_sect ?p" "0 \<le> nr_sects ?p" using S by blast+
  ultimately have small: "start_sect ?p + nr_sects ?p < 2147483648" using S by linarith
  have dev: "dev < 10" using S by linarith
  define sects heads where "sects = (word_of_int (hdi_sect ?i) :: u32)" and "heads = (word_of_int (hdi_head ?i) :: u32)"
  have ui: "uint sects = hdi_sect ?i" "uint heads = hdi_head ?i"
    using S by (simp_all add: sects_def heads_def uint_word_of_int)
  have us: "unat sects < 256" "0 < sects" "0 < heads"
    using S ui by (simp_all add: unat_eq_nat_uint word_less_def nat_less_iff del: nat_uint_eq)
  define block where "block = r_sector ?q + word_of_int (start_sect ?p)"
  have "uint (word_of_int (start_sect ?p) :: u32) = start_sect ?p" using n0 small by (simp add: uint_word_of_int)
  then have ub: "uint block = start_sect ?p + uint (r_sector ?q)"
    using n0 inside small by (simp add: block_def uint_word_ariths)
  obtain sec head cyl where pl: "hd_place sects heads block = (sec, head, cyl)" by (cases "hd_place sects heads block")
  note inv = hd_place_inverse [OF us(2,3) pl us(1)]
  have iu: "int (unat sects) = hdi_sect ?i" "int (unat heads) = hdi_head ?i" using ui by simp_all
  have h16: "unat heads \<le> 16" using S iu by linarith
  have head: "head \<le> 15" using inv(3) h16 by (simp add: word_le_nat_alt)
  have "word_of_int (nr_sects ?p) \<ge> r_sector ?q + 2"
    using n0 inside small by (simp add: word_le_def uint_word_of_int uint_word_ariths)
  then have lim: "\<not> r_sector ?q + 2 > word_of_int (nr_sects ?p)" by simp
  have dn: "\<not> dev \<ge> 5 * NR_HD h" using S by linarith
  have z: "sects \<noteq> 0" "heads \<noteq> 0" using us by auto
  have "hd_request E h s = kbind (hd_command r (of_nat (dev div 5)) sec head cyl h s)
      (\<lambda>v s. case v of Inl v \<Rightarrow> kwhile (fuel E - 1) hd_request_step v s | Inr a \<Rightarrow> Ret a s)"
    using r f dn lim idle z dev hd_minor [of dev] pl
    by (simp add: hd_request_def kwhile_unfold hd_request_step_def INIT_REQUEST_def sects_def [symmetric] heads_def [symmetric]
        block_def [symmetric] Let_def)
  then have req: "hd_request E h s = hd_out (of_nat (dev div 5)) (r_nr_sectors ?q) sec head cyl 0x20 Read_intr h s"
    using r(3) by (cases "hd_out (of_nat (dev div 5)) (r_nr_sectors ?q) sec head cyl 0x20 Read_intr h s") (simp_all add: hd_command_def)
  have place: "(int (unat cyl) * hdi_head ?i + int (unat head)) * hdi_sect ?i + (int (unat sec) - 1) = start_sect ?p + uint (r_sector ?q)"
    using arg_cong [OF inv(4), of int] inv(1) by (simp add: ub ui of_nat_diff)
  have p0: "0 < hdi_head ?i" "0 < hdi_sect ?i" using S by blast+
  have "int (unat cyl) * (hdi_head ?i * hdi_sect ?i) \<le> start_sect ?p + uint (r_sector ?q)"
  proof -
    have "0 \<le> int (unat head) * hdi_sect ?i" "1 \<le> int (unat sec)" using p0 inv(1) by (simp, linarith)
    then show ?thesis using place unfolding distrib_right mult.assoc by linarith
  qed
  also have "\<dots> < 65536 * (hdi_head ?i * hdi_sect ?i)" using inside S by linarith
  finally have "int (unat cyl) < 65536" by (rule mult_right_less_imp_less) (use p0 in simp)
  then have cyl: "unat cyl < 65536" by linarith
  have sec: "int (unat sec) \<le> hdi_sect ?i" "int (unat head) < hdi_head ?i" using inv(2,3) iu by linarith+
  show ?thesis
    unfolding req using hd_out_ready [OF dev head idle(3)] cyl place inv(1) sec by blast
qed

subsection \<open>A block is read\<close>

text \<open>A block arrives. When two interrupts of a read command report success, the 1024 bytes the data register delivered are
  the contents of the buffer, which is up to date and unlocked; the request is free and the queue goes on; no other
  buffer has changed.\<close>

theorem hd_read_completes:
  assumes r: "current_request (blk_dev s 3) = Some r" "r_bh (request s r) = Some bh" "r_nr_sectors (request s r) = 2"
      "r_buffer (request s r) = 0" "r_next (request s r) = None"
    and h: "do_hd h = Some Read_intr" "hd_ins h 0x1f7 (hd_nins h) AND 0xf1 = 0x50" "hd_ins h 0x1f7 (hd_nins h + 1) AND 0xf1 = 0x50"
    and f: "0 < fuel E"
  shows "\<exists>h' t. kbind (hd_interrupt E h s) (hd_interrupt E) = Ret h' t \<and>
    (\<forall>k < 1024. b_data (bufs t bh) k = hd_data_in h (hd_ndata h + k)) \<and> b_uptodate (bufs t bh) \<and> \<not> b_lock (bufs t bh) \<and>
    r_dev (request t r) = -1 \<and> current_request (blk_dev t 3) = None \<and> do_hd h' = None \<and> (\<forall>b. b \<noteq> bh \<longrightarrow> bufs t b = bufs s b)"
proof -
  define h1 where "h1 = h\<lparr>do_hd := Some Read_intr, hd_nins := hd_nins h + 1, hd_ndata := hd_ndata h + 512\<rparr>"
  define s1 where "s1 = upd_req r (\<lambda>q. q\<lparr>r_errors := 0, r_buffer := r_buffer q + 512, r_sector := r_sector q + 1,
      r_nr_sectors := r_nr_sectors q - 1\<rparr>) (upd_buf bh (store_sector 0 (\<lambda>k. hd_data_in h (hd_ndata h + k))) s)"
  have 1: "hd_interrupt E h s = Ret h1 s1"
    using r h by (simp add: hd_interrupt_def read_intr_def win_result_def hd_inb_def port_read_def Let_def h1_def s1_def)
  define h2 where "h2 = h1\<lparr>do_hd := None, hd_nins := hd_nins h1 + 1, hd_ndata := hd_ndata h1 + 512\<rparr>"
  define s2 where "s2 = upd_req r (\<lambda>q. q\<lparr>r_errors := 0, r_buffer := r_buffer q + 512, r_sector := r_sector q + 1,
      r_nr_sectors := r_nr_sectors q - 1\<rparr>) (upd_buf bh (store_sector 512 (\<lambda>k. hd_data_in h (hd_ndata h + 512 + k))) s1)"
  have c: "current_request (blk_dev s2 3) = Some r" "r_bh (request s2 r) = Some bh" "r_next (request s2 r) = None"
    using r by (simp_all add: s2_def s1_def)
  obtain t where t: "end_request 3 True s2 = Ret () t"
      "bufs t = (bufs s2)(bh := (bufs s2 bh)\<lparr>b_uptodate := True, b_lock := False\<rparr>)"
      "request t = (request s2)(r := (request s2 r)\<lparr>r_dev := -1\<rparr>)"
      "blk_dev t = (blk_dev s2)(3 := (blk_dev s2 3)\<lparr>current_request := None\<rparr>)"
    using end_request_Ret [OF c(1,2), of True] c(3) by auto
  have 2: "hd_interrupt E h1 s1 = kbind (end_request 3 True s2) (\<lambda>_ s. hd_request E h2 s)"
    using r h by (simp add: hd_interrupt_def read_intr_def win_result_def hd_inb_def port_read_def Let_def h1_def s1_def
      h2_def s2_def)
  have "hd_request E h2 t = Ret h2 t" using t(4) f by (intro hd_request_empty) simp_all
  then show ?thesis unfolding 1 using 2 t by (simp add: h2_def s2_def s1_def store_sector_def)
qed

subsection \<open>Failures\<close>

lemma win_result_bad:
  assumes "hd_ins h 0x1f7 (hd_nins h) AND 0xf1 \<noteq> 0x50"
  shows "\<exists>n. win_result h = (True, h\<lparr>hd_nins := n\<rparr>)"
  using assms by (auto simp: win_result_def hd_inb_def Let_def)

text \<open>C29: A failed transfer is retried, and given up after seven failures. Whatever interrupt reports an error, the driver
  counts it against the current request and goes on to serve the queue: up to six errors the request stays the current one, with
  its buffer untouched, and from the fourth on the controller is reset first; the seventh ends it, the buffer
  is unlocked and not up to date, and the next request becomes the current one.\<close>

theorem hd_failure_counted:
  assumes r: "current_request (blk_dev s 3) = Some r" "r_bh (request s r) = Some bh" "0 \<le> r_errors (request s r)"
      "r_errors (request s r) < 7"
    and h: "do_hd h = Some i" "hd_ins h 0x1f7 (hd_nins h) AND 0xf1 \<noteq> 0x50"
  shows "\<exists>h' t. hd_interrupt E h s = hd_request E h' t \<and>
    (if r_errors (request s r) < 6
     then current_request (blk_dev t 3) = Some r \<and> r_errors (request t r) = r_errors (request s r) + 1 \<and> bufs t = bufs s \<and>
       reset h' = (reset h \<or> r_errors (request s r) \<ge> 3)
     else current_request (blk_dev t 3) = r_next (request s r) \<and> r_dev (request t r) = -1 \<and>
       \<not> b_uptodate (bufs t bh) \<and> \<not> b_lock (bufs t bh))"
proof -
  have "hd_ins (h\<lparr>do_hd := None\<rparr>) 0x1f7 (hd_nins (h\<lparr>do_hd := None\<rparr>)) AND 0xf1 \<noteq> 0x50" using h by simp
  from win_result_bad [OF this] obtain n where n: "win_result (h\<lparr>do_hd := None\<rparr>) = (True, h\<lparr>do_hd := None, hd_nins := n\<rparr>)"
    by auto
  define h1 where "h1 = h\<lparr>do_hd := None, hd_nins := n\<rparr>"
  have b: "hd_interrupt E h s = kbind (bad_rw_intr h1 s) (hd_request E)"
    using h n by (cases i) (simp_all add: hd_interrupt_def read_intr_def write_intr_def recal_intr_def h1_def)
  define s1 where "s1 = upd_req r (\<lambda>q. q\<lparr>r_errors := r_errors q + 1\<rparr>) s"
  have w: "wrap32 (r_errors (request s r) + 1) = r_errors (request s r) + 1" using r by (simp add: is_s32_def)
  have c: "current_request (blk_dev s1 3) = Some r" "r_bh (request s1 r) = Some bh" "r_next (request s1 r) = r_next (request s r)"
    using r by (simp_all add: s1_def)
  from end_request_Ret [OF c(1,2), of False] obtain t where t: "end_request 3 False s1 = Ret () t"
      "bufs t = (bufs s1)(bh := (bufs s1 bh)\<lparr>b_uptodate := False, b_lock := False\<rparr>)"
      "request t = (request s1)(r := (request s1 r)\<lparr>r_dev := -1\<rparr>)"
      "blk_dev t = (blk_dev s1)(3 := (blk_dev s1 3)\<lparr>current_request := r_next (request s r)\<rparr>)"
    using c(3) by auto
  have u: "upd_req r (\<lambda>q. q\<lparr>r_errors := wrap32 (r_errors q + 1)\<rparr>) s = s1"
    by (simp add: upd_req_def s1_def w)
  have B: "bad_rw_intr h1 s = kbind (if r_errors (request s1 r) \<ge> 7 then end_request 3 False s1 else Ret () s1) (\<lambda>_ s.
            Ret (if CURRENT_errors s > 7 div 2 then h1\<lparr>reset := True\<rparr> else h1) s)"
    using r(1) by (simp only: bad_rw_intr_def u Let_def option.case)
  show ?thesis
  proof (cases "r_errors (request s r) < 6")
    case True
    then have "bad_rw_intr h1 s = Ret (if r_errors (request s r) \<ge> 3 then h1\<lparr>reset := True\<rparr> else h1) s1"
      unfolding B using c(1) by (simp add: CURRENT_errors_def s1_def)
    then show ?thesis unfolding b using True c(1) by (intro exI conjI) (auto simp: s1_def h1_def)
  next
    case False
    then have "bad_rw_intr h1 s = Ret (if CURRENT_errors t > 3 then h1\<lparr>reset := True\<rparr> else h1) t"
      unfolding B using t(1) by (simp add: s1_def)
    then show ?thesis unfolding b using False t by (intro exI conjI) (auto simp: s1_def)
  qed
qed

text \<open>A disk of 17 sectors, 4 heads and 615 cylinders with one partition from sector 17 on, and a request for its block 3.\<close>

definition st225 :: hd_drv where
  "st225 = \<lparr>callable = False, hd_info = (\<lambda>_. \<lparr>hdi_head = 4, hdi_sect = 17, hdi_cyl = 615, hdi_wpcom = 300, hdi_lzone = 615, hdi_ctl = 8\<rparr>),
     NR_HD = 1, hd_parts = (\<lambda>_. \<lparr>start_sect = 17, nr_sects = 40000\<rparr>), recalibrate = False, reset = False, do_hd = Some Read_intr,
     hd_outs = [], hd_data_out = [], hd_ins = (\<lambda>_ _. 0x50), hd_nins = 0, hd_data_in = (\<lambda>k. of_nat k), hd_ndata = 0\<rparr>"

definition one_request :: kernel where
  "one_request = k0\<lparr>blk_dev := (\<lambda>_. \<lparr>request_fn = Some Do_hd_request, current_request = Some 5\<rparr>),
     request := (\<lambda>_. \<lparr>r_dev = 0x301, r_cmd = READ, r_errors = 6, r_sector = 6, r_nr_sectors = 2, r_buffer = 0, r_bh = Some 2, r_next = None\<rparr>),
     bufs := (\<lambda>_. zero_buf\<lparr>b_lock := True\<rparr>)\<rparr>"

lemma one_request:
  "blk_dev one_request = (\<lambda>_. \<lparr>request_fn = Some Do_hd_request, current_request = Some 5\<rparr>)"
  "request one_request = (\<lambda>_. \<lparr>r_dev = 0x301, r_cmd = READ, r_errors = 6, r_sector = 6, r_nr_sectors = 2, r_buffer = 0, r_bh = Some 2, r_next = None\<rparr>)"
  "bufs one_request = (\<lambda>_. zero_buf\<lparr>b_lock := True\<rparr>)"
  by (simp_all add: one_request_def)

theorem hd_read_command_witness:
  "\<exists>h' sec head cyl. hd_request (quiet_env 3) st225 one_request = Ret h' one_request \<and>
     (int cyl * 4 + int head) * 17 + (int sec - 1) = 17 + 6"
  using hd_read_command [of one_request 5 1 2 st225 "quiet_env 3"]
  by (simp add: one_request st225_def hd_sane_def quiet_env_def) blast

theorem hd_read_completes_witness:
  "\<exists>h' t. kbind (hd_interrupt (quiet_env 3) st225 one_request) (hd_interrupt (quiet_env 3)) = Ret h' t \<and>
     b_data (bufs t 2) 1000 = of_nat 1000"
  using hd_read_completes [of one_request 5 2 st225 "quiet_env 3"]
  by (simp add: one_request st225_def quiet_env_def) force

theorem hd_failure_counted_witness:
  "\<exists>h' t. hd_interrupt (quiet_env 3) (st225\<lparr>hd_ins := (\<lambda>_ _. 0x51)\<rparr>) one_request = hd_request (quiet_env 3) h' t \<and>
     current_request (blk_dev t 3) = None \<and> \<not> b_lock (bufs t 2)"
  using hd_failure_counted [of one_request 5 2 "st225\<lparr>hd_ins := (\<lambda>_ _. 0x51)\<rparr>" Read_intr "quiet_env 3"]
  by (simp add: one_request st225_def) blast

end
