(* ===== verification/Init.thy ===== *)
theory Init
  imports Boot Floppy Console Traps Serial Cache FileRefs Hd
begin

text \<open>
  The start of the kernel: \<^verbatim>\<open>main\<close> of init/main.c up to the first change to user mode, on the kernel's variables with the values they
  have in the image. What the start-up code left for the kernel is the record \<open>boot_params\<close>, the clock chip the parameter
  \<open>cmos\<close>. The parts that keep their variables in records of their own (console, serial lines, interrupt table) return them.
\<close>

record boot_params =
  ORIG_ROOT_DEV :: u16
  EXT_MEM_K :: u16
  BOOT_SCREEN :: boot_screen

text \<open>The kernel's variables in the image: the first task at address \<open>p\<close>, the end of the kernel at \<open>kend\<close>, memory \<open>m\<close>.\<close>

definition static_kernel :: "u32 \<Rightarrow> u32 \<Rightarrow> (u32 \<Rightarrow> u32) \<Rightarrow> kernel" where
  "static_kernel p kend m =
     k0\<lparr>phys := m, init_task := p, current := p, task := (\<lambda>_. 0)(0 := p), tstruct := (tstruct k0)(p := INIT_TASK p),
        tty_table := init_tty_table, start_buffer := kend\<rparr>"

definition tty_init :: "boot_screen \<Rightarrow> kernel \<Rightarrow> console \<times> rs_ports \<Rightarrow> console \<times> rs_ports" where
  "tty_init b s = (\<lambda>(k, r). let r = rs_init s r in (con_init b k, r))"

definition main_init ::
    "env \<Rightarrow> cmos \<Rightarrow> boot_params \<Rightarrow> (handler \<Rightarrow> u32) \<Rightarrow> idt \<Rightarrow> console \<times> rs_ports \<Rightarrow> kernel \<Rightarrow> (idt \<times> console \<times> rs_ports) kres" where
  "main_init E cmos B addr t kr s =
     (let s = s\<lparr>ROOT_DEV := ORIG_ROOT_DEV B\<rparr> in
      kbind (boot_memory (EXT_MEM_K B) s) (\<lambda>_ s.
      let s = blk_dev_init s;
          kr = tty_init (BOOT_SCREEN B) s kr in
      kbind (time_init E cmos s) (\<lambda>_ s.
      let s = sched_init s in
      kbind (buffer_init E (word_of_int (fst (snd (memory_limits (EXT_MEM_K B))))) s) (\<lambda>_ s.
      let s = hd_init s;
          s = floppy_init s in
      Ret (boot_idt addr t, kr) s))))"

subsection \<open>What the parts leave alone\<close>

lemma boot_memory_frame:
  assumes "boot_memory ext s = Ret () t"
  shows "\<exists>h m. t = s\<lparr>HIGH_MEMORY := h, mem_map := m\<rparr>"
  using assms by (auto simp: boot_memory_def mem_init_def Let_def split: prod.splits if_splits)

lemma fold_clear_task:
  assumes f: "\<And>i s. f i s = s\<lparr>task := (task s)(i := 0), gdt := g i (gdt s)\<rparr>"
  shows "\<exists>G. fold f xs s = s\<lparr>task := (\<lambda>i. if i \<in> set xs then 0 else task s i), gdt := G\<rparr>"
proof (induction xs arbitrary: s)
  case Nil
  show ?case by (intro exI [of _ "gdt s"]) simp
next
  case (Cons i xs)
  obtain G where "fold f xs (f i s) = (f i s)\<lparr>task := (\<lambda>j. if j \<in> set xs then 0 else task (f i s) j), gdt := G\<rparr>"
    using Cons [of "f i s"] by blast
  moreover have "(\<lambda>j. if j \<in> set xs then 0 else task (f i s) j) = (\<lambda>j. if j \<in> set (i # xs) then 0 else task s j)"
    by (auto simp: f)
  ultimately have "fold f xs (f i s) = (f i s)\<lparr>task := (\<lambda>j. if j \<in> set (i # xs) then 0 else task s j), gdt := G\<rparr>" by simp
  then show ?case by (intro exI [of _ G]) (simp add: f [of i s])
qed

lemma sched_init_frame:
  "\<exists>G. sched_init s = s\<lparr>task := (\<lambda>i. if 1 \<le> i \<and> i < NR_TASKS then 0 else task s i), gdt := G\<rparr>"
proof -
  let ?g = "\<lambda>i G. G(2 + FIRST_TSS_ENTRY + 2 * (i - 1) := zero_desc, 3 + FIRST_TSS_ENTRY + 2 * (i - 1) := zero_desc)"
  let ?s = "set_ldt_desc FIRST_LDT_ENTRY (ldt_addr (init_task s)) (set_tss_desc FIRST_TSS_ENTRY (tss_addr (init_task s)) s)"
  have "init_task (set_tss_desc n a s) = init_task s" for n a by (simp add: set_tss_desc_def)
  then have "sched_init s = fold (\<lambda>i s. s\<lparr>task := (task s)(i := 0), gdt := ?g i (gdt s)\<rparr>) [1..<NR_TASKS] ?s"
    by (simp only: sched_init_def Let_def)
  also obtain G where "\<dots> = ?s\<lparr>task := (\<lambda>i. if i \<in> set [1..<NR_TASKS] then 0 else task ?s i), gdt := G\<rparr>"
    using fold_clear_task [where f = "\<lambda>i s. s\<lparr>task := (task s)(i := 0), gdt := ?g i (gdt s)\<rparr>" and g = ?g and xs = "[1..<NR_TASKS]" and s = ?s]
    by blast
  also have "\<dots> = s\<lparr>task := (\<lambda>i. if 1 \<le> i \<and> i < NR_TASKS then 0 else task s i), gdt := G\<rparr>"
    by (simp add: set_tss_desc_def set_ldt_desc_def del: upt_rec_numeral cong del: if_weak_cong)
  finally show ?thesis by blast
qed

text \<open>\<open>kept\<close>: the parts of the state that the set-up of the buffers does not touch.\<close>

definition kept :: "kernel \<Rightarrow> kernel \<Rightarrow> bool" where
  "kept s t \<longleftrightarrow> mem_map t = mem_map s \<and> HIGH_MEMORY t = HIGH_MEMORY s \<and> task t = task s \<and> tstruct t = tstruct s \<and> current t = current s \<and>
     file_table t = file_table s \<and> tty_table t = tty_table s \<and> request t = request s \<and> blk_dev t = blk_dev s"

lemma buffer_init_frame: "buffer_init E b s = Ret () t \<Longrightarrow> kept s t"
proof -
  have "kpred (kept s) (kwhile n buffer_init_step v s)" for n v
    by (rule kpred_kwhile) (auto simp: kept_def buffer_init_step_def Let_def upd_buf_def split: prod.splits)
  then have "kpred (kept s) (buffer_init E b s)"
    unfolding buffer_init_def Let_def by (intro kpred_bind) (auto simp: kept_def upd_buf_def)
  then show "buffer_init E b s = Ret () t \<Longrightarrow> kept s t" by simp
qed

subsection \<open>The kernel starts\<close>

text \<open>The clock chip shows the moments \<open>T\<close>, read fast, and one of the first \<open>n + 1\<close> rounds of readings falls into one second.\<close>

definition clock_ok :: "cmos \<Rightarrow> nat \<Rightarrow> bool" where
  "clock_ok cmos n \<longleftrightarrow> (\<exists>T. shows_time cmos T \<and> fast_readings T \<and> T (7 * n + 6) = T (7 * n) \<and> (\<forall>k. 0 \<le> tm_mon (T k) \<and> tm_mon (T k) < 12))"

definition screen_ok :: "boot_screen \<Rightarrow> bool" where
  "screen_ok b \<longleftrightarrow> 8 \<le> unat (ORIG_VIDEO_COLS b) \<and> unat (ORIG_VIDEO_COLS b) \<le> 163 \<and> unat (ORIG_X b) \<le> unat (ORIG_VIDEO_COLS b) \<and>
     unat (ORIG_Y b) < 25"

text \<open>What the rest of the kernel relies on: the free page frames, a sound buffer cache, correct counts of open files, one task, empty
  queues, no requests, the drivers registered.\<close>

definition started :: "kernel \<Rightarrow> bool" where
  "started s \<longleftrightarrow>
     (\<exists>start. 0x100000 \<le> start \<and> start \<le> uint (HIGH_MEMORY s) \<and> uint (HIGH_MEMORY s) \<le> 0x1000000 \<and>
       (\<forall>n < PAGING_PAGES. mem_map s n = 0 \<longleftrightarrow> start \<le> uint (page_of_nr n) \<and> uint (page_of_nr n) < uint (HIGH_MEMORY s))) \<and>
     cache_ok s (\<lambda>_. []) [0..<NR_BUFFERS s] \<and> files_ok s \<and> current_slot s 0 \<and> (\<forall>i. 0 < i \<and> i < NR_TASKS \<longrightarrow> task s i = 0) \<and>
     (\<forall>n q. q \<in> {read_q (tty_table s n), write_q (tty_table s n), secondary (tty_table s n)} \<longrightarrow> q_ok q \<and> q_items q = []) \<and>
     (\<forall>i < NR_REQUEST. r_dev (request s i) = -1) \<and> sectors_ok s \<and>
     request_fn (blk_dev s 2) = Some Do_fd_request \<and> request_fn (blk_dev s 3) = Some Do_hd_request \<and>
     current_request (blk_dev s 2) = None \<and> current_request (blk_dev s 3) = None"

lemma init_queues:
  "q \<in> {read_q (init_tty_table n), write_q (init_tty_table n), secondary (init_tty_table n)} \<Longrightarrow> q_ok q \<and> q_items q = []"
  by (auto simp: init_tty_table_def Let_def q_ok_def q_items_def CHARS_def zero_queue_def split: if_splits)

lemma files_ok_static:
  assumes "task s = (\<lambda>i. if 1 \<le> i \<and> i < NR_TASKS then 0 else ((\<lambda>_. 0)(0 := p)) i)" "tstruct s = (tstruct k0)(p := INIT_TASK p)"
    "file_table s = file_table k0"
  shows "files_ok s"
proof -
  have "fd_refs s f = {}" for f using assms by (auto simp: fd_refs_def INIT_TASK_def zero_task_def k0_def split: if_splits)
  then show ?thesis using assms(3) by (simp add: files_ok_def k0_def)
qed

lemma cache_ok_N: "cache_ok s H [0..<N] \<Longrightarrow> N = NR_BUFFERS s"
proof -
  assume "cache_ok s H [0..<N]"
  then have "{0..<N} = {..<NR_BUFFERS s}" using cache_okD(3) by fastforce
  then have "card {0..<N} = card {..<NR_BUFFERS s}" by simp
  then show ?thesis by simp
qed

lemma cache_ok_drivers [simp]: "cache_ok (floppy_init s) H F = cache_ok s H F" "cache_ok (hd_init s) H F = cache_ok s H F"
  by (simp_all add: cache_ok_def floppy_init_def hd_init_def hashed_def freed_def nx_def [abs_def] pv_def [abs_def] nf_def [abs_def] pf_def [abs_def]
      key_def [abs_def] hash_of_def [abs_def] cong: if_cong)

lemma drivers_kept:
  "mem_map (floppy_init (hd_init s)) = mem_map s" "HIGH_MEMORY (floppy_init (hd_init s)) = HIGH_MEMORY s" "task (floppy_init (hd_init s)) = task s"
  "tstruct (floppy_init (hd_init s)) = tstruct s" "current (floppy_init (hd_init s)) = current s"
  "file_table (floppy_init (hd_init s)) = file_table s" "tty_table (floppy_init (hd_init s)) = tty_table s"
  "request (floppy_init (hd_init s)) = request s" "NR_BUFFERS (floppy_init (hd_init s)) = NR_BUFFERS s"
  by (simp_all add: floppy_init_def hd_init_def)

text \<open>The state before the buffers are set up.\<close>

lemma main_init_prefix:
  assumes c: "clock_ok cmos n" "n < fuel E"
  shows "\<exists>high start s1. memory_limits ext = (high, start, start) \<and> 0x100000 \<le> start \<and> start \<le> high \<and> high \<le> 0x1000000 \<and>
    uint (HIGH_MEMORY s1) = high \<and>
    (\<forall>n < PAGING_PAGES. mem_map s1 n = 0 \<longleftrightarrow> start \<le> uint (page_of_nr n) \<and> uint (page_of_nr n) < high) \<and>
    (\<exists>u. boot_memory ext s = Ret () u \<and> (\<exists>res. time_init E cmos (blk_dev_init u) = Ret () ((blk_dev_init u)\<lparr>startup_time := res\<rparr>) \<and>
      s1 = sched_init ((blk_dev_init u)\<lparr>startup_time := res\<rparr>))) \<and>
    task s1 = (\<lambda>i. if 1 \<le> i \<and> i < NR_TASKS then 0 else task s i) \<and> tstruct s1 = tstruct s \<and> current s1 = current s \<and>
    file_table s1 = file_table s \<and> tty_table s1 = tty_table s \<and> request s1 = request (blk_dev_init s) \<and> blk_dev s1 = blk_dev s \<and>
    start_buffer s1 = start_buffer s \<and> NR_BUFFERS s1 = NR_BUFFERS s"
proof -
  obtain high start u where b: "memory_limits ext = (high, start, start)" "boot_memory ext s = Ret () u" "0x100000 \<le> start" "start \<le> high"
      "high \<le> 0x1000000" "uint (HIGH_MEMORY u) = high"
      "\<forall>n < PAGING_PAGES. mem_map u n = 0 \<longleftrightarrow> start \<le> uint (page_of_nr n) \<and> uint (page_of_nr n) < high"
    using boot_memory_bounds [of ext s] by blast
  obtain h m where u: "u = s\<lparr>HIGH_MEMORY := h, mem_map := m\<rparr>" using boot_memory_frame [OF b(2)] by blast
  obtain T where T: "shows_time cmos T" "fast_readings T" "T (7 * n + 6) = T (7 * n)" "\<forall>k. 0 \<le> tm_mon (T k) \<and> tm_mon (T k) < 12"
    using c(1) by (auto simp: clock_ok_def)
  obtain res where r: "time_init E cmos (blk_dev_init u) = Ret () ((blk_dev_init u)\<lparr>startup_time := res\<rparr>)"
    using time_init_consistent [OF T(1-3) c(2) T(4)] by blast
  let ?v = "(blk_dev_init u)\<lparr>startup_time := res\<rparr>"
  obtain G where g: "sched_init ?v = ?v\<lparr>task := (\<lambda>i. if 1 \<le> i \<and> i < NR_TASKS then 0 else task ?v i), gdt := G\<rparr>"
    using sched_init_frame [of ?v] by blast
  let ?s1 = "sched_init ?v"
  have f: "HIGH_MEMORY ?s1 = HIGH_MEMORY u" "mem_map ?s1 = mem_map u" "task ?s1 = (\<lambda>i. if 1 \<le> i \<and> i < NR_TASKS then 0 else task s i)"
    "tstruct ?s1 = tstruct s" "current ?s1 = current s" "file_table ?s1 = file_table s" "tty_table ?s1 = tty_table s"
    "request ?s1 = request (blk_dev_init s)" "blk_dev ?s1 = blk_dev s" "start_buffer ?s1 = start_buffer s" "NR_BUFFERS ?s1 = NR_BUFFERS s"
    unfolding g by (simp_all add: u blk_dev_init_def cong: if_cong)
  show ?thesis
    using b r f by (intro exI [of _ high] exI [of _ start] exI [of _ ?s1]) auto
qed

text \<open>C8: The kernel starts. For every size of memory that the set-up code can report, every clock that shows real moments and every
  screen that the console supports, \<^verbatim>\<open>main\<close> ends its initialisation and leaves the kernel in a state that has what all parts rely
  on: exactly the frames above the buffers are free, the buffer cache is sound, the counts of open files are right, the first task is the
  only one, all terminal queues are empty, no request is queued, the disk drivers are registered, the console's invariant holds
  and every interrupt vector leads to its handler, through a gate of its type.\<close>

theorem kernel_starts:
  assumes clock: "clock_ok cmos n" and fuel: "n < fuel E" "2 ^ 32 \<le> fuel E" and screen: "screen_ok (BOOT_SCREEN B)"
    and console: "con_state k = 0" "npar k = 0" and image: "1024 \<le> unat kend" "unat kend \<le> 0x90000" "p \<noteq> 0"
  shows "\<exists>t k' r' s'. main_init E cmos B addr t0 (k, r) (static_kernel p kend m) = Ret (t, k', r') s' \<and> started s' \<and> con_ok k' \<and>
    (\<forall>v < 256. gate_fields (t v) = (addr (vector_handler v), 8, if user_callable v then 3 else 0, vector_type v, True))"
proof -
  let ?s = "(static_kernel p kend m)\<lparr>ROOT_DEV := ORIG_ROOT_DEV B\<rparr>"
  obtain high start s1 u res where pre: "memory_limits (EXT_MEM_K B) = (high, start, start)" "0x100000 \<le> start" "start \<le> high" "high \<le> 0x1000000"
      "uint (HIGH_MEMORY s1) = high"
      "\<forall>n < PAGING_PAGES. mem_map s1 n = 0 \<longleftrightarrow> start \<le> uint (page_of_nr n) \<and> uint (page_of_nr n) < high"
    and run: "boot_memory (EXT_MEM_K B) ?s = Ret () u" "time_init E cmos (blk_dev_init u) = Ret () ((blk_dev_init u)\<lparr>startup_time := res\<rparr>)"
      "s1 = sched_init ((blk_dev_init u)\<lparr>startup_time := res\<rparr>)"
    and s1: "task s1 = (\<lambda>i. if 1 \<le> i \<and> i < NR_TASKS then 0 else task ?s i)" "tstruct s1 = tstruct ?s" "current s1 = current ?s"
      "file_table s1 = file_table ?s" "tty_table s1 = tty_table ?s" "request s1 = request (blk_dev_init ?s)" "blk_dev s1 = blk_dev ?s"
      "start_buffer s1 = start_buffer ?s" "NR_BUFFERS s1 = NR_BUFFERS ?s"
    using main_init_prefix [OF clock fuel(1), of "EXT_MEM_K B" ?s] by blast
  have e: "0xA0000 \<le> unat (word_of_int start :: u32)" using pre(2-4) by (simp add: unat_eq_nat_uint uint_word_of_int_eq take_bit_eq_mod)
  have st: "1024 \<le> unat (start_buffer s1)" "unat (start_buffer s1) \<le> 0x90000" "NR_BUFFERS s1 = 0"
    using image s1(8,9) by (simp_all add: static_kernel_def k0_def)
  obtain t2 N where b: "buffer_init E (word_of_int start) s1 = Ret () t2" "cache_ok t2 (\<lambda>_. []) [0..<N]"
    using buffer_init_sound [OF st(1,2) e st(3) fuel(2)] by blast
  note kept = buffer_init_frame [OF b(1), unfolded kept_def]
  let ?t = "floppy_init (hd_init t2)"
  have m: "main_init E cmos B addr t0 (k, r) (static_kernel p kend m) =
      Ret (boot_idt addr t0, tty_init (BOOT_SCREEN B) (blk_dev_init u) (k, r)) ?t"
    using run b(1) pre(1) by (simp add: main_init_def Let_def)
  have tk: "task ?t = (\<lambda>i. if 1 \<le> i \<and> i < NR_TASKS then 0 else ((\<lambda>_. 0)(0 := p)) i)" "tstruct ?t = (tstruct k0)(p := INIT_TASK p)"
      "file_table ?t = file_table k0" "current ?t = p" "tty_table ?t = init_tty_table" "request ?t = request (blk_dev_init ?s)"
    using kept s1 by (simp_all add: drivers_kept static_kernel_def cong: if_cong)
  have files: "files_ok ?t" by (rule files_ok_static [OF tk(1-3)])
  have slot: "current_slot ?t 0" using image(3) unfolding current_slot_def task_wf_def tk(1,4) by simp
  have reqs: "(\<forall>i < NR_REQUEST. r_dev (request ?t i) = -1) \<and> sectors_ok ?t"
    unfolding sectors_ok_def tk(6) by (simp add: blk_dev_init_def static_kernel_def k0_def)
  have drv: "request_fn (blk_dev ?t 2) = Some Do_fd_request \<and> request_fn (blk_dev ?t 3) = Some Do_hd_request \<and>
      current_request (blk_dev ?t 2) = None \<and> current_request (blk_dev ?t 3) = None"
    using kept s1(7) by (simp add: floppy_init_def hd_init_def static_kernel_def k0_def)
  have "started ?t" unfolding started_def
  proof (intro conjI)
    show "\<exists>start. 0x100000 \<le> start \<and> start \<le> uint (HIGH_MEMORY ?t) \<and> uint (HIGH_MEMORY ?t) \<le> 0x1000000 \<and>
       (\<forall>n < PAGING_PAGES. mem_map ?t n = 0 \<longleftrightarrow> start \<le> uint (page_of_nr n) \<and> uint (page_of_nr n) < uint (HIGH_MEMORY ?t))"
      using pre kept by (intro exI [of _ start]) (simp add: drivers_kept)
    show "cache_ok ?t (\<lambda>_. []) [0..<NR_BUFFERS ?t]" using b(2) cache_ok_N [OF b(2)] by (simp add: drivers_kept(9))
    show "\<forall>i. 0 < i \<and> i < NR_TASKS \<longrightarrow> task ?t i = 0" by (simp add: tk(1))
    show "\<forall>n q. q \<in> {read_q (tty_table ?t n), write_q (tty_table ?t n), secondary (tty_table ?t n)} \<longrightarrow> q_ok q \<and> q_items q = []"
      unfolding tk(5) using init_queues by blast
  qed (use files slot reqs drv in simp_all)
  moreover have "con_ok (con_init (BOOT_SCREEN B) k)" using con_init_inv [of "BOOT_SCREEN B" k] screen console by (simp add: screen_ok_def)
  ultimately show ?thesis using m boot_idt_gate [of _ addr t0] by (auto simp: tty_init_def Let_def)
qed

theorem kernel_starts_witness:
  "\<exists>t k r s. main_init (quiet_env (2 ^ 32)) stopped_clock \<lparr>ORIG_ROOT_DEV = 0x306, EXT_MEM_K = 3072, BOOT_SCREEN = cga_boot\<rparr> (\<lambda>_. 0) (\<lambda>_. zero_desc)
      (zero_console, \<lparr>rs_outs = [], rs_ins = (\<lambda>_ _. 0), rs_nins = 0\<rparr>) (static_kernel 0x10000 0x20000 (\<lambda>_. 0)) = Ret (t, k, r) s \<and>
    started s \<and> con_ok k"
proof -
  have "shows_time stopped_clock (\<lambda>_. new_year_1991)"
    by (simp add: shows_time_def stopped_clock_def new_year_1991_def Let_def)
  then have c: "clock_ok stopped_clock 0"
    unfolding clock_ok_def by (intro exI [of _ "\<lambda>_. new_year_1991"]) (simp add: fast_readings_def new_year_1991_def)
  let ?B = "\<lparr>ORIG_ROOT_DEV = 0x306, EXT_MEM_K = 3072, BOOT_SCREEN = cga_boot\<rparr> :: boot_params"
  have s: "screen_ok (BOOT_SCREEN ?B)" "con_state zero_console = 0" "npar zero_console = 0"
    by (simp_all add: screen_ok_def cga_boot_def zero_console_def)
  have f: "0 < fuel (quiet_env (2 ^ 32))" "2 ^ 32 \<le> fuel (quiet_env (2 ^ 32))" by (simp_all add: quiet_env_def)
  show ?thesis using kernel_starts [OF c f s, of "0x20000" "0x10000"] by (fastforce simp del: power_numeral)
qed

end
