(* ===== verification/Pipe.thy ===== *)
theory Pipe
  imports Files
begin

text \<open>
  Pipes (fs/pipe.c) as queues of bytes: \<open>pipe_items\<close> are the bytes between tail and head of the pipe's
  page. The theorems are about calls that need not wait: a write that finds room and a read that
  finds enough bytes.
\<close>

subsection \<open>Bytes of physical memory\<close>

lemma byte_of32_le32:
  assumes "k < 4"
  shows "byte_of32 k (le32 b) = b k"
proof -
  have nb: "\<not> bit (w :: u8) j" if "8 \<le> j" for w j using bit_imp_le_length [of w j] that by auto
  have "k = 0 \<or> k = 1 \<or> k = 2 \<or> k = 3" using assms by auto
  then show ?thesis
    by (elim disjE; intro bit_word_eqI) (auto simp: byte_of32_def le32_def bit_simps nb)
qed

lemma low_bits: "unat ((a :: u32) AND 3) < 4"
proof -
  have "a AND 3 \<le> 3" by (rule word_and_le1)
  then show ?thesis by (simp add: word_le_nat_alt)
qed

lemma split_low: "(a AND NOT 3 = b AND NOT 3 \<and> a AND 3 = b AND 3) \<longleftrightarrow> a = (b :: u32)"
proof
  assume "a AND NOT 3 = b AND NOT 3 \<and> a AND 3 = b AND 3"
  then have "(a AND NOT 3) OR (a AND 3) = (b AND NOT 3) OR (b AND 3)" by simp
  moreover have "(x AND NOT 3) OR (x AND 3) = x" for x :: u32
    by (rule bit_word_eqI) (auto simp: bit_simps)
  ultimately show "a = b" by simp
qed simp

lemma phys_byte_set:
  "phys_byte a (set_phys_byte b v s) = (if a = b then v else phys_byte a s)"
proof (cases "a AND NOT 3 = b AND NOT 3")
  case False
  then show ?thesis by (auto simp: phys_byte_def set_phys_byte_def)
next
  case True
  have e: "unat (a AND 3) = unat (b AND 3) \<longleftrightarrow> a = b"
    using split_low [of a b] True by (simp add: word_unat_eq_iff)
  show ?thesis
    unfolding phys_byte_def set_phys_byte_def True by (simp add: byte_of32_le32 low_bits e)
qed

lemma umem_set_phys_byte [simp]:
  "umem (set_phys_byte a v s) = umem s" "inode_table (set_phys_byte a v s) = inode_table s"
  by (simp_all add: set_phys_byte_def)

subsection \<open>The page as a ring\<close>

definition pipe_ok :: "nat \<Rightarrow> kernel \<Rightarrow> bool" where
  "pipe_ok i s \<longleftrightarrow> PIPE_HEAD (inode_table s i) < 4096 \<and> PIPE_TAIL (inode_table s i) < 4096"

abbreviation (input) "phead s i \<equiv> unat (PIPE_HEAD (inode_table s i))"
abbreviation (input) "ptail s i \<equiv> unat (PIPE_TAIL (inode_table s i))"

definition pipe_items :: "nat \<Rightarrow> kernel \<Rightarrow> u8 list" where
  "pipe_items i s = map (\<lambda>k. pipe_get i ((ptail s i + k) mod 4096) s) [0..<PIPE_SIZE (inode_table s i)]"

definition user_bytes :: "u32 \<Rightarrow> nat \<Rightarrow> kernel \<Rightarrow> u8 list" where
  "user_bytes buf n s = map (\<lambda>k. get_fs_byte (buf + of_nat k) s) [0..<n]"

lemma unat_and_4095: "unat ((w :: u16) AND 4095) = unat w mod 4096"
proof -
  have "(4095 :: u16) = mask 12" by (simp add: mask_eq_exp_minus_1)
  then have "w AND 4095 = take_bit 12 w" by (simp only: take_bit_eq_mask)
  then show ?thesis by (simp add: unsigned_take_bit_eq take_bit_eq_mod unat_mod)
qed

lemma pipe_size_value:
  assumes "pipe_ok i s"
  shows "PIPE_SIZE (inode_table s i) =
    (if ptail s i \<le> phead s i then phead s i - ptail s i else 4096 + phead s i - ptail s i)"
proof -
  let ?a = "PIPE_HEAD (inode_table s i)" and ?b = "PIPE_TAIL (inode_table s i)"
  have l: "unat ?a < 4096" "unat ?b < 4096" using assms by (simp_all add: pipe_ok_def word_less_nat_alt)
  show ?thesis
  proof (cases "?b \<le> ?a")
    case True
    then show ?thesis using l by (simp add: PIPE_SIZE_def unat_and_4095 unat_sub word_le_nat_alt)
  next
    case False
    then have lt: "unat ?a < unat ?b" by (simp add: word_le_nat_alt)
    have "unat (?a - ?b) = 65536 + unat ?a - unat ?b" using False by (simp add: unat_sub_if' word_le_nat_alt)
    moreover have "65536 + unat ?a - unat ?b = (4096 + unat ?a - unat ?b) + 4096 * 15" using l lt by simp
    then have "(65536 + unat ?a - unat ?b) mod 4096 = 4096 + unat ?a - unat ?b"
      using l lt by (simp only: mod_mult_self2) simp
    ultimately show ?thesis using lt by (simp add: PIPE_SIZE_def unat_and_4095)
  qed
qed

lemma unat_advance:
  assumes "(a :: u16) < 4096" "n \<le> 4096 - unat a"
  shows "unat ((a + of_nat n) AND 4095) = (if unat a + n = 4096 then 0 else unat a + n)"
proof -
  have "unat a < 4096" using assms(1) by (simp add: word_less_nat_alt)
  then have "unat (a + of_nat n) = unat a + n"
    using assms(2) by (simp add: unat_word_ariths unsigned_of_nat take_bit_eq_mod)
  then show ?thesis using assms(2) \<open>unat a < 4096\<close> by (auto simp: unat_and_4095)
qed

lemma pipe_get_put:
  assumes "j < 4096" "m < 4096"
  shows "pipe_get i j (pipe_put i m v s) = (if j = m then v else pipe_get i j s)"
proof -
  have "(of_nat j :: u32) = of_nat m \<longleftrightarrow> j = m" using assms by (intro of_nat32_inj) simp_all
  then show ?thesis by (simp add: pipe_get_def pipe_put_def phys_byte_set)
qed

lemma pipe_put_fold:
  "inode_table (fold (\<lambda>k s. pipe_put i (h + k) (get_fs_byte (buf + of_nat k) s) s) [0..<n] s) = inode_table s"
  "umem (fold (\<lambda>k s. pipe_put i (h + k) (get_fs_byte (buf + of_nat k) s) s) [0..<n] s) = umem s"
  "h + n \<le> 4096 \<Longrightarrow> j < 4096 \<Longrightarrow>
   pipe_get i j (fold (\<lambda>k s. pipe_put i (h + k) (get_fs_byte (buf + of_nat k) s) s) [0..<n] s) =
     (if h \<le> j \<and> j < h + n then get_fs_byte (buf + of_nat (j - h)) s else pipe_get i j s)"
proof (induction n)
  case 0
  {
    case 1
    then show ?case by simp
  next
    case 2
    then show ?case by simp
  next
    case 3
    then show ?case by auto
  }
next
  case (Suc n)
  let ?F = "fold (\<lambda>k s. pipe_put i (h + k) (get_fs_byte (buf + of_nat k) s) s) [0..<n] s"
  {
    case 1
    show ?case using Suc(1) by (simp add: pipe_put_def)
  next
    case 2
    show ?case using Suc(2) by (simp add: pipe_put_def)
  next
    case 3
    have g: "get_fs_byte x ?F = get_fs_byte x s" for x by (simp only: get_fs_byte_def [of x] Suc(2))
    have "j < 4096" "h + n < 4096" using 3 by simp_all
    then have "pipe_get i j (pipe_put i (h + n) (get_fs_byte (buf + of_nat n) ?F) ?F) =
        (if j = h + n then get_fs_byte (buf + of_nat n) s else pipe_get i j ?F)"
      by (simp only: pipe_get_put g)
    then show ?case using Suc(3) 3 by (auto simp: less_Suc_eq)
  }
qed

lemma pipe_distance:
  fixes h t k :: nat
  assumes "k < (if t \<le> h then h - t else 4096 + h - t)" "h < 4096" "t < 4096"
  shows "(t + k) mod 4096 = (if t + k < 4096 then t + k else t + k - 4096)"
    "(t + k) mod 4096 < h \<or> t \<le> (t + k) mod 4096" "t \<le> h \<Longrightarrow> (t + k) mod 4096 < h"
proof -
  have "t + k < 8192" using assms by (auto split: if_splits)
  then show m: "(t + k) mod 4096 = (if t + k < 4096 then t + k else t + k - 4096)" by (simp add: mod_if)
  show "(t + k) mod 4096 < h \<or> t \<le> (t + k) mod 4096" "t \<le> h \<Longrightarrow> (t + k) mod 4096 < h"
    unfolding m using assms by (auto split: if_splits)
qed

lemma upt_append_shift: "[0..<a + n] = [0..<a] @ map (\<lambda>k. a + k) [0..<n]"
  using map_add_upt [of a n] by (simp add: upt_add_eq_append [of 0 a n] add.commute)

lemma pipe_add_items:
  assumes ok: "pipe_ok i s" and n: "n \<le> 4096 - phead s i" "n \<le> pipe_space (inode_table s i)"
  shows "pipe_ok i (pipe_add i n buf s)" "umem (pipe_add i n buf s) = umem s"
    "pipe_items i (pipe_add i n buf s) = pipe_items i s @ user_bytes buf n s"
    "PIPE_SIZE (inode_table (pipe_add i n buf s) i) = PIPE_SIZE (inode_table s i) + n"
proof -
  let ?s = "upd_inode i (\<lambda>x. x\<lparr>i_zone := (i_zone x)(0 := (PIPE_HEAD x + of_nat n) AND 4095)\<rparr>) s"
  let ?t = "pipe_add i n buf s" and ?h = "phead s i" and ?b = "ptail s i"
  have t: "?t = fold (\<lambda>k s. pipe_put i (?h + k) (get_fs_byte (buf + of_nat k) s) s) [0..<n] ?s"
    by (simp add: pipe_add_def Let_def)
  have l: "?h < 4096" "?b < 4096" using ok by (simp_all add: pipe_ok_def word_less_nat_alt)
  have it: "inode_table ?t = inode_table ?s" unfolding t by (rule pipe_put_fold(1))
  have um: "umem ?t = umem s" unfolding t pipe_put_fold(2) by (simp add: upd_inode_def)
  show "umem ?t = umem s" by (rule um)
  have hd: "phead ?t i = (if ?h + n = 4096 then 0 else ?h + n)"
    using unat_advance [of "PIPE_HEAD (inode_table s i)" n] ok n(1)
    by (simp add: it upd_inode_def PIPE_HEAD_def pipe_ok_def)
  have tl: "ptail ?t i = ?b" by (simp add: it upd_inode_def PIPE_TAIL_def)
  show ok': "pipe_ok i ?t" unfolding pipe_ok_def word_less_nat_alt hd tl using l n(1) by auto
  note sz = pipe_size_value [OF ok] and sz' = pipe_size_value [OF ok']
  have sp: "PIPE_SIZE (inode_table s i) + n \<le> 4095" using n(2) sz l by (auto simp: pipe_space_def split: if_splits)
  show size: "PIPE_SIZE (inode_table ?t i) = PIPE_SIZE (inode_table s i) + n"
    using sp l n(1) unfolding sz' sz hd tl by (auto split: if_splits)
  have g: "pipe_get i j ?t = (if ?h \<le> j \<and> j < ?h + n then get_fs_byte (buf + of_nat (j - ?h)) s else pipe_get i j s)"
    if "j < 4096" for j
  proof -
    have "pipe_get i j ?s = pipe_get i j s" "get_fs_byte x ?s = get_fs_byte x s" for x
      by (simp_all add: pipe_get_def phys_byte_def get_fs_byte_def upd_inode_def)
    then show ?thesis unfolding t using pipe_put_fold(3) [of ?h n j i buf ?s] n(1) l that by simp
  qed
  have old: "pipe_get i ((?b + k) mod 4096) ?t = pipe_get i ((?b + k) mod 4096) s"
    if k: "k < PIPE_SIZE (inode_table s i)" for k
  proof -
    note pd = pipe_distance [OF k [unfolded sz] l]
    have "\<not> (?h \<le> (?b + k) mod 4096 \<and> (?b + k) mod 4096 < ?h + n)"
      using pd sp k l unfolding sz by (auto split: if_splits)
    from g [of "(?b + k) mod 4096", unfolded if_not_P [OF this]] show ?thesis by simp
  qed
  have new: "pipe_get i ((?b + (PIPE_SIZE (inode_table s i) + k)) mod 4096) ?t = get_fs_byte (buf + of_nat k) s"
    if k: "k < n" for k
  proof -
    have "(?b + (PIPE_SIZE (inode_table s i) + k)) mod 4096 = ?h + k"
    proof (cases "?b \<le> ?h")
      case True
      then show ?thesis using k n(1) l by (simp add: sz)
    next
      case False
      then have "?b + (PIPE_SIZE (inode_table s i) + k) = ?h + k + 4096" using l by (simp add: sz)
      then have "(?b + (PIPE_SIZE (inode_table s i) + k)) mod 4096 = (?h + k) mod 4096" by (simp only: mod_add_self2)
      then show ?thesis using k n(1) l by simp
    qed
    moreover have "?h + k < 4096" "?h \<le> ?h + k \<and> ?h + k < ?h + n" using k n(1) by auto
    ultimately show ?thesis using g [of "?h + k"] by simp
  qed
  show "pipe_items i ?t = pipe_items i s @ user_bytes buf n s"
    unfolding pipe_items_def size tl user_bytes_def upt_append_shift map_append map_map comp_def
    using old new by simp
qed

lemma put_fs_bytes_umem:
  assumes "n \<le> 2 ^ 32" and k: "k < 2 ^ 32"
  shows "umem (put_fs_bytes d n a s) (a + of_nat k) = (if k < n then d k else umem s (a + of_nat k))"
  using assms(1)
proof (induction n)
  case 0
  then show ?case by (simp add: put_fs_bytes_def)
next
  case (Suc n)
  have "(of_nat k :: u32) = of_nat n \<longleftrightarrow> k = n" using k Suc.prems by (intro of_nat32_inj) simp_all
  then show ?case using Suc by (auto simp: put_fs_bytes_def put_fs_byte_def)
qed

lemma put_fs_bytes_frame:
  "inode_table (put_fs_bytes d n a s) = inode_table s" "phys (put_fs_bytes d n a s) = phys s"
  by (induction n) (simp_all add: put_fs_bytes_def put_fs_byte_def)

lemma pipe_take_items:
  assumes ok: "pipe_ok i s" and n: "n \<le> 4096 - ptail s i" "n \<le> PIPE_SIZE (inode_table s i)"
  shows "pipe_ok i (pipe_take i n buf s)" "pipe_items i (pipe_take i n buf s) = drop n (pipe_items i s)"
    "PIPE_SIZE (inode_table (pipe_take i n buf s) i) = PIPE_SIZE (inode_table s i) - n"
    "k < 2 ^ 32 \<Longrightarrow> umem (pipe_take i n buf s) (buf + of_nat k) =
       (if k < n then pipe_items i s ! k else umem s (buf + of_nat k))"
proof -
  let ?s = "upd_inode i (\<lambda>x. x\<lparr>i_zone := (i_zone x)(1 := (PIPE_TAIL x + of_nat n) AND 4095)\<rparr>) s"
  let ?t = "pipe_take i n buf s" and ?h = "phead s i" and ?b = "ptail s i"
  have t: "?t = put_fs_bytes (\<lambda>k. pipe_get i (?b + k) ?s) n buf ?s"
    by (simp add: pipe_take_def Let_def)
  have l: "?h < 4096" "?b < 4096" using ok by (simp_all add: pipe_ok_def word_less_nat_alt)
  have it: "inode_table ?t = inode_table ?s" "phys ?t = phys s" "umem ?s = umem s"
    unfolding t put_fs_bytes_frame by (simp_all add: upd_inode_def)
  have tl: "ptail ?t i = (if ?b + n = 4096 then 0 else ?b + n)"
    using unat_advance [of "PIPE_TAIL (inode_table s i)" n] ok n(1)
    by (simp add: it upd_inode_def PIPE_TAIL_def pipe_ok_def)
  have hd: "phead ?t i = ?h" by (simp add: it upd_inode_def PIPE_HEAD_def)
  show ok': "pipe_ok i ?t" unfolding pipe_ok_def word_less_nat_alt hd tl using l n(1) by auto
  note sz = pipe_size_value [OF ok] and sz' = pipe_size_value [OF ok']
  show size: "PIPE_SIZE (inode_table ?t i) = PIPE_SIZE (inode_table s i) - n"
    using l n unfolding sz' sz hd tl by (auto split: if_splits)
  have g: "pipe_get i j ?t = pipe_get i j s" "pipe_get i j ?s = pipe_get i j s" for j
    by (simp_all add: pipe_get_def phys_byte_def it) (simp_all add: upd_inode_def)
  have m: "((if ?b + n = 4096 then 0 else ?b + n) + k) mod 4096 = (?b + (n + k)) mod 4096" for k
    by (auto simp: add.assoc [symmetric])
  have "pipe_items i s = map (\<lambda>k. pipe_get i ((?b + k) mod 4096) s) [0..<n + (PIPE_SIZE (inode_table s i) - n)]"
    using n(2) by (simp add: pipe_items_def)
  then show "pipe_items i ?t = drop n (pipe_items i s)"
    unfolding upt_append_shift by (simp add: pipe_items_def size tl g m)
  have "pipe_items i s ! j = pipe_get i (?b + j) s" if "j < n" for j
    using that n by (simp add: pipe_items_def)
  moreover have "n \<le> 2 ^ 32" using n(1) by simp
  ultimately show "umem ?t (buf + of_nat k) = (if k < n then pipe_items i s ! k else umem s (buf + of_nat k))"
    if "k < 2 ^ 32"
    unfolding t using that by (simp only: put_fs_bytes_umem g it) simp
qed

subsection \<open>Reading and writing without waiting\<close>

lemma pipe_wait_ready: "0 < fuel E \<Longrightarrow> avail (inode_table s i) \<noteq> 0 \<Longrightarrow> pipe_wait E i avail s = Ret True s"
  by (simp add: pipe_wait_def kloop_unfold)

lemma wake_up_frame:
  "inode_table (wake_up q s) = inode_table s" "umem (wake_up q s) = umem s" "phys (wake_up q s) = phys s"
  by (simp_all add: wake_up_def upd_task_def)

lemma pipe_items_wake_up [simp]: "pipe_items i (wake_up q s) = pipe_items i s" "pipe_ok i (wake_up q s) = pipe_ok i s"
  by (simp_all add: pipe_items_def pipe_ok_def pipe_get_def phys_byte_def wake_up_frame)

lemma length_pipe_items: "length (pipe_items i s) = PIPE_SIZE (inode_table s i)"
  by (simp add: pipe_items_def)

lemma user_bytes_append:
  "user_bytes buf m s @ user_bytes (buf + of_nat m) n s = user_bytes buf (m + n) s"
  by (simp add: user_bytes_def upt_append_shift comp_def add.assoc)

text \<open>C19: A write to a pipe that has room for all of the data returns at once with its length, and the data
  follow the bytes that were in the pipe, also when they wrap around the end of the page. User memory
  is not changed.\<close>

theorem write_pipe_appends:
  assumes ok: "pipe_ok i s" and n: "n \<le> pipe_space (inode_table s i)" and f: "n < fuel E"
  shows "\<exists>t. write_pipe E i buf (int n) s = Ret (int n) t \<and> pipe_ok i t \<and> umem t = umem s \<and>
    pipe_items i t = pipe_items i s @ user_bytes buf n s"
proof -
  let ?I = "\<lambda>(c, d) t. c + d = n \<and> pipe_ok i t \<and> umem t = umem s \<and> pipe_items i t = pipe_items i s @ user_bytes buf d s"
  let ?Q = "\<lambda>r t. r = int n \<and> pipe_ok i t \<and> umem t = umem s \<and> pipe_items i t = pipe_items i s @ user_bytes buf n s"
  let ?b = "\<lambda>(count, done) s.
       if count = 0 then Ret (Inr (int done)) (wake_up (I_wait i) s)
       else kbind (pipe_wait E i pipe_space s) (\<lambda>go s.
         if \<not> go then Ret (Inr (if done \<noteq> 0 then int done else -1))
                        (upd_cur (\<lambda>p. p\<lparr>t_signal := t_signal p OR sigbit SIGPIPE\<rparr>) s)
         else let n = inode_table s i;
                  chars = min (min (4096 - unat (PIPE_HEAD n)) count) (pipe_space n) in
           Ret (Inl (count - chars, done + chars)) (pipe_add i chars (buf + of_nat done) s))"
  have step: "\<exists>r t'. ?b v t = Ret r t' \<and> (case r of Inl w \<Rightarrow> ?I w t' \<and> fst w < fst v | Inr a \<Rightarrow> ?Q a t')"
    if I: "?I v t" for v t
  proof (cases "fst v = 0")
    case True
    then show ?thesis using I by (cases v) (auto simp: wake_up_frame)
  next
    case False
    obtain c d where v: "v = (c, d)" by (cases v)
    have J: "c + d = n" "pipe_ok i t" "umem t = umem s" "pipe_items i t = pipe_items i s @ user_bytes buf d s" "c \<noteq> 0"
      using I False by (auto simp: v)
    have sz: "PIPE_SIZE (inode_table t i) = PIPE_SIZE (inode_table s i) + d"
      using arg_cong [OF J(4), of length] by (simp add: length_pipe_items user_bytes_def)
    have sp: "pipe_space (inode_table t i) \<noteq> 0" using n J(1,5) sz by (simp add: pipe_space_def)
    define m where "m = min (min (4096 - phead t i) c) (pipe_space (inode_table t i))"
    have hd: "phead t i < 4096" using J(2) by (simp add: pipe_ok_def word_less_nat_alt)
    have m: "m \<le> 4096 - phead t i" "m \<le> pipe_space (inode_table t i)" "0 < m" "m \<le> c"
      using hd sp J(5) by (auto simp: m_def)
    note a = pipe_add_items [OF J(2) m(1,2), of "buf + of_nat d"]
    have ub: "user_bytes x k t = user_bytes x k s" for x k by (simp add: user_bytes_def get_fs_byte_def J(3))
    have "?b v t = Ret (Inl (c - m, d + m)) (pipe_add i m (buf + of_nat d) t)"
      using J(5) sp f J(1) pipe_wait_ready [of E pipe_space t i] by (simp add: v Let_def m_def)
    moreover have "?I (c - m, d + m) (pipe_add i m (buf + of_nat d) t)"
      using a J m(4) user_bytes_append [of buf d s m] by (simp add: ub)
    ultimately show ?thesis using m(3,4) by (auto simp: v)
  qed
  have "\<exists>r t. kwhile (fuel E) ?b (n, 0) s = Ret r t \<and> ?Q r t"
  proof (rule kwhile_rule [of ?I ?b "\<lambda>v _. fst v" ?Q])
    show "?I (n, 0) s" using ok by (simp add: user_bytes_def)
    show "fst (n, 0 :: nat) < fuel E" using f by simp
  qed (rule step)
  then show ?thesis by (auto simp: write_pipe_def)
qed

text \<open>The bytes a reader has after one more piece.\<close>

lemma user_bytes_pipe_take:
  assumes ok: "pipe_ok i t" and m: "m \<le> 4096 - ptail t i" "m \<le> PIPE_SIZE (inode_table t i)" and dn: "d + m < 4096"
    and t': "t' = pipe_take i m (buf + of_nat d) t"
  shows "user_bytes buf (d + m) t' = user_bytes buf d t @ take m (pipe_items i t)"
proof -
  note a = pipe_take_items [OF ok m, where buf = "buf + of_nat d", folded t']
  have new: "user_bytes (buf + of_nat d) m t' = take m (pipe_items i t)"
  proof (rule nth_equalityI)
    show "length (user_bytes (buf + of_nat d) m t') = length (take m (pipe_items i t))"
      using m(2) by (simp add: user_bytes_def length_pipe_items)
    show "user_bytes (buf + of_nat d) m t' ! k = take m (pipe_items i t) ! k"
      if "k < length (user_bytes (buf + of_nat d) m t')" for k
      using that dn a(4) [of k] by (simp add: user_bytes_def get_fs_byte_def)
  qed
  have old: "user_bytes buf d t' = user_bytes buf d t"
    unfolding user_bytes_def get_fs_byte_def
  proof (rule map_cong [OF refl])
    fix k
    assume k: "k \<in> set [0..<d]"
    define j where "j = 2 ^ 32 - d + k"
    have "buf + of_nat k = buf + of_nat d + of_nat j"
    proof -
      have "of_nat d + of_nat j = (of_nat (2 ^ 32 + k) :: u32)"
        using dn unfolding of_nat_add [symmetric] by (simp only: j_def) simp
      also have "\<dots> = of_nat k" by simp
      finally show ?thesis by (simp add: add.assoc)
    qed
    moreover have "j < 2 ^ 32" "\<not> j < m" using k dn by (auto simp: j_def)
    ultimately show "umem t' (buf + of_nat k) = umem t (buf + of_nat k)" using a(4) [of j] by (simp add: add.assoc)
  qed
  show ?thesis unfolding user_bytes_append [symmetric] old new ..
qed

text \<open>C20: A read from a pipe that holds at least as many bytes as it asks for returns at once with that
  many; the bytes at the front of the pipe are in the caller's buffer, in their order, and are no
  longer in the pipe.\<close>

theorem read_pipe_takes:
  assumes ok: "pipe_ok i s" and n: "n \<le> PIPE_SIZE (inode_table s i)" and f: "n < fuel E"
  shows "\<exists>t. read_pipe E i buf (int n) s = Ret (int n) t \<and> pipe_ok i t \<and>
    user_bytes buf n t = take n (pipe_items i s) \<and> pipe_items i t = drop n (pipe_items i s)"
proof -
  let ?I = "\<lambda>(c, d) t. c + d = n \<and> pipe_ok i t \<and> user_bytes buf d t = take d (pipe_items i s) \<and>
    pipe_items i t = drop d (pipe_items i s)"
  let ?Q = "\<lambda>r t. r = int n \<and> pipe_ok i t \<and> user_bytes buf n t = take n (pipe_items i s) \<and>
    pipe_items i t = drop n (pipe_items i s)"
  let ?b = "\<lambda>(count, done) s.
       if count = 0 then Ret (Inr (int done)) (wake_up (I_wait i) s)
       else kbind (pipe_wait E i PIPE_SIZE s) (\<lambda>go s.
         if \<not> go then Ret (Inr (int done)) s
         else let n = inode_table s i;
                  chars = min (min (4096 - unat (PIPE_TAIL n)) count) (PIPE_SIZE n) in
           Ret (Inl (count - chars, done + chars)) (pipe_take i chars (buf + of_nat done) s))"
  have n12: "n < 4096" using n pipe_size_value [OF ok] ok
    by (auto simp: pipe_ok_def word_less_nat_alt split: if_splits)
  have step: "\<exists>r t'. ?b v t = Ret r t' \<and> (case r of Inl w \<Rightarrow> ?I w t' \<and> fst w < fst v | Inr a \<Rightarrow> ?Q a t')"
    if I: "?I v t" for v t
  proof (cases "fst v = 0")
    case True
    then show ?thesis using I by (cases v) (auto simp: user_bytes_def get_fs_byte_def wake_up_frame)
  next
    case False
    obtain c d where v: "v = (c, d)" by (cases v)
    have J: "c + d = n" "pipe_ok i t" "user_bytes buf d t = take d (pipe_items i s)"
        "pipe_items i t = drop d (pipe_items i s)" "c \<noteq> 0"
      using I False by (auto simp: v)
    have sz: "PIPE_SIZE (inode_table t i) = PIPE_SIZE (inode_table s i) - d"
      using arg_cong [OF J(4), of length] by (simp add: length_pipe_items)
    have sp: "PIPE_SIZE (inode_table t i) \<noteq> 0" using n J(1,5) sz by simp
    define m where "m = min (min (4096 - ptail t i) c) (PIPE_SIZE (inode_table t i))"
    have "ptail t i < 4096" using J(2) by (simp add: pipe_ok_def word_less_nat_alt)
    then have m: "m \<le> 4096 - ptail t i" "m \<le> PIPE_SIZE (inode_table t i)" "0 < m" "m \<le> c"
      using sp J(5) by (auto simp: m_def)
    define t' where "t' = pipe_take i m (buf + of_nat d) t"
    note a = pipe_take_items [OF J(2) m(1,2), where buf = "buf + of_nat d", folded t'_def]
    have dn: "d + m < 4096" using n12 J(1) m(4) by simp
    have b: "?b v t = Ret (Inl (c - m, d + m)) t'"
      using J(5) sp f J(1) pipe_wait_ready [of E PIPE_SIZE t i] by (simp add: v Let_def m_def t'_def)
    have "user_bytes buf (d + m) t' = take (d + m) (pipe_items i s)"
      unfolding user_bytes_pipe_take [OF J(2) m(1,2) dn t'_def] J(3,4) by (simp add: take_add)
    then have "?I (c - m, d + m) t'" using a(1,2) J(1,4) m(4) by (simp add: add.commute)
    with b show ?thesis using m(3,4) by (auto simp: v)
  qed
  have "\<exists>r t. kwhile (fuel E) ?b (n, 0) s = Ret r t \<and> ?Q r t"
  proof (rule kwhile_rule [of ?I ?b "\<lambda>v _. fst v" ?Q])
    show "?I (n, 0) s" using ok by (simp add: user_bytes_def)
    show "fst (n, 0 :: nat) < fuel E" using f by simp
  qed (rule step)
  then show ?thesis by (auto simp: read_pipe_def)
qed

text \<open>A pipe whose six bytes lie around the end of its page.\<close>

definition wrapped_pipe :: kernel where
  "wrapped_pipe = k0\<lparr>inode_table := (\<lambda>i. (inode_table k0 i)\<lparr>
     i_zone := (\<lambda>z. if z = 0 then 3 else if z = 1 then 4093 else 0)\<rparr>)\<rparr>"

lemma wrapped_pipe: "pipe_ok 0 wrapped_pipe" "PIPE_SIZE (inode_table wrapped_pipe 0) = 6"
proof -
  show ok: "pipe_ok 0 wrapped_pipe" by (simp add: pipe_ok_def wrapped_pipe_def PIPE_HEAD_def PIPE_TAIL_def)
  show "PIPE_SIZE (inode_table wrapped_pipe 0) = 6"
    unfolding pipe_size_value [OF ok] by (simp add: wrapped_pipe_def PIPE_HEAD_def PIPE_TAIL_def)
qed

theorem write_pipe_appends_witness:
  "\<exists>t. write_pipe (quiet_env 9) 0 0x100 5 wrapped_pipe = Ret 5 t \<and>
     pipe_items 0 t = pipe_items 0 wrapped_pipe @ user_bytes 0x100 5 wrapped_pipe"
  using write_pipe_appends [OF wrapped_pipe(1), where n = 5 and E = "quiet_env 9" and buf = "0x100"]
  by (auto simp: wrapped_pipe pipe_space_def quiet_env_def)

theorem read_pipe_takes_witness:
  "\<exists>t. read_pipe (quiet_env 9) 0 0x100 5 wrapped_pipe = Ret 5 t \<and>
     user_bytes 0x100 5 t = take 5 (pipe_items 0 wrapped_pipe)"
  using read_pipe_takes [OF wrapped_pipe(1), where n = 5 and E = "quiet_env 9" and buf = "0x100"]
  by (auto simp: wrapped_pipe quiet_env_def)

end
