(* ===== verification/Exec.thy ===== *)
theory Exec
  imports Process Pipe
begin

text \<open>
  Program execution (fs/exec.c): the copy of arguments and environment into fresh pages, their place at
  the top of the new address space, the tables of pointers below them, the \<^verbatim>\<open>#!\<close> line of a script,
  and \<^verbatim>\<open>do_execve\<close>.

  The strings come from user memory or from the kernel's stack, depending on the \<^verbatim>\<open>from_kmem\<close>
  argument and the \<^verbatim>\<open>set_fs\<close> calls it leads to; \<open>copy_strings\<close> takes the two accessors instead:
  \<open>ptr i\<close> is \<^verbatim>\<open>argv[i]\<close> and \<open>byte a\<close> the byte at \<open>a\<close>. An \<open>exec_env\<close> holds what the code does not
  determine: the address of the local array \<^verbatim>\<open>buf\<close>, and what a page fault brings into a page of the
  new address space that is not mapped.
\<close>

record exec_env =
  kbuf :: u32
  fresh :: "u32 \<Rightarrow> u8"

record exec =
  a_magic :: u32
  a_text :: u32
  a_data :: u32
  a_bss :: u32
  a_syms :: u32
  a_entry :: u32
  a_trsize :: u32
  a_drsize :: u32

abbreviation (input) "MAX_ARG_PAGES \<equiv> (32 :: nat)"
abbreviation (input) "ZMAGIC \<equiv> (0x10b :: u32)"
abbreviation (input) "ENOEXEC \<equiv> (8 :: int)"

definition get_exec :: "(nat \<Rightarrow> u8) \<Rightarrow> exec" where
  "get_exec d = (let l = (\<lambda>i. le32 (\<lambda>k. d (4 * i + k))) in
     \<lparr>a_magic = l 0, a_text = l 1, a_data = l 2, a_bss = l 3, a_syms = l 4, a_entry = l 5,
      a_trsize = l 6, a_drsize = l 7\<rparr>)"

definition N_TXTOFF :: "exec \<Rightarrow> u32" where
  "N_TXTOFF ex = (if a_magic ex = ZMAGIC then (1024 - 32) + 32 else 32)"

subsection \<open>Tables of pointers\<close>

text \<open>\<^verbatim>\<open>while (get_fs_byte(p++));\<close> returns the address behind the string's 0.\<close>

definition skip_string :: "env \<Rightarrow> u32 \<Rightarrow> kernel \<Rightarrow> u32 kres" where
  "skip_string E p s =
     kwhile (fuel E) (\<lambda>p s. if get_fs_byte p s \<noteq> 0 then Ret (Inl (p + 1)) s else Ret (Inr (p + 1)) s) p s"

fun put_strings :: "env \<Rightarrow> nat \<Rightarrow> u32 \<Rightarrow> u32 \<Rightarrow> kernel \<Rightarrow> u32 kres" where
  "put_strings E 0 p table s = Ret p (put_fs_long 0 table s)"
| "put_strings E (Suc n) p table s =
     kbind (skip_string E p (put_fs_long p table s)) (\<lambda>p s. put_strings E n p (table + 4) s)"

definition create_tables :: "env \<Rightarrow> u32 \<Rightarrow> int \<Rightarrow> int \<Rightarrow> kernel \<Rightarrow> u32 kres" where
  "create_tables E p argc envc s =
     (let sp = 0xfffffffc AND p;
          sp = sp - 4 * word_of_int (envc + 1);
          envp = sp;
          sp = sp - 4 * word_of_int (argc + 1);
          argv = sp;
          s = put_fs_long envp (sp - 4) s;
          s = put_fs_long argv (sp - 8) s;
          s = put_fs_long (word_of_int argc) (sp - 12) s in
      kbind (put_strings E (nat argc) p argv s) (\<lambda>p s.
      kbind (put_strings E (nat envc) p envp s) (\<lambda>_ s.
        Ret (sp - 12) s)))"

definition count :: "env \<Rightarrow> u32 \<Rightarrow> kernel \<Rightarrow> int kres" where
  "count E argv s =
     (if argv = 0 then Ret 0 s
      else kwhile (fuel E) (\<lambda>(tmp, i) s.
        if get_fs_long tmp s \<noteq> 0 then Ret (Inl (tmp + 4, i + 1)) s else Ret (Inr i) s) (argv, 0) s)"

subsection \<open>Copying the strings\<close>

text \<open>The length of a string with its 0.\<close>

definition string_len :: "env \<Rightarrow> (u32 \<Rightarrow> kernel \<Rightarrow> u8) \<Rightarrow> u32 \<Rightarrow> kernel \<Rightarrow> nat kres" where
  "string_len E byte tmp s =
     kwhile (fuel E) (\<lambda>len s.
       if byte (tmp + of_nat len) s \<noteq> 0 then Ret (Inl (len + 1)) s else Ret (Inr (len + 1)) s) 0 s"

text \<open>The inner loop, which copies a string from its end: \<open>v\<close> is \<^verbatim>\<open>(p, offset, pag)\<close>. The result is
  \<open>None\<close> when there is no page left, and the array of pages. An index beyond the array is a fault: the
  test \<^verbatim>\<open>p-len < 0\<close> of the source is never true, as \<^verbatim>\<open>p\<close> is unsigned.\<close>

fun copy_bytes :: "(u32 \<Rightarrow> kernel \<Rightarrow> u8) \<Rightarrow> nat \<Rightarrow> u32 \<Rightarrow> u32 \<times> int \<times> u32 \<Rightarrow> (nat \<Rightarrow> u32) \<Rightarrow> kernel \<Rightarrow>
    ((u32 \<times> int \<times> u32) option \<times> (nat \<Rightarrow> u32)) kres" where
  "copy_bytes byte 0 tmp v page s = Ret (Some v, page) s"
| "copy_bytes byte (Suc len) tmp (p, offset, pag) page s =
     (let p = p - 1; tmp = tmp - 1; offset = offset - 1 in
      if offset < 0 then
        let offset = uint p mod 4096; i = unat p div 4096 in
        if i \<ge> MAX_ARG_PAGES then Fault
        else if page i \<noteq> 0 then
          copy_bytes byte len tmp (p, offset, page i) page
            (set_phys_byte (page i + word_of_int offset) (byte tmp s) s)
        else let (g, s) = get_free_page s in
          if g = 0 then Ret (None, page) s
          else copy_bytes byte len tmp (p, offset, g) (page(i := g))
            (set_phys_byte (g + word_of_int offset) (byte tmp s) s)
      else copy_bytes byte len tmp (p, offset, pag) page
        (set_phys_byte (pag + word_of_int offset) (byte tmp s) s))"

fun copy_args :: "env \<Rightarrow> (nat \<Rightarrow> kernel \<Rightarrow> u32) \<Rightarrow> (u32 \<Rightarrow> kernel \<Rightarrow> u8) \<Rightarrow> nat \<Rightarrow> u32 \<times> int \<times> u32 \<Rightarrow>
    (nat \<Rightarrow> u32) \<Rightarrow> kernel \<Rightarrow> (u32 \<times> (nat \<Rightarrow> u32)) kres" where
  "copy_args E ptr byte 0 v page s = Ret (fst v, page) s"
| "copy_args E ptr byte (Suc argc) v page s =
     (let tmp = ptr argc s in
      if tmp = 0 then Panic ''argc is wrong'' s
      else kbind (string_len E byte tmp s) (\<lambda>len s.
        kbind (copy_bytes byte len (tmp + of_nat len) v page s) (\<lambda>(r, page) s.
          case r of
            None \<Rightarrow> Ret (0, page) s
          | Some v \<Rightarrow> copy_args E ptr byte argc v page s)))"

text \<open>The uninitialised \<^verbatim>\<open>pag\<close> is not used before the first byte has set it.\<close>

definition copy_strings :: "env \<Rightarrow> int \<Rightarrow> (nat \<Rightarrow> kernel \<Rightarrow> u32) \<Rightarrow> (u32 \<Rightarrow> kernel \<Rightarrow> u8) \<Rightarrow> (nat \<Rightarrow> u32) \<Rightarrow> u32 \<Rightarrow>
    kernel \<Rightarrow> (u32 \<times> (nat \<Rightarrow> u32)) kres" where
  "copy_strings E argc ptr byte page p s =
     (if p = 0 then Ret (0, page) s else copy_args E ptr byte (nat argc) (p, 0, 0) page s)"

text \<open>The accessors for \<^verbatim>\<open>from_kmem\<close> 0, 1 and 2.\<close>

definition user_argv :: "u32 \<Rightarrow> nat \<Rightarrow> kernel \<Rightarrow> u32" where
  "user_argv argv i s = get_fs_long (argv + 4 * of_nat i) s"

definition kernel_argv :: "u32 \<Rightarrow> nat \<Rightarrow> kernel \<Rightarrow> u32" where
  "kernel_argv v i s = v"

definition kernel_byte :: "u32 \<Rightarrow> u8 list \<Rightarrow> u32 \<Rightarrow> kernel \<Rightarrow> u8" where
  "kernel_byte base str a s = (if unat (a - base) < length str then str ! unat (a - base) else 0)"

subsection \<open>The new address space\<close>

text \<open>What the \<^verbatim>\<open>fs\<close> segment shows once it points to the new data segment: the mapped pages, and what
  page faults will bring into the others.\<close>

definition fs_view :: "(u32 \<Rightarrow> u8) \<Rightarrow> u32 \<Rightarrow> kernel \<Rightarrow> u32 \<Rightarrow> u8" where
  "fs_view fr base s a =
     (case translate s (base + a) of
        None \<Rightarrow> fr a
      | Some (frame, _) \<Rightarrow> phys_byte (frame + ((base + a) AND 0xfff)) s)"

definition change_ldt :: "exec_env \<Rightarrow> u32 \<Rightarrow> (nat \<Rightarrow> u32) \<Rightarrow> kernel \<Rightarrow> u32 \<times> kernel" where
  "change_ldt X text_size page s =
     (let code_limit = (text_size + 4096 - 1) AND 0xFFFFF000;
          data_limit = 0x4000000;
          code_base = get_base (t_ldt (cur s) 1);
          data_base = code_base;
          s = upd_cur (\<lambda>t. t\<lparr>t_ldt := (t_ldt t)(1 := set_limit code_limit (set_base code_base (t_ldt t 1)),
                2 := set_limit data_limit (set_base data_base (t_ldt t 2)))\<rparr>) s;
          s = fold (\<lambda>i s. if page i \<noteq> 0
                          then snd (put_page (page i) (data_base + data_limit - 4096 * of_nat (MAX_ARG_PAGES - i)) s)
                          else s) (rev [0..<MAX_ARG_PAGES]) s in
      (data_limit, s\<lparr>umem := fs_view (fresh X) data_base s\<rparr>))"

subsection \<open>Scripts\<close>

text \<open>The first line of a script: the interpreter's path, its last component, and the rest of the line
  as its argument; \<open>None\<close> when there is no line end or no name.\<close>

definition blank :: "u8 \<Rightarrow> bool" where
  "blank c \<longleftrightarrow> c = 32 \<or> c = 9"

definition script_line :: "(nat \<Rightarrow> u8) \<Rightarrow> u8 list" where
  "script_line d = takeWhile (\<lambda>c. c \<noteq> 0) (map (\<lambda>k. d (2 + k)) [0..<1022])"

definition parse_script :: "(nat \<Rightarrow> u8) \<Rightarrow> (u8 list \<times> u8 list \<times> u8 list option) option" where
  "parse_script d =
     (let buf = script_line d in
      if 10 \<notin> set buf then None
      else
        let cp = dropWhile blank (takeWhile (\<lambda>c. c \<noteq> 10) buf) in
        if cp = [] then None
        else
          let interp = takeWhile (\<lambda>c. \<not> blank c) cp;
              i_name = rev (takeWhile (\<lambda>c. c \<noteq> 47) (rev interp));
              rest = dropWhile (\<lambda>c. \<not> blank c) cp;
              i_arg = (if rest = [] then None else Some (tl rest)) in
          Some (interp, i_name, i_arg))"

text \<open>\<^verbatim>\<open>set_fs(get_ds())\<close> around a call: the \<^verbatim>\<open>fs\<close> segment shows the kernel's memory, of which the
  string \<open>str\<close> at \<open>base\<close> is read.\<close>

definition with_kernel_fs :: "u32 \<Rightarrow> u8 list \<Rightarrow> (kernel \<Rightarrow> 'a kres) \<Rightarrow> kernel \<Rightarrow> 'a kres" where
  "with_kernel_fs base str f s =
     kbind (f (s\<lparr>umem := (\<lambda>a. kernel_byte base str a s)\<rparr>)) (\<lambda>r t. Ret r (t\<lparr>umem := umem s\<rparr>))"

subsection \<open>do_execve\<close>

text \<open>The exits \<^verbatim>\<open>exec_error1\<close> and \<^verbatim>\<open>exec_error2\<close>. A result is the return value and, when the
  program was replaced, the new instruction and stack pointers (\<^verbatim>\<open>eip[0]\<close> and \<^verbatim>\<open>eip[3]\<close>).\<close>

type_synonym exec_result = "int \<times> (u32 \<times> u32) option"

definition exec_error1 :: "(nat \<Rightarrow> u32) \<Rightarrow> int \<Rightarrow> kernel \<Rightarrow> exec_result kres" where
  "exec_error1 page retval s =
     kbind (kfor (\<lambda>i _ s. free_page (page i) s) [0..<MAX_ARG_PAGES] () s) (\<lambda>_ s. Ret (retval, None) s)"

definition exec_error2 :: "env \<Rightarrow> nat \<Rightarrow> (nat \<Rightarrow> u32) \<Rightarrow> int \<Rightarrow> kernel \<Rightarrow> exec_result kres" where
  "exec_error2 E inode page retval s = kbind (iput E (Some inode) s) (\<lambda>_ s. exec_error1 page retval s)"

definition exec_permitted :: "m_inode \<Rightarrow> kernel \<Rightarrow> bool" where
  "exec_permitted n s \<longleftrightarrow>
     (let i = (if t_euid (cur s) = i_uid n then drop_bit 6 (i_mode n)
               else if t_egid (cur s) = ucast (i_gid n) then drop_bit 3 (i_mode n) else i_mode n) in
      i AND 1 \<noteq> 0 \<or> i_mode n AND 0x49 \<noteq> 0 \<and> suser s)"

text \<open>From \<^verbatim>\<open>restart_interp\<close> to the reading of the first block; \<open>K\<close> is what follows, with the block and
  the effective user and group of the program.\<close>

definition exec_open :: "env \<Rightarrow> nat \<Rightarrow> (nat \<Rightarrow> u32) \<Rightarrow> (nat \<Rightarrow> u16 \<Rightarrow> u16 \<Rightarrow> kernel \<Rightarrow> exec_result kres) \<Rightarrow>
    kernel \<Rightarrow> exec_result kres" where
  "exec_open E inode page K s =
     (let n = inode_table s inode in
      if \<not> S_ISREG (i_mode n) then exec_error2 E inode page (- EACCES) s
      else
        let e_uid = (if i_mode n AND 0x800 \<noteq> 0 then i_uid n else t_euid (cur s));
            e_gid = (if i_mode n AND 0x400 \<noteq> 0 then ucast (i_gid n) else t_egid (cur s)) in
        if \<not> exec_permitted n s then exec_error2 E inode page (- ENOEXEC) s
        else kbind (bread E (i_dev n) (ucast (i_zone n 0)) s) (\<lambda>b s.
          case b of
            None \<Rightarrow> exec_error2 E inode page (- EACCES) s
          | Some bh \<Rightarrow> K bh e_uid e_gid s))"

definition bad_header :: "exec \<Rightarrow> m_inode \<Rightarrow> bool" where
  "bad_header ex n \<longleftrightarrow> a_magic ex \<noteq> ZMAGIC \<or> a_trsize ex \<noteq> 0 \<or> a_drsize ex \<noteq> 0 \<or>
     a_text ex + a_data ex + a_bss ex > 0x3000000 \<or>
     i_size n < a_text ex + a_data ex + a_syms ex + N_TXTOFF ex"

text \<open>The point of no return and what follows.\<close>

definition exec_commit :: "env \<Rightarrow> exec_env \<Rightarrow> nat \<Rightarrow> exec \<Rightarrow> u16 \<Rightarrow> u16 \<Rightarrow> int \<Rightarrow> int \<Rightarrow> u32 \<Rightarrow> (nat \<Rightarrow> u32) \<Rightarrow>
    kernel \<Rightarrow> exec_result kres" where
  "exec_commit E X inode ex e_uid e_gid argc envc p page s =
     kbind (case t_executable (cur s) of None \<Rightarrow> Ret () s | Some i \<Rightarrow> iput E (Some i) s) (\<lambda>_ s.
     let s = upd_cur (\<lambda>t. t\<lparr>t_executable := Some inode,
               t_sigaction := (\<lambda>i. if i < 32 then (t_sigaction t i)\<lparr>sa_handler := 0\<rparr> else t_sigaction t i)\<rparr>) s in
     kbind (kfor (\<lambda>i _ s. if bit (t_close_on_exec (cur s)) i then kbind (sys_close E (of_nat i) s) (\<lambda>_ s. Ret () s)
                          else Ret () s) [0..<NR_OPEN] () s) (\<lambda>_ s.
     let s = upd_cur (\<lambda>t. t\<lparr>t_close_on_exec := 0\<rparr>) s in
     kbind (free_page_tables (get_base (t_ldt (cur s) 1)) (cur_limit 0x0f s) s) (\<lambda>_ s.
     kbind (free_page_tables (get_base (t_ldt (cur s) 2)) (cur_limit 0x17 s) s) (\<lambda>_ s.
     let s = (if last_task_used_math s = current s then s\<lparr>last_task_used_math := 0\<rparr> else s);
         s = upd_cur (\<lambda>t. t\<lparr>t_used_math := 0\<rparr>) s;
         (data_limit, s) = change_ldt X (a_text ex) page s;
         p = p + (data_limit - of_nat MAX_ARG_PAGES * 4096) in
     kbind (create_tables E p argc envc s) (\<lambda>p s.
     let s = upd_cur (\<lambda>t. t\<lparr>t_end_code := a_text ex, t_end_data := a_data ex + a_text ex,
               t_brk := a_bss ex + (a_data ex + a_text ex), t_start_stack := p AND 0xfffff000,
               t_euid := e_uid, t_egid := e_gid\<rparr>) s;
         i = a_text ex + a_data ex;
         s = put_fs_bytes (\<lambda>_. 0) ((4096 - unat i mod 4096) mod 4096) i s in
     Ret (0, Some (a_entry ex, p)) s)))))"

definition exec_binary :: "env \<Rightarrow> exec_env \<Rightarrow> nat \<Rightarrow> bool \<Rightarrow> u32 \<Rightarrow> u32 \<Rightarrow> int \<Rightarrow> int \<Rightarrow> u32 \<Rightarrow> (nat \<Rightarrow> u32) \<Rightarrow>
    nat \<Rightarrow> u16 \<Rightarrow> u16 \<Rightarrow> kernel \<Rightarrow> exec_result kres" where
  "exec_binary E X inode sh_bang argv envp argc envc p page bh e_uid e_gid s =
     (let ex = get_exec (b_data (bufs s bh)) in
      kbind (brelse E (Some bh) s) (\<lambda>_ s.
        if bad_header ex (inode_table s inode) \<or> N_TXTOFF ex \<noteq> 1024
        then exec_error2 E inode page (- ENOEXEC) s
        else if sh_bang then exec_commit E X inode ex e_uid e_gid argc envc p page s
        else
          kbind (copy_strings E envc (user_argv envp) get_fs_byte page p s) (\<lambda>(p, page) s.
          kbind (copy_strings E argc (user_argv argv) get_fs_byte page p s) (\<lambda>(p, page) s.
            if p = 0 then exec_error2 E inode page (- ENOMEM) s
            else exec_commit E X inode ex e_uid e_gid argc envc p page s))))"

text \<open>The section for \<^verbatim>\<open>#!\<close>, up to \<^verbatim>\<open>goto restart_interp\<close>.\<close>

definition exec_script :: "env \<Rightarrow> exec_env \<Rightarrow> u32 \<Rightarrow> nat \<Rightarrow> u32 \<Rightarrow> u32 \<Rightarrow> int \<Rightarrow> int \<Rightarrow> u32 \<Rightarrow> (nat \<Rightarrow> u32) \<Rightarrow>
    nat \<Rightarrow> kernel \<Rightarrow> exec_result kres" where
  "exec_script E X filename inode argv envp argc envc p page bh s =
     (let parsed = parse_script (b_data (bufs s bh)) in
      kbind (brelse E (Some bh) s) (\<lambda>_ s.
      kbind (iput E (Some inode) s) (\<lambda>_ s.
        case parsed of
          None \<Rightarrow> exec_error1 page (- ENOEXEC) s
        | Some (interp, i_name, i_arg) \<Rightarrow>
            kbind (copy_strings E envc (user_argv envp) get_fs_byte page p s) (\<lambda>(p, page) s.
            kbind (copy_strings E (argc - 1) (user_argv (argv + 4)) get_fs_byte page p s) (\<lambda>(p, page) s.
            kbind (copy_strings E 1 (kernel_argv filename) get_fs_byte page p s) (\<lambda>(p, page) s.
            kbind (case i_arg of
                     None \<Rightarrow> Ret (p, page) s
                   | Some a \<Rightarrow> copy_strings E 1 (kernel_argv (kbuf X)) (kernel_byte (kbuf X) a) page p s) (\<lambda>(p, page) s.
            kbind (copy_strings E 1 (kernel_argv (kbuf X)) (kernel_byte (kbuf X) i_name) page p s) (\<lambda>(p, page) s.
              let argc = argc - 1 + 1 + (if i_arg = None then 0 else 1) + 1 in
              if p = 0 then exec_error1 page (- ENOMEM) s
              else kbind (with_kernel_fs (kbuf X) interp (namei E (kbuf X)) s) (\<lambda>r s.
                case r of
                  None \<Rightarrow> exec_error1 page (- ENOENT) s
                | Some inode \<Rightarrow> exec_open E inode page (exec_binary E X inode True argv envp argc envc p page) s)))))))))"

definition do_execve :: "env \<Rightarrow> exec_env \<Rightarrow> u32 \<Rightarrow> u32 \<Rightarrow> u32 \<Rightarrow> u32 \<Rightarrow> kernel \<Rightarrow> exec_result kres" where
  "do_execve E X cs filename argv envp s =
     (let p = 4096 * of_nat MAX_ARG_PAGES - 4; page = (\<lambda>_. 0) in
      if 0xffff AND cs \<noteq> 0x000f then Panic ''execve called from supervisor mode'' s
      else kbind (namei E filename s) (\<lambda>r s.
        case r of
          None \<Rightarrow> Ret (- ENOENT, None) s
        | Some inode \<Rightarrow>
            kbind (count E argv s) (\<lambda>argc s.
            kbind (count E envp s) (\<lambda>envc s.
              exec_open E inode page (\<lambda>bh e_uid e_gid s.
                if b_data (bufs s bh) 0 = 35 \<and> b_data (bufs s bh) 1 = 33
                then exec_script E X filename inode argv envp argc envc p page bh s
                else exec_binary E X inode False argv envp argc envc p page bh e_uid e_gid s) s))))"

subsection \<open>The tables lead to the strings\<close>

definition cat :: "u8 list list \<Rightarrow> u8 list" where
  "cat xs = concat (map (\<lambda>x. x @ [0]) xs)"

definition bytes_at :: "u32 \<Rightarrow> u8 list \<Rightarrow> kernel \<Rightarrow> bool" where
  "bytes_at p bs s \<longleftrightarrow> (\<forall>k < length bs. get_fs_byte (p + of_nat k) s = bs ! k)"

definition strings :: "u8 list list \<Rightarrow> bool" where
  "strings xs \<longleftrightarrow> (\<forall>x \<in> set xs. 0 \<notin> set x)"

definition string_addr :: "u32 \<Rightarrow> u8 list list \<Rightarrow> nat \<Rightarrow> u32" where
  "string_addr p xs i = p + of_nat (length (cat (take i xs)))"

lemma cat_simps [simp]: "cat [] = []" "cat (x # xs) = x @ 0 # cat xs" "cat (xs @ ys) = cat xs @ cat ys"
  by (simp_all add: cat_def)

lemma strings_simps [simp]:
  "strings []" "strings (x # xs) \<longleftrightarrow> 0 \<notin> set x \<and> strings xs" "strings (xs @ ys) \<longleftrightarrow> strings xs \<and> strings ys"
  by (auto simp: strings_def)

lemma all_less_add: "(\<forall>k < a + b. P k) \<longleftrightarrow> (\<forall>k < a. P k) \<and> (\<forall>k < b. P (a + k :: nat))"
proof (intro iffI conjI allI impI)
  fix k
  assume h: "(\<forall>k < a. P k) \<and> (\<forall>k < b. P (a + k))" and k: "k < a + b"
  show "P k" using h k by (cases "k < a") (auto dest: spec [of _ "k - a"])
qed simp_all

lemma bytes_at_append:
  "bytes_at p (bs @ cs) s \<longleftrightarrow> bytes_at p bs s \<and> bytes_at (p + of_nat (length bs)) cs s"
  by (simp add: bytes_at_def all_less_add nth_append add.assoc)

lemma bytes_at_cong:
  "(\<And>k. k < length bs \<Longrightarrow> umem t (p + of_nat k) = umem s (p + of_nat k)) \<Longrightarrow> bytes_at p bs t = bytes_at p bs s"
  by (simp add: bytes_at_def get_fs_byte_def)

lemma skip_string_end:
  assumes "bytes_at p (x @ [0]) s" "0 \<notin> set x" "length x < fuel E"
  shows "skip_string E p s = Ret (p + of_nat (length x + 1)) s"
  using assms unfolding skip_string_def
proof (induction x arbitrary: p E)
  case Nil
  then show ?case by (simp add: bytes_at_def kwhile_unfold)
next
  case (Cons c x)
  have c: "get_fs_byte p s = c" "c \<noteq> 0" using Cons.prems(1,2) by (force simp: bytes_at_def)+
  have "bytes_at (p + 1) (x @ [0]) s" using Cons.prems(1) bytes_at_append [of p "[c]" "x @ [0]" s] by simp
  from Cons.IH [of "p + 1" "E\<lparr>fuel := fuel E - 1\<rparr>", OF this] Cons.prems(2,3) c show ?case
    by (simp add: kwhile_unfold algebra_simps)
qed

lemma put_strings_spec:
  assumes "bytes_at q (cat xs) s" "strings xs" "q = base + of_nat d" "4 * (m + length xs + 1) \<le> d"
    "d + length (cat xs) \<le> 2 ^ 32" "\<forall>x \<in> set xs. length x < fuel E"
  shows "\<exists>t. put_strings E (length xs) q (base + 4 * of_nat m) s = Ret (q + of_nat (length (cat xs))) t \<and>
    (\<forall>k. 4 * k + 3 < 2 ^ 32 \<longrightarrow> get_fs_long (base + 4 * of_nat k) t =
      (if m \<le> k \<and> k < m + length xs then string_addr q xs (k - m)
       else if k = m + length xs then 0 else get_fs_long (base + 4 * of_nat k) s)) \<and>
    (\<forall>x. 4 * (m + length xs + 1) \<le> x \<and> x < 2 ^ 32 \<longrightarrow> umem t (base + of_nat x) = umem s (base + of_nat x))"
  using assms
proof (induction xs arbitrary: q d m s)
  case Nil
  then show ?case by (auto simp: get_fs_long_put umem_put_fs_long)
next
  case (Cons y ys)
  let ?s = "put_fs_long q (base + 4 * of_nat m) s"
  have fr: "umem ?s (base + of_nat x) = umem s (base + of_nat x)" if "4 * (m + 1) \<le> x" "x < 2 ^ 32" for x
    using that by (simp add: umem_put_fs_long)
  have q: "bytes_at q (cat (y # ys)) ?s"
    using Cons.prems(1,5) fr unfolding Cons.prems(3)
    using Cons.prems(4) by (subst bytes_at_cong) (auto simp: add.assoc of_nat_add [symmetric] simp del: of_nat_add)
  have y: "bytes_at q (y @ [0]) ?s" "bytes_at (q + of_nat (length y + 1)) (cat ys) ?s"
    using q bytes_at_append [of q "y @ [0]" "cat ys" ?s] by simp_all
  have sk: "skip_string E q ?s = Ret (q + of_nat (length y + 1)) ?s"
    by (rule skip_string_end) (use y(1) Cons.prems(2,6) in auto)
  from Cons.IH [OF y(2), of "d + length y + 1" "m + 1"] Cons.prems obtain t where
    t: "put_strings E (length ys) (q + of_nat (length y + 1)) (base + 4 * of_nat (m + 1)) ?s =
        Ret (q + of_nat (length y + 1) + of_nat (length (cat ys))) t"
      "\<And>k. 4 * k + 3 < 2 ^ 32 \<Longrightarrow> get_fs_long (base + 4 * of_nat k) t =
        (if m + 1 \<le> k \<and> k < m + 1 + length ys then string_addr (q + of_nat (length y + 1)) ys (k - (m + 1))
         else if k = m + 1 + length ys then 0 else get_fs_long (base + 4 * of_nat k) ?s)"
      "\<And>x. 4 * (m + 1 + length ys + 1) \<le> x \<Longrightarrow> x < 2 ^ 32 \<Longrightarrow> umem t (base + of_nat x) = umem ?s (base + of_nat x)"
    by (auto simp: add.assoc)
  have "4 * m + 3 < 2 ^ 32" using Cons.prems(4,5) by simp
  then have "get_fs_long (base + 4 * of_nat k) t =
      (if m \<le> k \<and> k < m + length (y # ys) then string_addr q (y # ys) (k - m)
       else if k = m + length (y # ys) then 0 else get_fs_long (base + 4 * of_nat k) s)" if "4 * k + 3 < 2 ^ 32" for k
    using that by (cases "k = m") (auto simp: t(2) get_fs_long_put string_addr_def take_Cons' Suc_diff_Suc add.assoc)
  moreover have "umem t (base + of_nat x) = umem s (base + of_nat x)"
    if "4 * (m + length (y # ys) + 1) \<le> x" "x < 2 ^ 32" for x
    using that by (simp add: t(3) fr)
  moreover have "put_strings E (length (y # ys)) q (base + 4 * of_nat m) s = Ret (q + of_nat (length (cat (y # ys)))) t"
  proof -
    have e: "base + 4 * of_nat m + 4 = base + 4 * of_nat (m + 1)" by (simp add: algebra_simps)
    have "put_strings E (length (y # ys)) q (base + 4 * of_nat m) s =
        put_strings E (length ys) (q + of_nat (length y + 1)) (base + 4 * of_nat m + 4) ?s"
      using sk by (simp only: length_Cons put_strings.simps kbind.simps)
    also have "\<dots> = Ret (q + of_nat (length y + 1) + of_nat (length (cat ys))) t" by (simp only: e t(1))
    also have "q + of_nat (length y + 1) + of_nat (length (cat ys)) = q + of_nat (length (cat (y # ys)))" by simp
    finally show ?thesis .
  qed
  ultimately show ?case by blast
qed

lemma stack_pointer: "(0xfffffffc AND p) + (p AND 3) = (p :: u32)"
proof -
  have "(p AND NOT 3) AND (p AND 3) = 0" "(p AND NOT 3) OR (p AND 3) = p"
    by (rule bit_word_eqI, auto simp: bit_simps)+
  then have "(p AND NOT 3) + (p AND 3) = p" using word_plus_and_or [of "p AND NOT 3" "p AND 3"] by simp
  moreover have "0xfffffffc = (NOT 3 :: u32)" by simp
  ultimately show ?thesis by (simp only: and.commute)
qed

text \<open>The words that \<^verbatim>\<open>create_tables\<close> leaves from the new stack pointer on; \<open>p\<close> and \<open>q\<close> are the addresses of the arguments and
  of the environment strings.\<close>

definition table_word :: "u32 \<Rightarrow> u32 \<Rightarrow> u32 \<Rightarrow> u8 list list \<Rightarrow> u8 list list \<Rightarrow> nat \<Rightarrow> u32" where
  "table_word sp p q args envs k =
     (if k = 0 then of_nat (length args) else if k = 1 then sp + 4 * of_nat 3 else if k = 2 then sp + 4 * of_nat (length args + 4)
      else if k < 3 + length args then string_addr p args (k - 3) else if k = 3 + length args then 0
      else if k < length args + 4 + length envs then string_addr q envs (k - (length args + 4)) else 0)"

lemma create_tables_words:
  assumes b: "bytes_at p (cat (args @ envs)) s" and st: "strings (args @ envs)" and f: "\<forall>x \<in> set (args @ envs). length x < fuel E"
    and sp: "sp = (0xfffffffc AND p) - 4 * of_nat (length args + length envs + 5)" and p: "p = sp + of_nat d"
    and l: "d + length (cat (args @ envs)) \<le> 2 ^ 32" "4 * (length args + length envs + 5) \<le> d"
  shows "\<exists>t. create_tables E p (int (length args)) (int (length envs)) s = Ret sp t \<and> bytes_at p (cat (args @ envs)) t \<and>
    (\<forall>k \<le> length args + 4 + length envs. get_fs_long (sp + 4 * of_nat k) t =
       table_word sp p (p + of_nat (length (cat args))) args envs k)"
proof -
  let ?a = "length args" and ?e = "length envs"
  have envp: "(0xfffffffc AND p) - 4 * word_of_int (int ?e + 1) = sp + 4 * of_nat (?a + 4)"
    and argv: "sp + 4 * of_nat (?a + 4) - 4 * word_of_int (int ?a + 1) = sp + 4 * of_nat 3"
    by (simp_all add: sp algebra_simps)
  define s3 where "s3 = put_fs_long (of_nat ?a) (sp + 4 * of_nat 0)
    (put_fs_long (sp + 4 * of_nat 3) (sp + 4 * of_nat 1) (put_fs_long (sp + 4 * of_nat (?a + 4)) (sp + 4 * of_nat 2) s))"
  have fr3: "umem s3 (sp + of_nat x) = umem s (sp + of_nat x)" if "12 \<le> x" "x < 2 ^ 32" for x
    unfolding s3_def using that by (subst umem_put_fs_long, simp, simp)+ simp
  have strs: "bytes_at p (cat (args @ envs)) t = bytes_at p (cat (args @ envs)) s"
    if "\<And>x. d \<le> x \<Longrightarrow> x < 2 ^ 32 \<Longrightarrow> umem t (sp + of_nat x) = umem s (sp + of_nat x)" for t
    unfolding p using that l(1)
    by (intro bytes_at_cong) (simp add: add.assoc of_nat_add [symmetric] del: of_nat_add)
  have d: "12 \<le> d" "4 * (3 + ?a + 1) \<le> d" "4 * (?a + 4 + ?e + 1) \<le> d" using l(2) by simp_all
  have a3: "bytes_at p (cat (args @ envs)) s3" using b by (subst strs) (use fr3 d(1) in auto)
  from put_strings_spec [of p args s3 sp d 3 E] a3 st p d l(1) f obtain t1 where
    t1: "put_strings E ?a p (sp + 4 * of_nat 3) s3 = Ret (p + of_nat (length (cat args))) t1"
      "\<And>k. 4 * k + 3 < 2 ^ 32 \<Longrightarrow> get_fs_long (sp + 4 * of_nat k) t1 =
        (if 3 \<le> k \<and> k < 3 + ?a then string_addr p args (k - 3)
         else if k = 3 + ?a then 0 else get_fs_long (sp + 4 * of_nat k) s3)"
      "\<And>x. 4 * (3 + ?a + 1) \<le> x \<Longrightarrow> x < 2 ^ 32 \<Longrightarrow> umem t1 (sp + of_nat x) = umem s3 (sp + of_nat x)"
    by (auto simp: bytes_at_append)
  define q where "q = p + of_nat (length (cat args))"
  have "bytes_at p (cat (args @ envs)) t1" using b by (subst strs) (use fr3 t1(3) d in auto)
  then have a4: "bytes_at q (cat envs) t1" by (simp add: bytes_at_append q_def)
  have q: "q = sp + of_nat (d + length (cat args))" by (simp add: q_def p)
  from put_strings_spec [OF a4 _ q, of "?a + 4" E] st d l(1) f obtain t where
    t: "put_strings E ?e q (sp + 4 * of_nat (?a + 4)) t1 = Ret (q + of_nat (length (cat envs))) t"
      "\<And>k. 4 * k + 3 < 2 ^ 32 \<Longrightarrow> get_fs_long (sp + 4 * of_nat k) t =
        (if ?a + 4 \<le> k \<and> k < ?a + 4 + ?e then string_addr q envs (k - (?a + 4))
         else if k = ?a + 4 + ?e then 0 else get_fs_long (sp + 4 * of_nat k) t1)"
      "\<And>x. 4 * (?a + 4 + ?e + 1) \<le> x \<Longrightarrow> x < 2 ^ 32 \<Longrightarrow> umem t (sp + of_nat x) = umem t1 (sp + of_nat x)"
    by auto
  have res: "create_tables E p (int ?a) (int ?e) s = Ret sp t"
  proof -
    have "sp + 4 * of_nat 3 - 4 = sp + 4 * of_nat 2" "sp + 4 * of_nat 3 - 8 = sp + 4 * of_nat 1"
        "sp + 4 * of_nat 3 - 12 = sp" "(word_of_int (int ?a) :: u32) = of_nat ?a"
      by simp_all
    moreover have "put_fs_long (of_nat ?a) sp (put_fs_long (sp + 4 * of_nat 3) (sp + 4 * of_nat 1)
        (put_fs_long (sp + 4 * of_nat (?a + 4)) (sp + 4 * of_nat 2) s)) = s3"
      by (simp add: s3_def)
    ultimately show ?thesis
      unfolding create_tables_def Let_def envp argv using t1(1) t(1)
      by (simp only: nat_int kbind.simps q_def)
  qed
  have kept: "bytes_at p (cat (args @ envs)) t" using b by (subst strs) (use fr3 t1(3) t(3) d in auto)
  have "get_fs_long (sp + 4 * of_nat k) t = table_word sp p q args envs k" if "k \<le> ?a + 4 + ?e" for k
  proof -
    have k: "4 * k + 3 < (2 :: nat) ^ 32" using that l d by simp
    have "get_fs_long (sp + 4 * of_nat k) s3 = (if k = 0 then of_nat ?a else if k = 1 then sp + 4 * of_nat 3
        else if k = 2 then sp + 4 * of_nat (?a + 4) else get_fs_long (sp + 4 * of_nat k) s)"
      unfolding s3_def using k by (subst get_fs_long_put, simp, simp)+ (rule refl)
    then show ?thesis using t(2) [OF k] t1(2) [OF k] that by (auto simp: table_word_def)
  qed
  then show ?thesis using res kept unfolding q_def by blast
qed

text \<open>C25: After an exec the stack of the new program is what it expects: the word at the stack pointer is the
  number of arguments, the next two are the addresses of the tables \<^verbatim>\<open>argv\<close> and \<^verbatim>\<open>envp\<close>; entry
  \<open>i\<close> of a table is the address of string \<open>i\<close>, the last entry is 0, and the strings are still in place.\<close>

theorem create_tables_stack:
  assumes b: "bytes_at p (cat (args @ envs)) s" and st: "strings (args @ envs)"
    and room: "4 * (length args + length envs + 6) + length (cat (args @ envs)) \<le> 2 ^ 32"
    and f: "\<forall>x \<in> set (args @ envs). length x < fuel E"
  defines "sp \<equiv> (0xfffffffc AND p) - 4 * of_nat (length args + length envs + 5)"
  shows "\<exists>t argv envp. create_tables E p (int (length args)) (int (length envs)) s = Ret sp t \<and>
    get_fs_long sp t = of_nat (length args) \<and> get_fs_long (sp + 4) t = argv \<and> get_fs_long (sp + 8) t = envp \<and>
    (\<forall>i \<le> length args. get_fs_long (argv + 4 * of_nat i) t =
      (if i < length args then string_addr p (args @ envs) i else 0)) \<and>
    (\<forall>i \<le> length envs. get_fs_long (envp + 4 * of_nat i) t =
      (if i < length envs then string_addr p (args @ envs) (length args + i) else 0)) \<and>
    bytes_at p (cat (args @ envs)) t"
proof -
  let ?a = "length args" and ?e = "length envs"
  define d where "d = 4 * (?a + ?e + 5) + unat (p AND 3)"
  have p: "p = sp + of_nat d" using stack_pointer [of p] by (simp add: sp_def d_def algebra_simps)
  have l: "d + length (cat (args @ envs)) \<le> 2 ^ 32" "4 * (?a + ?e + 5) \<le> d" using room low_bits [of p] by (simp_all add: d_def)
  define q where "q = p + of_nat (length (cat args))"
  obtain t where t: "create_tables E p (int ?a) (int ?e) s = Ret sp t" "bytes_at p (cat (args @ envs)) t"
      "\<And>k. k \<le> ?a + 4 + ?e \<Longrightarrow> get_fs_long (sp + 4 * of_nat k) t = table_word sp p q args envs k"
    using create_tables_words [OF b st f sp_def [THEN meta_eq_to_obj_eq] p l] unfolding q_def by blast
  have av: "get_fs_long (sp + 4 * of_nat 3 + 4 * of_nat i) t =
      (if i < ?a then string_addr p (args @ envs) i else 0)" if "i \<le> ?a" for i
  proof -
    have e: "sp + 4 * of_nat 3 + 4 * of_nat i = sp + 4 * of_nat (3 + i)" by simp
    show ?thesis unfolding e using t(3) [of "3 + i"] that by (cases "i < ?a") (simp_all add: table_word_def string_addr_def)
  qed
  have ev: "get_fs_long (sp + 4 * of_nat (?a + 4) + 4 * of_nat i) t =
      (if i < ?e then string_addr p (args @ envs) (?a + i) else 0)" if "i \<le> ?e" for i
  proof -
    have e: "sp + 4 * of_nat (?a + 4) + 4 * of_nat i = sp + 4 * of_nat (?a + 4 + i)" by (simp add: algebra_simps)
    show ?thesis unfolding e using t(3) [of "?a + 4 + i"] that by (cases "i < ?e") (simp_all add: table_word_def string_addr_def q_def)
  qed
  have heads: "get_fs_long sp t = of_nat ?a" "get_fs_long (sp + 4) t = sp + 4 * of_nat 3"
      "get_fs_long (sp + 8) t = sp + 4 * of_nat (?a + 4)"
    using t(3) [of 0] t(3) [of 1] t(3) [of 2] by (simp_all add: table_word_def)
  show ?thesis by (intro exI conjI, rule t(1), rule heads(1), rule heads(2), rule heads(3)) (use av ev t(2) in blast)+
qed

subsection \<open>The strings arrive in the pages\<close>

text \<open>The bytes of the argument area, which the pages hold in pieces; \<open>pages_ok\<close>: the pages are frames in
  use, no two of them the same.\<close>

definition area :: "(nat \<Rightarrow> u32) \<Rightarrow> kernel \<Rightarrow> nat \<Rightarrow> u8" where
  "area page s a = phys_byte (page (a div 4096) + of_nat (a mod 4096)) s"

definition pages_ok :: "(nat \<Rightarrow> u32) \<Rightarrow> kernel \<Rightarrow> bool" where
  "pages_ok page s \<longleftrightarrow>
     (\<forall>i. page i \<noteq> 0 \<longrightarrow> is_frame (page i) \<and> mem_map s (MAP_NR (page i)) \<noteq> 0) \<and>
     (\<forall>i j. page i = page j \<and> page i \<noteq> 0 \<longrightarrow> i = j)"

definition no_memory :: "kernel \<Rightarrow> bool" where
  "no_memory s \<longleftrightarrow> (\<forall>i < PAGING_PAGES. mem_map s i \<noteq> 0)"

lemma frame_addr_inj:
  assumes "is_frame p" "is_frame q" "a < 4096" "b < 4096"
  shows "p + of_nat a = q + of_nat b \<longleftrightarrow> p = q \<and> a = b"
proof
  have w: "(of_nat a :: u32) < 0x1000" "(of_nat b :: u32) < 0x1000"
    using assms(3,4) by (simp_all add: word_less_nat_alt unat_of_nat32)
  have m: "p AND PAGE_MASK = p" "q AND PAGE_MASK = q" using assms(1,2) by (simp_all add: is_frame_def)
  assume "p + of_nat a = q + of_nat b"
  then have "p = q" by (metis frame_offset(1) m w)
  moreover from \<open>p + of_nat a = q + of_nat b\<close> this have "(of_nat a :: u32) = of_nat b" by simp
  then have "a = b" using assms(3,4) of_nat32_inj [of a b] by simp
  ultimately show "p = q \<and> a = b" by simp
qed simp

lemma phys_byte_clear_page:
  assumes "p AND PAGE_MASK = p" "a < 4096" "p \<noteq> g"
  shows "phys_byte (p + of_nat a) (clear_page g s) = phys_byte (p + of_nat a) s"
proof -
  have "(of_nat a :: u32) < 0x1000" using assms(2) by (simp add: word_less_nat_alt unat_of_nat32)
  then have "(p + of_nat a) AND PAGE_MASK = p" by (rule frame_offset(1) [OF assms(1)])
  moreover have "((p + of_nat a) AND NOT 3) AND PAGE_MASK = (p + of_nat a) AND PAGE_MASK"
    by (simp add: and.assoc)
  ultimately have "((p + of_nat a) AND NOT 3) AND PAGE_MASK \<noteq> g" using assms(3) by simp
  then show ?thesis by (simp only: phys_byte_def phys_clear_page if_False)
qed

lemma get_free_page_area:
  assumes ok: "pages_ok page s" and g: "get_free_page s = (g, t)" "g \<noteq> 0" and i: "page i = 0"
  shows "pages_ok (page(i := g)) t" "umem t = umem s" "page j \<noteq> 0 \<Longrightarrow> j \<noteq> i"
    "page (a div 4096) \<noteq> 0 \<Longrightarrow> area (page(i := g)) t a = area page s a"
proof -
  obtain n where n: "n < PAGING_PAGES" "g = page_of_nr n" "mem_map s n = 0" "t = clear_page g (set_map n 1 s)"
    using get_free_page_Some [OF g] by blast
  have gf: "is_frame g" "MAP_NR g = n" using n(1,2) by simp_all
  have new: "page j \<noteq> g" if "page j \<noteq> 0" for j using ok that n(3) gf by (auto simp: pages_ok_def)
  have mm: "mem_map t = (mem_map s)(n := 1)" by (simp add: n(4) set_map_def)
  show "pages_ok (page(i := g)) t"
    using ok new gf g(2) unfolding pages_ok_def mm by auto
  show "umem t = umem s" by (simp add: n(4) clear_page_def set_map_def)
  show "page j \<noteq> 0 \<Longrightarrow> j \<noteq> i" using i by auto
  assume pj: "page (a div 4096) \<noteq> 0"
  have "phys_byte x (set_map n 1 s) = phys_byte x s" for x by (simp add: phys_byte_def set_map_def)
  moreover have "page (a div 4096) AND PAGE_MASK = page (a div 4096)" using ok pj by (auto simp: pages_ok_def is_frame_def)
  ultimately show "area (page(i := g)) t a = area page s a"
    using pj i new [OF pj] by (auto simp: area_def n(4) phys_byte_clear_page)
qed

lemma pages_ok_set_phys_byte [simp]: "pages_ok page (set_phys_byte x v s) = pages_ok page s"
  by (simp add: pages_ok_def set_phys_byte_def)

lemma area_set:
  assumes "pages_ok page s" "page (b div 4096) \<noteq> 0" "page (a div 4096) \<noteq> 0"
  shows "area page (set_phys_byte (page (b div 4096) + of_nat (b mod 4096)) v s) a = (if a = b then v else area page s a)"
proof -
  have "page (a div 4096) + of_nat (a mod 4096) = page (b div 4096) + of_nat (b mod 4096) \<longleftrightarrow>
      page (a div 4096) = page (b div 4096) \<and> a mod 4096 = b mod 4096"
    using assms by (intro frame_addr_inj) (auto simp: pages_ok_def)
  also have "\<dots> \<longleftrightarrow> a div 4096 = b div 4096 \<and> a mod 4096 = b mod 4096" using assms by (auto simp: pages_ok_def)
  also have "\<dots> \<longleftrightarrow> a = b" by (metis div_mult_mod_eq)
  finally show ?thesis by (simp add: area_def phys_byte_set)
qed

text \<open>Between two bytes either the next one begins a new page, or \<^verbatim>\<open>pag\<close> is the page of \<^verbatim>\<open>p\<close> and
  \<^verbatim>\<open>offset\<close> its place there.\<close>

definition at_page :: "u32 \<times> int \<times> u32 \<Rightarrow> (nat \<Rightarrow> u32) \<Rightarrow> bool" where
  "at_page v page = (case v of (p, offset, pag) \<Rightarrow>
     offset = 0 \<or> offset = int (unat p mod 4096) \<and> pag = page (unat p div 4096) \<and> pag \<noteq> 0)"

definition extends :: "(nat \<Rightarrow> u32) \<Rightarrow> kernel \<Rightarrow> (nat \<Rightarrow> u32) \<Rightarrow> kernel \<Rightarrow> bool" where
  "extends page s page' t \<longleftrightarrow> umem t = umem s \<and> pages_ok page' t \<and> (\<forall>i. page i \<noteq> 0 \<longrightarrow> page' i = page i)"

lemma copy_byte_step:
  assumes ok: "pages_ok page s" and p: "0 < unat p" "unat p \<le> 131072" and at: "at_page (p, offset, pag) page"
  defines "P \<equiv> unat p - 1"
  shows "(\<exists>t. copy_bytes byte (Suc n) tmp (p, offset, pag) page s = Ret (None, page) t \<and> extends page s page t \<and> no_memory t) \<or>
    (\<exists>page1 s1. extends page s page1 s1 \<and> page1 (P div 4096) \<noteq> 0 \<and>
      (\<forall>a. page (a div 4096) \<noteq> 0 \<longrightarrow> area page1 s1 a = area page s a) \<and>
      copy_bytes byte (Suc n) tmp (p, offset, pag) page s =
        copy_bytes byte n (tmp - 1) (p - 1, int (P mod 4096), page1 (P div 4096)) page1
          (set_phys_byte (page1 (P div 4096) + of_nat (P mod 4096)) (byte (tmp - 1) s1) s1))"
proof -
  have "p \<noteq> 0" using p(1) by auto
  then have P1: "unat (p - 1) = P" unfolding P_def by (rule unat_minus_one)
  have P: "unat (p - 1) = P" "uint (p - 1) = int P" by (rule P1) (simp only: uint_nat P1)
  have m: "uint (p - 1) mod 4096 = int (P mod 4096)" by (simp add: P(2) zmod_int)
  have w: "(word_of_int (int (P mod 4096)) :: u32) = of_nat (P mod 4096)" by simp
  have i: "P div 4096 < MAX_ARG_PAGES" using p by (simp add: P_def less_mult_imp_div_less)
  show ?thesis
  proof (cases "offset = 0")
    case False
    with at have o: "offset = int (unat p mod 4096)" "pag = page (unat p div 4096)" "pag \<noteq> 0" by (auto simp: at_page_def)
    have "unat p = Suc P" using p(1) by (simp add: P_def)
    then have "unat p div 4096 = P div 4096" "offset - 1 = int (P mod 4096)"
      using False o(1) by (simp_all add: div_Suc mod_Suc split: if_splits)
    then show ?thesis using o ok by (intro disjI2 exI [of _ page] exI [of _ s]) (simp add: extends_def Let_def)
  next
    case True
    show ?thesis
    proof (cases "page (P div 4096) = 0")
      case False
      then have "copy_bytes byte (Suc n) tmp (p, offset, pag) page s =
        copy_bytes byte n (tmp - 1) (p - 1, int (P mod 4096), page (P div 4096)) page
          (set_phys_byte (page (P div 4096) + of_nat (P mod 4096)) (byte (tmp - 1) s) s)"
        using True i by (simp only: copy_bytes.simps Let_def m P(1) w) simp
      then show ?thesis using False ok by (intro disjI2 exI [of _ page] exI [of _ s]) (simp add: extends_def)
    next
      case new: True
      obtain g t where g: "get_free_page s = (g, t)" by fastforce
      show ?thesis
      proof (cases "g = 0")
        case True
        then have "no_memory s" "t = s"
          using g get_free_page_None [of s t] by (simp_all add: no_memory_def)
        then show ?thesis using \<open>offset = 0\<close> i P new g True ok
          by (intro disjI1 exI [of _ s]) (simp add: extends_def Let_def)
      next
        case nz: False
        note f = get_free_page_area [OF ok g nz new]
        have "copy_bytes byte (Suc n) tmp (p, offset, pag) page s =
          copy_bytes byte n (tmp - 1) (p - 1, int (P mod 4096), g) (page(P div 4096 := g))
            (set_phys_byte (g + of_nat (P mod 4096)) (byte (tmp - 1) t) t)"
          using \<open>offset = 0\<close> i new nz by (simp only: copy_bytes.simps Let_def m P(1) w g prod.case) simp
        then show ?thesis using f nz
          by (intro disjI2 exI [of _ "page(P div 4096 := g)"] exI [of _ t]) (simp add: extends_def)
      qed
    qed
  qed
qed

lemma extends_trans: "extends page s page1 s1 \<Longrightarrow> extends page1 s1 page2 s2 \<Longrightarrow> extends page s page2 s2"
  by (auto simp: extends_def)

text \<open>\<open>reads byte a bs s\<close>: the accessor finds \<open>bs\<close> at \<open>a\<close>, as long as user memory is that of \<open>s\<close>.\<close>

definition reads :: "(u32 \<Rightarrow> kernel \<Rightarrow> u8) \<Rightarrow> u32 \<Rightarrow> u8 list \<Rightarrow> kernel \<Rightarrow> bool" where
  "reads byte a bs s \<longleftrightarrow> (\<forall>t. umem t = umem s \<longrightarrow> (\<forall>k < length bs. byte (a + of_nat k) t = bs ! k))"

definition area_is :: "(nat \<Rightarrow> u32) \<Rightarrow> kernel \<Rightarrow> nat \<Rightarrow> u8 list \<Rightarrow> bool" where
  "area_is page s a bs \<longleftrightarrow> (\<forall>k < length bs. page ((a + k) div 4096) \<noteq> 0 \<and> area page s (a + k) = bs ! k)"

lemma area_is_append: "area_is page s a (bs @ cs) \<longleftrightarrow> area_is page s a bs \<and> area_is page s (a + length bs) cs"
  by (simp add: area_is_def all_less_add nth_append add.assoc)

definition keeps_from :: "nat \<Rightarrow> (nat \<Rightarrow> u32) \<Rightarrow> kernel \<Rightarrow> (nat \<Rightarrow> u32) \<Rightarrow> kernel \<Rightarrow> bool" where
  "keeps_from n page s page' t \<longleftrightarrow> (\<forall>a \<ge> n. page (a div 4096) \<noteq> 0 \<longrightarrow> area page' t a = area page s a)"

lemma area_is_keeps:
  assumes "area_is page s a bs" "keeps_from a page s page' t" "extends page s page' t"
  shows "area_is page' t a bs"
  using assms unfolding area_is_def keeps_from_def extends_def by (metis le_add1)

lemma copy_bytes_spec:
  assumes "pages_ok page s" "length bs \<le> unat p" "unat p \<le> 131072" "at_page (p, offset, pag) page"
    "reads byte (tmp - of_nat (length bs)) bs s"
  shows "\<exists>r page' t. copy_bytes byte (length bs) tmp (p, offset, pag) page s = Ret (r, page') t \<and>
    extends page s page' t \<and>
    (case r of None \<Rightarrow> no_memory t
     | Some v \<Rightarrow> fst v = p - of_nat (length bs) \<and> at_page v page' \<and> area_is page' t (unat p - length bs) bs \<and>
         keeps_from (unat p) page s page' t)"
  using assms
proof (induction bs arbitrary: p offset pag page s tmp rule: rev_induct)
  case Nil
  then show ?case by (auto simp: extends_def area_is_def keeps_from_def)
next
  case (snoc b bs)
  define P where "P = unat p - 1"
  have p: "0 < unat p" "unat p = Suc P" "P < 131072" using snoc.prems by (simp_all add: P_def)
  have "p \<noteq> 0" using p(1) by auto
  then have up: "unat (p - 1) = P" unfolding P_def by (rule unat_minus_one)
  have R: "byte (tmp - 1 - of_nat (length bs) + of_nat k) t = (bs @ [b]) ! k"
    if "umem t = umem s" "k < Suc (length bs)" for t k
  proof -
    have "tmp - of_nat (length (bs @ [b])) = tmp - 1 - of_nat (length bs)" by simp
    then show ?thesis using snoc.prems(5) that unfolding reads_def by (metis length_append_singleton)
  qed
  have rd: "reads byte (tmp - 1 - of_nat (length bs)) bs t" "byte (tmp - 1) t = b" if "umem t = umem s" for t
  proof -
    show "reads byte (tmp - 1 - of_nat (length bs)) bs t"
      unfolding reads_def using R that by (simp add: nth_append)
    have "tmp - 1 - of_nat (length bs) + of_nat (length bs) = tmp - 1" by simp
    then show "byte (tmp - 1) t = b" using R [OF that lessI] by (simp only: nth_append_length)
  qed
  from copy_byte_step [OF snoc.prems(1) p(1) snoc.prems(3,4), of byte "length bs" tmp, folded P_def]
  consider t where "copy_bytes byte (Suc (length bs)) tmp (p, offset, pag) page s = Ret (None, page) t"
      "extends page s page t" "no_memory t"
    | page1 s1 where "extends page s page1 s1" "page1 (P div 4096) \<noteq> 0" "keeps_from 0 page s page1 s1"
      "copy_bytes byte (Suc (length bs)) tmp (p, offset, pag) page s =
        copy_bytes byte (length bs) (tmp - 1) (p - 1, int (P mod 4096), page1 (P div 4096)) page1
          (set_phys_byte (page1 (P div 4096) + of_nat (P mod 4096)) (byte (tmp - 1) s1) s1)"
    unfolding keeps_from_def by blast
  then show ?case
  proof cases
    case 1
    then show ?thesis by auto
  next
    case 2
    have ok1: "pages_ok page1 s1" "umem s1 = umem s" using 2(1) by (simp_all add: extends_def)
    define s2 where "s2 = set_phys_byte (page1 (P div 4096) + of_nat (P mod 4096)) b s1"
    have s2: "pages_ok page1 s2" "umem s2 = umem s" "extends page1 s1 page1 s2"
      using ok1 by (simp_all add: s2_def extends_def)
    have a2: "area page1 s2 a = (if a = P then b else area page1 s1 a)" if "page1 (a div 4096) \<noteq> 0" for a
      unfolding s2_def by (rule area_set [OF ok1(1) 2(2) that])
    have c: "copy_bytes byte (Suc (length bs)) tmp (p, offset, pag) page s =
        copy_bytes byte (length bs) (tmp - 1) (p - 1, int (P mod 4096), page1 (P div 4096)) page1 s2"
      using 2(4) rd(2) [OF ok1(2)] by (simp add: s2_def)
    have "at_page (p - 1, int (P mod 4096), page1 (P div 4096)) page1" using 2(2) by (simp add: at_page_def up)
    from snoc.IH [OF s2(1) _ _ this rd(1) [OF s2(2)]] snoc.prems(2) p up obtain r page' t where
      r: "copy_bytes byte (length bs) (tmp - 1) (p - 1, int (P mod 4096), page1 (P div 4096)) page1 s2 = Ret (r, page') t"
        "extends page1 s2 page' t"
        "case r of None \<Rightarrow> no_memory t
         | Some v \<Rightarrow> fst v = p - 1 - of_nat (length bs) \<and> at_page v page' \<and> area_is page' t (P - length bs) bs \<and>
             keeps_from P page1 s2 page' t"
      by auto
    have e: "extends page s page' t" by (rule extends_trans [OF 2(1) extends_trans [OF s2(3) r(2)]])
    have "keeps_from (unat p) page s page' t \<and> area_is page' t P [b]" if k: "keeps_from P page1 s2 page' t"
    proof -
      have "area page' t a = area page s a" if "unat p \<le> a" "page (a div 4096) \<noteq> 0" for a
      proof -
        have "page1 (a div 4096) \<noteq> 0" "P \<le> a" "a \<noteq> P" using that 2(1) p by (auto simp: extends_def)
        then show ?thesis using k 2(3) that a2 [of a] by (simp add: keeps_from_def)
      qed
      moreover have "area page' t P = b" "page' (P div 4096) \<noteq> 0"
        using k a2 [of P] 2(2) r(2) by (auto simp: keeps_from_def extends_def)
      ultimately show ?thesis by (simp add: keeps_from_def area_is_def)
    qed
    then show ?thesis
      using c r e p snoc.prems(2)
      by (auto simp: area_is_append Suc_diff_le split: option.splits)
  qed
qed

lemma string_len_reads:
  assumes r: "reads byte a (x @ [0]) s" and x: "0 \<notin> set x" and f: "length x < fuel E"
  shows "string_len E byte a s = Ret (length x + 1) s"
proof -
  let ?b = "\<lambda>len s. if byte (a + of_nat len) s \<noteq> 0 then Ret (Inl (len + 1)) s else Ret (Inr (len + 1)) s"
  let ?I = "\<lambda>len t. t = s \<and> len \<le> length x"
  have nz: "x ! k \<noteq> 0" if "k < length x" for k using x that nth_mem by metis
  have step: "\<exists>r t'. ?b v t = Ret r t' \<and> (case r of Inl w \<Rightarrow> ?I w t' \<and> length x - w < length x - v
      | Inr n \<Rightarrow> t' = s \<and> n = length x + 1)" if "?I v t" for v t
  proof -
    have "byte (a + of_nat v) s = (x @ [0]) ! v" using r that by (simp add: reads_def)
    then show ?thesis using that nz by (cases "v = length x") (auto simp: nth_append)
  qed
  have "\<exists>n t. kwhile (fuel E) ?b 0 s = Ret n t \<and> t = s \<and> n = length x + 1"
    by (rule kwhile_rule [of ?I ?b "\<lambda>v _. length x - v"]) (use step f in auto)
  then show ?thesis by (simp add: string_len_def)
qed

lemma reads_cong: "umem t = umem s \<Longrightarrow> reads byte a bs t = reads byte a bs s"
  by (simp add: reads_def)

lemma keeps_from_trans:
  assumes "keeps_from n page s page1 s1" "keeps_from m page1 s1 page2 s2" "m \<le> n" "extends page s page1 s1"
  shows "keeps_from n page s page2 s2"
  using assms unfolding keeps_from_def extends_def by auto

text \<open>\<open>has_strings\<close>: the entries of the table that \<open>ptr\<close> reads lead to the strings \<open>xs\<close>.\<close>

definition has_strings :: "(nat \<Rightarrow> kernel \<Rightarrow> u32) \<Rightarrow> (u32 \<Rightarrow> kernel \<Rightarrow> u8) \<Rightarrow> u8 list list \<Rightarrow> kernel \<Rightarrow> bool" where
  "has_strings ptr byte xs s \<longleftrightarrow> (\<forall>i < length xs. 0 \<notin> set (xs ! i) \<and> ptr i s \<noteq> 0 \<and>
     (\<forall>t. umem t = umem s \<longrightarrow> ptr i t = ptr i s) \<and> reads byte (ptr i s) (xs ! i @ [0]) s)"

lemma has_strings_cong:
  assumes "umem t = umem s" "has_strings ptr byte xs s"
  shows "has_strings ptr byte xs t"
  using assms unfolding has_strings_def reads_def by metis

lemma copy_args_spec:
  assumes "pages_ok page s" "length (cat xs) \<le> unat (fst v)" "unat (fst v) \<le> 131072" "at_page v page"
    "has_strings ptr byte xs s" "\<forall>x \<in> set xs. length x < fuel E"
  shows "\<exists>r page' t. copy_args E ptr byte (length xs) v page s = Ret (r, page') t \<and> extends page s page' t \<and>
    (r = 0 \<and> no_memory t \<or>
     r = fst v - of_nat (length (cat xs)) \<and> area_is page' t (unat (fst v) - length (cat xs)) (cat xs) \<and>
     keeps_from (unat (fst v)) page s page' t)"
  using assms
proof (induction xs arbitrary: v page s rule: rev_induct)
  case Nil
  then show ?case by (auto simp: extends_def area_is_def keeps_from_def)
next
  case (snoc x xs)
  obtain p offset pag where v: "v = (p, offset, pag)" by (cases v)
  define A where "A = ptr (length xs) s"
  note h = snoc.prems(5) [unfolded has_strings_def, rule_format]
  have x: "0 \<notin> set x" "A \<noteq> 0" "reads byte A (x @ [0]) s"
    using h [of "length xs", unfolded nth_append_length] unfolding A_def length_append_singleton by blast+
  have hs: "has_strings ptr byte xs s"
    unfolding has_strings_def using h by (metis length_append_singleton less_SucI nth_append)
  have len: "string_len E byte A s = Ret (length (x @ [0])) s"
    using string_len_reads [OF x(3,1)] snoc.prems(6) by simp
  have "reads byte (A + of_nat (length (x @ [0])) - of_nat (length (x @ [0]))) (x @ [0]) s"
    using x(3) by (simp only: add_diff_cancel_right')
  from copy_bytes_spec [OF snoc.prems(1) _ _ snoc.prems(4) [unfolded v] this] snoc.prems(2,3) obtain r page1 s1 where
    c: "copy_bytes byte (length (x @ [0])) (A + of_nat (length (x @ [0]))) (p, offset, pag) page s = Ret (r, page1) s1"
      "extends page s page1 s1"
      "case r of None \<Rightarrow> no_memory s1
       | Some w \<Rightarrow> fst w = p - of_nat (length (x @ [0])) \<and> at_page w page1 \<and>
           area_is page1 s1 (unat p - length (x @ [0])) (x @ [0]) \<and> keeps_from (unat p) page s page1 s1"
    by (auto simp: v)
  have unf: "copy_args E ptr byte (length (xs @ [x])) v page s =
      (case r of None \<Rightarrow> Ret (0, page1) s1 | Some w \<Rightarrow> copy_args E ptr byte (length xs) w page1 s1)"
    using x(2) len c(1) unfolding A_def by (simp add: v Let_def)
  show ?case
  proof (cases r)
    case None
    then show ?thesis using unf c(2,3) by auto
  next
    case (Some w)
    let ?n = "length (x @ [0])"
    have w: "fst w = p - of_nat ?n" "at_page w page1" "area_is page1 s1 (unat p - ?n) (x @ [0])"
        "keeps_from (unat p) page s page1 s1"
      using c(3) Some by auto
    have total: "length (cat xs) + ?n \<le> unat p" "unat p \<le> 131072" using snoc.prems(2,3) by (simp_all add: v)
    have un: "unat (of_nat ?n :: u32) = ?n" using total by (intro unat_of_nat32) simp
    have "of_nat ?n \<le> p" unfolding word_le_nat_alt un using total by simp
    then have uw: "unat (fst w) = unat p - ?n" by (simp only: w(1) unat_sub un)
    have ok1: "pages_ok page1 s1" "umem s1 = umem s" using c(2) by (simp_all add: extends_def)
    have bd: "length (cat xs) \<le> unat (fst w)" "unat (fst w) \<le> 131072" unfolding uw using total by simp_all
    from snoc.IH [OF ok1(1) bd w(2) has_strings_cong [OF ok1(2) hs]] snoc.prems(6) obtain r' page' t where
      t: "copy_args E ptr byte (length xs) w page1 s1 = Ret (r', page') t" "extends page1 s1 page' t"
        "r' = 0 \<and> no_memory t \<or> r' = fst w - of_nat (length (cat xs)) \<and>
         area_is page' t (unat p - ?n - length (cat xs)) (cat xs) \<and> keeps_from (unat p - ?n) page1 s1 page' t"
      unfolding uw by auto
    show ?thesis
    proof (cases "r' = 0 \<and> no_memory t")
      case True
      then show ?thesis using unf t c(2) Some by (auto intro: extends_trans)
    next
      case False
      then have q: "r' = fst w - of_nat (length (cat xs))" "area_is page' t (unat p - ?n - length (cat xs)) (cat xs)"
          "keeps_from (unat p - ?n) page1 s1 page' t"
        using t(3) by auto
      have "area_is page' t (unat p - ?n) (x @ [0])" by (rule area_is_keeps [OF w(3) q(3) t(2)])
      moreover have "unat p - length (cat (xs @ [x])) + length (cat xs) = unat p - ?n"
          "unat p - ?n - length (cat xs) = unat p - length (cat (xs @ [x]))"
        using total by simp_all
      ultimately have "area_is page' t (unat p - length (cat (xs @ [x]))) (cat (xs @ [x]))"
        using q(2) by (simp add: area_is_append)
      moreover have "keeps_from (unat p) page s page' t" by (rule keeps_from_trans [OF w(4) q(3) _ c(2)]) simp
      moreover have "r' = p - of_nat (length (cat (xs @ [x])))" unfolding q(1) w(1) by simp
      ultimately show ?thesis using unf t(1) Some extends_trans [OF c(2) t(2)] by (auto simp: v)
    qed
  qed
qed


text \<open>C24: \<open>copy_strings\<close> with arguments that fit: unless the kernel runs out of pages, in which case it returns 0,
  it returns the place of the first string, and from there to the old place the argument area holds the
  strings in order, each with its 0, across page boundaries; what lay above is not disturbed, every page is
  a different frame in use, and no index leaves the array of pages.\<close>

theorem copy_strings_area:
  assumes ok: "pages_ok page s" and p: "length (cat xs) < unat p" "unat p \<le> 131072"
    and h: "has_strings (user_argv argv) get_fs_byte xs s" and f: "\<forall>x \<in> set xs. length x < fuel E"
  shows "\<exists>r page' t. copy_strings E (int (length xs)) (user_argv argv) get_fs_byte page p s = Ret (r, page') t \<and>
    pages_ok page' t \<and> umem t = umem s \<and>
    (r = 0 \<and> no_memory t \<or>
     r = p - of_nat (length (cat xs)) \<and> area_is page' t (unat p - length (cat xs)) (cat xs) \<and>
     (\<forall>bs. area_is page s (unat p) bs \<longrightarrow> area_is page' t (unat p) bs))"
proof -
  have "p \<noteq> 0" using p(1) by auto
  moreover have "at_page (p, 0, 0) page" by (simp add: at_page_def)
  moreover note copy_args_spec [OF ok _ _ this h f] p
  ultimately obtain r page' t where c: "copy_strings E (int (length xs)) (user_argv argv) get_fs_byte page p s = Ret (r, page') t"
      "extends page s page' t" "r = 0 \<and> no_memory t \<or> r = p - of_nat (length (cat xs)) \<and>
       area_is page' t (unat p - length (cat xs)) (cat xs) \<and> keeps_from (unat p) page s page' t"
    by (auto simp: copy_strings_def)
  have "area_is page' t (unat p) bs" if "area_is page s (unat p) bs" "keeps_from (unat p) page s page' t" for bs
    by (rule area_is_keeps [OF that c(2)])
  then show ?thesis using c by (auto simp: extends_def)
qed

lemma bytes_at_map: "bytes_at p bs s \<longleftrightarrow> map (\<lambda>k. get_fs_byte (p + of_nat k) s) [0..<length bs] = bs"
proof
  assume "bytes_at p bs s"
  then show "map (\<lambda>k. get_fs_byte (p + of_nat k) s) [0..<length bs] = bs"
    by (intro nth_equalityI) (simp_all add: bytes_at_def)
next
  assume m: "map (\<lambda>k. get_fs_byte (p + of_nat k) s) [0..<length bs] = bs"
  have "get_fs_byte (p + of_nat k) s = bs ! k" if "k < length bs" for k
    using arg_cong [OF m, of "\<lambda>l. l ! k"] that by simp
  then show "bytes_at p bs s" by (simp add: bytes_at_def)
qed

text \<open>User memory with a table at 0x1000 that has the strings \<^verbatim>\<open>"ls"\<close> and \<^verbatim>\<open>"-l"\<close>.\<close>

definition two_args :: kernel where
  "two_args = k0\<lparr>umem := (\<lambda>a. if a = 0x1001 \<or> a = 0x1005 then 0x20 else if a = 0x1004 then 3
     else if a = 0x2000 then 0x6c else if a = 0x2001 then 0x73 else if a = 0x2003 then 0x2d
     else if a = 0x2004 then 0x6c else 0)\<rparr>"

lemma two_args_strings: "bytes_at 0x2000 (cat [[0x6c, 0x73], [0x2d, 0x6c]]) two_args"
  by (simp add: bytes_at_map get_fs_byte_def two_args_def upt_rec)

theorem create_tables_stack_witness:
  "\<exists>t. create_tables (quiet_env 3) 0x2000 2 0 two_args = Ret 0x1fe4 t \<and> get_fs_long 0x1fe4 t = 2 \<and>
     get_fs_long (get_fs_long 0x1fe8 t + 4) t = 0x2003"
  using create_tables_stack [of "0x2000" "[[0x6c, 0x73], [0x2d, 0x6c]]" "[]" two_args "quiet_env 3"] two_args_strings
  by (auto simp: quiet_env_def string_addr_def dest: spec [of _ "1 :: nat"])

theorem copy_strings_area_witness:
  "\<exists>r page' t. copy_strings (quiet_env 3) 2 (user_argv 0x1000) get_fs_byte (\<lambda>_. 0) 0x1fffc two_args = Ret (r, page') t \<and>
     (r = 0 \<and> no_memory t \<or> r = 0x1fff6 \<and> area_is page' t 0x1fff6 [0x6c, 0x73, 0, 0x2d, 0x6c, 0])"
proof -
  let ?xs = "[[0x6c, 0x73], [0x2d, 0x6c]] :: u8 list list"
  have "pages_ok (\<lambda>_. 0) two_args" by (simp add: pages_ok_def)
  have a: "user_argv 0x1000 0 two_args = 0x2000" "user_argv 0x1000 1 two_args = 0x2003"
    by (simp_all add: user_argv_def get_fs_long_def le32_def two_args_def)
  have "bytes_at 0x2000 (?xs ! 0 @ [0]) two_args" "bytes_at 0x2003 (?xs ! 1 @ [0]) two_args"
    using two_args_strings bytes_at_append [of "0x2000" "[0x6c, 0x73, 0]" "[0x2d, 0x6c, 0]" two_args] by simp_all
  then have "reads get_fs_byte 0x2000 (?xs ! 0 @ [0]) two_args" "reads get_fs_byte 0x2003 (?xs ! 1 @ [0]) two_args"
    by (simp_all add: reads_def bytes_at_def get_fs_byte_def)
  moreover have "umem t = umem two_args \<longrightarrow> user_argv 0x1000 i t = user_argv 0x1000 i two_args" for i t
    by (simp add: user_argv_def get_fs_long_def)
  moreover have "i = 0 \<or> i = 1" if "i < length ?xs" for i using that by (simp add: less_Suc_eq)
  moreover have "0 \<notin> set (?xs ! 0)" "0 \<notin> set (?xs ! 1)" "user_argv 0x1000 0 two_args \<noteq> 0" "user_argv 0x1000 1 two_args \<noteq> 0"
    unfolding a by simp_all
  ultimately have "has_strings (user_argv 0x1000) get_fs_byte ?xs two_args"
    unfolding has_strings_def by (metis a)
  from copy_strings_area [OF \<open>pages_ok (\<lambda>_. 0) two_args\<close> _ _ this, of "0x1fffc" "quiet_env 3"]
  show ?thesis by (simp add: quiet_env_def) blast
qed

end
