(* ===== verification/Vsprintf.thy ===== *)
theory Vsprintf
  imports Prelude
begin

text \<open>
  The formatted output of kernel/vsprintf.c. The buffer is the list of the characters written to it,
  a format ends with its last character (the empty list is the terminating 0), the variable arguments
  are the 32-bit words on the stack, and \<open>strs\<close> is the memory that \<^verbatim>\<open>%s\<close> reads: the string that
  starts at an address. \<open>None\<close> is an argument that the caller did not pass.
\<close>

subsection \<open>Numbers\<close>

abbreviation (input) "ZEROPAD \<equiv> (1 :: u32)"
abbreviation (input) "SIGN \<equiv> (2 :: u32)"
abbreviation (input) "PLUS \<equiv> (4 :: u32)"
abbreviation (input) "SPACE \<equiv> (8 :: u32)"
abbreviation (input) "LEFT_FLAG \<equiv> (16 :: u32)"
abbreviation (input) "SPECIAL \<equiv> (32 :: u32)"
abbreviation (input) "SMALL \<equiv> (64 :: u32)"

definition is_digit :: "char \<Rightarrow> bool" where
  "is_digit c \<longleftrightarrow> of_char c \<ge> (48 :: int) \<and> of_char c \<le> (57 :: int)"

fun skip_atoi_from :: "int \<Rightarrow> string \<Rightarrow> int \<times> string" where
  "skip_atoi_from i [] = (i, [])"
| "skip_atoi_from i (c # cs) =
     (if is_digit c then skip_atoi_from (wrap32 (i * 10 + of_char c - 48)) cs else (i, c # cs))"

definition skip_atoi :: "string \<Rightarrow> int \<times> string" where
  "skip_atoi s = skip_atoi_from 0 s"

definition digit_chars :: "u32 \<Rightarrow> string" where
  "digit_chars type = (if type AND SMALL \<noteq> 0 then ''0123456789abcdefghijklmnopqrstuvwxyz''
     else ''0123456789ABCDEFGHIJKLMNOPQRSTUVWXYZ'')"

text \<open>The digits in \<^verbatim>\<open>tmp\<close>, the last one first. \<^verbatim>\<open>do_div\<close> divides the unsigned 32-bit value.\<close>

fun tmp_digits :: "string \<Rightarrow> nat \<Rightarrow> nat \<Rightarrow> string" where
  "tmp_digits digits base num =
     (if num = 0 \<or> base < 2 then [] else digits ! (num mod base) # tmp_digits digits base (num div base))"

declare tmp_digits.simps [simp del]

text \<open>\<^verbatim>\<open>while(size-->0) *str++ = c;\<close>\<close>

definition pad :: "char \<Rightarrow> int \<Rightarrow> string \<times> int" where
  "pad c sz = (replicate (nat sz) c, if sz > 0 then -1 else wrap32 (sz - 1))"

definition number :: "u32 \<Rightarrow> int \<Rightarrow> int \<Rightarrow> int \<Rightarrow> u32 \<Rightarrow> string option" where
  "number num base sz precision type =
     (let digits = digit_chars type;
          type = (if type AND LEFT_FLAG \<noteq> 0 then type AND NOT ZEROPAD else type) in
      if base < 2 \<or> base > 36 then None
      else
        let c = (if type AND ZEROPAD \<noteq> 0 then CHR ''0'' else CHR '' '');
            neg = (type AND SIGN \<noteq> 0 \<and> sint num < 0);
            sign = (if neg then ''-'' else if type AND PLUS \<noteq> 0 then ''+''
                    else if type AND SPACE \<noteq> 0 then '' '' else []);
            num = (if neg then - num else num);
            sz = (if sign \<noteq> [] then wrap32 (sz - 1) else sz);
            sz = (if type AND SPECIAL \<noteq> 0
                    then (if base = 16 then wrap32 (sz - 2) else if base = 8 then wrap32 (sz - 1) else sz)
                    else sz);
            tmp = (if num = 0 then ''0'' else tmp_digits digits (nat base) (unat num));
            i = int (length tmp);
            precision = (if i > precision then i else precision);
            sz = wrap32 (sz - precision);
            (spaces, sz) = (if type AND (ZEROPAD + LEFT_FLAG) = 0 then pad (CHR '' '') sz else ([], sz));
            prefix = (if type AND SPECIAL \<noteq> 0
                      then (if base = 8 then ''0'' else if base = 16 then [CHR ''0'', digits ! 33] else [])
                      else []);
            (fill, sz) = (if type AND LEFT_FLAG = 0 then pad c sz else ([], sz));
            zeros = replicate (nat (precision - i)) (CHR ''0'');
            (trail, sz) = pad (CHR '' '') sz in
        Some (spaces @ sign @ prefix @ fill @ zeros @ rev tmp @ trail))"

subsection \<open>Formats\<close>

fun va_arg :: "u32 list \<Rightarrow> (u32 \<times> u32 list) option" where
  "va_arg [] = None"
| "va_arg (a # as) = Some (a, as)"

text \<open>The flags after the percent sign; the result is the flags and the format from the first
  character that is not one.\<close>

fun fmt_flags :: "u32 \<Rightarrow> string \<Rightarrow> u32 \<times> string" where
  "fmt_flags flags [] = (flags, [])"
| "fmt_flags flags (c # cs) =
     (if c = CHR ''-'' then fmt_flags (flags OR LEFT_FLAG) cs
      else if c = CHR ''+'' then fmt_flags (flags OR PLUS) cs
      else if c = CHR '' '' then fmt_flags (flags OR SPACE) cs
      else if c = CHR ''#'' then fmt_flags (flags OR SPECIAL) cs
      else if c = CHR ''0'' then fmt_flags (flags OR ZEROPAD) cs
      else (flags, c # cs))"

definition at_digit :: "string \<Rightarrow> bool" where
  "at_digit fmt \<longleftrightarrow> fmt \<noteq> [] \<and> is_digit (hd fmt)"

definition at :: "char \<Rightarrow> string \<Rightarrow> bool" where
  "at c fmt \<longleftrightarrow> fmt \<noteq> [] \<and> hd fmt = c"

text \<open>Field width and precision. The source does not move past a \<^verbatim>\<open>*\<close>.\<close>

definition fmt_width :: "u32 \<Rightarrow> string \<Rightarrow> u32 list \<Rightarrow> (int \<times> u32 \<times> string \<times> u32 list) option" where
  "fmt_width flags fmt args =
     (if at_digit fmt then (let (w, fmt) = skip_atoi fmt in Some (w, flags, fmt, args))
      else if at (CHR ''*'') fmt then
        (case va_arg args of
           None \<Rightarrow> None
         | Some (a, args) \<Rightarrow>
             if sint a < 0 then Some (wrap32 (- sint a), flags OR LEFT_FLAG, fmt, args)
             else Some (sint a, flags, fmt, args))
      else Some (-1, flags, fmt, args))"

definition fmt_precision :: "string \<Rightarrow> u32 list \<Rightarrow> (int \<times> string \<times> u32 list) option" where
  "fmt_precision fmt args =
     (if at (CHR ''.'') fmt then
        (let fmt = tl fmt in
         if at_digit fmt then
           (let (p, fmt) = skip_atoi fmt in Some (if p < 0 then 0 else p, fmt, args))
         else if at (CHR ''*'') fmt then
           (case va_arg args of
              None \<Rightarrow> None
            | Some (a, args) \<Rightarrow> Some (if sint a < 0 then 0 else sint a, fmt, args))
         else Some (0, fmt, args))
      else Some (-1, fmt, args))"

definition fmt_qualifier :: "string \<Rightarrow> string" where
  "fmt_qualifier fmt = (if at (CHR ''h'') fmt \<or> at (CHR ''l'') fmt \<or> at (CHR ''L'') fmt then tl fmt else fmt)"

text \<open>\<^verbatim>\<open>while (--field_width > 0) *str++ = ' ';\<close> and \<^verbatim>\<open>while (len < field_width--) *str++ = ' ';\<close>\<close>

definition pad_char :: "int \<Rightarrow> string \<times> int" where
  "pad_char field_width =
     (let n = wrap32 (field_width - 1) in (replicate (nat n) (CHR '' ''), if n > 0 then 0 else n))"

definition pad_string :: "int \<Rightarrow> int \<Rightarrow> string \<times> int" where
  "pad_string len field_width =
     (replicate (nat (field_width - len)) (CHR '' ''), wrap32 ((if len < field_width then len else field_width) - 1))"

definition conv_char :: "u32 \<Rightarrow> int \<Rightarrow> u32 \<Rightarrow> string" where
  "conv_char flags field_width a =
     (let (lead, field_width) = (if flags AND LEFT_FLAG = 0 then pad_char field_width else ([], field_width));
          (trail, _) = pad_char field_width in
      lead @ [char_of (unat a mod 256)] @ trail)"

definition conv_string :: "u32 \<Rightarrow> int \<Rightarrow> int \<Rightarrow> string \<Rightarrow> string" where
  "conv_string flags field_width precision str =
     (let len = int (length str);
          len = (if precision < 0 then len else if len > precision then precision else len);
          (lead, field_width) = (if flags AND LEFT_FLAG = 0 then pad_string len field_width else ([], field_width));
          (trail, _) = pad_string len field_width in
      lead @ take (nat len) str @ trail)"

text \<open>The conversion itself, the switch at the end of the loop: what it appends to the output \<open>out\<close>,
  the rest of the format, the arguments left, and the integers \<^verbatim>\<open>%n\<close> stores.\<close>

type_synonym conversion = "string \<times> string \<times> u32 list \<times> (u32 \<times> int) list"

definition conv_number :: "u32 \<Rightarrow> int \<Rightarrow> int \<Rightarrow> int \<Rightarrow> string \<Rightarrow> u32 list \<Rightarrow> conversion option" where
  "conv_number flags base field_width precision fmt args =
     (case va_arg args of
        None \<Rightarrow> None
      | Some (a, args) \<Rightarrow>
          (case number a base field_width precision flags of
             None \<Rightarrow> None
           | Some txt \<Rightarrow> Some (txt, tl fmt, args, [])))"

definition conversion :: "(u32 \<Rightarrow> string) \<Rightarrow> string \<Rightarrow> u32 \<Rightarrow> int \<Rightarrow> int \<Rightarrow> string \<Rightarrow> u32 list \<Rightarrow> conversion option" where
  "conversion strs out flags field_width precision fmt args =
     (if at (CHR ''c'') fmt then
        map_option (\<lambda>(a, args). (conv_char flags field_width a, tl fmt, args, [])) (va_arg args)
      else if at (CHR ''s'') fmt then
        map_option (\<lambda>(a, args). (conv_string flags field_width precision (strs a), tl fmt, args, [])) (va_arg args)
      else if at (CHR ''o'') fmt then conv_number flags 8 field_width precision fmt args
      else if at (CHR ''p'') fmt then
        (if field_width = -1 then conv_number (flags OR ZEROPAD) 16 8 precision fmt args
         else conv_number flags 16 field_width precision fmt args)
      else if at (CHR ''x'') fmt then conv_number (flags OR SMALL) 16 field_width precision fmt args
      else if at (CHR ''X'') fmt then conv_number flags 16 field_width precision fmt args
      else if at (CHR ''d'') fmt \<or> at (CHR ''i'') fmt then
        conv_number (flags OR SIGN) 10 field_width precision fmt args
      else if at (CHR ''u'') fmt then conv_number flags 10 field_width precision fmt args
      else if at (CHR ''n'') fmt then
        map_option (\<lambda>(a, args). ([], tl fmt, args, [(a, int (length out))])) (va_arg args)
      else if at (CHR ''%'') fmt then Some (''%'', tl fmt, args, [])
      else Some (''%'' @ take 1 fmt, tl fmt, args, []))"

text \<open>Everything between a percent sign and the next pass of the loop.\<close>

definition directive :: "(u32 \<Rightarrow> string) \<Rightarrow> string \<Rightarrow> string \<Rightarrow> u32 list \<Rightarrow> conversion option" where
  "directive strs out fmt args =
     (case fmt_flags 0 fmt of (flags, fmt) \<Rightarrow>
      (case fmt_width flags fmt args of
        None \<Rightarrow> None
      | Some (field_width, flags, fmt, args) \<Rightarrow>
          (case fmt_precision fmt args of
             None \<Rightarrow> None
           | Some (precision, fmt, args) \<Rightarrow>
               conversion strs out flags field_width precision (fmt_qualifier fmt) args)))"

lemma skip_atoi_from_rest: "length (snd (skip_atoi_from i s)) \<le> length s"
  by (induction i s rule: skip_atoi_from.induct) auto

lemma fmt_flags_rest: "length (snd (fmt_flags f s)) \<le> length s"
  by (induction f s rule: fmt_flags.induct) auto

lemma fmt_width_rest: "fmt_width f s a = Some (w, f', r, a') \<Longrightarrow> length r \<le> length s"
  using skip_atoi_from_rest [of 0 s]
  by (auto simp: fmt_width_def skip_atoi_def split: if_splits option.splits prod.splits)

lemma fmt_precision_rest: "fmt_precision s a = Some (p, r, a') \<Longrightarrow> length r \<le> length s"
  using skip_atoi_from_rest [of 0 "tl s"]
  by (auto simp: fmt_precision_def skip_atoi_def Let_def split: if_splits option.splits prod.splits)

lemma conversion_rest: "conversion strs out f w p s a = Some (t, r, a', n) \<Longrightarrow> length r \<le> length s"
  by (auto simp: conversion_def conv_number_def split: if_splits option.splits)

lemma directive_rest: "directive strs out s a = Some (t, r, a', n) \<Longrightarrow> length r \<le> length s"
  using fmt_flags_rest [of 0 s]
  by (auto simp: directive_def fmt_qualifier_def split: prod.splits option.splits if_splits
      dest!: fmt_width_rest fmt_precision_rest conversion_rest)

function vsprintf_from :: "(u32 \<Rightarrow> string) \<Rightarrow> string \<Rightarrow> string \<Rightarrow> u32 list \<Rightarrow> (string \<times> (u32 \<times> int) list) option" where
  "vsprintf_from strs out [] args = Some (out, [])"
| "vsprintf_from strs out (c # fmt) args =
     (if c \<noteq> CHR ''%'' then vsprintf_from strs (out @ [c]) fmt args
      else case directive strs out fmt args of
             None \<Rightarrow> None
           | Some (txt, fmt', args', stores) \<Rightarrow>
               map_option (apsnd (\<lambda>n. stores @ n)) (vsprintf_from strs (out @ txt) fmt' args'))"
  by pat_completeness auto
termination
  by (relation "measure (\<lambda>(_, _, fmt, _). length fmt)") (auto dest: directive_rest simp: le_imp_less_Suc)

text \<open>The text written to \<^verbatim>\<open>buf\<close>, whose length \<^verbatim>\<open>vsprintf\<close> returns, and the integers
  stored by \<^verbatim>\<open>%n\<close>.\<close>

definition vsprintf :: "(u32 \<Rightarrow> string) \<Rightarrow> string \<Rightarrow> u32 list \<Rightarrow> (string \<times> (u32 \<times> int) list) option" where
  "vsprintf strs fmt args = vsprintf_from strs [] fmt args"

subsection \<open>Printed numbers have the value they were printed from\<close>

definition digit_value :: "char \<Rightarrow> nat" where
  "digit_value c = (let v = of_char c in if v < (58 :: nat) then v - 48 else if v < 97 then v - 55 else v - 87)"

definition text_value :: "nat \<Rightarrow> string \<Rightarrow> nat" where
  "text_value base = foldl (\<lambda>v c. v * base + digit_value c) 0"

lemma text_value_append: "text_value base (ds @ [c]) = text_value base ds * base + digit_value c"
  by (simp add: text_value_def)

lemma digit_chars_value:
  assumes "d < 36"
  shows "digit_value (digit_chars type ! d) = d"
proof -
  have "map digit_value (digit_chars type) = [0..<36]" "length (digit_chars type) = 36"
    by (simp_all add: digit_chars_def digit_value_def upt_rec)
  then show ?thesis using assms by (metis nth_map nth_upt add_0)
qed

lemma text_value_tmp_digits:
  assumes "2 \<le> base" "base \<le> 36"
  shows "text_value base (rev (tmp_digits (digit_chars type) base n)) = n"
  using assms
proof (induction "digit_chars type" base n rule: tmp_digits.induct)
  case (1 base n)
  show ?case
  proof (cases "n = 0")
    case True
    then show ?thesis by (simp add: tmp_digits.simps text_value_def)
  next
    case False
    then have "n mod base < 36" using 1 by (meson less_le_trans mod_less_divisor zero_less_numeral order.strict_trans2)
    then show ?thesis
      using False 1 by (subst tmp_digits.simps) (simp add: text_value_append digit_chars_value)
  qed
qed

lemma length_tmp_digits: "n < 2 ^ k \<Longrightarrow> length (tmp_digits ds base n) \<le> k"
proof (induction k arbitrary: n)
  case 0
  then show ?case by (simp add: tmp_digits.simps)
next
  case (Suc k)
  show ?case
  proof (cases "n = 0 \<or> base < 2")
    case False
    then have "n div base \<le> n div 2" by (intro div_le_mono2) auto
    also have "\<dots> < 2 ^ k" using Suc.prems by simp
    finally have "length (tmp_digits ds base (n div base)) \<le> k" by (rule Suc.IH)
    then show ?thesis using False by (subst tmp_digits.simps) simp
  qed (auto simp: tmp_digits.simps)
qed

lemma text_value_zeros: "text_value base (replicate k (CHR ''0'') @ ds) = text_value base ds"
proof -
  have "foldl (\<lambda>v c. v * base + digit_value c) 0 (replicate k (CHR ''0'')) = 0"
    by (induction k) (simp_all add: digit_value_def)
  then show ?thesis by (simp add: text_value_def)
qed

text \<open>The absolute value that \<open>number\<close> prints, and whether with a minus sign.\<close>

definition is_neg :: "u32 \<Rightarrow> u32 \<Rightarrow> bool" where
  "is_neg type num \<longleftrightarrow> type AND SIGN \<noteq> 0 \<and> sint num < 0"

definition magnitude :: "u32 \<Rightarrow> u32 \<Rightarrow> nat" where
  "magnitude type num = (if is_neg type num then nat (- sint num) else unat num)"

lemma sint_uint32: "sint (w :: u32) = (if uint w < 2 ^ 31 then uint w else uint w - 2 ^ 32)"
proof (cases "uint w < 2 ^ 31")
  case True
  moreover have "0 \<le> uint w" by simp
  ultimately have "is_s32 (uint w)" unfolding is_s32_def by (intro conjI) (linarith, simp)
  then have "wrap32 (uint w) = uint w" by (rule wrap32_id)
  then show ?thesis using True by (simp add: wrap32_sint)
next
  case False
  have "wrap32 (uint w) = wrap32 (uint w - 2 ^ 32)"
    using mod_add_self2 [of "uint w - 2147483648" 4294967296] by (simp add: wrap32_def add.commute)
  also have "\<dots> = uint w - 2 ^ 32" using False uint_lt2p [of w] by (simp add: is_s32_def)
  finally show ?thesis using False by (simp add: wrap32_sint)
qed

lemma unat_uminus_neg:
  assumes "sint (w :: u32) < 0"
  shows "unat (- w) = nat (- sint w)"
proof -
  have "w \<noteq> 0" using assms by auto
  moreover have "uint w mod 2 ^ 32 = uint w" using uint_lt2p [of w] by (intro mod_pos_pos_trivial) simp_all
  ultimately have "uint (- w) = 2 ^ 32 - uint w"
    by (simp add: uint_word_ariths zmod_zminus1_eq_if unsigned_eq_0_iff)
  moreover have "sint w = uint w - 2 ^ 32" using assms sint_uint32 [of w] by (simp split: if_splits)
  ultimately show ?thesis by (simp add: unat_eq_nat_uint)
qed


text \<open>The text of \<open>number\<close>, when no width overflows: the padding goes to exactly one of three places.\<close>

definition sign_text :: "u32 \<Rightarrow> u32 \<Rightarrow> string" where
  "sign_text type num = (if is_neg type num then ''-'' else if type AND PLUS \<noteq> 0 then ''+''
     else if type AND SPACE \<noteq> 0 then '' '' else [])"

definition base_prefix :: "u32 \<Rightarrow> int \<Rightarrow> string" where
  "base_prefix type base = (if type AND SPECIAL = 0 then [] else if base = 8 then ''0''
     else if base = 16 then [CHR ''0'', digit_chars type ! 33] else [])"

lemma flag_bits:
  "(type AND NOT ZEROPAD) AND SIGN = type AND SIGN" "(type AND NOT ZEROPAD) AND PLUS = type AND PLUS"
  "(type AND NOT ZEROPAD) AND SPACE = type AND SPACE" "(type AND NOT ZEROPAD) AND SPECIAL = type AND SPECIAL"
  "(type AND NOT ZEROPAD) AND LEFT_FLAG = type AND LEFT_FLAG" "(type AND NOT ZEROPAD) AND ZEROPAD = (0 :: u32)"
  by (simp_all add: and.assoc)

lemma pad_flags: "type AND (ZEROPAD + LEFT_FLAG) = 0 \<longleftrightarrow> type AND ZEROPAD = 0 \<and> type AND LEFT_FLAG = (0 :: u32)"
proof -
  have "type AND (ZEROPAD + LEFT_FLAG) = (type AND ZEROPAD) OR (type AND LEFT_FLAG)"
    by (simp add: bit.conj_disj_distrib [symmetric])
  then show ?thesis by (simp add: or_eq_0_iff)
qed

lemma magnitude_unat: "magnitude type num = unat (if is_neg type num then - num else num)"
  by (auto simp: magnitude_def unat_uminus_neg is_neg_def)

lemma magnitude_digits: "length (tmp_digits ds base (magnitude type num)) \<le> 32"
  by (rule length_tmp_digits) (simp only: magnitude_unat, rule order.strict_trans2 [OF unsigned_less], simp)

lemma number_shape:
  fixes type num sz base precision
  defines "tmp \<equiv> (if magnitude type num = 0 then ''0'' else tmp_digits (digit_chars type) (nat base) (magnitude type num))"
  defines "p \<equiv> max (int (length tmp)) precision"
  defines "z \<equiv> sz - int (length (sign_text type num)) - int (length (base_prefix type base)) - p"
  assumes b: "2 \<le> base" "base \<le> 36" and w: "\<bar>sz\<bar> < 2 ^ 29" "\<bar>precision\<bar> < 2 ^ 29"
  shows "number num base sz precision type = Some
    ((if type AND LEFT_FLAG = 0 \<and> type AND ZEROPAD = 0 then replicate (nat z) (CHR '' '') else []) @
     sign_text type num @ base_prefix type base @
     (if type AND LEFT_FLAG = 0 \<and> type AND ZEROPAD \<noteq> 0 then replicate (nat z) (CHR ''0'') else []) @
     replicate (nat (p - int (length tmp))) (CHR ''0'') @ rev tmp @
     (if type AND LEFT_FLAG \<noteq> 0 then replicate (nat z) (CHR '' '') else []))"
proof -
  define ty where "ty = (if type AND LEFT_FLAG \<noteq> 0 then type AND NOT ZEROPAD else type)"
  have ty: "ty AND SIGN = type AND SIGN" "ty AND PLUS = type AND PLUS" "ty AND SPACE = type AND SPACE"
    "ty AND SPECIAL = type AND SPECIAL" "ty AND LEFT_FLAG = type AND LEFT_FLAG"
    "ty AND ZEROPAD \<noteq> 0 \<longleftrightarrow> type AND LEFT_FLAG = 0 \<and> type AND ZEROPAD \<noteq> 0"
    "ty AND (ZEROPAD + LEFT_FLAG) = 0 \<longleftrightarrow> type AND LEFT_FLAG = 0 \<and> type AND ZEROPAD = 0"
    unfolding ty_def by (cases "type AND LEFT_FLAG \<noteq> 0"; simp only: flag_bits pad_flags if_True if_False simp_thms)+
  note mg = magnitude_unat [of type num]
  have lt: "length tmp \<le> 32" using magnitude_digits by (simp add: tmp_def)
  have num: "(if is_neg type num then - num else num) = 0 \<longleftrightarrow> magnitude type num = 0"
    by (simp add: mg unsigned_eq_0_iff)
  have bl: "(base < 2 \<or> base > 36) = False" using b by auto
  let ?s1 = "if sign_text type num \<noteq> [] then wrap32 (sz - 1) else sz"
  let ?s2 = "if type AND SPECIAL \<noteq> 0 then (if base = 16 then wrap32 (?s1 - 2) else if base = 8 then wrap32 (?s1 - 1) else ?s1)
    else ?s1"
  have p: "(if int (length tmp) > precision then int (length tmp) else precision) = p" by (simp add: p_def)
  have pb: "\<bar>p\<bar> < 2 ^ 29" using lt w(2) by (auto simp: p_def)
  have wr: "wrap32 x = x" if "\<bar>x\<bar> < 2 ^ 31 - 1" for x using that by (intro wrap32_id) (auto simp: is_s32_def)
  have ws: "wrap32 (sz - 1) = sz - 1" "wrap32 (sz - 2) = sz - 2" "wrap32 (sz - 3) = sz - 3"
    using w(1) by (intro wr; simp)+
  have "?s1 = sz - int (length (sign_text type num))"
    by (auto simp: sign_text_def ws)
  moreover have "int (length (sign_text type num)) \<le> 1" by (simp add: sign_text_def)
  moreover have prefix_length: "int (length (base_prefix type base)) \<le> 2" by (simp add: base_prefix_def)
  ultimately have "?s2 = sz - int (length (sign_text type num)) - int (length (base_prefix type base))"
    by (auto simp: base_prefix_def sign_text_def ws)
  then have "?s2 - p = z" by (simp only: z_def)
  moreover have zb: "\<bar>z\<bar> < 2 ^ 31 - 4"
    using w(1) pb \<open>int (length (sign_text type num)) \<le> 1\<close> prefix_length by (simp add: z_def)
  ultimately have z: "wrap32 (?s2 - p) = z" using wr [of z] by simp
  define z1 where "z1 = (if z > 0 then -1 else z - 1)"
  have pads: "pad c z = (replicate (nat z) c, z1)" "pad c z1 = ([], z1 - 1)" "pad c (z1 - 1) = ([], wrap32 (z1 - 1 - 1))" for c
    using zb wr [of "z - 1"] wr [of "z1 - 1"] by (auto simp: pad_def z1_def)
  have neg: "(ty AND SIGN \<noteq> 0 \<and> sint num < 0) = is_neg type num" by (simp add: ty is_neg_def)
  show ?thesis
    unfolding number_def Let_def ty_def [symmetric] neg ty(2-) sign_text_def [symmetric] num mg [symmetric]
      tmp_def [symmetric] bl if_False p z
    by (simp add: base_prefix_def pads)
qed

text \<open>C23: For every base, width and precision of usual size, \<open>number\<close> writes blanks, a sign, the prefix
  of the base, digits, and blanks again: the digits read in that base are the magnitude of the number,
  also for the smallest negative one; there are at least as many as the precision asks for, and the
  whole text is at least as long as the field. The digits fit into the array \<^verbatim>\<open>tmp\<close>.\<close>

theorem number_prints:
  assumes b: "2 \<le> base" "base \<le> 36" and w: "\<bar>sz\<bar> < 2 ^ 29" "\<bar>precision\<bar> < 2 ^ 29"
  shows "\<exists>lead body trail. number num base sz precision type =
      Some (lead @ sign_text type num @ base_prefix type base @ body @ trail) \<and>
    set lead \<subseteq> {CHR '' ''} \<and> set trail \<subseteq> {CHR '' ''} \<and>
    text_value (nat base) body = magnitude type num \<and> precision \<le> int (length body) \<and>
    sz \<le> int (length (the (number num base sz precision type))) \<and>
    length (tmp_digits (digit_chars type) (nat base) (magnitude type num)) \<le> 32"
proof -
  define tmp where "tmp = (if magnitude type num = 0 then ''0'' else tmp_digits (digit_chars type) (nat base) (magnitude type num))"
  define p where "p = max (int (length tmp)) precision"
  define z where "z = sz - int (length (sign_text type num)) - int (length (base_prefix type base)) - p"
  define lead where "lead = (if type AND LEFT_FLAG = 0 \<and> type AND ZEROPAD = 0 then replicate (nat z) (CHR '' '') else [])"
  define fill where "fill = (if type AND LEFT_FLAG = 0 \<and> type AND ZEROPAD \<noteq> 0 then nat z else 0)"
  define trail where "trail = (if type AND LEFT_FLAG \<noteq> 0 then replicate (nat z) (CHR '' '') else [])"
  define body where "body = replicate (fill + nat (p - int (length tmp))) (CHR ''0'') @ rev tmp"
  have shape: "number num base sz precision type = Some (lead @ sign_text type num @ base_prefix type base @ body @ trail)"
    using number_shape [OF b w, of num type, folded tmp_def, folded p_def, folded z_def]
    by (simp add: lead_def trail_def body_def fill_def replicate_add)
  have "text_value (nat base) (rev tmp) = magnitude type num"
    using text_value_tmp_digits [of "nat base" type] b by (simp add: tmp_def text_value_def digit_value_def)
  then have v: "text_value (nat base) body = magnitude type num" by (simp add: body_def text_value_zeros)
  have "nat z = length lead + fill + length trail" by (simp add: lead_def trail_def fill_def)
  moreover have "int (length body) = int fill + p" "precision \<le> p" by (simp_all add: body_def p_def)
  ultimately have l: "precision \<le> int (length body)"
      "sz \<le> int (length (the (number num base sz precision type)))"
    unfolding shape by (simp_all add: z_def)
  have "set lead \<subseteq> {CHR '' ''}" "set trail \<subseteq> {CHR '' ''}" by (auto simp: lead_def trail_def)
  then show ?thesis
    using shape v l magnitude_digits [of "digit_chars type" "nat base" type num] by blast
qed

subsection \<open>Reading a printed number back\<close>

lemma tmp_digits_decimal:
  "set (tmp_digits (digit_chars type) 10 n) \<subseteq> {c. is_digit c \<and> of_char c = int (digit_value c) + 48}"
proof (induction "digit_chars type" "10 :: nat" n rule: tmp_digits.induct)
  case (1 n)
  have "\<forall>c \<in> set (take 10 (digit_chars type)). is_digit c \<and> of_char c = int (digit_value c) + 48"
    by (simp add: digit_chars_def is_digit_def digit_value_def)
  moreover have "digit_chars type ! (n mod 10) = take 10 (digit_chars type) ! (n mod 10)"
      "n mod 10 < length (take 10 (digit_chars type))"
    by (simp_all add: digit_chars_def)
  ultimately have "is_digit (digit_chars type ! (n mod 10)) \<and>
      of_char (digit_chars type ! (n mod 10)) = int (digit_value (digit_chars type ! (n mod 10))) + 48"
    by (metis nth_mem)
  then show ?case using 1 by (subst tmp_digits.simps) auto
qed

lemma skip_atoi_digits:
  assumes "\<forall>c \<in> set ds. is_digit c \<and> of_char c = int (digit_value c) + 48"
  shows "skip_atoi_from (wrap32 (int v)) ds = (wrap32 (int (foldl (\<lambda>v c. v * 10 + digit_value c) v ds)), [])"
  using assms
proof (induction ds arbitrary: v)
  case (Cons c ds)
  have "wrap32 (wrap32 (int v) * 10 + of_char c - 48) = wrap32 (int (v * 10 + digit_value c))"
    using Cons.prems by (simp add: wrap32_sint algebra_simps)
  then show ?case using Cons.IH [of "v * 10 + digit_value c"] Cons.prems by simp
qed simp

text \<open>What \<^verbatim>\<open>%u\<close> prints, \<open>skip_atoi\<close> reads back: for every word the whole text is consumed and the
  number is the word again, as a signed integer.\<close>

theorem print_read_decimal:
  "\<exists>out. vsprintf strs ''%u'' [v] = Some (out, []) \<and> skip_atoi out = (sint v, []) \<and> text_value 10 out = unat v"
proof -
  define tmp where "tmp = (if unat v = 0 then ''0'' else tmp_digits (digit_chars 0) 10 (unat v))"
  have m: "magnitude 0 v = unat v" by (simp add: magnitude_def is_neg_def)
  have "number v 10 (-1) (-1) 0 = Some (rev tmp)"
    using number_shape [of 10 "-1" "-1" v 0] unfolding m
    by (simp add: tmp_def sign_text_def base_prefix_def is_neg_def)
  then have p: "vsprintf strs ''%u'' [v] = Some (rev tmp, [])"
    by (simp add: vsprintf_def directive_def fmt_width_def fmt_precision_def fmt_qualifier_def conversion_def
        conv_number_def at_def at_digit_def is_digit_def)
  have tv: "text_value 10 (rev tmp) = unat v"
    using text_value_tmp_digits [of 10 0] by (simp add: tmp_def text_value_def digit_value_def)
  have "\<forall>c \<in> set (rev tmp). is_digit c \<and> of_char c = int (digit_value c) + 48"
    using tmp_digits_decimal [of 0 "unat v"] by (auto simp: tmp_def is_digit_def digit_value_def)
  from skip_atoi_digits [OF this, of 0] have "skip_atoi (rev tmp) = (wrap32 (int (text_value 10 (rev tmp))), [])"
    by (simp add: skip_atoi_def text_value_def wrap32_def)
  then have "skip_atoi (rev tmp) = (sint v, [])" by (simp add: tv wrap32_sint)
  with p tv show ?thesis by blast
qed

text \<open>A width given as \<^verbatim>\<open>*\<close> uses up its argument, but as the loop stays on the \<^verbatim>\<open>*\<close> the conversion
  that follows is printed as text.\<close>

lemma star_width_ignored: "vsprintf strs ''%*d'' [w, v] = Some (''%*d'', [])"
  by (simp add: vsprintf_def directive_def fmt_width_def fmt_precision_def fmt_qualifier_def conversion_def
      at_def at_digit_def is_digit_def)

theorem number_prints_witness:
  "\<exists>lead body trail. number 0x80000000 10 14 0 SIGN = Some (lead @ ''-'' @ body @ trail) \<and>
     text_value 10 body = 2147483648"
proof -
  have "sint (0x80000000 :: u32) < 0" by (simp add: sint_uint32)
  then have "is_neg SIGN 0x80000000" "magnitude SIGN 0x80000000 = 2147483648"
    by (simp_all add: is_neg_def magnitude_def sint_uint32)
  with number_prints [of 10 14 0 "0x80000000" SIGN] show ?thesis
    by (auto simp: sign_text_def base_prefix_def)
qed

end
