(* ===== verification/Printk.thy ===== *)
theory Printk
  imports Exec Vsprintf
begin

text \<open>
  Kernel messages: kernel/printk.c and kernel/panic.c on top of \<open>Vsprintf\<close> and \<open>Tty\<close>. \<open>kb\<close> is the address of the static buffer of
  \<^verbatim>\<open>printk\<close>; while the message is written the segment \<^verbatim>\<open>fs\<close> is the kernel's, so that \<^verbatim>\<open>tty_write\<close> reads it from there. The stores
  that \<^verbatim>\<open>%n\<close> makes are not part of the result.
\<close>

subsection \<open>Messages\<close>

definition printk :: "env \<Rightarrow> u32 \<Rightarrow> (u32 \<Rightarrow> string) \<Rightarrow> string \<Rightarrow> u32 list \<Rightarrow> kernel \<Rightarrow> int kres" where
  "printk E kb strs fmt args s =
     (case vsprintf strs fmt args of
        None \<Rightarrow> Fault
      | Some (out, stores) \<Rightarrow>
          if length out \<ge> 1024 then Fault
          else kbind (with_kernel_fs kb (map of_char out) (tty_write E 0 kb (int (length out))) s) (\<lambda>_ s. Ret (int (length out)) s))"

definition panic :: "env \<Rightarrow> u32 \<Rightarrow> (u32 \<Rightarrow> string) \<Rightarrow> u32 \<Rightarrow> kernel \<Rightarrow> unit kres" where
  "panic E kb strs msg s =
     kbind (printk E kb strs (''Kernel panic: %s'' @ [CHR 0x0A, CHR 0x0D]) [msg] s) (\<lambda>_ s.
     kbind (if current s = task s 0 then printk E kb strs (''In swapper task - not syncing'' @ [CHR 0x0A, CHR 0x0D]) [] s
            else sys_sync E s) (\<lambda>_ s. Hang))"

subsection \<open>Output of a terminal\<close>

text \<open>With the flags the console starts with, a newline becomes carriage return and newline, and everything else is passed on.\<close>

definition cooks :: "tty_struct \<Rightarrow> bool" where
  "cooks t \<longleftrightarrow> O_POST t \<and> O_NLCR t \<and> \<not> O_CRNL t \<and> \<not> O_NLRET t \<and> \<not> O_LCUC t"

definition newlines :: "u8 list \<Rightarrow> u8 list" where
  "newlines bs = concat (map (\<lambda>c. if c = 10 then [13, 10] else [c]) bs)"

lemma newlines_simps [simp]: "newlines [] = []" "newlines (c # bs) = (if c = 10 then [13, 10] else [c]) @ newlines bs"
  by (simp_all add: newlines_def)

lemma length_newlines: "length bs \<le> length (newlines bs)"
  by (induction bs) auto

definition fs_bytes :: "u32 \<Rightarrow> u8 list \<Rightarrow> kernel \<Rightarrow> bool" where
  "fs_bytes a bs s \<longleftrightarrow> (\<forall>i < length bs. umem s (a + of_nat i) = bs ! i)"

lemma fs_bytes_Cons: "fs_bytes a (c # bs) s \<longleftrightarrow> umem s a = c \<and> fs_bytes (a + 1) bs s"
proof -
  have "(\<forall>i < Suc n. P i) \<longleftrightarrow> P 0 \<and> (\<forall>i < n. P (Suc i))" for n :: nat and P by (auto simp: less_Suc_eq_0_disj)
  then show ?thesis by (simp add: fs_bytes_def algebra_simps)
qed

lemma sint_char: "sint (c :: u8) = 10 \<longleftrightarrow> c = 10" "sint c = 13 \<longleftrightarrow> c = 13" "word_of_int (sint c) = c"
  using signed_word_eqI [of c 10] signed_word_eqI [of c 13] by auto

lemma put_write_q_step:
  assumes "q_ok (write_q (tty_table s n))" "length (q_items (write_q (tty_table s n))) < 1023"
  shows "q_ok (write_q (tty_table (put_write_q n c s) n))"
    "q_items (write_q (tty_table (put_write_q n c s) n)) = q_items (write_q (tty_table s n)) @ [c]"
    "cooks (tty_table (put_write_q n c s) n) = cooks (tty_table s n)" "umem (put_write_q n c s) = umem s" "cr_flag (put_write_q n c s) = cr_flag s"
    "cur (put_write_q n c s) = cur s"
  using assms ttyq.put_ok ttyq.items_put by (simp_all add: put_write_q_def upd_tty_def cooks_def cur_def)

lemma tty_put_loop:
  assumes "q_ok (write_q (tty_table s n))" "cooks (tty_table s n)" "\<not> cr_flag s" "fs_bytes b bs s"
    "length (q_items (write_q (tty_table s n))) + length (newlines bs) \<le> 1023" "length (newlines bs) < N"
  shows "\<exists>t. kwhile N (tty_put_step n) (b, int (length bs)) s = Ret (b + of_nat (length bs), 0) t \<and>
    q_ok (write_q (tty_table t n)) \<and> q_items (write_q (tty_table t n)) = q_items (write_q (tty_table s n)) @ newlines bs \<and>
    \<not> cr_flag t \<and> umem t = umem s \<and> cur t = cur s"
  using assms
proof (induction bs arbitrary: b s N)
  case Nil
  then have "kwhile N (tty_put_step n) (b, 0) s = Ret (b, 0) s" by (simp add: kwhile_unfold tty_put_step_def)
  then show ?case using Nil by auto
next
  case (Cons c bs)
  let ?len = "\<lambda>s. length (q_items (write_q (tty_table s n)))"
  have c: "umem s b = c" "fs_bytes (b + 1) bs s" using Cons.prems(4) by (simp_all add: fs_bytes_Cons)
  have notfull: "\<not> FULL (write_q (tty_table s n))" if "q_ok (write_q (tty_table s n))" "?len s < 1023" for s
    using that q_tests(2) by simp
  \<comment> \<open>the round that sends \<open>c\<close> itself\<close>
  have send: "\<exists>t. kwhile M (tty_put_step n) (b, int (length (c # bs))) s' = Ret (b + of_nat (length (c # bs)), 0) t \<and>
      q_ok (write_q (tty_table t n)) \<and> q_items (write_q (tty_table t n)) = q_items (write_q (tty_table s' n)) @ c # newlines bs \<and>
      \<not> cr_flag t \<and> umem t = umem s \<and> cur t = cur s"
    if s': "q_ok (write_q (tty_table s' n))" "cooks (tty_table s' n)" "umem s' = umem s" "cur s' = cur s" "c = 10 \<longleftrightarrow> cr_flag s'"
      "?len s' + 1 + length (newlines bs) \<le> 1023" "length (newlines bs) + 1 < M" for s' M
  proof -
    let ?t = "put_write_q n c (s'\<lparr>cr_flag := False\<rparr>)"
    have st: "tty_put_step n (b, int (length (c # bs))) s' = Ret (Inl (b + 1, int (length bs))) ?t"
      using s' c(1) notfull [OF s'(1)] by (auto simp: tty_put_step_def Let_def get_fs_byte_def sint_char cooks_def)
    have q: "q_ok (write_q (tty_table (s'\<lparr>cr_flag := False\<rparr>) n))" "?len (s'\<lparr>cr_flag := False\<rparr>) < 1023" using s' by simp_all
    note p = put_write_q_step [OF q, of c]
    have "fs_bytes (b + 1) bs ?t" using c(2) s'(3) p(4) by (simp add: fs_bytes_def)
    moreover have "cur (s'\<lparr>cr_flag := False\<rparr>) = cur s" using s'(4) by (simp add: cur_def)
    moreover have "length (newlines bs) < M - 1" using s'(7) by simp
    ultimately obtain t where "kwhile (M - 1) (tty_put_step n) (b + 1, int (length bs)) ?t = Ret (b + 1 + of_nat (length bs), 0) t"
        "q_ok (write_q (tty_table t n))" "q_items (write_q (tty_table t n)) = q_items (write_q (tty_table s' n)) @ [c] @ newlines bs"
        "\<not> cr_flag t" "umem t = umem s" "cur t = cur s"
      using Cons.IH [of ?t "b + 1" "M - 1"] p s' by auto
    then show ?thesis using st s'(7) by (auto simp: kwhile_unfold algebra_simps)
  qed
  show ?case
  proof (cases "c = 10")
    case False
    then show ?thesis using send [of s N] Cons.prems by auto
  next
    case True
    let ?s = "put_write_q n 13 (s\<lparr>cr_flag := True\<rparr>)"
    have q: "q_ok (write_q (tty_table (s\<lparr>cr_flag := True\<rparr>) n))" "?len (s\<lparr>cr_flag := True\<rparr>) < 1023" using Cons.prems(1,5) True by simp_all
    note p = put_write_q_step [OF q, of 13]
    have st: "tty_put_step n (b, int (length (c # bs))) s = Ret (Inl (b, int (length (c # bs)))) ?s"
      using Cons.prems True c(1) notfull [of s] by (auto simp: tty_put_step_def Let_def get_fs_byte_def cooks_def)
    have "cur ?s = cur s" using p(6) by (simp add: cur_def)
    moreover have "length (newlines bs) + 1 < N - 1" using Cons.prems(6) True by simp
    ultimately obtain t where "kwhile (N - 1) (tty_put_step n) (b, int (length (c # bs))) ?s = Ret (b + of_nat (length (c # bs)), 0) t"
        "q_ok (write_q (tty_table t n))" "q_items (write_q (tty_table t n)) = q_items (write_q (tty_table s n)) @ 13 # c # newlines bs"
        "\<not> cr_flag t" "umem t = umem s" "cur t = cur s"
      using send [of ?s "N - 1"] p Cons.prems True by auto
    then show ?thesis using st True Cons.prems(6) by (auto simp: kwhile_unfold)
  qed
qed

lemma tty_write_all:
  assumes "n \<le> 2" "bs \<noteq> []" "q_ok (write_q (tty_table s n))" "cooks (tty_table s n)" "\<not> cr_flag s" "fs_bytes buf bs s"
    "length (q_items (write_q (tty_table s n))) + length (newlines bs) \<le> 1023" "length (newlines bs) < fuel E" "t_signal (cur s) = 0"
  shows "\<exists>t. tty_write E n buf (int (length bs)) s = Ret (int (length bs)) (tty_drv E n t) \<and>
    q_items (write_q (tty_table t n)) = q_items (write_q (tty_table s n)) @ newlines bs"
proof -
  obtain t where t: "kwhile (fuel E) (tty_put_step n) (buf, int (length bs)) s = Ret (buf + of_nat (length bs), 0) t"
      "q_items (write_q (tty_table t n)) = q_items (write_q (tty_table s n)) @ newlines bs"
    using tty_put_loop [OF assms(3-8)] by blast
  have l: "0 < length bs" "length bs \<le> length (newlines bs)" using assms(2) length_newlines by auto
  then have f: "0 < fuel E" "0 < fuel E - 1" using assms(8) by linarith+
  have nf: "sleep_if_full E n s = Ret () s" using q_tests(2) [OF assms(3)] assms(7) l by (simp add: sleep_if_full_def)
  have "length bs < 2 ^ 31" using l assms(7) by simp
  then have sl: "sint (of_nat (length bs) :: u32) = int (length bs)" by (simp add: signed_of_nat signed_take_bit_int_eq_self)
  have "tty_write E n buf (int (length bs)) s = Ret (int (length bs)) (tty_drv E n t)"
    using assms(1,9) l(1) f nf t(1) sl by (simp add: tty_write_def kwhile_unfold)
  then show ?thesis using t(2) by blast
qed

lemma tty_write_signalled:
  assumes "n \<le> 2" "bs \<noteq> []" "q_ok (write_q (tty_table s n))"
    "length (q_items (write_q (tty_table s n))) + length (newlines bs) \<le> 1023" "0 < fuel E" "t_signal (cur s) \<noteq> 0"
  shows "tty_write E n buf (int (length bs)) s = Ret 0 s"
proof -
  have l: "0 < length bs" "length bs \<le> length (newlines bs)" using assms(2) length_newlines by auto
  have nf: "sleep_if_full E n s = Ret () s" using q_tests(2) [OF assms(3)] assms(4) l by (simp add: sleep_if_full_def)
  show ?thesis using assms(1,5,6) l(1) nf by (simp add: tty_write_def kwhile_unfold)
qed

text \<open>C22: A kernel message reaches the console unless a signal is pending. When it fits into the buffer and into the write queue of the
  console, with its flags as at the start, and the current task has no signal pending, \<^verbatim>\<open>printk\<close> appends to the queue exactly the
  text that \<^verbatim>\<open>vsprintf\<close> makes of the format and the arguments, each newline with a carriage return before it, hands the queue to the
  driver, and returns the length of the text; user memory is as before. With a signal pending \<^verbatim>\<open>tty_write\<close> breaks off before
  the first character: the message is lost, and \<^verbatim>\<open>printk\<close> returns its length all the same.\<close>

theorem printk_reaches_console:
  assumes "vsprintf strs fmt args = Some (out, st)" "out \<noteq> []" "q_ok (write_q (tty_table s 0))" "cooks (tty_table s 0)" "\<not> cr_flag s"
    "length (q_items (write_q (tty_table s 0))) + length (newlines (map of_char out)) \<le> 1023"
    "length (newlines (map of_char out)) < fuel E"
  shows "if t_signal (cur s) = 0
    then \<exists>t. printk E kb strs fmt args s = Ret (int (length out)) ((tty_drv E 0 t)\<lparr>umem := umem s\<rparr>) \<and>
      q_items (write_q (tty_table t 0)) = q_items (write_q (tty_table s 0)) @ newlines (map of_char out)
    else printk E kb strs fmt args s = Ret (int (length out)) s"
proof -
  let ?bs = "map of_char out :: u8 list"
  let ?s = "s\<lparr>umem := (\<lambda>a. kernel_byte kb ?bs a s)\<rparr>"
  have len: "length out < 1024" using length_newlines [of ?bs] assms(6) by simp
  then have "fs_bytes kb ?bs ?s" by (auto simp: fs_bytes_def kernel_byte_def unat_of_nat32)
  note run = tty_write_all [of 0 ?bs ?s kb E] tty_write_signalled [of 0 ?bs ?s E kb]
  show ?thesis
  proof (cases "t_signal (cur s) = 0")
    case True
    then have "t_signal (cur ?s) = 0" by (simp add: cur_def)
    then obtain t where "tty_write E 0 kb (int (length out)) ?s = Ret (int (length out)) (tty_drv E 0 t)"
        "q_items (write_q (tty_table t 0)) = q_items (write_q (tty_table s 0)) @ newlines ?bs"
      using run(1) assms \<open>fs_bytes kb ?bs ?s\<close> by auto
    then show ?thesis using True len assms(1) by (auto simp: printk_def with_kernel_fs_def)
  next
    case False
    then have "t_signal (cur ?s) \<noteq> 0" by (simp add: cur_def)
    then have "tty_write E 0 kb (int (length out)) ?s = Ret 0 ?s" using run(2) assms by simp
    then show ?thesis using False len assms(1) by (simp add: printk_def with_kernel_fs_def)
  qed
qed

theorem printk_reaches_console_witness:
  "\<exists>t. printk (quiet_env 100) 0x5000 (\<lambda>_. []) (''free: %u'' @ [CHR 0x0A]) [42] (k0\<lparr>tty_table := init_tty_table\<rparr>) = Ret 9 t \<and>
    q_items (write_q (tty_table t 0)) = map of_char ''free: 42'' @ [13, 10]"
proof -
  let ?s = "k0\<lparr>tty_table := init_tty_table\<rparr>" and ?f = "''free: %u'' @ [CHR 0x0A]"
  have v: "vsprintf (\<lambda>_. []) ?f [42] = Some (''free: 42'' @ [CHR 0x0A], [])" by code_simp
  have q: "q_ok (write_q (tty_table ?s 0))" "q_items (write_q (tty_table ?s 0)) = []" "cooks (tty_table ?s 0)" "\<not> cr_flag ?s"
      "t_signal (cur ?s) = 0"
    by (simp_all add: init_tty_table_def Let_def q_ok_def q_items_def CHARS_def zero_queue_def cooks_def k0_def cur_def zero_task_def)
  show ?thesis
    using printk_reaches_console [OF v _ q(1,3,4), of "quiet_env 100" "0x5000"] q(2)
    by (auto simp: quiet_env_def q(5))
qed

end
