(* ===== verification/Ioctl.thy ===== *)
theory Ioctl
  imports Pipe
begin

text \<open>
  Control of terminals: kernel/chr_drv/tty_ioctl.c and fs/ioctl.c. A \<^verbatim>\<open>struct termios\<close> is 36 bytes for the
  user, of which the last two are padding; they are kept as the entries 17 and 18 of \<open>c_cc\<close>. The bytes that
  \<^verbatim>\<open>change_speed\<close> writes to the ports of a serial line are part of the result of \<^verbatim>\<open>tty_ioctl\<close>.
\<close>

subsection \<open>Terminal attributes as bytes\<close>

definition termios_byte :: "termios \<Rightarrow> nat \<Rightarrow> u8" where
  "termios_byte t i =
     (if i < 4 then byte_of32 i (c_iflag t) else if i < 8 then byte_of32 (i - 4) (c_oflag t)
      else if i < 12 then byte_of32 (i - 8) (c_cflag t) else if i < 16 then byte_of32 (i - 12) (c_lflag t)
      else if i = 16 then c_line t else c_cc t (i - 17))"

definition bytes_termios :: "(nat \<Rightarrow> u8) \<Rightarrow> termios \<Rightarrow> termios" where
  "bytes_termios b t =
     \<lparr>c_iflag = le32 b, c_oflag = le32 (\<lambda>k. b (4 + k)), c_cflag = le32 (\<lambda>k. b (8 + k)), c_lflag = le32 (\<lambda>k. b (12 + k)),
      c_line = b 16, c_cc = (\<lambda>k. if k < 19 then b (17 + k) else c_cc t k)\<rparr>"

definition quotient :: "u16 list" where
  "quotient = [0, 2304, 1536, 1047, 857, 768, 576, 384, 192, 96, 64, 48, 24, 12, 6, 3]"

type_synonym port_writes = "(u16 \<times> u8) list"

definition change_speed :: "tty_struct \<Rightarrow> port_writes" where
  "change_speed tty =
     (let port = ucast (q_data (read_q tty)) :: u16;
          quot = quotient ! unat (c_cflag (tty_termios tty) AND 0xf) in
      if port = 0 then []
      else [(port + 3, 0x80), (port, ucast (quot AND 0xff)), (port + 1, ucast (drop_bit 8 quot)), (port + 3, 0x03)])"

definition flush :: "tty_queue \<Rightarrow> tty_queue" where
  "flush queue = queue\<lparr>q_head := q_tail queue\<rparr>"

definition get_termios :: "nat \<Rightarrow> u32 \<Rightarrow> kernel \<Rightarrow> int kres" where
  "get_termios n termios s =
     kbind (verify_area termios 36 s) (\<lambda>_ s.
       Ret 0 (put_fs_bytes (termios_byte (tty_termios (tty_table s n))) 36 termios s))"

definition set_termios :: "nat \<Rightarrow> u32 \<Rightarrow> kernel \<Rightarrow> (int \<times> port_writes) kres" where
  "set_termios n termios s =
     (let s = upd_tty n (\<lambda>t. t\<lparr>tty_termios := bytes_termios (\<lambda>i. get_fs_byte (termios + of_nat i) s) (tty_termios t)\<rparr>) s in
      Ret (0, change_speed (tty_table s n)) s)"

text \<open>The older \<^verbatim>\<open>struct termio\<close> is 18 bytes with one byte of padding, which \<^verbatim>\<open>get_termio\<close> does not set.\<close>

definition termio_byte :: "env \<Rightarrow> termios \<Rightarrow> nat \<Rightarrow> u8" where
  "termio_byte E t i =
     (if i < 2 then byte_of32 i (c_iflag t) else if i < 4 then byte_of32 (i - 2) (c_oflag t)
      else if i < 6 then byte_of32 (i - 4) (c_cflag t) else if i < 8 then byte_of32 (i - 6) (c_lflag t)
      else if i = 8 then c_line t else if i < 17 then c_cc t (i - 9) else junk E i)"

definition get_termio :: "env \<Rightarrow> nat \<Rightarrow> u32 \<Rightarrow> kernel \<Rightarrow> int kres" where
  "get_termio E n termio s =
     kbind (verify_area termio 18 s) (\<lambda>_ s.
       Ret 0 (put_fs_bytes (termio_byte E (tty_termios (tty_table s n))) 18 termio s))"

text \<open>Storing through an \<^verbatim>\<open>unsigned short *\<close> changes the low half of a flag word.\<close>

definition set_low :: "u8 \<Rightarrow> u8 \<Rightarrow> u32 \<Rightarrow> u32" where
  "set_low b0 b1 w = w AND 0xffff0000 OR ucast (le16 b0 b1)"

definition bytes_termio :: "(nat \<Rightarrow> u8) \<Rightarrow> termios \<Rightarrow> termios" where
  "bytes_termio b t =
     \<lparr>c_iflag = set_low (b 0) (b 1) (c_iflag t), c_oflag = set_low (b 2) (b 3) (c_oflag t),
      c_cflag = set_low (b 4) (b 5) (c_cflag t), c_lflag = set_low (b 6) (b 7) (c_lflag t),
      c_line = b 8, c_cc = (\<lambda>k. if k < 8 then b (9 + k) else c_cc t k)\<rparr>"

definition set_termio :: "nat \<Rightarrow> u32 \<Rightarrow> kernel \<Rightarrow> (int \<times> port_writes) kres" where
  "set_termio n termio s =
     (let s = upd_tty n (\<lambda>t. t\<lparr>tty_termios := bytes_termio (\<lambda>i. get_fs_byte (termio + of_nat i) s) (tty_termios t)\<rparr>) s in
      Ret (0, change_speed (tty_table s n)) s)"

subsection \<open>The calls\<close>

text \<open>The switch of \<^verbatim>\<open>tty_ioctl\<close> for terminal \<open>n\<close>.\<close>

definition no_ports :: "int kres \<Rightarrow> (int \<times> port_writes) kres" where
  "no_ports m = kbind m (\<lambda>r s. Ret (r, []) s)"

definition put_user_long :: "(kernel \<Rightarrow> u32) \<Rightarrow> u32 \<Rightarrow> kernel \<Rightarrow> int kres" where
  "put_user_long v arg s = kbind (verify_area arg 4 s) (\<lambda>_ s. Ret 0 (put_fs_long (v s) arg s))"

definition flush_read :: "nat \<Rightarrow> kernel \<Rightarrow> kernel" where
  "flush_read n s = upd_tty n (\<lambda>t. t\<lparr>read_q := flush (read_q t)\<rparr>) s"

definition flush_write :: "nat \<Rightarrow> kernel \<Rightarrow> kernel" where
  "flush_write n s = upd_tty n (\<lambda>t. t\<lparr>write_q := flush (write_q t)\<rparr>) s"

definition tty_cmd :: "env \<Rightarrow> nat \<Rightarrow> u32 \<Rightarrow> u32 \<Rightarrow> kernel \<Rightarrow> (int \<times> port_writes) kres" where
  "tty_cmd E n cmd arg s =
     (if cmd = 0x5401 then no_ports (get_termios n arg s)
      else if cmd = 0x5404 then set_termios n arg (flush_read n s)
      else if cmd = 0x5403 \<or> cmd = 0x5402 then set_termios n arg s
      else if cmd = 0x5405 then no_ports (get_termio E n arg s)
      else if cmd = 0x5408 then set_termio n arg (flush_read n s)
      else if cmd = 0x5407 \<or> cmd = 0x5406 then set_termio n arg s
      else if cmd = 0x5409 then Ret (0, []) s
      else if cmd = 0x540B then
        (if arg = 0 then Ret (0, []) (flush_read n s)
         else if arg = 1 then Ret (0, []) (flush_write n s)
         else if arg = 2 then Ret (0, []) (flush_write n (flush_read n s))
         else Ret (- EINVAL, []) s)
      else if cmd = 0x540F then no_ports (put_user_long (\<lambda>s. word_of_int (tty_pgrp (tty_table s n))) arg s)
      else if cmd = 0x5410 then Ret (0, []) (upd_tty n (\<lambda>t. t\<lparr>tty_pgrp := sint (get_fs_long arg s)\<rparr>) s)
      else if cmd = 0x5411 then no_ports (put_user_long (\<lambda>s. CHARS (write_q (tty_table s n))) arg s)
      else if cmd = 0x541B then no_ports (put_user_long (\<lambda>s. CHARS (secondary (tty_table s n))) arg s)
      else Ret (- EINVAL, []) s)"

text \<open>\<^verbatim>\<open>tty_table\<close> has three entries, and the minor number is not compared with that.\<close>

definition tty_ioctl :: "env \<Rightarrow> u16 \<Rightarrow> u32 \<Rightarrow> u32 \<Rightarrow> kernel \<Rightarrow> (int \<times> port_writes) kres" where
  "tty_ioctl E dev cmd arg s =
     (let n = (if MAJOR dev = 5 then t_tty (cur s) else uint (MINOR dev)) in
      if n < 0 then Panic ''tty_ioctl: dev<0'' s
      else if n \<ge> 3 then Fault
      else tty_cmd E (nat n) cmd arg s)"

definition sys_ioctl :: "env \<Rightarrow> u32 \<Rightarrow> u32 \<Rightarrow> u32 \<Rightarrow> kernel \<Rightarrow> (int \<times> port_writes) kres" where
  "sys_ioctl E fd cmd arg s =
     (case fd_file fd s of
        None \<Rightarrow> Ret (- EBADF, []) s
      | Some f \<Rightarrow>
          (case f_inode (file_table s f) of
             None \<Rightarrow> Fault
           | Some i \<Rightarrow>
               let mode = i_mode (inode_table s i);
                   dev = i_zone (inode_table s i) 0 in
               if \<not> S_ISCHR mode \<and> \<not> S_ISBLK mode then Ret (- EINVAL, []) s
               else if MAJOR dev \<ge> 8 then Ret (- ENODEV, []) s
               else if MAJOR dev \<noteq> 4 \<and> MAJOR dev \<noteq> 5 then Ret (- ENOTTY, []) s
               else tty_ioctl E dev cmd arg s))"

subsection \<open>Attributes survive the round trip\<close>

lemma termios_bytes_inverse: "i < 36 \<Longrightarrow> termios_byte (bytes_termios b t) i = b i"
proof -
  assume "i < 36"
  then consider "i < 4" | "4 \<le> i" "i < 8" | "8 \<le> i" "i < 12" | "12 \<le> i" "i < 16" | "i = 16" | "17 \<le> i" "i < 36" by linarith
  then show ?thesis 
    by cases (auto simp: termios_byte_def bytes_termios_def byte_of32_le32)
qed

lemma tty_ioctl_terminal:
  assumes "(if MAJOR dev = 5 then t_tty (cur s) else uint (MINOR dev)) = int n" "n < 3"
  shows "tty_ioctl E dev cmd arg s = tty_cmd E n cmd arg s"
  using assms(2) unfolding tty_ioctl_def assms(1) by simp

lemma verify_area_frame:
  assumes "verify_area a n s = Ret () t"
  shows "umem t = umem s" "tty_table t = tty_table s" "cur t = cur s"
proof -
  have "mm_only s t" using mm_only_verify_area [of s a n] assms by simp
  then show "umem t = umem s" "tty_table t = tty_table s" "cur t = cur s" by (auto simp: mm_only_def cur_def)
qed

text \<open>The attributes of a terminal survive the round trip through \<^verbatim>\<open>ioctl\<close>: what TCSETS takes from 36 bytes of user memory
  is what a following TCGETS puts back, byte for byte, whether it goes to the terminal by its own device or as
  the controlling terminal; TCSETS does not change any other terminal or the terminal's queues.\<close>

theorem tty_attributes_roundtrip:
  assumes n: "(if MAJOR dev = 5 then t_tty (cur s) else uint (MINOR dev)) = int n" "n < 3"
  shows "\<exists>w t. tty_ioctl E dev 0x5402 a s = Ret (0, w) t \<and>
    tty_table t = (tty_table s)(n := (tty_table s n)\<lparr>tty_termios := tty_termios (tty_table t n)\<rparr>) \<and>
    (\<forall>u. verify_area b 36 t = Ret () u \<longrightarrow>
      (\<exists>v. tty_ioctl E dev 0x5401 b t = Ret (0, []) v \<and> (\<forall>i < 36. umem v (b + of_nat i) = umem s (a + of_nat i))))"
proof -
  define t where "t = upd_tty n (\<lambda>t. t\<lparr>tty_termios := bytes_termios (\<lambda>i. get_fs_byte (a + of_nat i) s) (tty_termios t)\<rparr>) s"
  have ct: "cur t = cur s" by (simp add: t_def upd_tty_def cur_def)
  have "tty_ioctl E dev 0x5402 a s = Ret (0, change_speed (tty_table t n)) t"
    unfolding tty_ioctl_terminal [OF n] by (simp add: tty_cmd_def set_termios_def t_def Let_def)
  moreover have "tty_table t = (tty_table s)(n := (tty_table s n)\<lparr>tty_termios := tty_termios (tty_table t n)\<rparr>)"
    by (simp add: t_def upd_tty_def)
  moreover have "\<exists>v. tty_ioctl E dev 0x5401 b t = Ret (0, []) v \<and> (\<forall>i < 36. umem v (b + of_nat i) = umem s (a + of_nat i))"
    if u: "verify_area b 36 t = Ret () u" for u
  proof -
    let ?d = "termios_byte (tty_termios (tty_table u n))"
    have "tty_ioctl E dev 0x5401 b t = Ret (0, []) (put_fs_bytes ?d 36 b u)"
      unfolding tty_ioctl_terminal [OF n [folded ct]] using u by (simp add: tty_cmd_def get_termios_def no_ports_def)
    moreover have "?d i = umem s (a + of_nat i)" if "i < 36" for i
      using that verify_area_frame [OF u] by (simp add: t_def upd_tty_def termios_bytes_inverse get_fs_byte_def)
    ultimately show ?thesis using put_fs_bytes_umem [of 36 _ ?d b u] by simp
  qed
  ultimately show ?thesis by blast
qed

lemma verify_area_absent:
  assumes "phys s = (\<lambda>_. 0)"
  shows "verify_area a n s = Ret () s"
proof -
  have "write_verify b s = Ret () s" for b using assms by (simp add: write_verify_def)
  then have "kfor (\<lambda>k _ s. write_verify (b k) s) xs () s = Ret () s" for b :: "nat \<Rightarrow> u32" and xs
    by (induction xs) simp_all
  then show ?thesis by (simp add: verify_area_def Let_def)
qed

theorem tty_attributes_roundtrip_witness:
  "\<exists>w t v. tty_ioctl (quiet_env 9) 0x400 0x5402 0x100 (k0\<lparr>umem := (\<lambda>a. ucast a)\<rparr>) = Ret (0, w) t \<and>
     tty_ioctl (quiet_env 9) 0x400 0x5401 0x200 t = Ret (0, []) v \<and> umem v 0x205 = 0x05"
proof -
  let ?s = "k0\<lparr>umem := (\<lambda>a. ucast a)\<rparr>"
  have m: "(if MAJOR 0x400 = 5 then t_tty (cur ?s) else uint (MINOR 0x400)) = int 0" "0 < (3 :: nat)" by (simp_all add: MAJOR_def MINOR_def)
  from tty_attributes_roundtrip [OF m, where E = "quiet_env 9" and a = "0x100" and b = "0x200"]
  obtain w t where wt: "tty_ioctl (quiet_env 9) 0x400 0x5402 0x100 ?s = Ret (0, w) t"
    and r: "\<And>u. verify_area 0x200 36 t = Ret () u \<Longrightarrow> \<exists>v. tty_ioctl (quiet_env 9) 0x400 0x5401 0x200 t = Ret (0, []) v \<and>
       (\<forall>i < 36. umem v (0x200 + of_nat i) = umem ?s (0x100 + of_nat i))" by auto
  have "phys t = (\<lambda>_. 0)" 
    using wt unfolding tty_ioctl_terminal [OF m] by (auto simp: tty_cmd_def set_termios_def Let_def upd_tty_def) (simp add: k0_def)
  then have "verify_area 0x200 36 t = Ret () t" by (rule verify_area_absent)
  then obtain v where v: "tty_ioctl (quiet_env 9) 0x400 0x5401 0x200 t = Ret (0, []) v"
      "\<forall>i < 36. umem v (0x200 + of_nat i) = umem ?s (0x100 + of_nat i)" using r by blast
  from v(2) [rule_format, of 5] have "umem v 0x205 = 0x05" by simp
  then show ?thesis using wt v(1) by blast
qed

end
