(* ===== verification/Malloc.thy ===== *)
theory Malloc
  imports Mm
begin

text \<open>
  The kernel's memory allocator, lib/malloc.c: pages cut into objects of one size, the free objects of a page chained
  through their first word, and a bucket descriptor for every page. Descriptors are in a store of their own, addressed by the
  pointer, as they never share a page with objects; the links of the free objects are words of physical
  memory. Turning interrupts off (\<^verbatim>\<open>cli\<close>) is not modelled, so nothing happens between two statements.
\<close>

subsection \<open>State\<close>

record bucket_desc =
  bd_page :: u32
  bd_next :: u32
  bd_freeptr :: u32
  bd_refcnt :: u16
  bd_bucket_size :: u16

record malloc_state =
  bdescs :: "u32 \<Rightarrow> bucket_desc"
  bucket_chain :: "nat \<Rightarrow> u32"
  free_bucket_desc :: u32

text \<open>The sizes of \<^verbatim>\<open>bucket_dir\<close> before the end marker.\<close>

definition bucket_size :: "nat \<Rightarrow> nat" where
  "bucket_size i = 16 * 2 ^ i"

abbreviation (input) "NR_BUCKETS \<equiv> (9 :: nat)"

definition zero_bdesc :: bucket_desc where
  "zero_bdesc = \<lparr>bd_page = 0, bd_next = 0, bd_freeptr = 0, bd_refcnt = 0, bd_bucket_size = 0\<rparr>"

definition upd_bdesc :: "u32 \<Rightarrow> (bucket_desc \<Rightarrow> bucket_desc) \<Rightarrow> malloc_state \<Rightarrow> malloc_state" where
  "upd_bdesc b f m = m\<lparr>bdescs := (bdescs m)(b := f (bdescs m b))\<rparr>"

subsection \<open>Allocation\<close>

text \<open>The 256 descriptors of a fresh page, which is all zeros, linked one to the next and the last to the old list.\<close>

definition init_bucket_desc :: "malloc_state \<Rightarrow> kernel \<Rightarrow> malloc_state kres" where
  "init_bucket_desc m s =
     (let (first, s) = get_free_page s in
      if first = 0 then Panic ''Out of memory in init_bucket_desc()'' s
      else Ret (m\<lparr>bdescs := fold (\<lambda>k d. d(first + of_nat (16 * k) := zero_bdesc\<lparr>bd_next :=
                    if k < 255 then first + of_nat (16 * (k + 1)) else free_bucket_desc m\<rparr>)) [0..<256] (bdescs m),
                  free_bucket_desc := first\<rparr>) s)"

text \<open>The chain of free objects of \<open>sz\<close> bytes in the page \<open>cp\<close>.\<close>

definition link_objects :: "u32 \<Rightarrow> nat \<Rightarrow> kernel \<Rightarrow> kernel" where
  "link_objects cp sz s =
     fold (\<lambda>k s. set_phys (cp + of_nat (k * sz)) (if k + 1 < 4096 div sz then cp + of_nat ((k + 1) * sz) else 0) s)
       [0..<4096 div sz] s"

definition new_bucket :: "nat \<Rightarrow> malloc_state \<Rightarrow> kernel \<Rightarrow> (u32 \<times> malloc_state) kres" where
  "new_bucket i m s =
     kbind (if free_bucket_desc m = 0 then init_bucket_desc m s else Ret m s) (\<lambda>m s.
       let b = free_bucket_desc m;
           m = m\<lparr>free_bucket_desc := bd_next (bdescs m b)\<rparr>;
           (cp, s) = get_free_page s;
           m = upd_bdesc b (\<lambda>d. d\<lparr>bd_refcnt := 0, bd_bucket_size := of_nat (bucket_size i), bd_page := cp, bd_freeptr := cp\<rparr>) m in
       if cp = 0 then Panic ''Out of memory in kernel malloc()'' s
       else let m = upd_bdesc b (\<lambda>d. d\<lparr>bd_next := bucket_chain m i\<rparr>) m in
         Ret (b, m\<lparr>bucket_chain := (bucket_chain m)(i := b)\<rparr>) (link_objects cp (bucket_size i) s))"

text \<open>A descriptor of the chain from \<open>b\<close> on that has a free object, or 0.\<close>

definition find_free_bucket :: "env \<Rightarrow> malloc_state \<Rightarrow> u32 \<Rightarrow> kernel \<Rightarrow> u32 kres" where
  "find_free_bucket E m b s =
     kwhile (fuel E) (\<lambda>b s. if b = 0 \<or> bd_freeptr (bdescs m b) \<noteq> 0 then Ret (Inr b) s
                            else Ret (Inl (bd_next (bdescs m b))) s) b s"

definition malloc :: "env \<Rightarrow> u32 \<Rightarrow> malloc_state \<Rightarrow> kernel \<Rightarrow> (u32 \<times> malloc_state) kres" where
  "malloc E len m s =
     (case find (\<lambda>i. bucket_size i \<ge> unat len) [0..<NR_BUCKETS] of
        None \<Rightarrow> Panic ''malloc: bad arg'' s
      | Some i \<Rightarrow>
          kbind (find_free_bucket E m (bucket_chain m i) s) (\<lambda>b s.
          kbind (if b = 0 then new_bucket i m s else Ret (b, m) s) (\<lambda>(b, m) s.
            let retval = bd_freeptr (bdescs m b) in
            Ret (retval, upd_bdesc b (\<lambda>d. d\<lparr>bd_freeptr := phys s retval, bd_refcnt := bd_refcnt d + 1\<rparr>) m) s)))"

subsection \<open>Release\<close>

text \<open>The descriptor of a page in one chain, with its predecessor (0 for the first).\<close>

definition find_page :: "env \<Rightarrow> malloc_state \<Rightarrow> u32 \<Rightarrow> u32 \<Rightarrow> kernel \<Rightarrow> (u32 \<times> u32) option kres" where
  "find_page E m page b s =
     kwhile (fuel E) (\<lambda>(prev, b) s.
       if b = 0 then Ret (Inr None) s
       else if bd_page (bdescs m b) = page then Ret (Inr (Some (prev, b))) s
       else Ret (Inl (b, bd_next (bdescs m b))) s) (0, b) s"

text \<open>The search through the directory; \<open>sz\<close> is the size the caller of \<^verbatim>\<open>free_s\<close> gives, or 0.\<close>

fun find_bucket :: "env \<Rightarrow> malloc_state \<Rightarrow> u32 \<Rightarrow> int \<Rightarrow> nat list \<Rightarrow> kernel \<Rightarrow> (nat \<times> u32 \<times> u32) option kres" where
  "find_bucket E m page sz [] s = Ret None s"
| "find_bucket E m page sz (i # is) s =
     (if int (bucket_size i) < sz then find_bucket E m page sz is s
      else kbind (find_page E m page (bucket_chain m i) s) (\<lambda>r s.
        case r of Some (prev, b) \<Rightarrow> Ret (Some (i, prev, b)) s | None \<Rightarrow> find_bucket E m page sz is s))"

text \<open>The search for the predecessor again, when it is no longer accurate.\<close>

definition find_prev :: "env \<Rightarrow> malloc_state \<Rightarrow> u32 \<Rightarrow> u32 \<Rightarrow> kernel \<Rightarrow> u32 kres" where
  "find_prev E m b p s =
     kwhile (fuel E) (\<lambda>p s. if p = 0 \<or> bd_next (bdescs m p) = b then Ret (Inr p) s
                            else Ret (Inl (bd_next (bdescs m p))) s) p s"

definition unlink_bucket :: "env \<Rightarrow> nat \<Rightarrow> u32 \<Rightarrow> u32 \<Rightarrow> malloc_state \<Rightarrow> kernel \<Rightarrow> malloc_state kres" where
  "unlink_bucket E i prev b m s =
     kbind (if prev \<noteq> 0 \<and> bd_next (bdescs m prev) \<noteq> b \<or> prev = 0 \<and> bucket_chain m i \<noteq> b
            then find_prev E m b (bucket_chain m i) s else Ret prev s) (\<lambda>prev s.
     kbind (if prev \<noteq> 0 then Ret (upd_bdesc prev (\<lambda>d. d\<lparr>bd_next := bd_next (bdescs m b)\<rparr>) m) s
            else if bucket_chain m i \<noteq> b then Panic ''malloc bucket chains corrupted'' s
            else Ret (m\<lparr>bucket_chain := (bucket_chain m)(i := bd_next (bdescs m b))\<rparr>) s) (\<lambda>m s.
     kbind (free_page (bd_page (bdescs m b)) s) (\<lambda>_ s.
       Ret ((upd_bdesc b (\<lambda>d. d\<lparr>bd_next := free_bucket_desc m\<rparr>) m)\<lparr>free_bucket_desc := b\<rparr>) s)))"

definition free_s :: "env \<Rightarrow> u32 \<Rightarrow> int \<Rightarrow> malloc_state \<Rightarrow> kernel \<Rightarrow> malloc_state kres" where
  "free_s E obj sz m s =
     kbind (find_bucket E m (obj AND PAGE_MASK) sz [0..<NR_BUCKETS] s) (\<lambda>r s.
       case r of
         None \<Rightarrow> Panic ''Bad address passed to kernel free_s()'' s
       | Some (i, prev, b) \<Rightarrow>
           let s = set_phys obj (bd_freeptr (bdescs m b)) s;
               m = upd_bdesc b (\<lambda>d. d\<lparr>bd_freeptr := obj, bd_refcnt := bd_refcnt d - 1\<rparr>) m in
           if bd_refcnt (bdescs m b) = 0 then unlink_bucket E i prev b m s else Ret m s)"

subsection \<open>Pointer chains\<close>

fun bchain :: "(u32 \<Rightarrow> u32) \<Rightarrow> u32 \<Rightarrow> u32 list \<Rightarrow> bool" where
  "bchain nx a [] \<longleftrightarrow> a = 0"
| "bchain nx a (b # bs) \<longleftrightarrow> a = b \<and> b \<noteq> 0 \<and> bchain nx (nx b) bs"

lemma bchain_cong: "(\<And>b. b \<in> set bs \<Longrightarrow> nx b = nx' b) \<Longrightarrow> bchain nx a bs = bchain nx' a bs"
  by (induction bs arbitrary: a) simp_all

lemma bchain_upd: "p \<notin> set bs \<Longrightarrow> bchain (nx(p := q)) a bs = bchain nx a bs"
  by (rule bchain_cong) auto

lemma bchain_nz: "bchain nx a bs \<Longrightarrow> 0 \<notin> set bs"
  by (induction bs arbitrary: a) auto

lemma bchain_hd: "bchain nx a bs \<Longrightarrow> a = (if bs = [] then 0 else hd bs)"
  by (cases bs) auto

lemma bchain_remove:
  "bchain nx a (xs @ p # b # ys) \<Longrightarrow> distinct (xs @ p # b # ys) \<Longrightarrow> bchain (nx(p := nx b)) a (xs @ p # ys)"
  by (induction xs arbitrary: a) (auto simp: bchain_upd)

text \<open>Walking a chain finds its first element with a property.\<close>

lemma kwhile_chain:
  assumes "bchain nx a bs" "length bs < n"
  shows "kwhile n (\<lambda>b s. if b = 0 \<or> P b then Ret (Inr b) s else Ret (Inl (nx b)) s) a s =
    Ret (case find P bs of None \<Rightarrow> 0 | Some b \<Rightarrow> b) s"
  using assms
proof (induction bs arbitrary: a n)
  case Nil
  then show ?case by (cases n) simp_all
next
  case (Cons b bs)
  then obtain n' where "n = Suc n'" by (cases n) auto
  with Cons show ?case by simp
qed

lemma kwhile_chain_prev:
  assumes "bchain nx a bs" "length bs < n"
  shows "kwhile n (\<lambda>(prev, b) s. if b = 0 then Ret (Inr None) s else if P b then Ret (Inr (Some (prev, b))) s
      else Ret (Inl (b, nx b)) s) (p, a) s =
    Ret (case find P bs of None \<Rightarrow> None | Some b \<Rightarrow> Some (last (p # takeWhile (\<lambda>c. \<not> P c) bs), b)) s"
  using assms
proof (induction bs arbitrary: a n p)
  case Nil
  then show ?case by (cases n) simp_all
next
  case (Cons b bs)
  then obtain n' where "n = Suc n'" by (cases n) auto
  with Cons show ?case by (simp split: option.split)
qed

subsection \<open>The objects of a page\<close>

definition objects :: "u32 \<Rightarrow> nat \<Rightarrow> u32 set" where
  "objects p sz = (\<lambda>k. p + of_nat (k * sz)) ` {..<4096 div sz}"

lemma bucket_sizes:
  assumes "i < NR_BUCKETS"
  shows "16 \<le> bucket_size i" "bucket_size i \<le> 4096" "4096 div bucket_size i * bucket_size i = 4096"
    "0 < 4096 div bucket_size i" "4096 div bucket_size i \<le> 256"
proof -
  have "i \<in> {..<9}" using assms by simp
  then have "i \<in> {0, 1, 2, 3, 4, 5, 6, 7, 8}" by auto
  then show "16 \<le> bucket_size i" "bucket_size i \<le> 4096" "4096 div bucket_size i * bucket_size i = 4096"
    "0 < 4096 div bucket_size i" "4096 div bucket_size i \<le> 256"
    by (auto simp: bucket_size_def)
qed

lemma object_offset:
  assumes "i < NR_BUCKETS" "k < 4096 div bucket_size i"
  shows "k * bucket_size i + bucket_size i \<le> 4096"
proof -
  have "Suc k * bucket_size i \<le> 4096 div bucket_size i * bucket_size i" using assms(2) by (intro mult_le_mono1) simp
  then show ?thesis using bucket_sizes(3) [OF assms(1)] by simp
qed

lemma frame_addr:
  assumes "is_frame p" "j < 4096"
  shows "unat (p + of_nat j) = unat p + j" "(p + of_nat j) AND PAGE_MASK = p" "p + of_nat j \<noteq> 0"
proof -
  obtain n where n: "n < PAGING_PAGES" "p = page_of_nr n" using assms(1) by (auto simp: is_frame_iff)
  have u: "unat p = 4096 * n + 0x100000" using n unat_page_of_nr by simp
  have "p + of_nat j = of_nat (unat p + j)" by simp
  moreover have "unat p + j < 2 ^ 32" using u n(1) assms(2) by simp
  ultimately show v: "unat (p + of_nat j) = unat p + j" by (simp only: unat_of_nat32)
  then show "p + of_nat j \<noteq> 0" using u by auto
  have "unat ((p + of_nat j) AND PAGE_MASK) = unat p"
  proof -
    have "4096 * n + 0x100000 + j = j + 4096 * (n + 256)" by simp
    then show ?thesis unfolding unat_and_mask v u using assms(2) by (simp only: div_mult_self2) simp
  qed
  then show "(p + of_nat j) AND PAGE_MASK = p" by (simp add: word_unat_eq_iff)
qed

lemma object_addr:
  assumes "is_frame p" "i < NR_BUCKETS" "a \<in> objects p (bucket_size i)"
  shows "\<exists>k. k < 4096 div bucket_size i \<and> a = p + of_nat (k * bucket_size i) \<and> unat a = unat p + k * bucket_size i"
    "a AND PAGE_MASK = p" "a \<noteq> 0"
proof -
  obtain k where k: "k < 4096 div bucket_size i" "a = p + of_nat (k * bucket_size i)"
    using assms(3) by (auto simp: objects_def)
  have l: "k * bucket_size i < 4096" using object_offset [OF assms(2) k(1)] bucket_sizes(1) [OF assms(2)] by linarith
  note f = frame_addr [OF assms(1) l]
  show "\<exists>k. k < 4096 div bucket_size i \<and> a = p + of_nat (k * bucket_size i) \<and> unat a = unat p + k * bucket_size i"
    "a AND PAGE_MASK = p" "a \<noteq> 0" using k f by auto
qed

subsection \<open>The invariant of the heap\<close>

text \<open>\<open>C i\<close> are the descriptors of the chain for objects of size \<open>bucket_size i\<close>, \<open>F\<close> the free descriptors, \<open>fl b\<close> the free
  objects of the page of \<open>b\<close>.\<close>

definition used :: "(nat \<Rightarrow> u32 list) \<Rightarrow> u32 set" where
  "used C = (\<Union>i<NR_BUCKETS. set (C i))"

definition bucket_at :: "malloc_state \<Rightarrow> kernel \<Rightarrow> nat \<Rightarrow> u32 \<Rightarrow> u32 list \<Rightarrow> bool" where
  "bucket_at m s i b fl \<longleftrightarrow>
     0 < page_refs s (bd_page (bdescs m b)) \<and> bchain (phys s) (bd_freeptr (bdescs m b)) fl \<and> distinct fl \<and>
     set fl \<subseteq> objects (bd_page (bdescs m b)) (bucket_size i) \<and>
     unat (bd_refcnt (bdescs m b)) + length fl = 4096 div bucket_size i \<and>
     unat (bd_bucket_size (bdescs m b)) = bucket_size i"

definition heap_at :: "malloc_state \<Rightarrow> kernel \<Rightarrow> (nat \<Rightarrow> u32 list) \<Rightarrow> u32 list \<Rightarrow> (u32 \<Rightarrow> u32 list) \<Rightarrow> bool" where
  "heap_at m s C F fl \<longleftrightarrow> high_used s \<and>
     (\<forall>i < NR_BUCKETS. bchain (\<lambda>b. bd_next (bdescs m b)) (bucket_chain m i) (C i) \<and> distinct (C i) \<and> set (C i) \<inter> set F = {} \<and>
        (\<forall>j < NR_BUCKETS. i \<noteq> j \<longrightarrow> set (C i) \<inter> set (C j) = {}) \<and> (\<forall>b \<in> set (C i). bucket_at m s i b (fl b))) \<and>
     bchain (\<lambda>b. bd_next (bdescs m b)) (free_bucket_desc m) F \<and> distinct F \<and>
     (\<forall>b \<in> used C. \<forall>c \<in> used C. bd_page (bdescs m b) = bd_page (bdescs m c) \<longrightarrow> b = c) \<and>
     (\<forall>b \<in> used C \<union> set F. 0 < page_refs s (b AND PAGE_MASK) \<and> (\<forall>c \<in> used C. b AND PAGE_MASK \<noteq> bd_page (bdescs m c)))"

text \<open>The objects in use, with their sizes.\<close>

definition live :: "malloc_state \<Rightarrow> (nat \<Rightarrow> u32 list) \<Rightarrow> (u32 \<Rightarrow> u32 list) \<Rightarrow> (u32 \<times> nat) set" where
  "live m C fl = {(a, bucket_size i) |a i b. i < NR_BUCKETS \<and> b \<in> set (C i) \<and>
     a \<in> objects (bd_page (bdescs m b)) (bucket_size i) \<and> a \<notin> set (fl b)}"

lemma liveI:
  "i < NR_BUCKETS \<Longrightarrow> b \<in> set (C i) \<Longrightarrow> a \<in> objects (bd_page (bdescs m b)) (bucket_size i) \<Longrightarrow> a \<notin> set (fl b) \<Longrightarrow>
     (a, bucket_size i) \<in> live m C fl"
  by (auto simp: live_def)

lemma liveE:
  assumes "x \<in> live m C fl"
  obtains a i b where "x = (a, bucket_size i)" "i < NR_BUCKETS" "b \<in> set (C i)"
    "a \<in> objects (bd_page (bdescs m b)) (bucket_size i)" "a \<notin> set (fl b)"
  using assms by (auto simp: live_def)

lemma in_used: "i < NR_BUCKETS \<Longrightarrow> b \<in> set (C i) \<Longrightarrow> b \<in> used C"
  by (auto simp: used_def)

lemma heap_atD:
  assumes "heap_at m s C F fl"
  shows "high_used s" "i < NR_BUCKETS \<Longrightarrow> bchain (\<lambda>b. bd_next (bdescs m b)) (bucket_chain m i) (C i)"
    "i < NR_BUCKETS \<Longrightarrow> distinct (C i)" "i < NR_BUCKETS \<Longrightarrow> set (C i) \<inter> set F = {}"
    "i < NR_BUCKETS \<Longrightarrow> j < NR_BUCKETS \<Longrightarrow> i \<noteq> j \<Longrightarrow> set (C i) \<inter> set (C j) = {}"
    "i < NR_BUCKETS \<Longrightarrow> b \<in> set (C i) \<Longrightarrow> bucket_at m s i b (fl b)"
    "bchain (\<lambda>b. bd_next (bdescs m b)) (free_bucket_desc m) F" "distinct F"
    "b \<in> used C \<Longrightarrow> c \<in> used C \<Longrightarrow> bd_page (bdescs m b) = bd_page (bdescs m c) \<Longrightarrow> b = c"
    "b \<in> used C \<union> set F \<Longrightarrow> 0 < page_refs s (b AND PAGE_MASK)"
    "b \<in> used C \<union> set F \<Longrightarrow> c \<in> used C \<Longrightarrow> b AND PAGE_MASK \<noteq> bd_page (bdescs m c)"
  using assms unfolding heap_at_def by blast+

lemma page_refs_frame: "0 < page_refs s p \<Longrightarrow> is_frame p"
  by (auto simp: page_refs_def split: if_splits)

lemma bucket_page:
  assumes "heap_at m s C F fl" "i < NR_BUCKETS" "b \<in> set (C i)"
  shows "is_frame (bd_page (bdescs m b))"
  using heap_atD(6) [OF assms] page_refs_frame by (auto simp: bucket_at_def)

lemma bucket_at_frame:
  assumes "bucket_at m s i b fl" "i < NR_BUCKETS" "\<And>p. 0 < page_refs s p \<Longrightarrow> 0 < page_refs t p"
    "\<And>a. 0 < page_refs s (a AND PAGE_MASK) \<Longrightarrow> phys t a = phys s a"
  shows "bucket_at m t i b fl"
proof -
  have fr: "0 < page_refs s (bd_page (bdescs m b))" "is_frame (bd_page (bdescs m b))"
    using assms(1) page_refs_frame by (auto simp: bucket_at_def)
  have "phys t a = phys s a" if "a \<in> set fl" for a
    using that assms(1) object_addr(2) [OF fr(2) assms(2)] fr(1) by (intro assms(4)) (auto simp: bucket_at_def)
  then have "bchain (phys t) (bd_freeptr (bdescs m b)) fl = bchain (phys s) (bd_freeptr (bdescs m b)) fl" by (rule bchain_cong)
  then show ?thesis using assms(1,3) by (simp add: bucket_at_def)
qed

lemma heap_at_frame:
  assumes h: "heap_at m s C F fl" and t: "\<And>p. 0 < page_refs s p \<Longrightarrow> 0 < page_refs t p"
    "\<And>a. 0 < page_refs s (a AND PAGE_MASK) \<Longrightarrow> phys t a = phys s a" "high_used t"
  shows "heap_at m t C F fl"
  unfolding heap_at_def
  using heap_atD [OF h] t(1,3) bucket_at_frame [OF heap_atD(6) [OF h] _ t(1,2)] by (intro conjI allI impI ballI) blast+

lemma get_free_page_frame:
  assumes "high_used s" "get_free_page s = (p, t)" "p \<noteq> 0"
  shows "page_refs s p = 0" "page_refs t = (page_refs s)(p := 1)" "high_used t" "is_frame p"
    "a AND PAGE_MASK \<noteq> p \<Longrightarrow> phys t a = phys s a"
proof -
  show a: "page_refs s p = 0" "page_refs t = (page_refs s)(p := 1)" "high_used t"
    using pages.alloc_page [OF assms] by auto
  then show "is_frame p" using page_refs_frame [of t p] by simp
  show "a AND PAGE_MASK \<noteq> p \<Longrightarrow> phys t a = phys s a" using get_free_page_Some [OF assms(2,3)] by auto
qed

lemma heap_at_get_free_page:
  assumes h: "heap_at m s C F fl" and g: "get_free_page s = (p, t)" "p \<noteq> 0"
  shows "heap_at m t C F fl"
proof -
  note f = get_free_page_frame [OF heap_atD(1) [OF h] g]
  show ?thesis
  proof (rule heap_at_frame [OF h])
    show "0 < page_refs t q" if "0 < page_refs s q" for q using that f(2) by simp
    show "phys t a = phys s a" if "0 < page_refs s (a AND PAGE_MASK)" for a using that f(1) by (intro f(5)) auto
  qed (rule f(3))
qed

subsection \<open>Taking and returning an object\<close>

text \<open>Changing only free pointer and count of one descriptor, and memory only in its page, changes only its bucket.\<close>

lemma heap_at_bucket:
  assumes h: "heap_at m s C F fl" and i: "i < NR_BUCKETS" "b \<in> set (C i)"
    and m': "m' = upd_bdesc b (\<lambda>d. d\<lparr>bd_freeptr := fp, bd_refcnt := rc\<rparr>) m" and t: "page_refs t = page_refs s" "high_used t"
    and ph: "\<And>a. a AND PAGE_MASK \<noteq> bd_page (bdescs m b) \<Longrightarrow> phys t a = phys s a"
    and b': "bucket_at m' t i b fl'"
  shows "heap_at m' t C F (fl(b := fl'))"
proof -
  have nx: "(\<lambda>c. bd_next (bdescs m' c)) = (\<lambda>c. bd_next (bdescs m c))" "bd_page (bdescs m' c) = bd_page (bdescs m c)"
      "bucket_chain m' = bucket_chain m" "free_bucket_desc m' = free_bucket_desc m" for c
    by (auto simp: m' upd_bdesc_def)
  have bu: "bucket_at m' t j c ((fl(b := fl')) c)" if j: "j < NR_BUCKETS" "c \<in> set (C j)" for j c
  proof (cases "c = b")
    case True
    then have "j = i" using heap_atD(5) [OF h i(1) j(1)] i j by auto
    then show ?thesis using b' True by simp
  next
    case False
    then have pg: "bd_page (bdescs m c) \<noteq> bd_page (bdescs m b)"
      using heap_atD(9) [OF h, of c b] in_used i j by blast
    have cb: "bucket_at m s j c (fl c)" using heap_atD(6) [OF h j] .
    have "phys t a = phys s a" if "a \<in> set (fl c)" for a
      using that cb object_addr(2) [OF bucket_page [OF h j] j(1)] pg by (intro ph) (auto simp: bucket_at_def)
    then have "bchain (phys t) x (fl c) = bchain (phys s) x (fl c)" for x by (rule bchain_cong)
    then show ?thesis using cb False t(1) by (simp add: bucket_at_def m' upd_bdesc_def)
  qed
  show ?thesis
    unfolding heap_at_def nx t(1) using heap_atD [OF h] t(2) bu by (intro conjI allI impI ballI) blast+
qed

lemma bucket_unique: "heap_at m s C F fl \<Longrightarrow> i < NR_BUCKETS \<Longrightarrow> b \<in> set (C i) \<Longrightarrow> b \<in> set (C j) \<Longrightarrow> j < NR_BUCKETS \<Longrightarrow> j = i"
  using heap_atD(5) by blast

lemma live_take:
  assumes i: "i < NR_BUCKETS" "b \<in> set (C i)" and one: "\<And>j. b \<in> set (C j) \<Longrightarrow> j < NR_BUCKETS \<Longrightarrow> j = i"
  and f: "fl b = r # rest" and nr: "r \<notin> set rest" and ro: "r \<in> objects (bd_page (bdescs m b)) (bucket_size i)"
  and pg: "\<And>c. bd_page (bdescs m' c) = bd_page (bdescs m c)"
  shows "live m' C (fl(b := rest)) = insert (r, bucket_size i) (live m C fl)"
proof (intro equalityI subsetI)
  fix x assume "x \<in> live m' C (fl(b := rest))"
  then obtain a j c where x: "x = (a, bucket_size j)" "j < NR_BUCKETS" "c \<in> set (C j)"
    "a \<in> objects (bd_page (bdescs m c)) (bucket_size j)" "a \<notin> set ((fl(b := rest)) c)" by (rule liveE) (simp add: pg)
  show "x \<in> insert (r, bucket_size i) (live m C fl)"
  proof (cases "c = b \<and> a = r")
    case True
    then show ?thesis using x one by auto
  next
    case False
    then have "a \<notin> set (fl c)" using x(5) f by (auto split: if_splits)
    then show ?thesis using x liveI by blast
  qed
  next
  fix x assume "x \<in> insert (r, bucket_size i) (live m C fl)"
  then show "x \<in> live m' C (fl(b := rest))"
  proof
    assume "x = (r, bucket_size i)"
    then show ?thesis using liveI [of i b C r m' "fl(b := rest)"] i ro nr pg by simp
  next
    assume "x \<in> live m C fl"
    then obtain a j c where x: "x = (a, bucket_size j)" "j < NR_BUCKETS" "c \<in> set (C j)"
      "a \<in> objects (bd_page (bdescs m c)) (bucket_size j)" "a \<notin> set (fl c)" by (rule liveE)
    then show ?thesis using liveI [of j c C a m' "fl(b := rest)"] f pg by (cases "c = b") auto
  qed
  qed

lemma take_object:
  assumes h: "heap_at m s C F fl" and i: "i < NR_BUCKETS" "b \<in> set (C i)" and f: "fl b = r # rest"
    and m': "m' = upd_bdesc b (\<lambda>d. d\<lparr>bd_freeptr := phys s r, bd_refcnt := bd_refcnt d + 1\<rparr>) m"
  shows "bd_freeptr (bdescs m b) = r" "heap_at m' s C F (fl(b := rest))" "live m' C (fl(b := rest)) = insert (r, bucket_size i) (live m C fl)"
    "r \<in> objects (bd_page (bdescs m b)) (bucket_size i)" "bd_refcnt (bdescs m' b) \<noteq> 0"
    "c \<noteq> b \<Longrightarrow> bdescs m' c = bdescs m c"
proof -
  have B: "bucket_at m s i b (r # rest)" using heap_atD(6) [OF h i] f by simp
  then show r: "bd_freeptr (bdescs m b) = r" "r \<in> objects (bd_page (bdescs m b)) (bucket_size i)" by (auto simp: bucket_at_def)
  show "c \<noteq> b \<Longrightarrow> bdescs m' c = bdescs m c" by (simp add: m' upd_bdesc_def)
  have "unat (bd_refcnt (bdescs m b)) < 256" using B bucket_sizes(5) [OF i(1)] by (auto simp: bucket_at_def)
  then have rc: "unat (bd_refcnt (bdescs m b) + 1) = unat (bd_refcnt (bdescs m b)) + 1" by (simp add: unat_word_ariths)
  then show "bd_refcnt (bdescs m' b) \<noteq> 0" by (auto simp: m' upd_bdesc_def)
  have "bucket_at m' s i b rest" using B rc by (auto simp: bucket_at_def m' upd_bdesc_def)
  then show "heap_at m' s C F (fl(b := rest))"
    using m' h heap_atD(1) [OF h] by (intro heap_at_bucket [OF h i, where fp = "phys s r" and rc = "bd_refcnt (bdescs m b) + 1"])
      (simp_all add: upd_bdesc_def)
  have nr: "r \<notin> set rest" using B by (simp add: bucket_at_def)
  have pg: "bd_page (bdescs m' c) = bd_page (bdescs m c)" for c by (simp add: m' upd_bdesc_def)
  show "live m' C (fl(b := rest)) = insert (r, bucket_size i) (live m C fl)"
    by (rule live_take [of i b C fl r rest m m', OF i bucket_unique [OF h i] f nr r(2) pg])
qed

lemma live_object:
  assumes h: "heap_at m s C F fl" and i: "i < NR_BUCKETS" "b \<in> set (C i)"
    and a: "(a, n) \<in> live m C fl" "a AND PAGE_MASK = bd_page (bdescs m b)"
  shows "n = bucket_size i" "a \<in> objects (bd_page (bdescs m b)) (bucket_size i)" "a \<notin> set (fl b)"
proof -
  obtain j c where x: "n = bucket_size j" "j < NR_BUCKETS" "c \<in> set (C j)"
      "a \<in> objects (bd_page (bdescs m c)) (bucket_size j)" "a \<notin> set (fl c)" using a(1) by (rule liveE) auto
  have "a AND PAGE_MASK = bd_page (bdescs m c)" using object_addr(2) [OF bucket_page [OF h x(2,3)] x(2,4)] .
  then have "c = b" using heap_atD(9) [OF h, of c b] a(2) in_used i x(2,3) by metis
  moreover then have "j = i" using bucket_unique [OF h i] x by blast
  ultimately show "n = bucket_size i" "a \<in> objects (bd_page (bdescs m b)) (bucket_size i)" "a \<notin> set (fl b)" using x by auto
qed

lemma return_object:
  assumes h: "heap_at m s C F fl" and i: "i < NR_BUCKETS" "b \<in> set (C i)" and p: "(p, n) \<in> live m C fl"
      "p AND PAGE_MASK = bd_page (bdescs m b)" and rc0: "bd_refcnt (bdescs m b) \<noteq> 0"
    and m': "m' = upd_bdesc b (\<lambda>d. d\<lparr>bd_freeptr := p, bd_refcnt := bd_refcnt d - 1\<rparr>) m"
    and t: "t = set_phys p (bd_freeptr (bdescs m b)) s"
  shows "heap_at m' t C F (fl(b := p # fl b))" "live m' C (fl(b := p # fl b)) = live m C fl - {(p, n)}"
proof -
  note o = live_object [OF h i p]
  have B: "bucket_at m s i b (fl b)" using heap_atD(6) [OF h i] .
  have p0: "p \<noteq> 0" using object_addr(3) [OF bucket_page [OF h i] i(1) o(2)] .
  have rc: "unat (bd_refcnt (bdescs m b) - 1) = unat (bd_refcnt (bdescs m b)) - 1" "0 < unat (bd_refcnt (bdescs m b))"
    using rc0 by (simp_all add: unat_minus_one unat_gt_0)
  have pr: "page_refs t = page_refs s" by (simp add: t page_refs_def fun_eq_iff)
  have "bucket_at m' t i b (p # fl b)"
    using B o p0 rc pr by (auto simp: bucket_at_def m' upd_bdesc_def t bchain_upd)
  then show h': "heap_at m' t C F (fl(b := p # fl b))"
    using m' heap_atD(1) [OF h] p(2) pr
    by (intro heap_at_bucket [OF h i, where fp = p and rc = "bd_refcnt (bdescs m b) - 1"])
      (auto simp: upd_bdesc_def t high_used_def)
  have pg: "bd_page (bdescs m' c) = bd_page (bdescs m c)" for c by (simp add: m' upd_bdesc_def)
  have "live m C ((fl(b := p # fl b))(b := fl b)) = insert (p, bucket_size i) (live m' C (fl(b := p # fl b)))"
    by (rule live_take [of i b C "fl(b := p # fl b)" p "fl b" m' m, OF i bucket_unique [OF h i]]) (use o pg in simp_all)
  then have l: "live m C fl = insert (p, n) (live m' C (fl(b := p # fl b)))" using o(1) by simp
  have "(p, n) \<notin> live m' C (fl(b := p # fl b))"
    using live_object(3) [OF h' i, of p n] p(2) pg by auto
  then show "live m' C (fl(b := p # fl b)) = live m C fl - {(p, n)}" using l by auto
qed

subsection \<open>Fresh pages\<close>

lemma fold_upd_other: "a \<notin> f ` set ks \<Longrightarrow> fold (\<lambda>k h. h(f k := g k)) ks h a = h a"
  by (induction ks arbitrary: h) auto

lemma fold_upd_at:
  "inj_on f (set ks) \<Longrightarrow> k \<in> set ks \<Longrightarrow> fold (\<lambda>k h. h(f k := g k)) ks h (f k) = g k"
proof (induction ks arbitrary: h)
  case (Cons j ks)
  show ?case
  proof (cases "k \<in> set ks")
    case False
    then have "k = j" "f k \<notin> f ` set ks" using Cons.prems by auto
    then show ?thesis using fold_upd_other [of "f k" f ks g "h(f j := g j)"] 
      by (simp only: fold.simps comp_apply fun_upd_same not_False_eq_True)
  qed (use Cons in simp)
qed simp

lemma bchain_upt:
  assumes "\<And>k. k < n \<Longrightarrow> nx (f k) = (if Suc k < n then f (Suc k) else x) \<and> f k \<noteq> 0" "bchain nx x ys" "j \<le> n"
  shows "bchain nx (if j < n then f j else x) (map f [j..<n] @ ys)"
  using assms(3)
proof (induction rule: inc_induct)
  case (step j)
  then show ?case using assms(1) [of j] by (auto simp: upt_conv_Cons split: if_splits)
qed (use assms(2) in simp)

definition object_list :: "u32 \<Rightarrow> nat \<Rightarrow> u32 list" where
  "object_list p sz = map (\<lambda>k. p + of_nat (k * sz)) [0..<4096 div sz]"

lemma object_inj:
  assumes "is_frame p" "i < NR_BUCKETS"
  shows "inj_on (\<lambda>k. p + of_nat (k * bucket_size i)) {0..<4096 div bucket_size i}"
proof (rule inj_onI)
  fix j k assume a: "j \<in> {0..<4096 div bucket_size i}" "k \<in> {0..<4096 div bucket_size i}"
    "p + of_nat (j * bucket_size i) = p + of_nat (k * bucket_size i)"
  have "j * bucket_size i < 4096" "k * bucket_size i < 4096"
    using a object_offset [OF assms(2)] bucket_sizes(1) [OF assms(2)] by (fastforce simp: less_le_trans)+
  then have "j * bucket_size i = k * bucket_size i" using a(3) frame_addr(1) [OF assms(1)] by (metis add_left_cancel)
  then show "j = k" using bucket_sizes(1) [OF assms(2)] by simp
qed

lemma object_list:
  assumes "is_frame p" "i < NR_BUCKETS"
  shows "set (object_list p (bucket_size i)) = objects p (bucket_size i)" "distinct (object_list p (bucket_size i))"
    "length (object_list p (bucket_size i)) = 4096 div bucket_size i"
  using object_inj [OF assms] by (simp_all add: object_list_def objects_def distinct_map atLeast0LessThan)

lemma phys_fold_set_phys: "phys (fold (\<lambda>k s. set_phys (f k) (g k) s) ks s) = fold (\<lambda>k h. h(f k := g k)) ks (phys s)"
  by (induction ks arbitrary: s) simp_all

lemma fold_set_phys_frame:
  "mem_map (fold (\<lambda>k s. set_phys (f k) (g k) s) ks s) = mem_map s"
  "HIGH_MEMORY (fold (\<lambda>k s. set_phys (f k) (g k) s) ks s) = HIGH_MEMORY s"
  by (induction ks arbitrary: s) simp_all

lemma link_objects:
  assumes p: "is_frame p" and i: "i < NR_BUCKETS"
  shows "bchain (phys (link_objects p (bucket_size i) s)) p (object_list p (bucket_size i))"
    "a AND PAGE_MASK \<noteq> p \<Longrightarrow> phys (link_objects p (bucket_size i) s) a = phys s a"
    "page_refs (link_objects p (bucket_size i) s) = page_refs s" "high_used (link_objects p (bucket_size i) s) = high_used s"
proof -
  let ?sz = "bucket_size i"
  let ?n = "4096 div ?sz"
  let ?f = "\<lambda>k. p + of_nat (k * ?sz)" and ?g = "\<lambda>k. if k + 1 < ?n then p + of_nat ((k + 1) * ?sz) else (0 :: u32)"
  have ph: "phys (link_objects p ?sz s) = fold (\<lambda>k h. h(?f k := ?g k)) [0..<?n] (phys s)"
    unfolding link_objects_def by (rule phys_fold_set_phys)
  have inj: "inj_on ?f (set [0..<?n])" using object_inj [OF p i] by simp
  have mem: "?f k \<in> objects p ?sz" if "k < ?n" for k using that by (auto simp: objects_def)
  show "a AND PAGE_MASK \<noteq> p \<Longrightarrow> phys (link_objects p ?sz s) a = phys s a"
  proof -
    assume "a AND PAGE_MASK \<noteq> p"
    then have "a \<notin> ?f ` set [0..<?n]" using object_addr(2) [OF p i mem] by auto
    then show ?thesis unfolding ph by (rule fold_upd_other)
  qed
  have "phys (link_objects p ?sz s) (?f k) = (if Suc k < ?n then ?f (Suc k) else 0) \<and> ?f k \<noteq> 0" if "k < ?n" for k
    unfolding ph using fold_upd_at [OF inj, of k ?g "phys s"] object_addr(3) [OF p i mem [OF that]] that by simp
  from bchain_upt [of ?n "phys (link_objects p ?sz s)" ?f 0 "[]" 0, OF this]
  show "bchain (phys (link_objects p ?sz s)) p (object_list p ?sz)"
    using bucket_sizes(4) [OF i] by (simp add: object_list_def)
  show "page_refs (link_objects p ?sz s) = page_refs s" "high_used (link_objects p ?sz s) = high_used s"
    by (auto simp: link_objects_def page_refs_def high_used_def fold_set_phys_frame)
qed

lemma heap_atI:
  assumes "high_used s"
    "\<And>i. i < NR_BUCKETS \<Longrightarrow> bchain (\<lambda>b. bd_next (bdescs m b)) (bucket_chain m i) (C i)"
    "\<And>i. i < NR_BUCKETS \<Longrightarrow> distinct (C i)" "\<And>i. i < NR_BUCKETS \<Longrightarrow> set (C i) \<inter> set F = {}"
    "\<And>i j. i < NR_BUCKETS \<Longrightarrow> j < NR_BUCKETS \<Longrightarrow> i \<noteq> j \<Longrightarrow> set (C i) \<inter> set (C j) = {}"
    "\<And>i b. i < NR_BUCKETS \<Longrightarrow> b \<in> set (C i) \<Longrightarrow> bucket_at m s i b (fl b)"
    "bchain (\<lambda>b. bd_next (bdescs m b)) (free_bucket_desc m) F" "distinct F"
    "\<And>b c. b \<in> used C \<Longrightarrow> c \<in> used C \<Longrightarrow> bd_page (bdescs m b) = bd_page (bdescs m c) \<Longrightarrow> b = c"
    "\<And>b. b \<in> used C \<union> set F \<Longrightarrow> 0 < page_refs s (b AND PAGE_MASK)"
    "\<And>b c. b \<in> used C \<union> set F \<Longrightarrow> c \<in> used C \<Longrightarrow> b AND PAGE_MASK \<noteq> bd_page (bdescs m c)"
  shows "heap_at m s C F fl"
  using assms unfolding heap_at_def by blast

lemma bucket_at_desc: "bdescs m' b = bdescs m b \<Longrightarrow> bucket_at m' s i b fl = bucket_at m s i b fl"
  by (simp add: bucket_at_def)

lemma used_refs:
  assumes "heap_at m s C F fl" "c \<in> used C"
  shows "0 < page_refs s (bd_page (bdescs m c))"
  using assms heap_atD(6) by (fastforce simp: used_def bucket_at_def)

lemma init_bucket_desc_heap:
  assumes h: "heap_at m s C [] fl" and g: "get_free_page s = (first, s')" "first \<noteq> 0"
  shows "\<exists>m' F. init_bucket_desc m s = Ret m' s' \<and> heap_at m' s' C F fl \<and> F \<noteq> [] \<and> (\<forall>c \<in> used C. bdescs m' c = bdescs m c)"
proof -
  note f = get_free_page_frame [OF heap_atD(1) [OF h] g]
  note h' = heap_atD [OF heap_at_get_free_page [OF h g]]
  let ?f = "\<lambda>k. first + of_nat (16 * k)"
  let ?g = "\<lambda>k. zero_bdesc\<lparr>bd_next := if k < 255 then first + of_nat (16 * (k + 1)) else free_bucket_desc m\<rparr>"
  define F where "F = map ?f [0..<256]"
  define m' where "m' = m\<lparr>bdescs := fold (\<lambda>k d. d(?f k := ?g k)) [0..<256] (bdescs m), free_bucket_desc := first\<rparr>"
  have a: "?f k AND PAGE_MASK = first" "?f k \<noteq> 0" if "k < 256" for k using that frame_addr [OF f(4), of "16 * k"] by auto
  have inj: "inj_on ?f (set [0..<256])"
  proof (rule inj_onI)
    fix j k assume jk: "j \<in> set [0..<256]" "k \<in> set [0..<256]" "?f j = ?f k"
    then have "unat first + 16 * j = unat first + 16 * k" using frame_addr(1) [OF f(4), of "16 * j"] frame_addr(1) [OF f(4), of "16 * k"] by simp
    then show "j = k" by simp
  qed
  have bd: "bdescs m' = fold (\<lambda>k d. d(?f k := ?g k)) [0..<256] (bdescs m)" by (simp add: m'_def)
  have other: "bdescs m' c = bdescs m c" if "c AND PAGE_MASK \<noteq> first" for c
    unfolding bd using that a(1) by (intro fold_upd_other) auto
  have at: "bdescs m' (?f k) = ?g k" if "k < 256" for k
    unfolding bd using that by (intro fold_upd_at [OF inj]) simp
  have used: "c AND PAGE_MASK \<noteq> first" "bdescs m' c = bdescs m c" "bd_page (bdescs m c) \<noteq> first" if "c \<in> used C" for c
    using heap_atD(10) [OF h, of c] used_refs [OF h that] that f(1) other [of c] by fastforce+
  have F: "bchain (\<lambda>b. bd_next (bdescs m' b)) first F"
    using bchain_upt [of 256 "\<lambda>b. bd_next (bdescs m' b)" ?f 0 "[]" 0] at a(2) heap_atD(7) [OF h] by (simp add: F_def)
  have setF: "b AND PAGE_MASK = first" if "b \<in> set F" for b using that a(1) by (auto simp: F_def)
  have ch: "bchain (\<lambda>b. bd_next (bdescs m' b)) x (C i) = bchain (\<lambda>b. bd_next (bdescs m b)) x (C i)" if "i < NR_BUCKETS" for i x
    using used(2) in_used [of i _ C] that by (intro bchain_cong) simp
  have "heap_at m' s' C F fl"
  proof (rule heap_atI)
    show "distinct F" using inj by (simp add: F_def distinct_map)
    show "bchain (\<lambda>b. bd_next (bdescs m' b)) (free_bucket_desc m') F" using F by (simp add: m'_def)
    show "bchain (\<lambda>b. bd_next (bdescs m' b)) (bucket_chain m' i) (C i)" if "i < NR_BUCKETS" for i
      using h'(2) [OF that] ch [OF that] by (simp add: m'_def)
    show "bucket_at m' s' i b (fl b)" if "i < NR_BUCKETS" "b \<in> set (C i)" for i b
      using h'(6) [OF that] used(2) in_used [of i b C] that bucket_at_desc by blast
    show "set (C i) \<inter> set F = {}" if "i < NR_BUCKETS" for i using setF used(1) in_used [of i _ C] that by blast
    show "b = c" if "b \<in> used C" "c \<in> used C" "bd_page (bdescs m' b) = bd_page (bdescs m' c)" for b c
      using that used(2) h'(9) by simp
    show "0 < page_refs s' (b AND PAGE_MASK)" if "b \<in> used C \<union> set F" for b
      using that h'(10) [of b] setF f(2) by auto
    show "b AND PAGE_MASK \<noteq> bd_page (bdescs m' c)" if "b \<in> used C \<union> set F" "c \<in> used C" for b c
      using that h'(11) [of b c] setF used(2,3) by fastforce
  qed (use h' in auto)
  moreover have "init_bucket_desc m s = Ret m' s'" using g by (simp add: init_bucket_desc_def m'_def)
  moreover have "F \<noteq> []" by (simp add: F_def)
  ultimately show ?thesis using used(2) by blast
qed

lemma used_insert: "i < NR_BUCKETS \<Longrightarrow> used (C(i := b # C i)) = insert b (used C)"
  by (auto simp: used_def split: if_splits)

lemma add_bucket_heap:
  assumes h: "heap_at m s C (b # F) fl" and i: "i < NR_BUCKETS" and g: "get_free_page s = (cp, s1)" "cp \<noteq> 0"
    and s2: "s2 = link_objects cp (bucket_size i) s1"
    and m2: "bdescs m2 = (bdescs m)(b := \<lparr>bd_page = cp, bd_next = bucket_chain m i, bd_freeptr = cp, bd_refcnt = 0,
        bd_bucket_size = of_nat (bucket_size i)\<rparr>)"
      "free_bucket_desc m2 = bd_next (bdescs m b)" "bucket_chain m2 = (bucket_chain m)(i := b)"
  shows "heap_at m2 s2 (C(i := b # C i)) F (fl(b := object_list cp (bucket_size i)))" (is "heap_at _ _ ?C _ ?fl")
    "\<And>a. 0 < page_refs s (a AND PAGE_MASK) \<Longrightarrow> phys s2 a = phys s a"
proof -
  note f = get_free_page_frame [OF heap_atD(1) [OF h] g] and D = heap_atD [OF h]
  note l = link_objects [OF f(4) i]
  have r2: "page_refs s2 = (page_refs s)(cp := 1)" "high_used s2" using l(3,4) [of s1] f(2,3) by (simp_all add: s2)
  have ref: "0 < page_refs s2 p" if "0 < page_refs s p" for p using that r2(1) by simp
  show ph: "phys s2 a = phys s a" if "0 < page_refs s (a AND PAGE_MASK)" for a
    using that f(1) l(2) [of a s1] f(5) [of a] by (cases "a AND PAGE_MASK = cp") (simp_all add: s2)
  have b0: "b \<noteq> 0" and fr: "bchain (\<lambda>c. bd_next (bdescs m c)) (bd_next (bdescs m b)) F" and bF: "b \<notin> set F" "distinct F"
    using D(7,8) by auto
  have bC: "b \<notin> set (C j)" if "j < NR_BUCKETS" for j using D(4) [OF that] by auto
  have bU: "b \<notin> used C" using bC by (auto simp: used_def)
  have U: "used ?C = insert b (used C)" using i by (rule used_insert)
  have pgc: "bd_page (bdescs m c) \<noteq> cp" if "c \<in> used C" for c using used_refs [OF h that] f(1) by auto
  have dsc: "x AND PAGE_MASK \<noteq> cp" if "x \<in> used C \<union> set (b # F)" for x using D(10) [OF that] f(1) by auto
  have nx: "bchain (\<lambda>c. bd_next (bdescs m2 c)) x xs = bchain (\<lambda>c. bd_next (bdescs m c)) x xs" if "b \<notin> set xs" for x xs
    using that by (intro bchain_cong) (auto simp: m2)
  have nb: "bd_next (bdescs m2 b) = bucket_chain m i" by (simp add: m2(1))
  have same: "bdescs m2 c = bdescs m c" if "c \<noteq> b" for c using that by (simp add: m2)
  have new: "bucket_at m2 s2 i b (object_list cp (bucket_size i))"
  proof -
    have "unat (of_nat (bucket_size i) :: u16) = bucket_size i"
      using bucket_sizes(2) [OF i] by (simp add: unat_of_nat)
    then show ?thesis
      using object_list [OF f(4) i] l(1) [of s1] r2(1) f(1) by (simp add: bucket_at_def m2 s2 [symmetric])
  qed
  show "heap_at m2 s2 ?C F ?fl"
  proof (rule heap_atI)
    show "high_used s2" by (rule r2)
    show "bchain (\<lambda>c. bd_next (bdescs m2 c)) (bucket_chain m2 j) (?C j)" if "j < NR_BUCKETS" for j
      using D(2) [OF that] nx [OF bC [OF that]] b0 nb by (cases "j = i") (simp_all add: m2(3))
    show "distinct (?C j)" if "j < NR_BUCKETS" for j using D(3) [OF that] bC [OF that] by auto
    show "set (?C j) \<inter> set F = {}" if "j < NR_BUCKETS" for j using D(4) [OF that] bF by auto
    show "set (?C j) \<inter> set (?C k) = {}" if "j < NR_BUCKETS" "k < NR_BUCKETS" "j \<noteq> k" for j k
      using D(5) [OF that] bC that by auto
    show "bucket_at m2 s2 j c (?fl c)" if j: "j < NR_BUCKETS" "c \<in> set (?C j)" for j c
    proof (cases "c = b")
      case True
      then show ?thesis using j bC new by (auto split: if_splits)
    next
      case False
      then have "c \<in> set (C j)" using j by (auto split: if_splits)
      then have "bucket_at m s2 j c (fl c)" using bucket_at_frame [OF D(6) [OF j(1)] j(1) ref ph] by simp
      then show ?thesis using False bucket_at_desc [OF same [OF False]] by simp
    qed
    show "bchain (\<lambda>c. bd_next (bdescs m2 c)) (free_bucket_desc m2) F" using fr nx [OF bF(1)] by (simp add: m2)
    show "distinct F" by (rule bF)
    show "x = y" if "x \<in> used ?C" "y \<in> used ?C" "bd_page (bdescs m2 x) = bd_page (bdescs m2 y)" for x y
      using that pgc D(9) unfolding U m2 by (auto split: if_splits)
    show "0 < page_refs s2 (x AND PAGE_MASK)" if "x \<in> used ?C \<union> set F" for x
      using that D(10) [of x] ref unfolding U by auto
    show "x AND PAGE_MASK \<noteq> bd_page (bdescs m2 y)" if "x \<in> used ?C \<union> set F" "y \<in> used ?C" for x y
      using that D(11) [of x y] dsc [of x] unfolding U m2 by (auto split: if_splits)
  qed
qed

lemma live_add_bucket:
  assumes "\<And>c. c \<noteq> b \<Longrightarrow> bdescs m2 c = bdescs m c" "b \<notin> used C" "i < NR_BUCKETS"
    "objects (bd_page (bdescs m2 b)) (bucket_size i) \<subseteq> set x"
  shows "live m2 (C(i := b # C i)) (fl(b := x)) = live m C fl"
proof (intro equalityI subsetI)
  fix y assume "y \<in> live m2 (C(i := b # C i)) (fl(b := x))"
  then obtain a j c where y: "y = (a, bucket_size j)" "j < NR_BUCKETS" "c \<in> set ((C(i := b # C i)) j)"
    "a \<in> objects (bd_page (bdescs m2 c)) (bucket_size j)" "a \<notin> set ((fl(b := x)) c)" by (rule liveE)
  have "c \<noteq> b"
  proof
    assume "c = b"
    then have "j = i" using y(2,3) assms(2) in_used [of j b C] by (auto split: if_splits)
    then show False using y \<open>c = b\<close> assms(4) by auto
  qed
  then show "y \<in> live m C fl" using y assms(1) [of c] liveI [of j c C a m fl] by (auto split: if_splits)
next
  fix y assume "y \<in> live m C fl"
  then obtain a j c where y: "y = (a, bucket_size j)" "j < NR_BUCKETS" "c \<in> set (C j)"
    "a \<in> objects (bd_page (bdescs m c)) (bucket_size j)" "a \<notin> set (fl c)" by (rule liveE)
  then have "c \<noteq> b" using assms(2) in_used [of j c C] by blast
  then show "y \<in> live m2 (C(i := b # C i)) (fl(b := x))"
    using y assms(1) [of c] liveI [of j c "C(i := b # C i)" a m2 "fl(b := x)"] by (cases "j = i") auto
qed

text \<open>What a call that makes a new bucket achieves: it panics because no page is free, or the heap has one more bucket, whose
  objects are all free, and no object in use was touched.\<close>

definition grown :: "nat \<Rightarrow> malloc_state \<Rightarrow> kernel \<Rightarrow> (nat \<Rightarrow> u32 list) \<Rightarrow> (u32 \<Rightarrow> u32 list) \<Rightarrow> (u32 \<times> malloc_state) kres \<Rightarrow> bool" where
  "grown i m s C fl res \<longleftrightarrow>
     (\<exists>msg u. res = Panic msg u \<and> fst (get_free_page u) = 0) \<or>
     (\<exists>b m' t C' F' fl'. res = Ret (b, m') t \<and> heap_at m' t C' F' fl' \<and> b \<in> set (C' i) \<and> fl' b \<noteq> [] \<and>
        live m' C' fl' = live m C fl \<and> (\<forall>c \<in> used C'. c \<noteq> b \<longrightarrow> c \<in> used C \<and> bdescs m' c = bdescs m c) \<and>
        (\<forall>a. 0 < page_refs s (a AND PAGE_MASK) \<longrightarrow> phys t a = phys s a))"

lemma get_free_page_fails: "get_free_page s = (0, t) \<Longrightarrow> t = s"
  by (simp add: get_free_page_None)

lemma new_bucket_grown:
  assumes h: "heap_at m s C (b # F) fl" and i: "i < NR_BUCKETS"
  shows "grown i m s C fl (new_bucket i m s)"
proof -
  obtain cp s1 where g: "get_free_page s = (cp, s1)" by (cases "get_free_page s")
  have fb: "free_bucket_desc m = b" "b \<noteq> 0" using heap_atD(7) [OF h] by auto
  show ?thesis
  proof (cases "cp = 0")
    case True
    then have "s1 = s" using g get_free_page_fails by simp
    then have "new_bucket i m s = Panic ''Out of memory in kernel malloc()'' s" using fb g True by (simp add: new_bucket_def Let_def)
    then show ?thesis using g True unfolding grown_def by (intro disjI1) simp
  next
    case False
    define m2 where "m2 = m\<lparr>free_bucket_desc := bd_next (bdescs m b), bdescs := (bdescs m)(b := (bdescs m b)\<lparr>bd_refcnt := 0,
        bd_bucket_size := of_nat (bucket_size i), bd_page := cp, bd_freeptr := cp, bd_next := bucket_chain m i\<rparr>),
        bucket_chain := (bucket_chain m)(i := b)\<rparr>"
    define s2 where "s2 = link_objects cp (bucket_size i) s1"
    have nb: "new_bucket i m s = Ret (b, m2) s2"
      using fb g False by (simp add: new_bucket_def upd_bdesc_def m2_def s2_def Let_def)
    have m2: "bdescs m2 = (bdescs m)(b := \<lparr>bd_page = cp, bd_next = bucket_chain m i, bd_freeptr = cp, bd_refcnt = 0,
        bd_bucket_size = of_nat (bucket_size i)\<rparr>)"
      "free_bucket_desc m2 = bd_next (bdescs m b)" "bucket_chain m2 = (bucket_chain m)(i := b)"
      by (cases "bdescs m b"; simp add: m2_def)+
    note a = add_bucket_heap [OF h i g False s2_def m2]
    have fr: "is_frame cp" using get_free_page_frame(4) [OF heap_atD(1) [OF h] g False] .
    note ol = object_list [OF fr i]
    have bU: "b \<notin> used C" using heap_atD(4) [OF h] by (fastforce simp: used_def)
    have "live m2 (C(i := b # C i)) (fl(b := object_list cp (bucket_size i))) = live m C fl"
      by (rule live_add_bucket) (use bU i ol(1) in \<open>simp_all add: m2\<close>)
    moreover have "object_list cp (bucket_size i) \<noteq> []" using ol(3) bucket_sizes(4) [OF i] by auto
    moreover have "\<forall>c \<in> used (C(i := b # C i)). c \<noteq> b \<longrightarrow> c \<in> used C \<and> bdescs m2 c = bdescs m c"
      using used_insert [OF i] by (simp add: m2)
    ultimately have "heap_at m2 s2 (C(i := b # C i)) F (fl(b := object_list cp (bucket_size i))) \<and> b \<in> set ((C(i := b # C i)) i) \<and>
        (fl(b := object_list cp (bucket_size i))) b \<noteq> [] \<and>
        live m2 (C(i := b # C i)) (fl(b := object_list cp (bucket_size i))) = live m C fl \<and>
        (\<forall>c \<in> used (C(i := b # C i)). c \<noteq> b \<longrightarrow> c \<in> used C \<and> bdescs m2 c = bdescs m c) \<and>
        (\<forall>a. 0 < page_refs s (a AND PAGE_MASK) \<longrightarrow> phys s2 a = phys s a)" using a by simp
    then show ?thesis unfolding grown_def nb by blast
  qed
qed

lemma live_mono:
  assumes "\<forall>c \<in> used C. bdescs m1 c = bdescs m c"
  shows "live m1 C fl \<subseteq> live m C fl"
proof
  fix x assume "x \<in> live m1 C fl"
  then obtain a i b where "x = (a, bucket_size i)" "i < NR_BUCKETS" "b \<in> set (C i)"
    "a \<in> objects (bd_page (bdescs m1 b)) (bucket_size i)" "a \<notin> set (fl b)" by (rule liveE)
  then show "x \<in> live m C fl" using assms in_used [of i b C] liveI [of i b C a m fl] by simp
qed

lemma new_bucket_spec:
  assumes h: "heap_at m s C F fl" and i: "i < NR_BUCKETS"
  shows "grown i m s C fl (new_bucket i m s)"
proof (cases F)
  case (Cons b F')
  then show ?thesis using new_bucket_grown h i by blast
next
  case Nil
  then have z: "free_bucket_desc m = 0" using heap_atD(7) [OF h] by simp
  obtain p s1 where g: "get_free_page s = (p, s1)" by (cases "get_free_page s")
  show ?thesis
  proof (cases "p = 0")
    case True
    then have "new_bucket i m s = Panic ''Out of memory in init_bucket_desc()'' s"
      using z g get_free_page_fails [of s s1] by (simp add: new_bucket_def init_bucket_desc_def)
    then show ?thesis using g True unfolding grown_def by (intro disjI1) simp
  next
    case False
    from init_bucket_desc_heap [OF h [unfolded Nil] g False] obtain m1 F1 where
      m1: "init_bucket_desc m s = Ret m1 s1" "heap_at m1 s1 C F1 fl" "F1 \<noteq> []" "\<forall>c \<in> used C. bdescs m1 c = bdescs m c" by blast
    obtain b F' where F1: "F1 = b # F'" using m1(3) by (cases F1) auto
    have "free_bucket_desc m1 \<noteq> 0" using heap_atD(7) [OF m1(2)] F1 by auto
    then have nb: "new_bucket i m s = new_bucket i m1 s1" using z m1(1) by (simp add: new_bucket_def)
    have G: "grown i m1 s1 C fl (new_bucket i m1 s1)" using new_bucket_grown m1(2) F1 i by blast
    note f = get_free_page_frame [OF heap_atD(1) [OF h] g False]
    have ph: "0 < page_refs s1 (a AND PAGE_MASK) \<and> phys s1 a = phys s a" if "0 < page_refs s (a AND PAGE_MASK)" for a
      using that f(1,2) f(5) [of a] by (cases "a AND PAGE_MASK = p") auto
    have lv: "live m1 C fl = live m C fl" using live_mono [of C m1 m fl] live_mono [of C m m1 fl] m1(4) by auto
    from G [unfolded grown_def] show ?thesis
    proof
      assume "\<exists>msg u. new_bucket i m1 s1 = Panic msg u \<and> fst (get_free_page u) = 0"
      then show ?thesis unfolding grown_def nb by blast
    next
      assume "\<exists>b m' t C' F' fl'. new_bucket i m1 s1 = Ret (b, m') t \<and> heap_at m' t C' F' fl' \<and> b \<in> set (C' i) \<and> fl' b \<noteq> [] \<and>
        live m' C' fl' = live m1 C fl \<and> (\<forall>c \<in> used C'. c \<noteq> b \<longrightarrow> c \<in> used C \<and> bdescs m' c = bdescs m1 c) \<and>
        (\<forall>a. 0 < page_refs s1 (a AND PAGE_MASK) \<longrightarrow> phys t a = phys s1 a)"
      then obtain b m' t C' F' fl' where r: "new_bucket i m1 s1 = Ret (b, m') t" "heap_at m' t C' F' fl'" "b \<in> set (C' i)" "fl' b \<noteq> []"
        "live m' C' fl' = live m C fl" and k: "\<forall>c \<in> used C'. c \<noteq> b \<longrightarrow> c \<in> used C \<and> bdescs m' c = bdescs m1 c"
        "\<forall>a. 0 < page_refs s1 (a AND PAGE_MASK) \<longrightarrow> phys t a = phys s1 a" unfolding lv by blast
      have "\<forall>c \<in> used C'. c \<noteq> b \<longrightarrow> c \<in> used C \<and> bdescs m' c = bdescs m c"
        "\<forall>a. 0 < page_refs s (a AND PAGE_MASK) \<longrightarrow> phys t a = phys s a" using k m1(4) ph by auto
      with r show ?thesis unfolding grown_def nb by blast
    qed
  qed
qed

subsection \<open>Allocation and release\<close>

text \<open>\<open>heap m s A\<close>: the allocator's data are sound and \<open>A\<close> are the objects in use, with their sizes.\<close>

definition heap :: "malloc_state \<Rightarrow> kernel \<Rightarrow> (u32 \<times> nat) set \<Rightarrow> bool" where
  "heap m s A \<longleftrightarrow> (\<exists>C F fl. heap_at m s C F fl \<and> (\<forall>c \<in> used C. bd_refcnt (bdescs m c) \<noteq> 0) \<and> A = live m C fl)"

lemma chain_length:
  assumes h: "heap_at m s C F fl" and i: "i < NR_BUCKETS"
  shows "length (C i) \<le> PAGING_PAGES"
proof -
  let ?g = "\<lambda>b. MAP_NR (bd_page (bdescs m b))"
  have fr: "is_frame (bd_page (bdescs m b))" if "b \<in> set (C i)" for b using bucket_page [OF h i that] .
  have "inj_on ?g (set (C i))"
  proof (rule inj_onI)
    fix b c assume bc: "b \<in> set (C i)" "c \<in> set (C i)" "?g b = ?g c"
    then have "bd_page (bdescs m b) = bd_page (bdescs m c)" using fr MAP_NR_inj by blast
    then show "b = c" using heap_atD(9) [OF h] in_used [of i _ C] i bc by blast
  qed
  moreover have "?g ` set (C i) \<subseteq> {..<PAGING_PAGES}" using fr by (auto simp: is_frame_def)
  ultimately have "card (set (C i)) \<le> card {..<PAGING_PAGES}" by (rule card_inj_on_le) simp
  then show ?thesis using distinct_card [OF heap_atD(3) [OF h i]] by simp
qed

lemma frame_apart:
  assumes "is_frame p" "is_frame q" "p \<noteq> q"
  shows "unat p + 4096 \<le> unat q \<or> unat q + 4096 \<le> unat p"
proof -
  obtain j k where jk: "j < PAGING_PAGES" "p = page_of_nr j" "k < PAGING_PAGES" "q = page_of_nr k" using assms by (auto simp: is_frame_iff)
  then have "j < k \<or> k < j" using assms(3) by (metis nat_neq_iff)
  then show ?thesis using jk unat_page_of_nr by auto
qed

lemma live_disjoint:
  assumes h: "heap_at m s C F fl" and p: "(p, sz) \<in> live m C fl" and q: "(q, n) \<in> live m C fl" and ne: "(p, sz) \<noteq> (q, n)"
  shows "unat p + sz \<le> unat q \<or> unat q + n \<le> unat p"
proof -
  obtain i b where b: "sz = bucket_size i" "i < NR_BUCKETS" "b \<in> set (C i)" "p \<in> objects (bd_page (bdescs m b)) (bucket_size i)"
    using p by (rule liveE) auto
  obtain j c where c: "n = bucket_size j" "j < NR_BUCKETS" "c \<in> set (C j)" "q \<in> objects (bd_page (bdescs m c)) (bucket_size j)"
    using q by (rule liveE) auto
  note fb = bucket_page [OF h b(2,3)] and fc = bucket_page [OF h c(2,3)]
  obtain k where k: "k < 4096 div bucket_size i" "unat p = unat (bd_page (bdescs m b)) + k * bucket_size i"
    using object_addr(1) [OF fb b(2,4)] by blast
  obtain l where l: "l < 4096 div bucket_size j" "unat q = unat (bd_page (bdescs m c)) + l * bucket_size j"
    using object_addr(1) [OF fc c(2,4)] by blast
  note ok = object_offset [OF b(2) k(1)] and ol = object_offset [OF c(2) l(1)]
  show ?thesis
  proof (cases "bd_page (bdescs m b) = bd_page (bdescs m c)")
    case False
    then show ?thesis using frame_apart [OF fb fc] k l ok ol b(1) c(1) by linarith
  next
    case True
    then have "b = c" using heap_atD(9) [OF h, of b c] in_used b(2,3) c(2,3) by metis
    then have ij: "j = i" using bucket_unique [OF h b(2,3)] c by blast
    have "k \<noteq> l"
    proof
      assume "k = l"
      then have "unat p = unat q" using k l True ij by simp
      then show False using ne b(1) c(1) ij by (simp add: word_unat_eq_iff)
    qed
    then have "k * bucket_size i + bucket_size i \<le> l * bucket_size i \<or> l * bucket_size i + bucket_size i \<le> k * bucket_size i"
      using mult_le_mono1 [of "Suc k" l "bucket_size i"] mult_le_mono1 [of "Suc l" k "bucket_size i"] by (cases "k < l") auto
    then show ?thesis using k(2) l(2) True ij b(1) c(1) by simp
  qed
qed

lemma live_page:
  assumes h: "heap_at m s C F fl" and q: "(q, n) \<in> live m C fl" and k: "k < n"
  shows "\<exists>b \<in> used C. (q + of_nat k) AND PAGE_MASK = bd_page (bdescs m b)" "0 < page_refs s ((q + of_nat k) AND PAGE_MASK)"
proof -
  obtain i b where b: "n = bucket_size i" "i < NR_BUCKETS" "b \<in> set (C i)" "q \<in> objects (bd_page (bdescs m b)) (bucket_size i)"
    using q by (rule liveE) auto
  note fb = bucket_page [OF h b(2,3)]
  obtain j where j: "j < 4096 div bucket_size i" "q = bd_page (bdescs m b) + of_nat (j * bucket_size i)"
    using object_addr(1) [OF fb b(2,4)] by blast
  have "j * bucket_size i + k < 4096" using object_offset [OF b(2) j(1)] k b(1) by linarith
  from frame_addr(2) [OF fb this] have p: "(q + of_nat k) AND PAGE_MASK = bd_page (bdescs m b)" unfolding j(2) by (simp add: add.assoc)
  have bu: "b \<in> used C" using in_used b(2,3) by metis
  then show "\<exists>b \<in> used C. (q + of_nat k) AND PAGE_MASK = bd_page (bdescs m b)" using p by blast
  show "0 < page_refs s ((q + of_nat k) AND PAGE_MASK)" unfolding p using used_refs [OF h bu] .
qed

text \<open>Handing out the first free object of a bucket.\<close>

lemma take_heap:
  assumes h: "heap_at m s C F fl" and i: "i < NR_BUCKETS" "b \<in> set (C i)" "fl b \<noteq> []"
    and rc: "\<And>c. c \<in> used C \<Longrightarrow> c \<noteq> b \<Longrightarrow> bd_refcnt (bdescs m c) \<noteq> 0"
    and r: "r = bd_freeptr (bdescs m b)"
    and m': "m' = upd_bdesc b (\<lambda>d. d\<lparr>bd_freeptr := phys s r, bd_refcnt := bd_refcnt d + 1\<rparr>) m"
  shows "heap m' s (insert (r, bucket_size i) (live m C fl))"
    "\<forall>(q, n) \<in> live m C fl. unat r + bucket_size i \<le> unat q \<or> unat q + n \<le> unat r"
proof -
  obtain r' rest where f: "fl b = r' # rest" using i(3) by (cases "fl b") auto
  have "bd_freeptr (bdescs m b) = r'" using heap_atD(6) [OF h i(1,2)] f by (simp add: bucket_at_def)
  then have "r' = r" using r by simp
  note t = take_object [OF h i(1,2) f [unfolded this] m']
  have "bd_refcnt (bdescs m' c) \<noteq> 0" if "c \<in> used C" for c using that rc [OF that] t(5,6) by (cases "c = b") auto
  then show "heap m' s (insert (r, bucket_size i) (live m C fl))" unfolding heap_def using t(2,3) by metis
  have "r AND PAGE_MASK = bd_page (bdescs m b)" using object_addr(2) [OF bucket_page [OF h i(1,2)] i(1) t(4)] .
  then have nl: "(r, bucket_size i) \<notin> live m C fl" using live_object(3) [OF h i(1,2)] f \<open>r' = r\<close> by auto
  show "\<forall>(q, n) \<in> live m C fl. unat r + bucket_size i \<le> unat q \<or> unat q + n \<le> unat r"
  proof clarify
    fix q n assume q: "(q, n) \<in> live m C fl" "\<not> unat q + n \<le> unat r"
    then have "(q, n) \<noteq> (r, bucket_size i)" using nl by auto
    then show "unat r + bucket_size i \<le> unat q"
      using live_disjoint [OF t(2), of r "bucket_size i" q n] q unfolding t(3) by auto
  qed
qed

lemma find_free_bucket_spec:
  assumes h: "heap_at m s C F fl" and i: "i < NR_BUCKETS" and f: "PAGING_PAGES < fuel E"
  shows "find_free_bucket E m (bucket_chain m i) s = Ret 0 s \<or>
    (\<exists>b \<in> set (C i). fl b \<noteq> [] \<and> b \<noteq> 0 \<and> find_free_bucket E m (bucket_chain m i) s = Ret b s)"
proof -
  have k: "find_free_bucket E m (bucket_chain m i) s = Ret (case find (\<lambda>b. bd_freeptr (bdescs m b) \<noteq> 0) (C i) of None \<Rightarrow> 0 | Some b \<Rightarrow> b) s"
    unfolding find_free_bucket_def using chain_length [OF h i] f by (intro kwhile_chain heap_atD(2) [OF h i]) linarith
  show ?thesis
  proof (cases "find (\<lambda>b. bd_freeptr (bdescs m b) \<noteq> 0) (C i)")
    case (Some b)
    then have b: "b \<in> set (C i)" "bd_freeptr (bdescs m b) \<noteq> 0" by (auto simp: find_Some_iff)
    then have "fl b \<noteq> []" using heap_atD(6) [OF h i b(1)] by (auto simp: bucket_at_def)
    moreover have "b \<noteq> 0" using bchain_nz [OF heap_atD(2) [OF h i]] b(1) by auto
    ultimately show ?thesis using k Some b(1) by auto
  qed (use k in simp)
qed

text \<open>C32: The kernel's \<^verbatim>\<open>malloc\<close> is sound. From a sound heap, a request of up to 4096 bytes returns an object that is at least as
  large and overlaps no object in use, and leaves a sound heap in which exactly this object is in use in addition; no byte of
  an object in use changes. The only other outcome is a panic, and that only when no page is free.\<close>

theorem malloc_fresh:
  assumes heap: "heap m s A" and len: "unat len \<le> 4096" and fuel: "PAGING_PAGES < fuel E"
  shows "(\<exists>msg u. malloc E len m s = Panic msg u \<and> fst (get_free_page u) = 0) \<or>
    (\<exists>p sz m' t. malloc E len m s = Ret (p, m') t \<and> unat len \<le> sz \<and> heap m' t (insert (p, sz) A) \<and>
       (\<forall>(q, n) \<in> A. unat p + sz \<le> unat q \<or> unat q + n \<le> unat p) \<and>
       (\<forall>(q, n) \<in> A. \<forall>k < n. phys t (q + of_nat k) = phys s (q + of_nat k)))"
proof -
  obtain C F fl where h: "heap_at m s C F fl" and rc: "\<And>c. c \<in> used C \<Longrightarrow> bd_refcnt (bdescs m c) \<noteq> 0" and A: "A = live m C fl"
    using heap unfolding heap_def by blast
  have "unat len \<le> bucket_size 8" using len by (simp add: bucket_size_def)
  then have "find (\<lambda>i. bucket_size i \<ge> unat len) [0..<NR_BUCKETS] \<noteq> None"
    unfolding find_None_iff by (auto intro!: exI [of _ "8 :: nat"])
  then obtain i where i: "find (\<lambda>i. bucket_size i \<ge> unat len) [0..<NR_BUCKETS] = Some i" by auto
  then have i9: "i < NR_BUCKETS" "unat len \<le> bucket_size i" by (auto simp: find_Some_iff)
  let ?take = "\<lambda>b m s. upd_bdesc b (\<lambda>d. d\<lparr>bd_freeptr := phys s (bd_freeptr (bdescs m b)), bd_refcnt := bd_refcnt d + 1\<rparr>) m"
  from find_free_bucket_spec [OF h i9(1) fuel] show ?thesis
  proof
    assume "\<exists>b \<in> set (C i). fl b \<noteq> [] \<and> b \<noteq> 0 \<and> find_free_bucket E m (bucket_chain m i) s = Ret b s"
    then obtain b where b: "b \<in> set (C i)" "fl b \<noteq> []" "b \<noteq> 0" "find_free_bucket E m (bucket_chain m i) s = Ret b s" by blast
    then have "malloc E len m s = Ret (bd_freeptr (bdescs m b), ?take b m s) s" using i by (simp add: malloc_def Let_def)
    then show ?thesis using take_heap [OF h i9(1) b(1,2) rc refl refl] i9(2) A by blast
  next
    assume z: "find_free_bucket E m (bucket_chain m i) s = Ret 0 s"
    from new_bucket_spec [OF h i9(1), unfolded grown_def] show ?thesis
    proof
      assume "\<exists>msg u. new_bucket i m s = Panic msg u \<and> fst (get_free_page u) = 0"
      then show ?thesis using i z by (auto simp: malloc_def)
    next
      assume "\<exists>b m' t C' F' fl'. new_bucket i m s = Ret (b, m') t \<and> heap_at m' t C' F' fl' \<and> b \<in> set (C' i) \<and> fl' b \<noteq> [] \<and>
        live m' C' fl' = live m C fl \<and> (\<forall>c \<in> used C'. c \<noteq> b \<longrightarrow> c \<in> used C \<and> bdescs m' c = bdescs m c) \<and>
        (\<forall>a. 0 < page_refs s (a AND PAGE_MASK) \<longrightarrow> phys t a = phys s a)"
      then obtain b m1 t C' F' fl' where n: "new_bucket i m s = Ret (b, m1) t" "heap_at m1 t C' F' fl'" "b \<in> set (C' i)" "fl' b \<noteq> []"
        "live m1 C' fl' = A" "\<forall>c \<in> used C'. c \<noteq> b \<longrightarrow> c \<in> used C \<and> bdescs m1 c = bdescs m c"
        "\<forall>a. 0 < page_refs s (a AND PAGE_MASK) \<longrightarrow> phys t a = phys s a" unfolding A by blast
      have rc1: "bd_refcnt (bdescs m1 c) \<noteq> 0" if "c \<in> used C'" "c \<noteq> b" for c using that n(6) rc by simp
      have "malloc E len m s = Ret (bd_freeptr (bdescs m1 b), ?take b m1 t) t" using i z n(1) by (simp add: malloc_def Let_def)
      moreover have "\<forall>(q, n) \<in> A. \<forall>k < n. phys t (q + of_nat k) = phys s (q + of_nat k)" using live_page(2) [OF h] n(7) A by auto
      ultimately show ?thesis using take_heap [OF n(2) i9(1) n(3,4) rc1 refl refl] i9(2) n(5) by blast
    qed
  qed
qed

lemma find_split: "P b \<Longrightarrow> (\<And>c. c \<in> set xs \<Longrightarrow> \<not> P c) \<Longrightarrow> find P (xs @ b # ys) = Some b \<and> takeWhile (\<lambda>c. \<not> P c) (xs @ b # ys) = xs"
  by (induction xs) auto

lemma find_page_spec:
  assumes h: "heap_at m s C F fl" and i: "i < NR_BUCKETS" "C i = xs @ b # ys" and j: "j < NR_BUCKETS" and f: "PAGING_PAGES < fuel E"
  shows "find_page E m (bd_page (bdescs m b)) (bucket_chain m j) s = Ret (if j = i then Some (last (0 # xs), b) else None) s"
proof -
  let ?P = "\<lambda>c. bd_page (bdescs m c) = bd_page (bdescs m b)"
  have bu: "b \<in> set (C i)" using i(2) by simp
  have only: "c = b" if "c \<in> set (C k)" "?P c" "k < NR_BUCKETS" for c k
    using heap_atD(9) [OF h, of c b] in_used [of k c C] in_used [of i b C] that bu i(1) by blast
  have k: "find_page E m (bd_page (bdescs m b)) (bucket_chain m j) s =
      Ret (case find ?P (C j) of None \<Rightarrow> None | Some b \<Rightarrow> Some (last (0 # takeWhile (\<lambda>c. \<not> ?P c) (C j)), b)) s"
    unfolding find_page_def using chain_length [OF h j] f by (intro kwhile_chain_prev heap_atD(2) [OF h j]) linarith
  show ?thesis
  proof (cases "j = i")
    case True
    have "\<not> ?P c" if "c \<in> set xs" for c
      using only [of c i] that i heap_atD(3) [OF h i(1)] by auto
    then show ?thesis using k True find_split [of ?P b xs ys] i(2) by simp
  next
    case False
    have "\<not> ?P c" if "c \<in> set (C j)" for c
      using only [OF that _ j] that bucket_unique [OF h i(1) bu, of j] j False by auto
    then have "find ?P (C j) = None" by (simp add: find_None_iff)
    then show ?thesis using k False by simp
  qed
qed

lemma find_bucket_spec:
  assumes h: "heap_at m s C F fl" and i: "i < NR_BUCKETS" "C i = xs @ b # ys" and f: "PAGING_PAGES < fuel E"
    and c: "c \<le> int (bucket_size i)"
  shows "i \<in> set js \<Longrightarrow> set js \<subseteq> {..<NR_BUCKETS} \<Longrightarrow>
    find_bucket E m (bd_page (bdescs m b)) c js s = Ret (Some (i, last (0 # xs), b)) s"
proof (induction js)
  case (Cons j js)
  then show ?case using find_page_spec [OF h i _ f, of j] c by auto
qed simp

lemma free_page_phys: "free_page a s = Ret () t \<Longrightarrow> phys t = phys s"
  by (auto simp: free_page_def Let_def split: if_splits)

lemma live_remove_bucket:
  assumes C: "C i = xs @ b # ys" and i: "i < NR_BUCKETS" and pg: "\<And>c. bd_page (bdescs m2 c) = bd_page (bdescs m c)"
    and full: "objects (bd_page (bdescs m b)) (bucket_size i) \<subseteq> set (fl b)"
    and one: "\<And>j. b \<in> set (C j) \<Longrightarrow> j < NR_BUCKETS \<Longrightarrow> j = i"
  shows "live m2 (C(i := xs @ ys)) fl = live m C fl"
proof (intro equalityI subsetI)
  fix y assume "y \<in> live m2 (C(i := xs @ ys)) fl"
  then obtain a j c where y: "y = (a, bucket_size j)" "j < NR_BUCKETS" "c \<in> set ((C(i := xs @ ys)) j)"
    "a \<in> objects (bd_page (bdescs m2 c)) (bucket_size j)" "a \<notin> set (fl c)" by (rule liveE)
  then have "c \<in> set (C j)" using C by (auto split: if_splits)
  then show "y \<in> live m C fl" using y pg liveI [of j c C a m fl] by simp
next
  fix y assume "y \<in> live m C fl"
  then obtain a j c where y: "y = (a, bucket_size j)" "j < NR_BUCKETS" "c \<in> set (C j)"
    "a \<in> objects (bd_page (bdescs m c)) (bucket_size j)" "a \<notin> set (fl c)" by (rule liveE)
  have "c \<noteq> b" using y full one by blast
  then have "c \<in> set ((C(i := xs @ ys)) j)" using y(3) C by auto
  then show "y \<in> live m2 (C(i := xs @ ys)) fl" using y pg liveI [of j c "C(i := xs @ ys)" a m2 fl] by simp
qed

lemma used_remove: "i < NR_BUCKETS \<Longrightarrow> C i = xs @ b # ys \<Longrightarrow> used (C(i := xs @ ys)) \<subseteq> used C"
  by (auto simp: used_def split: if_splits)

lemma bchain_last: "bchain nx a (zs @ q # b # ys) \<Longrightarrow> nx q = b"
  by (induction zs arbitrary: a) auto

text \<open>The links after a descriptor left its chain for the free list.\<close>

definition unlinked :: "nat \<Rightarrow> u32 list \<Rightarrow> u32 \<Rightarrow> malloc_state \<Rightarrow> malloc_state \<Rightarrow> bool" where
  "unlinked i xs b m m2 \<longleftrightarrow>
     (\<forall>c. bdescs m2 c = (bdescs m c)\<lparr>bd_next := if c = b then free_bucket_desc m
        else if xs \<noteq> [] \<and> c = last xs then bd_next (bdescs m b) else bd_next (bdescs m c)\<rparr>) \<and>
     bucket_chain m2 = (if xs = [] then (bucket_chain m)(i := bd_next (bdescs m b)) else bucket_chain m) \<and> free_bucket_desc m2 = b"

lemma unlinked_chain:
  assumes u: "unlinked i xs b m m2" and c: "bchain (\<lambda>c. bd_next (bdescs m c)) (bucket_chain m i) (xs @ b # ys)" "distinct (xs @ b # ys)"
  shows "bchain (\<lambda>c. bd_next (bdescs m2 c)) (bucket_chain m2 i) (xs @ ys)"
proof -
  let ?nx = "\<lambda>c. bd_next (bdescs m c)" and ?nx2 = "\<lambda>c. bd_next (bdescs m2 c)"
  show ?thesis
  proof (cases xs rule: rev_cases)
    case Nil
    have "bchain ?nx2 (?nx b) ys = bchain ?nx (?nx b) ys" using u c(2) Nil by (intro bchain_cong) (auto simp: unlinked_def)
    then show ?thesis using c u Nil by (auto simp: unlinked_def)
  next
    case (snoc zs q)
    have "bchain (?nx(q := ?nx b)) (bucket_chain m i) (zs @ q # ys)" using bchain_remove [of ?nx _ zs q b ys] c snoc by simp
    moreover have "bchain ?nx2 x (zs @ q # ys) = bchain (?nx(q := ?nx b)) x (zs @ q # ys)" for x
      using u c(2) snoc by (intro bchain_cong) (auto simp: unlinked_def)
    ultimately show ?thesis using u snoc by (simp add: unlinked_def)
  qed
qed

lemma unlinked_heap:
  assumes h: "heap_at m s C F fl" and i: "i < NR_BUCKETS" and C: "C i = xs @ b # ys" and u: "unlinked i xs b m m2"
    and t: "page_refs t = (page_refs s)(bd_page (bdescs m b) := n)" "high_used t" "phys t = phys s"
  shows "heap_at m2 t (C(i := xs @ ys)) (b # F) fl" (is "heap_at _ _ ?C _ _")
proof -
  note D = heap_atD [OF h]
  have bi: "b \<in> set (C i)" and d: "distinct (xs @ b # ys)" using C D(3) [OF i] by auto
  have bu: "b \<in> used C" using in_used i bi by metis
  have sub: "used ?C \<subseteq> used C" using used_remove [of i C, OF i C] .
  have nb: "c \<noteq> b" if "c \<in> used ?C" for c
    using that d bucket_unique [OF h i bi] by (auto simp: used_def split: if_splits)
  have same: "bd_page (bdescs m2 c) = bd_page (bdescs m c)" "bucket_at m2 t j c x = bucket_at m t j c x" for c j x
    using u by (simp_all add: unlinked_def bucket_at_def)
  have lst: "last xs \<in> set (C i)" if "xs \<noteq> []" using that C by simp
  have other: "bchain (\<lambda>c. bd_next (bdescs m2 c)) x zs = bchain (\<lambda>c. bd_next (bdescs m c)) x zs" if "set zs \<inter> set (C i) = {}" for x zs
    using that u bi lst by (intro bchain_cong) (auto simp: unlinked_def)
  have pgb: "bd_page (bdescs m c) \<noteq> bd_page (bdescs m b)" if "c \<in> used ?C" for c
    using D(9) [of c b] that sub bu nb by blast
  show ?thesis
  proof (rule heap_atI)
    show "bchain (\<lambda>c. bd_next (bdescs m2 c)) (bucket_chain m2 j) (?C j)" if j: "j < NR_BUCKETS" for j
    proof (cases "j = i")
      case True
      then show ?thesis using unlinked_chain [OF u D(2) [OF i, unfolded C] d] by simp
    next
      case False
      then have "set (C j) \<inter> set (C i) = {}" using D(5) [OF j i] by simp
      moreover have "bucket_chain m2 j = bucket_chain m j" using u False by (simp add: unlinked_def)
      ultimately show ?thesis using D(2) [OF j] other False by simp
    qed
    show "distinct (?C j)" if "j < NR_BUCKETS" for j using D(3) [OF that] d by auto
    show "set (?C j) \<inter> set (b # F) = {}" if "j < NR_BUCKETS" for j
      using D(4) [OF that] D(4) [OF i] C d bucket_unique [OF h i bi, of j] that by (auto split: if_splits)
    show "set (?C j) \<inter> set (?C k) = {}" if "j < NR_BUCKETS" "k < NR_BUCKETS" "j \<noteq> k" for j k
      using D(5) [OF that] C by (auto split: if_splits)
    show "bucket_at m2 t j c (fl c)" if j: "j < NR_BUCKETS" "c \<in> set (?C j)" for j c
    proof -
      have "c \<in> set (C j)" using j C by (auto split: if_splits)
      then have "bucket_at m s j c (fl c)" using D(6) [OF j(1)] by blast
      then show ?thesis using pgb [of c] in_used [of j c ?C] j t unfolding same by (simp add: bucket_at_def)
    qed
    have "bchain (\<lambda>c. bd_next (bdescs m2 c)) (free_bucket_desc m) F" using other [of F] D(4) [OF i] D(7) by (simp add: Int_commute)
    then show "bchain (\<lambda>c. bd_next (bdescs m2 c)) (free_bucket_desc m2) (b # F)"
      using bchain_nz [OF D(2) [OF i]] bi u by (auto simp: unlinked_def)
    show "distinct (b # F)" using D(8) D(4) [OF i] bi by auto
    show "x = y" if "x \<in> used ?C" "y \<in> used ?C" "bd_page (bdescs m2 x) = bd_page (bdescs m2 y)" for x y
      using that D(9) [of x y] sub unfolding same by blast
    show "0 < page_refs t (x AND PAGE_MASK)" if "x \<in> used ?C \<union> set (b # F)" for x
      using that D(10) [of x] D(11) [of x b] sub bu t(1) by auto
    show "x AND PAGE_MASK \<noteq> bd_page (bdescs m2 y)" if "x \<in> used ?C \<union> set (b # F)" "y \<in> used ?C" for x y
      using that D(11) [of x y] sub bu unfolding same by auto
  qed (rule t(2))
qed

lemma unlink_bucket_spec:
  assumes h: "heap_at m s C F fl" and i: "i < NR_BUCKETS" and C: "C i = xs @ b # ys"
  shows "\<exists>m2 t. unlink_bucket E i (last (0 # xs)) b m s = Ret m2 t \<and> heap_at m2 t (C(i := xs @ ys)) (b # F) fl \<and>
    phys t = phys s \<and> (\<forall>c. bd_page (bdescs m2 c) = bd_page (bdescs m c) \<and> bd_refcnt (bdescs m2 c) = bd_refcnt (bdescs m c))"
proof -
  note D = heap_atD [OF h]
  have bi: "b \<in> set (C i)" using C by simp
  have "0 < page_refs s (bd_page (bdescs m b))" using D(6) [OF i bi] by (simp add: bucket_at_def)
  from pages.free_page [OF D(1) this] obtain t where t: "free_page (bd_page (bdescs m b)) s = Ret () t"
    "page_refs t = (page_refs s)(bd_page (bdescs m b) := page_refs s (bd_page (bdescs m b)) - 1)" "high_used t" by blast
  have ch: "bchain (\<lambda>c. bd_next (bdescs m c)) (bucket_chain m i) (xs @ b # ys)" "distinct (xs @ b # ys)" using D(2,3) [OF i] C by simp_all
  have "\<exists>m2. unlink_bucket E i (last (0 # xs)) b m s = Ret m2 t \<and> unlinked i xs b m m2"
  proof (cases xs rule: rev_cases)
    case Nil
    then have "bucket_chain m i = b" using ch by simp
    then show ?thesis using Nil t(1) by (simp add: unlink_bucket_def unlinked_def upd_bdesc_def)
  next
    case (snoc zs q)
    have q: "q \<noteq> 0" "q \<noteq> b" using bchain_nz [OF ch(1)] ch(2) snoc by auto
    have "bd_next (bdescs m q) = b" using bchain_last [of "\<lambda>c. bd_next (bdescs m c)" _ zs q b ys] ch(1) snoc by simp
    then show ?thesis using snoc q t(1) by (simp add: unlink_bucket_def unlinked_def upd_bdesc_def)
  qed
  then obtain m2 where m2: "unlink_bucket E i (last (0 # xs)) b m s = Ret m2 t" "unlinked i xs b m m2" by blast
  have "phys t = phys s" using free_page_phys t(1) by blast
  moreover have "heap_at m2 t (C(i := xs @ ys)) (b # F) fl" using unlinked_heap [OF h i C m2(2) t(2,3)] calculation by blast
  ultimately show ?thesis using m2 by (auto simp: unlinked_def)
qed

lemma all_free:
  assumes "bucket_at m s i b fl" "i < NR_BUCKETS" "bd_refcnt (bdescs m b) = 0"
  shows "objects (bd_page (bdescs m b)) (bucket_size i) \<subseteq> set fl"
proof -
  let ?o = "objects (bd_page (bdescs m b)) (bucket_size i)"
  have fr: "is_frame (bd_page (bdescs m b))" using assms(1) page_refs_frame by (auto simp: bucket_at_def)
  have "card ?o = 4096 div bucket_size i"
    using distinct_card [OF object_list(2) [OF fr assms(2)]] object_list(1,3) [OF fr assms(2)] by simp
  moreover have "card (set fl) = 4096 div bucket_size i" "set fl \<subseteq> ?o"
    using assms(1,3) distinct_card [of fl] by (auto simp: bucket_at_def)
  moreover have "finite ?o" by (simp add: objects_def)
  ultimately show ?thesis using card_subset_eq [of ?o "set fl"] by simp
qed

lemma live_addr:
  assumes h: "heap_at m s C F fl" and q: "(q, n) \<in> live m C fl" and k: "k < n"
  shows "unat (q + of_nat k) = unat q + k"
proof -
  obtain i b where b: "n = bucket_size i" "i < NR_BUCKETS" "b \<in> set (C i)" "q \<in> objects (bd_page (bdescs m b)) (bucket_size i)"
    using q by (rule liveE) auto
  note fb = bucket_page [OF h b(2,3)]
  obtain j where j: "j < 4096 div bucket_size i" "q = bd_page (bdescs m b) + of_nat (j * bucket_size i)"
      "unat q = unat (bd_page (bdescs m b)) + j * bucket_size i"
    using object_addr(1) [OF fb b(2,4)] by blast
  have "j * bucket_size i + k < 4096" using object_offset [OF b(2) j(1)] k b(1) by linarith
  from frame_addr(1) [OF fb this] show ?thesis unfolding j(3) unfolding j(2) by (simp add: add.assoc)
qed

text \<open>C33: The kernel's \<^verbatim>\<open>free_s\<close> releases exactly the object it is given, whether the caller tells its size or passes 0: it always
  returns, leaves a sound heap in which the other objects, and only they, are in use, and changes no byte of them. A page whose
  last object is released goes back to the page allocator.\<close>

theorem free_s_releases:
  assumes heap: "heap m s A" and p: "(p, n) \<in> A" and c: "c \<le> int n" and fuel: "PAGING_PAGES < fuel E"
  shows "\<exists>m' t. free_s E p c m s = Ret m' t \<and> heap m' t (A - {(p, n)}) \<and>
    (\<forall>(q, k) \<in> A - {(p, n)}. \<forall>j < k. phys t (q + of_nat j) = phys s (q + of_nat j))"
proof -
  obtain C F fl where h: "heap_at m s C F fl" and rc: "\<And>c. c \<in> used C \<Longrightarrow> bd_refcnt (bdescs m c) \<noteq> 0" and A: "A = live m C fl"
    using heap unfolding heap_def by blast
  obtain i b where b: "n = bucket_size i" "i < NR_BUCKETS" "b \<in> set (C i)" "p \<in> objects (bd_page (bdescs m b)) (bucket_size i)"
    using p [unfolded A] by (rule liveE) auto
  obtain xs ys where xy: "C i = xs @ b # ys" using b(3) by (meson split_list)
  have pg: "p AND PAGE_MASK = bd_page (bdescs m b)" using object_addr(2) [OF bucket_page [OF h b(2,3)] b(2,4)] .
  have bu: "b \<in> used C" using in_used b(2,3) by metis
  define m1 where "m1 = upd_bdesc b (\<lambda>d. d\<lparr>bd_freeptr := p, bd_refcnt := bd_refcnt d - 1\<rparr>) m"
  define t1 where "t1 = set_phys p (bd_freeptr (bdescs m b)) s"
  note r = return_object [OF h b(2,3) p [unfolded A] pg rc [OF bu] m1_def t1_def]
  have fb: "find_bucket E m (p AND PAGE_MASK) c [0..<NR_BUCKETS] s = Ret (Some (i, last (0 # xs), b)) s"
    unfolding pg by (rule find_bucket_spec [OF h b(2) xy fuel]) (use c b(1,2) in auto)
  have rc1: "bd_refcnt (bdescs m1 d) \<noteq> 0" if "d \<in> used C" "d \<noteq> b" for d using rc that by (simp add: m1_def upd_bdesc_def)
  have fs: "free_s E p c m s = (if bd_refcnt (bdescs m1 b) = 0 then unlink_bucket E i (last (0 # xs)) b m1 t1 else Ret m1 t1)"
    using fb by (simp add: free_s_def m1_def t1_def Let_def)
  have kept: "phys t1 (q + of_nat j) = phys s (q + of_nat j)" if q: "(q, k) \<in> A - {(p, n)}" "j < k" for q k j
  proof -
    have "unat p + n \<le> unat q \<or> unat q + k \<le> unat p" using live_disjoint [OF h p [unfolded A], of q k] q A by auto
    moreover have "unat (q + of_nat j) = unat q + j" using live_addr [OF h, of q k] q A by blast
    ultimately have "q + of_nat j \<noteq> p" using q(2) bucket_sizes(1) [OF b(2)] b(1) by auto
    then show ?thesis by (simp add: t1_def)
  qed
  show ?thesis
  proof (cases "bd_refcnt (bdescs m1 b) = 0")
    case False
    then have "\<And>d. d \<in> used C \<Longrightarrow> bd_refcnt (bdescs m1 d) \<noteq> 0" using rc1 by blast
    then have "heap m1 t1 (A - {(p, n)})" unfolding heap_def A using r by metis
    then show ?thesis using fs False kept by auto
  next
    case True
    let ?fl = "fl(b := p # fl b)" and ?C = "C(i := xs @ ys)"
    from unlink_bucket_spec [OF r(1) b(2) xy, of E] obtain m2 t where
      m2: "unlink_bucket E i (last (0 # xs)) b m1 t1 = Ret m2 t" "heap_at m2 t ?C (b # F) ?fl" "phys t = phys t1"
        "\<And>d. bd_page (bdescs m2 d) = bd_page (bdescs m1 d)" "\<And>d. bd_refcnt (bdescs m2 d) = bd_refcnt (bdescs m1 d)" by blast
    have "live m2 ?C ?fl = live m1 C ?fl"
      using all_free [OF heap_atD(6) [OF r(1) b(2,3)] b(2) True] bucket_unique [OF h b(2,3)]
      by (intro live_remove_bucket [of C i xs b ys, OF xy b(2) m2(4)]) auto
    then have lv: "live m2 ?C ?fl = A - {(p, n)}" using r(2) A by simp
    have "bd_refcnt (bdescs m2 d) \<noteq> 0" if "d \<in> used ?C" for d
    proof -
      have "d \<noteq> b" using heap_atD(4) [OF m2(2)] that by (fastforce simp: used_def)
      then show ?thesis using rc1 [of d] that used_remove [of i C, OF b(2) xy] m2(5) by auto
    qed
    then have "heap m2 t (A - {(p, n)})" unfolding heap_def using m2(2) lv by metis
    then show ?thesis using fs True m2(1,3) kept by auto
  qed
qed

text \<open>A heap with one object of 4096 bytes: its descriptor is on the first frame, the object is the second.\<close>

definition one_object :: malloc_state where
  "one_object = \<lparr>bdescs = (\<lambda>_. \<lparr>bd_page = 0x101000, bd_next = 0, bd_freeptr = 0, bd_refcnt = 1, bd_bucket_size = 4096\<rparr>),
     bucket_chain = (\<lambda>i. if i = 8 then 0x100000 else 0), free_bucket_desc = 0\<rparr>"

definition two_frames :: kernel where
  "two_frames = k0\<lparr>HIGH_MEMORY := 0x1000000, mem_map := (\<lambda>n. if n < 2 then 1 else 0)\<rparr>"

lemma one_object_heap: "heap one_object two_frames {(0x101000, 4096)}"
proof -
  have pn: "page_of_nr 0 = 0x100000" "page_of_nr 1 = 0x101000" by (simp_all add: page_of_nr_def)
  have fr: "is_frame 0x100000" "is_frame 0x101000"
    using is_frame_page_of_nr [of 0] is_frame_page_of_nr [of 1] unfolding pn by simp_all
  have nr: "MAP_NR 0x100000 = 0" "MAP_NR 0x101000 = 1"
    using MAP_NR_page_of_nr [of 0] MAP_NR_page_of_nr [of 1] unfolding pn by simp_all
  have rf: "page_refs two_frames 0x100000 = 1" "page_refs two_frames 0x101000 = 1"
    using fr nr by (simp_all add: page_refs_def two_frames_def)
  have hi: "high_used two_frames"
  proof -
    have "\<not> 0x1000000 \<le> page_of_nr n" if "n < PAGING_PAGES" for n using that by (simp add: word_le_nat_alt unat_page_of_nr)
    then show ?thesis by (auto simp: high_used_def two_frames_def)
  qed
  have sz: "bucket_size 8 = 4096" by (simp add: bucket_size_def)
  have ob: "objects 0x101000 4096 = {0x101000}" by (auto simp: objects_def)
  define C where "C = (\<lambda>i :: nat. if i = 8 then [0x100000 :: u32] else [])"
  have u: "used C = {0x100000}" by (auto simp: used_def C_def)
  have "heap_at one_object two_frames C [] (\<lambda>_. [])"
    by (rule heap_atI) (use hi rf in \<open>auto simp: C_def u [unfolded C_def] one_object_def bucket_at_def sz ob split: if_splits\<close>)
  moreover have "live one_object C (\<lambda>_. []) = {(0x101000, 4096)}"
    by (auto simp: live_def C_def one_object_def sz ob)
  ultimately show ?thesis unfolding heap_def using u by (intro exI conjI) (auto simp: one_object_def)
qed

theorem malloc_fresh_witness:
  "(\<exists>msg u. malloc (quiet_env 4000) 100 one_object two_frames = Panic msg u \<and> fst (get_free_page u) = 0) \<or>
   (\<exists>p sz m' t. malloc (quiet_env 4000) 100 one_object two_frames = Ret (p, m') t \<and> 100 \<le> sz \<and>
      heap m' t {(p, sz), (0x101000, 4096)})"
proof -
  have "PAGING_PAGES < fuel (quiet_env 4000)" by (simp add: quiet_env_def)
  from malloc_fresh [OF one_object_heap _ this, of 100] show ?thesis by simp blast
qed

theorem free_s_releases_witness:
  "\<exists>m' t. free_s (quiet_env 4000) 0x101000 0 one_object two_frames = Ret m' t \<and> heap m' t {}"
proof -
  have "PAGING_PAGES < fuel (quiet_env 4000)" by (simp add: quiet_env_def)
  from free_s_releases [OF one_object_heap _ _ this, of "0x101000" 4096 0] show ?thesis by simp
qed

end
