(* ===== verification/RamDisk.thy ===== *)
theory RamDisk
  imports Cache
begin

text \<open>
  Reading a block from the RAM disk, across the buffer cache (fs/buffer.c), the block device layer
  (kernel/blk_drv/ll_rw_blk.c) and the driver (kernel/blk_drv/ramdisk.c).
\<close>

subsection \<open>What the buffer cache leaves alone\<close>

definition blk_part :: "kernel \<Rightarrow> (nat \<Rightarrow> request) \<times> (nat \<Rightarrow> blk_dev_struct) \<times> u32 \<times> int \<times> (nat \<Rightarrow> u8)" where
  "blk_part s = (request s, blk_dev s, rd_start s, rd_length s, rd_data s)"

lemma blk_part_upd [simp]:
  "blk_part (upd_buf i f s) = blk_part s" "blk_part (s\<lparr>hash_table := h\<rparr>) = blk_part s" "blk_part (s\<lparr>free_list := l\<rparr>) = blk_part s"
  "blk_part (s\<lparr>phys := p\<rparr>) = blk_part s"
  by (simp_all add: blk_part_def upd_buf_def)

lemma blk_part_case [simp]:
  "blk_part (case x of None \<Rightarrow> s | Some n \<Rightarrow> upd_buf n (g n) s) = blk_part s"
  "blk_part (if c then s\<lparr>hash_table := h\<rparr> else s) = blk_part s" "blk_part (if c then s\<lparr>free_list := l\<rparr> else s) = blk_part s"
  "blk_part (case x of None \<Rightarrow> s\<lparr>phys := p\<rparr> | Some n \<Rightarrow> upd_buf n (g n) s) = blk_part s"
  by (cases x; simp)+

lemma kpred_let_state:
  "blk_part e = z \<Longrightarrow> (\<And>s. blk_part s = z \<Longrightarrow> kpred (\<lambda>t. blk_part t = z) (f s)) \<Longrightarrow> kpred (\<lambda>t. blk_part t = z) (let s = e in f s)"
  by (simp add: Let_def)

lemma kpred_let_value: "(\<And>x. kpred P (f x)) \<Longrightarrow> kpred P (let x = (e :: nat) in f x)"
  by (simp add: Let_def)

lemma remove_from_queues_blk: "kpred (\<lambda>t. blk_part t = blk_part s) (remove_from_queues j s)"
  unfolding remove_from_queues_def
  by (intro kpred_let_state kpred_let_value) (auto intro!: kpred_let_state split: option.split prod.split)

lemma insert_into_queues_blk: "kpred (\<lambda>t. blk_part t = blk_part s) (insert_into_queues j s)"
proof (cases "free_list s")
  case (Some f)
  show ?thesis
    unfolding insert_into_queues_def Some option.case
    by (intro kpred_let_state kpred_let_value) (auto intro!: kpred_let_state kpred_let_value split: option.split)
qed (simp add: insert_into_queues_def)

lemma getblk_miss_blk:
  assumes c: "cache_ok s H F" and f: "NR_BUFFERS s < fuel E" and d: "dev \<noteq> 0"
    and n: "\<forall>i<NR_BUFFERS s. key s i \<noteq> (dev, block)" and j: "find (reusable s) F = Some j"
    and t: "getblk_with E sync dev block s = Ret i t"
  shows "blk_part t = blk_part s"
proof -
  have jr: "reusable s j" using j by (auto simp: find_Some_iff)
  have jb: "b_count (bufs s j) = 0" "\<not> b_dirt (bufs s j)" "\<not> b_lock (bufs s j)"
    using jr by (auto simp: reusable_def BADNESS_def split: if_splits)
  let ?s = "upd_buf j (\<lambda>b. b\<lparr>b_count := 1, b_dirt := False, b_uptodate := False\<rparr>) s"
  let ?q = "kbind (remove_from_queues j ?s) (\<lambda>_ s.
      let s = upd_buf j (\<lambda>b. b\<lparr>b_dev := dev, b_blocknr := block\<rparr>) s in kbind (insert_into_queues j s) (\<lambda>_ s. Ret (Some j) s))"
  obtain k where k: "getblk_with E sync dev block s = kbind ?q (\<lambda>r s. case r of Some a \<Rightarrow> Ret a s | None \<Rightarrow> k s)"
    using f jb get_hash_table_miss [OF c f d n]
    by (simp add: getblk_with_def kloop_unfold scan_free_spec [OF c f j] wait_on_buffer_unlocked write_out_clean)
  from t [unfolded k] obtain u v where "remove_from_queues j ?s = Ret () u"
    "insert_into_queues j (upd_buf j (\<lambda>b. b\<lparr>b_dev := dev, b_blocknr := block\<rparr>) u) = Ret () v" "t = v"
    by (auto simp: kbind_eq_Ret_iff Let_def)
  then show ?thesis
    using remove_from_queues_blk [of ?s j] insert_into_queues_blk [of "upd_buf j (\<lambda>b. b\<lparr>b_dev := dev, b_blocknr := block\<rparr>) u" j] by simp
qed

subsection \<open>The driver\<close>

text \<open>What the driver leaves alone of the cache.\<close>

definition cache_part :: "kernel \<Rightarrow> (nat \<Rightarrow> nat option) \<times> nat option \<times> nat" where
  "cache_part s = (hash_table s, free_list s, NR_BUFFERS s)"

definition rd_part :: "kernel \<Rightarrow> u32 \<times> int \<times> (nat \<Rightarrow> u8)" where
  "rd_part s = (rd_start s, rd_length s, rd_data s)"

lemma blk_ops [simp]:
  "bufs (wake_up q s) = bufs s" "request (wake_up q s) = request s" "blk_dev (wake_up q s) = blk_dev s"
  "wq (upd_req r f s) = wq s" "bufs (upd_req r f s) = bufs s" "blk_dev (upd_req r f s) = blk_dev s" "request (upd_req r f s) = (request s)(r := f (request s r))"
  "request (upd_buf b g s) = request s" "blk_dev (upd_buf b g s) = blk_dev s" "bufs (upd_buf b g s) = (bufs s)(b := g (bufs s b))"
  "bufs (set_current_request m c s) = bufs s" "request (set_current_request m c s) = request s"
  "blk_dev (set_current_request m c s) = (blk_dev s)(m := (blk_dev s m)\<lparr>current_request := c\<rparr>)"
  by (simp_all add: upd_req_def upd_buf_def set_current_request_def wake_up_def upd_task_def)

lemma other_parts [simp]:
  "cache_part (wake_up q s) = cache_part s" "cache_part (upd_req r f s) = cache_part s" "cache_part (upd_buf b g s) = cache_part s"
  "cache_part (set_current_request m c s) = cache_part s" "cache_part (s\<lparr>wq := w\<rparr>) = cache_part s"
  "rd_part (wake_up q s) = rd_part s" "rd_part (upd_req r f s) = rd_part s" "rd_part (upd_buf b g s) = rd_part s"
  "rd_part (set_current_request m c s) = rd_part s" "rd_part (s\<lparr>wq := w\<rparr>) = rd_part s"
  by (simp_all add: cache_part_def rd_part_def upd_req_def upd_buf_def set_current_request_def wake_up_def upd_task_def)

lemma end_request_rd:
  assumes "current_request (blk_dev s 1) = Some r" "r_bh (request s r) = Some bh" "r_next (request s r) = None"
  shows "\<exists>t. end_request 1 True s = Ret () t \<and> cache_part t = cache_part s \<and> rd_part t = rd_part s \<and>
    bufs t = (bufs s)(bh := (bufs s bh)\<lparr>b_uptodate := True, b_lock := False\<rparr>) \<and> current_request (blk_dev t 1) = None"
  using assms by (simp add: end_request_def unlock_buffer_def Let_def)

lemma rd_sector:
  fixes block :: u32
  assumes "1024 * (unat block + 1) < 2 ^ 32"
  shows "unat (push_bit 9 (push_bit 1 block)) = 1024 * unat block"
proof -
  have "unat (of_nat (1024 * unat block) :: u32) = 1024 * unat block" using assms by (intro unat_of_nat32) simp
  then show ?thesis by (simp add: push_bit_eq_mult)
qed

lemma rd_in_bounds:
  assumes disk: "1024 * (unat block + 1) \<le> nat (rd_length s)" "unat (rd_start s) + nat (rd_length s) < 2 ^ 32"
  shows "\<not> rd_start s + word_of_int (rd_length s) < rd_start s + push_bit 9 (push_bit 1 block) + push_bit 9 2"
proof -
  have n: "rd_length s = int (nat (rd_length s))" using disk by simp
  have "rd_start s + push_bit 9 (push_bit 1 block) + push_bit 9 2 = of_nat (unat (rd_start s) + 1024 * (unat block + 1))"
    by (simp add: push_bit_eq_mult algebra_simps)
  moreover have "rd_start s + word_of_int (rd_length s) = of_nat (unat (rd_start s) + nat (rd_length s))" by (subst n) simp
  moreover have "unat (rd_start s) + 1024 * (unat block + 1) < 2 ^ 32" using disk by linarith
  ultimately show ?thesis
    unfolding word_less_nat_alt using disk by (metis unat_of_nat32 add_le_cancel_left leD)
qed

lemma do_rd_request_read:
  assumes q: "current_request (blk_dev s 1) = Some r"
      "request s r = \<lparr>r_dev = 0x101, r_cmd = READ, r_errors = e, r_sector = push_bit 1 block, r_nr_sectors = 2, r_buffer = 0,
         r_bh = Some bh, r_next = None\<rparr>" "b_lock (bufs s bh)"
    and disk: "1024 * (unat block + 1) \<le> nat (rd_length s)" "unat (rd_start s) + nat (rd_length s) < 2 ^ 32" and f: "1 < fuel E"
  shows "\<exists>t. do_rd_request E s = Ret () t \<and> cache_part t = cache_part s \<and> rd_part t = rd_part s \<and>
    bufs t = (bufs s)(bh := (bufs s bh)\<lparr>b_data := (\<lambda>k. if k < 1024 then rd_data s (1024 * unat block + k) else b_data (bufs s bh) k),
       b_uptodate := True, b_lock := False\<rparr>)"
proof -
  have "1024 * (unat block + 1) < 2 ^ 32" using disk by linarith
  note sec = rd_sector [OF this]
  have len: "int (1024 * unat block + 1024) \<le> rd_length s"
    using disk(1) by (subst le_nat_iff [symmetric]) (cases "0 \<le> rd_length s"; simp)+
  define s1 where "s1 = upd_buf bh (\<lambda>b. b\<lparr>b_data := (\<lambda>k. if k < 1024 then rd_data s (1024 * unat block + k) else b_data b k)\<rparr>) s"
  have tr: "rd_transfer r s = Ret () s1"
    using len unfolding rd_transfer_def s1_def q(2) using sec by (simp add: Let_def del: of_nat_add of_nat_mult cong: if_cong)
  have e: "current_request (blk_dev s1 1) = Some r" "r_bh (request s1 r) = Some bh" "r_next (request s1 r) = None"
    using q by (simp_all add: s1_def)
  from end_request_rd [OF e] obtain t where t: "end_request 1 True s1 = Ret () t" "cache_part t = cache_part s1"
    "rd_part t = rd_part s1" "bufs t = (bufs s1)(bh := (bufs s1 bh)\<lparr>b_uptodate := True, b_lock := False\<rparr>)"
    "current_request (blk_dev t 1) = None" by blast
  have i: "INIT_REQUEST 1 s = Ret (Some r) s" using q by (simp add: INIT_REQUEST_def dev_major_def)
  have i2: "INIT_REQUEST 1 t = Ret None t" using t by (simp add: INIT_REQUEST_def)
  have "do_rd_request E s = Ret () t"
    using f rd_in_bounds [OF disk] unfolding do_rd_request_def by (simp add: kloop_unfold i [unfolded One_nat_def] i2 [unfolded One_nat_def] q(2) tr t(1) [unfolded One_nat_def] Let_def)
  then show ?thesis using t by (simp add: s1_def)
qed

subsection \<open>A read through the request queue\<close>

text \<open>A read of block \<open>block\<close> of the RAM disk into an unlocked buffer, with an idle driver and a free request.\<close>

definition rd_idle :: "kernel \<Rightarrow> bool" where
  "rd_idle s \<longleftrightarrow> request_fn (blk_dev s 1) = Some Do_rd_request \<and> current_request (blk_dev s 1) = None \<and>
     (\<exists>i<NR_REQUEST. r_dev (request s i) < 0)"

lemma add_request_idle:
  assumes "current_request (blk_dev s m) = None" "r_bh (request s r) = Some bh"
  shows "add_request E m r s = call_request_fn E m (set_current_request m (Some r)
    (upd_buf bh (\<lambda>b. b\<lparr>b_dirt := False\<rparr>) (upd_req r (\<lambda>q. q\<lparr>r_next := None\<rparr>) s)))"
  using assms by (simp add: add_request_def Let_def)

lemma ll_rw_block_ramdisk:
  assumes b: "key s bh = (0x101, block)" "\<not> b_lock (bufs s bh)" "\<not> b_uptodate (bufs s bh)" and d: "rd_idle s"
    and disk: "1024 * (unat block + 1) \<le> nat (rd_length s)" "unat (rd_start s) + nat (rd_length s) < 2 ^ 32" and f: "1 < fuel E"
  shows "\<exists>t. ll_rw_block E READ bh s = Ret () t \<and> cache_part t = cache_part s \<and> rd_part t = rd_part s \<and>
    bufs t = (bufs s)(bh := (bufs s bh)\<lparr>b_dirt := False, b_data := (\<lambda>k. if k < 1024 then rd_data s (1024 * unat block + k) else b_data (bufs s bh) k),
       b_uptodate := True, b_lock := False\<rparr>)"
proof -
  obtain r where r: "find_down (\<lambda>i. r_dev (request s i) < 0) NR_REQUEST = Some r"
    using d by (cases "find_down (\<lambda>i. r_dev (request s i) < 0) NR_REQUEST") (auto simp: rd_idle_def find_down_None_iff)
  define s1 where "s1 = upd_buf bh (\<lambda>b. b\<lparr>b_lock := True\<rparr>) s"
  define s2 where "s2 = (upd_req r (\<lambda>q. \<lparr>r_dev = 0x101, r_cmd = READ, r_errors = 0, r_sector = push_bit 1 block,
    r_nr_sectors = 2, r_buffer = 0, r_bh = Some bh, r_next = None\<rparr>) s1)\<lparr>wq := (wq s1)(Req_waiting r := 0)\<rparr>"
  define s3 where "s3 = set_current_request 1 (Some r) (upd_buf bh (\<lambda>b. b\<lparr>b_dirt := False\<rparr>) (upd_req r (\<lambda>q. q\<lparr>r_next := None\<rparr>) s2))"
  have k: "b_dev (bufs s bh) = 0x101" "b_blocknr (bufs s bh) = block" using b(1) by (simp_all add: key_def)
  have i: "request_fn (blk_dev s 1) = Some Do_rd_request" "current_request (blk_dev s 1) = None" using d by (simp_all add: rd_idle_def)
  have s3: "request_fn (blk_dev s3 1) = Some Do_rd_request" "current_request (blk_dev s3 1) = Some r"
     "request s3 r = \<lparr>r_dev = 0x101, r_cmd = READ, r_errors = 0, r_sector = push_bit 1 block, r_nr_sectors = 2, r_buffer = 0,
         r_bh = Some bh, r_next = None\<rparr>" "b_lock (bufs s3 bh)" "cache_part s3 = cache_part s" "rd_part s3 = rd_part s"
    using i by (simp_all add: s1_def s2_def s3_def)
  have rd: "rd_length s3 = rd_length s" "rd_start s3 = rd_start s" "rd_data s3 = rd_data s" using s3(6) by (simp_all add: rd_part_def)
  have l: "lock_buffer E bh s = Ret () s1" using b f by (simp add: lock_buffer_def kloop_unfold s1_def)
  have m: "make_request E 1 READ bh s = kbind (add_request E 1 r s2) (\<lambda>_ s. Ret () s)"
    using f b k r unfolding make_request_def l by (simp add: kloop_unfold l s2_def s1_def Let_def kbind_assoc)
  have "ll_rw_block E READ bh s = make_request E 1 READ bh s"
    using i k by (simp add: ll_rw_block_def Let_def MAJOR_def)
  also have "\<dots> = kbind (do_rd_request E s3) (\<lambda>_ s. Ret () s)"
    using i s3(1) unfolding m by (subst add_request_idle) (simp_all add: s1_def s2_def s3_def call_request_fn_def)
  finally show ?thesis
    using do_rd_request_read [OF s3(2-4) _ _ f, unfolded rd, OF disk] s3(5,6) by (auto simp: s3_def s2_def s1_def cong: if_cong)
qed

lemma finish_read_uptodate:
  "\<not> b_lock (bufs s i) \<Longrightarrow> b_uptodate (bufs s i) \<Longrightarrow> 0 < fuel E \<Longrightarrow> finish_read E i s = Ret (Some i) s"
  by (simp add: finish_read_def wait_on_buffer_unlocked)

text \<open>What the buffer cache relies on when it reads from a device: once the device is ready, the request of
  \<^verbatim>\<open>ll_rw_block\<close> is served before it returns, with the bytes of the block, and no other buffer changes. The locale
  holds the reading half of \<^verbatim>\<open>bread\<close> for every such device.\<close>

locale block_reader =
  fixes dev :: u16 and ready :: "env \<Rightarrow> kernel \<Rightarrow> u32 \<Rightarrow> bool" and bytes :: "kernel \<Rightarrow> nat \<Rightarrow> u8"
  assumes reads: "key s bh = (dev, block) \<Longrightarrow> \<not> b_lock (bufs s bh) \<Longrightarrow> \<not> b_uptodate (bufs s bh) \<Longrightarrow> ready E s block \<Longrightarrow>
    \<exists>t. ll_rw_block E READ bh s = Ret () t \<and> cache_part t = cache_part s \<and> bytes t = bytes s \<and>
    bufs t = (bufs s)(bh := (bufs s bh)\<lparr>b_dirt := False, b_data := (\<lambda>k. if k < 1024 then bytes s (1024 * unat block + k)
      else b_data (bufs s bh) k), b_uptodate := True, b_lock := False\<rparr>)"
    and fuelled: "ready E s block \<Longrightarrow> 0 < fuel E"
begin

text \<open>After \<^verbatim>\<open>getblk\<close> the cache keeps its shape and only buffer \<open>i\<close> changes.\<close>

lemma bread_after_getblk:
  assumes g: "getblk_with E sync dev block s = Ret i t" and c: "cache_ok t H F"
    and i: "key t i = (dev, block)" "\<not> b_lock (bufs t i)" and d: "ready E t block"
  shows "\<exists>u. bread_with E sync dev block s = Ret (Some i) u \<and> cache_ok u H F \<and> NR_BUFFERS u = NR_BUFFERS t \<and> key u = key t \<and>
    bytes u = bytes t \<and> content u = (if b_uptodate (bufs t i) then content t else (content t)(i :=
      ((\<lambda>k. if k < 1024 then bytes t (1024 * unat block + k) else b_data (bufs t i) k), True, False, b_count (bufs t i), False)))"
proof (cases "b_uptodate (bufs t i)")
  case True
  then show ?thesis using g c i by (simp add: bread_with_def)
next
  case False
  from reads [OF i False d] obtain u where u: "ll_rw_block E READ i t = Ret () u" "cache_part u = cache_part t"
    "bytes u = bytes t" "bufs u = (bufs t)(i := (bufs t i)\<lparr>b_dirt := False, b_data := (\<lambda>k. if k < 1024 then bytes t (1024 * unat block + k)
       else b_data (bufs t i) k), b_uptodate := True, b_lock := False\<rparr>)" by blast
  have l: "nx u = nx t" "pv u = pv t" "nf u = nf t" "pf u = pf t" "key u = key t"
    using u(4) by (auto simp: nx_def pv_def nf_def pf_def key_def fun_eq_iff)
  have "cache_ok u H F" by (rule cache_ok_cong [OF c l]) (use u(2) in \<open>simp_all add: cache_part_def\<close>)
  moreover have "bread_with E sync dev block s = Ret (Some i) u"
    using fuelled [OF d] False u by (simp add: bread_with_def g finish_read_uptodate)
  moreover have "content u = (content t)(i :=
      ((\<lambda>k. if k < 1024 then bytes t (1024 * unat block + k) else b_data (bufs t i) k), True, False, b_count (bufs t i), False))"
    using u(4) by (simp add: content_def fun_eq_iff)
  ultimately show ?thesis using u(2,3) l(5) False by (simp add: cache_part_def)
qed

end

text \<open>The RAM disk is ready for a block inside it when its driver is idle.\<close>

definition rd_ready :: "env \<Rightarrow> kernel \<Rightarrow> u32 \<Rightarrow> bool" where
  "rd_ready E s block \<longleftrightarrow> 1 < fuel E \<and> rd_idle s \<and> 1024 * (unat block + 1) \<le> nat (rd_length s) \<and>
     unat (rd_start s) + nat (rd_length s) < 2 ^ 32"

interpretation rd: block_reader "0x101" rd_ready rd_data
proof
  show "\<exists>t. ll_rw_block E READ bh s = Ret () t \<and> cache_part t = cache_part s \<and> rd_data t = rd_data s \<and>
    bufs t = (bufs s)(bh := (bufs s bh)\<lparr>b_dirt := False, b_data := (\<lambda>k. if k < 1024 then rd_data s (1024 * unat block + k)
      else b_data (bufs s bh) k), b_uptodate := True, b_lock := False\<rparr>)"
    if "key s bh = (0x101, block)" "\<not> b_lock (bufs s bh)" "\<not> b_uptodate (bufs s bh)" "rd_ready E s block" for s bh block E
    using ll_rw_block_ramdisk [OF that(1-3), of E] that(4) by (auto simp: rd_ready_def rd_part_def)
qed (simp add: rd_ready_def)

subsection \<open>The disk as its users see it\<close>

text \<open>Byte \<open>k\<close> of block \<open>b\<close>: that of an up-to-date buffer for the block if there is one, else that of the disk. The
  cache is coherent when every clean, up-to-date buffer for the RAM disk has the bytes of the disk.\<close>

definition holds_block :: "kernel \<Rightarrow> u32 \<Rightarrow> nat \<Rightarrow> bool" where
  "holds_block s b i \<longleftrightarrow> key s i = (0x101, b) \<and> b_uptodate (bufs s i)"

definition rd_view :: "kernel \<Rightarrow> u32 \<Rightarrow> nat \<Rightarrow> u8" where
  "rd_view s b k = (case find (holds_block s b) [0..<NR_BUFFERS s] of
     Some i \<Rightarrow> b_data (bufs s i) k | None \<Rightarrow> rd_data s (1024 * unat b + k))"

definition rd_coherent :: "kernel \<Rightarrow> bool" where
  "rd_coherent s \<longleftrightarrow> (\<forall>i<NR_BUFFERS s. b_dev (bufs s i) = 0x101 \<and> b_uptodate (bufs s i) \<and> \<not> b_dirt (bufs s i) \<longrightarrow>
     (\<forall>k<1024. b_data (bufs s i) k = rd_data s (1024 * unat (b_blocknr (bufs s i)) + k)))"

lemma rd_view_held:
  assumes c: "cache_ok s H F" and i: "i < NR_BUFFERS s" "holds_block s b i"
  shows "rd_view s b k = b_data (bufs s i) k"
proof (cases "find (holds_block s b) [0..<NR_BUFFERS s]")
  case None
  then show ?thesis using i by (auto simp: find_None_iff)
next
  case (Some j)
  then have "j < NR_BUFFERS s" "holds_block s b j" by (auto simp: find_Some_iff)
  then have "i = j" using i cache_okD [OF c] by (auto simp: holds_block_def)
  then show ?thesis using Some by (simp add: rd_view_def)
qed

lemma rd_view_not_held: "\<forall>i<NR_BUFFERS s. \<not> holds_block s b i \<Longrightarrow> rd_view s b k = rd_data s (1024 * unat b + k)"
  by (cases "find (holds_block s b) [0..<NR_BUFFERS s]") (auto simp: rd_view_def find_Some_iff)

lemma kept_content:
  assumes "kept_others s i u" "j < NR_BUFFERS s" "j \<noteq> i"
  shows "key u j = key s j" "b_data (bufs u j) = b_data (bufs s j)" "b_uptodate (bufs u j) = b_uptodate (bufs s j)"
    "b_dirt (bufs u j) = b_dirt (bufs s j)" "b_dev (bufs u j) = b_dev (bufs s j)" "b_blocknr (bufs u j) = b_blocknr (bufs s j)"
  using assms by (auto simp: kept_others_def content_def key_def)

lemma rd_view_clean:
  assumes c: "cache_ok s H F" and r: "rd_coherent s" and i: "i < NR_BUFFERS s" "holds_block s b i" "\<not> b_dirt (bufs s i)" and k: "k < 1024"
  shows "rd_view s b k = rd_data s (1024 * unat b + k)"
  using rd_view_held [OF c i(1,2)] r i k by (auto simp: rd_coherent_def holds_block_def key_def)

text \<open>A step that brings block \<open>b\<close> into buffer \<open>i\<close> with the bytes users see, and gives up at most a clean buffer for it,
  leaves what users see of every block.\<close>

lemma rd_view_kept:
  assumes c: "cache_ok s H F" "cache_ok u H' F'" and r: "rd_coherent s" and u: "kept_others s i u" "rd_data u = rd_data s"
    and i: "i < NR_BUFFERS s" "holds_block u b i" "\<forall>k<1024. b_data (bufs u i) k = rd_view s b k"
    and e: "key s i \<noteq> key u i \<Longrightarrow> \<not> b_dirt (bufs s i)"
    and k: "k < 1024"
  shows "rd_view u b' k = rd_view s b' k"
proof (cases "b' = b")
  case True
  have "i < NR_BUFFERS u" using i(1) u(1) by (simp add: kept_others_def)
  from rd_view_held [OF c(2) this i(2)] show ?thesis using i(3) k True by simp
next
  case False
  then have ni: "\<not> holds_block u b' i" using i(2) by (simp add: holds_block_def)
  have N: "NR_BUFFERS u = NR_BUFFERS s" using u(1) by (simp add: kept_others_def)
  have same: "holds_block u b' j = holds_block s b' j" if "j < NR_BUFFERS s" "j \<noteq> i" for j
    using kept_content [OF u(1) that] by (simp add: holds_block_def)
  show ?thesis
  proof (cases "\<exists>j<NR_BUFFERS s. j \<noteq> i \<and> holds_block s b' j")
    case True
    then obtain j where j: "j < NR_BUFFERS s" "j \<noteq> i" "holds_block s b' j" by blast
    then have "rd_view s b' k = b_data (bufs s j) k" by (intro rd_view_held [OF c(1)])
    moreover have "rd_view u b' k = b_data (bufs u j) k" using j N same by (intro rd_view_held [OF c(2)]) simp_all
    ultimately show ?thesis using kept_content(2) [OF u(1) j(1,2)] by simp
  next
    case no: False
    have "\<not> holds_block u b' j" if "j < NR_BUFFERS s" for j using no ni same that by (cases "j = i") blast+
    then have vu: "rd_view u b' k = rd_data s (1024 * unat b' + k)" using N u(2) by (subst rd_view_not_held) simp_all
    show ?thesis
    proof (cases "holds_block s b' i")
      case True
      then have "key s i \<noteq> key u i" using i(2) False by (auto simp: holds_block_def)
      from rd_view_clean [OF c(1) r i(1) True e [OF this] k] vu show ?thesis by simp
    next
      case False
      then have "\<forall>j<NR_BUFFERS s. \<not> holds_block s b' j" using no by blast
      then show ?thesis using vu by (simp add: rd_view_not_held)
    qed
  qed
qed

lemma rd_coherent_kept:
  assumes r: "rd_coherent s" and u: "kept_others s i u" "rd_data u = rd_data s"
    and i: "b_dirt (bufs u i) \<or> (\<forall>k<1024. b_data (bufs u i) k = rd_data s (1024 * unat (b_blocknr (bufs u i)) + k))"
  shows "rd_coherent u"
proof -
  have "\<forall>k<1024. b_data (bufs u j) k = rd_data u (1024 * unat (b_blocknr (bufs u j)) + k)"
    if "j < NR_BUFFERS s" "b_dev (bufs u j) = 0x101" "b_uptodate (bufs u j)" "\<not> b_dirt (bufs u j)" for j
    using that r i u(2) kept_content [OF u(1) that(1)] by (cases "j = i") (auto simp: rd_coherent_def)
  then show ?thesis using u(1) by (simp add: rd_coherent_def kept_others_def)
qed

text \<open>What a read promises its caller: a pinned, unlocked, up-to-date buffer \<open>i\<close> with the bytes users see in block \<open>b\<close>;
  the cache stays sound and coherent, the disk is not written and no user sees a change in any block.\<close>

definition rd_read_ok :: "kernel \<Rightarrow> u32 \<Rightarrow> nat \<Rightarrow> kernel \<Rightarrow> bool" where
  "rd_read_ok s b i t \<longleftrightarrow> i < NR_BUFFERS s \<and> holds_block t b i \<and> \<not> b_lock (bufs t i) \<and> kept_others s i t \<and>
     (\<exists>H F. cache_ok t H F) \<and> rd_coherent t \<and> rd_data t = rd_data s \<and>
     (\<forall>k<1024. b_data (bufs t i) k = rd_view s b k) \<and> (\<forall>b'. \<forall>k<1024. rd_view t b' k = rd_view s b' k)"

lemma bread_ramdisk_core:
  assumes c: "cache_ok s H F" "cache_ok t H' F'" and r: "rd_coherent s" "rd_ready E s block"
    and g: "getblk_with E sync 0x101 block s = Ret i t" "i < NR_BUFFERS s" "key t i = (0x101, block)" "\<not> b_lock (bufs t i)"
      "kept_others s i t" "blk_part t = blk_part s"
    and h: "key s i = (0x101, block) \<and> b_data (bufs t i) = b_data (bufs s i) \<and> b_uptodate (bufs t i) = b_uptodate (bufs s i) \<and>
        b_dirt (bufs t i) = b_dirt (bufs s i) \<or>
      (\<forall>j<NR_BUFFERS s. key s j \<noteq> (0x101, block)) \<and> \<not> b_dirt (bufs s i) \<and> \<not> b_uptodate (bufs t i)"
  shows "\<exists>u. bread_with E sync 0x101 block s = Ret (Some i) u \<and> rd_read_ok s block i u \<and> b_count (bufs u i) = b_count (bufs t i)"
proof -
  have p: "rd_ready E t block" "rd_data t = rd_data s"
    using g(6) r(2) by (simp_all add: blk_part_def rd_ready_def rd_idle_def)
  from rd.bread_after_getblk [OF g(1) c(2) g(3,4) p(1), unfolded p(2)] obtain u where
    u: "bread_with E sync 0x101 block s = Ret (Some i) u" "cache_ok u H' F'" "NR_BUFFERS u = NR_BUFFERS t" "key u = key t" "rd_data u = rd_data s"
    and ct: "content u = (if b_uptodate (bufs t i) then content t else (content t)(i :=
      ((\<lambda>k. if k < 1024 then rd_data s (1024 * unat block + k) else b_data (bufs t i) k), True, False, b_count (bufs t i), False)))" by blast
  have k: "kept_others s i u" using g(5) u(3,4) ct by (simp add: kept_others_def)
  note rd = u(5)
  have ci: "content u i = (if b_uptodate (bufs t i) then content t i else
      ((\<lambda>k. if k < 1024 then rd_data s (1024 * unat block + k) else b_data (bufs t i) k), True, False, b_count (bufs t i), False))"
    using ct by simp
  then have ui: "b_uptodate (bufs u i)" "\<not> b_lock (bufs u i)" "b_count (bufs u i) = b_count (bufs t i)"
    using g(4) by (auto simp: content_def split: if_splits)
  have hu: "holds_block u block i" using ui u(4) g(3) by (simp add: holds_block_def)
  have uniq: "j = i" if "j < NR_BUFFERS s" "key s j = (0x101, block)" "key s i = (0x101, block)" for j
    using that g(2) cache_okD(7) [OF c(1)] by auto
  have v: "\<forall>k<1024. b_data (bufs u i) k = rd_view s block k"
  proof (cases "b_uptodate (bufs t i)")
    case True
    then have "holds_block s block i" "b_data (bufs u i) = b_data (bufs s i)" using h ci by (auto simp: holds_block_def content_def)
    then show ?thesis using rd_view_held [OF c(1) g(2)] by simp
  next
    case False
    then have "\<forall>j<NR_BUFFERS s. \<not> holds_block s block j" using h uniq by (auto simp: holds_block_def)
    then show ?thesis using False ci by (simp add: rd_view_not_held content_def)
  qed
  have bn: "b_blocknr (bufs u i) = block" using hu by (simp add: holds_block_def key_def)
  have "b_dirt (bufs u i) \<or> (\<forall>k<1024. b_data (bufs u i) k = rd_data s (1024 * unat block + k))"
    using ci h r(1) g(2) by (cases "b_uptodate (bufs t i)") (auto simp: content_def rd_coherent_def key_def)
  then have "rd_coherent u" by (intro rd_coherent_kept [OF r(1) k rd]) (simp add: bn)
  moreover have "rd_view u b' k' = rd_view s b' k'" if "k' < 1024" for b' k'
    using h u(4) g(3) by (intro rd_view_kept [OF c(1) u(2) r(1) k rd g(2) hu v _ that]) auto
  ultimately show ?thesis using u(1,2) ui hu v k rd g(2) by (auto simp: rd_read_ok_def)
qed

text \<open>C9: \<^verbatim>\<open>bread\<close> of a block of the RAM disk, through \<^verbatim>\<open>getblk\<close>, \<^verbatim>\<open>ll_rw_block\<close>, \<^verbatim>\<open>make_request\<close>, \<^verbatim>\<open>add_request\<close> and
  \<^verbatim>\<open>do_rd_request\<close>, implements reading the disk as its users see it: it returns a pinned, unlocked, up-to-date buffer with the
  bytes of the block, those of a cached copy if there is one and those of the disk otherwise; the cache stays sound and
  coherent with the disk, nothing on the disk changes, and no block reads differently afterwards. This holds in a sound
  and coherent cache, with an idle driver, for a block inside the disk that is cached and unlocked or for which there is a reusable
  buffer.\<close>

theorem bread_ramdisk:
  assumes c: "cache_ok s H F" and f: "NR_BUFFERS s < fuel E" and r: "rd_coherent s" "rd_ready E s block"
    and a: "(\<exists>i<NR_BUFFERS s. key s i = (0x101, block) \<and> \<not> b_lock (bufs s i)) \<or>
      (\<forall>i<NR_BUFFERS s. key s i \<noteq> (0x101, block)) \<and> (\<exists>j<NR_BUFFERS s. reusable s j)"
  shows "\<exists>i t. bread E 0x101 block s = Ret (Some i) t \<and> rd_read_ok s block i t \<and>
    b_count (bufs t i) = (if key s i = (0x101, block) then b_count (bufs s i) + 1 else 1)"
  using a
proof
  assume "\<exists>i<NR_BUFFERS s. key s i = (0x101, block) \<and> \<not> b_lock (bufs s i)"
  then obtain i where i: "i < NR_BUFFERS s" "key s i = (0x101, block)" "\<not> b_lock (bufs s i)" by blast
  let ?t = "upd_buf i (\<lambda>b. b\<lparr>b_count := b_count b + 1\<rparr>) s"
  have l: "nx ?t = nx s" "pv ?t = pv s" "nf ?t = nf s" "pf ?t = pf s" "key ?t = key s" by (auto simp: fun_eq_iff links_fold)
  have kd: "b_dev (bufs s i) = 0x101" "b_blocknr (bufs s i) = block" using i(2) by (simp_all add: key_def)
  have "cache_ok ?t H F" by (rule cache_ok_cong [OF c l]) simp_all
  moreover have "kept_others s i ?t" using l(5) by (simp add: kept_others_def content_def)
  ultimately show ?thesis
    using bread_ramdisk_core [OF c _ r getblk_hit [OF c f _ i], of H F "sync_dev E"] i l(5) kd
    unfolding bread_def by auto
next
  assume n: "(\<forall>i<NR_BUFFERS s. key s i \<noteq> (0x101, block)) \<and> (\<exists>j<NR_BUFFERS s. reusable s j)"
  then have "find (reusable s) F \<noteq> None" using cache_okD(3) [OF c] by (auto simp: find_None_iff)
  then obtain j where j: "find (reusable s) F = Some j" by blast
  then have jn: "j < NR_BUFFERS s" "\<not> b_dirt (bufs s j)" using cache_okD(3) [OF c]
    by (auto simp: find_Some_iff reusable_def BADNESS_def split: if_splits)
  have d: "(0x101 :: u16) \<noteq> 0" by simp
  from getblk_miss [OF c f d conjunct1 [OF n] j, of "sync_dev E"] obtain t H' where t: "getblk_with E (sync_dev E) 0x101 block s = Ret j t"
    "cache_ok t H' (remove1 j F @ [j])" "key t = (key s)(j := (0x101, block))"
    "content t = (content s)(j := (b_data (bufs s j), False, False, 1, False))" "NR_BUFFERS t = NR_BUFFERS s" by blast
  have "content t j = (b_data (bufs s j), False, False, 1, False)" using t(4) by simp
  moreover have "kept_others s j t" using t(3-5) by (simp add: kept_others_def)
  moreover have "key s j \<noteq> (0x101, block)" using n jn by blast
  ultimately show ?thesis
    using bread_ramdisk_core [OF c t(2) r t(1) jn(1) _ _ _ getblk_miss_blk [OF c f d conjunct1 [OF n] j t(1)]] t(3) n jn(2)
    unfolding bread_def by (auto simp: content_def)
qed

text \<open>Two buffers, one in use for another device, and a RAM disk of eight blocks whose byte \<open>k\<close> is \<open>k\<close> modulo 251.\<close>

definition ramdisk_kernel :: kernel where
  "ramdisk_kernel = two_buffers\<lparr>rd_start := 0x100000, rd_length := 8192, rd_data := (\<lambda>k. of_nat (k mod 251)),
     request := (\<lambda>_. (request k0 0)\<lparr>r_dev := -1\<rparr>),
     blk_dev := (\<lambda>_. \<lparr>request_fn = Some Do_rd_request, current_request = None\<rparr>)\<rparr>"

lemma ramdisk_kernel_ok: "cache_ok ramdisk_kernel (\<lambda>h. if h = hashfn 0x301 7 then [0] else []) [1, 0]"
  by (rule cache_ok_cong [OF two_buffers_ok]) (simp_all add: ramdisk_kernel_def nx_def pv_def nf_def pf_def key_def fun_eq_iff)

theorem bread_ramdisk_witness:
  "\<exists>i t. bread (quiet_env 3) 0x101 5 ramdisk_kernel = Ret (Some i) t \<and> b_count (bufs t i) = 1 \<and>
     b_data (bufs t i) 7 = of_nat (5127 mod 251)"
proof -
  let ?s = ramdisk_kernel
  have N: "NR_BUFFERS ?s = 2" and k: "i < 2 \<Longrightarrow> key ?s i \<noteq> (0x101, b)" for i b
    by (auto simp: ramdisk_kernel_def two_buffers_def key_def)
  have n: "\<forall>i<NR_BUFFERS ?s. key ?s i \<noteq> (0x101, 5)" using k N by simp
  have "reusable ?s 1" by (simp add: ramdisk_kernel_def two_buffers_def reusable_def BADNESS_def)
  then have "\<exists>j<NR_BUFFERS ?s. reusable ?s j" using N by (intro exI [of _ 1]) simp
  note a = disjI2 [OF conjI [OF n this]]
  have "NR_BUFFERS ?s < fuel (quiet_env 3)" using N by (simp add: quiet_env_def)
  moreover have "rd_coherent ?s" using N by (simp add: rd_coherent_def) (auto simp: ramdisk_kernel_def two_buffers_def)
  moreover have "rd_ready (quiet_env 3) ?s 5"
    by (auto simp: rd_ready_def rd_idle_def ramdisk_kernel_def quiet_env_def intro: exI [of _ 0])
  ultimately obtain i t where t: "bread (quiet_env 3) 0x101 5 ?s = Ret (Some i) t" "rd_read_ok ?s 5 i t"
    "b_count (bufs t i) = (if key ?s i = (0x101, 5) then b_count (bufs ?s i) + 1 else 1)"
    using bread_ramdisk [OF ramdisk_kernel_ok _ _ _ a] by blast
  have "\<forall>i<NR_BUFFERS ?s. \<not> holds_block ?s 5 i" using n by (simp add: holds_block_def)
  then have "rd_view ?s 5 7 = of_nat (5127 mod 251)" by (simp add: rd_view_not_held ramdisk_kernel_def)
  then show ?thesis using t n by (auto simp: rd_read_ok_def)
qed

end
