(* ===== verification/InodeStore.thy ===== *)
theory InodeStore
  imports Cache
begin

text \<open>
  Inodes on the disk, across fs/inode.c, fs/super.c and fs/buffer.c: what \<^verbatim>\<open>write_inode\<close> does to the block
  of an inode in the buffer cache, and what \<^verbatim>\<open>read_inode\<close> finds there.
\<close>

subsection \<open>Where an inode is\<close>

text \<open>The device is mounted with the super block \<open>sb\<close>, which is not locked; the block is in buffer \<open>b\<close>, which
  is up to date, not locked and has room for one more reference.\<close>

definition mounted :: "kernel \<Rightarrow> u16 \<Rightarrow> nat \<Rightarrow> bool" where
  "mounted s dev sb \<longleftrightarrow> dev \<noteq> 0 \<and> sb < NR_SUPER \<and> s_dev (super_block s sb) = dev \<and> \<not> s_lock (super_block s sb) \<and>
     (\<forall>n < sb. s_dev (super_block s n) \<noteq> dev)"

definition cached_in :: "kernel \<Rightarrow> u16 \<Rightarrow> u32 \<Rightarrow> nat \<Rightarrow> bool" where
  "cached_in s dev block b \<longleftrightarrow> b < NR_BUFFERS s \<and> key s b = (dev, block) \<and> \<not> b_lock (bufs s b) \<and>
     b_uptodate (bufs s b) \<and> b_count (bufs s b) \<noteq> 255"

text \<open>The block of inode \<open>nr\<close>, and where it starts in it: behind the boot block, the super block and the two
  bitmaps, 32 inodes to a block.\<close>

definition home_block :: "super_block \<Rightarrow> u16 \<Rightarrow> nat" where
  "home_block sb nr = 2 + unat (s_imap_blocks sb) + unat (s_zmap_blocks sb) + (unat nr - 1) div 32"

definition home_offset :: "u16 \<Rightarrow> nat" where
  "home_offset nr = 32 * ((unat nr - 1) mod 32)"

lemma unat_ucast16 [simp]: "unat (ucast (x :: u16) :: u32) = unat x"
proof -
  have "unat x < 2 ^ 32" using unsigned_less [where 'a = nat, of x] by simp
  then show ?thesis by (simp add: unsigned_ucast_eq take_bit_nat_eq_self)
qed

lemma unat_nr_minus_1: "nr \<noteq> 0 \<Longrightarrow> unat (ucast nr - 1 :: u32) = unat (nr :: u16) - 1"
proof -
  assume "nr \<noteq> 0"
  then have "unat (ucast nr :: u32) \<noteq> 0" by (simp add: unat_eq_0)
  then have "(ucast nr :: u32) \<noteq> 0" by (metis unsigned_0)
  then show ?thesis by (simp add: unat_minus_one)
qed

lemma inode_offset_home: "nr \<noteq> 0 \<Longrightarrow> inode_offset nr = home_offset nr"
  by (simp add: inode_offset_def home_offset_def unat_mod unat_nr_minus_1)

lemma inode_block_home:
  assumes "nr \<noteq> 0"
  shows "inode_block sb nr = of_nat (home_block sb nr)"
proof -
  have "((ucast nr :: u32) - 1) div 32 = of_nat (unat (((ucast nr :: u32) - 1) div 32))" by simp
  also have "\<dots> = of_nat ((unat nr - 1) div 32)" by (simp only: unat_div unat_nr_minus_1 [OF assms]) simp
  finally have e: "((ucast nr :: u32) - 1) div 32 = of_nat ((unat nr - 1) div 32)" .
  have "(ucast x :: u32) = of_nat (unat x)" for x :: u16 by (intro word_unat_eq_iff [THEN iffD2]) (simp add: unsigned_of_nat)
  then show ?thesis by (simp add: inode_block_def home_block_def e)
qed

subsection \<open>The steps when nothing has to be waited for\<close>

lemma wake_up_parts [simp]:
  "bufs (wake_up q s) = bufs s" "inode_table (wake_up q s) = inode_table s" "super_block (wake_up q s) = super_block s"
  "hash_table (wake_up q s) = hash_table s" "free_list (wake_up q s) = free_list s" "NR_BUFFERS (wake_up q s) = NR_BUFFERS s"
  by (simp_all add: wake_up_def upd_task_def Let_def)

lemma upd_inode_parts [simp]:
  "bufs (upd_inode i f s) = bufs s" "inode_table (upd_inode i f s) = (inode_table s)(i := f (inode_table s i))"
  "super_block (upd_inode i f s) = super_block s" "hash_table (upd_inode i f s) = hash_table s"
  "free_list (upd_inode i f s) = free_list s" "NR_BUFFERS (upd_inode i f s) = NR_BUFFERS s"
  by (simp_all add: upd_inode_def)

lemma upd_buf_parts [simp]:
  "bufs (upd_buf i g s) = (bufs s)(i := g (bufs s i))" "inode_table (upd_buf i g s) = inode_table s"
  "super_block (upd_buf i g s) = super_block s"
  by (simp_all add: upd_buf_def)

lemma lock_inode_free:
  "\<not> i_lock (inode_table s i) \<Longrightarrow> 0 < fuel E \<Longrightarrow> lock_inode E i s = Ret () (upd_inode i (\<lambda>n. n\<lparr>i_lock := True\<rparr>) s)"
  by (simp add: lock_inode_def wait_on_inode_def kloop_unfold)

lemma get_super_mounted:
  assumes "mounted s dev sb" "NR_SUPER < fuel E"
  shows "get_super E dev s = Ret (Some sb) s"
proof -
  let ?b = "\<lambda>n s. if n \<ge> NR_SUPER then Ret (Inr None) s
        else if s_dev (super_block s n) = dev then
          kbind (wait_on_super E n s) (\<lambda>_ s.
            if s_dev (super_block s n) = dev then Ret (Inr (Some n)) s else Ret (Inl 0) s)
        else Ret (Inl (n + 1)) s"
  have "kwhile (Suc k + d) ?b (sb - k) s = Ret (Some sb) s" if "k \<le> sb" for k d
    using that
  proof (induction k)
    case 0
    then show ?case using assms by (simp add: mounted_def wait_on_super_def kloop_unfold)
  next
    case (Suc k)
    have "s_dev (super_block s (sb - Suc k)) \<noteq> dev" "sb - Suc k < NR_SUPER" "Suc (sb - Suc k) = sb - k"
      using assms(1) Suc.prems by (auto simp: mounted_def)
    then show ?case using Suc by simp
  qed
  from this [of sb "fuel E - Suc sb"] have "kwhile (fuel E) ?b 0 s = Ret (Some sb) s"
    using assms by (simp add: mounted_def del: kwhile.simps)
  then show ?thesis using assms(1) by (simp add: get_super_def mounted_def)
qed

lemma bread_hit:
  assumes "cache_ok s H F" "NR_BUFFERS s < fuel E" "dev \<noteq> 0" "cached_in s dev block b"
  shows "bread E dev block s = Ret (Some b) (upd_buf b (\<lambda>x. x\<lparr>b_count := b_count x + 1\<rparr>) s)"
  using getblk_hit [OF assms(1-3), of b block "sync_dev E"] assms(4)
  by (simp add: bread_def bread_with_def cached_in_def)

lemma count_succ: "(x :: u8) \<noteq> 255 \<Longrightarrow> x + 1 \<noteq> 0"
proof
  assume "x \<noteq> 255" "x + 1 = 0"
  then have "x = - 1" by (simp add: eq_neg_iff_add_eq_0)
  then show False using \<open>x \<noteq> 255\<close> by simp
qed

lemma brelse_last:
  assumes "\<not> b_lock (bufs s b)" "b_count (bufs s b) \<noteq> 0" "0 < fuel E"
  shows "brelse E (Some b) s = Ret () (wake_up Buffer_wait (upd_buf b (\<lambda>x. x\<lparr>b_count := b_count x - 1\<rparr>) s))"
  using assms by (simp add: brelse_def wait_on_buffer_unlocked)

lemma cache_ok_same:
  assumes "cache_ok s H F" "hash_table t = hash_table s" "free_list t = free_list s" "NR_BUFFERS t = NR_BUFFERS s"
    "\<And>i. b_next (bufs t i) = b_next (bufs s i) \<and> b_prev (bufs t i) = b_prev (bufs s i) \<and>
       b_next_free (bufs t i) = b_next_free (bufs s i) \<and> b_prev_free (bufs t i) = b_prev_free (bufs s i) \<and>
       b_dev (bufs t i) = b_dev (bufs s i) \<and> b_blocknr (bufs t i) = b_blocknr (bufs s i)"
  shows "cache_ok t H F"
  by (rule cache_ok_cong [OF assms(1)])
    (simp_all add: fun_eq_iff nx_def pv_def nf_def pf_def key_def assms(2-))

subsection \<open>Writing and reading\<close>

lemma write_inode_effect:
  assumes c: "cache_ok s H F" and f: "NR_BUFFERS s < fuel E" "NR_SUPER < fuel E" and m: "mounted s dev sb"
    and i: "i_dev (inode_table s i) = dev" "i_dirt (inode_table s i)" "\<not> i_lock (inode_table s i)"
    and b: "cached_in s dev (inode_block (super_block s sb) (i_num (inode_table s i))) b"
  shows "\<exists>t. write_inode E i s = Ret () t \<and> super_block t = super_block s \<and> NR_BUFFERS t = NR_BUFFERS s \<and> cache_ok t H F \<and>
    bufs t = (bufs s)(b := (bufs s b)\<lparr>b_dirt := True,
      b_data := put_d_inode (inode_table s i) (inode_offset (i_num (inode_table s i))) (b_data (bufs s b))\<rparr>) \<and>
    inode_table t = (inode_table s)(i := (inode_table s i)\<lparr>i_dirt := False\<rparr>)"
proof -
  let ?n = "inode_table s i" and ?u = "upd_inode i (\<lambda>n. n\<lparr>i_lock := True\<rparr>) s"
  let ?d = "put_d_inode ?n (inode_offset (i_num ?n)) (b_data (bufs s b))"
  have d: "dev \<noteq> 0" "0 < fuel E" using m f by (auto simp: mounted_def)
  have u: "cache_ok ?u H F" "mounted ?u dev sb" "cached_in ?u dev (inode_block (super_block s sb) (i_num ?n)) b"
    using m b by (simp_all add: cache_ok_same [OF c] mounted_def cached_in_def key_def)
  note sup = get_super_mounted [OF u(2) f(2)]
  have br: "bread_with E (sync_dev E) dev (inode_block (super_block s sb) (i_num ?n)) ?u =
      Ret (Some b) (upd_buf b (\<lambda>x. x\<lparr>b_count := b_count x + 1\<rparr>) ?u)"
    using bread_hit [OF u(1) _ d(1) u(3)] f(1) by (simp add: bread_def)
  have pd: "put_d_inode (?n\<lparr>i_lock := True\<rparr>) off x = put_d_inode ?n off x" for off x
    by (simp add: put_d_inode_def)
  define v where "v = upd_inode i (\<lambda>n. n\<lparr>i_dirt := False\<rparr>) (upd_buf b (\<lambda>x. x\<lparr>b_data := put_d_inode ?n (inode_offset (i_num ?n)) (b_data x), b_dirt := True\<rparr>)
     (upd_buf b (\<lambda>x. x\<lparr>b_count := b_count x + 1\<rparr>) ?u))"
  have v: "\<not> b_lock (bufs v b)" "b_count (bufs v b) \<noteq> 0"
    using b by (simp_all add: v_def cached_in_def count_succ)
  let ?t = "unlock_inode i (wake_up Buffer_wait (upd_buf b (\<lambda>x. x\<lparr>b_count := b_count x - 1\<rparr>) v))"
  have "write_inode E i s = Ret () ?t"
    using i d lock_inode_free [OF i(3) d(2)] sup br brelse_last [OF v d(2)]
    by (simp add: write_inode_def write_inode_with_def Let_def pd v_def)
  moreover have "bufs ?t = (bufs s)(b := (bufs s b)\<lparr>b_dirt := True, b_data := ?d\<rparr>)"
    by (simp add: unlock_inode_def v_def fun_eq_iff)
  moreover have "inode_table ?t = (inode_table s)(i := ?n\<lparr>i_dirt := False\<rparr>)"
    using i(3) by (simp add: unlock_inode_def v_def fun_eq_iff)
  moreover have "super_block ?t = super_block s" "NR_BUFFERS ?t = NR_BUFFERS s" "cache_ok ?t H F"
    by (simp_all add: unlock_inode_def v_def cache_ok_same [OF c])
  ultimately show ?thesis by blast
qed

lemma read_inode_effect:
  assumes c: "cache_ok s H F" and f: "NR_BUFFERS s < fuel E" "NR_SUPER < fuel E" and m: "mounted s dev sb"
    and i: "i_dev (inode_table s i) = dev" "\<not> i_lock (inode_table s i)"
    and b: "cached_in s dev (inode_block (super_block s sb) (i_num (inode_table s i))) b"
  shows "\<exists>t. read_inode E i s = Ret () t \<and> bufs t = bufs s \<and>
    inode_table t = (inode_table s)(i := get_d_inode (b_data (bufs s b)) (inode_offset (i_num (inode_table s i))) (inode_table s i))"
proof -
  let ?n = "inode_table s i" and ?u = "upd_inode i (\<lambda>n. n\<lparr>i_lock := True\<rparr>) s"
  let ?g = "get_d_inode (b_data (bufs s b)) (inode_offset (i_num ?n))"
  have d: "dev \<noteq> 0" "0 < fuel E" using m f by (auto simp: mounted_def)
  have u: "cache_ok ?u H F" "mounted ?u dev sb" "cached_in ?u dev (inode_block (super_block s sb) (i_num ?n)) b"
    using m b by (simp_all add: cache_ok_same [OF c] mounted_def cached_in_def key_def)
  note sup = get_super_mounted [OF u(2) f(2)]
  have br: "bread E dev (inode_block (super_block s sb) (i_num ?n)) ?u =
      Ret (Some b) (upd_buf b (\<lambda>x. x\<lparr>b_count := b_count x + 1\<rparr>) ?u)"
    using bread_hit [OF u(1) _ d(1) u(3)] f(1) by simp
  define v where "v = upd_inode i (\<lambda>n. get_d_inode (b_data (bufs s b)) (inode_offset (i_num n)) n)
     (upd_buf b (\<lambda>x. x\<lparr>b_count := b_count x + 1\<rparr>) ?u)"
  have v: "\<not> b_lock (bufs v b)" "b_count (bufs v b) \<noteq> 0"
    using b by (simp_all add: v_def cached_in_def count_succ)
  let ?t = "unlock_inode i (wake_up Buffer_wait (upd_buf b (\<lambda>x. x\<lparr>b_count := b_count x - 1\<rparr>) v))"
  have "read_inode E i s = Ret () ?t"
    using i d lock_inode_free [OF i(2) d(2)] sup br brelse_last [OF v d(2)]
    by (simp add: read_inode_def Let_def v_def)
  moreover have "bufs ?t = bufs s" by (simp add: unlock_inode_def v_def fun_eq_iff)
  moreover have "inode_table ?t = (inode_table s)(i := ?g ?n)"
    using i(2) by (simp add: unlock_inode_def v_def fun_eq_iff get_d_inode_def)
  ultimately show ?thesis by blast
qed

text \<open>C10: An inode on the disk. When a changed inode of a mounted device is written with its block in the
  buffer cache (up to date and not locked), \<^verbatim>\<open>write_inode\<close> returns with the inode clean and the buffer
  marked to be written; in the buffer, only the 32 bytes at the inode's place have changed, which is element
  \<^verbatim>\<open>(nr-1)%32\<close> of block \<^verbatim>\<open>2 + s_imap_blocks + s_zmap_blocks + (nr-1)/32\<close>, and all other buffers and inodes
  and the reference counts are as before. When \<^verbatim>\<open>read_inode\<close> then fills any slot \<open>j\<close> that stands for the same inode,
  it gets back the mode, owner, group, size, time, links and nine zones, and leaves the other members.\<close>

theorem inode_write_read:
  assumes c: "cache_ok s H F" and f: "NR_BUFFERS s < fuel E" "NR_SUPER < fuel E" and m: "mounted s dev sb"
    and i: "i_dev (inode_table s i) = dev" "i_num (inode_table s i) = nr" "i_dirt (inode_table s i)" "\<not> i_lock (inode_table s i)"
    and nr: "nr \<noteq> 0" and b: "cached_in s dev (of_nat (home_block (super_block s sb) nr)) b"
    and j: "i_dev e = dev" "i_num e = nr" "\<not> i_lock e"
  shows "\<exists>t u. write_inode E i s = Ret () t \<and> cache_ok t H F \<and>
    inode_table t = (inode_table s)(i := (inode_table s i)\<lparr>i_dirt := False\<rparr>) \<and>
    (\<exists>d. bufs t = (bufs s)(b := (bufs s b)\<lparr>b_dirt := True, b_data := d\<rparr>) \<and>
       (\<forall>k. k < home_offset nr \<or> home_offset nr + 32 \<le> k \<longrightarrow> d k = b_data (bufs s b) k)) \<and>
    read_inode E j (upd_inode j (\<lambda>_. e) t) = Ret () u \<and> bufs u = bufs t \<and>
    inode_table u = (inode_table t)(j := e\<lparr>i_mode := i_mode (inode_table s i), i_uid := i_uid (inode_table s i),
      i_size := i_size (inode_table s i), i_mtime := i_mtime (inode_table s i), i_gid := i_gid (inode_table s i),
      i_nlinks := i_nlinks (inode_table s i),
      i_zone := (\<lambda>k. if k < 9 then i_zone (inode_table s i) k else i_zone e k)\<rparr>)"
proof -
  let ?n = "inode_table s i"
  let ?d = "put_d_inode ?n (home_offset nr) (b_data (bufs s b))"
  note home = inode_block_home [OF nr] inode_offset_home [OF nr]
  from write_inode_effect [OF c f m i(1,3,4), of b] b obtain t where t: "write_inode E i s = Ret () t"
      "super_block t = super_block s" "NR_BUFFERS t = NR_BUFFERS s" "cache_ok t H F"
      "bufs t = (bufs s)(b := (bufs s b)\<lparr>b_dirt := True, b_data := ?d\<rparr>)"
      "inode_table t = (inode_table s)(i := ?n\<lparr>i_dirt := False\<rparr>)"
    by (auto simp: i(2) home)
  let ?v = "upd_inode j (\<lambda>_. e) t"
  have v: "cache_ok ?v H F" "mounted ?v dev sb" "NR_BUFFERS ?v < fuel E"
    "cached_in ?v dev (inode_block (super_block ?v sb) (i_num (inode_table ?v j))) b"
    using m b f(1) by (simp_all add: cache_ok_same [OF t(4)] mounted_def cached_in_def key_def t(2,3,5) home j)
  from read_inode_effect [OF v(1,3) f(2) v(2) _ _ v(4)] obtain u where u: "read_inode E j ?v = Ret () u" "bufs u = bufs t"
      "inode_table u = (inode_table t)(j := get_d_inode ?d (home_offset nr) e)"
    by (auto simp: j home t(5))
  show ?thesis
    using t(1,4-6) u put_get_d_inode [of ?n "home_offset nr" "b_data (bufs s b)" e]
    by (intro exI [of _ t] exI [of _ u]) auto
qed

text \<open>Device 0x301 with two and three bitmap blocks, so that its first inodes are in block 7, which is in buffer 0;
  inode 3 is changed and in slot 5.\<close>

definition one_inode :: kernel where
  "one_inode = two_buffers\<lparr>
     super_block := (\<lambda>n. (super_block k0 n)\<lparr>s_dev := 0x301, s_imap_blocks := 2, s_zmap_blocks := 3, s_lock := False\<rparr>),
     inode_table := (\<lambda>_. zero_inode)(5 := zero_inode\<lparr>i_dev := 0x301, i_num := 3, i_size := 0x1234, i_dirt := True\<rparr>)\<rparr>"

theorem inode_write_read_witness:
  "\<exists>t u. write_inode (quiet_env 9) 5 one_inode = Ret () t \<and> b_dirt (bufs t 0) \<and> b_data (bufs t 0) 63 = 0 \<and>
     read_inode (quiet_env 9) 6 (upd_inode 6 (\<lambda>_. zero_inode\<lparr>i_dev := 0x301, i_num := 3\<rparr>) t) = Ret () u \<and>
     i_size (inode_table u 6) = 0x1234"
proof -
  have "cache_ok one_inode (\<lambda>h. if h = hashfn 0x301 7 then [0] else []) [1, 0]"
    by (rule cache_ok_same [OF two_buffers_ok]) (simp_all add: one_inode_def)
  moreover have "NR_BUFFERS one_inode < fuel (quiet_env 9)" "NR_SUPER < fuel (quiet_env 9)" "mounted one_inode 0x301 0"
    by (simp_all add: one_inode_def two_buffers_def quiet_env_def mounted_def)
  moreover have "cached_in one_inode 0x301 (of_nat (home_block (super_block one_inode 0) 3)) 0"
    by (simp add: one_inode_def two_buffers_def cached_in_def key_def home_block_def)
  moreover have n: "i_dev (inode_table one_inode 5) = 0x301" "i_num (inode_table one_inode 5) = 3"
    "i_dirt (inode_table one_inode 5)" "\<not> i_lock (inode_table one_inode 5)" "i_size (inode_table one_inode 5) = 0x1234"
    by (simp_all add: one_inode_def zero_inode_def)
  moreover have "home_offset 3 = 64" "b_data (bufs one_inode 0) 63 = 0"
    by (simp_all add: home_offset_def one_inode_def two_buffers_def)
  ultimately show ?thesis
    using inode_write_read [where s = one_inode and E = "quiet_env 9" and dev = "0x301" and sb = 0 and i = 5 and nr = 3
        and b = 0 and e = "zero_inode\<lparr>i_dev := 0x301, i_num := 3\<rparr>" and j = 6]
    by (fastforce simp: zero_inode_def)
qed

end
