(* ===== verification/CString.thy ===== *)
theory CString
  imports Prelude "HOL-Library.Sublist"
begin

unbundle bit_operations_syntax

text \<open>
  The string functions of include/string.h, which lib/string.c instantiates. Each is a few i386 string instructions in
  assembler; the model has the registers as arguments of its loops and memory as a function from 32-bit addresses to bytes. The
  source's \<^verbatim>\<open>char\<close> is signed, so a comparison with \<^verbatim>\<open>jl\<close> compares signed bytes. A loop that only a null byte ends is a
  \<open>partial_function\<close>: \<open>None\<close> means that it never ends, which happens in a memory without any null byte.
\<close>

type_synonym mem = "u32 \<Rightarrow> u8"

subsection \<open>Repeated string instructions\<close>

text \<open>\<open>rep movsb\<close> forwards and backwards (after \<^verbatim>\<open>std\<close>), and \<open>rep stosb\<close>; the first argument is \<^verbatim>\<open>ecx\<close>.\<close>

fun rep_movsb :: "nat \<Rightarrow> u32 \<Rightarrow> u32 \<Rightarrow> mem \<Rightarrow> mem" where
  "rep_movsb 0 si di m = m"
| "rep_movsb (Suc n) si di m = rep_movsb n (si + 1) (di + 1) (m(di := m si))"

fun rep_movsb_down :: "nat \<Rightarrow> u32 \<Rightarrow> u32 \<Rightarrow> mem \<Rightarrow> mem" where
  "rep_movsb_down 0 si di m = m"
| "rep_movsb_down (Suc n) si di m = rep_movsb_down n (si - 1) (di - 1) (m(di := m si))"

fun rep_stosb :: "nat \<Rightarrow> u8 \<Rightarrow> u32 \<Rightarrow> mem \<Rightarrow> mem" where
  "rep_stosb 0 al di m = m"
| "rep_stosb (Suc n) al di m = rep_stosb n al (di + 1) (m(di := al))"

text \<open>\<open>repne scasb\<close>: the results are \<^verbatim>\<open>edi\<close>, \<^verbatim>\<open>ecx\<close> and the zero flag, which keeps its old value \<open>zf\<close> when \<^verbatim>\<open>ecx\<close> is 0.\<close>

fun repne_scasb :: "nat \<Rightarrow> u8 \<Rightarrow> mem \<Rightarrow> u32 \<Rightarrow> bool \<Rightarrow> u32 \<times> nat \<times> bool" where
  "repne_scasb 0 al m di zf = (di, 0, zf)"
| "repne_scasb (Suc n) al m di zf = (if m di = al then (di + 1, n, True) else repne_scasb n al m (di + 1) False)"

text \<open>\<open>repe cmpsb\<close>: the results are \<^verbatim>\<open>esi\<close> and the flags of the last comparison, equal and signed less.\<close>

fun repe_cmpsb :: "nat \<Rightarrow> mem \<Rightarrow> u32 \<Rightarrow> u32 \<Rightarrow> bool \<times> bool \<Rightarrow> u32 \<times> bool \<times> bool" where
  "repe_cmpsb 0 m si di fl = (si, fl)"
| "repe_cmpsb (Suc n) m si di fl =
     (if m si = m di then repe_cmpsb n m (si + 1) (di + 1) (True, False) else (si + 1, False, sint (m si) < sint (m di)))"

text \<open>The scan for the end of a string, \<^verbatim>\<open>notl\<close> and \<^verbatim>\<open>decl\<close> of the counter give its length.\<close>

definition scan_length :: "mem \<Rightarrow> u32 \<Rightarrow> u32" where
  "scan_length m s = (let (di, cx, zf) = repne_scasb 0xffffffff 0 m s False in NOT (of_nat cx) - 1)"

subsection \<open>Copying\<close>

partial_function (option) copy_loop :: "u32 \<Rightarrow> u32 \<Rightarrow> mem \<Rightarrow> mem option" where
  "copy_loop si di m =
     (let al = m si; m = m(di := al) in
      if al = 0 then Some m else copy_loop (si + 1) (di + 1) m)"

definition strcpy :: "u32 \<Rightarrow> u32 \<Rightarrow> mem \<Rightarrow> mem option" where
  "strcpy dest src m = copy_loop src dest m"

partial_function (option) strncpy_loop :: "u32 \<Rightarrow> u32 \<Rightarrow> u32 \<Rightarrow> mem \<Rightarrow> mem option" where
  "strncpy_loop si di cx m =
     (let cx = cx - 1 in
      if sint cx < 0 then Some m
      else let al = m si; m = m(di := al) in
        if al \<noteq> 0 then strncpy_loop (si + 1) (di + 1) cx m else Some (rep_stosb (unat cx) al (di + 1) m))"

definition strncpy :: "u32 \<Rightarrow> u32 \<Rightarrow> int \<Rightarrow> mem \<Rightarrow> mem option" where
  "strncpy dest src count m = strncpy_loop src dest (word_of_int count) m"

definition strcat :: "u32 \<Rightarrow> u32 \<Rightarrow> mem \<Rightarrow> mem option" where
  "strcat dest src m = (let (di, cx, zf) = repne_scasb 0xffffffff 0 m dest False in copy_loop src (di - 1) m)"

text \<open>After the loop of \<^verbatim>\<open>strncat\<close> a null byte is stored, also when the loop has just stored one.\<close>

partial_function (option) strncat_loop :: "u32 \<Rightarrow> u32 \<Rightarrow> u32 \<Rightarrow> mem \<Rightarrow> mem option" where
  "strncat_loop si di cx m =
     (let cx = cx - 1 in
      if sint cx < 0 then Some (m(di := 0))
      else let al = m si; m = m(di := al) in
        if al \<noteq> 0 then strncat_loop (si + 1) (di + 1) cx m else Some (m(di + 1 := 0)))"

definition strncat :: "u32 \<Rightarrow> u32 \<Rightarrow> int \<Rightarrow> mem \<Rightarrow> mem option" where
  "strncat dest src count m =
     (let (di, cx, zf) = repne_scasb 0xffffffff 0 m dest False in strncat_loop src (di - 1) (word_of_int count) m)"

subsection \<open>Comparing\<close>

text \<open>\<^verbatim>\<open>scasb\<close> compares \<^verbatim>\<open>al\<close>, loaded from \<^verbatim>\<open>ct\<close>, with the byte of \<^verbatim>\<open>cs\<close>.\<close>

partial_function (option) strcmp_loop :: "u32 \<Rightarrow> u32 \<Rightarrow> mem \<Rightarrow> int option" where
  "strcmp_loop si di m =
     (if m si \<noteq> m di then Some (if sint (m si) < sint (m di) then 1 else -1)
      else if m si \<noteq> 0 then strcmp_loop (si + 1) (di + 1) m
      else Some 0)"

definition strcmp :: "u32 \<Rightarrow> u32 \<Rightarrow> mem \<Rightarrow> int option" where
  "strcmp cs ct m = strcmp_loop ct cs m"

partial_function (option) strncmp_loop :: "u32 \<Rightarrow> u32 \<Rightarrow> u32 \<Rightarrow> mem \<Rightarrow> int option" where
  "strncmp_loop si di cx m =
     (let cx = cx - 1 in
      if sint cx < 0 then Some 0
      else if m si \<noteq> m di then Some (if sint (m si) < sint (m di) then 1 else -1)
      else if m si \<noteq> 0 then strncmp_loop (si + 1) (di + 1) cx m
      else Some 0)"

definition strncmp :: "u32 \<Rightarrow> u32 \<Rightarrow> int \<Rightarrow> mem \<Rightarrow> int option" where
  "strncmp cs ct count m = strncmp_loop ct cs (word_of_int count) m"

subsection \<open>Searching\<close>

partial_function (option) strchr_loop :: "u32 \<Rightarrow> u8 \<Rightarrow> mem \<Rightarrow> u32 option" where
  "strchr_loop si c m =
     (if m si = c then Some (si + 1) else if m si \<noteq> 0 then strchr_loop (si + 1) c m else Some 1)"

definition strchr :: "u32 \<Rightarrow> u8 \<Rightarrow> mem \<Rightarrow> u32 option" where
  "strchr s c m = map_option (\<lambda>r. r - 1) (strchr_loop s c m)"

partial_function (option) strrchr_loop :: "u32 \<Rightarrow> u8 \<Rightarrow> u32 \<Rightarrow> mem \<Rightarrow> u32 option" where
  "strrchr_loop si c dx m =
     (let dx = (if m si = c then si else dx) in
      if m si \<noteq> 0 then strrchr_loop (si + 1) c dx m else Some dx)"

definition strrchr :: "u32 \<Rightarrow> u8 \<Rightarrow> mem \<Rightarrow> u32 option" where
  "strrchr s c m = strrchr_loop s c 0 m"

text \<open>Whether \<^verbatim>\<open>repne scasb\<close> finds the byte \<open>al\<close> among the \<open>dx\<close> bytes at \<open>ct\<close>; before it the zero flag is clear.\<close>

definition in_set :: "u8 \<Rightarrow> u32 \<Rightarrow> u32 \<Rightarrow> mem \<Rightarrow> bool" where
  "in_set al ct dx m = snd (snd (repne_scasb (unat dx) al m ct False))"

text \<open>The loop of \<^verbatim>\<open>strspn\<close>, \<^verbatim>\<open>strcspn\<close>, \<^verbatim>\<open>strpbrk\<close> and twice of \<^verbatim>\<open>strtok\<close>: it goes on while the membership of the byte
  is \<open>go\<close>; the results are \<^verbatim>\<open>esi\<close>, one past the last byte read, and whether that byte was the end of the string.\<close>

partial_function (option) span_loop :: "bool \<Rightarrow> u32 \<Rightarrow> u32 \<Rightarrow> u32 \<Rightarrow> mem \<Rightarrow> (u32 \<times> bool) option" where
  "span_loop go ct dx si m =
     (if m si = 0 then Some (si + 1, True)
      else if in_set (m si) ct dx m = go then span_loop go ct dx (si + 1) m
      else Some (si + 1, False))"

definition strspn :: "u32 \<Rightarrow> u32 \<Rightarrow> mem \<Rightarrow> int option" where
  "strspn cs ct m = map_option (\<lambda>(si, e). sint (si - 1 - cs)) (span_loop True ct (scan_length m ct) cs m)"

definition strcspn :: "u32 \<Rightarrow> u32 \<Rightarrow> mem \<Rightarrow> int option" where
  "strcspn cs ct m = map_option (\<lambda>(si, e). sint (si - 1 - cs)) (span_loop False ct (scan_length m ct) cs m)"

definition strpbrk :: "u32 \<Rightarrow> u32 \<Rightarrow> mem \<Rightarrow> u32 option" where
  "strpbrk cs ct m = map_option (\<lambda>(si, e). if e then 0 else si - 1) (span_loop False ct (scan_length m ct) cs m)"

text \<open>With an empty search string \<^verbatim>\<open>cmpsb\<close> is not executed and the zero flag is the one of \<^verbatim>\<open>decl\<close>, which is set.\<close>

partial_function (option) strstr_loop :: "u32 \<Rightarrow> u32 \<Rightarrow> u32 \<Rightarrow> mem \<Rightarrow> u32 option" where
  "strstr_loop si ct dx m =
     (let (e, zf, lt) = repe_cmpsb (unat dx) m si ct (dx = 0, False) in
      if zf then Some si
      else if m (e - 1) \<noteq> 0 then strstr_loop (si + 1) ct dx m
      else Some 0)"

definition strstr :: "u32 \<Rightarrow> u32 \<Rightarrow> mem \<Rightarrow> u32 option" where
  "strstr cs ct m = strstr_loop cs ct (scan_length m ct) m"

definition strlen :: "u32 \<Rightarrow> mem \<Rightarrow> int" where
  "strlen s m = sint (scan_length m s)"

text \<open>\<^verbatim>\<open>strtok\<close>: \<open>old\<close> is \<^verbatim>\<open>___strtok\<close>; the results are the token, the new \<^verbatim>\<open>___strtok\<close> and memory.\<close>

definition strtok_end :: "u32 \<Rightarrow> u32 \<Rightarrow> u32 \<Rightarrow> mem \<Rightarrow> (u32 \<times> u32 \<times> mem) option" where
  "strtok_end ct dx tok m =
     Option.bind (span_loop False ct dx tok m) (\<lambda>(si, e).
       let (si, m) = (if e \<or> m (si - 1) = 0 then (0, m) else (si, m(si - 1 := 0)));
           bx = (if m tok = 0 then 0 else tok) in
       Some (bx, if bx = 0 then 0 else si, m))"

definition strtok :: "u32 \<Rightarrow> u32 \<Rightarrow> u32 \<Rightarrow> mem \<Rightarrow> (u32 \<times> u32 \<times> mem) option" where
  "strtok s ct old m =
     (if s = 0 \<and> old = 0 then Some (old, s, m)
      else let si = (if s = 0 then old else s);
               dx = scan_length m ct in
        if dx = 0 then Some (0, 0, m)
        else Option.bind (span_loop True ct dx si m) (\<lambda>(si, e).
          if e \<or> m (si - 1) = 0 then Some (0, 0, m) else strtok_end ct dx (si - 1) m))"

subsection \<open>Blocks of memory\<close>

definition memcpy :: "u32 \<Rightarrow> u32 \<Rightarrow> int \<Rightarrow> mem \<Rightarrow> mem" where
  "memcpy dest src n m = rep_movsb (unat (word_of_int n :: u32)) src dest m"

text \<open>\<^verbatim>\<open>memmove\<close>; the flag is the processor's direction flag afterwards, which \<^verbatim>\<open>std\<close> leaves set.\<close>

definition memmove :: "u32 \<Rightarrow> u32 \<Rightarrow> int \<Rightarrow> mem \<Rightarrow> mem \<times> bool" where
  "memmove dest src n m =
     (if dest < src then (rep_movsb (unat (word_of_int n :: u32)) src dest m, False)
      else (rep_movsb_down (unat (word_of_int n :: u32)) (src + word_of_int n - 1) (dest + word_of_int n - 1) m, True))"

text \<open>\<open>fl\<close> are the flags before the call: for a count of 0 the result depends on them.\<close>

definition memcmp :: "bool \<times> bool \<Rightarrow> u32 \<Rightarrow> u32 \<Rightarrow> int \<Rightarrow> mem \<Rightarrow> int" where
  "memcmp fl cs ct count m =
     (let (si, zf, lt) = repe_cmpsb (unat (word_of_int count :: u32)) m ct cs fl in
      if zf then 0 else if lt then 1 else -1)"

definition memchr :: "u32 \<Rightarrow> u8 \<Rightarrow> int \<Rightarrow> mem \<Rightarrow> u32" where
  "memchr cs c count m =
     (if count = 0 then 0
      else let (di, cx, zf) = repne_scasb (unat (word_of_int count :: u32)) c m cs False in
        (if zf then di else 1) - 1)"

definition memset :: "u32 \<Rightarrow> u8 \<Rightarrow> int \<Rightarrow> mem \<Rightarrow> mem" where
  "memset s c count m = rep_stosb (unat (word_of_int count :: u32)) c s m"

subsection \<open>Moving blocks\<close>

lemma unat_Suc_less:
  fixes a :: u32
  assumes "unat a + Suc n \<le> 2 ^ 32" "0 < n"
  shows "unat (a + 1) = unat a + 1"
  using assms by (simp add: unat_word_ariths)

lemma unat_le_diff: "unat d \<le> unat a \<Longrightarrow> unat (a - d) = unat a - unat (d :: u32)"
  by (simp add: unat_sub word_le_nat_alt)

text \<open>The \<open>n\<close> bytes at \<open>di\<close> become those that were at \<open>si\<close>.\<close>

definition moved :: "nat \<Rightarrow> u32 \<Rightarrow> u32 \<Rightarrow> mem \<Rightarrow> mem" where
  "moved n si di m = (\<lambda>a. if unat di \<le> unat a \<and> unat a < unat di + n then m (si + (a - di)) else m a)"

lemma moved_0 [simp]: "moved 0 si di m = m"
  by (auto simp: moved_def fun_eq_iff)

lemma rep_movsb_moved:
  assumes "unat si + n \<le> 2 ^ 32" "unat di + n \<le> 2 ^ 32" "unat di < unat si \<or> unat si + n \<le> unat di"
  shows "rep_movsb n si di m = moved n si di m"
  using assms
proof (induction n arbitrary: si di m)
  case (Suc n)
  show ?case
  proof (cases "n = 0")
    case True
    have "unat di \<le> unat a \<and> unat a < unat di + 1 \<longleftrightarrow> a = di" for a by (auto simp: word_unat_eq_iff)
    then show ?thesis using True by (auto simp: moved_def fun_eq_iff)
  next
    case False
    have u: "unat (si + 1) = unat si + 1" "unat (di + 1) = unat di + 1" 
      using unat_Suc_less [of si n] unat_Suc_less [of di n] Suc.prems(1,2) False by simp_all
    have "rep_movsb (Suc n) si di m = moved n (si + 1) (di + 1) (m(di := m si))"
      using Suc.prems u
      by (simp only: rep_movsb.simps) (rule Suc.IH, auto)
    also have "\<dots> = moved (Suc n) si di m"
    proof
      fix a
      have e: "a = di \<longleftrightarrow> unat a = unat di" by (simp add: word_unat_eq_iff)
      have "si + (a - di) \<noteq> di" if "unat di < unat a" "unat a < unat di + Suc n"
      proof -
        have "unat (si + (a - di)) = unat si + (unat a - unat di)"
          using that Suc.prems(1) by (simp add: unat_word_ariths unat_le_diff)
        then have "unat (si + (a - di)) \<noteq> unat di" using that Suc.prems(3) by linarith
        then show ?thesis by metis
      qed
      then show "moved n (si + 1) (di + 1) (m(di := m si)) a = moved (Suc n) si di m a"
        using e by (auto simp: moved_def u)
    qed
    finally show ?thesis .
  qed
qed simp

text \<open>Downwards; the last argument of \<open>moved\<close> gives the first address, \<open>si\<close> and \<open>di\<close> are the last ones.\<close>

lemma rep_movsb_down_moved:
  assumes "unat si + n \<le> 2 ^ 32" "unat di + n \<le> 2 ^ 32" "unat si \<le> unat di"
  shows "rep_movsb_down n (si + of_nat n - 1) (di + of_nat n - 1) m = moved n si di m"
  using assms
proof (induction n arbitrary: m)
  case (Suc n)
  have n: "unat (of_nat n :: u32) = n" using Suc.prems(1) by (intro unat_of_nat32) simp
  have u: "unat (si + of_nat n) = unat si + n" "unat (di + of_nat n) = unat di + n"
    using Suc.prems by (simp_all add: unat_word_ariths n)
  have last: "a + of_nat (Suc n) - 1 = a + of_nat n" for a :: u32 by simp
  have "rep_movsb_down (Suc n) (si + of_nat (Suc n) - 1) (di + of_nat (Suc n) - 1) m = moved n si di (m(di + of_nat n := m (si + of_nat n)))"
    using Suc.prems Suc.IH unfolding last rep_movsb_down.simps by simp
  also have "\<dots> = moved (Suc n) si di m"
  proof
    fix a
    have e: "a = di + of_nat n \<longleftrightarrow> unat a = unat di + n" by (simp add: word_unat_eq_iff u)
    have "si + (a - di) \<noteq> di + of_nat n" if "unat di \<le> unat a" "unat a < unat di + n"
    proof -
      have "unat (si + (a - di)) = unat si + (unat a - unat di)"
        using that Suc.prems(1) by (simp add: unat_word_ariths unat_le_diff)
      then have "unat (si + (a - di)) < unat di + n" using that Suc.prems(3) by simp
      then have "unat (si + (a - di)) \<noteq> unat (di + of_nat n)" using u by simp
      then show ?thesis by metis
    qed
    then show "moved n si di (m(di + of_nat n := m (si + of_nat n))) a = moved (Suc n) si di m a"
      using e by (auto simp: moved_def)
  qed
  finally show ?case .
qed simp

text \<open>C36: \<^verbatim>\<open>memmove\<close> is right for every overlap of its arguments: afterwards the destination holds what the source held before, and no
  other byte has changed.\<close>

theorem memmove_overlap:
  assumes "0 \<le> n" "n < 2 ^ 31" "unat src + nat n \<le> 2 ^ 32" "unat dest + nat n \<le> 2 ^ 32"
  shows "fst (memmove dest src n m) =
    (\<lambda>a. if unat dest \<le> unat a \<and> unat a < unat dest + nat n then m (src + (a - dest)) else m a)"
proof -
  define k where "k = nat n"
  have k: "n = int k" "k < 2 ^ 31" using assms(1,2) by (simp_all add: k_def nat_less_iff)
  have w: "word_of_int n = (of_nat k :: u32)" "unat (of_nat k :: u32) = k" using k by (simp_all add: unat_of_nat32)
  note b = assms(3,4) [folded k_def]
  have "fst (memmove dest src n m) = moved k src dest m"
  proof (cases "dest < src")
    case True
    then show ?thesis using rep_movsb_moved [OF b] by (simp add: memmove_def w word_less_nat_alt)
  next
    case False
    then show ?thesis using rep_movsb_down_moved [OF b] by (simp add: memmove_def w word_less_nat_alt)
  qed
  then show ?thesis by (simp only: moved_def k_def)
qed

theorem memmove_overlap_witness:
  "(let m = fst (memmove 2 1 3 (\<lambda>a. ucast a)) in (m 1, m 2, m 3, m 4, m 5) = (1, 1, 2, 3, 5)) \<and>
   (let m = fst (memmove 1 2 3 (\<lambda>a. ucast a)) in (m 1, m 2, m 3, m 4, m 5) = (2, 3, 4, 4, 5))"
  using memmove_overlap [of 3 1 2 "\<lambda>a. ucast a"] memmove_overlap [of 3 2 1 "\<lambda>a. ucast a"] by simp

subsection \<open>Strings in memory\<close>

text \<open>\<open>str_at m p s\<close>: at address \<open>p\<close> there are the bytes of \<open>s\<close>, none of them null, and a null byte behind them, before the end of
  the address space.\<close>

fun str_at :: "mem \<Rightarrow> u32 \<Rightarrow> u8 list \<Rightarrow> bool" where
  "str_at m p [] \<longleftrightarrow> m p = 0"
| "str_at m p (c # s) \<longleftrightarrow> c \<noteq> 0 \<and> m p = c \<and> p + 1 \<noteq> 0 \<and> str_at m (p + 1) s"

lemma unat_Suc32: "(p :: u32) + 1 \<noteq> 0 \<Longrightarrow> unat (p + 1) = unat p + 1"
  by (metis Suc_eq_plus1 unatSuc add.commute)

lemma str_at_length: "str_at m p s \<Longrightarrow> unat p + length s < 2 ^ 32"
proof (induction s arbitrary: p)
  case Nil
  then show ?case using unsigned_less [of p] by simp
next
  case (Cons c s)
  then show ?case using unat_Suc32 [of p] by force
qed

lemma scan_end:
  assumes "str_at m p s" "length s < n"
  shows "repne_scasb n 0 m p z = (p + of_nat (length s) + 1, n - Suc (length s), True)"
  using assms
proof (induction s arbitrary: p n z)
  case Nil
  then show ?case by (cases n) auto
next
  case (Cons c s)
  then show ?case by (cases n) (auto simp: algebra_simps)
qed

lemma scan_length_str:
  assumes "str_at m p s" "p \<noteq> 0"
  shows "scan_length m p = of_nat (length s)"
proof -
  have "0 < unat p" using assms(2) by (simp add: unat_gt_0)
  then have l: "length s < 0xffffffff" using str_at_length [OF assms(1)] by simp
  have "(of_nat (0xffffffff - Suc (length s)) :: u32) = of_nat 0xffffffff - of_nat (Suc (length s))"
    using l by (intro of_nat_diff) simp
  also have "\<dots> = - 2 - of_nat (length s)" by simp
  finally have "(of_nat (0xffffffff - Suc (length s)) :: u32) = - 2 - of_nat (length s)" .
  then show ?thesis by (simp add: scan_length_def scan_end [OF assms(1) l] not_eq_complement)
qed

lemma scan_finds: "str_at m p s \<Longrightarrow> snd (snd (repne_scasb (length s) al m p z)) \<longleftrightarrow> al \<in> set s \<or> s = [] \<and> z"
  by (induction s arbitrary: p z) auto

lemma in_set_iff:
  assumes "str_at m ct T" "ct \<noteq> 0"
  shows "in_set al ct (scan_length m ct) m \<longleftrightarrow> al \<in> set T"
proof -
  have "unat (of_nat (length T) :: u32) = length T" using str_at_length [OF assms(1)] by (intro unat_of_nat32) simp
  then show ?thesis using scan_finds [OF assms(1), of al False] by (simp add: in_set_def scan_length_str [OF assms])
qed

text \<open>The common loop stops behind the longest prefix of bytes that are, or are not, in the set.\<close>

lemma span_loop_str:
  assumes T: "str_at m ct T" "ct \<noteq> 0" and S: "str_at m p S"
  shows "span_loop go ct (scan_length m ct) p m =
    Some (p + of_nat (length (takeWhile (\<lambda>c. (c \<in> set T) = go) S)) + 1, takeWhile (\<lambda>c. (c \<in> set T) = go) S = S)"
  using S
proof (induction S arbitrary: p)
  case Nil
  then show ?case by (simp add: span_loop.simps)
next
  case (Cons c S)
  then show ?case by (subst span_loop.simps) (auto simp: in_set_iff [OF T] algebra_simps)
qed

lemma str_at_append: "str_at m p (xs @ ys) \<Longrightarrow> str_at m (p + of_nat (length xs)) ys"
  by (induction xs arbitrary: p) (auto simp flip: add.assoc)

lemma str_at_nonnull: "str_at m p s \<Longrightarrow> p \<noteq> 0 \<Longrightarrow> p + of_nat (length s) \<noteq> 0"
  by (induction s arbitrary: p) (auto simp flip: add.assoc)

text \<open>Cutting a string: a null byte in the place of the byte behind \<open>xs\<close>.\<close>

lemma str_at_cut:
  assumes "str_at m p (xs @ y # ys)"
  shows "str_at (m(p + of_nat (length xs) := 0)) p xs"
  using assms
proof (induction xs arbitrary: p)
  case (Cons x xs)
  have "unat p + length (x # xs @ y # ys) < 2 ^ 32" using str_at_length [OF Cons.prems] by simp
  then have "unat (of_nat (Suc (length xs)) :: u32) = Suc (length xs)" by (intro unat_of_nat32) simp
  then have "(of_nat (Suc (length xs)) :: u32) \<noteq> 0" by (metis nat.distinct(1) unat_0)
  then have "p \<noteq> p + of_nat (length (x # xs))" by simp
  then show ?case using Cons.prems Cons.IH [of "p + 1"] by (simp add: add.assoc)
qed simp

lemma str_at_cong: "(\<And>i. i \<le> length s \<Longrightarrow> m' (p + of_nat i) = m (p + of_nat i)) \<Longrightarrow> str_at m' p s = str_at m p s"
proof (induction s arbitrary: p)
  case Nil
  then show ?case using Nil [of 0] by simp
next
  case (Cons c s)
  have "m' (p + 1 + of_nat i) = m (p + 1 + of_nat i)" if "i \<le> length s" for i
    using Cons.prems [of "Suc i"] that by (simp add: algebra_simps)
  with Cons.IH [of "p + 1"] Cons.prems [of 0] show ?case by simp
qed

subsection \<open>Tokens\<close>

text \<open>The token that \<^verbatim>\<open>strtok\<close> promises and what is left: skip the delimiters, take up to the next one and drop it.\<close>

definition next_token :: "u8 set \<Rightarrow> u8 list \<Rightarrow> u8 list \<times> u8 list option" where
  "next_token D s =
     (let t = dropWhile (\<lambda>c. c \<in> D) s;
          r = dropWhile (\<lambda>c. c \<notin> D) t in
      (takeWhile (\<lambda>c. c \<notin> D) t, if r = [] then None else Some (tl r)))"

lemma strtok_end_str:
  assumes T: "str_at m ct T" "ct \<noteq> 0" and S: "str_at m p (c # S)" "c \<notin> set T" "p \<noteq> 0"
  defines "tok \<equiv> takeWhile (\<lambda>c. c \<notin> set T) (c # S)" and "r \<equiv> dropWhile (\<lambda>c. c \<notin> set T) (c # S)"
  shows "strtok_end ct (scan_length m ct) p m =
    Some (p, if r = [] then 0 else p + of_nat (length tok) + 1, if r = [] then m else m(p + of_nat (length tok) := 0))"
proof -
  have sp: "tok @ r = c # S" by (simp add: tok_def r_def)
  have e: "(takeWhile (\<lambda>c. (c \<in> set T) = False) (c # S) = c # S) = (r = [])"
    unfolding r_def by (simp add: dropWhile_eq_Nil_conv takeWhile_eq_all_conv)
  have l: "span_loop False ct (scan_length m ct) p m = Some (p + of_nat (length tok) + 1, r = [])"
    using span_loop_str [OF T S(1), of False] unfolding e tok_def by simp
  show ?thesis
  proof (cases "r = []")
    case True
    then show ?thesis using S l by (simp add: strtok_end_def)
  next
    case False
    then obtain y ys where r: "r = y # ys" by (cases r) auto
    have "str_at m p (tok @ y # ys)" using S(1) sp r by simp
    from str_at_append [OF this] str_at_cut [OF this] have y: "m (p + of_nat (length tok)) \<noteq> 0"
      and cut: "str_at (m(p + of_nat (length tok) := 0)) p tok" by auto
    have "tok \<noteq> []" using S(2) by (simp add: tok_def)
    then have "(m(p + of_nat (length tok) := 0)) p \<noteq> 0" using cut by (cases tok) auto
    then show ?thesis using False S(3) y by (simp add: strtok_end_def l del: fun_upd_apply)
  qed
qed

lemma unat_add_length: "str_at m p (xs @ ys) \<Longrightarrow> unat (p + of_nat (length xs)) = unat p + length xs"
proof (induction xs arbitrary: p)
  case (Cons x xs)
  then show ?case using unat_Suc32 [of p] Cons.IH [of "p + 1"] by (simp flip: add.assoc)
qed simp

lemma str_at_behind_cut:
  assumes "str_at m p (xs @ y # ys)"
  shows "str_at (m(p + of_nat (length xs) := 0)) (p + of_nat (length xs) + 1) ys"
proof -
  have s: "str_at m (p + of_nat (length xs) + 1) ys" using str_at_append [OF assms] by simp
  have "of_nat (Suc i) \<noteq> (0 :: u32)" if "i \<le> length ys" for i
  proof -
    have "unat (of_nat (Suc i) :: u32) = Suc i" using that str_at_length [OF assms] by (intro unat_of_nat32) simp
    then show ?thesis by (metis nat.distinct(1) unat_0)
  qed
  then have "p + of_nat (length xs) + 1 + of_nat i \<noteq> p + of_nat (length xs)" if "i \<le> length ys" for i
    using that by (simp add: add.assoc)
  then have "str_at (m(p + of_nat (length xs) := 0)) (p + of_nat (length xs) + 1) ys = str_at m (p + of_nat (length xs) + 1) ys"
    by (intro str_at_cong fun_upd_other)
  then show ?thesis using s by blast
qed

text \<open>C37: \<^verbatim>\<open>strtok\<close> hands out the tokens of a string one by one. For a string \<open>S\<close>, given or remembered from the last call, and a
  non-empty string of delimiters, it returns the address of the first token, as a string of its own, and
  remembers the string behind the delimiter that ended it; without a further token it returns and remembers the null
  pointer. Memory changes at most in the one byte of that delimiter.\<close>

theorem strtok_tokens:
  assumes T: "str_at m ct T" "ct \<noteq> 0" "T \<noteq> []" and p: "p = (if s = 0 then old else s)" "p \<noteq> 0" and S: "str_at m p S"
    and t: "next_token (set T) S = (tok, rest)"
  shows "\<exists>bx new m'. strtok s ct old m = Some (bx, new, m') \<and>
    (if tok = [] then bx = 0 \<and> new = 0 \<and> m' = m
     else bx = p + of_nat (length (takeWhile (\<lambda>c. c \<in> set T) S)) \<and> bx \<noteq> 0 \<and> str_at m' bx tok \<and>
       (case rest of None \<Rightarrow> new = 0 \<and> m' = m
        | Some r \<Rightarrow> new = bx + of_nat (length tok) + 1 \<and> str_at m' new r \<and> m' = m(bx + of_nat (length tok) := 0)))"
proof -
  define D u where "D = takeWhile (\<lambda>c. c \<in> set T) S" and "u = dropWhile (\<lambda>c. c \<in> set T) S"
  note t' = t [unfolded next_token_def u_def [symmetric] Let_def]
  have sp: "D @ u = S" by (simp add: D_def u_def)
  have "0 < length T" using T(3) by simp
  then have dx: "scan_length m ct \<noteq> 0"
    using str_at_length [OF T(1)] unat_of_nat32 [of "length T"] by (auto simp: scan_length_str [OF T(1,2)] simp flip: unat_0)
  have l: "span_loop True ct (scan_length m ct) p m = Some (p + of_nat (length D) + 1, u = [])"
    using span_loop_str [OF T(1,2) S, of True] sp by (auto simp: D_def [symmetric])
  note run = strtok_def [of s ct old m, folded p(1), unfolded Let_def]
  show ?thesis
  proof (cases u)
    case Nil
    then have "tok = []" using t' by simp
    moreover have "strtok s ct old m = Some (0, 0, m)" using l dx p Nil unfolding run by auto
    ultimately show ?thesis by simp
  next
    case (Cons c u')
    let ?q = "p + of_nat (length D)"
    define w where "w = dropWhile (\<lambda>c. c \<notin> set T) u"
    have c: "c \<notin> set T" using hd_dropWhile [of "\<lambda>c. c \<in> set T" S] Cons by (auto simp: u_def [symmetric])
    have q: "str_at m ?q (c # u')" "?q \<noteq> 0"
      using str_at_append [of m p D u] S sp Cons str_at_nonnull [of m p D] unat_add_length [of m p D u] p(2) by (auto simp: unat_gt_0 simp flip: unat_0 sp)
    have tok: "tok = takeWhile (\<lambda>c. c \<notin> set T) u" "rest = (if w = [] then None else Some (tl w))" "tok @ w = u"
      using t' by (auto simp only: prod.inject w_def takeWhile_dropWhile_id)
    have "strtok s ct old m = strtok_end ct (scan_length m ct) ?q m" using l dx p q Cons unfolding run by auto
    also note strtok_end_str [OF T(1,2) q(1) c q(2), folded Cons w_def]
    finally have e: "strtok s ct old m = Some (?q, if w = [] then 0 else ?q + of_nat (length tok) + 1,
        if w = [] then m else m(?q + of_nat (length tok) := 0))" by (simp only: tok(1) w_def)
    have ne: "tok \<noteq> []" using Cons c tok(1) by simp
    show ?thesis
    proof (cases w)
      case Nil
      then show ?thesis using e ne q tok Cons by (simp add: D_def [symmetric])
    next
      case (Cons y ys)
      then have a: "str_at m ?q (tok @ y # ys)" using q(1) tok(3) \<open>u = c # u'\<close> by simp
      show ?thesis using e ne q tok Cons str_at_cut [OF a] str_at_behind_cut [OF a] by (simp add: D_def [symmetric])
    qed
  qed
qed

text \<open>The memory of the witnesses: \<open>a,,b\<close> at 16 and the delimiter at 32.\<close>

definition str_mem :: mem where
  "str_mem = (\<lambda>a. if a = 16 then 97 else if a = 17 then 44 else if a = 18 then 44 else if a = 19 then 98 else if a = 32 then 44 else 0)"

lemma str_mem_strings: "str_at str_mem 16 [97, 44, 44, 98]" "str_at str_mem 32 [44]"
  by (simp_all add: str_mem_def)

theorem strtok_tokens_witness:
  "\<exists>m. strtok 16 32 0 str_mem = Some (16, 18, m) \<and> str_at m 16 [97] \<and> str_at m 18 [44, 98]"
proof -
  have n: "next_token (set [44]) [97, 44, 44, 98] = ([97], Some [44, 98 :: u8])" by (simp add: next_token_def)
  have ne: "(32 :: u32) \<noteq> 0" "[44 :: u8] \<noteq> []" "(16 :: u32) = (if (16 :: u32) = 0 then 0 else 16)" "(16 :: u32) \<noteq> 0" by simp_all
  from strtok_tokens [OF str_mem_strings(2) ne str_mem_strings(1) n] obtain bx new m where
    "strtok 16 32 0 str_mem = Some (bx, new, m)" "bx = 16" "str_at m bx [97]" "new = bx + 2" "str_at m new [44, 98]"
    by (auto simp: add.assoc)
  then show ?thesis by auto
qed

subsection \<open>Searching for a string\<close>

lemma compare_str:
  assumes "str_at m si S" "str_at m ct T" "T \<noteq> [] \<or> fst fl" "repe_cmpsb (length T) m si ct fl = (e, zf, lt)"
  shows "zf \<longleftrightarrow> prefix T S" "\<not> zf \<Longrightarrow> m (e - 1) = 0 \<longleftrightarrow> prefix S T"
  using assms
proof (induction T arbitrary: S si ct fl)
  case Nil
  { case 1
    then show ?case by auto
  next
    case 2
    then show ?case by auto
  }
next
  case (Cons c T)
  { case 1
    then show ?case using Cons.IH(1) [of "si + 1" "tl S" "ct + 1" "(True, False)"] by (cases S) (auto split: if_splits)
  next
    case 2
    then show ?case using Cons.IH(2) [of "si + 1" "tl S" "ct + 1" "(True, False)"] by (cases S) (auto split: if_splits)
  }
qed

text \<open>The reference: the first position at which the pattern is a prefix of the rest.\<close>

definition first_at :: "'a list \<Rightarrow> 'a list \<Rightarrow> nat option" where
  "first_at T S = find (\<lambda>i. prefix T (drop i S)) [0..<Suc (length S)]"

lemma find_map: "find P (map f xs) = map_option f (find (P \<circ> f) xs)"
  by (induction xs) auto

lemma first_at_prefix: "prefix T S \<Longrightarrow> first_at T S = Some 0"
  by (simp add: first_at_def upt_conv_Cons del: upt_Suc)

lemma first_at_Cons: "\<not> prefix T (c # S) \<Longrightarrow> first_at T (c # S) = map_option Suc (first_at T S)"
proof -
  assume "\<not> prefix T (c # S)"
  moreover have "[0..<Suc (length (c # S))] = 0 # map Suc [0..<Suc (length S)]"
    by (simp add: upt_conv_Cons map_Suc_upt del: upt_Suc)
  ultimately show ?thesis by (simp add: first_at_def find_map comp_def del: upt_Suc)
qed

lemma first_at_short: "length S < length T \<Longrightarrow> first_at T S = None"
  by (auto simp: first_at_def find_None_iff dest: prefix_length_le simp del: upt_Suc)

lemma strstr_loop_str:
  assumes T: "str_at m ct T" "ct \<noteq> 0" and S: "str_at m p S"
  shows "strstr_loop p ct (scan_length m ct) m = Some (case first_at T S of Some i \<Rightarrow> p + of_nat i | None \<Rightarrow> 0)"
  using S
proof (induction S arbitrary: p)
  note len = scan_length_str [OF T]
  have u: "unat (scan_length m ct) = length T" using str_at_length [OF T(1)] by (simp add: len unat_of_nat32)
  have z: "scan_length m ct = 0 \<longleftrightarrow> T = []" using u by (auto simp: word_unat_eq_iff)
  have step: "strstr_loop p ct (scan_length m ct) m = (if prefix T S then Some p
      else if prefix S T then Some 0 else strstr_loop (p + 1) ct (scan_length m ct) m)" if "str_at m p S" for p S
  proof -
    obtain e zf lt where c: "repe_cmpsb (length T) m p ct (T = [], False) = (e, zf, lt)" by (metis prod_cases3)
    have "T \<noteq> [] \<or> fst (T = [], False)" by simp
    from compare_str [OF that T(1) this c] show ?thesis by (subst strstr_loop.simps) (simp add: u z c)
  qed
  {
    case Nil
    then show ?case using step [of p "[]"] by (auto simp: first_at_prefix first_at_short)
  next
    case (Cons c S)
    have "first_at T (c # S) = None" if "prefix (c # S) T" "\<not> prefix T (c # S)"
      using that by (intro first_at_short) (auto simp: prefix_def)
    then show ?case using Cons step [of p "c # S"]
      by (auto simp: first_at_prefix first_at_Cons algebra_simps split: option.splits)
  }
qed

text \<open>\<^verbatim>\<open>strstr\<close> returns the address of the first occurrence of the string at \<open>ct\<close> in the string at \<open>cs\<close>, in particular \<open>cs\<close> itself for
  an empty string, and the null pointer when there is none: it agrees with the search that tries one position after the other.\<close>

theorem strstr_first:
  assumes "str_at m cs S" "str_at m ct T" "ct \<noteq> 0"
  shows "strstr cs ct m = Some (case find (\<lambda>i. prefix T (drop i S)) [0..<Suc (length S)] of Some i \<Rightarrow> cs + of_nat i | None \<Rightarrow> 0)"
  unfolding strstr_def strstr_loop_str [OF assms(2,3,1)] first_at_def ..

theorem strstr_first_witness:
  "strstr 16 18 str_mem = Some 18 \<and> strstr 16 32 str_mem = Some 17"
proof -
  have s: "str_at str_mem 18 [44, 98]" by (simp add: str_mem_def)
  have ne: "(18 :: u32) \<noteq> 0" "(32 :: u32) \<noteq> 0" by simp_all
  have "find (\<lambda>i. prefix [44, 98] (drop i [97, 44, 44, 98 :: u8])) [0..<Suc (length [97, 44, 44, 98 :: u8])] = Some 2"
    "find (\<lambda>i. prefix [44] (drop i [97, 44, 44, 98 :: u8])) [0..<Suc (length [97, 44, 44, 98 :: u8])] = Some 1"
    by (simp_all add: upt_conv_Cons del: upt_Suc)
  then show ?thesis
    using strstr_first [OF str_mem_strings(1) s ne(1)] strstr_first [OF str_mem_strings(1,2) ne(2)] by simp
qed

subsection \<open>Comparing and copying\<close>

text \<open>The order of \<^verbatim>\<open>strcmp\<close>: bytes as signed numbers, the end of a string as the byte 0.\<close>

fun str_order :: "u8 list \<Rightarrow> u8 list \<Rightarrow> int" where
  "str_order [] [] = 0"
| "str_order [] (d # T) = (if sint d < 0 then 1 else -1)"
| "str_order (c # S) [] = (if 0 < sint c then 1 else -1)"
| "str_order (c # S) (d # T) = (if c = d then str_order S T else if sint d < sint c then 1 else -1)"

lemma strcmp_str: "str_at m cs S \<Longrightarrow> str_at m ct T \<Longrightarrow> strcmp cs ct m = Some (str_order S T)"
proof (induction S T arbitrary: cs ct rule: str_order.induct)
  case (4 c S d T)
  then show ?case by (auto simp: strcmp_def strcmp_loop.simps [of ct])
qed (auto simp: strcmp_def strcmp_loop.simps)

lemma str_order_0: "str_order S T = 0 \<longleftrightarrow> S = T"
  by (induction S T rule: str_order.induct) auto

text \<open>A copy of a string that does not overlap its source.\<close>

lemma copy_loop_str:
  assumes "str_at m si S" "unat si + length S < unat di \<or> unat di + length S < unat si" "unat di + length S < 2 ^ 32"
  shows "copy_loop si di m = Some (rep_movsb (Suc (length S)) si di m)"
  using assms
proof (induction S arbitrary: si di m)
  case Nil
  then show ?case by (simp add: copy_loop.simps fun_eq_iff)
next
  case (Cons c S)
  then have si: "unat (si + 1) = unat si + 1" by (simp add: unat_Suc32)
  have di: "unat (di + 1) = unat di + 1" using Cons.prems(3) by (simp add: unat_word_ariths)
  have "str_at (m(di := c)) (si + 1) S"
  proof (subst str_at_cong)
    show "(m(di := c)) (si + 1 + of_nat i) = m (si + 1 + of_nat i)" if "i \<le> length S" for i
    proof -
      have "str_at m (si + 1) (take i S @ drop i S)" using Cons.prems(1) by simp
      from unat_add_length [OF this] that si have "unat (si + 1 + of_nat i) = unat si + 1 + i" by simp
      then have "unat (si + 1 + of_nat i) \<noteq> unat di" using Cons.prems(2) that by auto
      then show ?thesis by (intro fun_upd_other) metis
    qed
    show "str_at m (si + 1) S" using Cons.prems(1) by simp
  qed
  then have ih: "copy_loop (si + 1) (di + 1) (m(di := c)) = Some (rep_movsb (Suc (length S)) (si + 1) (di + 1) (m(di := c)))"
    by (rule Cons.IH) (use Cons.prems(2,3) si di in auto)
  have c: "c \<noteq> 0" "m si = c" using Cons.prems(1) by simp_all
  then have "copy_loop si di m = copy_loop (si + 1) (di + 1) (m(di := c))" by (subst copy_loop.simps) (simp add: Let_def)
  then show ?case unfolding ih by (simp only: list.size(4) rep_movsb.simps(2) [of "Suc (length S)"] c(2) add.commute [of _ "Suc 0"] plus_1_eq_Suc add_Suc add_0)
qed

lemma str_at_shift:
  assumes "str_at m p s" "\<And>i. i \<le> length s \<Longrightarrow> m' (q + of_nat i) = m (p + of_nat i)" "unat q + length s < 2 ^ 32"
  shows "str_at m' q s"
  using assms
proof (induction s arbitrary: p q)
  case Nil
  then show ?case using Nil.prems(2) [of 0] by simp
next
  case (Cons c s)
  have q: "unat (q + 1) = unat q + 1" using Cons.prems(3) by (simp add: unat_word_ariths)
  then have "q + 1 \<noteq> 0" by (metis add_is_0 unat_0 zero_neq_one)
  moreover have "m' (q + 1 + of_nat i) = m (p + 1 + of_nat i)" if "i \<le> length s" for i
    using Cons.prems(2) [of "Suc i"] that by (simp add: algebra_simps)
  ultimately show ?case using Cons.IH [of "p + 1" "q + 1"] Cons.prems Cons.prems(2) [of 0] q by simp
qed

lemma strcpy_str:
  assumes S: "str_at m src S" and d: "unat src + length S < unat dest \<or> unat dest + length S < unat src" "unat dest + length S < 2 ^ 32"
  shows "\<exists>m'. strcpy dest src m = Some m' \<and> str_at m' dest S \<and> (\<forall>a. unat a < unat dest \<or> unat dest + length S < unat a \<longrightarrow> m' a = m a)"
proof -
  let ?n = "Suc (length S)"
  have "strcpy dest src m = Some (moved ?n src dest m)"
    unfolding strcpy_def copy_loop_str [OF assms] using d str_at_length [OF S] by (subst rep_movsb_moved) auto
  moreover have sh: "moved ?n src dest m (dest + of_nat i) = m (src + of_nat i)" if "i \<le> length S" for i
  proof -
    have "unat (of_nat i :: u32) = i" using that d(2) by (intro unat_of_nat32) simp
    then have "unat (dest + of_nat i) = unat dest + i" using that d(2) by (simp add: unat_word_ariths)
    then show ?thesis using that by (simp add: moved_def)
  qed
  have "str_at (moved ?n src dest m) dest S" by (rule str_at_shift [OF S sh d(2)])
  ultimately show ?thesis by (auto simp: moved_def)
qed

text \<open>\<^verbatim>\<open>strcat\<close> puts the second string where the first one ends.\<close>

lemma strcat_str:
  assumes "str_at m dest D" "dest \<noteq> 0"
  shows "strcat dest src m = strcpy (dest + of_nat (length D)) src m"
proof -
  have "0 < unat dest" using assms(2) by (simp add: unat_gt_0)
  then have "length D < 0xffffffff" using str_at_length [OF assms(1)] by simp
  from scan_end [OF assms(1) this] show ?thesis by (simp add: strcat_def strcpy_def)
qed

text \<open>\<^verbatim>\<open>strncat\<close> of a string shorter than the count stores two null bytes, the second one behind the result.\<close>

lemma strncat_loop_short:
  assumes "str_at m si []" "0 < sint (cx :: u32)"
  shows "strncat_loop si di cx m = Some (m(di := 0, di + 1 := 0))"
proof -
  have "sint (cx - 1) = wrap32 (sint cx - 1)" by (simp add: wrap32_sint)
  moreover have "is_s32 (sint cx - 1)" using sint_lt [of cx] assms(2) by (simp add: is_s32_def)
  ultimately have "sint (cx - 1) = sint cx - 1" by simp
  then show ?thesis using assms by (simp add: strncat_loop.simps)
qed

text \<open>With a count of 0 \<^verbatim>\<open>memcmp\<close> gives what the flags were before the call.\<close>

lemma memcmp_0: "memcmp (False, False) cs ct 0 m = -1" "memcmp (True, lt) cs ct 0 m = 0"
  by (simp_all add: memcmp_def)

end
