(* ===== verification/Keyboard.thy ===== *)
theory Keyboard
  imports Serial
begin

text \<open>
  The keyboard driver, kernel/chr_drv/keyboard.S, with the tables of the Finnish keyboard that include/linux/config.h selects. Its
  variables \<^verbatim>\<open>mode\<close>, \<^verbatim>\<open>leds\<close> and \<^verbatim>\<open>e0\<close> and the ports of the keyboard controller are a record of their own. A routine that ends by
  jumping to itself (\<^verbatim>\<open>reboot\<close>) does not return (\<open>Hang\<close>).
\<close>

subsection \<open>State and tables\<close>

record kbd =
  kb_mode :: u8
  kb_leds :: u8
  kb_e0 :: u8
  kb_io :: rs_ports

text \<open>The routines that \<^verbatim>\<open>key_table\<close> names.\<close>

datatype key_routine =
    None_key | Do_self | Minus | Ctrl | Unctrl | Alt | Unalt | Lshift | Unlshift | Rshift | Unrshift | Caps | Uncaps | Scroll | Num
  | Cursor | Func

definition key_table :: "key_routine list" where
  "key_table =
     [None_key] @ replicate 28 Do_self @ [Ctrl] @ replicate 12 Do_self @ [Lshift] @ replicate 10 Do_self @
     [Minus, Rshift, Do_self, Alt, Do_self, Caps] @ replicate 10 Func @
     [Num, Scroll, Cursor, Cursor, Cursor, Do_self, Cursor, Cursor, Cursor, Do_self] @ replicate 5 Cursor @
     [None_key, None_key, Do_self, Func, Func] @ replicate 68 None_key @ [Unctrl] @ replicate 12 None_key @ [Unlshift] @
     replicate 11 None_key @ [Unrshift, None_key, Unalt, None_key, Uncaps] @ replicate 69 None_key"

definition ascii :: "string \<Rightarrow> u8 list" where
  "ascii = map of_char"

definition key_map :: "u8 list" where
  "key_map =
     [0, 27] @ ascii ''1234567890+'' @ [39, 127, 9] @ ascii ''qwertyuiop}'' @ [0, 13, 0] @ ascii ''asdfghjkl|{'' @ [0, 0, 39] @
     ascii ''zxcvbnm,.-'' @ [0, 42, 0, 32] @ replicate 16 0 @ [45, 0, 0, 0, 43] @ replicate 7 0 @ [60] @ replicate 10 0"

definition shift_map :: "u8 list" where
  "shift_map =
     [0, 27, 33, 34] @ ascii ''#$%&/()=?`'' @ [127, 9] @ ascii ''QWERTYUIOP]^'' @ [13, 0] @ ascii ''ASDFGHJKL'' @ [92, 91, 0, 0] @
     ascii ''*ZXCVBNM;:_'' @ [0, 42, 0, 32] @ replicate 16 0 @ [45, 0, 0, 0, 43] @ replicate 7 0 @ [62] @ replicate 10 0"

definition alt_map :: "u8 list" where
  "alt_map =
     [0, 0, 0, 64, 0, 36, 0, 0, 123, 91, 93, 125, 92, 0, 0, 0] @ replicate 11 0 @ [126, 13, 0] @ replicate 11 0 @ [0, 0] @
     replicate 11 0 @ [0, 0, 0, 0] @ replicate 16 0 @ [0, 0, 0, 0, 0] @ replicate 7 0 @ [124] @ replicate 10 0"

definition num_table :: "u8 list" where
  "num_table = ascii ''789 456 1230,''"

definition cur_table :: "u8 list" where
  "cur_table = ascii ''HA5 DGC YB623''"

definition func_table :: "u32 list" where
  "func_table =
     [0x415b5b1b, 0x425b5b1b, 0x435b5b1b, 0x445b5b1b, 0x455b5b1b, 0x465b5b1b, 0x475b5b1b, 0x485b5b1b, 0x495b5b1b, 0x4a5b5b1b,
      0x4b5b5b1b, 0x4c5b5b1b]"

definition kb_inb :: "u32 \<Rightarrow> kbd \<Rightarrow> u8 \<times> kbd" where
  "kb_inb port k = (let (v, r) = rs_inb port (kb_io k) in (v, k\<lparr>kb_io := r\<rparr>))"

definition kb_outb :: "(u32 \<times> u8) list \<Rightarrow> kbd \<Rightarrow> kbd" where
  "kb_outb bs k = k\<lparr>kb_io := rs_outb bs (kb_io k)\<rparr>"

subsection \<open>The queue\<close>

lemma drop_bit_8_less: "w \<noteq> 0 \<Longrightarrow> unat (drop_bit 8 (w :: u32)) < unat w"
  by (simp add: unat_drop_bit32 unat_gt_0)

lemma shift_out_less:
  assumes "drop_bit 8 eax OR push_bit 24 ebx \<noteq> (0 :: u32)"
  shows "unat (drop_bit 8 ebx) < unat ebx \<or> unat (drop_bit 8 ebx) = unat ebx \<and> unat (drop_bit 8 eax OR push_bit 24 ebx) < unat eax"
proof (cases "ebx = 0")
  case True
  then have "eax \<noteq> 0" using assms by auto
  then show ?thesis using True drop_bit_8_less by simp
qed (simp add: drop_bit_8_less)

text \<open>The loop of \<^verbatim>\<open>put_queue\<close>: \<open>None\<close> when the buffer is full, otherwise the new head.\<close>

function put_loop :: "u32 \<Rightarrow> u32 \<Rightarrow> u32 \<Rightarrow> tty_queue \<Rightarrow> tty_queue \<times> u32 option" where
  "put_loop cx eax ebx q =
     (let q = q\<lparr>q_buf := (q_buf q)(unat cx := ucast eax)\<rparr>;
          cx = inc_index cx in
      if cx = q_tail q then (q, None)
      else
        let eax = drop_bit 8 eax OR push_bit 24 ebx in
        if eax = 0 then (q, Some cx) else put_loop cx eax (drop_bit 8 ebx) q)"
  by pat_completeness auto

termination
  by (relation "measures [\<lambda>(cx, eax, ebx, q). unat ebx, \<lambda>(cx, eax, ebx, q). unat eax]") (auto dest: shift_out_less)

declare put_loop.simps [simp del]

definition put_queue :: "u32 \<Rightarrow> u32 \<Rightarrow> kernel \<Rightarrow> kernel" where
  "put_queue eax ebx s =
     (let (q, h) = put_loop (q_head (read_q (tty_table s 0))) eax ebx (read_q (tty_table s 0)) in
      case h of
        None \<Rightarrow> upd_tty 0 (\<lambda>t. t\<lparr>read_q := q\<rparr>) s
      | Some cx \<Rightarrow>
          let s = upd_tty 0 (\<lambda>t. t\<lparr>read_q := q\<lparr>q_head := cx\<rparr>\<rparr>) s in
          if wq s (Read_list 0) = 0 then s else upd_task (wq s (Read_list 0)) (\<lambda>p. p\<lparr>t_state := 0\<rparr>) s)"

subsection \<open>Waiting for the controller\<close>

definition kb_wait :: "env \<Rightarrow> kbd \<Rightarrow> kernel \<Rightarrow> kbd kres" where
  "kb_wait E = kwhile (fuel E) (\<lambda>k s. let (v, k) = kb_inb 0x64 k in if v AND 2 = 0 then Ret (Inr k) s else Ret (Inl k) s)"

definition set_leds :: "env \<Rightarrow> kbd \<Rightarrow> kernel \<Rightarrow> kbd kres" where
  "set_leds E k s =
     kbind (kb_wait E k s) (\<lambda>k s.
     kbind (kb_wait E (kb_outb [(0x60, 0xed)] k) s) (\<lambda>k s.
       Ret (kb_outb [(0x60, kb_leds k)] k) s))"

text \<open>\<^verbatim>\<open>reboot\<close> stores 0x1234 at 0x472, which tells the BIOS to skip its memory check, asks the keyboard controller to pulse the
  reset line and then jumps to itself. The machine restarts, so neither store nor output is seen by the kernel again: the
  outcome is \<open>Hang\<close>, which carries no state.\<close>

definition reboot :: "env \<Rightarrow> kbd \<Rightarrow> kernel \<Rightarrow> kbd kres" where
  "reboot E k s = kbind (kb_wait E k s) (\<lambda>k s. let k = kb_outb [(0x64, 0xfc)] k in Hang)"

subsection \<open>Keys\<close>

text \<open>The bit of \<^verbatim>\<open>mode\<close> for the control and alt keys, the next one when the code came with a prefix.\<close>

definition side_bit :: "u8 \<Rightarrow> kbd \<Rightarrow> u8" where
  "side_bit b k = (if kb_e0 k = 0 then b else b + b)"

definition caps :: "env \<Rightarrow> kbd \<Rightarrow> kernel \<Rightarrow> kbd kres" where
  "caps E k s =
     (if kb_mode k AND 0x80 \<noteq> 0 then Ret k s
      else set_leds E (k\<lparr>kb_leds := kb_leds k XOR 4, kb_mode := (kb_mode k XOR 0x40) OR 0x80\<rparr>) s)"

definition cur :: "u8 \<Rightarrow> kernel \<Rightarrow> kernel" where
  "cur al s =
     (let c = cur_table ! unat al;
          eax = (if c > 57 then ucast c else ucast c OR push_bit 8 126) in
      put_queue (push_bit 16 eax OR 0x5b1b) 0 s)"

definition cursor :: "env \<Rightarrow> u8 \<Rightarrow> kbd \<Rightarrow> kernel \<Rightarrow> kbd kres" where
  "cursor E sc k s =
     (let al = sc - 0x47 in
      if sc < 0x47 \<or> al > 12 then Ret k s
      else if al = 12 \<and> kb_mode k AND 0x0c \<noteq> 0 \<and> kb_mode k AND 0x30 \<noteq> 0 then reboot E k s
      else if kb_e0 k = 1 \<or> kb_leds k AND 2 = 0 \<or> kb_mode k AND 3 \<noteq> 0 then Ret k (cur al s)
      else Ret k (put_queue (ucast (num_table ! unat al)) 0 s))"

text \<open>\<open>ecx\<close> is the register of the interrupted program, which \<^verbatim>\<open>func\<close> saves around its call of \<^verbatim>\<open>show_stat\<close>: nothing between the
  entry of the interrupt and the test changes it. \<^verbatim>\<open>show_stat\<close> (kernel/sched.c) only prints the table of tasks, and its
  printing is left out here.\<close>

definition func :: "u32 \<Rightarrow> u8 \<Rightarrow> kernel \<Rightarrow> kernel" where
  "func ecx sc s =
     (let al = sc - 0x3B;
          al' = (if al \<le> 9 then al else al - 18) in
      if sc < 0x3B \<or> (al > 9 \<and> (al' < 10 \<or> al' > 11)) then s
      else if sint ecx < 4 then s
      else put_queue (func_table ! unat al') 0 s)"

text \<open>What a key of the maps sends: the character of the map with the changes for control, caps lock and the left alt key.\<close>

definition key_char :: "u8 \<Rightarrow> u8 \<Rightarrow> u8" where
  "key_char mode al =
     (let al = (if mode AND 0x4c \<noteq> 0 \<and> al \<ge> 97 \<and> al \<le> 125 then al - 32 else al);
          al = (if mode AND 0x0c \<noteq> 0 \<and> al \<ge> 64 \<and> al < 96 then al - 64 else al) in
      if mode AND 0x10 \<noteq> 0 then al OR 0x80 else al)"

definition do_self :: "u8 \<Rightarrow> kbd \<Rightarrow> kernel \<Rightarrow> kbd kres" where
  "do_self sc k s =
     (let tab = (if kb_mode k AND 0x20 \<noteq> 0 then alt_map else if kb_mode k AND 0x03 \<noteq> 0 then shift_map else key_map) in
      if length tab \<le> unat sc then Fault
      else if tab ! unat sc = 0 then Ret k s
      else Ret k (put_queue (ucast (key_char (kb_mode k) (tab ! unat sc))) 0 s))"

definition minus :: "u8 \<Rightarrow> kbd \<Rightarrow> kernel \<Rightarrow> kbd kres" where
  "minus sc k s = (if kb_e0 k \<noteq> 1 then do_self sc k s else Ret k (put_queue 47 0 s))"

definition call_key :: "env \<Rightarrow> u32 \<Rightarrow> u8 \<Rightarrow> kbd \<Rightarrow> kernel \<Rightarrow> kbd kres" where
  "call_key E ecx sc k s =
     (case key_table ! unat sc of
        None_key \<Rightarrow> Ret k s
      | Do_self \<Rightarrow> do_self sc k s
      | Minus \<Rightarrow> minus sc k s
      | Ctrl \<Rightarrow> Ret (k\<lparr>kb_mode := kb_mode k OR side_bit 0x04 k\<rparr>) s
      | Alt \<Rightarrow> Ret (k\<lparr>kb_mode := kb_mode k OR side_bit 0x10 k\<rparr>) s
      | Unctrl \<Rightarrow> Ret (k\<lparr>kb_mode := kb_mode k AND NOT (side_bit 0x04 k)\<rparr>) s
      | Unalt \<Rightarrow> Ret (k\<lparr>kb_mode := kb_mode k AND NOT (side_bit 0x10 k)\<rparr>) s
      | Lshift \<Rightarrow> Ret (k\<lparr>kb_mode := kb_mode k OR 0x01\<rparr>) s
      | Unlshift \<Rightarrow> Ret (k\<lparr>kb_mode := kb_mode k AND 0xfe\<rparr>) s
      | Rshift \<Rightarrow> Ret (k\<lparr>kb_mode := kb_mode k OR 0x02\<rparr>) s
      | Unrshift \<Rightarrow> Ret (k\<lparr>kb_mode := kb_mode k AND 0xfd\<rparr>) s
      | Caps \<Rightarrow> caps E k s
      | Uncaps \<Rightarrow> Ret (k\<lparr>kb_mode := kb_mode k AND 0x7f\<rparr>) s
      | Scroll \<Rightarrow> set_leds E (k\<lparr>kb_leds := kb_leds k XOR 1\<rparr>) s
      | Num \<Rightarrow> set_leds E (k\<lparr>kb_leds := kb_leds k XOR 2\<rparr>) s
      | Cursor \<Rightarrow> cursor E sc k s
      | Func \<Rightarrow> Ret k (func ecx sc s))"

text \<open>What the interrupt routine does with a scan code: note a prefix, or call the key's routine and forget the prefix.\<close>

definition scan_code :: "env \<Rightarrow> u32 \<Rightarrow> u8 \<Rightarrow> kbd \<Rightarrow> kernel \<Rightarrow> kbd kres" where
  "scan_code E ecx sc k s =
     (if sc = 0xe0 then Ret (k\<lparr>kb_e0 := 1\<rparr>) s
      else if sc = 0xe1 then Ret (k\<lparr>kb_e0 := 2\<rparr>) s
      else kbind (call_key E ecx sc k s) (\<lambda>k s. Ret (k\<lparr>kb_e0 := 0\<rparr>) s))"

definition keyboard_interrupt :: "env \<Rightarrow> u32 \<Rightarrow> kbd \<Rightarrow> kernel \<Rightarrow> kbd kres" where
  "keyboard_interrupt E ecx k s =
     (let (sc, k) = kb_inb 0x60 k in
      kbind (scan_code E ecx sc k s) (\<lambda>k s.
        let (v, k) = kb_inb 0x61 k;
            k = kb_outb [(0x61, v OR 0x80), (0x61, (v OR 0x80) AND 0x7f), (0x20, 0x20)] k in
        kbind (do_tty_interrupt E 0 s) (\<lambda>_ s. Ret k s)))"

lemma key_maps_length: "length key_map = 97" "length shift_map = 97" "length alt_map = 97" "length key_table = 256"
  by (simp_all add: key_map_def shift_map_def alt_map_def key_table_def ascii_def)

subsection \<open>Characters enter the queue together or not at all\<close>

function reg_bytes :: "u32 \<Rightarrow> u32 \<Rightarrow> u8 list" where
  "reg_bytes eax ebx =
     ucast eax # (let eax' = drop_bit 8 eax OR push_bit 24 ebx in if eax' = 0 then [] else reg_bytes eax' (drop_bit 8 ebx))"
  by pat_completeness auto
termination
  by (relation "measures [\<lambda>(eax, ebx). unat ebx, \<lambda>(eax, ebx). unat eax]") (auto simp: Let_def dest: shift_out_less)

declare reg_bytes.simps [simp del]

lemma store_outside:
  assumes "q_ok q"
  shows "q_items (q\<lparr>q_buf := (q_buf q)(unat (q_head q) := b)\<rparr>) = q_items q"
proof -
  have l: "unat (q_head q) < 1024" "unat (q_tail q) < 1024" using assms by (simp_all add: q_ok_def word_less_nat_alt)
  have "(unat (q_tail q) + j) mod 1024 \<noteq> unat (q_head q)" if "j < unat (CHARS q)" for j
    using ring_distance [OF _ l] that chars_value [OF assms] by (simp add: word_le_nat_alt)
  then show ?thesis by (simp add: q_items_def CHARS_def)
qed

lemma items_inc_head:
  assumes "q_ok q" "inc_index (q_head q) \<noteq> q_tail q"
  shows "length (q_items q) < 1023" "q_items (q\<lparr>q_head := inc_index (q_head q)\<rparr>) = q_items q @ [q_buf q (unat (q_head q))]"
proof -
  have "\<not> FULL q"
  proof
    assume "FULL q"
    then have "length (q_items q) = 1023" using q_tests(2) [OF assms(1)] by simp
    then have "unat (inc_index (q_head q)) = unat (q_tail q)"
      using chars_value [OF assms(1)] assms(1) by (auto simp: length_q_items unat_inc_index q_ok_def word_le_nat_alt word_less_nat_alt split: if_splits)
    then show False using assms(2) by (simp add: word_unat_eq_iff)
  qed
  moreover have "length (q_items q) \<le> 1023"
    using chars_value [OF assms(1)] assms(1) by (auto simp: length_q_items q_ok_def word_le_nat_alt word_less_nat_alt)
  ultimately show l: "length (q_items q) < 1023" using q_tests(2) [OF assms(1)] by simp
  have "q\<lparr>q_head := inc_index (q_head q)\<rparr> = PUTCH (q_buf q (unat (q_head q))) q" by (simp add: PUTCH_def)
  then show "q_items (q\<lparr>q_head := inc_index (q_head q)\<rparr>) = q_items q @ [q_buf q (unat (q_head q))]"
    using ttyq.items_put [OF assms(1) l] by simp
qed

lemma items_full: "q_ok q \<Longrightarrow> inc_index (q_head q) = q_tail q \<Longrightarrow> length (q_items q) = 1023"
  using chars_value [of q] unat_inc_index [of "q_head q"]
  by (auto simp: length_q_items q_ok_def word_le_nat_alt word_less_nat_alt)

lemma queue_update_swap: "(q :: tty_queue)\<lparr>q_buf := B, q_head := c\<rparr> = q\<lparr>q_head := c, q_buf := B\<rparr>"
  by simp

lemma put_loop_all_or_nothing:
  assumes "q_ok (q\<lparr>q_head := cx\<rparr>)" "put_loop cx eax ebx q = (q', h)"
  shows "q_head q' = q_head q \<and> q_tail q' = q_tail q \<and>
    (if length (q_items (q\<lparr>q_head := cx\<rparr>)) + length (reg_bytes eax ebx) \<le> 1023
     then \<exists>c. h = Some c \<and> q_ok (q'\<lparr>q_head := c\<rparr>) \<and> q_items (q'\<lparr>q_head := c\<rparr>) = q_items (q\<lparr>q_head := cx\<rparr>) @ reg_bytes eax ebx
     else h = None \<and> q_items (q'\<lparr>q_head := cx\<rparr>) = q_items (q\<lparr>q_head := cx\<rparr>))"
  using assms
proof (induction cx eax ebx q arbitrary: q' h rule: put_loop.induct)
  case (1 cx eax ebx q)
  let ?q = "q\<lparr>q_buf := (q_buf q)(unat cx := ucast eax)\<rparr>"
  let ?x = "drop_bit 8 eax OR push_bit 24 ebx"
  have ok: "q_ok (?q\<lparr>q_head := cx\<rparr>)" using "1.prems" by (simp add: q_ok_def)
  have st: "q_items (?q\<lparr>q_head := cx\<rparr>) = q_items (q\<lparr>q_head := cx\<rparr>)"
    using store_outside [OF "1.prems"(1), of "ucast eax"] by (simp add: queue_update_swap)
  have b: "reg_bytes eax ebx = ucast eax # (if ?x = 0 then [] else reg_bytes ?x (drop_bit 8 ebx))"
    by (subst reg_bytes.simps) (simp add: Let_def)
  have l: "put_loop cx eax ebx q = (if inc_index cx = q_tail q then (?q, None) else if ?x = 0 then (?q, Some (inc_index cx))
      else put_loop (inc_index cx) ?x (drop_bit 8 ebx) ?q)"
    by (subst put_loop.simps) (simp add: Let_def)
  have ne: "reg_bytes a c \<noteq> []" for a c by (subst reg_bytes.simps) simp
  show ?case
  proof (cases "inc_index cx = q_tail q")
    case True
    then have "length (q_items (q\<lparr>q_head := cx\<rparr>)) = 1023" using items_full [OF "1.prems"(1)] by simp
    then show ?thesis using True "1.prems"(2) st by (auto simp: l b)
  next
    case False
    then have f: "length (q_items (q\<lparr>q_head := cx\<rparr>)) < 1023"
        "q_items (?q\<lparr>q_head := inc_index cx\<rparr>) = q_items (q\<lparr>q_head := cx\<rparr>) @ [ucast eax]"
      and ok': "q_ok (?q\<lparr>q_head := inc_index cx\<rparr>)"
      using items_inc_head [OF ok] st "1.prems"(1) by (simp_all add: q_ok_def inc_index_less)
    show ?thesis
    proof (cases "?x = 0")
      case True
      then show ?thesis using False "1.prems"(2) f ok' by (auto simp: l b)
    next
      case nz: False
      then have r: "put_loop (inc_index cx) ?x (drop_bit 8 ebx) ?q = (q', h)" using False "1.prems"(2) by (simp add: l)
      note IH = "1.IH" [OF refl refl _ refl nz ok' r]
      have bk: "q_items (q'\<lparr>q_head := cx\<rparr>) = X" if "q_items (q'\<lparr>q_head := inc_index cx\<rparr>) = X @ [y]" for X y
        using items_inc_head(2) [of "q'\<lparr>q_head := cx\<rparr>"] that IH False "1.prems"(1) by (simp add: q_ok_def)
      show ?thesis using IH False nz f bk by (auto simp: b)
    qed
  qed
qed

text \<open>\<^verbatim>\<open>put_queue\<close> puts the bytes of its registers, lowest first and up to the last one that is not null, into the read queue of the
  console together or not at all: behind the characters that wait there when all of them fit, and otherwise the queue is as
  before. The process that waits for input becomes runnable when they were put.\<close>

theorem put_queue_all_or_nothing:
  fixes eax ebx :: u32 and s :: kernel
  assumes "q_ok (read_q (tty_table s 0))"
  defines "I \<equiv> q_items (read_q (tty_table s 0))" and "s' \<equiv> put_queue eax ebx s"
  shows "q_ok (read_q (tty_table s' 0)) \<and>
    (if length I + length (reg_bytes eax ebx) \<le> 1023
     then q_items (read_q (tty_table s' 0)) = I @ reg_bytes eax ebx \<and>
       (wq s (Read_list 0) \<noteq> 0 \<longrightarrow> t_state (tstruct s' (wq s (Read_list 0))) = 0)
     else q_items (read_q (tty_table s' 0)) = I \<and> tstruct s' = tstruct s)"
proof -
  let ?q = "read_q (tty_table s 0)"
  obtain q' h where p: "put_loop (q_head ?q) eax ebx ?q = (q', h)" by (cases "put_loop (q_head ?q) eax ebx ?q")
  have "q_ok (?q\<lparr>q_head := q_head ?q\<rparr>)" using assms by simp
  note l = put_loop_all_or_nothing [OF this p]
  have same: "q'\<lparr>q_head := q_head ?q\<rparr> = q'" "q_ok q'" using l assms(1) by (simp_all add: q_ok_def)
  show ?thesis
  proof (cases "length I + length (reg_bytes eax ebx) \<le> 1023")
    case True
    then obtain c where "h = Some c" "q_ok (q'\<lparr>q_head := c\<rparr>)" "q_items (q'\<lparr>q_head := c\<rparr>) = I @ reg_bytes eax ebx"
      using l by (auto simp: I_def)
    then show ?thesis using True by (auto simp: s'_def put_queue_def p Let_def upd_tty_def upd_task_def)
  next
    case False
    then have "h = None" "q_items q' = I" using l same by (simp_all add: I_def)
    then show ?thesis using False same by (simp add: s'_def put_queue_def p upd_tty_def)
  qed
qed

theorem put_queue_all_or_nothing_witness:
  "q_items (read_q (tty_table (put_queue 0x415b5b1b 0 (upd_tty 0 (\<lambda>t. t\<lparr>read_q := zero_queue\<lparr>q_head := 1022, q_tail := 1022\<rparr>\<rparr>) k0)) 0)) =
     [27, 91, 91, 65]"
proof -
  let ?s = "upd_tty 0 (\<lambda>t. t\<lparr>read_q := zero_queue\<lparr>q_head := 1022, q_tail := 1022\<rparr>\<rparr>) k0"
  have "q_ok (read_q (tty_table ?s 0))" "q_items (read_q (tty_table ?s 0)) = []"
    by (simp_all add: upd_tty_def q_ok_def q_items_def CHARS_def)
  moreover have "reg_bytes 0x415b5b1b 0 = [27, 91, 91, 65]" by code_simp
  ultimately show ?thesis using put_queue_all_or_nothing [of ?s "0x415b5b1b" 0] by simp
qed

subsection \<open>The modifier keys\<close>

text \<open>The specification: the set of the modifier keys that are held down, whether caps lock is on, and whether the last code was a
  prefix. A scan code presses (\<open>True\<close>) or releases a key; the right control and alt keys have the codes of the left ones behind a prefix.\<close>

datatype mkey = LShift | RShift | LCtrl | RCtrl | LAlt | RAlt | CapsKey

record keys =
  held :: "mkey set"
  caps_on :: bool
  prefixed :: bool

definition key_event :: "u8 \<Rightarrow> bool \<Rightarrow> (mkey \<times> bool) option" where
  "key_event sc p =
     (if sc = 0x2A then Some (LShift, True) else if sc = 0xAA then Some (LShift, False)
      else if sc = 0x36 then Some (RShift, True) else if sc = 0xB6 then Some (RShift, False)
      else if sc = 0x1D then Some (if p then RCtrl else LCtrl, True) else if sc = 0x9D then Some (if p then RCtrl else LCtrl, False)
      else if sc = 0x38 then Some (if p then RAlt else LAlt, True) else if sc = 0xB8 then Some (if p then RAlt else LAlt, False)
      else if sc = 0x3A then Some (CapsKey, True) else if sc = 0xBA then Some (CapsKey, False)
      else None)"

definition ctrl_alt :: "keys \<Rightarrow> bool" where
  "ctrl_alt \<sigma> \<longleftrightarrow> (LCtrl \<in> held \<sigma> \<or> RCtrl \<in> held \<sigma>) \<and> (LAlt \<in> held \<sigma> \<or> RAlt \<in> held \<sigma>)"

definition keys_step :: "u8 \<Rightarrow> keys \<Rightarrow> keys" where
  "keys_step sc \<sigma> =
     (if sc = 0xe0 \<or> sc = 0xe1 then \<sigma>\<lparr>prefixed := True\<rparr>
      else case key_event sc (prefixed \<sigma>) of
        None \<Rightarrow> \<sigma>\<lparr>prefixed := False\<rparr>
      | Some (key, down) \<Rightarrow>
          \<lparr>held = (if down then insert key (held \<sigma>) else held \<sigma> - {key}),
           caps_on = (if key = CapsKey \<and> down \<and> CapsKey \<notin> held \<sigma> then \<not> caps_on \<sigma> else caps_on \<sigma>), prefixed = False\<rparr>)"

text \<open>\<open>None\<close>: the delete key together with control and alt restarts the machine.\<close>

fun keys_after :: "keys \<Rightarrow> u8 list \<Rightarrow> keys option" where
  "keys_after \<sigma> [] = Some \<sigma>"
| "keys_after \<sigma> (sc # scs) = (if sc = 0x53 \<and> ctrl_alt \<sigma> then None else keys_after (keys_step sc \<sigma>) scs)"

definition keys_rel :: "keys \<Rightarrow> kbd \<Rightarrow> bool" where
  "keys_rel \<sigma> k \<longleftrightarrow>
     map (bit (kb_mode k)) [0..<8] =
       [LShift \<in> held \<sigma>, RShift \<in> held \<sigma>, LCtrl \<in> held \<sigma>, RCtrl \<in> held \<sigma>, LAlt \<in> held \<sigma>, RAlt \<in> held \<sigma>, caps_on \<sigma>, CapsKey \<in> held \<sigma>] \<and>
     bit (kb_leds k) 2 = caps_on \<sigma> \<and> (kb_e0 k \<noteq> 0 \<longleftrightarrow> prefixed \<sigma>)"

lemma keys_rel_bits:
  "keys_rel \<sigma> k \<longleftrightarrow>
     bit (kb_mode k) 0 = (LShift \<in> held \<sigma>) \<and> bit (kb_mode k) 1 = (RShift \<in> held \<sigma>) \<and> bit (kb_mode k) 2 = (LCtrl \<in> held \<sigma>) \<and>
     bit (kb_mode k) 3 = (RCtrl \<in> held \<sigma>) \<and> bit (kb_mode k) 4 = (LAlt \<in> held \<sigma>) \<and> bit (kb_mode k) 5 = (RAlt \<in> held \<sigma>) \<and>
     bit (kb_mode k) 6 = caps_on \<sigma> \<and> bit (kb_mode k) 7 = (CapsKey \<in> held \<sigma>) \<and>
     bit (kb_leds k) 2 = caps_on \<sigma> \<and> (prefixed \<sigma> \<longleftrightarrow> kb_e0 k \<noteq> 0)"
  by (auto simp: keys_rel_def upt_conv_Cons numeral_eq_Suc)

lemma u8_bits: "(w :: u8) \<noteq> 0 \<longleftrightarrow> bit w 0 \<or> bit w 1 \<or> bit w 2 \<or> bit w 3 \<or> bit w 4 \<or> bit w 5 \<or> bit w 6 \<or> bit w 7"
proof -
  have "(\<exists>k<8. P k) \<longleftrightarrow> P 0 \<or> P 1 \<or> P 2 \<or> P 3 \<or> P 4 \<or> P 5 \<or> P 6 \<or> P (7 :: nat)" for P
    by (auto simp: less_Suc_eq numeral_eq_Suc)
  then show ?thesis using word_neq_0_bit [of w] by simp
qed

lemma mode_masks:
  "kb_mode k AND 0x80 \<noteq> 0 \<longleftrightarrow> bit (kb_mode k) 7" "kb_mode k AND 0x0c \<noteq> 0 \<longleftrightarrow> bit (kb_mode k) 2 \<or> bit (kb_mode k) 3"
  "kb_mode k AND 0x30 \<noteq> 0 \<longleftrightarrow> bit (kb_mode k) 4 \<or> bit (kb_mode k) 5"
  by (simp_all add: u8_bits bit_simps)

lemma key_table_at:
  assumes "n < 256"
  shows "key_table ! n = Lshift \<longleftrightarrow> n = 0x2A" "key_table ! n = Unlshift \<longleftrightarrow> n = 0xAA" "key_table ! n = Rshift \<longleftrightarrow> n = 0x36"
    "key_table ! n = Unrshift \<longleftrightarrow> n = 0xB6" "key_table ! n = Ctrl \<longleftrightarrow> n = 0x1D" "key_table ! n = Unctrl \<longleftrightarrow> n = 0x9D"
    "key_table ! n = Alt \<longleftrightarrow> n = 0x38" "key_table ! n = Unalt \<longleftrightarrow> n = 0xB8" "key_table ! n = Caps \<longleftrightarrow> n = 0x3A"
    "key_table ! n = Uncaps \<longleftrightarrow> n = 0xBA" "key_table ! n \<in> {Do_self, Minus} \<Longrightarrow> n < 97" "n = 0x53 \<Longrightarrow> key_table ! n = Cursor"
proof -
  have "\<forall>n \<in> set [0..<256]. (key_table ! n = Lshift \<longleftrightarrow> n = 0x2A) \<and> (key_table ! n = Unlshift \<longleftrightarrow> n = 0xAA) \<and>
      (key_table ! n = Rshift \<longleftrightarrow> n = 0x36) \<and> (key_table ! n = Unrshift \<longleftrightarrow> n = 0xB6) \<and> (key_table ! n = Ctrl \<longleftrightarrow> n = 0x1D) \<and>
      (key_table ! n = Unctrl \<longleftrightarrow> n = 0x9D) \<and> (key_table ! n = Alt \<longleftrightarrow> n = 0x38) \<and> (key_table ! n = Unalt \<longleftrightarrow> n = 0xB8) \<and>
      (key_table ! n = Caps \<longleftrightarrow> n = 0x3A) \<and> (key_table ! n = Uncaps \<longleftrightarrow> n = 0xBA) \<and> (key_table ! n \<in> {Do_self, Minus} \<longrightarrow> n < 97) \<and>
      (n = 0x53 \<longrightarrow> key_table ! n = Cursor)"
    by code_simp
  moreover have "n \<in> set [0..<256]" using assms by simp
  ultimately show "key_table ! n = Lshift \<longleftrightarrow> n = 0x2A" "key_table ! n = Unlshift \<longleftrightarrow> n = 0xAA" "key_table ! n = Rshift \<longleftrightarrow> n = 0x36"
    "key_table ! n = Unrshift \<longleftrightarrow> n = 0xB6" "key_table ! n = Ctrl \<longleftrightarrow> n = 0x1D" "key_table ! n = Unctrl \<longleftrightarrow> n = 0x9D"
    "key_table ! n = Alt \<longleftrightarrow> n = 0x38" "key_table ! n = Unalt \<longleftrightarrow> n = 0xB8" "key_table ! n = Caps \<longleftrightarrow> n = 0x3A"
    "key_table ! n = Uncaps \<longleftrightarrow> n = 0xBA" "key_table ! n \<in> {Do_self, Minus} \<Longrightarrow> n < 97" "n = 0x53 \<Longrightarrow> key_table ! n = Cursor"
    by blast+
qed

definition kb_ready :: "kbd \<Rightarrow> bool" where
  "kb_ready k \<longleftrightarrow> (\<forall>i. rs_ins (kb_io k) 0x64 i AND 2 = 0)"

lemma kb_wait_ready:
  assumes "kb_ready k" "0 < fuel E"
  shows "\<exists>r. kb_wait E k s = Ret (k\<lparr>kb_io := r\<rparr>) s \<and> rs_ins r = rs_ins (kb_io k)"
  using assms by (intro exI [of _ "(kb_io k)\<lparr>rs_nins := Suc (rs_nins (kb_io k))\<rparr>"])
    (simp add: kb_wait_def kwhile_unfold kb_inb_def rs_inb_def kb_ready_def)

lemma set_leds_ready:
  assumes "kb_ready k" "0 < fuel E"
  shows "\<exists>r. set_leds E k s = Ret (k\<lparr>kb_io := r\<rparr>) s \<and> rs_ins r = rs_ins (kb_io k)"
proof -
  obtain r where r: "kb_wait E k s = Ret (k\<lparr>kb_io := r\<rparr>) s" "rs_ins r = rs_ins (kb_io k)" using kb_wait_ready [OF assms] by blast
  let ?k = "kb_outb [(0x60, 0xed)] (k\<lparr>kb_io := r\<rparr>)"
  have "kb_ready ?k" using assms(1) r(2) by (simp add: kb_ready_def kb_outb_def rs_outb_def)
  then obtain r' where "kb_wait E ?k s = Ret (?k\<lparr>kb_io := r'\<rparr>) s" "rs_ins r' = rs_ins (kb_io ?k)"
    using kb_wait_ready [OF _ assms(2), of ?k] by blast
  then show ?thesis using r by (intro exI [of _ "rs_outb [(0x60, kb_leds k)] r'"]) (simp add: set_leds_def kb_outb_def rs_outb_def)
qed

lemma caps_ready:
  assumes "kb_ready k" "0 < fuel E"
  shows "\<exists>r. caps E k s = Ret (if bit (kb_mode k) 7 then k
      else k\<lparr>kb_leds := kb_leds k XOR 4, kb_mode := (kb_mode k XOR 0x40) OR 0x80, kb_io := r\<rparr>) s \<and> rs_ins r = rs_ins (kb_io k)"
  using set_leds_ready [OF _ assms(2), of "k\<lparr>kb_leds := kb_leds k XOR 4, kb_mode := (kb_mode k XOR 0x40) OR 0x80\<rparr>" s] assms(1)
  by (auto simp: caps_def mode_masks kb_ready_def)

lemma key_table_mods [simp]:
  "key_table ! 0x2A = Lshift" "key_table ! 0xAA = Unlshift" "key_table ! 0x36 = Rshift" "key_table ! 0xB6 = Unrshift"
  "key_table ! 0x1D = Ctrl" "key_table ! 0x9D = Unctrl" "key_table ! 0x38 = Alt" "key_table ! 0xB8 = Unalt"
  "key_table ! 0x3A = Caps" "key_table ! 0xBA = Uncaps" "key_table ! 0x53 = Cursor"
  using key_table_at by simp_all

lemma scan_code_mod:
  assumes r: "keys_rel \<sigma> k" "kb_ready k" "0 < fuel E" and m: "key_event sc (prefixed \<sigma>) \<noteq> None"
  shows "\<exists>k'. scan_code E ecx sc k s = Ret k' s \<and> kb_ready k' \<and> keys_rel (keys_step sc \<sigma>) k'"
proof -
  note d = scan_code_def call_key_def keys_step_def key_event_def keys_rel_bits kb_ready_def bit_simps side_bit_def
  consider "sc = 0x2A" | "sc = 0xAA" | "sc = 0x36" | "sc = 0xB6" | "sc = 0x1D" | "sc = 0x9D" | "sc = 0x38" | "sc = 0xB8"
    | (c) "sc = 0x3A" | "sc = 0xBA"
    using m by (auto simp: key_event_def split: if_splits)
  then show ?thesis
  proof cases
    case c
    obtain x where "caps E k s = Ret (if bit (kb_mode k) 7 then k
      else k\<lparr>kb_leds := kb_leds k XOR 4, kb_mode := (kb_mode k XOR 0x40) OR 0x80, kb_io := x\<rparr>) s" "rs_ins x = rs_ins (kb_io k)"
      using caps_ready [OF r(2,3)] by blast
    then show ?thesis using r(1,2) c by (cases "bit (kb_mode k) 7") (simp_all add: d)
  qed (use r(1,2) in \<open>simp_all add: d\<close>)
qed

lemma scan_code_other:
  assumes r: "keys_rel \<sigma> k" "kb_ready k" "0 < fuel E" and n: "key_event sc (prefixed \<sigma>) = None" "\<not> (sc = 0x53 \<and> ctrl_alt \<sigma>)"
  shows "\<exists>k' s'. scan_code E ecx sc k s = Ret k' s' \<and> kb_ready k' \<and> keys_rel (keys_step sc \<sigma>) k'"
proof -
  have call: "\<exists>k' s'. call_key E ecx sc k s = Ret k' s' \<and> kb_mode k' = kb_mode k \<and> bit (kb_leds k') 2 = bit (kb_leds k) 2 \<and>
      rs_ins (kb_io k') = rs_ins (kb_io k)"
  proof -
    have u: "unat sc < 256" using unsigned_less [of sc] by simp
    have ev: "key_table ! unat sc \<notin> {Lshift, Unlshift, Rshift, Unrshift, Ctrl, Unctrl, Alt, Unalt, Caps, Uncaps}"
      using n(1) key_table_at(1-10) [OF u] unfolding key_event_def by (auto simp: word_unat_eq_iff split: if_splits)
    have led: "\<exists>k' s'. set_leds E (k\<lparr>kb_leds := l\<rparr>) s = Ret k' s' \<and> kb_mode k' = kb_mode k \<and> kb_leds k' = l \<and>
        rs_ins (kb_io k') = rs_ins (kb_io k)" for l
      using set_leds_ready [OF _ r(3), of "k\<lparr>kb_leds := l\<rparr>" s] r(2) by (auto simp: kb_ready_def)
    have self: "\<exists>s'. do_self sc k s = Ret k s'" if "unat sc < 97" using that by (simp add: do_self_def Let_def key_maps_length)
    have "\<exists>s'. cursor E sc k s = Ret k s'"
      using n(2) r(1) by (auto simp: cursor_def Let_def mode_masks keys_rel_bits ctrl_alt_def)
    then show ?thesis
      using ev key_table_at(11) [OF u] self led [of "kb_leds k XOR 1"] led [of "kb_leds k XOR 2"]
      by (cases "key_table ! unat sc") (auto simp: call_key_def minus_def bit_simps)
  qed
  show ?thesis
  proof (cases "sc = 0xe0 \<or> sc = 0xe1")
    case True
    then show ?thesis using r by (auto simp: scan_code_def keys_step_def keys_rel_bits kb_ready_def)
  next
    case False
    obtain k' s' where "call_key E ecx sc k s = Ret k' s'" "kb_mode k' = kb_mode k" "bit (kb_leds k') 2 = bit (kb_leds k) 2"
      "rs_ins (kb_io k') = rs_ins (kb_io k)" using call by blast
    then show ?thesis using False r n(1) by (simp add: scan_code_def keys_step_def keys_rel_bits kb_ready_def)
  qed
qed

lemma scan_code_reboot:
  assumes r: "keys_rel \<sigma> k" "kb_ready k" "0 < fuel E" "ctrl_alt \<sigma>"
  shows "scan_code E ecx 0x53 k s = Hang"
proof -
  obtain x where "kb_wait E k s = Ret (k\<lparr>kb_io := x\<rparr>) s" using kb_wait_ready [OF r(2,3)] by blast
  then show ?thesis
    using r(1,4) by (simp add: scan_code_def call_key_def cursor_def mode_masks keys_rel_bits ctrl_alt_def reboot_def)
qed

text \<open>C39: The keyboard driver knows which keys are held down. Whatever sequence of scan codes arrives, with anything happening in the
  kernel between two interrupts, every code is handled without leaving a table, and afterwards the bits of \<^verbatim>\<open>mode\<close> say exactly which of
  the two shift, control and alt keys and the caps lock key are held, and whether caps lock is on, which the lamp shows too;
  pressing delete together with control and alt restarts the machine.\<close>

theorem keyboard_modifiers:
  assumes "keys_rel \<sigma> k" "kb_ready k" "0 < fuel E"
  shows "case keys_after \<sigma> (map fst es) of
      None \<Rightarrow> kfor (\<lambda>(sc, ecx, f) k s. scan_code E ecx sc k (f s)) es k s = Hang
    | Some \<sigma>' \<Rightarrow> \<exists>k' s'. kfor (\<lambda>(sc, ecx, f) k s. scan_code E ecx sc k (f s)) es k s = Ret k' s' \<and> keys_rel \<sigma>' k'"
  using assms(1,2)
proof (induction es arbitrary: \<sigma> k s)
  case (Cons e es)
  obtain sc ecx f where e: "e = (sc, ecx, f)" by (cases e)
  show ?case
  proof (cases "sc = 0x53 \<and> ctrl_alt \<sigma>")
    case True
    then show ?thesis using scan_code_reboot [OF Cons.prems assms(3)] by (simp add: e)
  next
    case False
    then obtain k' s' where "scan_code E ecx sc k (f s) = Ret k' s'" "kb_ready k'" "keys_rel (keys_step sc \<sigma>) k'"
      using scan_code_mod [OF Cons.prems assms(3)] scan_code_other [OF Cons.prems assms(3)] by metis
    then show ?thesis using Cons.IH [of "keys_step sc \<sigma>" k' s'] False by (auto simp: e split: option.splits)
  qed
qed simp

theorem keyboard_modifiers_witness:
  "\<exists>k s. kfor (\<lambda>(sc, ecx, f) k s. scan_code (quiet_env 1) ecx sc k (f s))
      [(0x2A, 0, id), (0xe0, 0, id), (0x1D, 5, id), (0x3A, 0, id), (0x1E, 0, id), (0xBA, 0, id), (0xAA, 0, id)]
      \<lparr>kb_mode = 0, kb_leds = 2, kb_e0 = 0, kb_io = \<lparr>rs_outs = [], rs_ins = (\<lambda>_ _. 0), rs_nins = 0\<rparr>\<rparr> k0 = Ret k s \<and>
    keys_rel \<lparr>held = {RCtrl}, caps_on = True, prefixed = False\<rparr> k"
proof -
  let ?k = "\<lparr>kb_mode = 0, kb_leds = 2, kb_e0 = 0, kb_io = \<lparr>rs_outs = [], rs_ins = (\<lambda>_ _. 0), rs_nins = 0\<rparr>\<rparr> :: kbd"
  let ?es = "[(0x2A, 0, id), (0xe0, 0, id), (0x1D, 5, id), (0x3A, 0, id), (0x1E, 0, id), (0xBA, 0, id), (0xAA, 0, id)]
    :: (u8 \<times> u32 \<times> (kernel \<Rightarrow> kernel)) list"
  let ?z = "\<lparr>held = {}, caps_on = False, prefixed = False\<rparr> :: keys"
  have "keys_rel ?z ?k" "kb_ready ?k" by (simp_all add: keys_rel_bits kb_ready_def bit_simps)
  moreover have "keys_after ?z (map fst ?es) = Some \<lparr>held = {RCtrl}, caps_on = True, prefixed = False\<rparr>"
    by (auto simp: keys_step_def key_event_def ctrl_alt_def)
  ultimately show ?thesis using keyboard_modifiers [of ?z ?k "quiet_env 1" ?es k0] by (simp add: quiet_env_def)
qed

end
