(* ===== verification/SysCall.thy ===== *)
theory SysCall
  imports Exec Ioctl Hd
begin

text \<open>
  The entries into the kernel: kernel/system_call.s with the table of include/linux/sys.h, mm/page.s, kernel/math/math_emulate.c, and on
  the user's side the call numbers and stubs of include/unistd.h and lib/. An entry takes the saved registers and returns them with
  the changes that the task sees when it resumes; \<^verbatim>\<open>eax\<close>, the result, is separate. What the hard disk set-up and the serial
  speed change beside the kernel's state is the record \<open>sys_io\<close>.
\<close>

subsection \<open>The table of system calls\<close>

datatype sys_name =
    Sys_setup | Sys_exit | Sys_fork | Sys_read | Sys_write | Sys_open | Sys_close | Sys_waitpid | Sys_creat |
    Sys_link | Sys_unlink | Sys_execve | Sys_chdir | Sys_time | Sys_mknod | Sys_chmod | Sys_chown | Sys_break |
    Sys_stat | Sys_lseek | Sys_getpid | Sys_mount | Sys_umount | Sys_setuid | Sys_getuid | Sys_stime |
    Sys_ptrace | Sys_alarm | Sys_fstat | Sys_pause | Sys_utime | Sys_stty | Sys_gtty | Sys_access | Sys_nice |
    Sys_ftime | Sys_sync | Sys_kill | Sys_rename | Sys_mkdir | Sys_rmdir | Sys_dup | Sys_pipe | Sys_times |
    Sys_prof | Sys_brk | Sys_setgid | Sys_getgid | Sys_signal | Sys_geteuid | Sys_getegid | Sys_acct | Sys_phys |
    Sys_lock | Sys_ioctl | Sys_fcntl | Sys_mpx | Sys_setpgid | Sys_ulimit | Sys_uname | Sys_umask | Sys_chroot |
    Sys_ustat | Sys_dup2 | Sys_getppid | Sys_getpgrp | Sys_setsid | Sys_sigaction | Sys_sgetmask | Sys_ssetmask |
    Sys_setreuid | Sys_setregid

definition sys_call_table :: "sys_name list" where
  "sys_call_table =
     [Sys_setup, Sys_exit, Sys_fork, Sys_read, Sys_write, Sys_open, Sys_close, Sys_waitpid, Sys_creat, Sys_link,
      Sys_unlink, Sys_execve, Sys_chdir, Sys_time, Sys_mknod, Sys_chmod, Sys_chown, Sys_break, Sys_stat, Sys_lseek,
      Sys_getpid, Sys_mount, Sys_umount, Sys_setuid, Sys_getuid, Sys_stime, Sys_ptrace, Sys_alarm, Sys_fstat,
      Sys_pause, Sys_utime, Sys_stty, Sys_gtty, Sys_access, Sys_nice, Sys_ftime, Sys_sync, Sys_kill, Sys_rename,
      Sys_mkdir, Sys_rmdir, Sys_dup, Sys_pipe, Sys_times, Sys_prof, Sys_brk, Sys_setgid, Sys_getgid, Sys_signal,
      Sys_geteuid, Sys_getegid, Sys_acct, Sys_phys, Sys_lock, Sys_ioctl, Sys_fcntl, Sys_mpx, Sys_setpgid,
      Sys_ulimit, Sys_uname, Sys_umask, Sys_chroot, Sys_ustat, Sys_dup2, Sys_getppid, Sys_getpgrp, Sys_setsid,
      Sys_sigaction, Sys_sgetmask, Sys_ssetmask, Sys_setreuid, Sys_setregid]"

text \<open>\<^verbatim>\<open>__NR_name\<close> of include/unistd.h.\<close>

definition NR :: "sys_name \<Rightarrow> nat" where
  "NR n =
     (case n of
        Sys_setup \<Rightarrow> 0 | Sys_exit \<Rightarrow> 1 | Sys_fork \<Rightarrow> 2 | Sys_read \<Rightarrow> 3 | Sys_write \<Rightarrow> 4
      | Sys_open \<Rightarrow> 5 | Sys_close \<Rightarrow> 6 | Sys_waitpid \<Rightarrow> 7 | Sys_creat \<Rightarrow> 8 | Sys_link \<Rightarrow> 9
      | Sys_unlink \<Rightarrow> 10 | Sys_execve \<Rightarrow> 11 | Sys_chdir \<Rightarrow> 12 | Sys_time \<Rightarrow> 13 | Sys_mknod \<Rightarrow> 14
      | Sys_chmod \<Rightarrow> 15 | Sys_chown \<Rightarrow> 16 | Sys_break \<Rightarrow> 17 | Sys_stat \<Rightarrow> 18 | Sys_lseek \<Rightarrow> 19
      | Sys_getpid \<Rightarrow> 20 | Sys_mount \<Rightarrow> 21 | Sys_umount \<Rightarrow> 22 | Sys_setuid \<Rightarrow> 23 | Sys_getuid \<Rightarrow> 24
      | Sys_stime \<Rightarrow> 25 | Sys_ptrace \<Rightarrow> 26 | Sys_alarm \<Rightarrow> 27 | Sys_fstat \<Rightarrow> 28 | Sys_pause \<Rightarrow> 29
      | Sys_utime \<Rightarrow> 30 | Sys_stty \<Rightarrow> 31 | Sys_gtty \<Rightarrow> 32 | Sys_access \<Rightarrow> 33 | Sys_nice \<Rightarrow> 34
      | Sys_ftime \<Rightarrow> 35 | Sys_sync \<Rightarrow> 36 | Sys_kill \<Rightarrow> 37 | Sys_rename \<Rightarrow> 38 | Sys_mkdir \<Rightarrow> 39
      | Sys_rmdir \<Rightarrow> 40 | Sys_dup \<Rightarrow> 41 | Sys_pipe \<Rightarrow> 42 | Sys_times \<Rightarrow> 43 | Sys_prof \<Rightarrow> 44
      | Sys_brk \<Rightarrow> 45 | Sys_setgid \<Rightarrow> 46 | Sys_getgid \<Rightarrow> 47 | Sys_signal \<Rightarrow> 48 | Sys_geteuid \<Rightarrow> 49
      | Sys_getegid \<Rightarrow> 50 | Sys_acct \<Rightarrow> 51 | Sys_phys \<Rightarrow> 52 | Sys_lock \<Rightarrow> 53 | Sys_ioctl \<Rightarrow> 54
      | Sys_fcntl \<Rightarrow> 55 | Sys_mpx \<Rightarrow> 56 | Sys_setpgid \<Rightarrow> 57 | Sys_ulimit \<Rightarrow> 58 | Sys_uname \<Rightarrow> 59
      | Sys_umask \<Rightarrow> 60 | Sys_chroot \<Rightarrow> 61 | Sys_ustat \<Rightarrow> 62 | Sys_dup2 \<Rightarrow> 63 | Sys_getppid \<Rightarrow> 64
      | Sys_getpgrp \<Rightarrow> 65 | Sys_setsid \<Rightarrow> 66 | Sys_sigaction \<Rightarrow> 67 | Sys_sgetmask \<Rightarrow> 68
      | Sys_ssetmask \<Rightarrow> 69 | Sys_setreuid \<Rightarrow> 70 | Sys_setregid \<Rightarrow> 71)"

subsection \<open>Dispatch\<close>

record sys_io =
  io_hd :: hd_tables
  io_ports :: port_writes

record sys_env =
  se_exec :: exec_env
  se_cmos :: u8
  se_bios :: "u32 \<Rightarrow> nat \<Rightarrow> u8"

definition pure_call :: "int \<times> kernel \<Rightarrow> int kres" where
  "pure_call p = Ret (fst p) (snd p)"

definition word_call :: "u32 \<times> kernel \<Rightarrow> int kres" where
  "word_call p = Ret (sint (fst p)) (snd p)"

text \<open>The calls that get their three arguments from \<^verbatim>\<open>ebx\<close>, \<^verbatim>\<open>ecx\<close> and \<^verbatim>\<open>edx\<close> and change nothing beside the kernel's state; those
  that are not implemented return \<open>-ENOSYS\<close>.\<close>

definition plain_call :: "env \<Rightarrow> sys_name \<Rightarrow> u32 \<Rightarrow> u32 \<Rightarrow> u32 \<Rightarrow> kernel \<Rightarrow> int kres" where
  "plain_call E n b c d s =
     (case n of
        Sys_exit \<Rightarrow> sys_exit E (sint b) s
      | Sys_read \<Rightarrow> sys_read E b c (sint d) s
      | Sys_write \<Rightarrow> sys_write E b c (sint d) s
      | Sys_open \<Rightarrow> sys_open E b c (ucast d) s
      | Sys_close \<Rightarrow> sys_close E b s
      | Sys_waitpid \<Rightarrow> sys_waitpid E (sint b) c d s
      | Sys_creat \<Rightarrow> sys_creat E b (ucast c) s
      | Sys_link \<Rightarrow> sys_link E b c s
      | Sys_unlink \<Rightarrow> sys_unlink E b s
      | Sys_chdir \<Rightarrow> sys_chdir E b s
      | Sys_time \<Rightarrow> sys_time b s
      | Sys_mknod \<Rightarrow> sys_mknod E b (ucast c) (ucast d) s
      | Sys_chmod \<Rightarrow> sys_chmod E b (ucast c) s
      | Sys_chown \<Rightarrow> sys_chown E b (ucast c) (ucast d) s
      | Sys_stat \<Rightarrow> sys_stat E b c s
      | Sys_lseek \<Rightarrow> pure_call (sys_lseek b (sint c) (sint d) s)
      | Sys_getpid \<Rightarrow> Ret (sys_getpid s) s
      | Sys_mount \<Rightarrow> sys_mount E b c (sint d) s
      | Sys_umount \<Rightarrow> sys_umount E b s
      | Sys_setuid \<Rightarrow> pure_call (sys_setuid (sint b) s)
      | Sys_getuid \<Rightarrow> Ret (sys_getuid s) s
      | Sys_stime \<Rightarrow> pure_call (sys_stime b s)
      | Sys_alarm \<Rightarrow> pure_call (sys_alarm (sint b) s)
      | Sys_fstat \<Rightarrow> sys_fstat E b c s
      | Sys_pause \<Rightarrow> sys_pause E s
      | Sys_utime \<Rightarrow> sys_utime E b c s
      | Sys_access \<Rightarrow> sys_access E b (ucast c) s
      | Sys_nice \<Rightarrow> pure_call (sys_nice (sint b) s)
      | Sys_sync \<Rightarrow> sys_sync E s
      | Sys_kill \<Rightarrow> pure_call (sys_kill (sint b) (sint c) s)
      | Sys_mkdir \<Rightarrow> sys_mkdir E b (ucast c) s
      | Sys_rmdir \<Rightarrow> sys_rmdir E b s
      | Sys_dup \<Rightarrow> pure_call (sys_dup b s)
      | Sys_pipe \<Rightarrow> sys_pipe E b s
      | Sys_times \<Rightarrow> sys_times b s
      | Sys_brk \<Rightarrow> word_call (sys_brk b s)
      | Sys_setgid \<Rightarrow> pure_call (sys_setgid (sint b) s)
      | Sys_getgid \<Rightarrow> Ret (sys_getgid s) s
      | Sys_signal \<Rightarrow> pure_call (sys_signal (sint b) c d s)
      | Sys_geteuid \<Rightarrow> Ret (sys_geteuid s) s
      | Sys_getegid \<Rightarrow> Ret (sys_getegid s) s
      | Sys_fcntl \<Rightarrow> pure_call (sys_fcntl b c d s)
      | Sys_setpgid \<Rightarrow> pure_call (sys_setpgid (sint b) (sint c) s)
      | Sys_uname \<Rightarrow> sys_uname b s
      | Sys_umask \<Rightarrow> pure_call (sys_umask (ucast b) s)
      | Sys_chroot \<Rightarrow> sys_chroot E b s
      | Sys_dup2 \<Rightarrow> sys_dup2 E b c s
      | Sys_getppid \<Rightarrow> Ret (sys_getppid s) s
      | Sys_getpgrp \<Rightarrow> Ret (sys_getpgrp s) s
      | Sys_setsid \<Rightarrow> pure_call (sys_setsid s)
      | Sys_sigaction \<Rightarrow> sys_sigaction (sint b) c d s
      | Sys_sgetmask \<Rightarrow> Ret (sint (sys_sgetmask s)) s
      | Sys_ssetmask \<Rightarrow> word_call (sys_ssetmask b s)
      | Sys_setreuid \<Rightarrow> pure_call (sys_setreuid (sint b) (sint c) s)
      | Sys_setregid \<Rightarrow> pure_call (sys_setregid (sint b) (sint c) s)
      | _ \<Rightarrow> Ret (- ENOSYS) s)"

definition sys_fork :: "env \<Rightarrow> regs \<Rightarrow> kernel \<Rightarrow> int kres" where
  "sys_fork E r s = kbind (find_empty_process E s) (\<lambda>nr s. if nr < 0 then Ret nr s else copy_process (nat nr) r s)"

text \<open>\<^verbatim>\<open>do_execve\<close> gets the address of the saved \<^verbatim>\<open>eip\<close> and replaces it and the stack pointer when it succeeds.\<close>

definition sys_execve :: "env \<Rightarrow> exec_env \<Rightarrow> regs \<Rightarrow> kernel \<Rightarrow> (int \<times> regs) kres" where
  "sys_execve E X r s =
     kbind (do_execve E X (reg_cs r) (reg_ebx r) (reg_ecx r) (reg_edx r) s) (\<lambda>(v, q) s.
       Ret (v, case q of None \<Rightarrow> r | Some (eip, esp) \<Rightarrow> r\<lparr>reg_eip := eip, reg_esp := esp\<rparr>) s)"

definition do_call :: "env \<Rightarrow> sys_env \<Rightarrow> sys_name \<Rightarrow> regs \<Rightarrow> sys_io \<Rightarrow> kernel \<Rightarrow> (int \<times> regs \<times> sys_io) kres" where
  "do_call E X n r io s =
     (case n of
        Sys_setup \<Rightarrow>
          kbind (sys_setup E (se_cmos X) (se_bios X (reg_ebx r)) (io_hd io) s) (\<lambda>(v, h) s. Ret (v, r, io\<lparr>io_hd := h\<rparr>) s)
      | Sys_fork \<Rightarrow> kbind (sys_fork E r s) (\<lambda>v s. Ret (v, r, io) s)
      | Sys_execve \<Rightarrow> kbind (sys_execve E (se_exec X) r s) (\<lambda>(v, r) s. Ret (v, r, io) s)
      | Sys_ioctl \<Rightarrow>
          kbind (sys_ioctl E (reg_ebx r) (reg_ecx r) (reg_edx r) s) (\<lambda>(v, p) s. Ret (v, r, io\<lparr>io_ports := io_ports io @ p\<rparr>) s)
      | _ \<Rightarrow> kbind (plain_call E n (reg_ebx r) (reg_ecx r) (reg_edx r) s) (\<lambda>v s. Ret (v, r, io) s))"

subsection \<open>Return to the user\<close>

text \<open>\<^verbatim>\<open>ret_from_sys_call\<close>: a pending signal that is not blocked, the lowest one, is taken from the task's signals and handled.\<close>

definition ret_from_sys_call :: "int \<Rightarrow> regs \<Rightarrow> kernel \<Rightarrow> regs kres" where
  "ret_from_sys_call eax r s =
     (if current s = task s 0 \<or> reg_cs r AND 0xffff \<noteq> 0x0f \<or> reg_ss r AND 0xffff \<noteq> 0x17 then Ret r s
      else case bsfl (t_signal (cur s) AND NOT (t_blocked (cur s))) of
        None \<Rightarrow> Ret r s
      | Some k \<Rightarrow>
          kbind (do_signal (k + 1) (word_of_int eax) r (upd_cur (\<lambda>p. p\<lparr>t_signal := unset_bit k (t_signal p)\<rparr>) s)) (\<lambda>(eip, esp) s.
            Ret (r\<lparr>reg_eip := eip, reg_esp := esp\<rparr>) s))"

definition system_call :: "env \<Rightarrow> sys_env \<Rightarrow> u32 \<Rightarrow> regs \<Rightarrow> sys_io \<Rightarrow> kernel \<Rightarrow> (int \<times> regs \<times> sys_io) kres" where
  "system_call E X eax r io s =
     (if eax > 71 then Ret (-1, r, io) s
      else kbind (do_call E X (sys_call_table ! unat eax) r io s) (\<lambda>(v, r, io) s.
        kbind (if t_state (cur s) \<noteq> 0 \<or> t_counter (cur s) = 0 then schedule E s else Ret () s) (\<lambda>_ s.
        kbind (ret_from_sys_call v r s) (\<lambda>r s. Ret (v, r, io) s))))"

subsection \<open>Interrupts and exceptions\<close>

definition timer_interrupt :: "env \<Rightarrow> int \<Rightarrow> regs \<Rightarrow> kernel \<Rightarrow> regs kres" where
  "timer_interrupt E eax r s =
     (let s = s\<lparr>jiffies := wrap32 (jiffies s + 1)\<rparr> in
      kbind (do_timer E (uint (reg_cs r AND 3)) s) (\<lambda>_ s. ret_from_sys_call eax r s))"

definition math_error :: "kernel \<Rightarrow> kernel" where
  "math_error s =
     (if last_task_used_math s \<noteq> 0
      then upd_task (last_task_used_math s) (\<lambda>p. p\<lparr>t_signal := t_signal p OR sigbit 8\<rparr>) s else s)"

definition math_emulate :: "regs \<Rightarrow> kernel \<Rightarrow> regs kres" where
  "math_emulate r s =
     (if reg_cs r AND 0xffff \<noteq> 0x0f then Panic ''Math emulation needed in kernel'' s
      else Ret (r\<lparr>reg_eip := reg_eip r + 2\<rparr>) (upd_cur (\<lambda>p. p\<lparr>t_signal := t_signal p OR sigbit 8\<rparr>) s))"

definition coprocessor_error :: "int \<Rightarrow> regs \<Rightarrow> kernel \<Rightarrow> regs kres" where
  "coprocessor_error eax r s = ret_from_sys_call eax r (math_error s)"

text \<open>\<open>em\<close> is the emulation bit of \<^verbatim>\<open>cr0\<close>.\<close>

definition device_not_available :: "bool \<Rightarrow> int \<Rightarrow> regs \<Rightarrow> kernel \<Rightarrow> regs kres" where
  "device_not_available em eax r s =
     (if em then kbind (math_emulate r s) (\<lambda>r s. ret_from_sys_call eax r s)
      else ret_from_sys_call eax r (math_state_restore s))"

definition page_fault :: "env \<Rightarrow> u32 \<Rightarrow> u32 \<Rightarrow> kernel \<Rightarrow> unit kres" where
  "page_fault E error_code cr2 s =
     (if error_code AND 1 = 0 then do_no_page E error_code cr2 s else do_wp_page error_code cr2 s)"

subsection \<open>The user's side\<close>

text \<open>What the stubs make of the result of a call: it, or -1 with \<^verbatim>\<open>errno\<close> set.\<close>

definition syscall_result :: "int \<Rightarrow> int \<Rightarrow> int \<times> int" where
  "syscall_result res errno = (if res \<ge> 0 then (res, errno) else (-1, wrap32 (- res)))"

type_synonym user_call = "regs \<Rightarrow> int \<times> sys_io \<Rightarrow> kernel \<Rightarrow> (int \<times> regs \<times> int \<times> sys_io) kres"

text \<open>The stubs take the registers of the task and, as a pair, \<^verbatim>\<open>errno\<close> and what lies beside the kernel's state.\<close>

definition syscall3 :: "env \<Rightarrow> sys_env \<Rightarrow> sys_name \<Rightarrow> u32 \<Rightarrow> u32 \<Rightarrow> u32 \<Rightarrow> user_call" where
  "syscall3 E X n a b c r e s =
     kbind (system_call E X (of_nat (NR n)) (r\<lparr>reg_ebx := a, reg_ecx := b, reg_edx := c\<rparr>) (snd e) s) (\<lambda>(v, r, io) s.
       let (v, errno) = syscall_result v (fst e) in Ret (v, r, errno, io) s)"

definition syscall1 :: "env \<Rightarrow> sys_env \<Rightarrow> sys_name \<Rightarrow> u32 \<Rightarrow> user_call" where
  "syscall1 E X n a r = syscall3 E X n a (reg_ecx r) (reg_edx r) r"

definition syscall0 :: "env \<Rightarrow> sys_env \<Rightarrow> sys_name \<Rightarrow> user_call" where
  "syscall0 E X n r = syscall1 E X n (reg_ebx r) r"

definition lib_open :: "env \<Rightarrow> sys_env \<Rightarrow> u32 \<Rightarrow> u32 \<Rightarrow> u32 \<Rightarrow> user_call" where
  "lib_open E X filename flag mode = syscall3 E X Sys_open filename flag mode"

definition lib_write :: "env \<Rightarrow> sys_env \<Rightarrow> u32 \<Rightarrow> u32 \<Rightarrow> u32 \<Rightarrow> user_call" where
  "lib_write E X fd buf n = syscall3 E X Sys_write fd buf n"

definition lib_close :: "env \<Rightarrow> sys_env \<Rightarrow> u32 \<Rightarrow> user_call" where
  "lib_close E X fd = syscall1 E X Sys_close fd"

definition lib_dup :: "env \<Rightarrow> sys_env \<Rightarrow> u32 \<Rightarrow> user_call" where
  "lib_dup E X fd = syscall1 E X Sys_dup fd"

definition lib_execve :: "env \<Rightarrow> sys_env \<Rightarrow> u32 \<Rightarrow> u32 \<Rightarrow> u32 \<Rightarrow> user_call" where
  "lib_execve E X file argv envp = syscall3 E X Sys_execve file argv envp"

definition lib_setsid :: "env \<Rightarrow> sys_env \<Rightarrow> user_call" where
  "lib_setsid E X = syscall0 E X Sys_setsid"

definition lib_waitpid :: "env \<Rightarrow> sys_env \<Rightarrow> u32 \<Rightarrow> u32 \<Rightarrow> u32 \<Rightarrow> user_call" where
  "lib_waitpid E X pid wait_stat options = syscall3 E X Sys_waitpid pid wait_stat options"

definition lib_wait :: "env \<Rightarrow> sys_env \<Rightarrow> u32 \<Rightarrow> user_call" where
  "lib_wait E X wait_stat = lib_waitpid E X (-1) wait_stat 0"

definition lib_exit :: "env \<Rightarrow> sys_env \<Rightarrow> u32 \<Rightarrow> regs \<Rightarrow> sys_io \<Rightarrow> kernel \<Rightarrow> (int \<times> regs \<times> sys_io) kres" where
  "lib_exit E X exit_code r io s = system_call E X (of_nat (NR Sys_exit)) (r\<lparr>reg_ebx := exit_code\<rparr>) io s"

subsection \<open>Numbers and table agree\<close>

lemma syscall_numbers: "NR n < length sys_call_table \<and> sys_call_table ! NR n = n"
  by (cases n) (simp_all add: NR_def sys_call_table_def)

text \<open>The stub of a library call reaches the routine of the same name.\<close>

lemma system_call_NR:
  "system_call E X (of_nat (NR n)) r io s =
     kbind (do_call E X n r io s) (\<lambda>(v, r, io) s.
       kbind (if t_state (cur s) \<noteq> 0 \<or> t_counter (cur s) = 0 then schedule E s else Ret () s) (\<lambda>_ s.
       kbind (ret_from_sys_call v r s) (\<lambda>r s. Ret (v, r, io) s)))"
proof -
  have "NR n < 72" using syscall_numbers [of n] by (simp add: sys_call_table_def)
  then have "unat (of_nat (NR n) :: u32) = NR n" "\<not> (of_nat (NR n) :: u32) > 71"
    by (simp_all add: unat_of_nat32 word_less_nat_alt)
  then show ?thesis using syscall_numbers [of n] by (simp add: system_call_def)
qed

subsection \<open>Signals\<close>

lemma bsfl_Some_iff: "bsfl w = Some k \<longleftrightarrow> k < 32 \<and> bit w k \<and> (\<forall>j<k. \<not> bit w j)"
  by (auto simp: bsfl_def find_up_Some_iff)

lemma do_signal_handler:
  fixes s :: kernel and signr :: nat
  defines "sa \<equiv> t_sigaction (cur s) (signr - 1)"
  defines "sa' \<equiv> (if sa_flags sa AND SA_ONESHOT \<noteq> 0 then sa\<lparr>sa_handler := 0\<rparr> else sa)"
    and "longs \<equiv> (if sa_flags sa AND SA_NOMASK \<noteq> 0 then 7 else 8 :: u32)"
  assumes h: "sa_handler sa \<noteq> 0" "sa_handler sa \<noteq> 1"
    and v: "verify_area (reg_esp r - 4 * longs) (uint longs * 4) (set_sigaction (signr - 1) sa' s) = Ret () u"
  shows "\<exists>t. do_signal signr eax r s = Ret (sa_handler sa, reg_esp r - 4 * longs) t \<and>
    cur t = (cur s)\<lparr>t_sigaction := (t_sigaction (cur s))(signr - 1 := sa'), t_blocked := t_blocked (cur s) OR sa_mask sa\<rparr>"
proof -
  let ?s = "set_sigaction (signr - 1) sa' s" let ?e = "reg_esp r - 4 * longs"
  have same: "sa_flags sa' = sa_flags sa" "sa_mask sa' = sa_mask sa" by (simp_all add: sa'_def)
  have d: "do_signal signr eax r s = kbind (verify_area ?e (uint longs * 4) ?s) (\<lambda>_ s.
      let s = push_longs ?e (signal_frame sa' signr (t_blocked (cur s)) eax r) s in
      Ret (sa_handler sa, ?e) (upd_cur (\<lambda>p. p\<lparr>t_blocked := t_blocked p OR sa_mask sa'\<rparr>) s))"
    unfolding do_signal_def Let_def sa_def [symmetric] if_not_P [OF h(1)] if_not_P [OF h(2)]
      sa'_def [symmetric] same longs_def [symmetric] by (rule refl)
  have "mm_only ?s u" using mm_only_verify_area [of ?s ?e "uint longs * 4"] v by simp
  then have "cur u = (cur s)\<lparr>t_sigaction := (t_sigaction (cur s))(signr - 1 := sa')\<rparr>"
    using mm_only_sel(9) by (simp add: set_sigaction_def cur_def)
  then show ?thesis unfolding d v kbind.simps Let_def same by (simp add: cur_def push_longs_other)
qed

text \<open>C38: On the way back to user mode a task gets its signals. Of the pending signals that it does not block the lowest one is taken
  from the pending ones, and all others stay pending: an ignored one, or SIGCHLD without a handler, has no other effect; another one
  without a handler ends the task with the signal's bit as its exit code; and for one with a handler the task resumes in the
  handler, as soon as the stack it needs is writable, with the handler's mask blocked and all other registers as they were.\<close>

theorem signal_delivery:
  fixes s :: kernel and k :: nat
  assumes user: "current s \<noteq> task s 0" "reg_cs r AND 0xffff = 0x0f" "reg_ss r AND 0xffff = 0x17"
    and k: "k < 32" "bit (t_signal (cur s)) k" "\<not> bit (t_blocked (cur s)) k"
      "\<forall>j<k. bit (t_signal (cur s)) j \<longrightarrow> bit (t_blocked (cur s)) j"
  defines "sa \<equiv> t_sigaction (cur s) k" and "s1 \<equiv> upd_cur (\<lambda>p. p\<lparr>t_signal := unset_bit k (t_signal p)\<rparr>) s"
  defines "sa' \<equiv> (if sa_flags sa AND SA_ONESHOT \<noteq> 0 then sa\<lparr>sa_handler := 0\<rparr> else sa)"
    and "longs \<equiv> (if sa_flags sa AND SA_NOMASK \<noteq> 0 then 7 else 8 :: u32)"
  shows "(sa_handler sa = 1 \<or> sa_handler sa = 0 \<and> k + 1 = SIGCHLD \<longrightarrow> ret_from_sys_call eax r s = Ret r s1) \<and>
    (sa_handler sa = 0 \<and> k + 1 \<noteq> SIGCHLD \<longrightarrow> ret_from_sys_call eax r s = Exit (wrap32 (2 ^ k)) s1) \<and>
    (sa_handler sa \<noteq> 0 \<and> sa_handler sa \<noteq> 1 \<and>
     (\<exists>u. verify_area (reg_esp r - 4 * longs) (uint longs * 4) (set_sigaction k sa' s1) = Ret () u) \<longrightarrow>
     (\<exists>t. ret_from_sys_call eax r s = Ret (r\<lparr>reg_eip := sa_handler sa, reg_esp := reg_esp r - 4 * longs\<rparr>) t \<and>
       (\<forall>j<32. bit (t_signal (cur t)) j \<longleftrightarrow> bit (t_signal (cur s)) j \<and> j \<noteq> k) \<and>
       t_blocked (cur t) = t_blocked (cur s) OR sa_mask sa))"
proof -
  have b: "bsfl (t_signal (cur s) AND NOT (t_blocked (cur s))) = Some k" using k by (auto simp: bsfl_Some_iff bit_simps)
  have r: "ret_from_sys_call eax r s = kbind (do_signal (k + 1) (word_of_int eax) r s1) (\<lambda>(eip, esp) s.
      Ret (r\<lparr>reg_eip := eip, reg_esp := esp\<rparr>) s)"
    using user by (simp add: ret_from_sys_call_def b s1_def)
  have c: "cur s1 = (cur s)\<lparr>t_signal := unset_bit k (t_signal (cur s))\<rparr>" by (simp add: s1_def cur_def)
  then have sa: "t_sigaction (cur s1) (k + 1 - 1) = sa" by (simp add: sa_def)
  have "\<exists>t. ret_from_sys_call eax r s = Ret (r\<lparr>reg_eip := sa_handler sa, reg_esp := reg_esp r - 4 * longs\<rparr>) t \<and>
       (\<forall>j<32. bit (t_signal (cur t)) j \<longleftrightarrow> bit (t_signal (cur s)) j \<and> j \<noteq> k) \<and> t_blocked (cur t) = t_blocked (cur s) OR sa_mask sa"
    if h: "sa_handler sa \<noteq> 0" "sa_handler sa \<noteq> 1" and u: "verify_area (reg_esp r - 4 * longs) (uint longs * 4) (set_sigaction k sa' s1) = Ret () u" for u
  proof -
    obtain t where "do_signal (k + 1) (word_of_int eax) r s1 = Ret (sa_handler sa, reg_esp r - 4 * longs) t"
        "cur t = (cur s1)\<lparr>t_sigaction := (t_sigaction (cur s1))(k := sa'), t_blocked := t_blocked (cur s1) OR sa_mask sa\<rparr>"
      using do_signal_handler [of s1 "k + 1" r u "word_of_int eax"] h u unfolding sa sa'_def longs_def by auto
    then show ?thesis using r c k(1) by (auto simp: bit_unset_bit_iff)
  qed
  moreover have "ret_from_sys_call eax r s = Ret r s1" if "sa_handler sa = 1 \<or> sa_handler sa = 0 \<and> k + 1 = SIGCHLD"
    using that sa by (auto simp: r do_signal_def Let_def)
  moreover have "ret_from_sys_call eax r s = Exit (wrap32 (2 ^ k)) s1" if "sa_handler sa = 0" "k + 1 \<noteq> SIGCHLD"
    using that sa by (auto simp: r do_signal_def Let_def)
  ultimately show ?thesis by blast
qed

theorem signal_delivery_witness:
  "\<exists>t. ret_from_sys_call 9 some_regs (one_handler\<lparr>current := 1,
      tstruct := (\<lambda>_. (tstruct one_handler 0)\<lparr>t_signal := 6, t_blocked := 2\<rparr>)\<rparr>) = Ret (some_regs\<lparr>reg_eip := 0x500, reg_esp := 0xfe0\<rparr>) t \<and>
    bit (t_signal (cur t)) 1 \<and> \<not> bit (t_signal (cur t)) 2"
proof -
  let ?s = "one_handler\<lparr>current := 1, tstruct := (\<lambda>_. (tstruct one_handler 0)\<lparr>t_signal := 6, t_blocked := 2\<rparr>)\<rparr>"
  let ?sa = "\<lparr>sa_handler = 0x500, sa_mask = 2, sa_flags = 0x80000000, sa_restorer = 0x600\<rparr> :: sigaction"
  let ?s1 = "upd_cur (\<lambda>p. p\<lparr>t_signal := unset_bit 2 (t_signal p)\<rparr>) ?s"
  have v: "verify_area 0xfe0 32 s = Ret () s" if "phys s = (\<lambda>_. 0)" for s
    using that by (simp add: verify_area_def wrap32_def write_verify_def Let_def)
  have p: "phys (set_sigaction k a ?s1) = (\<lambda>_. 0)" for k a
    by (simp add: set_sigaction_def one_handler_def k0_def upd_cur_def upd_task_def)
  have c: "t_sigaction (cur ?s) 2 = ?sa" "t_signal (cur ?s) = 6" "t_blocked (cur ?s) = 2"
    by (simp_all add: one_handler_def cur_def)
  have user: "current ?s \<noteq> task ?s 0" "reg_cs some_regs AND 0xffff = 0x0f" "reg_ss some_regs AND 0xffff = 0x17"
    by (simp_all add: one_handler_def k0_def some_regs_def)
  have k: "(2 :: nat) < 32" "bit (t_signal (cur ?s)) 2" "\<not> bit (t_blocked (cur ?s)) 2"
      "\<forall>j<2. bit (t_signal (cur ?s)) j \<longrightarrow> bit (t_blocked (cur ?s)) j"
    unfolding c by (auto simp: bit_simps less_2_cases_iff)
  show ?thesis
    using signal_delivery [OF user k, of 9] unfolding c by (auto simp: some_regs_def v p c(2))
qed

end
