(* ===== verification/Ctype.thy ===== *)
theory Ctype
  imports Tty
begin

text \<open>
  The character classes: the table of lib/ctype.c and the macros of include/ctype.h. A macro looks up \<^verbatim>\<open>(_ctype+1)[c]\<close>; the result is
  \<open>None\<close> when the index lies outside the table, as it does for the negative characters below -1.
\<close>

definition ctype_table :: "u8 list" where
  "ctype_table =
     (let U = 0x01; L = 0x02; D = 0x04; C = 0x08; P = 0x10; S = 0x20; X = 0x40; SP = 0x80 in
      [0] @ replicate 8 C @ [C] @ replicate 5 (C OR S) @ [C, C] @ replicate 8 C @ replicate 8 C @
      [S OR SP] @ replicate 7 P @ replicate 8 P @ replicate 8 D @ [D, D] @ replicate 6 P @
      [P] @ replicate 6 (U OR X) @ [U] @ replicate 8 U @ replicate 8 U @ replicate 3 U @ replicate 5 P @
      [P] @ replicate 6 (L OR X) @ [L] @ replicate 8 L @ replicate 8 L @ replicate 3 L @ replicate 4 P @ [C] @
      replicate 128 0)"

definition ctype_is :: "u8 \<Rightarrow> int \<Rightarrow> bool option" where
  "ctype_is m c = (if c < -1 \<or> c > 255 then None else Some (ctype_table ! nat (c + 1) AND m \<noteq> 0))"

definition isalnum :: "int \<Rightarrow> bool option" where "isalnum = ctype_is 0x07"
definition isalpha :: "int \<Rightarrow> bool option" where "isalpha = ctype_is 0x03"
definition iscntrl :: "int \<Rightarrow> bool option" where "iscntrl = ctype_is 0x08"
definition isdigit :: "int \<Rightarrow> bool option" where "isdigit = ctype_is 0x04"
definition isgraph :: "int \<Rightarrow> bool option" where "isgraph = ctype_is 0x17"
definition islower :: "int \<Rightarrow> bool option" where "islower = ctype_is 0x02"
definition isprint :: "int \<Rightarrow> bool option" where "isprint = ctype_is 0x97"
definition ispunct :: "int \<Rightarrow> bool option" where "ispunct = ctype_is 0x10"
definition isspace :: "int \<Rightarrow> bool option" where "isspace = ctype_is 0x20"
definition isupper :: "int \<Rightarrow> bool option" where "isupper = ctype_is 0x01"
definition isxdigit :: "int \<Rightarrow> bool option" where "isxdigit = ctype_is 0x44"

definition tolower :: "int \<Rightarrow> int option" where
  "tolower c = map_option (\<lambda>b. if b then c - (65 - 97) else c) (isupper c)"

definition toupper :: "int \<Rightarrow> int option" where
  "toupper c = map_option (\<lambda>b. if b then c - (97 - 65) else c) (islower c)"

text \<open>The bits of the table are the classes of ASCII, and a character above 127 is in no class.\<close>

lemma ctype_table_classes:
  "\<forall>c \<in> set [0..<256].
     (ctype_table ! Suc c AND 0x01 \<noteq> 0 \<longleftrightarrow> 65 \<le> c \<and> c \<le> 90) \<and> (ctype_table ! Suc c AND 0x02 \<noteq> 0 \<longleftrightarrow> 97 \<le> c \<and> c \<le> 122) \<and>
     (ctype_table ! Suc c AND 0x04 \<noteq> 0 \<longleftrightarrow> 48 \<le> c \<and> c \<le> 57) \<and> (ctype_table ! Suc c AND 0x08 \<noteq> 0 \<longleftrightarrow> c < 32 \<or> c = 127) \<and>
     (ctype_table ! Suc c AND 0x20 \<noteq> 0 \<longleftrightarrow> c = 32 \<or> 9 \<le> c \<and> c \<le> 13) \<and>
     (ctype_table ! Suc c AND 0x44 \<noteq> 0 \<longleftrightarrow> 48 \<le> c \<and> c \<le> 57 \<or> 65 \<le> c \<and> c \<le> 70 \<or> 97 \<le> c \<and> c \<le> 102) \<and>
     (ctype_table ! Suc c AND 0x97 \<noteq> 0 \<longleftrightarrow> 32 \<le> c \<and> c \<le> 126) \<and> (ctype_table ! Suc c AND 0x17 \<noteq> 0 \<longleftrightarrow> 33 \<le> c \<and> c \<le> 126)"
  by code_simp

lemma ctype_table_0: "ctype_table ! 0 = 0"
  by (simp add: ctype_table_def)

lemma ctype_is_nat: "ctype_is m (int c) = (if c < 256 then Some (ctype_table ! Suc c AND m \<noteq> 0) else None)"
  by (simp add: ctype_is_def nat_add_distrib)

lemma isupper_iff: "- 1 \<le> c \<Longrightarrow> c < 256 \<Longrightarrow> isupper c = Some (65 \<le> c \<and> c \<le> 90)"
proof (cases "c = -1")
  case False
  assume "- 1 \<le> c" "c < 256"
  then obtain n where "c = int n" "n \<in> set [0..<256]" using False by (auto intro: that [of "nat c"])
  then show ?thesis using bspec [OF ctype_table_classes, of n] by (auto simp: isupper_def ctype_is_nat)
qed (simp add: isupper_def ctype_is_def ctype_table_0)

lemma islower_iff: "- 1 \<le> c \<Longrightarrow> c < 256 \<Longrightarrow> islower c = Some (97 \<le> c \<and> c \<le> 122)"
proof (cases "c = -1")
  case False
  assume "- 1 \<le> c" "c < 256"
  then obtain n where "c = int n" "n \<in> set [0..<256]" using False by (auto intro: that [of "nat c"])
  then show ?thesis using bspec [OF ctype_table_classes, of n] by (auto simp: islower_def ctype_is_nat)
qed (simp add: islower_def ctype_is_def ctype_table_0)

text \<open>The case conversions that the terminal driver uses are those of the table.\<close>

lemma terminal_case_conversion:
  assumes "c < 128"
  shows "tolower_c c s = (case tolower c of None \<Rightarrow> Fault | Some d \<Rightarrow> Ret d s)"
    "toupper_c c s = (case toupper c of None \<Rightarrow> Fault | Some d \<Rightarrow> Ret d s)"
  using assms isupper_iff [of c] islower_iff [of c]
  by (cases "c < -1"; simp add: tolower_def toupper_def tolower_c_def toupper_c_def isupper_def islower_def ctype_is_def)+

end
