(* ===== verification/Build.thy ===== *)
theory Build
  imports Prelude
begin

text \<open>
  tools/build.c, the host tool that puts the disk image together from the boot sector, the setup code and the system. The host is
  a parameter: the contents of the files it can open, the device numbers that \<^verbatim>\<open>stat\<close> reports, and how many bytes can be written to
  the standard output. A \<^verbatim>\<open>long\<close> of the host has four bytes, lowest first. Each \<^verbatim>\<open>die\<close> is an error value; what was written before
  it stays written.
\<close>

subsection \<open>The host\<close>

datatype part = Boot_part | Setup_part | System_part

datatype build_error =
    Usage | Couldnt_stat | Bad_root_device | Unable_to_open part | Unable_to_read_header part | Non_Minix_header part
  | Illegal_data_segment part | Illegal_bss part | Illegal_symbol_table part | Not_512_bytes | No_boot_flag | Write_failed
  | Setup_too_big | Non_GCC_header | System_too_big

record host =
  h_file :: "string \<Rightarrow> u8 list option"
  h_rdev :: "string \<Rightarrow> u16 option"
  h_room :: nat

text \<open>A step has the bytes written so far, and returns an error or a result with the bytes written then.\<close>

type_synonym 'a build = "u8 list \<Rightarrow> (build_error + 'a) \<times> u8 list"

definition bbind :: "'a build \<Rightarrow> ('a \<Rightarrow> 'b build) \<Rightarrow> 'b build" where
  "bbind m f out = (case m out of (Inl e, out) \<Rightarrow> (Inl e, out) | (Inr a, out) \<Rightarrow> f a out)"

definition die_if :: "bool \<Rightarrow> build_error \<Rightarrow> unit build" where
  "die_if c e out = (if c then Inl e else Inr (), out)"

text \<open>\<^verbatim>\<open>read(id,buf,n)\<close>: how many bytes, the buffer, and what is left of the file.\<close>

definition read_buf :: "nat \<Rightarrow> u8 list \<Rightarrow> u8 list \<Rightarrow> nat \<times> u8 list \<times> u8 list" where
  "read_buf n rest buf = (let c = min n (length rest) in (c, take c rest @ drop c buf, drop c rest))"

definition write_out :: "host \<Rightarrow> u8 list \<Rightarrow> unit build" where
  "write_out h bs out = (if length out + length bs \<le> h_room h then (Inr (), out @ bs) else (Inl Write_failed, out))"

definition open_file :: "host \<Rightarrow> string \<Rightarrow> part \<Rightarrow> u8 list build" where
  "open_file h name p out = (case h_file h name of None \<Rightarrow> (Inl (Unable_to_open p), out) | Some bs \<Rightarrow> (Inr bs, out))"

definition long_at :: "nat \<Rightarrow> u8 list \<Rightarrow> u32" where
  "long_at i buf =
     ucast (buf ! (4 * i)) OR push_bit 8 (ucast (buf ! (4 * i + 1))) OR push_bit 16 (ucast (buf ! (4 * i + 2))) OR
     push_bit 24 (ucast (buf ! (4 * i + 3)))"

subsection \<open>The steps of main\<close>

definition root_device :: "host \<Rightarrow> string list \<Rightarrow> (u8 \<times> u8) build" where
  "root_device h argv out =
     (if length argv = 5 then
        if argv ! 4 \<noteq> ''FLOPPY'' then
          case h_rdev h (argv ! 4) of None \<Rightarrow> (Inl Couldnt_stat, out) | Some d \<Rightarrow> (Inr (ucast (drop_bit 8 d), ucast d), out)
        else (Inr (0, 0), out)
      else (Inr (3, 6), out))"

text \<open>The checks of the header of the boot sector and of the setup code, the same for both.\<close>

definition minix_header :: "part \<Rightarrow> u8 list \<Rightarrow> u8 list \<Rightarrow> (u8 list \<times> u8 list) build" where
  "minix_header p rest buf =
     (let (c, buf, rest) = read_buf 32 rest buf in
      bbind (die_if (c \<noteq> 32) (Unable_to_read_header p)) (\<lambda>_.
      bbind (die_if (long_at 0 buf \<noteq> 0x04100301) (Non_Minix_header p)) (\<lambda>_.
      bbind (die_if (long_at 1 buf \<noteq> 32) (Non_Minix_header p)) (\<lambda>_.
      bbind (die_if (long_at 3 buf \<noteq> 0) (Illegal_data_segment p)) (\<lambda>_.
      bbind (die_if (long_at 4 buf \<noteq> 0) (Illegal_bss p)) (\<lambda>_.
      bbind (die_if (long_at 5 buf \<noteq> 0) (Non_Minix_header p)) (\<lambda>_.
      bbind (die_if (long_at 7 buf \<noteq> 0) (Illegal_symbol_table p)) (\<lambda>_ out.
        (Inr (buf, rest), out)))))))))"

definition put_boot :: "host \<Rightarrow> u8 \<Rightarrow> u8 \<Rightarrow> u8 list \<Rightarrow> u8 list \<Rightarrow> u8 list build" where
  "put_boot h major minor rest buf =
     (let (i, buf, rest) = read_buf 1024 rest buf in
      bbind (die_if (i \<noteq> 512) Not_512_bytes) (\<lambda>_.
      bbind (die_if (buf ! 510 \<noteq> 0x55 \<or> buf ! 511 \<noteq> 0xAA) No_boot_flag) (\<lambda>_.
        let buf = buf[508 := minor, 509 := major] in
        bbind (write_out h (take 512 buf)) (\<lambda>_ out. (Inr buf, out)))))"

text \<open>The copying loop: the number of bytes copied and the buffer.\<close>

function copy_file :: "host \<Rightarrow> u8 list \<Rightarrow> nat \<Rightarrow> u8 list \<Rightarrow> (nat \<times> u8 list) build" where
  "copy_file h rest i buf out =
     (let c = min 1024 (length rest);
          buf = take c rest @ drop c buf in
      if c = 0 then (Inr (i, buf), out)
      else case write_out h (take c buf) out of
        (Inl e, out) \<Rightarrow> (Inl e, out)
      | (Inr _, out) \<Rightarrow> copy_file h (drop c rest) (i + c) buf out)"
  by pat_completeness auto
termination
  by (relation "measure (\<lambda>(h, rest, i, buf, out). length rest)") auto

declare copy_file.simps [simp del]

function pad_setup :: "host \<Rightarrow> u8 list \<Rightarrow> nat \<Rightarrow> unit build" where
  "pad_setup h buf i out =
     (if i < 2048 then
        let c = min 1024 (2048 - i) in
        case write_out h (take c buf) out of (Inl e, out) \<Rightarrow> (Inl e, out) | (Inr _, out) \<Rightarrow> pad_setup h buf (i + c) out
      else (Inr (), out))"
  by pat_completeness auto
termination
  by (relation "measure (\<lambda>(h, buf, i, out). 2048 - i)") auto

declare pad_setup.simps [simp del]

definition put_setup :: "host \<Rightarrow> u8 list \<Rightarrow> u8 list \<Rightarrow> u8 list build" where
  "put_setup h rest buf =
     bbind (copy_file h rest 0 buf) (\<lambda>(i, buf).
     bbind (die_if (i > 2048) Setup_too_big) (\<lambda>_.
     bbind (pad_setup h (replicate 1024 0) i) (\<lambda>_ out. (Inr (replicate 1024 0), out))))"

definition put_system :: "host \<Rightarrow> u8 list \<Rightarrow> u8 list \<Rightarrow> unit build" where
  "put_system h rest buf =
     (let (c, buf, rest) = read_buf 1024 rest buf in
      bbind (die_if (c \<noteq> 1024) (Unable_to_read_header System_part)) (\<lambda>_.
      bbind (die_if (long_at 5 buf \<noteq> 0) Non_GCC_header) (\<lambda>_.
      bbind (copy_file h rest 0 buf) (\<lambda>(i, buf). die_if (i > 0x2000 * 16) System_too_big))))"

definition build_main :: "host \<Rightarrow> string list \<Rightarrow> unit build" where
  "build_main h argv =
     bbind (die_if (length argv \<noteq> 4 \<and> length argv \<noteq> 5) Usage) (\<lambda>_.
     bbind (root_device h argv) (\<lambda>(major, minor).
     bbind (die_if (major \<noteq> 2 \<and> major \<noteq> 3 \<and> major \<noteq> 0) Bad_root_device) (\<lambda>_.
     bbind (open_file h (argv ! 1) Boot_part) (\<lambda>rest.
     bbind (minix_header Boot_part rest (replicate 1024 0)) (\<lambda>(buf, rest).
     bbind (put_boot h major minor rest buf) (\<lambda>buf.
     bbind (open_file h (argv ! 2) Setup_part) (\<lambda>rest.
     bbind (minix_header Setup_part rest buf) (\<lambda>(buf, rest).
     bbind (put_setup h rest buf) (\<lambda>buf.
     bbind (open_file h (argv ! 3) System_part) (\<lambda>rest.
       put_system h rest buf))))))))))"

subsection \<open>The image\<close>

lemma bbind_Inr: "bbind m f out = (Inr a, out') \<longleftrightarrow> (\<exists>b out1. m out = (Inr b, out1) \<and> f b out1 = (Inr a, out'))"
  by (auto simp: bbind_def split: sum.splits prod.splits)

lemma die_if_Inr [simp]: "die_if c e out = (Inr u, out') \<longleftrightarrow> \<not> c \<and> out' = out"
  by (auto simp: die_if_def)

lemma write_out_Inr [simp]: "write_out h bs out = (Inr u, out') \<longleftrightarrow> length out + length bs \<le> h_room h \<and> out' = out @ bs"
  by (auto simp: write_out_def)

lemma open_file_Inr [simp]: "open_file h f p out = (Inr bs, out') \<longleftrightarrow> h_file h f = Some bs \<and> out' = out"
  by (auto simp: open_file_def split: option.splits)

lemma copy_file_complete:
  assumes "length buf = 1024" "length out + length rest \<le> h_room h"
  shows "\<exists>b. copy_file h rest i buf out = (Inr (i + length rest, b), out @ rest) \<and> length b = 1024"
  using assms
proof (induction h rest i buf out rule: copy_file.induct)
  case (1 h rest i buf out)
  let ?c = "min 1024 (length rest)"
  let ?b = "take ?c rest @ drop ?c buf"
  have b: "length ?b = 1024" "take ?c ?b = take ?c rest" using "1.prems" by auto
  show ?case
  proof (cases "rest = []")
    case True
    then show ?thesis using "1.prems" by (simp add: copy_file.simps)
  next
    case False
    then have w: "write_out h (take ?c ?b) out = (Inr (), out @ take ?c rest)" using "1.prems" b(2) by (simp add: write_out_def)
    have c: "?c \<noteq> 0" using False by simp
    have "length (out @ take ?c rest) + length (drop ?c rest) \<le> h_room h" using "1.prems"(2) by simp
    from "1.IH" [OF refl refl c w [symmetric] refl b(1) this]
    obtain b' where "copy_file h (drop ?c rest) (i + ?c) ?b (out @ take ?c rest) =
        (Inr (i + ?c + length (drop ?c rest), b'), (out @ take ?c rest) @ drop ?c rest)" "length b' = 1024" by blast
    then show ?thesis using c "1.prems" by (subst copy_file.simps) (simp add: Let_def write_out_def)
  qed
qed

lemma copy_file_sound: "length buf = 1024 \<Longrightarrow> copy_file h rest i buf out = (Inr (n, b), out') \<Longrightarrow> out' = out @ rest \<and> n = i + length rest"
proof (induction h rest i buf out rule: copy_file.induct)
  case (1 h rest i buf out)
  let ?c = "min 1024 (length rest)"
  let ?b = "take ?c rest @ drop ?c buf"
  have b: "length ?b = 1024" "take ?c ?b = take ?c rest" using "1.prems"(1) by auto
  show ?case
  proof (cases "rest = []")
    case True
    then show ?thesis using "1.prems"(2) by (simp add: copy_file.simps)
  next
    case False
    then have c: "?c \<noteq> 0" by simp
    then obtain w where w: "write_out h (take ?c ?b) out = (Inr (), w)"
        "copy_file h (drop ?c rest) (i + ?c) ?b w = (Inr (n, b), out')"
      using "1.prems"(2) [unfolded copy_file.simps [of h rest]] by (auto simp: Let_def split: prod.splits sum.splits if_splits) (simp_all add: min_def split: if_splits)
    then have "w = out @ take ?c rest" unfolding b(2) by simp
    with "1.IH" [OF refl refl c w(1) [symmetric] refl b(1) w(2)] show ?thesis by simp
  qed
qed

lemma pad_setup_complete:
  assumes "length out + (2048 - i) \<le> h_room h"
  shows "pad_setup h (replicate 1024 0) i out = (Inr (), out @ replicate (2048 - i) 0)"
  using assms
proof (induction h "replicate 1024 (0 :: u8)" i out rule: pad_setup.induct)
  case (1 h i out)
  then show ?case
    by (subst pad_setup.simps) (auto simp: write_out_def Let_def simp flip: replicate_add)
qed

lemma pad_setup_sound: "pad_setup h (replicate 1024 0) i out = (Inr (), out') \<Longrightarrow> out' = out @ replicate (2048 - i) 0"
proof (induction h "replicate 1024 (0 :: u8)" i out rule: pad_setup.induct)
  case (1 h i out)
  show ?case
  proof (cases "i < 2048")
    case True
    let ?c = "min 1024 (2048 - i)"
    obtain w where w: "write_out h (take ?c (replicate 1024 0)) out = (Inr (), w)" "pad_setup h (replicate 1024 0) (i + ?c) w = (Inr (), out')"
      using "1.prems" True by (subst (asm) pad_setup.simps) (auto simp: Let_def split: prod.splits sum.splits)
    then show ?thesis using "1.hyps" [OF True refl w(1) [symmetric] refl w(2)] True by (simp flip: replicate_add)
  next
    case False
    then show ?thesis using "1.prems" by (subst (asm) pad_setup.simps) simp
  qed
qed

definition header_ok :: "u8 list \<Rightarrow> bool" where
  "header_ok f \<longleftrightarrow> 32 \<le> length f \<and> long_at 0 f = 0x04100301 \<and> long_at 1 f = 32 \<and> long_at 3 f = 0 \<and> long_at 4 f = 0 \<and> long_at 5 f = 0 \<and>
     long_at 7 f = 0"

lemma long_at_read: "n \<le> length f \<Longrightarrow> 4 * i + 3 < n \<Longrightarrow> long_at i (take n f @ g) = long_at i f"
  by (simp add: long_at_def nth_append)

lemma minix_header_Inr:
  "minix_header p f buf out = (Inr (b, r), out') \<longleftrightarrow> header_ok f \<and> out' = out \<and> b = take 32 f @ drop 32 buf \<and> r = drop 32 f"
  by (cases "32 \<le> length f") (auto simp: minix_header_def read_buf_def Let_def bbind_Inr header_ok_def long_at_read)

lemma put_boot_Inr:
  assumes "length buf = 1024"
  shows "put_boot h mj mn f buf out = (Inr b, out') \<longleftrightarrow> length f = 512 \<and> f ! 510 = 0x55 \<and> f ! 511 = 0xAA \<and>
     length out + 512 \<le> h_room h \<and> out' = out @ f[508 := mn, 509 := mj] \<and> b = (f @ drop 512 buf)[508 := mn, 509 := mj]"
  using assms by (cases "length f = 512") (auto simp: put_boot_def read_buf_def Let_def bbind_Inr nth_append list_update_append)

lemma put_setup_sound:
  assumes "length buf = 1024" "put_setup h f buf out = (Inr b, out')"
  shows "length f \<le> 2048 \<and> out' = out @ f @ replicate (2048 - length f) 0 \<and> b = replicate 1024 0"
  using assms by (auto simp: put_setup_def bbind_Inr dest!: copy_file_sound pad_setup_sound)

lemma put_setup_complete:
  assumes "length buf = 1024" "length f \<le> 2048" "length out + 2048 \<le> h_room h"
  shows "put_setup h f buf out = (Inr (replicate 1024 0), out @ f @ replicate (2048 - length f) 0)"
proof -
  obtain b where "copy_file h f 0 buf out = (Inr (0 + length f, b), out @ f)"
    using copy_file_complete [of buf out f h 0] assms by auto
  then show ?thesis using pad_setup_complete [of "out @ f" "length f" h] assms by (simp add: put_setup_def bbind_def die_if_def)
qed

lemma put_system_sound:
  assumes "length buf = 1024" "put_system h f buf out = (Inr (), out')"
  shows "1024 \<le> length f \<and> long_at 5 f = 0 \<and> length f - 1024 \<le> 0x20000 \<and> out' = out @ drop 1024 f"
  using assms long_at_read [of 1024 f 5 "[]"] by (cases "1024 \<le> length f")
    (auto simp: put_system_def bbind_Inr read_buf_def Let_def long_at_read dest!: copy_file_sound [rotated])

lemma put_system_complete:
  assumes "length buf = 1024" "1024 \<le> length f" "long_at 5 f = 0" "length f - 1024 \<le> 0x20000" "length out + (length f - 1024) \<le> h_room h"
  shows "put_system h f buf out = (Inr (), out @ drop 1024 f)"
proof -
  obtain b where "copy_file h (drop 1024 f) 0 (take 1024 f) out = (Inr (0 + length (drop 1024 f), b), out @ drop 1024 f)"
    using copy_file_complete [of "take 1024 f" out "drop 1024 f" h 0] assms by auto
  then show ?thesis using assms long_at_read [of 1024 f 5 "[]"] by (simp add: put_system_def read_buf_def Let_def bbind_def die_if_def)
qed

definition image_ok :: "u8 list \<Rightarrow> u8 list \<Rightarrow> u8 list \<Rightarrow> bool" where
  "image_ok boot setup system \<longleftrightarrow>
     header_ok boot \<and> length boot = 544 \<and> boot ! 542 = 0x55 \<and> boot ! 543 = 0xAA \<and>
     header_ok setup \<and> length setup \<le> 2080 \<and>
     1024 \<le> length system \<and> long_at 5 system = 0 \<and> length system \<le> 132096"

text \<open>C40: The image builder accepts exactly the files it should, and the image it writes is the one the boot sector expects: the boot
  sector without its header, 512 bytes long with the root device at its bytes 508 and 509 and the boot flag at its end, then
  the setup code without its header, filled up with null bytes to four sectors, then the system without its header.\<close>

theorem build_image:
  assumes argc: "length argv = 4 \<or> length argv = 5"
    and root: "root_device h argv [] = (Inr (mj, mn), [])" "mj = 2 \<or> mj = 3 \<or> mj = 0"
    and files: "h_file h (argv ! 1) = Some boot" "h_file h (argv ! 2) = Some setup" "h_file h (argv ! 3) = Some system"
    and room: "2560 + length system \<le> h_room h"
  shows "build_main h argv [] = (Inr (), img) \<longleftrightarrow>
    image_ok boot setup system \<and>
    img = (drop 32 boot)[508 := mn, 509 := mj] @ drop 32 setup @ replicate (2048 - length (drop 32 setup)) 0 @ drop 1024 system"
proof -
  let ?b = "take 32 boot @ drop 32 (replicate 1024 0)"
  let ?b1 = "(drop 32 boot @ drop 512 ?b)[508 := mn, 509 := mj]"
  let ?b2 = "take 32 setup @ drop 32 ?b1"
  let ?o1 = "(drop 32 boot)[508 := mn, 509 := mj]"
  let ?o2 = "?o1 @ drop 32 setup @ replicate (2048 - length (drop 32 setup)) 0"
  have e: "length argv = 4 \<or> length argv = 5 \<longleftrightarrow> True" using argc by simp
  show ?thesis
  proof
    assume "build_main h argv [] = (Inr (), img)"
    then obtain b2 o2 where m: "header_ok boot" "length (drop 32 boot) = 512" "drop 32 boot ! 510 = 0x55" "drop 32 boot ! 511 = 0xAA"
        "header_ok setup" "put_setup h (drop 32 setup) ?b2 ?o1 = (Inr b2, o2)" "put_system h system b2 o2 = (Inr (), img)"
      using root files by (auto simp: build_main_def bbind_Inr minix_header_Inr put_boot_Inr header_ok_def)
    moreover have "length ?b2 = 1024" using m(1,2,5) by (simp add: header_ok_def)
    ultimately show "image_ok boot setup system \<and> img = ?o1 @ drop 32 setup @ replicate (2048 - length (drop 32 setup)) 0 @ drop 1024 system"
      using put_setup_sound [of ?b2 h "drop 32 setup" ?o1 b2 o2] put_system_sound [of b2 h system o2 img]
      by (auto simp: image_ok_def header_ok_def)
  next
    assume a: "image_ok boot setup system \<and> img = ?o1 @ drop 32 setup @ replicate (2048 - length (drop 32 setup)) 0 @ drop 1024 system"
    have "put_setup h (drop 32 setup) ?b2 ?o1 = (Inr (replicate 1024 0), ?o2)"
      using put_setup_complete [of ?b2 "drop 32 setup" ?o1 h] a room by (auto simp: image_ok_def header_ok_def)
    moreover have "put_system h system (replicate 1024 0) ?o2 = (Inr (), img)"
      using put_system_complete [of "replicate 1024 0" system ?o2 h] a room by (auto simp: image_ok_def header_ok_def)
    ultimately show "build_main h argv [] = (Inr (), img)"
      using argc root files a room by (auto simp: build_main_def bbind_Inr minix_header_Inr put_boot_Inr image_ok_def header_ok_def)
  qed
qed

definition minix_bytes :: "u8 list" where
  "minix_bytes = [1, 3, 16, 4, 32, 0, 0, 0] @ replicate 24 0"

definition some_host :: host where
  "some_host = \<lparr>h_file = [''bootsect'' \<mapsto> minix_bytes @ replicate 510 0 @ [0x55, 0xAA], ''setup'' \<mapsto> minix_bytes @ [1, 2, 3],
     ''system'' \<mapsto> replicate 1024 0 @ [9]], h_rdev = (\<lambda>_. None), h_room = 10000\<rparr>"

theorem build_image_witness:
  "build_main some_host [''build'', ''bootsect'', ''setup'', ''system''] [] =
     (Inr (), replicate 508 0 @ [6, 3, 0x55, 0xAA] @ [1, 2, 3] @ replicate 2045 0 @ [9])"
proof -
  let ?a = "[''build'', ''bootsect'', ''setup'', ''system'']"
  let ?boot = "minix_bytes @ replicate 510 0 @ [0x55, 0xAA]"
  have l: "length minix_bytes = 32" by (simp add: minix_bytes_def)
  have long: "long_at i (minix_bytes @ g) = long_at i minix_bytes" if "i < 8" for i g
    using that long_at_read [of 32 minix_bytes i g] l by simp
  have "header_ok (minix_bytes @ g)" for g unfolding header_ok_def by (simp add: long) (simp add: long_at_def minix_bytes_def nth_append)
  moreover have "long_at 5 (replicate 1024 0 @ [9]) = 0" by (simp add: long_at_def nth_append)
  ultimately have ok: "image_ok ?boot (minix_bytes @ [1, 2, 3]) (replicate 1024 0 @ [9])"
    by (simp add: image_ok_def nth_append) (simp add: minix_bytes_def)
  have z: "(replicate 510 (0 :: u8) @ [0x55, 0xAA])[508 := 6, 509 := 3] = replicate 508 0 @ [6, 3, 0x55, 0xAA]"
  proof -
    have "replicate 510 (0 :: u8) = replicate 508 0 @ [0, 0]" using replicate_add [of 508 2 "0 :: u8"] by (simp add: numeral_eq_Suc)
    then show ?thesis by (simp add: list_update_append)
  qed
  show ?thesis
    using build_image [of ?a some_host 3 6 ?boot "minix_bytes @ [1, 2, 3]" "replicate 1024 0 @ [9]"] ok z l
    by (simp add: root_device_def some_host_def)
qed

end
