(* ===== verification/Spec2Isabelle.thy ===== *)
theory Spec2Isabelle
  imports Init Exec Printk Ioctl Malloc RamDisk InodeStore CString Keyboard SysCall Ctype Build
begin

text \<open>
  A verification development for the linux-0.11 kernel under src/linux-0.11.

  \<^bold>\<open>The program.\<close> The kernel is one program with one global state: tables of tasks, inodes, open files,
  super blocks, buffers and requests, a map of physical page frames, the terminals, and the memory the
  page tables describe. System calls enter it on behalf of the current task; a call that has to wait puts
  the task to sleep on a wait queue and calls the scheduler. The file system sits on the buffer cache,
  the buffer cache on the block device layer, program loading and process creation on memory management
  and on the file system.

  \<^bold>\<open>State and effects.\<close> \<open>Prelude\<close> has the machine types, C arithmetic on 32-bit integers
  with its wrap-around, the outcome type (return, panic, exit of the task, no return, access outside an
  object), the loop combinators and the contract of a bounded queue. \<open>KState\<close> has the
  structures of include/linux as records and the global state as the record \<open>kernel\<close>;
  a pointer to a table entry is its index, a null pointer is \<open>None\<close>, a task pointer is a
  number with 0 as null. A routine takes the state and returns an outcome with the new state. What lies outside the C sources
  is in the record \<open>env\<close>: the other tasks, as what they do to the state while the current one is
  switched out, the drivers' request and write routines, and the fuel of the loops that have no bound
  of their own. The termination theorems say how much fuel is enough; where a property concerns a
  loop, it shows that the loop returns.

  \<^bold>\<open>Theories and sources.\<close>
  \<^item> \<open>Mm\<close>: mm/memory.c. Frames and their reference counts (\<^verbatim>\<open>mem_map\<close>), page tables in physical memory, copying and
    freeing of address spaces, copy on write, sharing and demand loading.
  \<^item> \<open>Sched\<close>: kernel/sched.c. The scheduler, wait queues, the timer list, the clock interrupt, the lazy coprocessor switch.
  \<^item> \<open>Segment\<close>: descriptors of include/linux/sched.h and access to user memory of include/asm/segment.h.
  \<^item> \<open>Tty\<close>: include/linux/tty.h and kernel/chr_drv/tty_io.c. Ring buffers, line discipline, \<^verbatim>\<open>tty_read\<close>, \<^verbatim>\<open>tty_write\<close>.
  \<^item> \<open>Console\<close>: kernel/chr_drv/console.c. The terminal emulation on the memory of a display adapter.
  \<^item> \<open>Ioctl\<close>: kernel/chr_drv/tty_ioctl.c and fs/ioctl.c. Terminal attributes as bytes in user memory.
  \<^item> \<open>BlkDev\<close>: kernel/blk_drv/ll_rw_blk.c, blk.h, ramdisk.c. Requests, the elevator, the RAM disk.
  \<^item> \<open>Hd\<close>: kernel/blk_drv/hd.c. The disk driver as a state machine driven by interrupts, against a controller that
    answers anything; its variables are a record of their own beside the kernel's state.
  \<^item> \<open>Floppy\<close>: kernel/blk_drv/floppy.c. The floppy driver as a state machine of requests, interrupts and timers, an inductive
    step relation whose reachable states have an invariant; its variables are a record of their own too.
  \<^item> \<open>Malloc\<close>: lib/malloc.c. Buckets of equal objects on pages of \<open>Mm\<close>, with the chains of free objects in memory.
  \<^item> \<open>Buffer\<close> and \<open>Cache\<close>: fs/buffer.c. \<open>Buffer\<close> has the operations, \<open>Cache\<close> the invariant of the hash chains
    and the free list and its preservation. \<open>RamDisk\<close> composes cache, request queue and RAM disk driver into a read.
  \<^item> \<open>InodeIO\<close> and \<open>Inode\<close>: fs/inode.c, fs/bitmap.c, fs/truncate.c. Inodes on disk, bitmaps, the block map of a file.
    \<open>InodeStore\<close> composes inodes, super blocks and the buffer cache into the way of an inode to its block and back.
  \<^item> \<open>Namei\<close>: fs/namei.c. \<open>Super\<close>: fs/super.c.
  \<^item> \<open>Files\<close>: fs/file_dev.c, pipe.c, block_dev.c, char_dev.c, read_write.c, open.c, fcntl.c, stat.c. \<open>Pipe\<close> has the
    refinement of pipes, \<open>FileRefs\<close> the invariant of the reference counts of open files across close, dup and fork.
  \<^item> \<open>Serial\<close>: kernel/chr_drv/serial.c and rs_io.s. The interrupts of the serial lines on the queues of \<open>Tty\<close>.
  \<^item> \<open>Keyboard\<close>: kernel/chr_drv/keyboard.S. Scan codes, modifier keys, lamps and the characters put into the console's queue.
  \<^item> \<open>SysCall\<close>: kernel/system_call.s, include/linux/sys.h, mm/page.s, kernel/math/math_emulate.c and, on the user's side,
    include/unistd.h and the stubs of lib/. The dispatch of the system calls over all components, and signals on the way back.
  \<^item> \<open>Traps\<close>: kernel/traps.c, the gates of include/asm/system.h and the interrupt descriptor table after start-up.
  \<^item> \<open>CString\<close>: include/string.h, at the level of the string instructions. \<open>Ctype\<close>: lib/ctype.c and include/ctype.h.
  \<^item> \<open>Build\<close>: tools/build.c, the host tool that writes the disk image.
  \<^item> \<open>Process\<close>: kernel/fork.c, exit.c, signal.c, sys.c. \<open>Exec\<close>: fs/exec.c.
  \<^item> \<open>Boot\<close>: kernel/mktime.c and the clock and memory set-up of init/main.c. \<open>Init\<close>: \<^verbatim>\<open>main\<close> of init/main.c, which composes the
    initialisation of all parts. \<open>Vsprintf\<close>: kernel/vsprintf.c. \<open>Printk\<close>: kernel/printk.c and panic.c.

  \<^bold>\<open>What the lemmas show.\<close> Memory: reference counts balance over copy and free, a write to a shared page
  gets a private copy. Scheduling: the choice of \<^verbatim>\<open>schedule\<close>, that sleepers are woken, timers,
  SIGKILL. Buffer cache: \<^verbatim>\<open>getblk\<close> returns the right buffer and keeps the structure sound;
  \<^verbatim>\<open>bread\<close> of the RAM disk reads the disk as its users see it. File system: bitmaps allocate the
  lowest free bit, an inode written to its block is read back from it, directory entries match by name. Files: counts of references are right after
  close, dup and fork; pipes and terminal queues are queues. Processes: fork, kill, signal frames, user identities, orphans.
  Execution: the argument area and the initial stack. Console: every output stays on the screen and within the adapter's
  memory. Disk: commands name the right sector, blocks arrive, failing requests are given up. Floppy: no sequence of events
  makes the driver address a place that no drive has, as long as it does not read past its table of types. Kernel heap: objects in use never overlap and are never touched.
  Terminal attributes survive the round trip. Start-up: calendar, clock and memory bounds, and that
  \<^verbatim>\<open>main\<close> ends its initialisation in a state with the invariants that the other theorems assume.
  Formatting: numbers are printed and read back, and messages reach the console. Serial lines: characters leave in order.
  Keyboard: the driver knows which keys are held. System calls: numbers and table agree, signals reach their handlers. Image
  builder: it accepts the right files and lays the image out as the boot sector expects. Interrupts: every vector leads to
  its handler, through a gate of the right type. Strings: \<^verbatim>\<open>memmove\<close>, \<^verbatim>\<open>strtok\<close> and
  \<^verbatim>\<open>strstr\<close> do what they promise.

  \<^bold>\<open>Interfaces.\<close> Four contracts are locales, interpreted on the model's own operations. \<open>fifo\<close> (\<open>Prelude\<close>) is a bounded queue;
  \<open>Tty\<close> interprets it with the ring buffers, and \<open>Console\<close> uses its facts to drain one. \<open>page_allocator\<close> (\<open>Mm\<close>) is what a client
  of \<^verbatim>\<open>get_free_page\<close> and \<^verbatim>\<open>free_page\<close> relies on; \<open>Malloc\<close> is such a client. \<open>bitmap\<close> (\<open>Inode\<close>) is what block and inode
  allocation rely on. \<open>block_reader\<close> (\<open>RamDisk\<close>) is what \<^verbatim>\<open>bread\<close> relies on of a block device.

  \<^bold>\<open>Bounds and fuel.\<close> A loop over a static table has the table's length as its bound. A loop with no bound of its own takes its fuel from
  \<open>env\<close>; each property about such a loop states the fuel that is enough, for instance more than the number of page
  frames for the chains of \<open>Malloc\<close>, since each bucket has a frame of its own, or more than the number of bytes for a pipe.
  The loops of the disk driver that poll a register are bounded in the source and keep these bounds.

  \<^bold>\<open>Not modelled.\<close> The 16-bit boot code (boot/bootsect.s, boot/setup.s), of boot/head.s everything but the interrupt table, the
  stubs of kernel/asm.s, which save registers and call kernel/traps.c; port input and output apart from the disk
  controllers', the serial lines' and the keyboard's, and the interrupt controller (no state of the C program); what
  kernel/traps.c prints; the first user process of init/main.c; the tables of the keyboards that include/linux/config.h
  does not select; and the third-party sources (glibc, coreutils, Lua) the repository keeps for reading. Interrupts happen only where a
  task gives up the processor, except in \<open>Hd\<close>, \<open>Floppy\<close>, \<open>Serial\<close> and \<open>Keyboard\<close>, where each interrupt is a step.
\<close>

end
